(* ===== verification/Furikup_Prelude.thy ===== *)
theory Furikup_Prelude
  imports Main "HOL-Library.Word"
begin

text \<open>
  Shared base of the development: faults (the undefined behaviours of C the models track), the
  C library functions on strings, integers and line input that the sources call, and the generic
  lemmas about them.

  A C string is the list of its characters before the terminating NUL byte. A C \<open>int\<close> is
  an \<open>int\<close>; the places where its 32-bit width matters say so.
\<close>

unbundle bit_operations_syntax

section \<open>Faults\<close>

text \<open>
  What the sources do out of bounds is undefined behaviour in C. A model of code that can reach it
  returns \<open>Inl\<close> of the fault; \<open>Inr\<close> is a run whose every access is defined.
\<close>

datatype fault =
    Buffer_overflow        \<comment> \<open>a write past the end of an array\<close>
  | Out_of_bounds          \<comment> \<open>an index outside an array\<close>
  | Unterminated_string    \<comment> \<open>a string read from an array without a NUL\<close>
  | Uninitialised_read     \<comment> \<open>a read of an automatic variable before any write\<close>
  | Signed_overflow        \<comment> \<open>an \<open>int\<close> addition outside 32 bits\<close>
  | Division_by_zero
  | Bad_format             \<comment> \<open>a printf conversion with no argument\<close>
  | Null_pointer

type_synonym 'a res = "fault + 'a"

fun bindR :: "'a res \<Rightarrow> ('a \<Rightarrow> 'b res) \<Rightarrow> 'b res" where
  "bindR (Inl e) f = Inl e"
| "bindR (Inr x) f = f x"

named_theorems res_simps \<open>rules that decide when a fallible operation succeeds\<close>

lemma bindR_eq_Inr [res_simps]: "bindR r f = Inr y \<longleftrightarrow> (\<exists>x. r = Inr x \<and> f x = Inr y)"
  by (cases r) auto

lemma bindR_eq_Inl [res_simps]:
  "bindR r f = Inl e \<longleftrightarrow> r = Inl e \<or> (\<exists>x. r = Inr x \<and> f x = Inl e)"
  by (cases r) auto

lemma bindR_assoc: "bindR (bindR r f) g = bindR r (\<lambda>x. bindR (f x) g)"
  by (cases r) auto

lemma bindR_cong [fundef_cong]:
  "r = r' \<Longrightarrow> (\<And>x. r' = Inr x \<Longrightarrow> f x = f' x) \<Longrightarrow> bindR r f = bindR r' f'"
  by (cases r') auto

text \<open>
  A run that does not fault and whose result has a property; the rule for a sequence is applied step by
  step.
\<close>

definition ensures :: "'a res \<Rightarrow> ('a \<Rightarrow> bool) \<Rightarrow> bool" where
  "ensures r P \<longleftrightarrow> (case r of Inl _ \<Rightarrow> False | Inr x \<Rightarrow> P x)"

lemma ensures_simps [simp]: "ensures (Inr x) P = P x" "\<not> ensures (Inl e) P"
  by (simp_all add: ensures_def)

lemma ensures_bind: "ensures r Q \<Longrightarrow> (\<And>x. Q x \<Longrightarrow> ensures (f x) P) \<Longrightarrow> ensures (bindR r f) P"
  by (cases r) simp_all

lemma ensures_mono: "ensures r Q \<Longrightarrow> (\<And>x. Q x \<Longrightarrow> P x) \<Longrightarrow> ensures r P"
  by (cases r) simp_all

lemma ensures_iff: "ensures r P \<longleftrightarrow> (\<exists>x. r = Inr x \<and> P x)"
  by (cases r) simp_all

text \<open>Running a fallible step over a list stops at the first fault.\<close>

fun foldR :: "('a \<Rightarrow> 's \<Rightarrow> 's res) \<Rightarrow> 'a list \<Rightarrow> 's \<Rightarrow> 's res" where
  "foldR f [] s = Inr s"
| "foldR f (x # xs) s = bindR (f x s) (foldR f xs)"

lemma foldR_append: "foldR f (xs @ ys) s = bindR (foldR f xs s) (foldR f ys)"
proof (induction xs arbitrary: s)
  case Nil
  then show ?case by simp
next
  case (Cons x xs)
  then show ?case by (cases "f x s") simp_all
qed

lemma foldR_invariant:
  assumes "\<And>x s s'. P s \<Longrightarrow> f x s = Inr s' \<Longrightarrow> P s'"
  shows "P s \<Longrightarrow> foldR f xs s = Inr s' \<Longrightarrow> P s'"
proof (induction xs arbitrary: s)
  case Nil
  then show ?case by simp
next
  case (Cons x xs)
  then obtain t where "f x s = Inr t" "foldR f xs t = Inr s'"
    by (auto simp: res_simps)
  with assms Cons.prems(1) show ?case by (blast intro: Cons.IH)
qed

text \<open>A fallible function over a list, in order.\<close>

fun mapR :: "('a \<Rightarrow> 'b res) \<Rightarrow> 'a list \<Rightarrow> 'b list res" where
  "mapR f [] = Inr []"
| "mapR f (x # xs) = bindR (f x) (\<lambda>y. bindR (mapR f xs) (\<lambda>ys. Inr (y # ys)))"

lemma mapR_Inr: "(\<And>x. x \<in> set xs \<Longrightarrow> f x = Inr (g x)) \<Longrightarrow> mapR f xs = Inr (map g xs)"
  by (induction xs) simp_all

lemma mapR_InrD: "mapR f xs = Inr ys \<Longrightarrow> length ys = length xs \<and> (\<forall>x\<in>set xs. \<exists>y. f x = Inr y)"
  by (induction xs arbitrary: ys) (auto simp: res_simps)

lemma mapR_ex: "(\<And>x. x \<in> set xs \<Longrightarrow> \<exists>y. f x = Inr y) \<Longrightarrow> \<exists>ys. mapR f xs = Inr ys \<and> length ys = length xs"
proof (induction xs)
  case Nil
  then show ?case by simp
next
  case (Cons x xs)
  from Cons.prems [of x] obtain y where "f x = Inr y" by auto
  moreover from Cons obtain ys where "mapR f xs = Inr ys \<and> length ys = length xs" by force
  ultimately show ?case by simp
qed

text \<open>
  An operation on a state that also leaves a trace of what it asked of its surroundings, and the
  sequence of such operations.
\<close>

type_synonym ('s, 'a) op = "'s \<Rightarrow> ('s \<times> 'a list) res"

fun runs :: "('s, 'a) op list \<Rightarrow> ('s, 'a) op" where
  "runs [] s = Inr (s, [])"
| "runs (f # fs) s = bindR (f s) (\<lambda>(s, as). bindR (runs fs s) (\<lambda>(s, bs). Inr (s, as @ bs)))"

definition emit :: "'a list \<Rightarrow> ('s, 'a) op" where
  "emit as s = Inr (s, as)"

definition modify :: "('s \<Rightarrow> 's) \<Rightarrow> ('s, 'a) op" where
  "modify f s = Inr (f s, [])"

text \<open>A pure value that may be a fault, in front of an operation that uses it.\<close>

definition using_res :: "'b res \<Rightarrow> ('b \<Rightarrow> ('s, 'a) op) \<Rightarrow> ('s, 'a) op" where
  "using_res r f s = bindR r (\<lambda>x. f x s)"

lemma emit_Inr [res_simps]: "emit as s = Inr x \<longleftrightarrow> x = (s, as)"
  by (auto simp: emit_def)

lemma modify_Inr [res_simps]: "modify f s = Inr x \<longleftrightarrow> x = (f s, [])"
  by (auto simp: modify_def)

lemma using_res_Inr [res_simps]: "using_res r f s = Inr x \<longleftrightarrow> (\<exists>y. r = Inr y \<and> f y s = Inr x)"
  by (auto simp: using_res_def res_simps)

section \<open>Characters and strings\<close>

abbreviation NUL :: char where "NUL \<equiv> CHR 0x00"
abbreviation CR :: char where "CR \<equiv> CHR 0x0D"
abbreviation LF :: char where "LF \<equiv> CHR 0x0A"

abbreviation crlf :: string where "crlf \<equiv> [CR, LF]"

text \<open>The string an array of characters holds: everything before the first NUL.\<close>

definition cstr :: "char list \<Rightarrow> string" where
  "cstr s = takeWhile (\<lambda>c. c \<noteq> NUL) s"

lemma cstr_no_nul: "NUL \<notin> set s \<Longrightarrow> cstr s = s"
  by (auto simp: cstr_def takeWhile_eq_all_conv)

lemma nul_notin_cstr [simp]: "NUL \<notin> set (cstr s)"
  by (auto simp: cstr_def dest: set_takeWhileD)

lemma length_cstr_le: "length (cstr s) \<le> length s"
  by (simp add: cstr_def length_takeWhile_le)

text \<open>\<open>tolower\<close> in the C locale.\<close>

definition tolower :: "char \<Rightarrow> char" where
  "tolower c = (if 65 \<le> (of_char c :: nat) \<and> (of_char c :: nat) \<le> 90
                then char_of ((of_char c :: nat) + 32) else c)"

text \<open>\<open>strcmp(s, t) == 0\<close> is \<open>s = t\<close>; the others are zero when these hold.\<close>

definition strcasecmp0 :: "string \<Rightarrow> string \<Rightarrow> bool" where
  "strcasecmp0 s t \<longleftrightarrow> map tolower s = map tolower t"

definition strncmp0 :: "nat \<Rightarrow> string \<Rightarrow> string \<Rightarrow> bool" where
  "strncmp0 n s t \<longleftrightarrow> take n s = take n t"

definition strncasecmp0 :: "nat \<Rightarrow> string \<Rightarrow> string \<Rightarrow> bool" where
  "strncasecmp0 n s t \<longleftrightarrow> map tolower (take n s) = map tolower (take n t)"

text \<open>
  \<open>strcpy\<close> into an array of \<open>cap\<close> characters is defined when the string and its
  NUL fit. \<open>strncpy(d, s, n)\<close> into an array of \<open>n\<close> never overflows but leaves no NUL
  when \<open>s\<close> has \<open>n\<close> characters or more; the array is then modelled by its \<open>n\<close>
  characters, and reading a string from it (\<open>read_array\<close>) is a fault.
\<close>

definition strcpy_to :: "nat \<Rightarrow> string \<Rightarrow> string res" where
  "strcpy_to cap s = (if length s < cap then Inr s else Inl Buffer_overflow)"

definition strncpy_to :: "nat \<Rightarrow> string \<Rightarrow> char list" where
  "strncpy_to n s = take n s"

definition read_array :: "nat \<Rightarrow> char list \<Rightarrow> string res" where
  "read_array cap a = (if length a < cap then Inr a else Inl Unterminated_string)"

lemma strcpy_to_Inr [res_simps]: "strcpy_to cap s = Inr t \<longleftrightarrow> length s < cap \<and> t = s"
  by (auto simp: strcpy_to_def)

lemma read_array_Inr [res_simps]: "read_array cap a = Inr t \<longleftrightarrow> length a < cap \<and> t = a"
  by (auto simp: read_array_def)

lemma length_strncpy_to: "length (strncpy_to n s) \<le> n"
  by (simp add: strncpy_to_def)

lemma read_strncpy: "length s < n \<Longrightarrow> read_array n (strncpy_to n s) = Inr s"
  by (simp add: read_array_def strncpy_to_def)

text \<open>\<open>strcat\<close> onto a string that an array of \<open>cap\<close> characters already holds.\<close>

definition strcat_to :: "nat \<Rightarrow> string \<Rightarrow> string \<Rightarrow> string res" where
  "strcat_to cap s t = strcpy_to cap (s @ t)"

text \<open>\<open>snprintf\<close> and \<open>vsnprintf\<close> keep at most \<open>n - 1\<close> characters.\<close>

definition snprintf_to :: "nat \<Rightarrow> string \<Rightarrow> string" where
  "snprintf_to n s = take (n - 1) s"

lemma length_snprintf_to: "0 < n \<Longrightarrow> length (snprintf_to n s) < n"
  by (simp add: snprintf_to_def)

text \<open>
  \<open>vsnprintf(buf, n, fmt, args)\<close> where \<open>fmt\<close> is a run-time string and there are no
  arguments: text is copied, a doubled percent sign is one, any other conversion reads an argument
  that was not passed.
\<close>

fun format_noargs :: "string \<Rightarrow> string res" where
  "format_noargs [] = Inr []"
| "format_noargs (c # cs) =
     (if c \<noteq> CHR ''%'' then bindR (format_noargs cs) (\<lambda>r. Inr (c # r))
      else case cs of
          [] \<Rightarrow> Inl Bad_format
        | d # ds \<Rightarrow> if d = CHR ''%'' then bindR (format_noargs ds) (\<lambda>r. Inr (CHR ''%'' # r))
                    else Inl Bad_format)"

lemma format_noargs_plain: "CHR ''%'' \<notin> set s \<Longrightarrow> format_noargs s = Inr s"
  by (induction s rule: format_noargs.induct) auto

section \<open>Tokens and lines\<close>

text \<open>
  One call of \<open>strtok\<close>: delimiters before the token are skipped; the token runs to the
  next delimiter, which is overwritten, so the next call starts behind it. \<open>None\<close> is the
  null pointer.
\<close>

definition strtok :: "char set \<Rightarrow> string \<Rightarrow> (string \<times> string) option" where
  "strtok D s =
     (let t = dropWhile (\<lambda>c. c \<in> D) s in
      if t = [] then None
      else Some (takeWhile (\<lambda>c. c \<notin> D) t, drop 1 (dropWhile (\<lambda>c. c \<notin> D) t)))"

lemma strtok_token:
  assumes "t \<noteq> []" "set t \<inter> D = {}" "d \<in> D"
  shows "strtok D (t @ d # rest) = Some (t, rest)"
proof -
  have "dropWhile (\<lambda>c. c \<in> D) (t @ d # rest) = t @ d # rest"
    using assms by (cases t) auto
  moreover have "takeWhile (\<lambda>c. c \<notin> D) (t @ d # rest) = t"
    using assms by (subst takeWhile_append2) auto
  moreover have "dropWhile (\<lambda>c. c \<notin> D) (t @ d # rest) = d # rest"
    using assms by (subst dropWhile_append2) auto
  ultimately show ?thesis by (simp add: strtok_def)
qed

lemma strtok_last:
  assumes "t \<noteq> []" "set t \<inter> D = {}"
  shows "strtok D t = Some (t, [])"
proof -
  have "dropWhile (\<lambda>c. c \<in> D) t = t"
    using assms by (cases t) auto
  moreover have "takeWhile (\<lambda>c. c \<notin> D) t = t" "dropWhile (\<lambda>c. c \<notin> D) t = []"
    using assms by (auto simp: takeWhile_eq_all_conv dropWhile_eq_Nil_conv)
  ultimately show ?thesis using assms(1) by (simp only: strtok_def Let_def if_False drop_Nil)
qed

lemma strtok_none: "set s \<subseteq> D \<Longrightarrow> strtok D s = None"
  by (simp add: strtok_def dropWhile_eq_Nil_conv subset_iff)

text \<open>
  \<open>fgets(buf, n, fd)\<close>: at most \<open>n - 1\<close> bytes, up to and including a line feed;
  the null pointer at the end of the file.
\<close>

fun line_of :: "nat \<Rightarrow> string \<Rightarrow> string \<times> string" where
  "line_of 0 s = ([], s)"
| "line_of (Suc k) [] = ([], [])"
| "line_of (Suc k) (c # s) =
     (if c = LF then ([LF], s)
      else let (l, r) = line_of k s in (c # l, r))"

definition fgets :: "nat \<Rightarrow> string \<Rightarrow> (string \<times> string) option" where
  "fgets n s = (if s = [] then None else Some (line_of (n - 1) s))"

lemma line_of_append: "line_of k s = (l, r) \<Longrightarrow> s = l @ r"
  by (induction k s arbitrary: l r rule: line_of.induct) (auto split: if_splits prod.splits)

lemma line_of_nonempty: "s \<noteq> [] \<Longrightarrow> line_of (Suc k) s = (l, r) \<Longrightarrow> l \<noteq> []"
  by (cases s) (auto split: if_splits prod.splits)

lemma line_of_length: "line_of k s = (l, r) \<Longrightarrow> length l \<le> k"
  by (induction k s arbitrary: l r rule: line_of.induct) (auto split: if_splits prod.splits)

lemma line_of_full:
  "LF \<notin> set l \<Longrightarrow> length l < k \<Longrightarrow> line_of k (l @ LF # r) = (l @ [LF], r)"
proof (induction l arbitrary: k)
  case Nil
  then show ?case by (cases k) auto
next
  case (Cons c l)
  then show ?case by (cases k) auto
qed

lemma fgets_shorter: "1 < n \<Longrightarrow> fgets n s = Some (l, r) \<Longrightarrow> length r < length s"
proof -
  assume n: "1 < n" and f: "fgets n s = Some (l, r)"
  then have ne: "s \<noteq> []" and eq: "line_of (Suc (n - 2)) s = (l, r)"
    by (auto simp: fgets_def Suc_diff_Suc numeral_2_eq_2 split: if_splits)
  from eq have "s = l @ r" by (rule line_of_append)
  moreover from ne eq have "l \<noteq> []" by (rule line_of_nonempty)
  ultimately show ?thesis by simp
qed

section \<open>Integers\<close>

text \<open>Division and remainder truncate towards zero in C.\<close>

definition c_div :: "int \<Rightarrow> int \<Rightarrow> int" where
  "c_div a b = sgn a * sgn b * (\<bar>a\<bar> div \<bar>b\<bar>)"

definition c_mod :: "int \<Rightarrow> int \<Rightarrow> int" where
  "c_mod a b = a - b * c_div a b"

lemma c_div_nonneg: "0 \<le> a \<Longrightarrow> 0 < b \<Longrightarrow> c_div a b = a div b"
  by (cases "a = 0") (simp_all add: c_div_def)

lemma c_mod_nonneg: "0 \<le> a \<Longrightarrow> 0 < b \<Longrightarrow> c_mod a b = a mod b"
  by (simp add: c_mod_def c_div_nonneg minus_mult_div_eq_mod)

text \<open>Addition of \<open>int\<close>s, undefined outside their 32 bits.\<close>

definition add_int :: "int \<Rightarrow> int \<Rightarrow> int res" where
  "add_int a b = (if - (2 ^ 31) \<le> a + b \<and> a + b < 2 ^ 31 then Inr (a + b) else Inl Signed_overflow)"

lemma add_int_Inr [res_simps]: "add_int a b = Inr c \<longleftrightarrow> - (2 ^ 31) \<le> a + b \<and> a + b < 2 ^ 31 \<and> c = a + b"
  by (auto simp: add_int_def)

text \<open>The value of an \<open>int\<close> read as unsigned, as a comparison with \<open>size_t\<close> does.\<close>

definition as_unsigned :: "int \<Rightarrow> int" where
  "as_unsigned x = x mod 2 ^ 32"

text \<open>\<open>%08X\<close> of an \<open>int\<close>.\<close>

definition hex_digit :: "nat \<Rightarrow> char" where
  "hex_digit d = (if d < 10 then char_of (48 + d) else char_of (55 + d))"

text \<open>\<open>%x\<close>: no padding, lower case.\<close>

definition show_hex_lower :: "int \<Rightarrow> string" where
  "show_hex_lower x =
     (let d = dropWhile (\<lambda>c. c = CHR ''0'')
          (map (\<lambda>i. tolower (hex_digit (nat (as_unsigned x div 16 ^ i mod 16)))) (rev [0..<8]))
      in if d = [] then ''0'' else d)"

definition show_hex8 :: "int \<Rightarrow> string" where
  "show_hex8 x = map (\<lambda>i. hex_digit (nat (as_unsigned x div 16 ^ i mod 16))) (rev [0..<8])"

text \<open>Decimal output (\<open>%d\<close>) and \<open>atoi\<close>.\<close>

definition digit_char :: "nat \<Rightarrow> char" where
  "digit_char d = char_of (48 + d)"

fun show_nat :: "nat \<Rightarrow> string" where
  "show_nat n = (if n < 10 then [digit_char n] else show_nat (n div 10) @ [digit_char (n mod 10)])"

declare show_nat.simps [simp del]

lemma digit_chars:
  "digit_char 0 = CHR ''0''" "digit_char (Suc 0) = CHR ''1''" "digit_char 2 = CHR ''2''" "digit_char 3 = CHR ''3''"
  "digit_char 4 = CHR ''4''" "digit_char 5 = CHR ''5''" "digit_char 6 = CHR ''6''" "digit_char 7 = CHR ''7''"
  "digit_char 8 = CHR ''8''" "digit_char 9 = CHR ''9''"
  by code_simp+

definition show_int :: "int \<Rightarrow> string" where
  "show_int i = (if i < 0 then CHR ''-'' # show_nat (nat (- i)) else show_nat (nat i))"

definition is_digit :: "char \<Rightarrow> bool" where
  "is_digit c \<longleftrightarrow> 48 \<le> (of_char c :: nat) \<and> (of_char c :: nat) \<le> 57"

definition is_space :: "char \<Rightarrow> bool" where
  "is_space c \<longleftrightarrow> c = CHR '' '' \<or> (9 \<le> (of_char c :: nat) \<and> (of_char c :: nat) \<le> 13)"

fun digits_value :: "int \<Rightarrow> string \<Rightarrow> int" where
  "digits_value acc [] = acc"
| "digits_value acc (c # s) =
     (if is_digit c then digits_value (10 * acc + int (of_char c - 48)) s else acc)"

text \<open>The C library's \<open>atoi\<close> is \<open>strtol\<close> in base 10, which saturates at the limits of a 32-bit \<open>long\<close>.\<close>

definition clamp32 :: "int \<Rightarrow> int" where
  "clamp32 x = max (- (2 ^ 31)) (min (2 ^ 31 - 1) x)"

definition atoi :: "string \<Rightarrow> int" where
  "atoi s = (case dropWhile is_space s of
      [] \<Rightarrow> 0
    | c # t \<Rightarrow> if c = CHR ''-'' then clamp32 (- digits_value 0 t)
               else if c = CHR ''+'' then clamp32 (digits_value 0 t)
               else clamp32 (digits_value 0 (c # t)))"

lemma of_char_digit_char: "d < 10 \<Longrightarrow> (of_char (digit_char d) :: nat) = 48 + d"
  by (simp add: digit_char_def)

lemma is_digit_digit_char: "d < 10 \<Longrightarrow> is_digit (digit_char d)"
  by (simp add: is_digit_def of_char_digit_char)

lemma digits_value_append:
  "list_all is_digit s \<Longrightarrow> digits_value acc (s @ t) = digits_value (digits_value acc s) t"
  by (induction s arbitrary: acc) auto

lemma show_nat_digits: "list_all is_digit (show_nat n)"
proof (induction n rule: show_nat.induct)
  case (1 n)
  then show ?case
    by (subst show_nat.simps) (auto simp: is_digit_digit_char)
qed

lemma show_nat_nonempty: "show_nat n \<noteq> []"
  by (subst show_nat.simps) simp

lemma digits_value_show_nat: "digits_value 0 (show_nat n) = int n"
proof (induction n rule: show_nat.induct)
  case (1 n)
  show ?case
  proof (cases "n < 10")
    case True
    then show ?thesis
      by (subst show_nat.simps) (simp add: is_digit_digit_char of_char_digit_char)
  next
    case False
    with 1 have "digits_value 0 (show_nat (n div 10)) = int (n div 10)" by simp
    with False show ?thesis
      by (subst show_nat.simps)
         (simp add: digits_value_append show_nat_digits is_digit_digit_char of_char_digit_char
            zdiv_int zmod_int)
  qed
qed

lemma digit_not_space: "is_digit c \<Longrightarrow> \<not> is_space c"
  by (auto simp: is_digit_def is_space_def)

lemma digit_not_sign: "is_digit c \<Longrightarrow> c \<noteq> CHR ''-'' \<and> c \<noteq> CHR ''+''"
  by (auto simp: is_digit_def)

text \<open>What \<open>%d\<close> prints, \<open>atoi\<close> reads back.\<close>

lemma atoi_show_nat: "n < 2 ^ 31 \<Longrightarrow> atoi (show_nat n) = int n"
proof -
  assume n: "n < 2 ^ 31"
  obtain c t where ct: "show_nat n = c # t"
    using show_nat_nonempty by (cases "show_nat n") auto
  then have "is_digit c" using show_nat_digits [of n] by simp
  then have "atoi (show_nat n) = clamp32 (digits_value 0 (show_nat n))"
    using digit_not_space digit_not_sign by (auto simp: atoi_def ct)
  with n show ?thesis
    by (simp add: digits_value_show_nat clamp32_def)
qed

lemma length_show_nat: "n < 10 ^ k \<Longrightarrow> 0 < k \<Longrightarrow> length (show_nat n) \<le> k"
proof (induction n arbitrary: k rule: show_nat.induct)
  case (1 n)
  show ?case
  proof (cases "n < 10")
    case True
    with 1 show ?thesis by (subst show_nat.simps) simp
  next
    case False
    with "1.prems" obtain k' where k: "k = Suc k'" "0 < k'"
      by (cases k; cases "k - 1") auto
    with "1.prems" have "n div 10 < 10 ^ k'" by (simp add: less_mult_imp_div_less mult.commute)
    with "1.IH" [OF False] k have "length (show_nat (n div 10)) \<le> k'" by simp
    with False k show ?thesis by (subst show_nat.simps) simp
  qed
qed

end
