(* ===== verification/Sip_If.thy ===== *)
theory Sip_If
  imports Furikup_Prelude
begin

text \<open>
  The interface between the SIP engine and a user interface, SIPEngine/sipengineif.h: the contact
  entry, the events in both directions with their numbers and parameters, and the two message
  helpers of sipengine.c that build events from formatted text.
\<close>

record contact =
  nickname :: string
  firstname :: string
  lastname :: string
  sipuri :: string

section \<open>Codes\<close>

definition "SUI_SIP_STATE_DISCONNECTED = (0::int)"
definition "SUI_SIP_STATE_CONNECTING = (1::int)"
definition "SUI_SIP_STATE_CONNECTED = (2::int)"
definition "SUI_SIP_STATE_TRYING = (3::int)"
definition "SUI_SIP_STATE_INCOMING = (4::int)"
definition "SUI_SIP_STATE_ESTABLISHED = (5::int)"

lemmas SUI_SIP_STATE_defs = SUI_SIP_STATE_DISCONNECTED_def SUI_SIP_STATE_CONNECTING_def
  SUI_SIP_STATE_CONNECTED_def SUI_SIP_STATE_TRYING_def SUI_SIP_STATE_INCOMING_def
  SUI_SIP_STATE_ESTABLISHED_def

definition "SUI_STARTUP_STATE_BOOT = (0::int)"
definition "SUI_STARTUP_STATE_REGISTER = (1::int)"
definition "SUI_STARTUP_STATE_READY = (2::int)"

lemmas SUI_STARTUP_STATE_defs = SUI_STARTUP_STATE_BOOT_def SUI_STARTUP_STATE_REGISTER_def
  SUI_STARTUP_STATE_READY_def

definition "SUI_PRESENCE_OFFLINE = (0::int)"
definition "SUI_PRESENCE_ONLINE = (1::int)"
definition "SUI_PRESENCE_BUSY = (2::int)"
definition "SUI_PRESENCE_AWAY = (3::int)"
definition "SUI_PRESENCE_ON_PHONE = (4::int)"

lemmas SUI_PRESENCE_defs = SUI_PRESENCE_OFFLINE_def SUI_PRESENCE_ONLINE_def
  SUI_PRESENCE_BUSY_def SUI_PRESENCE_AWAY_def SUI_PRESENCE_ON_PHONE_def

definition "SUI_RC_OK = (0::int)"
definition "SUI_RC_UNKNOWN_EVENT = (- 1::int)"

section \<open>Events\<close>

text \<open>From the engine to the user interface. A null caller is \<open>None\<close>.\<close>

datatype in_event =
    IN_INCOMING_CALL "string option" int
  | IN_SIP_STATE int
  | IN_STARTUP int
  | IN_ADDRESS_BOOK "contact list" int
  | IN_INFO_MESSAGE string
  | IN_ERROR_MESSAGE string

fun in_event_id :: "in_event \<Rightarrow> int" where
  "in_event_id (IN_INCOMING_CALL caller idx) = 1"
| "in_event_id (IN_SIP_STATE st) = 2"
| "in_event_id (IN_STARTUP st) = 4"
| "in_event_id (IN_ADDRESS_BOOK book n) = 6"
| "in_event_id (IN_INFO_MESSAGE msg) = 7"
| "in_event_id (IN_ERROR_MESSAGE msg) = 8"

text \<open>From the user interface to the engine; any other number is \<open>OUT_OTHER\<close>.\<close>

datatype out_event =
    OUT_HANGUP
  | OUT_NEW_CALL string
  | OUT_ANSWER
  | OUT_REJECT
  | OUT_CHANGE_PRESENCE int
  | OUT_SHUTDOWN
  | OUT_OTHER int

fun out_event_id :: "out_event \<Rightarrow> int" where
  "out_event_id OUT_HANGUP = 0"
| "out_event_id (OUT_NEW_CALL uri) = 1"
| "out_event_id OUT_ANSWER = 2"
| "out_event_id OUT_REJECT = 3"
| "out_event_id (OUT_CHANGE_PRESENCE p) = 4"
| "out_event_id OUT_SHUTDOWN = 5"
| "out_event_id (OUT_OTHER n) = n"

section \<open>Messages\<close>

text \<open>
  \<open>InfoMessage\<close> and \<open>ErrorMessage\<close> format into 256 bytes and raise the event.
  The argument is the text their format and arguments produce; where the sources pass a run-time
  string as the format itself, that text is \<open>format_noargs\<close> of the string.
\<close>

definition InfoMessage :: "string \<Rightarrow> in_event" where
  "InfoMessage text = IN_INFO_MESSAGE (snprintf_to 256 text)"

definition ErrorMessage :: "string \<Rightarrow> in_event" where
  "ErrorMessage text = IN_ERROR_MESSAGE (snprintf_to 256 text)"

end
