(* ===== verification/Config.thy ===== *)
theory Config
  imports Sip_If
begin

text \<open>
  The engine's settings, SIPEngine/config.c, and the parser of sipcfg.ini that fills them,
  SIPEngine/config_file.c. The static variables of config.c are one record; its character arrays
  are filled with \<open>strncpy\<close> (so may lack a terminator) except the log file's name, which is
  filled with \<open>strcpy\<close>.
\<close>

section \<open>The settings\<close>

record config =
  configServer :: "char list"
  configUser :: "char list"
  configPassword :: "char list"
  configStunServer :: "char list"
  logFile :: "char list"
  configStunPort :: int
  configNat :: int
  useVideo :: int
  useUsb :: int
  useHeadset :: int
  useTestMode :: int
  useInputFile :: int

definition config_initial :: config where
  "config_initial =
     \<lparr>configServer = [], configUser = [], configPassword = [], configStunServer = [], logFile = [],
      configStunPort = 3478, configNat = 0, useVideo = 0, useUsb = 0, useHeadset = 0,
      useTestMode = 0, useInputFile = 0\<rparr>"

definition config_set_server :: "string \<Rightarrow> config \<Rightarrow> config" where
  "config_set_server server c = c\<lparr>configServer := strncpy_to 128 server\<rparr>"

definition config_set_user :: "string \<Rightarrow> config \<Rightarrow> config" where
  "config_set_user user c = c\<lparr>configUser := strncpy_to 128 user\<rparr>"

definition config_set_password :: "string \<Rightarrow> config \<Rightarrow> config" where
  "config_set_password password c = c\<lparr>configPassword := strncpy_to 64 password\<rparr>"

definition config_set_nat_traversal :: "int \<Rightarrow> config \<Rightarrow> config" where
  "config_set_nat_traversal natted c = c\<lparr>configNat := natted\<rparr>"

definition config_set_stun_server :: "string \<Rightarrow> config \<Rightarrow> config" where
  "config_set_stun_server server c = c\<lparr>configStunServer := strncpy_to 128 server, configNat := 1\<rparr>"

definition config_set_stun_port :: "int \<Rightarrow> config \<Rightarrow> config" where
  "config_set_stun_port port c = c\<lparr>configStunPort := port\<rparr>"

definition config_set_use_video :: "int \<Rightarrow> config \<Rightarrow> config" where
  "config_set_use_video video c = c\<lparr>useVideo := video\<rparr>"

definition config_set_usb :: "int \<Rightarrow> config \<Rightarrow> config" where
  "config_set_usb usb c = c\<lparr>useUsb := usb\<rparr>"

definition config_set_headset :: "int \<Rightarrow> config \<Rightarrow> config" where
  "config_set_headset headset c = c\<lparr>useHeadset := headset\<rparr>"

definition config_set_inputfile :: "int \<Rightarrow> config \<Rightarrow> config" where
  "config_set_inputfile file c = c\<lparr>useInputFile := file\<rparr>"

definition config_set_test_mode :: "int \<Rightarrow> config \<Rightarrow> config" where
  "config_set_test_mode mode c = c\<lparr>useTestMode := mode\<rparr>"

definition config_set_logfile :: "string \<Rightarrow> config \<Rightarrow> config res" where
  "config_set_logfile file c = bindR (strcpy_to 128 file) (\<lambda>f. Inr (c\<lparr>logFile := f\<rparr>))"

definition config_get_user :: "config \<Rightarrow> string res" where
  "config_get_user c = read_array 128 (configUser c)"

definition config_get_user_uri :: "config \<Rightarrow> string res" where
  "config_get_user_uri c =
     bindR (read_array 128 (configUser c)) (\<lambda>user.
     bindR (read_array 128 (configServer c)) (\<lambda>server.
     strcpy_to 512 (''sip:'' @ user @ ''@'' @ server)))"

definition config_get_server_uri :: "config \<Rightarrow> string res" where
  "config_get_server_uri c =
     bindR (read_array 128 (configServer c)) (\<lambda>server. strcpy_to 256 (''sip:'' @ server))"

definition config_get_password :: "config \<Rightarrow> string res" where
  "config_get_password c = read_array 64 (configPassword c)"

definition config_get_nat_traversal :: "config \<Rightarrow> int" where
  "config_get_nat_traversal c = configNat c"

definition config_get_stun_server :: "config \<Rightarrow> string res" where
  "config_get_stun_server c = read_array 128 (configStunServer c)"

definition config_get_stun_port :: "config \<Rightarrow> int" where
  "config_get_stun_port c = configStunPort c"

definition config_get_use_video :: "config \<Rightarrow> bool" where
  "config_get_use_video c \<longleftrightarrow> useVideo c \<noteq> 0"

definition config_use_usb :: "config \<Rightarrow> bool" where
  "config_use_usb c \<longleftrightarrow> useUsb c \<noteq> 0"

definition config_use_headset :: "config \<Rightarrow> bool" where
  "config_use_headset c \<longleftrightarrow> useHeadset c \<noteq> 0"

definition config_use_inputfile :: "config \<Rightarrow> bool" where
  "config_use_inputfile c \<longleftrightarrow> useInputFile c \<noteq> 0"

definition config_get_test_mode :: "config \<Rightarrow> int" where
  "config_get_test_mode c = useTestMode c"

definition config_get_logfile :: "config \<Rightarrow> string res" where
  "config_get_logfile c = read_array 128 (logFile c)"

section \<open>Options and lines of sipcfg.ini\<close>

text \<open>A parser state: the settings and the events raised so far.\<close>

type_synonym cfg_state = "config \<times> in_event list"

definition handleOption :: "string \<Rightarrow> string \<Rightarrow> cfg_state \<Rightarrow> cfg_state res" where
  "handleOption option value st =
     (let (c, out) = st in
      if strcasecmp0 option ''server'' then Inr (config_set_server value c, out)
      else if strcasecmp0 option ''username'' then
        let out = (if value = ''1234567''
                   then out @ [ErrorMessage ''you haven't set up your sipcfg.ini - see the readme.txt'']
                   else out)
        in Inr (config_set_user value c, out)
      else if strcasecmp0 option ''password'' then Inr (config_set_password value c, out)
      else if strcasecmp0 option ''disablenat'' then
        if strcasecmp0 value ''yes'' then Inr (config_set_nat_traversal 0 c, out) else Inr (c, out)
      else if strcasecmp0 option ''stunserver'' then Inr (config_set_stun_server value c, out)
      else if strcasecmp0 option ''stunport'' then Inr (config_set_stun_port (atoi value) c, out)
      else if strcasecmp0 option ''input'' then
        if strcasecmp0 value ''usbcam'' then Inr (config_set_use_video 1 (config_set_usb 1 c), out)
        else if strcasecmp0 value ''usbmic'' then Inr (config_set_usb 1 c, out)
        else if strcasecmp0 value ''headset'' then Inr (config_set_headset 1 c, out)
        else if strcasecmp0 value ''file'' then Inr (config_set_inputfile 1 c, out)
        else Inr (c, out)
      else if strcasecmp0 option ''logfile'' then
        bindR (config_set_logfile value c) (\<lambda>c. Inr (c, out))
      else if strcasecmp0 option ''test'' then Inr (config_set_test_mode 1 c, out)
      else Inr (c, out))"

text \<open>
  The loop that cuts trailing spaces runs while its index is not 0, so it never looks at the first
  character. For an empty value it starts at -1, where the byte is the separator or the NUL written
  over it, not a space: nothing is cut.
\<close>

fun trim_loop :: "nat \<Rightarrow> string \<Rightarrow> string" where
  "trim_loop 0 value = value"
| "trim_loop (Suc i) value =
     (if value ! Suc i = CHR '' '' then trim_loop i (take (Suc i) value) else value)"

definition strip_value :: "string \<Rightarrow> string" where
  "strip_value value =
     (let value = takeWhile (\<lambda>c. c \<noteq> CR) value;
          value = takeWhile (\<lambda>c. c \<noteq> LF) value
      in if value = [] then value else trim_loop (length value - 1) value)"

datatype config_line = Comment | Malformed int | Setting string string

definition config_line_of :: "string \<Rightarrow> config_line" where
  "config_line_of line =
     (let buffer = cstr line in
      if buffer \<noteq> [] \<and> hd buffer = CHR ''#'' then Comment
      else case strtok {CHR ''=''} buffer of
          None \<Rightarrow> Malformed (- 2)
        | Some (option, rest) \<Rightarrow>
           (case strtok {CHR ''=''} rest of
              None \<Rightarrow> Malformed (- 3)
            | Some (value, rest) \<Rightarrow> Setting option (strip_value value)))"

function parse_lines :: "string \<Rightarrow> cfg_state \<Rightarrow> (int \<times> cfg_state) res" where
  "parse_lines file st =
     (case fgets 512 file of
        None \<Rightarrow> Inr (0, st)
      | Some (line, file') \<Rightarrow>
         (case config_line_of line of
            Comment \<Rightarrow> parse_lines file' st
          | Malformed rc \<Rightarrow> Inr (rc, st)
          | Setting option value \<Rightarrow> bindR (handleOption option value st) (parse_lines file')))"
  by pat_completeness auto
termination
  by (relation "measure (\<lambda>(file, st). length file)") (auto dest: fgets_shorter [rotated])

declare parse_lines.simps [simp del]

text \<open>\<open>None\<close> is a file that cannot be opened.\<close>

definition parseConfigFile :: "string option \<Rightarrow> cfg_state \<Rightarrow> (int \<times> cfg_state) res" where
  "parseConfigFile file st = (case file of None \<Rightarrow> Inr (- 1, st) | Some f \<Rightarrow> parse_lines f st)"

section \<open>The settings stay inside their arrays\<close>

definition config_ok :: "config \<Rightarrow> bool" where
  "config_ok c \<longleftrightarrow>
     length (configServer c) \<le> 128 \<and> length (configUser c) \<le> 128 \<and>
     length (configPassword c) \<le> 64 \<and> length (configStunServer c) \<le> 128 \<and> length (logFile c) < 128 \<and>
     configNat c \<in> {0, 1} \<and> useVideo c \<in> {0, 1} \<and> useUsb c \<in> {0, 1} \<and> useHeadset c \<in> {0, 1} \<and>
     useTestMode c \<in> {0, 1} \<and> useInputFile c \<in> {0, 1}"

lemmas config_set_defs = config_set_server_def config_set_user_def config_set_password_def
  config_set_nat_traversal_def config_set_stun_server_def config_set_stun_port_def
  config_set_use_video_def config_set_usb_def config_set_headset_def config_set_inputfile_def
  config_set_test_mode_def config_set_logfile_def

lemma config_initial_ok: "config_ok config_initial"
  by (simp add: config_ok_def config_initial_def)

lemma config_set_ok:
  assumes "config_ok c"
  shows "config_ok (config_set_server v c)" "config_ok (config_set_user v c)"
    "config_ok (config_set_password v c)" "config_ok (config_set_stun_server v c)"
    "config_ok (config_set_stun_port n c)" "config_ok (config_set_nat_traversal 0 c)"
    "config_ok (config_set_use_video 1 c)" "config_ok (config_set_usb 1 c)"
    "config_ok (config_set_headset 1 c)" "config_ok (config_set_inputfile 1 c)"
    "config_ok (config_set_test_mode 1 c)"
  using assms by (simp_all add: config_ok_def config_set_defs length_strncpy_to)

lemma config_set_logfile_ok: "config_set_logfile v c = Inr c' \<Longrightarrow> config_ok c \<Longrightarrow> config_ok c'"
  by (simp add: config_ok_def config_set_logfile_def res_simps) force

lemma handleOption_config_ok:
  assumes "config_ok (fst st)" "handleOption option value st = Inr st'"
  shows "config_ok (fst st')"
proof -
  obtain c out where st: "st = (c, out)" by (cases st)
  with assms(1) have ok: "config_ok c" by simp
  from assms(2) st show ?thesis
    by (simp add: handleOption_def Let_def res_simps split: if_split_asm)
       (use ok in \<open>auto intro!: config_set_ok intro: config_set_logfile_ok\<close>)
qed

text \<open>
  Claim C38: whatever sipcfg.ini holds, a parse that meets no undefined behaviour leaves every
  setting inside its array and every flag 0 or 1.
\<close>

theorem parseConfigFile_config_ok:
  assumes "config_ok (fst st)" "parseConfigFile file st = Inr (rc, st')"
  shows "config_ok (fst st')"
proof -
  have "config_ok (fst st) \<Longrightarrow> parse_lines f st = Inr (rc, st') \<Longrightarrow> config_ok (fst st')" for f
  proof (induction f st rule: parse_lines.induct)
    case (1 f st)
    from "1.prems" show ?case
      by (simp add: parse_lines.simps [of f st] res_simps split: option.splits prod.splits config_line.splits)
         (auto dest: handleOption_config_ok intro: "1.IH")
  qed
  with assms show ?thesis by (auto simp: parseConfigFile_def split: option.splits)
qed

theorem parseConfigFile_config_ok_witness:
  "config_ok (fst (config_initial\<lparr>configServer := ''a''\<rparr>, [] :: in_event list))"
proof (rule parseConfigFile_config_ok [of "(config_initial, [])" "Some ''server=a''" 0])
  show "config_ok (fst (config_initial, [] :: in_event list))" by (simp add: config_initial_ok)
  show "parseConfigFile (Some ''server=a'') (config_initial, []) =
      Inr (0, config_initial\<lparr>configServer := ''a''\<rparr>, [])"
    by code_simp
qed

text \<open>
  The user's URI always fits its 512-byte buffer; the only way building it can fail is a
  user or server name that filled its array and so has no terminator.
\<close>

theorem config_get_user_uri_fits:
  assumes "config_ok c"
  shows "config_get_user_uri c =
    (if length (configUser c) < 128 \<and> length (configServer c) < 128
     then Inr (''sip:'' @ configUser c @ ''@'' @ configServer c) else Inl Unterminated_string)"
  using assms by (auto simp: config_get_user_uri_def read_array_def strcpy_to_def)

theorem config_get_user_uri_fits_witness:
  "config_get_user_uri config_initial =
    (if length (configUser config_initial) < 128 \<and> length (configServer config_initial) < 128
     then Inr (''sip:'' @ configUser config_initial @ ''@'' @ configServer config_initial)
     else Inl Unterminated_string)"
  by (rule config_get_user_uri_fits) (rule config_initial_ok)

section \<open>Printing and parsing\<close>

text \<open>The loop cuts exactly the trailing spaces behind the first character.\<close>

lemma trim_loop_append: "i < length a \<Longrightarrow> trim_loop i (take (Suc i) (a @ b)) = trim_loop i (take (Suc i) a)"
  by simp

lemma trim_loop_closed:
  "trim_loop (length v) (c # v) = c # rev (dropWhile (\<lambda>x. x = CHR '' '') (rev v))"
proof (induction v rule: rev_induct)
  case Nil
  then show ?case by simp
next
  case (snoc x v)
  then show ?case by (simp add: nth_append)
qed

lemma strip_value_no_trailing:
  assumes "set v \<inter> {CR, LF} = {}" "length v \<le> 1 \<or> last v \<noteq> CHR '' ''"
  shows "strip_value (v @ crlf) = v" "strip_value (v @ [LF]) = v" "strip_value v = v"
proof -
  have cr: "takeWhile (\<lambda>c. c \<noteq> CR) (v @ CR # t) = v" for t
    using assms(1) by (subst takeWhile_append2) auto
  have lf: "takeWhile (\<lambda>c. c \<noteq> LF) (v @ LF # t) = v" for t
    using assms(1) by (subst takeWhile_append2) auto
  have none: "takeWhile (\<lambda>c. c \<noteq> CR) v = v" "takeWhile (\<lambda>c. c \<noteq> LF) v = v"
      "takeWhile (\<lambda>c. c \<noteq> CR) (v @ [LF]) = v @ [LF]"
    using assms(1) by (auto simp: takeWhile_eq_all_conv)
  have trim: "trim_loop (length v - Suc 0) v = v" if "v \<noteq> []"
  proof (cases v)
    case (Cons c w)
    have "rev (dropWhile (\<lambda>x. x = CHR '' '') (rev w)) = w"
      using assms(2) Cons by (cases w rule: rev_cases) auto
    with Cons show ?thesis by (simp add: trim_loop_closed)
  qed (use that in simp)
  show "strip_value (v @ crlf) = v" "strip_value (v @ [LF]) = v" "strip_value v = v"
    using trim by (simp_all add: strip_value_def Let_def cr lf none)
qed

text \<open>A well-formed line: a setting or a comment that fits the line buffer.\<close>

datatype entry = Entry string string | Remark string

fun print_entry :: "entry \<Rightarrow> string" where
  "print_entry (Entry k v) = k @ ''='' @ v @ crlf"
| "print_entry (Remark t) = ''#'' @ t @ crlf"

fun entry_ok :: "entry \<Rightarrow> bool" where
  "entry_ok (Entry k v) \<longleftrightarrow>
     k \<noteq> [] \<and> hd k \<noteq> CHR ''#'' \<and> set k \<inter> {CHR ''='', LF, NUL} = {} \<and>
     set v \<inter> {CHR ''='', CR, LF, NUL} = {} \<and> (length v \<le> 1 \<or> last v \<noteq> CHR '' '') \<and>
     length k + length v + 3 < 512"
| "entry_ok (Remark t) \<longleftrightarrow> set t \<inter> {LF, NUL} = {} \<and> length t + 3 < 512"

fun apply_entry :: "entry \<Rightarrow> cfg_state \<Rightarrow> cfg_state res" where
  "apply_entry (Entry k v) st = handleOption k v st"
| "apply_entry (Remark t) st = Inr st"

lemma fgets_line:
  assumes "LF \<notin> set l" "length l + 1 < n"
  shows "fgets n (l @ LF # r) = Some (l @ [LF], r)"
  using assms line_of_full [of l "n - 1" r] by (simp add: fgets_def)

lemma config_line_of_setting:
  assumes "entry_ok (Entry k v)"
  shows "config_line_of (k @ ''='' @ v @ crlf) = Setting k v"
proof -
  have "cstr (k @ ''='' @ v @ crlf) = k @ ''='' @ v @ crlf"
    using assms by (intro cstr_no_nul) auto
  moreover have "strtok {CHR ''=''} (k @ CHR ''='' # v @ crlf) = Some (k, v @ crlf)"
    using assms by (intro strtok_token) auto
  moreover have "strtok {CHR ''=''} (v @ crlf) = Some (v @ crlf, [])"
    using assms by (intro strtok_last) auto
  moreover have "strip_value (v @ crlf) = v"
    using assms by (intro strip_value_no_trailing) auto
  ultimately show ?thesis using assms by (cases k) (simp_all add: config_line_of_def)
qed

lemma parse_entry:
  assumes "entry_ok e"
  shows "parse_lines (print_entry e @ rest) st = bindR (apply_entry e st) (parse_lines rest)"
proof (cases e)
  case (Entry k v)
  have "fgets 512 ((k @ ''='' @ v @ [CR]) @ LF # rest) = Some ((k @ ''='' @ v @ [CR]) @ [LF], rest)"
    using assms Entry by (intro fgets_line) auto
  with Entry config_line_of_setting [of k v] assms show ?thesis
    by (subst parse_lines.simps) simp
next
  case (Remark t)
  have "fgets 512 ((CHR ''#'' # t @ [CR]) @ LF # rest) = Some ((CHR ''#'' # t @ [CR]) @ [LF], rest)"
    using assms Remark by (intro fgets_line) auto
  moreover have "config_line_of (CHR ''#'' # t @ crlf) = Comment"
    by (simp add: config_line_of_def cstr_def)
  ultimately show ?thesis using Remark by (subst parse_lines.simps) simp
qed

lemma parse_entries:
  "list_all entry_ok es \<Longrightarrow>
   parse_lines (concat (map print_entry es) @ rest) st = bindR (foldR apply_entry es st) (parse_lines rest)"
proof (induction es arbitrary: st)
  case Nil
  then show ?case by simp
next
  case (Cons e es)
  then show ?case by (cases "apply_entry e st") (simp_all add: parse_entry)
qed

lemma config_file_roundtrip_fold:
  "list_all entry_ok es \<Longrightarrow> parseConfigFile (Some (concat (map print_entry es))) st =
    bindR (foldR apply_entry es st) (\<lambda>st'. Inr (0, st'))"
proof -
  assume "list_all entry_ok es"
  moreover have "parse_lines [] = (\<lambda>st. Inr (0, st))"
    by (rule ext) (simp add: parse_lines.simps fgets_def)
  ultimately show ?thesis using parse_entries [of es "[]" st] by (simp add: parseConfigFile_def)
qed

text \<open>
  Claim C37: a file of well-formed lines is read exactly as written: every setting is applied in
  order, comments change nothing, and the result is 0.
\<close>

theorem config_file_roundtrip:
  assumes "list_all entry_ok es"
  shows "parseConfigFile (Some (concat (map print_entry es))) st =
    bindR (foldR apply_entry es st) (\<lambda>st'. Inr (0, st'))"
  using assms by (rule config_file_roundtrip_fold)

theorem config_file_roundtrip_witness:
  "parseConfigFile (Some (concat (map print_entry [Remark ''x'', Entry ''SERVER'' ''h'']))) (config_initial, []) =
    bindR (foldR apply_entry [Remark ''x'', Entry ''SERVER'' ''h''] (config_initial, [])) (\<lambda>st'. Inr (0, st'))"
  by (rule config_file_roundtrip) simp

text \<open>
  An empty line ends the parse with -3: the settings above it are kept and everything
  below it, however well-formed, is ignored.
\<close>

theorem config_blank_line_stops:
  assumes "list_all entry_ok es"
  shows "parseConfigFile (Some (concat (map print_entry es) @ LF # rest)) st =
    bindR (foldR apply_entry es st) (\<lambda>st'. Inr (- 3, st'))"
proof -
  have "fgets 512 ([] @ LF # rest) = Some ([] @ [LF], rest)" by (intro fgets_line) auto
  moreover have "config_line_of [LF] = Malformed (- 3)" by code_simp
  ultimately have "parse_lines (LF # rest) = (\<lambda>st. Inr (- 3, st))"
    by (intro ext) (subst parse_lines.simps, simp)
  with parse_entries [OF assms, of "LF # rest" st] show ?thesis by (simp add: parseConfigFile_def)
qed

theorem config_blank_line_stops_witness:
  "parseConfigFile (Some (concat (map print_entry [Entry ''server'' ''h'']) @ LF # ''username=u'')) (config_initial, []) =
    bindR (foldR apply_entry [Entry ''server'' ''h''] (config_initial, [])) (\<lambda>st'. Inr (- 3, st'))"
  by (rule config_blank_line_stops) simp

section \<open>NAT traversal\<close>

text \<open>What a line says about NAT traversal.\<close>

fun nat_setting :: "entry \<Rightarrow> int option" where
  "nat_setting (Remark t) = None"
| "nat_setting (Entry k v) =
     (if strcasecmp0 k ''disablenat'' then (if strcasecmp0 v ''yes'' then Some 0 else None)
      else if strcasecmp0 k ''stunserver'' then Some 1 else None)"

fun last_setting :: "int \<Rightarrow> entry list \<Rightarrow> int" where
  "last_setting d [] = d"
| "last_setting d (e # es) = last_setting (case nat_setting e of None \<Rightarrow> d | Some n \<Rightarrow> n) es"

lemma strcasecmp0_cong: "strcasecmp0 k t \<Longrightarrow> strcasecmp0 k u = strcasecmp0 t u"
  by (simp add: strcasecmp0_def)

lemma disablenat_distinct:
  assumes "strcasecmp0 k ''disablenat''"
  shows "\<not> strcasecmp0 k ''server''" "\<not> strcasecmp0 k ''username''" "\<not> strcasecmp0 k ''password''"
  unfolding strcasecmp0_cong [OF assms] by code_simp+

lemma stunserver_distinct:
  assumes "strcasecmp0 k ''stunserver''"
  shows "\<not> strcasecmp0 k ''server''" "\<not> strcasecmp0 k ''username''" "\<not> strcasecmp0 k ''password''"
    "\<not> strcasecmp0 k ''disablenat''"
  unfolding strcasecmp0_cong [OF assms] by code_simp+

lemma config_set_nat:
  "configNat (config_set_server v c) = configNat c" "configNat (config_set_user v c) = configNat c"
  "configNat (config_set_password v c) = configNat c" "configNat (config_set_stun_server v c) = 1"
  "configNat (config_set_stun_port n c) = configNat c" "configNat (config_set_nat_traversal n c) = n"
  "configNat (config_set_use_video n c) = configNat c" "configNat (config_set_usb n c) = configNat c"
  "configNat (config_set_headset n c) = configNat c" "configNat (config_set_inputfile n c) = configNat c"
  "configNat (config_set_test_mode n c) = configNat c"
  "config_set_logfile v c = Inr c' \<Longrightarrow> configNat c' = configNat c"
  by (auto simp: config_set_defs res_simps)

lemma handleOption_nat:
  assumes "handleOption k v (c, out) = Inr st'"
  shows "configNat (fst st') = (if strcasecmp0 k ''disablenat'' then (if strcasecmp0 v ''yes'' then 0 else configNat c)
    else if strcasecmp0 k ''stunserver'' then 1 else configNat c)"
proof (cases "strcasecmp0 k ''disablenat''")
  case True
  with assms disablenat_distinct [OF True] show ?thesis
    by (simp add: handleOption_def Let_def config_set_nat split: if_split_asm) (auto simp: config_set_nat)
next
  case no_nat: False
  show ?thesis
  proof (cases "strcasecmp0 k ''stunserver''")
    case True
    with assms stunserver_distinct [OF True] no_nat show ?thesis
      by (simp add: handleOption_def Let_def) (auto simp: config_set_nat)
  next
    case False
    with assms no_nat show ?thesis
      by (simp add: handleOption_def Let_def res_simps split: if_split_asm) (auto simp: config_set_nat)
  qed
qed

lemma apply_entry_nat:
  assumes "apply_entry e st = Inr st'"
  shows "configNat (fst st') = (case nat_setting e of None \<Rightarrow> configNat (fst st) | Some n \<Rightarrow> n)"
proof (cases e)
  case (Entry k v)
  then show ?thesis
    using assms handleOption_nat [of k v "fst st" "snd st" st'] by simp
next
  case (Remark t)
  with assms show ?thesis by simp
qed

lemma fold_nat:
  "foldR apply_entry es st = Inr st' \<Longrightarrow> configNat (fst st') = last_setting (configNat (fst st)) es"
proof (induction es arbitrary: st)
  case Nil
  then show ?case by simp
next
  case (Cons e es)
  then obtain t where "apply_entry e st = Inr t" "foldR apply_entry es t = Inr st'"
    by (auto simp: res_simps)
  with Cons.IH [of t] apply_entry_nat [of e st t] show ?case by simp
qed

text \<open>
  The last line that mentions NAT traversal decides: a \<open>stunserver\<close> line below
  \<open>disablenat=yes\<close> switches it on again.
\<close>

theorem nat_traversal_last_line_wins:
  assumes "list_all entry_ok es" "parseConfigFile (Some (concat (map print_entry es))) st = Inr (rc, st')"
  shows "configNat (fst st') = last_setting (configNat (fst st)) es"
proof -
  have "foldR apply_entry es st = Inr st'"
    using assms by (auto simp: config_file_roundtrip_fold bindR_eq_Inr)
  then show ?thesis by (rule fold_nat)
qed

theorem nat_traversal_last_line_wins_witness:
  "configNat (fst (config_initial\<lparr>configNat := 1, configStunServer := ''h''\<rparr>, [] :: in_event list)) =
   last_setting (configNat (fst (config_initial, [] :: in_event list)))
     [Entry ''disablenat'' ''yes'', Entry ''stunserver'' ''h'']"
proof (rule nat_traversal_last_line_wins [where rc = 0])
  show "list_all entry_ok [Entry ''disablenat'' ''yes'', Entry ''stunserver'' ''h'']" by simp
  show "parseConfigFile (Some (concat (map print_entry [Entry ''disablenat'' ''yes'', Entry ''stunserver'' ''h''])))
      (config_initial, []) = Inr (0, config_initial\<lparr>configNat := 1, configStunServer := ''h''\<rparr>, [])"
    by code_simp
qed

end
