(* ===== verification/Local_Sdp.thy ===== *)
theory Local_Sdp
  imports Config
begin

text \<open>
  The session description offered or answered for a call, SIPEngine/codec.c: the port allocator and
  \<open>createLocalSdp\<close>. What the SIP and STUN libraries return is a parameter: the remote description's
  payload lists, the guessed local address and the mapped address of a socket.
\<close>

section \<open>Ports, environment and buffers\<close>

record sdp_ports =
  audioPort :: int
  videoPort :: int
  portCount :: int

definition sdp_ports_initial :: sdp_ports where
  "sdp_ports_initial = \<lparr>audioPort = 0, videoPort = 0, portCount = 30000\<rparr>"

definition getAudioPort :: "sdp_ports \<Rightarrow> int" where "getAudioPort p = audioPort p"
definition getVideoPort :: "sdp_ports \<Rightarrow> int" where "getVideoPort p = videoPort p"

text \<open>The remote description: the payload types of its audio and video media, if it has them.\<close>

record remote_sdp =
  audio_payloads :: "string list option"
  video_payloads :: "string list option"

text \<open>
  \<open>stun_mapping server port local\<close> is the address and port a STUN server reports for a local
  port.
\<close>

record sdp_env =
  guess_localip :: string
  stun_mapping :: "string \<Rightarrow> int \<Rightarrow> int \<Rightarrow> 32 word \<times> 16 word"

definition ipaddr :: "32 word \<Rightarrow> string" where
  "ipaddr a = (let byte = (\<lambda>n. show_nat (unat (drop_bit n a AND 255))) in
     byte 24 @ ''.'' @ byte 16 @ ''.'' @ byte 8 @ ''.'' @ byte 0)"

definition pcmu_map :: string where "pcmu_map = ''a=rtpmap:0 PCMU/8000'' @ crlf"
definition pcma_map :: string where "pcma_map = ''a=rtpmap:8 PCMA/8000'' @ crlf"
definition event_map :: string where "event_map = ''a=rtpmap:101 telephone-event/8000'' @ crlf"

text \<open>The loop over the remote audio payloads, with the flag and the two 128-byte buffers.\<close>

type_synonym audio_buffers = "bool \<times> string \<times> string"

fun audio_answer :: "string list \<Rightarrow> audio_buffers \<Rightarrow> audio_buffers res" where
  "audio_answer [] st = Inr st"
| "audio_answer (payload # ps) (added, audiooptions, audiomap) =
     (if atoi payload = 0 then
        bindR (strcat_to 128 audiooptions '' 0'') (\<lambda>audiooptions.
        bindR (strcat_to 128 audiomap pcmu_map) (\<lambda>audiomap.
        audio_answer ps (True, audiooptions, audiomap)))
      else if atoi payload = 8 then
        bindR (strcat_to 128 audiooptions '' 8'') (\<lambda>audiooptions.
        bindR (strcat_to 128 audiomap pcma_map) (\<lambda>audiomap.
        audio_answer ps (True, audiooptions, audiomap)))
      else audio_answer ps (added, audiooptions, audiomap))"

text \<open>The flag for JPEG is not initialised: \<open>None\<close> until a payload 26 sets it.\<close>

fun jpeg_answer :: "string list \<Rightarrow> bool option \<Rightarrow> bool option" where
  "jpeg_answer [] jpegSupported = jpegSupported"
| "jpeg_answer (payload # ps) jpegSupported =
     jpeg_answer ps (if atoi payload = 26 then Some True else jpegSupported)"

definition read_flag :: "bool option \<Rightarrow> bool res" where
  "read_flag f = (case f of None \<Rightarrow> Inl Uninitialised_read | Some b \<Rightarrow> Inr b)"

text \<open>The address and port of a local port, through the STUN server when NAT traversal is on.\<close>

definition mapped_address :: "sdp_env \<Rightarrow> config \<Rightarrow> int \<Rightarrow> (string \<times> int) res" where
  "mapped_address env c port =
     (if config_get_nat_traversal c \<noteq> 0 then
        bindR (config_get_stun_server c) (\<lambda>server.
        let (a, p) = stun_mapping env server (config_get_stun_port c) port in
        Inr (strncpy_to 128 (ipaddr a), uint p))
      else Inr (guess_localip env, port))"

definition audio_part :: "int \<Rightarrow> remote_sdp option \<Rightarrow> (string \<times> string) res" where
  "audio_part mapped_port remote =
     bindR (strcpy_to 128 (''m=audio '' @ show_int mapped_port @ '' RTP/AVP'')) (\<lambda>audiooptions.
     case remote of
       Some r \<Rightarrow>
         bindR (case audio_payloads r of
             None \<Rightarrow> Inr (False, audiooptions, [])
           | Some ps \<Rightarrow> audio_answer ps (False, audiooptions, [])) (\<lambda>(added, audiooptions, audiomap).
         if added then Inr (audiooptions, audiomap)
         else bindR (strcpy_to 128 ''m=audio 0 RTP/AVP 0'') (\<lambda>audiooptions.
              bindR (strcat_to 128 audiomap pcmu_map) (\<lambda>audiomap. Inr (audiooptions, audiomap))))
     | None \<Rightarrow>
         bindR (strcat_to 128 audiooptions '' 0 8 101'') (\<lambda>audiooptions.
         bindR (strcat_to 128 [] pcmu_map) (\<lambda>audiomap.
         bindR (strcat_to 128 audiomap pcma_map) (\<lambda>audiomap.
         bindR (strcat_to 128 audiomap event_map) (\<lambda>audiomap.
         Inr (audiooptions, audiomap))))))"

text \<open>
  The video line: the rejection of a remote video offer without JPEG, then our own line. The second
  result is the local address, which the branch without NAT traversal guesses again.
\<close>

definition video_part ::
    "sdp_env \<Rightarrow> config \<Rightarrow> int \<Rightarrow> string \<Rightarrow> remote_sdp option \<Rightarrow> (string \<times> string) res" where
  "video_part env c port addr remote =
     (let rem_video = (case remote of None \<Rightarrow> None | Some r \<Rightarrow> video_payloads r);
          jpegSupported = (case rem_video of None \<Rightarrow> None | Some ps \<Rightarrow> jpeg_answer ps None)
      in bindR (case rem_video of
             None \<Rightarrow> Inr []
           | Some ps \<Rightarrow> bindR (read_flag jpegSupported) (\<lambda>b.
               if b then Inr [] else strcpy_to 128 (''m=video 0 RTP/AVP 26'' @ crlf))) (\<lambda>videooptions.
         bindR (if config_get_use_video c
                then (case remote of None \<Rightarrow> Inr True | Some _ \<Rightarrow> read_flag jpegSupported)
                else Inr False) (\<lambda>send.
         if send then
           bindR (mapped_address env c port) (\<lambda>(video_addr, video_port).
           bindR (strcpy_to 128 (''m=video '' @ show_int video_port @ '' RTP/AVP 26'' @ crlf)) (\<lambda>videooptions.
           Inr (if config_get_nat_traversal c \<noteq> 0 then addr else video_addr, videooptions)))
         else Inr (addr, videooptions))))"

definition sdp_text :: "string \<Rightarrow> string \<Rightarrow> string \<Rightarrow> string \<Rightarrow> string" where
  "sdp_text addr audiooptions videooptions audiomap =
     ''v=0'' @ crlf @ ''o=- 200 200 IN IP4 '' @ addr @ crlf @ ''s=SIP Phone'' @ crlf @
     ''c=IN IP4 '' @ addr @ crlf @ ''t=0 0'' @ crlf @ audiooptions @ crlf @ videooptions @ audiomap @
     ''a=ptime:20'' @ crlf"

definition createLocalSdp ::
    "sdp_env \<Rightarrow> config \<Rightarrow> remote_sdp option \<Rightarrow> sdp_ports \<Rightarrow> (sdp_ports \<times> string) res" where
  "createLocalSdp env c remote p =
     (let p = \<lparr>audioPort = portCount p, videoPort = portCount p + 2, portCount = portCount p + 4\<rparr>
      in bindR (mapped_address env c (audioPort p)) (\<lambda>(addr, mapped_port).
         bindR (audio_part mapped_port remote) (\<lambda>(audiooptions, audiomap).
         bindR (video_part env c (videoPort p) addr remote) (\<lambda>(addr, videooptions).
         bindR (read_array 128 addr) (\<lambda>addr.
         Inr (p, snprintf_to 1024 (sdp_text addr audiooptions videooptions audiomap)))))))"

section \<open>Ports\<close>

text \<open>
  The ports of the media of two calls never collide: from the first call on every
  allocation is four consecutive even-based numbers above all earlier ones.
\<close>

theorem createLocalSdp_ports:
  assumes "createLocalSdp env c remote p = Inr (p', sdp)"
  shows "getAudioPort p' = portCount p \<and> getVideoPort p' = getAudioPort p' + 2 \<and>
    portCount p' = getVideoPort p' + 2 \<and> (even (portCount p) \<longrightarrow> even (getAudioPort p') \<and> even (portCount p'))"
  using assms by (auto simp: createLocalSdp_def Let_def res_simps getAudioPort_def getVideoPort_def)

theorem createLocalSdp_ports_witness:
  "getAudioPort \<lparr>audioPort = 30000, videoPort = 30002, portCount = 30004\<rparr> = portCount sdp_ports_initial \<and>
   getVideoPort \<lparr>audioPort = 30000, videoPort = 30002, portCount = 30004\<rparr> =
     getAudioPort \<lparr>audioPort = 30000, videoPort = 30002, portCount = 30004\<rparr> + 2 \<and>
   portCount \<lparr>audioPort = 30000, videoPort = 30002, portCount = 30004\<rparr> =
     getVideoPort \<lparr>audioPort = 30000, videoPort = 30002, portCount = 30004\<rparr> + 2 \<and>
   (even (portCount sdp_ports_initial) \<longrightarrow>
     even (getAudioPort \<lparr>audioPort = 30000, videoPort = 30002, portCount = 30004\<rparr>) \<and>
     even (portCount \<lparr>audioPort = 30000, videoPort = 30002, portCount = 30004\<rparr>))"
proof (rule createLocalSdp_ports)
  show "createLocalSdp \<lparr>guess_localip = ''1.2.3.4'', stun_mapping = (\<lambda>s p l. (0, 0))\<rparr> config_initial None sdp_ports_initial =
    Inr (\<lparr>audioPort = 30000, videoPort = 30002, portCount = 30004\<rparr>,
      sdp_text ''1.2.3.4'' ''m=audio 30000 RTP/AVP 0 8 101'' [] (pcmu_map @ pcma_map @ event_map))"
    by (simp add: createLocalSdp_def sdp_ports_initial_def mapped_address_def config_get_nat_traversal_def
        config_initial_def audio_part_def video_part_def config_get_use_video_def strcpy_to_def strcat_to_def
        read_array_def snprintf_to_def sdp_text_def pcmu_map_def pcma_map_def event_map_def show_int_def
        show_nat.simps digit_chars)
qed

section \<open>Lengths\<close>

lemma length_show_port: "0 \<le> n \<Longrightarrow> n < 10 ^ 9 \<Longrightarrow> length (show_int n) \<le> 9"
  using length_show_nat [of "nat n" 9] by (simp add: show_int_def nat_less_iff)

section \<open>The audio answer\<close>

definition accepted :: "string list \<Rightarrow> int list" where
  "accepted ps = filter (\<lambda>n. n = 0 \<or> n = 8) (map atoi ps)"

definition option_of :: "int \<Rightarrow> string" where
  "option_of n = (if n = 0 then '' 0'' else '' 8'')"

definition map_of_payload :: "int \<Rightarrow> string" where
  "map_of_payload n = (if n = 0 then pcmu_map else pcma_map)"

lemma length_map_of_payload: "length (map_of_payload n) = 22"
  by (simp add: map_of_payload_def pcmu_map_def pcma_map_def)

lemma audio_answer_closed:
  "k \<le> 5 \<Longrightarrow> length audiomap = 22 * k \<Longrightarrow> length audiooptions \<le> 100 + 2 * k \<Longrightarrow>
   audio_answer ps (added, audiooptions, audiomap) =
     (if k + length (accepted ps) \<le> 5
      then Inr (added \<or> accepted ps \<noteq> [], audiooptions @ concat (map option_of (accepted ps)),
                audiomap @ concat (map map_of_payload (accepted ps)))
      else Inl Buffer_overflow)"
proof (induction ps arbitrary: k added audiooptions audiomap)
  case Nil
  then show ?case by (simp add: accepted_def)
next
  case (Cons payload ps)
  have room: "length audiooptions + 2 < 128" using Cons.prems by simp
  show ?case
  proof (cases "atoi payload = 0 \<or> atoi payload = 8")
    case False
    then have "accepted (payload # ps) = accepted ps" by (simp add: accepted_def)
    with False Cons.IH [OF Cons.prems, of added] show ?thesis by simp
  next
    case True
    then have acc: "accepted (payload # ps) = atoi payload # accepted ps" by (simp add: accepted_def)
    have step: "audio_answer (payload # ps) (added, audiooptions, audiomap) =
        bindR (strcat_to 128 audiomap (map_of_payload (atoi payload))) (\<lambda>m.
          audio_answer ps (True, audiooptions @ option_of (atoi payload), m))"
      using True room by (auto simp: strcat_to_def strcpy_to_def option_of_def map_of_payload_def)
    show ?thesis
    proof (cases "k = 5")
      case True
      then show ?thesis
        using Cons.prems step acc by (simp add: strcat_to_def strcpy_to_def length_map_of_payload)
    next
      case False
      then have "Suc k \<le> 5" "length (audiomap @ map_of_payload (atoi payload)) = 22 * Suc k"
        "length (audiooptions @ option_of (atoi payload)) \<le> 100 + 2 * Suc k"
        "length (audiomap @ map_of_payload (atoi payload)) < 128"
        using Cons.prems by (simp_all add: length_map_of_payload option_of_def)
      with Cons.IH [OF this(1-3), of True] step acc show ?thesis
        by (simp add: strcat_to_def strcpy_to_def)
    qed
  qed
qed

text \<open>
  An offer is answered with exactly its PCMU and PCMA payloads in their order, with port 0
  and PCMU alone when it has none of them; and the sixth accepted payload, repetitions and
  non-numeric payloads (which read as 0) counted, overflows the buffer of the codec map.
\<close>

theorem audio_part_answer:
  assumes "0 \<le> port" "port < 10 ^ 9"
  shows "audio_part port (Some \<lparr>audio_payloads = Some ps, video_payloads = v\<rparr>) =
    (let acc = accepted ps in
     if acc = [] then Inr (''m=audio 0 RTP/AVP 0'', pcmu_map)
     else if length acc \<le> 5 then
       Inr (''m=audio '' @ show_int port @ '' RTP/AVP'' @ concat (map option_of acc), concat (map map_of_payload acc))
     else Inl Buffer_overflow)"
  using length_show_port [OF assms] audio_answer_closed [of 0 "[]" "''m=audio '' @ show_int port @ '' RTP/AVP''" ps False]
  by (auto simp: audio_part_def strcpy_to_def strcat_to_def Let_def pcmu_map_def)

theorem audio_part_answer_witness:
  "audio_part 30000 (Some \<lparr>audio_payloads = Some [''0'', ''8'', ''101'', ''0'', ''0'', ''0'', ''x''], video_payloads = None\<rparr>) =
    (let acc = accepted [''0'', ''8'', ''101'', ''0'', ''0'', ''0'', ''x''] in
     if acc = [] then Inr (''m=audio 0 RTP/AVP 0'', pcmu_map)
     else if length acc \<le> 5 then
       Inr (''m=audio '' @ show_int 30000 @ '' RTP/AVP'' @ concat (map option_of acc), concat (map map_of_payload acc))
     else Inl Buffer_overflow)"
  by (rule audio_part_answer) simp_all

section \<open>The video answer\<close>

lemma jpeg_answer_none: "26 \<notin> atoi ` set ps \<Longrightarrow> jpeg_answer ps f = f"
  by (induction ps) auto

text \<open>
  Answering an offer that does not list JPEG reads the JPEG flag before anything has
  written it, both when the offer has a video media and when it has none but our own video is on.
\<close>

theorem video_part_no_jpeg:
  assumes "\<forall>ps. video_payloads r = Some ps \<longrightarrow> 26 \<notin> atoi ` set ps"
  shows "video_part env c port addr (Some r) =
    (if video_payloads r = None \<and> \<not> config_get_use_video c then Inr (addr, []) else Inl Uninitialised_read)"
proof (cases "video_payloads r")
  case None
  then show ?thesis by (simp add: video_part_def read_flag_def)
next
  case (Some ps)
  with assms have "jpeg_answer ps None = None" by (intro jpeg_answer_none) auto
  with Some show ?thesis by (simp add: video_part_def read_flag_def)
qed

theorem video_part_no_jpeg_witness:
  "video_part \<lparr>guess_localip = ''10.0.0.1'', stun_mapping = \<lambda>_ _ _. (0, 0)\<rparr> config_initial 30002 ''10.0.0.1''
    (Some \<lparr>audio_payloads = None, video_payloads = Some [''34'']\<rparr>) = Inl Uninitialised_read"
proof -
  let ?r = "\<lparr>audio_payloads = None, video_payloads = Some [''34'']\<rparr>"
  have "atoi ''34'' = 34" by code_simp
  then have "\<forall>ps. video_payloads ?r = Some ps \<longrightarrow> 26 \<notin> atoi ` set ps" by auto
  from video_part_no_jpeg [OF this] show ?thesis by simp
qed

section \<open>Which media a codec map belongs to\<close>

text \<open>
  A description is a sequence of lines; a media line opens a section and the attribute lines below
  it, up to the next media line, are the attributes of that media.
\<close>

function sdp_lines :: "string \<Rightarrow> string list" where
  "sdp_lines s =
     (if s = [] then []
      else takeWhile (\<lambda>c. c \<noteq> CR) s # sdp_lines (drop 2 (dropWhile (\<lambda>c. c \<noteq> CR) s)))"
  by pat_completeness auto
termination
proof (relation "measure length")
  fix s :: string
  assume "s \<noteq> []"
  moreover have "length (dropWhile (\<lambda>c. c \<noteq> CR) s) \<le> length s" by (rule length_dropWhile_le)
  ultimately have "length (dropWhile (\<lambda>c. c \<noteq> CR) s) - 2 < length s" by (cases s) auto
  then show "(drop 2 (dropWhile (\<lambda>c. c \<noteq> CR) s), s) \<in> measure length" by simp
qed simp

declare sdp_lines.simps [simp del]

fun media_sections :: "string list \<Rightarrow> (string \<times> string list) list" where
  "media_sections [] = []"
| "media_sections (l # ls) =
     (if take 2 l = ''m='' then (l, takeWhile (\<lambda>l. take 2 l \<noteq> ''m='') ls) # media_sections ls
      else media_sections ls)"

lemma sdp_lines_cons: "CR \<notin> set l \<Longrightarrow> sdp_lines (l @ CR # LF # s) = l # sdp_lines s"
proof -
  assume "CR \<notin> set l"
  then have "takeWhile (\<lambda>c. c \<noteq> CR) (l @ CR # LF # s) = l" "dropWhile (\<lambda>c. c \<noteq> CR) (l @ CR # LF # s) = CR # LF # s"
    by (subst takeWhile_append2 dropWhile_append2; auto)+
  then show ?thesis by (subst sdp_lines.simps) simp
qed

lemma digit_not_cr: "is_digit c \<Longrightarrow> c \<noteq> CR"
  by (auto simp: is_digit_def)

lemma show_int_no_cr: "0 \<le> n \<Longrightarrow> CR \<notin> set (show_int n)"
  using show_nat_digits [of "nat n"] by (auto simp: show_int_def list_all_iff dest: digit_not_cr)

lemma sdp_lines_concat:
  "\<forall>l\<in>set ls. CR \<notin> set l \<Longrightarrow> sdp_lines (concat (map (\<lambda>l. l @ crlf) ls)) = ls"
proof (induction ls)
  case Nil
  then show ?case by (simp add: sdp_lines.simps)
next
  case (Cons l ls)
  then show ?case by (simp add: sdp_lines_cons)
qed

lemma sdp_text_lines:
  assumes "CR \<notin> set addr" "CR \<notin> set a" "CR \<notin> set v"
  shows "sdp_lines (sdp_text addr a (v @ crlf) (pcmu_map @ pcma_map @ event_map)) =
     [''v=0'', ''o=- 200 200 IN IP4 '' @ addr, ''s=SIP Phone'', ''c=IN IP4 '' @ addr, ''t=0 0'', a, v,
      ''a=rtpmap:0 PCMU/8000'', ''a=rtpmap:8 PCMA/8000'', ''a=rtpmap:101 telephone-event/8000'', ''a=ptime:20'']"
    (is "_ = ?ls")
proof -
  have "sdp_text addr a (v @ crlf) (pcmu_map @ pcma_map @ event_map) = concat (map (\<lambda>l. l @ crlf) ?ls)"
    by (simp add: sdp_text_def pcmu_map_def pcma_map_def event_map_def)
  moreover have "\<forall>l\<in>set ?ls. CR \<notin> set l" using assms by simp
  ultimately show ?thesis by (simp only: sdp_lines_concat)
qed

text \<open>
  An offer with video lists the codec maps of the audio payloads behind the video line, so
  they are attributes of the video media, and the audio media has none.
\<close>

theorem video_offer_rtpmap_sections:
  assumes "createLocalSdp env c None p = Inr (p', sdp)" "config_get_use_video c" "config_get_nat_traversal c = 0"
    "CR \<notin> set (guess_localip env)" "0 \<le> portCount p" "portCount p + 2 < 10 ^ 9"
  shows "media_sections (sdp_lines sdp) =
    [(''m=audio '' @ show_int (getAudioPort p') @ '' RTP/AVP 0 8 101'', []),
     (''m=video '' @ show_int (getVideoPort p') @ '' RTP/AVP 26'',
      [''a=rtpmap:0 PCMU/8000'', ''a=rtpmap:8 PCMA/8000'', ''a=rtpmap:101 telephone-event/8000'', ''a=ptime:20''])]"
proof -
  let ?a = "''m=audio '' @ show_int (portCount p) @ '' RTP/AVP 0 8 101''"
  let ?v = "''m=video '' @ show_int (portCount p + 2) @ '' RTP/AVP 26''"
  have len: "length (show_int (portCount p)) \<le> 9" "length (show_int (portCount p + 2)) \<le> 9"
    using assms(5,6) by (auto intro: length_show_port)
  have addr: "length (guess_localip env) < 128"
    using assms(1-3) by (auto simp: createLocalSdp_def Let_def res_simps video_part_def mapped_address_def)
  have "sdp = snprintf_to 1024 (sdp_text (guess_localip env) ?a (?v @ crlf) (pcmu_map @ pcma_map @ event_map))"
    using assms(1-3)
    by (auto simp: createLocalSdp_def Let_def res_simps video_part_def mapped_address_def audio_part_def strcat_to_def)
  moreover have "length (sdp_text (guess_localip env) ?a (?v @ crlf) (pcmu_map @ pcma_map @ event_map)) < 1024"
    using len addr by (simp add: sdp_text_def pcmu_map_def pcma_map_def event_map_def)
  ultimately have "sdp = sdp_text (guess_localip env) ?a (?v @ crlf) (pcmu_map @ pcma_map @ event_map)"
    by (simp add: snprintf_to_def)
  moreover have "getAudioPort p' = portCount p" "getVideoPort p' = portCount p + 2"
    using assms(1) by (auto simp: createLocalSdp_def Let_def res_simps getAudioPort_def getVideoPort_def)
  ultimately show ?thesis
    using sdp_text_lines [of "guess_localip env" ?a ?v] assms(4,5) show_int_no_cr [of "portCount p"]
      show_int_no_cr [of "portCount p + 2"] by simp
qed

theorem video_offer_rtpmap_sections_witness:
  "media_sections (sdp_lines (sdp_text ''1.2.3.4'' ''m=audio 30000 RTP/AVP 0 8 101'' (''m=video 30002 RTP/AVP 26'' @ crlf)
      (pcmu_map @ pcma_map @ event_map))) =
    [(''m=audio '' @ show_int (getAudioPort \<lparr>audioPort = 30000, videoPort = 30002, portCount = 30004\<rparr>) @ '' RTP/AVP 0 8 101'', []),
     (''m=video '' @ show_int (getVideoPort \<lparr>audioPort = 30000, videoPort = 30002, portCount = 30004\<rparr>) @ '' RTP/AVP 26'',
      [''a=rtpmap:0 PCMU/8000'', ''a=rtpmap:8 PCMA/8000'', ''a=rtpmap:101 telephone-event/8000'', ''a=ptime:20''])]"
proof (rule video_offer_rtpmap_sections [where p = sdp_ports_initial and c = "config_initial\<lparr>useVideo := 1\<rparr>"
      and env = "\<lparr>guess_localip = ''1.2.3.4'', stun_mapping = (\<lambda>s p l. (0, 0))\<rparr>"])
  show "createLocalSdp \<lparr>guess_localip = ''1.2.3.4'', stun_mapping = (\<lambda>s p l. (0, 0))\<rparr> (config_initial\<lparr>useVideo := 1\<rparr>)
      None sdp_ports_initial =
    Inr (\<lparr>audioPort = 30000, videoPort = 30002, portCount = 30004\<rparr>,
      sdp_text ''1.2.3.4'' ''m=audio 30000 RTP/AVP 0 8 101'' (''m=video 30002 RTP/AVP 26'' @ crlf)
      (pcmu_map @ pcma_map @ event_map))"
    by (simp add: createLocalSdp_def sdp_ports_initial_def mapped_address_def config_get_nat_traversal_def
        config_initial_def audio_part_def video_part_def config_get_use_video_def strcpy_to_def strcat_to_def
        read_array_def snprintf_to_def sdp_text_def pcmu_map_def pcma_map_def event_map_def show_int_def
        show_nat.simps digit_chars)
qed (simp_all add: config_get_use_video_def config_get_nat_traversal_def config_initial_def sdp_ports_initial_def)

end
