(* ===== verification/Sound_Conv.thy ===== *)
theory Sound_Conv
  imports Furikup_Prelude
begin

text \<open>
  The G.711 codecs of SIPEngine/sound_conv.c: the sample conversions between 16-bit linear PCM
  and A-law or u-law bytes, and the four buffer conversions built on them. An
  \<open>unsigned char\<close> is an \<open>8 word\<close>; the \<open>int\<close> samples are in the 16-bit range,
  where none of the arithmetic below can overflow 32 bits. \<open>>>\<close> on a signed
  \<open>int\<close> is the arithmetic shift \<open>drop_bit\<close>.
\<close>

type_synonym uchar = "8 word"

section \<open>Sample conversions\<close>

definition val_seg :: "int \<Rightarrow> int" where
  "val_seg val0 =
     (let r = 0; val = drop_bit 7 val0;
          (val, r) = (if val AND 0xf0 \<noteq> 0 then (drop_bit 4 val, r + 4) else (val, r));
          (val, r) = (if val AND 0x0c \<noteq> 0 then (drop_bit 2 val, r + 2) else (val, r))
      in if val AND 0x02 \<noteq> 0 then r + 1 else r)"

definition s16_to_alaw :: "int \<Rightarrow> uchar" where
  "s16_to_alaw pcm =
     (let (mask, pcm_val) =
            (if pcm \<ge> 0 then (0xD5, pcm)
             else (0x55, if - pcm > 0x7fff then 0x7fff else - pcm));
          aval =
            (if pcm_val < 256 then word_of_int (drop_bit 4 pcm_val)
             else let seg = val_seg pcm_val
                  in word_of_int (push_bit 4 seg OR (drop_bit (nat (seg + 3)) pcm_val AND 0x0f)))
      in aval XOR mask)"

definition alaw_to_s16 :: "uchar \<Rightarrow> int" where
  "alaw_to_s16 a0 =
     (let a_val = a0 XOR 0x55;
          t = uint (a_val AND 0x7f);
          t = (if t < 16 then push_bit 4 t + 8
               else let seg = drop_bit 4 t AND 0x07
                    in push_bit (nat (seg - 1)) (push_bit 4 (t AND 0x0f) + 0x108))
      in if a_val AND 0x80 \<noteq> 0 then t else - t)"

definition s16_to_ulaw :: "int \<Rightarrow> uchar" where
  "s16_to_ulaw pcm =
     (let (pcm_val, mask) = (if pcm < 0 then (0x84 - pcm, 0x7f) else (pcm + 0x84, 0xff));
          pcm_val = (if pcm_val > 0x7fff then 0x7fff else pcm_val);
          seg = val_seg pcm_val;
          uval = word_of_int (push_bit 4 seg OR (drop_bit (nat (seg + 3)) pcm_val AND 0x0f))
      in uval XOR mask)"

definition ulaw_to_s16 :: "uchar \<Rightarrow> int" where
  "ulaw_to_s16 u0 =
     (let u_val = NOT u0;
          t = push_bit 3 (uint (u_val AND 0x0f)) + 0x84;
          t = push_bit (nat (drop_bit 4 (uint (u_val AND 0x70)))) t
      in if u_val AND 0x80 \<noteq> 0 then 0x84 - t else t - 0x84)"

section \<open>Buffer conversions\<close>

text \<open>
  The buffers are \<open>char\<close> arrays; \<open>s16_data\<close> is accessed through a
  \<open>signed short\<close> pointer, so it is modelled by its list of shorts. The encoders read
  \<open>pcm_size / 2\<close> of them, the decoders \<open>size\<close> bytes; reading past the array is a
  fault. A \<open>short\<close> keeps the low 16 bits of the \<open>int\<close> assigned to it.
\<close>

definition to_short :: "int \<Rightarrow> int" where
  "to_short x = (x + 2 ^ 15) mod 2 ^ 16 - 2 ^ 15"

definition mulaw_dec :: "uchar list \<Rightarrow> int \<Rightarrow> int list res" where
  "mulaw_dec mulaw_data sz =
     (if sz \<le> int (length mulaw_data)
      then Inr (map (\<lambda>u. to_short (ulaw_to_s16 u)) (take (nat sz) mulaw_data))
      else Inl Out_of_bounds)"

definition mulaw_enc :: "int list \<Rightarrow> int \<Rightarrow> uchar list res" where
  "mulaw_enc s16_data pcm_size =
     (let limit = c_div pcm_size 2 in
      if limit \<le> int (length s16_data) then Inr (map s16_to_ulaw (take (nat limit) s16_data))
      else Inl Out_of_bounds)"

definition alaw_dec :: "uchar list \<Rightarrow> int \<Rightarrow> int list res" where
  "alaw_dec alaw_data sz =
     (if sz \<le> int (length alaw_data)
      then Inr (map (\<lambda>a. to_short (alaw_to_s16 a)) (take (nat sz) alaw_data))
      else Inl Out_of_bounds)"

definition alaw_enc :: "int list \<Rightarrow> int \<Rightarrow> uchar list res" where
  "alaw_enc s16_data pcm_size =
     (let limit = c_div pcm_size 2 in
      if limit \<le> int (length s16_data) then Inr (map s16_to_alaw (take (nat limit) s16_data))
      else Inl Out_of_bounds)"

section \<open>Segments and quantisation steps\<close>

lemma all_codes: "(\<forall>w::uchar. P w) \<longleftrightarrow> list_all (\<lambda>i. P (word_of_int i)) [0..255]"
proof
  assume h: "list_all (\<lambda>i. P (word_of_int i)) [0..255]"
  show "\<forall>w. P w"
  proof
    fix w :: uchar
    have "0 \<le> uint w" "uint w < 256" using uint_lt2p [of w] by auto
    then have "uint w \<in> set [0..255]" by simp
    with h have "P (word_of_int (uint w))" by (simp only: list_all_iff)
    then show "P w" by simp
  qed
qed (simp add: list_all_iff)

lemma list_all_uptoD: "list_all P [a..b] \<Longrightarrow> a \<le> i \<Longrightarrow> i \<le> b \<Longrightarrow> P i"
  by (simp add: list_all_iff)

text \<open>The segment number is the position of the leading one above bit 7.\<close>

lemma val_seg_high_bits: "val_seg v = val_seg (128 * (v div 128))"
  by (simp add: val_seg_def drop_bit_eq_div)

definition leading_one :: "int \<Rightarrow> int \<Rightarrow> bool" where
  "leading_one w s \<longleftrightarrow>
     0 \<le> s \<and> s \<le> 7 \<and> w < 2 ^ nat (s + 1) \<and> (w \<noteq> 0 \<longrightarrow> 2 ^ nat s \<le> w)"

lemma val_seg_table: "list_all (\<lambda>w. leading_one w (val_seg (128 * w))) [0..255]"
  by code_simp

lemma val_seg_bounds:
  assumes "0 \<le> v" "v \<le> 0x7fff"
  shows "0 \<le> val_seg v" "val_seg v \<le> 7" "v < 2 ^ nat (val_seg v + 8)"
    and "128 \<le> v \<Longrightarrow> 2 ^ nat (val_seg v + 7) \<le> v"
proof -
  let ?w = "v div 128" and ?s = "val_seg v"
  have w: "0 \<le> ?w" "?w \<le> 255" using assms by auto
  have "leading_one ?w ?s"
    using list_all_uptoD [OF val_seg_table w] by (simp only: val_seg_high_bits [of v, symmetric])
  then have t: "0 \<le> ?s" "?s \<le> 7" "?w < 2 ^ nat (?s + 1)" "?w \<noteq> 0 \<Longrightarrow> 2 ^ nat ?s \<le> ?w"
    by (simp_all only: leading_one_def simp_thms)
  show "0 \<le> ?s" "?s \<le> 7" by (fact t)+
  have e: "(2::int) ^ nat (?s + 8) = 128 * 2 ^ nat (?s + 1)" "(2::int) ^ nat (?s + 7) = 128 * 2 ^ nat ?s"
    using t(1) by (simp_all add: nat_add_distrib power_add)
  from t(3) show "v < 2 ^ nat (?s + 8)" unfolding e by linarith
  show "2 ^ nat (?s + 7) \<le> v" if "128 \<le> v"
    using t(4) that unfolding e by linarith
qed

lemma leading_one_zero: "0 \<le> v \<Longrightarrow> v < 128 \<Longrightarrow> val_seg v = 0"
  by (simp add: val_seg_def drop_bit_eq_div)

text \<open>The middle of the quantisation step that holds the magnitude \<open>m\<close>.\<close>

definition step_middle :: "int \<Rightarrow> int" where
  "step_middle m = (let w = 2 ^ nat (val_seg m + 3) in (m div w) * w + w div 2)"

lemma code_fields:
  "list_all (\<lambda>s. list_all (\<lambda>q. (push_bit 4 s OR q AND 15 :: int) = 16 * s + q mod 16) [0..31]) [0..7]"
  by code_simp
lemma ulaw_decode_table:
  "list_all (\<lambda>s. list_all (\<lambda>k.
      (let b = word_of_int (push_bit 4 s OR (k AND 15)) :: uchar; t = (8 * k + 4) * 2 ^ nat s - 0x84
      in ulaw_to_s16 (b XOR 0xff) = t \<and> ulaw_to_s16 (b XOR 0x7f) = - t)) [16..31]) [0..7]"
  by code_simp
lemma alaw_decode_table:
  "list_all (\<lambda>s. list_all (\<lambda>k.
      (let b = word_of_int (push_bit 4 s OR (k AND 15)) :: uchar; t = (16 * k + 8) * 2 ^ nat (s - 1)
      in alaw_to_s16 (b XOR 0xD5) = t \<and> alaw_to_s16 (b XOR 0x55) = - t)) [16..31]) [1..7]"
  by code_simp
lemma alaw_decode_low_table:
  "list_all (\<lambda>k. let b = word_of_int k :: uchar
      in alaw_to_s16 (b XOR 0xD5) = 16 * k + 8 \<and> alaw_to_s16 (b XOR 0x55) = - (16 * k + 8)) [0..15]"
  by code_simp

lemma div_less_of_mult: "(m::int) < k * p \<Longrightarrow> 0 < p \<Longrightarrow> m div p < k"
  by (smt (verit) mult_right_mono div_mult_mod_eq pos_mod_sign)

lemma leading_nibble:
  assumes "128 \<le> m" "m \<le> 0x7fff"
  shows "16 \<le> m div 2 ^ nat (val_seg m + 3)" "m div 2 ^ nat (val_seg m + 3) \<le> 31"
proof -
  let ?s = "val_seg m"
  have s: "0 \<le> ?s" "m < 2 ^ nat (?s + 8)" "2 ^ nat (?s + 7) \<le> m"
    using val_seg_bounds [of m] assms by auto
  define p :: int where "p = 2 ^ nat (?s + 3)"
  have e: "(2::int) ^ nat (?s + 8) = 32 * p" "(2::int) ^ nat (?s + 7) = 16 * p" and p: "0 < p"
    using s(1) by (simp_all add: p_def nat_add_distrib power_add)
  from s(3) have "16 * p \<le> m" by (simp only: e)
  then show "16 \<le> m div 2 ^ nat (?s + 3)"
    unfolding p_def [symmetric] using p by (metis zdiv_mono1 nonzero_mult_div_cancel_right less_irrefl)
  from s(2) have "m < 32 * p" by (simp only: e)
  then have "m div p < 32" using p by (rule div_less_of_mult)
  then show "m div 2 ^ nat (?s + 3) \<le> 31" by (simp add: p_def)
qed

lemma ulaw_of_magnitude:
  assumes "132 \<le> m" "m \<le> 0x7fff"
  defines "b \<equiv> word_of_int (push_bit 4 (val_seg m) OR (drop_bit (nat (val_seg m + 3)) m AND 0x0f)) :: uchar"
  shows "ulaw_to_s16 (b XOR 0xff) = step_middle m - 132"
    and "ulaw_to_s16 (b XOR 0x7f) = - (step_middle m - 132)"
proof -
  let ?s = "val_seg m" and ?k = "m div 2 ^ nat (val_seg m + 3)"
  have s: "0 \<le> ?s" "?s \<le> 7" and k: "16 \<le> ?k" "?k \<le> 31"
    using val_seg_bounds [of m] leading_nibble [of m] assms by auto
  have mid: "step_middle m = (8 * ?k + 4) * 2 ^ nat ?s"
    using s(1) by (simp add: step_middle_def Let_def nat_add_distrib power_add algebra_simps)
  show "ulaw_to_s16 (b XOR 0xff) = step_middle m - 132"
    and "ulaw_to_s16 (b XOR 0x7f) = - (step_middle m - 132)"
    using list_all_uptoD [OF list_all_uptoD [OF ulaw_decode_table s] k]
    by (simp_all add: Let_def b_def drop_bit_eq_div mid)
qed

lemma alaw_of_magnitude:
  assumes "256 \<le> m" "m \<le> 0x7fff"
  defines "b \<equiv> word_of_int (push_bit 4 (val_seg m) OR (drop_bit (nat (val_seg m + 3)) m AND 0x0f)) :: uchar"
  shows "alaw_to_s16 (b XOR 0xD5) = step_middle m"
    and "alaw_to_s16 (b XOR 0x55) = - step_middle m"
proof -
  let ?s = "val_seg m" and ?k = "m div 2 ^ nat (val_seg m + 3)"
  have s: "0 \<le> ?s" "?s \<le> 7" and k: "16 \<le> ?k" "?k \<le> 31"
    using val_seg_bounds [of m] leading_nibble [of m] assms by auto
  have "?s \<noteq> 0"
    using val_seg_bounds(3) [of m] assms by auto
  with s have s1: "1 \<le> ?s" by simp
  have "(2::int) ^ nat ?s = 2 * 2 ^ nat (?s - 1)"
    using s1 by (simp add: nat_diff_distrib' flip: power_Suc)
  then have mid: "step_middle m = (16 * ?k + 8) * 2 ^ nat (?s - 1)"
    using s(1) by (simp add: step_middle_def Let_def nat_add_distrib power_add algebra_simps)
  show "alaw_to_s16 (b XOR 0xD5) = step_middle m"
    and "alaw_to_s16 (b XOR 0x55) = - step_middle m"
    using list_all_uptoD [OF list_all_uptoD [OF alaw_decode_table s1 s(2)] k]
    by (simp_all add: Let_def b_def drop_bit_eq_div mid)
qed

section \<open>Samples through the codecs\<close>

text \<open>What a sample becomes after encoding and decoding.\<close>

definition ulaw_magnitude :: "int \<Rightarrow> int" where
  "ulaw_magnitude x = min (\<bar>x\<bar> + 132) 0x7fff"

lemma ulaw_sample:
  assumes "- 32768 \<le> x" "x \<le> 32767"
  shows "ulaw_to_s16 (s16_to_ulaw x) =
    (if x < 0 then - (step_middle (ulaw_magnitude x) - 132) else step_middle (ulaw_magnitude x) - 132)"
proof -
  let ?m = "ulaw_magnitude x"
  have m: "132 \<le> ?m" "?m \<le> 0x7fff" by (auto simp: ulaw_magnitude_def)
  show ?thesis
  proof (cases "x < 0")
    case True
    then have "(if 132 - x > 0x7fff then 0x7fff else 132 - x) = ?m"
      by (auto simp: ulaw_magnitude_def)
    with True ulaw_of_magnitude(2) [OF m] show ?thesis
      by (simp only: s16_to_ulaw_def Let_def if_True split)
  next
    case False
    then have "(if x + 132 > 0x7fff then 0x7fff else x + 132) = ?m"
      by (auto simp: ulaw_magnitude_def)
    with False ulaw_of_magnitude(1) [OF m] show ?thesis
      by (simp only: s16_to_ulaw_def Let_def if_False split)
  qed
qed

definition alaw_magnitude :: "int \<Rightarrow> int" where
  "alaw_magnitude x = min \<bar>x\<bar> 0x7fff"

lemma alaw_magnitude_nonneg: "0 \<le> alaw_magnitude x"
  and alaw_magnitude_le: "alaw_magnitude x \<le> 0x7fff"
  by (simp_all add: alaw_magnitude_def)

definition alaw_level :: "int \<Rightarrow> int" where
  "alaw_level m = (if m < 256 then 16 * (m div 16) + 8 else step_middle m)"

definition alaw_code :: "int \<Rightarrow> uchar" where
  "alaw_code m =
     (if m < 256 then word_of_int (drop_bit 4 m)
      else word_of_int (push_bit 4 (val_seg m) OR (drop_bit (nat (val_seg m + 3)) m AND 0x0f)))"

lemma alaw_of_code:
  assumes "0 \<le> m" "m \<le> 0x7fff"
  shows "alaw_to_s16 (alaw_code m XOR 0xD5) = alaw_level m"
    and "alaw_to_s16 (alaw_code m XOR 0x55) = - alaw_level m"
proof -
  have low: "alaw_to_s16 (word_of_int (drop_bit 4 m) XOR 0xD5) = alaw_level m"
       "alaw_to_s16 (word_of_int (drop_bit 4 m) XOR 0x55) = - alaw_level m" if "m < 256"
  proof -
    have "0 \<le> m div 16" "m div 16 \<le> 15" using that assms by auto
    from list_all_uptoD [OF alaw_decode_low_table this] that
    show "alaw_to_s16 (word_of_int (drop_bit 4 m) XOR 0xD5) = alaw_level m"
         "alaw_to_s16 (word_of_int (drop_bit 4 m) XOR 0x55) = - alaw_level m"
      by (simp_all add: drop_bit_eq_div alaw_level_def Let_def)
  qed
  show "alaw_to_s16 (alaw_code m XOR 0xD5) = alaw_level m"
    and "alaw_to_s16 (alaw_code m XOR 0x55) = - alaw_level m"
    using low alaw_of_magnitude [of m] assms by (cases "m < 256"; simp add: alaw_code_def alaw_level_def)+
qed

lemma s16_to_alaw_code:
  assumes "- 32768 \<le> x" "x \<le> 32767"
  shows "s16_to_alaw x = alaw_code (alaw_magnitude x) XOR (if x < 0 then 0x55 else 0xD5)"
proof (cases "x < 0")
  case True
  then have "(if - x > 0x7fff then 0x7fff else - x) = alaw_magnitude x" "\<not> 0 \<le> x"
    by (auto simp: alaw_magnitude_def)
  with True show ?thesis
    by (simp only: s16_to_alaw_def alaw_code_def Let_def if_True if_False split)
next
  case False
  with assms have "alaw_magnitude x = x" "0 \<le> x" by (auto simp: alaw_magnitude_def)
  with False show ?thesis
    by (simp only: s16_to_alaw_def alaw_code_def Let_def if_True if_False split)
qed

lemma alaw_sample:
  assumes "- 32768 \<le> x" "x \<le> 32767"
  shows "alaw_to_s16 (s16_to_alaw x) =
    (if x < 0 then - alaw_level (alaw_magnitude x) else alaw_level (alaw_magnitude x))"
  using alaw_of_code [of "alaw_magnitude x"] assms
  by (simp add: s16_to_alaw_code alaw_magnitude_nonneg alaw_magnitude_le)

text \<open>A step middle is at most half a step away, and half a step is at most a 32nd of the magnitude.\<close>

lemma step_middle_error:
  assumes "128 \<le> m" "m \<le> 0x7fff"
  shows "\<bar>step_middle m - m\<bar> * 32 \<le> m"
proof -
  let ?s = "val_seg m"
  define h :: int where "h = 2 ^ nat (?s + 2)"
  have s: "0 \<le> ?s" "2 ^ nat (?s + 7) \<le> m" using val_seg_bounds [of m] assms by auto
  have e: "(2::int) ^ nat (?s + 7) = 32 * h" "(2::int) ^ nat (?s + 3) = 2 * h" and h: "0 < h"
    using s(1) by (simp_all add: h_def nat_add_distrib power_add)
  have "m = (m div (2 * h)) * (2 * h) + m mod (2 * h)"
    by (simp only: div_mult_mod_eq)
  moreover have "0 \<le> m mod (2 * h)" "m mod (2 * h) < 2 * h" using h by simp_all
  moreover have "step_middle m = (m div (2 * h)) * (2 * h) + h" by (simp add: step_middle_def Let_def e)
  ultimately have "\<bar>step_middle m - m\<bar> \<le> h" by linarith
  then have "\<bar>step_middle m - m\<bar> * 32 \<le> h * 32" by (rule mult_right_mono) simp
  also have "h * 32 \<le> m" using s(2) by (simp only: e mult.commute)
  finally show ?thesis .
qed

lemma step_middle_range:
  assumes "128 \<le> m" "m \<le> 0x7fff"
  shows "2 ^ nat (val_seg m + 7) < step_middle m" "step_middle m < 2 ^ nat (val_seg m + 8)"
proof -
  let ?s = "val_seg m"
  define h :: int where "h = 2 ^ nat (?s + 2)"
  let ?k = "m div (2 * h)"
  have s: "0 \<le> ?s" using val_seg_bounds [of m] assms by auto
  have e: "(2::int) ^ nat (?s + 7) = 32 * h" "(2::int) ^ nat (?s + 8) = 64 * h" "(2::int) ^ nat (?s + 3) = 2 * h"
    and h: "0 < h" using s by (simp_all add: h_def nat_add_distrib power_add)
  have mid: "step_middle m = ?k * (2 * h) + h" by (simp add: step_middle_def Let_def e)
  have "16 \<le> ?k" "?k \<le> 31" using leading_nibble [OF assms] by (simp_all only: e)
  then have "16 * (2 * h) \<le> ?k * (2 * h)" "?k * (2 * h) \<le> 31 * (2 * h)"
    using h by (simp_all add: mult_right_mono)
  with h show "2 ^ nat (val_seg m + 7) < step_middle m" "step_middle m < 2 ^ nat (val_seg m + 8)"
    unfolding e mid by linarith+
qed

lemma val_seg_mono: "0 \<le> v \<Longrightarrow> v \<le> w \<Longrightarrow> w \<le> 0x7fff \<Longrightarrow> val_seg v \<le> val_seg w"
proof (rule ccontr)
  assume a: "0 \<le> v" "v \<le> w" "w \<le> 0x7fff" and n: "\<not> val_seg v \<le> val_seg w"
  have v: "0 \<le> val_seg v" and w: "0 \<le> val_seg w" "w < 2 ^ nat (val_seg w + 8)"
    using val_seg_bounds [of v] val_seg_bounds [of w] a by auto
  from n w have "val_seg v \<noteq> 0" by simp
  then have "128 \<le> v" using leading_one_zero a(1) by force
  with a have "2 ^ nat (val_seg v + 7) \<le> v" by (intro val_seg_bounds(4)) auto
  moreover have "(2::int) ^ nat (val_seg w + 8) \<le> 2 ^ nat (val_seg v + 7)"
    using n w(1) by (intro power_increasing) auto
  ultimately show False using a w by linarith
qed

lemma step_middle_mono:
  assumes "128 \<le> m" "m \<le> n" "n \<le> 0x7fff"
  shows "step_middle m \<le> step_middle n"
proof (cases "val_seg m = val_seg n")
  case True
  with assms show ?thesis by (simp add: step_middle_def Let_def zdiv_mono1 mult_right_mono)
next
  case False
  with val_seg_mono [of m n] assms have "val_seg m < val_seg n" by simp
  moreover have "0 \<le> val_seg m" using val_seg_bounds [of m] assms by simp
  ultimately have "(2::int) ^ nat (val_seg m + 8) \<le> 2 ^ nat (val_seg n + 7)"
    by (intro power_increasing) auto
  with step_middle_range [of m] step_middle_range [of n] assms show ?thesis by linarith
qed

lemma step_middle_256: "step_middle 256 = 264" by code_simp
lemma step_middle_132: "step_middle 132 = 132" by code_simp
lemma step_middle_top: "step_middle 0x7fff = 32256" by code_simp

lemma alaw_level_mono:
  assumes "0 \<le> m" "m \<le> n" "n \<le> 0x7fff"
  shows "alaw_level m \<le> alaw_level n"
proof -
  have "16 * (m div 16) \<le> 240" if "m < 256" using that by presburger
  moreover have "256 \<le> step_middle n" if "256 \<le> n"
    using step_middle_mono [of 256 n] that assms(3) by (simp add: step_middle_256)
  moreover have "m div 16 \<le> n div 16" using assms by (simp add: zdiv_mono1)
  ultimately show ?thesis
    using assms step_middle_mono [of m n] by (simp add: alaw_level_def) linarith
qed

lemma alaw_level_error:
  assumes "0 \<le> m" "m \<le> 0x7fff"
  shows "\<bar>alaw_level m - m\<bar> * 32 \<le> max m 256"
proof (cases "m < 256")
  case True
  have "16 * (m div 16) + m mod 16 = m" by simp
  moreover have "0 \<le> m mod 16" "m mod 16 < 16" by simp_all
  ultimately have "\<bar>16 * (m div 16) + 8 - m\<bar> \<le> 8" by linarith
  with True show ?thesis by (simp add: alaw_level_def)
next
  case False
  with step_middle_error [of m] assms show ?thesis by (simp add: alaw_level_def)
qed

lemma ulaw_code_roundtrip: "u \<noteq> 0x7f \<Longrightarrow> s16_to_ulaw (ulaw_to_s16 u) = u"
proof -
  have "list_all (\<lambda>i. (word_of_int i :: uchar) \<noteq> 0x7f \<longrightarrow>
      s16_to_ulaw (ulaw_to_s16 (word_of_int i)) = word_of_int i) [0..255]" by code_simp
  then have "\<forall>u. u \<noteq> 0x7f \<longrightarrow> s16_to_ulaw (ulaw_to_s16 u) = u" by (simp only: all_codes)
  then show "u \<noteq> 0x7f \<Longrightarrow> s16_to_ulaw (ulaw_to_s16 u) = u" by simp
qed

lemma alaw_code_roundtrip: "s16_to_alaw (alaw_to_s16 a) = a"
proof -
  have "list_all (\<lambda>i. s16_to_alaw (alaw_to_s16 (word_of_int i)) = word_of_int i) [0..255]" by code_simp
  then have "\<forall>a. s16_to_alaw (alaw_to_s16 a) = a" by (simp only: all_codes)
  then show ?thesis ..
qed

text \<open>
  Encoding a 16-bit sample to u-law and decoding it again changes it by at most a
  32nd of its biased magnitude, on the whole 16-bit range, the clipped part included.
\<close>

theorem ulaw_error:
  assumes "- 32768 \<le> x" "x \<le> 32767"
  shows "\<bar>ulaw_to_s16 (s16_to_ulaw x) - x\<bar> * 32 \<le> \<bar>x\<bar> + 132"
proof -
  let ?m = "ulaw_magnitude x"
  have m: "128 \<le> ?m" "?m \<le> 0x7fff" by (auto simp: ulaw_magnitude_def)
  show ?thesis
  proof (cases "\<bar>x\<bar> + 132 \<le> 0x7fff")
    case True
    then have "?m = \<bar>x\<bar> + 132" by (simp add: ulaw_magnitude_def)
    with step_middle_error [OF m] have "\<bar>step_middle ?m - (\<bar>x\<bar> + 132)\<bar> * 32 \<le> \<bar>x\<bar> + 132" by simp
    moreover have "\<bar>ulaw_to_s16 (s16_to_ulaw x) - x\<bar> = \<bar>step_middle ?m - (\<bar>x\<bar> + 132)\<bar>"
      by (simp add: ulaw_sample assms abs_if)
    ultimately show ?thesis by simp
  next
    case False
    then have "?m = 0x7fff" by (simp add: ulaw_magnitude_def)
    with False assms show ?thesis
      by (simp add: ulaw_sample step_middle_top split: if_splits)
  qed
qed


text \<open>An odd extension of a monotone nonnegative level is monotone.\<close>

lemma odd_extension_mono:
  fixes g :: "int \<Rightarrow> int"
  assumes "\<And>a b. \<bar>a\<bar> \<le> \<bar>b\<bar> \<Longrightarrow> g a \<le> g b" "\<And>a. 0 \<le> g a" "x \<le> y"
  shows "(if x < 0 then - g x else g x) \<le> (if y < 0 then - g y else g y)"
  using assms(1) [of x y] assms(1) [of y x] assms(2) [of x] assms(2) [of y] assms(3) by auto

text \<open>
  Both codecs keep the order of samples: a louder sample never decodes below a
  softer one.
\<close>

theorem companding_monotone:
  assumes "- 32768 \<le> x" "x \<le> y" "y \<le> 32767"
  shows "ulaw_to_s16 (s16_to_ulaw x) \<le> ulaw_to_s16 (s16_to_ulaw y)
       \<and> alaw_to_s16 (s16_to_alaw x) \<le> alaw_to_s16 (s16_to_alaw y)"
proof
  have u: "step_middle (ulaw_magnitude a) \<le> step_middle (ulaw_magnitude b)" if "\<bar>a\<bar> \<le> \<bar>b\<bar>" for a b
    using that by (intro step_middle_mono) (auto simp: ulaw_magnitude_def)
  have u0: "132 \<le> step_middle (ulaw_magnitude a)" for a
    using step_middle_mono [of 132 "ulaw_magnitude a"] by (auto simp: ulaw_magnitude_def step_middle_132)
  show "ulaw_to_s16 (s16_to_ulaw x) \<le> ulaw_to_s16 (s16_to_ulaw y)"
    using odd_extension_mono [of "\<lambda>a. step_middle (ulaw_magnitude a) - 132" x y] u u0 assms
    by (simp add: ulaw_sample)
  have a: "alaw_level (alaw_magnitude a) \<le> alaw_level (alaw_magnitude b)" if "\<bar>a\<bar> \<le> \<bar>b\<bar>" for a b
    using that by (intro alaw_level_mono) (auto simp: alaw_magnitude_def)
  have a0: "0 \<le> alaw_level (alaw_magnitude a)" for a
    using alaw_level_mono [of 0 "alaw_magnitude a"] by (auto simp: alaw_magnitude_def alaw_level_def)
  show "alaw_to_s16 (s16_to_alaw x) \<le> alaw_to_s16 (s16_to_alaw y)"
    using odd_extension_mono [of "\<lambda>a. alaw_level (alaw_magnitude a)" x y] a a0 assms
    by (simp add: alaw_sample)
qed

text \<open>
  Encoding a 16-bit sample to A-law and decoding it again changes it by at most a
  32nd of its magnitude, and by at most 8 below 256, on the whole 16-bit range.
\<close>

theorem alaw_error:
  assumes "- 32768 \<le> x" "x \<le> 32767"
  shows "\<bar>alaw_to_s16 (s16_to_alaw x) - x\<bar> * 32 \<le> max \<bar>x\<bar> 256"
proof (cases "x = - 32768")
  case True
  have "\<bar>alaw_to_s16 (s16_to_alaw (- 32768)) - (- 32768)\<bar> * 32 \<le> max \<bar>- 32768\<bar> (256 :: int)"
    by code_simp
  with True show ?thesis by simp
next
  case False
  with assms have m: "alaw_magnitude x = \<bar>x\<bar>" by (simp add: alaw_magnitude_def)
  have "\<bar>alaw_to_s16 (s16_to_alaw x) - x\<bar> = \<bar>alaw_level \<bar>x\<bar> - \<bar>x\<bar>\<bar>"
    by (simp add: alaw_sample assms m abs_if)
  with alaw_level_error [of "\<bar>x\<bar>"] alaw_magnitude_le [of x] show ?thesis
    by (simp add: m)
qed

lemma decoded_fits_short:
  "to_short (ulaw_to_s16 u) = ulaw_to_s16 u" "to_short (alaw_to_s16 u) = alaw_to_s16 u"
proof -
  have "list_all (\<lambda>i. to_short (ulaw_to_s16 (word_of_int i)) = ulaw_to_s16 (word_of_int i)) [0..255]"
    by code_simp
  then have "\<forall>u. to_short (ulaw_to_s16 u) = ulaw_to_s16 u" by (simp only: all_codes)
  then show "to_short (ulaw_to_s16 u) = ulaw_to_s16 u" ..
  have "list_all (\<lambda>i. to_short (alaw_to_s16 (word_of_int i)) = alaw_to_s16 (word_of_int i)) [0..255]"
    by code_simp
  then have "\<forall>u. to_short (alaw_to_s16 u) = alaw_to_s16 u" by (simp only: all_codes)
  then show "to_short (alaw_to_s16 u) = alaw_to_s16 u" ..
qed

text \<open>
  Decoding a received buffer of codes and encoding it again gives the same bytes,
  for every buffer of A-law codes and every buffer of u-law codes without the second zero 0x7f.
\<close>

theorem g711_buffer_roundtrip:
  assumes "0x7f \<notin> set data"
  shows "bindR (mulaw_dec data (int (length data))) (\<lambda>pcm. mulaw_enc pcm (2 * int (length data))) = Inr data
       \<and> bindR (alaw_dec data (int (length data))) (\<lambda>pcm. alaw_enc pcm (2 * int (length data))) = Inr data"
proof -
  have half: "c_div (2 * int (length data)) 2 = int (length data)"
    by (simp add: c_div_nonneg)
  have "map (s16_to_ulaw \<circ> ulaw_to_s16) data = data"
    using assms by (intro map_idI) (auto intro!: ulaw_code_roundtrip)
  moreover have "map (s16_to_alaw \<circ> alaw_to_s16) data = data"
    by (intro map_idI) (simp add: alaw_code_roundtrip)
  ultimately show ?thesis
    by (simp add: mulaw_dec_def mulaw_enc_def alaw_dec_def alaw_enc_def Let_def half decoded_fits_short)
qed

theorem ulaw_error_witness: "\<bar>ulaw_to_s16 (s16_to_ulaw (- 1000)) - (- 1000)\<bar> * 32 \<le> \<bar>- 1000\<bar> + 132"
  by (rule ulaw_error) simp_all

theorem alaw_error_witness: "\<bar>alaw_to_s16 (s16_to_alaw 20000) - 20000\<bar> * 32 \<le> max \<bar>20000\<bar> 256"
  by (rule alaw_error) simp_all

theorem companding_monotone_witness:
  "ulaw_to_s16 (s16_to_ulaw (- 5)) \<le> ulaw_to_s16 (s16_to_ulaw 300)
   \<and> alaw_to_s16 (s16_to_alaw (- 5)) \<le> alaw_to_s16 (s16_to_alaw 300)"
  by (rule companding_monotone) simp_all

theorem g711_buffer_roundtrip_witness:
  "bindR (mulaw_dec [0, 1, 255] (int (length [0, 1, 255 :: uchar])))
     (\<lambda>pcm. mulaw_enc pcm (2 * int (length [0, 1, 255 :: uchar]))) = Inr [0, 1, 255]
   \<and> bindR (alaw_dec [0, 1, 255] (int (length [0, 1, 255 :: uchar])))
     (\<lambda>pcm. alaw_enc pcm (2 * int (length [0, 1, 255 :: uchar]))) = Inr [0, 1, 255]"
  by (rule g711_buffer_roundtrip) simp

end
