(* ===== verification/Fir_Algs.thy ===== *)
theory Fir_Algs
  imports Furikup_Prelude
begin

text \<open>
  The FIR filters of SIPEngine/FirAlgs.c. \<open>SAMPLE\<close> is a type with an addition, a product
  and a zero and no laws at all, so what is proved at that sort holds for the target's floating
  point; the sort \<open>comm_semiring_0\<close> is exact arithmetic. Arrays are lists; an access behind
  the end of one is a fault. Each function returns the output sample with the arrays and the filter
  state it leaves.
\<close>

section \<open>The six algorithms\<close>

definition clear_line :: "nat \<Rightarrow> 'a::zero list \<Rightarrow> 'a list res" where
  "clear_line ntaps z =
     (if ntaps \<le> length z then Inr (foldl (\<lambda>z ii. z[ii := 0]) z [0..<ntaps])
      else Inl Out_of_bounds)"

definition shift_line :: "nat \<Rightarrow> 'a list \<Rightarrow> 'a list" where
  "shift_line ntaps z = foldl (\<lambda>z ii. z[Suc ii := z ! ii]) z (rev [0..<ntaps - 1])"

definition fir_basic ::
  "'a::{plus,times,zero} \<Rightarrow> nat \<Rightarrow> 'a list \<Rightarrow> 'a list \<Rightarrow> ('a \<times> 'a list) res" where
  "fir_basic input ntaps h z =
     (if 0 < length z \<and> ntaps \<le> length h \<and> ntaps \<le> length z then
        let z = z[0 := input];
            accum = foldl (\<lambda>accum ii. accum + h ! ii * z ! ii) 0 [0..<ntaps]
        in Inr (accum, shift_line ntaps z)
      else Inl Out_of_bounds)"

definition next_up :: "nat \<Rightarrow> nat \<Rightarrow> nat" where
  "next_up ntaps state = (if Suc state \<ge> ntaps then 0 else Suc state)"

definition next_down :: "nat \<Rightarrow> nat \<Rightarrow> nat" where
  "next_down ntaps state = (if state = 0 then ntaps - 1 else state - 1)"

definition fir_circular ::
  "'a::{plus,times,zero} \<Rightarrow> nat \<Rightarrow> 'a list \<Rightarrow> 'a list \<Rightarrow> nat \<Rightarrow> ('a \<times> 'a list \<times> nat) res" where
  "fir_circular input ntaps h z p =
     (if p < length z \<and> ntaps \<le> length h \<and> ntaps \<le> length z then
        let z = z[p := input]; state = next_up ntaps p;
            (accum, state) = foldl (\<lambda>(accum, state) ii.
               (accum + h ! ii * z ! state, next_up ntaps state)) (0, state) (rev [0..<ntaps])
        in Inr (accum, z, state)
      else Inl Out_of_bounds)"

definition fir_shuffle ::
  "'a::{plus,times,zero} \<Rightarrow> nat \<Rightarrow> 'a list \<Rightarrow> 'a list \<Rightarrow> ('a \<times> 'a list) res" where
  "fir_shuffle input ntaps h z =
     (if 0 < ntaps \<and> ntaps \<le> length h \<and> ntaps \<le> length z then
        let z = z[0 := input]; accum = h ! (ntaps - 1) * z ! (ntaps - 1)
        in Inr (foldl (\<lambda>(accum, z) ii. (accum + h ! ii * z ! ii, z[Suc ii := z ! ii]))
                 (accum, z) (rev [0..<ntaps - 1]))
      else Inl Out_of_bounds)"

definition fir_split ::
  "'a::{plus,times,zero} \<Rightarrow> nat \<Rightarrow> 'a list \<Rightarrow> 'a list \<Rightarrow> nat \<Rightarrow> ('a \<times> 'a list \<times> nat) res" where
  "fir_split input ntaps h z p =
     (if p < length z \<and> ntaps \<le> length z \<and> ntaps \<le> length h \<and> p \<le> length h then
        let z = z[p := input]; end_ntaps = ntaps - p;
            accum = foldl (\<lambda>accum ii. accum + h ! ii * z ! (p + ii)) 0 [0..<end_ntaps];
            accum = foldl (\<lambda>accum ii. accum + h ! (end_ntaps + ii) * z ! ii) accum [0..<p]
        in Inr (accum, z, next_down ntaps p)
      else Inl Out_of_bounds)"

definition fir_double_z ::
  "'a::{plus,times,zero} \<Rightarrow> nat \<Rightarrow> 'a list \<Rightarrow> 'a list \<Rightarrow> nat \<Rightarrow> ('a \<times> 'a list \<times> nat) res" where
  "fir_double_z input ntaps h z p =
     (if p + ntaps < length z \<and> ntaps \<le> length h then
        let z = z[p + ntaps := input, p := input];
            accum = foldl (\<lambda>accum ii. accum + h ! ii * z ! (p + ii)) 0 [0..<ntaps]
        in Inr (accum, z, next_down ntaps p)
      else Inl Out_of_bounds)"

definition fir_double_h ::
  "'a::{plus,times,zero} \<Rightarrow> nat \<Rightarrow> 'a list \<Rightarrow> 'a list \<Rightarrow> nat \<Rightarrow> ('a \<times> 'a list \<times> nat) res" where
  "fir_double_h input ntaps h z p =
     (if p < length z \<and> p \<le> ntaps \<and> 2 * ntaps \<le> length h + p \<and> ntaps \<le> length z then
        let z = z[p := input];
            accum = foldl (\<lambda>accum ii. accum + h ! (ntaps - p + ii) * z ! ii) 0 [0..<ntaps]
        in Inr (accum, z, next_down ntaps p)
      else Inl Out_of_bounds)"

section \<open>The contract of a filter\<close>

text \<open>
  Abstractly a filter holds its coefficients and the last \<open>n - 1\<close> samples, newest first; a
  step is the scalar product of the coefficients with the new sample and those before it.
\<close>

definition dot :: "'a::{plus,times,zero} list \<Rightarrow> 'a list \<Rightarrow> 'a" where
  "dot h xs = foldl (\<lambda>accum ii. accum + h ! ii * xs ! ii) 0 [0..<length h]"

fun fir_response :: "'a::{plus,times,zero} list \<Rightarrow> 'a list \<Rightarrow> 'a list \<Rightarrow> 'a list" where
  "fir_response h past [] = []"
| "fir_response h past (x # xs) = dot h (x # past) # fir_response h (butlast (x # past)) xs"

fun fir_run :: "('s \<Rightarrow> 'a \<Rightarrow> ('b \<times> 's) res) \<Rightarrow> 's \<Rightarrow> 'a list \<Rightarrow> 'b list res" where
  "fir_run step s [] = Inr []"
| "fir_run step s (x # xs) =
     bindR (step s x) (\<lambda>(y, s'). bindR (fir_run step s' xs) (\<lambda>ys. Inr (y # ys)))"

locale fir_filter =
  fixes step :: "'s \<Rightarrow> 'a::{plus,times,zero} \<Rightarrow> ('a \<times> 's) res"
    and taps :: "'s \<Rightarrow> 'a list"
    and past :: "'s \<Rightarrow> 'a list"
    and ok :: "'s \<Rightarrow> bool"
  assumes step_defined: "ok s \<Longrightarrow> \<exists>y s'. step s x = Inr (y, s')"
    and step_output: "ok s \<Longrightarrow> step s x = Inr (y, s') \<Longrightarrow> y = dot (taps s) (x # past s)"
    and step_past: "ok s \<Longrightarrow> step s x = Inr (y, s') \<Longrightarrow> past s' = butlast (x # past s)"
    and step_taps: "ok s \<Longrightarrow> step s x = Inr (y, s') \<Longrightarrow> taps s' = taps s"
    and step_ok: "ok s \<Longrightarrow> step s x = Inr (y, s') \<Longrightarrow> ok s'"
begin

lemma run_response: "ok s \<Longrightarrow> fir_run step s xs = Inr (fir_response (taps s) (past s) xs)"
proof (induction xs arbitrary: s)
  case Nil
  then show ?case by simp
next
  case (Cons x xs)
  from Cons.prems obtain y s' where st: "step s x = Inr (y, s')"
    using step_defined by blast
  note after = step_ok [OF Cons.prems st] step_output [OF Cons.prems st]
    step_past [OF Cons.prems st] step_taps [OF Cons.prems st]
  from Cons.IH [OF after(1)] st show ?case by (simp only: fir_run.simps bindR.simps prod.case
      fir_response.simps after(2-4))
qed

end

section \<open>The algorithms fulfil the contract\<close>

text \<open>A filter's arguments together: the number of taps, the coefficients, the delay line, the state.\<close>

record 'a fir =
  f_ntaps :: nat
  f_h :: "'a list"
  f_z :: "'a list"
  f_state :: nat

definition shifting_step ::
  "('a \<Rightarrow> nat \<Rightarrow> 'a list \<Rightarrow> 'a list \<Rightarrow> ('a \<times> 'a list) res) \<Rightarrow> 'a fir \<Rightarrow> 'a \<Rightarrow> ('a \<times> 'a fir) res" where
  "shifting_step alg s x =
     bindR (alg x (f_ntaps s) (f_h s) (f_z s)) (\<lambda>(y, z). Inr (y, s\<lparr>f_z := z\<rparr>))"

definition ring_step ::
  "('a \<Rightarrow> nat \<Rightarrow> 'a list \<Rightarrow> 'a list \<Rightarrow> nat \<Rightarrow> ('a \<times> 'a list \<times> nat) res) \<Rightarrow> 'a fir \<Rightarrow> 'a \<Rightarrow>
   ('a \<times> 'a fir) res" where
  "ring_step alg s x =
     bindR (alg x (f_ntaps s) (f_h s) (f_z s) (f_state s))
       (\<lambda>(y, z, p). Inr (y, s\<lparr>f_z := z, f_state := p\<rparr>))"

definition fir_taps :: "'a fir \<Rightarrow> 'a list" where
  "fir_taps s = take (f_ntaps s) (f_h s)"

definition line_ok :: "'a fir \<Rightarrow> bool" where
  "line_ok s \<longleftrightarrow> 0 < f_ntaps s \<and> f_ntaps s \<le> length (f_h s) \<and> f_ntaps s \<le> length (f_z s)"

definition ring_ok :: "'a fir \<Rightarrow> bool" where
  "ring_ok s \<longleftrightarrow> line_ok s \<and> f_state s < f_ntaps s"

text \<open>Where each algorithm keeps the previous samples, newest first.\<close>

definition shifting_past :: "'a fir \<Rightarrow> 'a list" where
  "shifting_past s = map (\<lambda>k. f_z s ! Suc k) [0..<f_ntaps s - 1]"

definition circular_past :: "'a fir \<Rightarrow> 'a list" where
  "circular_past s =
     map (\<lambda>k. f_z s ! ((f_state s + f_ntaps s - 1 - k) mod f_ntaps s)) [0..<f_ntaps s - 1]"

definition descending_past :: "'a fir \<Rightarrow> 'a list" where
  "descending_past s =
     map (\<lambda>k. f_z s ! ((f_state s + 1 + k) mod f_ntaps s)) [0..<f_ntaps s - 1]"

definition doubled :: "nat \<Rightarrow> 'a list \<Rightarrow> bool" where
  "doubled n z \<longleftrightarrow> 2 * n \<le> length z \<and> (\<forall>i<n. z ! (i + n) = z ! i)"

definition double_z_ok :: "'a fir \<Rightarrow> bool" where
  "double_z_ok s \<longleftrightarrow> ring_ok s \<and> doubled (f_ntaps s) (f_z s)"

definition double_h_ok :: "'a fir \<Rightarrow> bool" where
  "double_h_ok s \<longleftrightarrow> ring_ok s \<and> doubled (f_ntaps s) (f_h s)"

lemmas past_defs = shifting_past_def circular_past_def descending_past_def fir_taps_def
  line_ok_def ring_ok_def double_z_ok_def double_h_ok_def

text \<open>The shift loop moves every sample of the line up by one place.\<close>

lemma length_shift_fold: "length (foldl (\<lambda>z ii. z[Suc ii := z ! ii]) z is) = length z"
  by (induction "is" arbitrary: z) auto

lemma length_shift_line [simp]: "length (shift_line n z) = length z"
  by (simp add: shift_line_def length_shift_fold)

lemma shift_fold_nth:
  "m < length z \<Longrightarrow> i < length z \<Longrightarrow>
   foldl (\<lambda>z ii. z[Suc ii := z ! ii]) z (rev [0..<m]) ! i = (if 0 < i \<and> i \<le> m then z ! (i - 1) else z ! i)"
proof (induction m arbitrary: z)
  case 0
  then show ?case by simp
next
  case (Suc m)
  then show ?case
    by (cases "i = Suc m") (auto simp: nth_list_update)
qed

lemma shift_line_nth:
  "n \<le> length z \<Longrightarrow> i < n \<Longrightarrow> shift_line n z ! i = (if i = 0 then z ! 0 else z ! (i - 1))"
  unfolding shift_line_def by (subst shift_fold_nth) auto

lemma butlast_map_upt: "butlast (x # map f [0..<n]) = map (\<lambda>k. if k = 0 then x else f (k - 1)) [0..<n]"
  by (rule nth_equalityI) (auto simp: nth_butlast nth_Cons')

lemma foldl_cong_upt:
  "(\<And>acc i. i < n \<Longrightarrow> f acc i = g acc i) \<Longrightarrow> foldl f a [0..<n] = foldl g a [0..<n]"
  by (rule foldl_cong) auto

interpretation basic: fir_filter "shifting_step fir_basic" fir_taps shifting_past line_ok
proof
  fix s :: "'a fir" and x y s'
  assume ok: "line_ok s"
  let ?n = "f_ntaps s" and ?h = "f_h s" and ?z = "(f_z s)[0 := x]"
  from ok have n: "0 < ?n" "?n \<le> length ?h" "?n \<le> length (f_z s)" "f_z s \<noteq> []"
    by (auto simp: line_ok_def)
  then have st: "shifting_step fir_basic s x =
      Inr (foldl (\<lambda>accum ii. accum + ?h ! ii * ?z ! ii) 0 [0..<?n], s\<lparr>f_z := shift_line ?n ?z\<rparr>)"
    by (simp add: shifting_step_def fir_basic_def Let_def)
  then show "\<exists>y s'. shifting_step fir_basic s x = Inr (y, s')" by simp
  assume "shifting_step fir_basic s x = Inr (y, s')"
  with st have y: "y = foldl (\<lambda>accum ii. accum + ?h ! ii * ?z ! ii) 0 [0..<?n]"
    and s': "s' = s\<lparr>f_z := shift_line ?n ?z\<rparr>" by auto
  show "y = dot (fir_taps s) (x # shifting_past s)"
    unfolding y dot_def using n
    by (auto simp: fir_taps_def shifting_past_def nth_Cons' min_absorb2 intro!: foldl_cong_upt)
  show "shifting_past s' = butlast (x # shifting_past s)"
    unfolding shifting_past_def s' butlast_map_upt using n by (auto simp: shift_line_nth)
  show "fir_taps s' = fir_taps s" by (simp add: fir_taps_def s')
  show "line_ok s'" using ok by (simp add: line_ok_def s')
qed

text \<open>The multiply-and-shift loop computes the same sum in the opposite order.\<close>

lemma shuffle_fold:
  fixes h :: "'a::comm_semiring_0 list"
  assumes "m < length z"
  shows "foldl (\<lambda>(accum, z) ii. (accum + h ! ii * z ! ii, z[Suc ii := z ! ii])) (a, z) (rev [0..<m]) =
    (a + (\<Sum>i<m. h ! i * z ! i), foldl (\<lambda>z ii. z[Suc ii := z ! ii]) z (rev [0..<m]))"
  using assms
proof (induction m arbitrary: a z)
  case 0
  then show ?case by simp
next
  case (Suc m)
  have "(\<Sum>i<m. h ! i * z[Suc m := z ! m] ! i) = (\<Sum>i<m. h ! i * z ! i)"
    by (rule sum.cong) auto
  with Suc show ?case by (simp add: ac_simps)
qed

lemma foldl_sum:
  fixes f :: "nat \<Rightarrow> 'a::comm_monoid_add"
  shows "foldl (\<lambda>accum ii. accum + f ii) a [0..<n] = a + (\<Sum>i<n. f i)"
  by (induction n) (simp_all add: ac_simps)

lemma dot_sum:
  fixes h :: "'a::comm_semiring_0 list"
  shows "dot h xs = (\<Sum>i<length h. h ! i * xs ! i)"
  by (simp add: dot_def foldl_sum)

interpretation shuffle: fir_filter "shifting_step fir_shuffle"
  "fir_taps :: 'a::comm_semiring_0 fir \<Rightarrow> 'a list" shifting_past line_ok
proof
  fix s :: "'a fir" and x y s'
  assume ok: "line_ok s"
  let ?n = "f_ntaps s" and ?h = "f_h s" and ?z = "(f_z s)[0 := x]"
  from ok have n: "0 < ?n" "?n \<le> length ?h" "?n \<le> length (f_z s)" "?n - 1 < length ?z"
      "f_z s \<noteq> []"
    by (auto simp: line_ok_def)
  have "(\<Sum>i<?n. ?h ! i * ?z ! i) = ?h ! (?n - 1) * ?z ! (?n - 1) + (\<Sum>i<?n - 1. ?h ! i * ?z ! i)"
    using sum.lessThan_Suc [of "\<lambda>i. ?h ! i * ?z ! i" "?n - 1"] n(1) by (simp add: add.commute)
  with n have st: "shifting_step fir_shuffle s x =
      Inr ((\<Sum>i<?n. ?h ! i * ?z ! i), s\<lparr>f_z := shift_line ?n ?z\<rparr>)"
    by (simp add: shifting_step_def fir_shuffle_def Let_def shuffle_fold shift_line_def)
  then show "\<exists>y s'. shifting_step fir_shuffle s x = Inr (y, s')" by simp
  assume "shifting_step fir_shuffle s x = Inr (y, s')"
  with st have y: "y = (\<Sum>i<?n. ?h ! i * ?z ! i)" and s': "s' = s\<lparr>f_z := shift_line ?n ?z\<rparr>" by auto
  show "y = dot (fir_taps s) (x # shifting_past s)"
    unfolding y dot_sum using n
    by (auto simp: fir_taps_def shifting_past_def nth_Cons' min_absorb2 intro!: sum.cong)
  show "shifting_past s' = butlast (x # shifting_past s)"
    unfolding shifting_past_def s' butlast_map_upt using n by (auto simp: shift_line_nth)
  show "fir_taps s' = fir_taps s" by (simp add: fir_taps_def s')
  show "line_ok s'" using ok by (simp add: line_ok_def s')
qed

text \<open>The rings: the sample \<open>k\<close> steps back from the newest is \<open>k\<close> places round.\<close>

lemma next_down_mod: "p < n \<Longrightarrow> next_down n p = (p + (n - 1)) mod n"
  by (cases p) (auto simp: next_down_def)

lemma next_up_mod: "p < n \<Longrightarrow> next_up n p = Suc p mod n"
  by (auto simp: next_up_def mod_Suc)

lemma next_less: "p < n \<Longrightarrow> next_down n p < n" "0 < n \<Longrightarrow> next_up n p < n"
  by (auto simp: next_down_def next_up_def)

lemma ring_position_inj: "k < n \<Longrightarrow> 0 < k \<Longrightarrow> p < n \<Longrightarrow> (p + k) mod n \<noteq> (p :: nat)"
  by (cases "p + k < n") (auto simp: mod_if)

lemma ring_window:
  assumes "p < n" "n \<le> length z"
  shows "k < n \<Longrightarrow> z[p := x] ! ((p + k) mod n) = (if k = 0 then x else z ! ((p + k) mod n))"
  using assms ring_position_inj [of k n p] by (auto simp: nth_list_update)

lemma descending_past_step:
  assumes "f_state s < f_ntaps s" "f_ntaps s \<le> length (f_z s)"
  shows "descending_past (s\<lparr>f_z := (f_z s)[f_state s := x], f_state := next_down (f_ntaps s) (f_state s)\<rparr>)
    = butlast (x # descending_past s)"
proof -
  let ?n = "f_ntaps s" and ?p = "f_state s"
  have "(next_down ?n ?p + 1 + k) mod ?n = (?p + k) mod ?n" for k
    using assms(1) by (cases "?p = 0") (simp_all add: next_down_def)
  then show ?thesis
    unfolding descending_past_def butlast_map_upt using assms
    by (auto simp: ring_window simp del: list_update_nonempty)
qed

lemma foldl_shift_upt: "foldl (\<lambda>a i. f a (m + i)) a [0..<n] = foldl f a [m..<m + n]"
  by (induction n) simp_all

lemma foldl_split_upt: "m \<le> n \<Longrightarrow> foldl f (foldl f a [0..<m]) [m..<n] = foldl f a [0..<n]"
proof -
  assume "m \<le> n"
  then obtain k where n: "n = m + k" using le_Suc_ex by blast
  show ?thesis unfolding n upt_add_eq_append [OF le0] foldl_append ..
qed

lemma split_window:
  assumes "p < n" "n \<le> length z"
  shows "foldl (\<lambda>a i. a + h ! (n - p + i) * z ! i) (foldl (\<lambda>a i. a + h ! i * z ! (p + i)) a [0..<n - p]) [0..<p]
    = foldl (\<lambda>a i. a + h ! i * z ! ((p + i) mod n)) a [0..<n]"
proof -
  let ?f = "\<lambda>a i. a + h ! i * z ! ((p + i) mod n)"
  have "foldl (\<lambda>a i. a + h ! i * z ! (p + i)) a [0..<n - p] = foldl ?f a [0..<n - p]"
    using assms by (intro foldl_cong_upt) auto
  moreover have "foldl (\<lambda>a i. a + h ! (n - p + i) * z ! i) b [0..<p] = foldl (\<lambda>a i. ?f a (n - p + i)) b [0..<p]" for b
    using assms by (intro foldl_cong_upt) auto
  moreover have "n - p + p = n" using assms by simp
  ultimately show ?thesis
    using foldl_split_upt [of "n - p" n ?f a] foldl_shift_upt [of ?f "n - p" _ p] by (simp only:)
qed

lemma descending_dot:
  assumes "ring_ok s"
  shows "dot (fir_taps s) (x # descending_past s) =
    foldl (\<lambda>a i. a + f_h s ! i * (f_z s)[f_state s := x] ! ((f_state s + i) mod f_ntaps s)) 0 [0..<f_ntaps s]"
  using assms unfolding dot_def
  by (auto simp: past_defs nth_Cons' ring_window min_absorb2 intro!: foldl_cong_upt)

interpretation split: fir_filter "ring_step fir_split" fir_taps descending_past ring_ok
proof
  fix s :: "'a fir" and x y s'
  assume ok: "ring_ok s"
  let ?n = "f_ntaps s" and ?p = "f_state s" and ?z = "(f_z s)[f_state s := x]"
  from ok have n: "?p < ?n" "?n \<le> length (f_h s)" "?n \<le> length (f_z s)" by (auto simp: past_defs)
  then have "?p < length (f_z s) \<and> ?n \<le> length (f_z s) \<and> ?n \<le> length (f_h s) \<and> ?p \<le> length (f_h s)"
    "?n \<le> length ?z" by auto
  with n(1) have st: "ring_step fir_split s x =
      Inr (dot (fir_taps s) (x # descending_past s), s\<lparr>f_z := ?z, f_state := next_down ?n ?p\<rparr>)"
    unfolding descending_dot [OF ok]
    by (simp only: ring_step_def fir_split_def Let_def if_True bindR.simps prod.case split_window simp_thms)
  then show "\<exists>y s'. ring_step fir_split s x = Inr (y, s')" by simp
  assume "ring_step fir_split s x = Inr (y, s')"
  with st have y: "y = dot (fir_taps s) (x # descending_past s)"
    and s': "s' = s\<lparr>f_z := ?z, f_state := next_down ?n ?p\<rparr>" by auto
  show "y = dot (fir_taps s) (x # descending_past s)" by (fact y)
  show "descending_past s' = butlast (x # descending_past s)"
    unfolding s' using n by (rule_tac descending_past_step)
  show "fir_taps s' = fir_taps s" by (simp add: fir_taps_def s')
  show "ring_ok s'" using ok by (auto simp: past_defs s' next_less)
qed

interpretation double_z: fir_filter "ring_step fir_double_z" fir_taps descending_past double_z_ok
proof
  fix s :: "'a fir" and x y s'
  assume ok: "double_z_ok s"
  let ?n = "f_ntaps s" and ?p = "f_state s"
  let ?z = "(f_z s)[?p + ?n := x, ?p := x]" and ?w = "(f_z s)[?p := x]"
  from ok have r: "ring_ok s" and n: "?p < ?n" "?n \<le> length (f_h s)" "?n \<le> length (f_z s)"
      "?p + ?n < length (f_z s)" and d: "\<And>i. i < ?n \<Longrightarrow> f_z s ! (i + ?n) = f_z s ! i"
    by (auto simp: past_defs doubled_def)
  have two: "2 * ?n \<le> length (f_z s)" using ok by (auto simp: past_defs doubled_def)
  have ring: "?z ! (?p + i) = ?w ! ((?p + i) mod ?n)" if "i < ?n" for i
  proof (cases "?p + i < ?n")
    case True
    then show ?thesis using n by (simp add: nth_list_update)
  next
    case False
    then have "(?p + i) mod ?n = ?p + i - ?n" using n that by (simp add: mod_if)
    with False n that d [of "?p + i - ?n"] two show ?thesis by (simp add: nth_list_update)
  qed
  have st: "ring_step fir_double_z s x =
      Inr (dot (fir_taps s) (x # descending_past s), s\<lparr>f_z := ?z, f_state := next_down ?n ?p\<rparr>)"
    unfolding descending_dot [OF r] using n
    by (auto simp: ring_step_def fir_double_z_def Let_def ring intro!: foldl_cong_upt)
  then show "\<exists>y s'. ring_step fir_double_z s x = Inr (y, s')" by simp
  assume "ring_step fir_double_z s x = Inr (y, s')"
  with st have y: "y = dot (fir_taps s) (x # descending_past s)"
    and s': "s' = s\<lparr>f_z := ?z, f_state := next_down ?n ?p\<rparr>" by auto
  show "y = dot (fir_taps s) (x # descending_past s)" by (fact y)
  have far: "k mod ?n = ?p + ?n \<longleftrightarrow> False" "?p + ?n = k mod ?n \<longleftrightarrow> False" for k
  proof -
    have "k mod ?n < ?n" using n by simp
    then show "k mod ?n = ?p + ?n \<longleftrightarrow> False" "?p + ?n = k mod ?n \<longleftrightarrow> False" by auto
  qed
  have "descending_past s' = descending_past (s\<lparr>f_z := ?w, f_state := next_down ?n ?p\<rparr>)"
    unfolding descending_past_def s' using n by (auto simp: nth_list_update far)
  also have "\<dots> = butlast (x # descending_past s)" using n by (intro descending_past_step)
  finally show "descending_past s' = butlast (x # descending_past s)" .
  show "fir_taps s' = fir_taps s" by (simp add: fir_taps_def s')
  show "double_z_ok s'"
    using ok n two d by (auto simp: past_defs s' next_less doubled_def nth_list_update)
qed

text \<open>Doubled coefficients: rotating the summation index turns the flat walk into the ring walk.\<close>

lemma rotate_sum:
  fixes f :: "nat \<Rightarrow> 'a::comm_monoid_add"
  assumes "p < n"
  shows "(\<Sum>i<n. f ((p + i) mod n)) = (\<Sum>i<n. f i)"
proof (rule sum.reindex_bij_witness [where i = "\<lambda>j. (j + (n - p)) mod n" and j = "\<lambda>i. (p + i) mod n"])
  fix a assume a: "a \<in> {..<n}"
  have "((p + a) mod n + (n - p)) mod n = (p + a + (n - p)) mod n" by (simp only: mod_add_left_eq)
  also have "\<dots> = a" using a assms by simp
  finally show "((p + a) mod n + (n - p)) mod n = a" .
  have "(p + (a + (n - p)) mod n) mod n = (p + (a + (n - p))) mod n" by (simp only: mod_add_right_eq)
  also have "\<dots> = a" using a assms by simp
  finally show "(p + (a + (n - p)) mod n) mod n = a" .
qed (use assms in auto)

lemma double_h_window:
  fixes h :: "'a::comm_semiring_0 list"
  assumes p: "p < n" and d: "doubled n h"
  shows "(\<Sum>i<n. h ! (n - p + i) * z ! i) = (\<Sum>i<n. h ! i * z ! ((p + i) mod n))"
proof -
  have "h ! (n - p + (p + i) mod n) = h ! i" if "i < n" for i
  proof (cases "p + i < n")
    case True
    then have "n - p + (p + i) mod n = i + n" using p by simp
    with d that show ?thesis by (simp add: doubled_def)
  next
    case False
    then have "(p + i) mod n = p + i - n" using p that by (simp add: mod_if)
    with False p show ?thesis by simp
  qed
  then have "(\<Sum>i<n. h ! (n - p + (p + i) mod n) * z ! ((p + i) mod n)) = (\<Sum>i<n. h ! i * z ! ((p + i) mod n))"
    by (intro sum.cong) auto
  then show ?thesis
    by (simp only: rotate_sum [OF p, of "\<lambda>i. h ! (n - p + i) * z ! i"])
qed

interpretation double_h: fir_filter "ring_step fir_double_h"
  "fir_taps :: 'a::comm_semiring_0 fir \<Rightarrow> 'a list" descending_past double_h_ok
proof
  fix s :: "'a fir" and x y s'
  assume ok: "double_h_ok s"
  let ?n = "f_ntaps s" and ?p = "f_state s" and ?z = "(f_z s)[f_state s := x]"
  from ok have r: "ring_ok s" and n: "?p < ?n" "?n \<le> length (f_z s)" and d: "doubled ?n (f_h s)"
    by (auto simp: past_defs)
  have c: "?p < length (f_z s) \<and> ?p \<le> ?n \<and> 2 * ?n \<le> length (f_h s) + ?p \<and> ?n \<le> length (f_z s)"
    using n d by (auto simp: doubled_def)
  have st: "ring_step fir_double_h s x =
      Inr (dot (fir_taps s) (x # descending_past s), s\<lparr>f_z := ?z, f_state := next_down ?n ?p\<rparr>)"
    unfolding descending_dot [OF r] foldl_sum
    by (simp only: ring_step_def fir_double_h_def Let_def if_P [OF c] bindR.simps prod.case foldl_sum
        double_h_window [OF n(1) d])
  then show "\<exists>y s'. ring_step fir_double_h s x = Inr (y, s')" by simp
  assume "ring_step fir_double_h s x = Inr (y, s')"
  with st have y: "y = dot (fir_taps s) (x # descending_past s)"
    and s': "s' = s\<lparr>f_z := ?z, f_state := next_down ?n ?p\<rparr>" by auto
  show "y = dot (fir_taps s) (x # descending_past s)" by (fact y)
  show "descending_past s' = butlast (x # descending_past s)"
    unfolding s' using n by (rule_tac descending_past_step)
  show "fir_taps s' = fir_taps s" by (simp add: fir_taps_def s')
  show "double_h_ok s'" using ok by (auto simp: past_defs s' next_less)
qed

text \<open>The circular buffer walks forward from the oldest sample.\<close>

lemma ring_succ: "(Suc p mod n + d) mod n = (p + Suc d) mod n"
  by (simp only: mod_add_left_eq) simp

lemma circular_fold:
  fixes h :: "'a::comm_semiring_0 list"
  assumes "0 < n" "p < n" "m \<le> n"
  shows "foldl (\<lambda>(accum, state) ii. (accum + h ! ii * z ! state, next_up n state)) (a, p) (rev [0..<m]) =
    (a + (\<Sum>i<m. h ! i * z ! ((p + (m - 1 - i)) mod n)), (p + m) mod n)"
  using assms
proof (induction m arbitrary: a p)
  case 0
  then show ?case by simp
next
  case (Suc m)
  have up: "next_up n p = Suc p mod n" "next_up n p < n"
    using Suc.prems by (simp_all add: next_up_mod next_less)
  have "(\<Sum>i<m. h ! i * z ! ((Suc p mod n + (m - 1 - i)) mod n)) = (\<Sum>i<m. h ! i * z ! ((p + (m - i)) mod n))"
  proof (rule sum.cong)
    fix i assume "i \<in> {..<m}"
    then have "Suc (m - 1 - i) = m - i" by simp
    then show "h ! i * z ! ((Suc p mod n + (m - 1 - i)) mod n) = h ! i * z ! ((p + (m - i)) mod n)"
      by (simp only: ring_succ)
  qed simp
  with Suc.IH [OF Suc.prems(1) up(2), of "a + h ! m * z ! p"] Suc.prems show ?case
    by (simp add: up(1) mod_simps add.assoc add.commute [of "h ! m * z ! p"])
qed

lemma circular_past_shift: "p < n \<Longrightarrow> k < n \<Longrightarrow> (Suc p mod n + (n - 1 - k)) mod n = (p + n - k) mod n"
  using ring_succ [of p n "n - 1 - k"] by (simp add: Suc_diff_Suc)

interpretation circular: fir_filter "ring_step fir_circular"
  "fir_taps :: 'a::comm_semiring_0 fir \<Rightarrow> 'a list" circular_past ring_ok
proof
  fix s :: "'a fir" and x y s'
  assume ok: "ring_ok s"
  let ?n = "f_ntaps s" and ?p = "f_state s" and ?z = "(f_z s)[f_state s := x]"
  from ok have n: "0 < ?n" "?p < ?n" "?n \<le> length (f_h s)" "?n \<le> length (f_z s)"
    by (auto simp: past_defs)
  have c: "?p < length (f_z s) \<and> ?n \<le> length (f_h s) \<and> ?n \<le> length (f_z s)" using n by auto
  have held: "?z ! ((?p + ?n - k) mod ?n) = (if k = 0 then x else f_z s ! ((?p + ?n - 1 - (k - 1)) mod ?n))"
    if "k < ?n" for k
  proof (cases "k = 0")
    case False
    with n that ring_position_inj [of "?n - k" ?n ?p] show ?thesis by (simp add: nth_list_update)
  qed (use n in simp)
  have sum: "(\<Sum>i<?n. f_h s ! i * ?z ! ((Suc ?p mod ?n + (?n - 1 - i)) mod ?n)) =
      dot (fir_taps s) (x # circular_past s)"
  proof -
    have "(\<Sum>i<?n. f_h s ! i * ?z ! ((Suc ?p mod ?n + (?n - 1 - i)) mod ?n)) =
        (\<Sum>i<?n. f_h s ! i * (if i = 0 then x else f_z s ! ((?p + ?n - 1 - (i - 1)) mod ?n)))"
      by (rule sum.cong) (simp_all only: lessThan_iff circular_past_shift [OF n(2)] held)
    also have "\<dots> = dot (fir_taps s) (x # circular_past s)"
      unfolding dot_sum using n
      by (intro sum.cong) (auto simp: past_defs nth_Cons' min_absorb2)
    finally show ?thesis .
  qed
  have last: "(Suc ?p mod ?n + ?n) mod ?n = next_up ?n ?p" using n by (simp add: next_up_mod)
  have st: "ring_step fir_circular s x =
      Inr (dot (fir_taps s) (x # circular_past s), s\<lparr>f_z := ?z, f_state := next_up ?n ?p\<rparr>)"
    using n c by (simp only: ring_step_def fir_circular_def Let_def if_True simp_thms bindR.simps prod.case
      circular_fold next_less order_refl next_up_mod [OF n(2)] last [unfolded next_up_mod [OF n(2)]] sum
      add_0 mod_less_divisor)
  then show "\<exists>y s'. ring_step fir_circular s x = Inr (y, s')" by simp
  assume "ring_step fir_circular s x = Inr (y, s')"
  with st have y: "y = dot (fir_taps s) (x # circular_past s)"
    and s': "s' = s\<lparr>f_z := ?z, f_state := next_up ?n ?p\<rparr>" by auto
  show "y = dot (fir_taps s) (x # circular_past s)" by (fact y)
  have "(next_up ?n ?p + ?n - 1 - k) mod ?n = (?p + ?n - k) mod ?n" if "k < ?n" for k
    using circular_past_shift [OF n(2) that] that by (simp add: next_up_mod n)
  then show "circular_past s' = butlast (x # circular_past s)"
    unfolding circular_past_def s' butlast_map_upt using n
    by (auto simp: held simp del: diff_diff_left)
  show "fir_taps s' = fir_taps s" by (simp add: fir_taps_def s')
  show "ring_ok s'" using ok by (auto simp: past_defs s' next_less)
qed

section \<open>All algorithms compute the same filter\<close>

text \<open>A filter as its users set it up: the delay line cleared and the state 0.\<close>

definition fresh :: "'a::zero list \<Rightarrow> nat \<Rightarrow> 'a fir" where
  "fresh h len = \<lparr>f_ntaps = length h, f_h = h, f_z = replicate len 0, f_state = 0\<rparr>"

lemma clear_line_zero: "ntaps \<le> length z \<Longrightarrow>
    clear_line ntaps z = Inr (replicate ntaps 0 @ drop ntaps z)"
proof -
  have "n \<le> length z \<Longrightarrow> foldl (\<lambda>z ii. z[ii := 0]) z [0..<n] = replicate n 0 @ drop n z" for n
  proof (induction n)
    case 0
    then show ?case by simp
  next
    case (Suc n)
    then have "drop n z = z ! n # drop (Suc n) z" by (simp add: Cons_nth_drop_Suc)
    with Suc show ?case by (simp add: list_update_append replicate_append_same)
  qed
  then show "ntaps \<le> length z \<Longrightarrow> clear_line ntaps z = Inr (replicate ntaps 0 @ drop ntaps z)"
    by (simp add: clear_line_def)
qed

lemma fresh_ok:
  assumes "h \<noteq> []"
  shows "line_ok (fresh h (length h))" "ring_ok (fresh h (length h))"
    "double_z_ok (fresh h (2 * length h))"
  using assms by (auto simp: past_defs fresh_def doubled_def)

lemma fresh_past:
  "shifting_past (fresh h (length h)) = replicate (length h - 1) 0"
  "descending_past (fresh h (length h)) = replicate (length h - 1) 0"
  "descending_past (fresh h (2 * length h)) = replicate (length h - 1) 0"
  "circular_past (fresh h (length h)) = replicate (length h - 1) 0"
  by (rule nth_equalityI; simp add: past_defs fresh_def)+

lemma fresh_taps: "fir_taps (fresh h n) = h"
  by (simp add: fir_taps_def fresh_def)

definition silence :: "'a::zero list \<Rightarrow> 'a list" where
  "silence h = replicate (length h - 1) 0"

text \<open>
  For any arithmetic at all, floating point included, the basic, the split and the
  doubled-delay-line filters return the same samples, each the scalar product of the coefficients
  with the input's last samples.
\<close>

theorem fir_same_order:
  fixes h xs :: "'a::{plus,times,zero} list"
  assumes "h \<noteq> []"
  shows "fir_run (shifting_step fir_basic) (fresh h (length h)) xs = Inr (fir_response h (silence h) xs)
       \<and> fir_run (ring_step fir_split) (fresh h (length h)) xs = Inr (fir_response h (silence h) xs)
       \<and> fir_run (ring_step fir_double_z) (fresh h (2 * length h)) xs = Inr (fir_response h (silence h) xs)"
  using assms
  by (simp add: basic.run_response split.run_response double_z.run_response
      fresh_ok fresh_past fresh_taps silence_def)

theorem fir_same_order_witness:
  "fir_run (shifting_step fir_basic) (fresh [1, 2] (length [1, 2 :: int])) [3, 4] = Inr (fir_response [1, 2] (silence [1, 2]) [3, 4 :: int])
   \<and> fir_run (ring_step fir_split) (fresh [1, 2] (length [1, 2 :: int])) [3, 4] = Inr (fir_response [1, 2] (silence [1, 2]) [3, 4 :: int])
   \<and> fir_run (ring_step fir_double_z) (fresh [1, 2] (2 * length [1, 2 :: int])) [3, 4] = Inr (fir_response [1, 2] (silence [1, 2]) [3, 4 :: int])"
  by (rule fir_same_order) simp

text \<open>
  Claim C39: in exact arithmetic all six algorithms return the same samples; for the one with
  doubled coefficients the caller passes them twice over, as \<open>ResampleAudioInit\<close> does.
\<close>

theorem fir_all_equal:
  fixes h xs :: "'a::comm_semiring_0 list"
  assumes "h \<noteq> []"
  shows "list_all (\<lambda>r. r = Inr (fir_response h (silence h) xs))
     [fir_run (shifting_step fir_basic) (fresh h (length h)) xs,
      fir_run (ring_step fir_circular) (fresh h (length h)) xs,
      fir_run (shifting_step fir_shuffle) (fresh h (length h)) xs,
      fir_run (ring_step fir_split) (fresh h (length h)) xs,
      fir_run (ring_step fir_double_z) (fresh h (2 * length h)) xs,
      fir_run (ring_step fir_double_h) ((fresh h (length h))\<lparr>f_h := h @ h\<rparr>) xs]"
proof -
  let ?d = "(fresh h (length h))\<lparr>f_h := h @ h\<rparr>"
  have d: "double_h_ok ?d" "fir_taps ?d = h" "descending_past ?d = silence h"
    using assms fresh_past(2) [of h]
    by (auto simp: past_defs fresh_def doubled_def silence_def nth_append)
  show ?thesis using assms d
    by (simp add: basic.run_response split.run_response double_z.run_response circular.run_response
      shuffle.run_response double_h.run_response fresh_ok fresh_past fresh_taps silence_def)
qed

theorem fir_all_equal_witness:
  "list_all (\<lambda>r. r = Inr (fir_response [1, 2] (silence [1, 2]) [3, 4, 5 :: int]))
     [fir_run (shifting_step fir_basic) (fresh [1, 2] (length [1, 2 :: int])) [3, 4, 5],
      fir_run (ring_step fir_circular) (fresh [1, 2] (length [1, 2 :: int])) [3, 4, 5],
      fir_run (shifting_step fir_shuffle) (fresh [1, 2] (length [1, 2 :: int])) [3, 4, 5],
      fir_run (ring_step fir_split) (fresh [1, 2] (length [1, 2 :: int])) [3, 4, 5],
      fir_run (ring_step fir_double_z) (fresh [1, 2] (2 * length [1, 2 :: int])) [3, 4, 5],
      fir_run (ring_step fir_double_h) ((fresh [1, 2] (length [1, 2 :: int]))\<lparr>f_h := [1, 2] @ [1, 2]\<rparr>) [3, 4, 5]]"
  by (rule fir_all_equal) simp

end
