(* ===== verification/Sound_Resample.thy ===== *)
theory Sound_Resample
  imports Complex_Main Sound_Conv Fir_Algs
begin

text \<open>
  SIPEngine/sound_resample.c: the resampling filter, an eight-tap \<open>fir_double_h\<close>. The
  delay line, the state and the doubled coefficients are static variables of the file, one
  \<open>fir\<close> record here. Conversions between \<open>short\<close> and \<open>double\<close>, and the read
  position \<open>(int)(i*factor)\<close>, are floating point of the target and arguments of the model.
\<close>

definition NTAPS :: nat where "NTAPS = 8"

definition resample_h :: "rat list" where
  "resample_h = [- 192761875 / 1000000000, 121943383 / 1000000000, - 2085947762 / 1000000000,
     635617843 / 1000000000, 635617843 / 1000000000, - 2085947762 / 1000000000,
     121943383 / 1000000000, - 192761875 / 1000000000]"

text \<open>The two static arrays have \<open>2 * NTAPS\<close> elements and start zeroed.\<close>

definition resample_static :: "'a::zero fir" where
  "resample_static =
     \<lparr>f_ntaps = NTAPS, f_h = replicate (2 * NTAPS) 0, f_z = replicate (2 * NTAPS) 0, f_state = 0\<rparr>"

definition ResampleAudioInit :: "'a list \<Rightarrow> 'a fir \<Rightarrow> 'a fir" where
  "ResampleAudioInit h s =
     s\<lparr>f_h := foldl (\<lambda>h2 i. h2[i + NTAPS := h ! i, i := h ! i]) (f_h s) [0..<NTAPS]\<rparr>"

fun resample_loop ::
  "('a::{plus,times,zero} \<Rightarrow> int) \<Rightarrow> (int \<Rightarrow> 'a) \<Rightarrow> int list \<Rightarrow> int \<Rightarrow> int list \<Rightarrow> 'a fir \<Rightarrow>
   (uchar list \<times> 'a fir) res" where
  "resample_loop to_s16 of_s16 inBuffer rtp_payload [] s = Inr ([], s)"
| "resample_loop to_s16 of_s16 inBuffer rtp_payload (k # ks) s =
     (if 0 \<le> k \<and> nat k < length inBuffer then
        bindR (ring_step fir_double_h s (of_s16 (inBuffer ! nat k))) (\<lambda>(y, s).
          let output = to_s16 y;
              byte = (if rtp_payload = 0 then s16_to_ulaw output else s16_to_alaw output)
          in bindR (resample_loop to_s16 of_s16 inBuffer rtp_payload ks s) (\<lambda>(ys, s). Inr (byte # ys, s)))
      else Inl Out_of_bounds)"

definition ResampleAudio ::
  "('a::{plus,times,zero} \<Rightarrow> int) \<Rightarrow> (int \<Rightarrow> 'a) \<Rightarrow> (nat \<Rightarrow> int) \<Rightarrow> int list \<Rightarrow> nat \<Rightarrow> int \<Rightarrow> 'a fir \<Rightarrow>
   (uchar list \<times> 'a fir) res" where
  "ResampleAudio to_s16 of_s16 position inBuffer outLen rtp_payload s =
     resample_loop to_s16 of_s16 inBuffer rtp_payload (map position [0..<outLen]) s"

section \<open>The initialised filter is the doubled-coefficient filter\<close>

lemma init_fold_nth:
  "length h2 = 2 * n \<Longrightarrow> m \<le> n \<Longrightarrow> j < 2 * n \<Longrightarrow>
   foldl (\<lambda>h2 i. h2[i + n := h ! i, i := h ! i]) h2 [0..<m] ! j =
     (if j < m then h ! j else if n \<le> j \<and> j < n + m then h ! (j - n) else h2 ! j)"
proof (induction m arbitrary: j)
  case 0
  then show ?case by auto
next
  case (Suc m)
  have len: "length (foldl (\<lambda>h2 i. h2[i + n := h ! i, i := h ! i]) h2 xs) = length h2" for xs
    by (induction xs rule: rev_induct) auto
  show ?case using Suc.IH [of j] Suc.prems
    by (cases "j = m"; cases "j = m + n") (auto simp: len)
qed

lemma init_doubles:
  assumes "length h = NTAPS" "length (f_h s) = 2 * NTAPS"
  shows "f_h (ResampleAudioInit h s) = h @ h"
proof (rule nth_equalityI)
  have "length (foldl (\<lambda>h2 i. h2[i + NTAPS := h ! i, i := h ! i]) h2 xs) = length h2" for h2 :: "'a list" and xs
    by (induction xs rule: rev_induct) auto
  then show len: "length (f_h (ResampleAudioInit h s)) = length (h @ h)"
    using assms by (simp add: ResampleAudioInit_def)
  fix j assume "j < length (f_h (ResampleAudioInit h s))"
  then have "j < 2 * NTAPS" using len assms by simp
  then show "f_h (ResampleAudioInit h s) ! j = (h @ h) ! j"
    using init_fold_nth [of "f_h s" NTAPS NTAPS j h] assms
    by (auto simp: ResampleAudioInit_def nth_append)
qed

lemma init_ready:
  fixes h :: "'a::comm_semiring_0 list"
  assumes "length h = NTAPS"
  defines "s \<equiv> ResampleAudioInit h resample_static"
  shows "double_h_ok s" "fir_taps s = h" "descending_past s = silence h"
proof -
  have h2: "f_h s = h @ h" "f_ntaps s = NTAPS" "f_z s = replicate (2 * NTAPS) 0" "f_state s = 0"
    using init_doubles [of h resample_static] assms
    by (simp_all add: resample_static_def ResampleAudioInit_def)
  then show "double_h_ok s" "fir_taps s = h"
    using assms(1) by (auto simp: past_defs doubled_def nth_append NTAPS_def)
  have "k mod NTAPS < 2 * NTAPS" for k
    using mod_less_divisor [of NTAPS k] by (simp add: NTAPS_def)
  with h2 show "descending_past s = silence h"
    using assms(1) by (intro nth_equalityI) (auto simp: descending_past_def silence_def)
qed

text \<open>Every sample read is inside the buffer: then the output is the encoded filter response.\<close>

lemma resample_loop_response:
  fixes s :: "'a::comm_semiring_0 fir"
  assumes "double_h_ok s" "\<forall>k \<in> set ks. 0 \<le> k \<and> nat k < length inBuffer"
  shows "\<exists>s'. resample_loop to_s16 of_s16 inBuffer pt ks s =
    Inr (map ((if pt = 0 then s16_to_ulaw else s16_to_alaw) \<circ> to_s16)
          (fir_response (fir_taps s) (descending_past s) (map (\<lambda>k. of_s16 (inBuffer ! nat k)) ks)), s')"
  using assms
proof (induction ks arbitrary: s)
  case Nil
  then show ?case by simp
next
  case (Cons k ks)
  let ?x = "of_s16 (inBuffer ! nat k)"
  obtain y s' where st: "ring_step fir_double_h s ?x = Inr (y, s')"
    using double_h.step_defined [OF Cons.prems(1)] by blast
  note after = double_h.step_output [OF Cons.prems(1) st] double_h.step_past [OF Cons.prems(1) st]
    double_h.step_taps [OF Cons.prems(1) st] double_h.step_ok [OF Cons.prems(1) st]
  from Cons.IH [OF after(4)] Cons.prems(2) st show ?case
    by (auto simp add: after(1-3) Let_def simp del: butlast.simps)
qed

end
