(* ===== verification/Audio.thy ===== *)
theory Audio
  imports Sound_Resample Config "HOL-Library.Log_Nat"
begin

text \<open>
  Call audio, SIPEngine/audio.c: the check of a WAV header, the initialisation of the input device,
  set-up and tear-down of the RTP session, the conversion of a received 8 kHz frame to 960 samples
  at 48 kHz, the assembly of a sent frame out of the 4096-sample ring, and the ringback thread.
  Results of kernel, device and RTP calls are arguments.
\<close>

section \<open>State and header check\<close>

record audio =
  a_sendThid :: int
  a_recvThid :: int
  a_ringbackThid :: int
  stopAudio :: bool
  a_session :: bool
  rtp_payload :: int
  inputFile :: int
  ringbackfile :: int
  ringback :: bool
  audio_channel :: int
  audio_channel_ringback :: int
  resampler :: "rat fir"

definition audio_initial :: audio where
  "audio_initial = \<lparr>a_sendThid = 0, a_recvThid = 0, a_ringbackThid = 0, stopAudio = False, a_session = False,
     rtp_payload = 0, inputFile = - 1, ringbackfile = - 1, ringback = False, audio_channel = 0,
     audio_channel_ringback = 0, resampler = resample_static\<rparr>"

text \<open>The fields of the 44-byte header that are looked at.\<close>

record wavheader =
  numChannels :: "16 word"
  sampleRate :: "32 word"
  bitsPerSample :: "16 word"

text \<open>
  \<open>lsize\<close> is the read's result and \<open>lheader\<close> what it filled in, \<open>None\<close> when it
  did not fill the header. The comparison with \<open>sizeof\<close> is unsigned, so an error code counts as
  a long read.
\<close>

definition checkWavFormat ::
    "int \<Rightarrow> wavheader option \<Rightarrow> int \<Rightarrow> int \<Rightarrow> int \<Rightarrow> (int \<times> in_event list) res" where
  "checkWavFormat lsize lheader freq bits channels =
     (if as_unsigned lsize < 44
      then Inr (- 1, [InfoMessage (''Failed to read wav header: 0x'' @ show_hex8 lsize)])
      else case lheader of
          None \<Rightarrow> Inl Uninitialised_read
        | Some h \<Rightarrow>
           (let (rc, ev) = (0, []);
                (rc, ev) = (if uint (bitsPerSample h) \<noteq> bits
                  then (- 2, ev @ [InfoMessage (''Wrong bits per sample: '' @ show_int (uint (bitsPerSample h)))])
                  else (rc, ev));
                (rc, ev) = (if uint (sampleRate h) \<noteq> freq
                  then (- 3, ev @ [InfoMessage (''Wrong sample rate: '' @ show_int (sint (sampleRate h)))])
                  else (rc, ev));
                (rc, ev) = (if uint (numChannels h) \<noteq> channels
                  then (- 3, ev @ [InfoMessage (''Wrong number of channels: '' @ show_int (uint (numChannels h)))])
                  else (rc, ev))
            in Inr (rc, ev)))"

section \<open>Initialisation\<close>

record audio_env =
  ae_setup_mic :: int
  ae_start_mic :: int
  ae_usb_input :: int
  ae_headset_input :: int
  ae_open_input :: int
  ae_wav_size :: int
  ae_wav_header :: "wavheader option"
  ae_channel :: int
  ae_channel_ringback :: int
  ae_open_ringback :: int

definition device_error :: "int \<Rightarrow> string \<Rightarrow> in_event list" where
  "device_error result what =
     (if result < 0 then [ErrorMessage (''Error 0x'' @ show_hex8 result @ what)] else [])"

text \<open>The input device the settings select: its result, the state and the events.\<close>

definition init_input :: "audio_env \<Rightarrow> config \<Rightarrow> audio \<Rightarrow> (int \<times> audio \<times> in_event list) res" where
  "init_input env c s =
     (if config_use_usb c then
        if config_get_use_video c then
          Inr (ae_start_mic env, s,
               device_error (ae_setup_mic env) ('' in sceUsbCamSetupMic.'' @ [LF]) @
               device_error (ae_start_mic env) ('' starting mic.'' @ [LF]))
        else Inr (ae_usb_input env, s, device_error (ae_usb_input env) ('' starting mic.'' @ [LF]))
      else if config_use_headset c then
        Inr (ae_headset_input env, s, device_error (ae_headset_input env) ('' starting mic.'' @ [LF]))
      else if config_use_inputfile c then
        if ae_open_input env < 0 then
          Inr (ae_open_input env, s\<lparr>inputFile := - 1\<rparr>, device_error (ae_open_input env) '' reading audio.wav file'')
        else bindR (checkWavFormat (ae_wav_size env) (ae_wav_header env) 44100 16 1) (\<lambda>(rc, ev).
          Inr (ae_open_input env, s\<lparr>inputFile := ae_open_input env\<rparr>,
               ev @ (if rc \<noteq> 0 then [ErrorMessage ''Error: audio.wav must be 44.1kHz, 16 bit mono''] else [])))
      else Inr (0, s, []))"

definition initAudio :: "audio_env \<Rightarrow> config \<Rightarrow> audio \<Rightarrow> (int \<times> audio \<times> in_event list) res" where
  "initAudio env c s =
     bindR (init_input env c s) (\<lambda>(result, s, ev).
       Inr (result,
            s\<lparr>resampler := ResampleAudioInit resample_h (resampler s),
              audio_channel := ae_channel env, audio_channel_ringback := ae_channel_ringback env,
              ringbackfile := ae_open_ringback env\<rparr>,
            ev @ (if ae_open_ringback env < 0
                  then [InfoMessage (''Error 0x'' @ show_hex8 (ae_open_ringback env) @ '' opening ringback.wav file'')]
                  else [])))"

section \<open>The RTP session\<close>

text \<open>What the engine asks of the RTP library and the kernel for a media session, in order.\<close>

datatype rtp_action =
    Session_new
  | Session_options
  | Local_addr string int
  | Remote_addr string int
  | Payload_type int
  | Start_thread string int
  | Terminate_thread int
  | Session_destroy

text \<open>The media of the remote description: payload types and the port text; and its connection address.\<close>

record remote_media =
  m_payloads :: "string list"
  m_port :: string

definition deref :: "'a option \<Rightarrow> 'a res" where
  "deref p = (case p of None \<Rightarrow> Inl Null_pointer | Some x \<Rightarrow> Inr x)"

definition first_payload :: "remote_media option \<Rightarrow> string res" where
  "first_payload m = bindR (deref m) (\<lambda>m. case m_payloads m of [] \<Rightarrow> Inl Null_pointer | p # ps \<Rightarrow> Inr p)"

text \<open>
  The description called local is the remote one again, so both directions take the first remote
  payload. \<open>recv\<close> and \<open>send\<close> are the ids of the two new threads.
\<close>

definition rtpAudioSetup ::
    "string option \<Rightarrow> remote_media option \<Rightarrow> int \<Rightarrow> int \<Rightarrow> int \<Rightarrow> bool \<Rightarrow> audio \<Rightarrow> (audio \<times> rtp_action list) res" where
  "rtpAudioSetup rem_con rem_media port recv send incoming s =
     (let loc_media = rem_media in
      bindR (first_payload (if incoming then loc_media else rem_media)) (\<lambda>payload.
      bindR (deref rem_con) (\<lambda>c_addr.
      bindR (deref rem_media) (\<lambda>media.
      Inr (s\<lparr>rtp_payload := atoi payload, a_session := True, a_recvThid := recv, a_sendThid := send,
             stopAudio := False\<rparr>,
           [Session_new, Session_options, Local_addr ''0.0.0.0'' port,
            Remote_addr c_addr (atoi (m_port media)), Payload_type (atoi payload),
            Start_thread ''AudioRecv'' recv, Start_thread ''AudioSend'' send])))))"

definition rtpAudioStop :: "audio \<Rightarrow> audio \<times> rtp_action list" where
  "rtpAudioStop s =
     (s\<lparr>a_session := False\<rparr>, [Terminate_thread (a_sendThid s), Terminate_thread (a_recvThid s), Session_destroy])"

section \<open>Single precision\<close>

text \<open>
  The interpolation runs in \<open>float\<close>: every result is rounded to 24 significant bits, ties to
  even. Values here are 0 or far above the subnormal range, so the exponent is not bounded below.
\<close>

definition pow2 :: "int \<Rightarrow> rat" where
  "pow2 e = (if 0 \<le> e then 2 ^ nat e else 1 / 2 ^ nat (- e))"

definition floor_log2 :: "rat \<Rightarrow> int" where
  "floor_log2 x =
     (let (p, q) = quotient_of x; k = bitlen p - bitlen q in if pow2 k \<le> x then k else k - 1)"

definition round_even :: "rat \<Rightarrow> int" where
  "round_even r =
     (let f = \<lfloor>r\<rfloor>; d = r - of_int f
      in if d < 1 / 2 then f else if 1 / 2 < d then f + 1 else if even f then f else f + 1)"

definition f32 :: "rat \<Rightarrow> rat" where
  "f32 x = (if x = 0 then 0
            else let e = floor_log2 \<bar>x\<bar> - 23 in of_int (round_even (x / pow2 e)) * pow2 e)"

definition trunc :: "rat \<Rightarrow> int" where
  "trunc x = (if x < 0 then - \<lfloor>- x\<rfloor> else \<lfloor>x\<rfloor>)"

section \<open>Received frames\<close>

definition scale_fn :: "int \<Rightarrow> uchar \<Rightarrow> int" where
  "scale_fn payload = (if payload = 0 then ulaw_to_s16 else alaw_to_s16)"

text \<open>
  \<open>curpos/6.04\<close> is a \<open>double\<close> division cut to an \<open>int\<close>; at the 160 positions used
  this is the integer quotient by 604 hundredths.
\<close>

definition recv_index :: "nat \<Rightarrow> nat" where
  "recv_index curpos = curpos * 100 div 604"

definition read_byte :: "uchar list \<Rightarrow> nat \<Rightarrow> uchar res" where
  "read_byte buf i = (if i < length buf then Inr (buf ! i) else Inl Out_of_bounds)"

text \<open>State of the loop: \<open>val\<close>, \<open>step\<close> and the samples written, of at most 1024.\<close>

definition recv_step :: "int \<Rightarrow> uchar list \<Rightarrow> nat \<Rightarrow> rat \<times> rat \<times> int list \<Rightarrow> (rat \<times> rat \<times> int list) res" where
  "recv_step payload buf curpos st =
     (let (val, step, out) = st in
      bindR (if curpos mod 6 = 0 then
               let curbufidx = recv_index curpos in
               bindR (read_byte buf curbufidx) (\<lambda>b0.
               bindR (read_byte buf (curbufidx + 1)) (\<lambda>b1.
               let startval = f32 (of_int (scale_fn payload b0));
                   endval = f32 (of_int (scale_fn payload b1))
               in Inr (startval, f32 (f32 (endval - startval) / 6))))
             else Inr (f32 (val + step), step)) (\<lambda>(val, step).
      if curpos < 1024 then Inr (val, step, out @ [to_short (trunc val)]) else Inl Buffer_overflow))"

definition recv_frame :: "int \<Rightarrow> uchar list \<Rightarrow> int list res" where
  "recv_frame payload buf =
     bindR (foldR (recv_step payload buf) [0..<960] (0, 0, [])) (\<lambda>(val, step, out). Inr out)"

text \<open>
  One round of the receiving thread: \<open>err\<close> bytes arrived in front of the buffer, whose rest
  keeps older bytes; the result is the buffer, the next timestamp and the samples played.
\<close>

definition rtpAudioRecv_step ::
    "int \<Rightarrow> int \<Rightarrow> uchar list \<Rightarrow> uchar list \<times> int \<Rightarrow> ((uchar list \<times> int) \<times> int list option) res" where
  "rtpAudioRecv_step payload err received st =
     (let (buf, ts) = st; got = take (min 160 (nat err)) received; buf = got @ drop (length got) buf in
      bindR (if 0 < err then bindR (recv_frame payload buf) (\<lambda>out. Inr (Some out)) else Inr None) (\<lambda>played.
      bindR (add_int ts 160) (\<lambda>ts. Inr ((buf, ts), played))))"

section \<open>Sent frames\<close>

definition BUFSIZE :: nat where "BUFSIZE = 4096"

text \<open>\<open>(int)(i*5.5)\<close> is exact in \<open>double\<close>.\<close>

definition send_index :: "int \<Rightarrow> nat \<Rightarrow> nat \<Rightarrow> int res" where
  "send_index sent i j =
     bindR (add_int (int (11 * i div 2)) sent) (\<lambda>k. bindR (add_int k (int j)) (\<lambda>k. Inr (c_mod k (int BUFSIZE))))"

definition send_tap :: "int list \<Rightarrow> int \<Rightarrow> nat \<Rightarrow> nat \<Rightarrow> int res" where
  "send_tap buffer sent i j =
     bindR (send_index sent i j) (\<lambda>k. if 0 \<le> k \<and> nat k < length buffer then Inr (buffer ! nat k) else Inl Out_of_bounds)"

definition send_byte :: "int \<Rightarrow> int list \<Rightarrow> int \<Rightarrow> nat \<Rightarrow> uchar res" where
  "send_byte payload buffer sent i =
     bindR (mapR (send_tap buffer sent i) [0..<5]) (\<lambda>taps.
       let value = c_div (sum_list taps) 5
       in Inr (if payload = 0 then s16_to_ulaw value else s16_to_alaw value))"

definition send_frame :: "int \<Rightarrow> int list \<Rightarrow> int \<Rightarrow> uchar list res" where
  "send_frame payload buffer sent = mapR (send_byte payload buffer sent) [0..<160]"

record sender =
  s_buffer :: "int list"
  s_ts :: int
  s_sent :: int
  s_result :: int

definition sender_initial :: sender where
  "sender_initial = \<lparr>s_buffer = replicate BUFSIZE 0, s_ts = 0, s_sent = 0, s_result = 0\<rparr>"

text \<open>What the devices answer in one round: poll result, read result and the samples read.\<close>

record capture =
  c_poll :: int
  c_read :: int
  c_samples :: "int list"

definition read_device :: "bool \<Rightarrow> capture \<Rightarrow> sender \<Rightarrow> sender" where
  "read_device ready cap s = (if ready then s\<lparr>s_result := c_read cap, s_buffer := c_samples cap\<rparr> else s)"

definition capture_input :: "config \<Rightarrow> int \<Rightarrow> capture \<Rightarrow> sender \<Rightarrow> sender" where
  "capture_input c file cap s =
     (if config_use_usb c then
        if config_get_use_video c then read_device (0 < c_poll cap \<or> s_ts s = 0) cap s
        else read_device (c_poll cap = 0 \<or> s_ts s = 0) cap s
      else if config_use_headset c then read_device (c_poll cap = 0 \<or> s_ts s = 0) cap s
      else if config_use_inputfile c then
        (if file = - 1 then s\<lparr>s_buffer := replicate BUFSIZE 0\<rparr>
         else if int BUFSIZE - 882 \<le> c_mod (s_sent s) (int BUFSIZE) then s\<lparr>s_buffer := c_samples cap\<rparr>
         else s)\<lparr>s_result := 1\<rparr>
      else s)"

text \<open>
  One round of the sending thread: the 160 bytes and their timestamp. The delay for the first frame
  is never taken, because its flag starts cleared.
\<close>

definition rtpAudioSend_step ::
    "int \<Rightarrow> config \<Rightarrow> int \<Rightarrow> capture \<Rightarrow> sender \<Rightarrow> (sender \<times> in_event list \<times> uchar list \<times> int) res" where
  "rtpAudioSend_step payload c file cap s0 =
     (let s = capture_input c file cap s0 in
      bindR (if 0 \<le> s_result s then
               bindR (send_frame payload (s_buffer s) (s_sent s)) (\<lambda>f.
               bindR (add_int (s_sent s) 882) (\<lambda>sent. Inr (s\<lparr>s_sent := sent\<rparr>, [], f)))
             else Inr (s, [InfoMessage (''Error 0x'' @ show_hex8 (s_result s) @ '' reading mic.'' @ [LF])],
                       replicate 160 0)) (\<lambda>(s, ev, f).
      bindR (add_int (s_ts s) 160) (\<lambda>ts. Inr (s\<lparr>s_ts := ts\<rparr>, ev, f, s_ts s))))"

section \<open>Ringback\<close>

text \<open>\<open>thid\<close> is the id of the created thread.\<close>

definition playRingback :: "int \<Rightarrow> audio \<Rightarrow> audio \<times> rtp_action list" where
  "playRingback thid s =
     (let s = s\<lparr>ringback := True\<rparr> in
      if 0 \<le> ringbackfile s then (s\<lparr>a_ringbackThid := thid\<rparr>, [Start_thread ''AudioRingback'' thid]) else (s, []))"

definition stopRingback :: "audio \<Rightarrow> audio" where
  "stopRingback s = s\<lparr>ringback := False\<rparr>"

text \<open>
  The blocks one pass of the ringback thread plays: each read's result with the flag as the loop
  sees it then. Any result but 0, an error included, plays the buffer.
\<close>

fun ring_pass :: "(int \<times> bool) list \<Rightarrow> nat" where
  "ring_pass [] = 0"
| "ring_pass ((lread, flag) # reads) = (if lread \<noteq> 0 \<and> flag then Suc (ring_pass reads) else 0)"

section \<open>Properties of the header check\<close>

text \<open>
  A WAV file is accepted exactly when its header was read in full and says the wanted
  format; but a read that fails with an error code passes the length check and the unread header is
  inspected.
\<close>

theorem checkWavFormat_accepts:
  assumes "- (2 ^ 31) \<le> lsize" "lsize < 2 ^ 31" "lsize < 44 \<longrightarrow> lheader = None" "44 \<le> lsize \<longrightarrow> lheader = Some h"
  shows "((\<exists>ev. checkWavFormat lsize lheader freq bits channels = Inr (0, ev)) \<longleftrightarrow>
      44 \<le> lsize \<and> uint (bitsPerSample h) = bits \<and> uint (sampleRate h) = freq \<and> uint (numChannels h) = channels) \<and>
    (checkWavFormat lsize lheader freq bits channels = Inl Uninitialised_read \<longleftrightarrow> lsize < 0)"
proof -
  have small: "as_unsigned lsize = lsize" if "0 \<le> lsize" using that assms(2) by (simp add: as_unsigned_def)
  have large: "44 \<le> as_unsigned lsize" if "lsize < 0"
  proof -
    have "as_unsigned lsize = (lsize + 2 ^ 32) mod 2 ^ 32" by (simp add: as_unsigned_def)
    also have "\<dots> = lsize + 2 ^ 32" using that assms(1) by (intro mod_pos_pos_trivial) simp_all
    finally show ?thesis using assms(1) by simp
  qed
  show ?thesis
    using assms(3,4) small large
    by (cases "lsize < 0"; cases "lsize < 44") (auto simp: checkWavFormat_def Let_def)
qed

theorem checkWavFormat_accepts_witness:
  "((\<exists>ev. checkWavFormat 44 (Some \<lparr>numChannels = 1, sampleRate = 44100, bitsPerSample = 16\<rparr>) 44100 16 1 = Inr (0, ev)) \<longleftrightarrow>
      44 \<le> (44 :: int) \<and> uint (16 :: 16 word) = 16 \<and> uint (44100 :: 32 word) = 44100 \<and> uint (1 :: 16 word) = 1) \<and>
   checkWavFormat (- 5) None 44100 16 1 = Inl Uninitialised_read"
  using checkWavFormat_accepts [of 44 "Some \<lparr>numChannels = 1, sampleRate = 44100, bitsPerSample = 16\<rparr>"
      "\<lparr>numChannels = 1, sampleRate = 44100, bitsPerSample = 16\<rparr>" 44100 16 1]
    checkWavFormat_accepts [of "- 5" None "\<lparr>numChannels = 1, sampleRate = 44100, bitsPerSample = 16\<rparr>" 44100 16 1]
  by simp

section \<open>Integers are exact in single precision\<close>

lemma round_even_int: "round_even (of_int n) = n"
  by (simp add: round_even_def)

lemma floor_log2_int_le:
  assumes "0 < n" "n < 2 ^ 24"
  shows "floor_log2 (of_int n) \<le> 23"
proof -
  have q: "quotient_of (of_int n) = (n, 1)" by (simp add: quotient_of_int)
  have "bitlen n \<le> 24" using assms bitlen_le_iff_power [of n 24] by simp
  then show ?thesis by (auto simp: floor_log2_def q Let_def bitlen_def floorlog_def)
qed

lemma f32_int:
  assumes "\<bar>n\<bar> < 2 ^ 24"
  shows "f32 (of_int n) = of_int n"
proof (cases "n = 0")
  case False
  define e where "e = floor_log2 \<bar>of_int n\<bar> - 23"
  have "\<bar>of_int n\<bar> = (of_int \<bar>n\<bar> :: rat)" by simp
  with assms False have e: "e \<le> 0" using floor_log2_int_le [of "\<bar>n\<bar>"] by (simp add: e_def)
  then have p: "of_int n / pow2 e = of_int (n * 2 ^ nat (- e))" "pow2 e * 2 ^ nat (- e) = 1"
    by (auto simp: pow2_def)
  have "f32 (of_int n) = of_int (round_even (of_int n / pow2 e)) * pow2 e"
    using False by (simp add: f32_def Let_def e_def)
  also have "\<dots> = of_int (n * 2 ^ nat (- e)) * pow2 e" by (simp only: p(1) round_even_int)
  also have "\<dots> = of_int n * (pow2 e * 2 ^ nat (- e))" by simp
  also have "\<dots> = of_int n" by (simp only: p(2) mult_1_right)
  finally show ?thesis .
qed (simp add: f32_def)

lemma scale_range: "\<bar>scale_fn payload b\<bar> \<le> 32767"
proof -
  have u: "\<forall>w::uchar. \<bar>ulaw_to_s16 w\<bar> \<le> 32767" unfolding all_codes by code_simp
  have a: "\<forall>w::uchar. \<bar>alaw_to_s16 w\<bar> \<le> 32767" unfolding all_codes by code_simp
  from u a show ?thesis by (simp add: scale_fn_def)
qed

lemma block_start_sample: "to_short (trunc (f32 (of_int (scale_fn payload b)))) = scale_fn payload b"
proof -
  have range: "\<bar>scale_fn payload b\<bar> \<le> 32767" by (rule scale_range)
  then have "\<bar>scale_fn payload b\<bar> < 2 ^ 24" by simp
  then have "f32 (of_int (scale_fn payload b)) = of_int (scale_fn payload b)" by (rule f32_int)
  then have "trunc (f32 (of_int (scale_fn payload b))) = scale_fn payload b" by (simp add: trunc_def flip: of_int_minus)
  with range show ?thesis by (simp add: to_short_def)
qed

section \<open>The received frame\<close>

text \<open>The byte at each block start: byte 0 twice, then in order with one repeat.\<close>

definition block_byte :: "nat \<Rightarrow> nat" where
  "block_byte k = (if k = 0 then 0 else if k \<le> 151 then k - 1 else k - 2)"

lemma recv_index_block: "k < 160 \<Longrightarrow> recv_index (6 * k) = block_byte k \<and> block_byte k + 1 < 160"
proof -
  assume k: "k < 160"
  have "600 * k div 604 = block_byte k"
  proof (rule div_nat_eqI)
    show "604 * block_byte k \<le> 600 * k" "600 * k < 604 * Suc (block_byte k)"
      using k by (auto simp: block_byte_def)
  qed
  with k show ?thesis by (simp add: recv_index_def block_byte_def)
qed

lemma recv_step_block:
  assumes "k < 160" "160 \<le> length buf"
  shows "\<exists>val step. recv_step payload buf (6 * k) (v, st, out) =
    Inr (val, step, out @ [scale_fn payload (buf ! block_byte k)])"
  using assms recv_index_block [OF assms(1)]
  by (auto simp: recv_step_def read_byte_def Let_def block_start_sample)

lemma recv_step_inner:
  assumes "n < 960" "n mod 6 \<noteq> 0"
  shows "\<exists>val step x. recv_step payload buf n (v, st, out) = Inr (val, step, out @ [x])"
  using assms by (auto simp: recv_step_def Let_def)

lemma recv_prefix:
  assumes "n \<le> 960" "160 \<le> length buf"
  shows "\<exists>val step out. foldR (recv_step payload buf) [0..<n] (0, 0, []) = Inr (val, step, out) \<and>
    length out = n \<and> (\<forall>k. 6 * k < n \<longrightarrow> out ! (6 * k) = scale_fn payload (buf ! block_byte k))"
  using assms(1)
proof (induction n)
  case 0
  then show ?case by simp
next
  case (Suc n)
  then obtain v st out where IH: "foldR (recv_step payload buf) [0..<n] (0, 0, []) = Inr (v, st, out)"
      "length out = n" "\<forall>k. 6 * k < n \<longrightarrow> out ! (6 * k) = scale_fn payload (buf ! block_byte k)"
    by auto
  have "\<exists>val step x. recv_step payload buf n (v, st, out) = Inr (val, step, out @ [x]) \<and>
      (\<forall>k. n = 6 * k \<longrightarrow> x = scale_fn payload (buf ! block_byte k))"
  proof (cases "n mod 6 = 0")
    case True
    then obtain k where k: "n = 6 * k" by auto
    with Suc.prems have "k < 160" by simp
    from recv_step_block [OF this assms(2), of payload v st out] k show ?thesis by auto
  next
    case False
    with recv_step_inner [of n payload buf v st out] Suc.prems show ?thesis by fastforce
  qed
  then obtain val step x where "recv_step payload buf n (v, st, out) = Inr (val, step, out @ [x])"
      "\<forall>k. n = 6 * k \<longrightarrow> x = scale_fn payload (buf ! block_byte k)" by blast
  with IH show ?case
    by (auto simp: foldR_append nth_append less_Suc_eq)
qed

text \<open>
  Every received frame becomes 960 samples with no access outside the buffers, and every
  sixth sample is a decoded byte: the first byte twice, then the bytes in order with one repeat, so
  the last two bytes of a frame never start a block.
\<close>

theorem recv_frame_blocks:
  assumes "160 \<le> length buf"
  shows "\<exists>out. recv_frame payload buf = Inr out \<and> length out = 960 \<and>
    (\<forall>k<160. out ! (6 * k) = scale_fn payload (buf ! block_byte k))"
  using recv_prefix [OF order_refl assms, of payload] by (auto simp: recv_frame_def)

theorem recv_frame_blocks_witness:
  "\<exists>out. recv_frame 0 (replicate 1024 0xff) = Inr out \<and> length out = 960 \<and>
    (\<forall>k<160. out ! (6 * k) = scale_fn 0 (replicate 1024 0xff ! block_byte k))"
  by (rule recv_frame_blocks) simp

section \<open>The sent frame\<close>

lemma send_index_bound: "i < 160 \<Longrightarrow> j < 5 \<Longrightarrow> 11 * i div 2 + j \<le> (878 :: nat)"
  by linarith

lemma send_tap_ok:
  assumes "length buffer = BUFSIZE" "0 \<le> sent" "sent + 878 < 2 ^ 31" "i < 160" "j < 5"
  shows "send_tap buffer sent i j = Inr (buffer ! (nat (int (11 * i div 2) + sent + int j) mod BUFSIZE))"
proof -
  let ?k = "int (11 * i div 2) + sent + int j"
  have k: "0 \<le> ?k" "?k < 2 ^ 31" "int (11 * i div 2) + sent < 2 ^ 31"
    using send_index_bound [OF assms(4,5)] assms(2,3) by linarith+
  have "c_mod ?k (int BUFSIZE) = ?k mod int BUFSIZE" using k by (intro c_mod_nonneg) (simp_all add: BUFSIZE_def)
  moreover have "nat (?k mod int BUFSIZE) = nat ?k mod BUFSIZE" using k by (simp add: nat_mod_distrib)
  moreover have "nat ?k mod BUFSIZE < BUFSIZE" by (simp add: BUFSIZE_def)
  moreover have "send_index sent i j = Inr (c_mod ?k (int BUFSIZE))"
    using k assms(2) by (simp add: send_index_def add_int_def)
  ultimately show ?thesis using k assms(1) by (simp add: send_tap_def)
qed

lemma send_byte_ok:
  assumes "length buffer = BUFSIZE" "0 \<le> sent" "sent + 878 < 2 ^ 31" "i < 160"
  shows "\<exists>b. send_byte payload buffer sent i = Inr b"
proof -
  have "mapR (send_tap buffer sent i) [0..<5] =
      Inr (map (\<lambda>j. buffer ! (nat (int (11 * i div 2) + sent + int j) mod BUFSIZE)) [0..<5])"
    using assms by (intro mapR_Inr send_tap_ok) simp_all
  then show ?thesis by (simp add: send_byte_def Let_def)
qed

lemma send_byte_bad:
  assumes "send_byte payload buffer sent i = Inr b" "j < 5"
  shows "\<exists>v. send_tap buffer sent i j = Inr v"
  using assms by (auto simp: send_byte_def res_simps Let_def dest: mapR_InrD)

lemma c_mod_negative: "k < 0 \<Longrightarrow> 0 < m \<Longrightarrow> 0 \<le> c_mod k m \<Longrightarrow> k mod m = 0"
proof -
  assume k: "k < 0" "0 < m" "0 \<le> c_mod k m"
  then have "c_mod k m = - ((- k) mod m)"
    by (simp add: c_mod_def c_div_def minus_mult_div_eq_mod [symmetric])
  with k have "(- k) mod m = 0" by (smt (verit) pos_mod_sign)
  then show "k mod m = 0" by (simp add: mod_eq_0_iff_dvd)
qed

lemma send_tap_nonneg:
  assumes "send_tap buffer sent 0 0 = Inr v" "send_tap buffer sent 0 (Suc 0) = Inr w"
  shows "0 \<le> sent"
proof (rule ccontr)
  assume neg: "\<not> 0 \<le> sent"
  from assms have "0 \<le> c_mod sent 4096" "0 \<le> c_mod (sent + 1) 4096"
    by (auto simp: send_tap_def send_index_def res_simps BUFSIZE_def split: if_splits)
  with neg have 0: "sent mod 4096 = 0" by (intro c_mod_negative) simp_all
  show False
  proof (cases "sent + 1 < 0")
    case True
    with \<open>0 \<le> c_mod (sent + 1) 4096\<close> have "(sent + 1) mod 4096 = 0" by (intro c_mod_negative) simp_all
    with 0 have "4096 dvd sent" "4096 dvd sent + 1" by (simp_all only: mod_eq_0_iff_dvd)
    then have "4096 dvd (1 :: int)" by (simp add: dvd_add_right_iff)
    then show False by simp
  next
    case False
    with neg have "sent = - 1" by simp
    with 0 show False by simp
  qed
qed

lemma send_tap_last: "send_tap buffer sent 159 4 = Inr v \<Longrightarrow> sent + 878 < 2 ^ 31"
  by (auto simp: send_tap_def send_index_def res_simps)

text \<open>
  A frame of 160 bytes is assembled exactly while the running sample count leaves room for
  its last index: at 882 samples a frame that is 2434788 frames, 13 and a half hours of one call,
  after which the addition overflows.
\<close>

theorem send_frame_defined_iff:
  assumes "length buffer = BUFSIZE"
  shows "(\<exists>f. send_frame payload buffer sent = Inr f \<and> length f = 160) \<longleftrightarrow> 0 \<le> sent \<and> sent + 878 < 2 ^ 31"
proof
  assume "\<exists>f. send_frame payload buffer sent = Inr f \<and> length f = 160"
  then have b: "\<exists>b. send_byte payload buffer sent i = Inr b" if "i < 160" for i
    using that by (auto simp: send_frame_def dest!: mapR_InrD)
  from b [of 0] send_byte_bad [of payload buffer sent 0 _ 0] send_byte_bad [of payload buffer sent 0 _ "Suc 0"]
  have "0 \<le> sent" by (auto intro: send_tap_nonneg)
  moreover from b [of 159] send_byte_bad [of payload buffer sent 159 _ 4]
  have "sent + 878 < 2 ^ 31" by (auto dest!: send_tap_last)
  ultimately show "0 \<le> sent \<and> sent + 878 < 2 ^ 31" ..
next
  assume "0 \<le> sent \<and> sent + 878 < 2 ^ 31"
  then have "\<exists>b. send_byte payload buffer sent i = Inr b" if "i < 160" for i
    using assms that by (intro send_byte_ok) simp_all
  then show "\<exists>f. send_frame payload buffer sent = Inr f \<and> length f = 160"
    using mapR_ex [of "[0..<160]" "send_byte payload buffer sent"] by (simp add: send_frame_def)
qed

theorem send_frame_defined_iff_witness:
  "(\<exists>f. send_frame 0 (replicate BUFSIZE 0) 882 = Inr f \<and> length f = 160) \<longleftrightarrow>
    0 \<le> (882 :: int) \<and> 882 + 878 < (2 ^ 31 :: int)"
  by (rule send_frame_defined_iff) simp

text \<open>The input file is read once in every lap of the ring: the window is as long as a frame's step.\<close>

lemma file_read_once_per_lap:
  "\<exists>!n. 4096 * m + (4096 - 882) \<le> 882 * n \<and> 882 * n < 4096 * m + (4096 :: int)"
proof (rule ex_ex1I)
  let ?n = "(4096 * m + 4095) div 882"
  have "4096 * m + 4095 = 882 * ?n + (4096 * m + 4095) mod 882" by simp
  moreover have "0 \<le> (4096 * m + 4095) mod 882" "(4096 * m + 4095) mod 882 < 882" by simp_all
  ultimately have "882 * ?n \<le> 4096 * m + 4095" "4096 * m + 4095 < 882 * ?n + 882" by linarith+
  then show "\<exists>n. 4096 * m + (4096 - 882) \<le> 882 * n \<and> 882 * n < 4096 * m + 4096"
    by (intro exI [of _ ?n]) linarith
qed linarith

end
