(* ===== verification/Video.thy ===== *)
theory Video
  imports Audio
begin

text \<open>
  Call video, SIPEngine/video.c: availability of the camera, set-up and tear-down of the video
  session and one round of its two threads. The static variables are a record of their own.
\<close>

record video =
  v_sendThid :: int
  v_recvThid :: int
  stopVideo :: bool
  v_session :: bool
  isVidAvailable :: bool

definition video_initial :: video where
  "video_initial = \<lparr>v_sendThid = 0, v_recvThid = 0, stopVideo = True, v_session = False, isVidAvailable = False\<rparr>"

text \<open>\<open>setup\<close> and \<open>start\<close> are the results of the two camera calls; the second only runs after the first.\<close>

definition initVideo :: "int \<Rightarrow> int \<Rightarrow> video \<Rightarrow> video" where
  "initVideo setup start s =
     (if setup < 0 then s else if start < 0 then s else s\<lparr>isVidAvailable := True\<rparr>)"

definition videoAvailable :: "video \<Rightarrow> bool" where
  "videoAvailable s = isVidAvailable s"

definition rtpVideoSetup ::
    "string option \<Rightarrow> remote_media option \<Rightarrow> int \<Rightarrow> int \<Rightarrow> int \<Rightarrow> bool \<Rightarrow> video \<Rightarrow> (video \<times> rtp_action list) res" where
  "rtpVideoSetup rem_con rem_media port recv send incoming s =
     (let loc_media = rem_media in
      if \<not> videoAvailable s then Inr (s, [])
      else if loc_media = None \<and> rem_media = None then Inr (s, [])
      else bindR (first_payload (if incoming then loc_media else rem_media)) (\<lambda>payload.
        bindR (if atoi payload \<noteq> 26 then Inr True
               else bindR (deref rem_media) (\<lambda>m. Inr (atoi (m_port m) = 0))) (\<lambda>unsupported.
        if unsupported then Inr (s, [])
        else bindR (deref rem_con) (\<lambda>c_addr.
        bindR (deref rem_media) (\<lambda>media.
        Inr (s\<lparr>v_session := True, v_recvThid := recv, v_sendThid := send, stopVideo := False\<rparr>,
             [Session_new, Session_options, Local_addr ''0.0.0.0'' port,
              Remote_addr c_addr (atoi (m_port media)), Payload_type (atoi payload),
              Start_thread ''VideoRecv'' recv, Start_thread ''AudioSend'' send]))))))"

definition rtpVideoStop :: "video \<Rightarrow> video \<times> rtp_action list" where
  "rtpVideoStop s =
     (if \<not> stopVideo s
      then (s\<lparr>stopVideo := True, v_session := False\<rparr>,
            [Terminate_thread (v_sendThid s), Terminate_thread (v_recvThid s), Session_destroy])
      else (s, []))"

text \<open>One round of the threads: the timestamp moves by a frame, for the sender only when it sent one.\<close>

definition rtpVideoRecv_step :: "int \<Rightarrow> int res" where
  "rtpVideoRecv_step ts = add_int ts 6000"

definition rtpVideoSend_step :: "int \<Rightarrow> int \<Rightarrow> (int \<times> (int \<times> int) option) res" where
  "rtpVideoSend_step result user_ts =
     (if 0 < result then bindR (add_int user_ts 6000) (\<lambda>ts. Inr (ts, Some (result, user_ts)))
      else Inr (user_ts, None))"

section \<open>Sessions are balanced\<close>

text \<open>How many sessions a sequence of actions leaves open.\<close>

fun sessions :: "rtp_action list \<Rightarrow> int" where
  "sessions [] = 0"
| "sessions (Session_new # as) = 1 + sessions as"
| "sessions (Session_destroy # as) = sessions as - 1"
| "sessions (_ # as) = sessions as"

lemma sessions_append: "sessions (as @ bs) = sessions as + sessions bs"
  by (induction as rule: sessions.induct) simp_all

text \<open>A video session is open exactly while the stop flag is cleared.\<close>

definition video_ok :: "video \<Rightarrow> bool" where
  "video_ok s \<longleftrightarrow> (v_session s \<longleftrightarrow> \<not> stopVideo s)"

lemma video_initial_ok: "video_ok video_initial"
  by (simp add: video_ok_def video_initial_def)

lemma rtpVideoStop_ok:
  assumes "video_ok s"
  shows "video_ok (fst (rtpVideoStop s))" "\<not> v_session (fst (rtpVideoStop s))"
    "sessions (snd (rtpVideoStop s)) = (if v_session s then - 1 else 0)"
  using assms by (auto simp: video_ok_def rtpVideoStop_def)

lemma rtpVideoSetup_ok:
  assumes "rtpVideoSetup rem_con rem_media port recv send incoming s = Inr (s', acts)" "video_ok s"
  shows "video_ok s'" "sessions acts = (if v_session s' \<and> acts \<noteq> [] then 1 else 0)" "acts = [] \<longrightarrow> s' = s"
  using assms by (auto simp: rtpVideoSetup_def res_simps Let_def video_ok_def split: if_splits)

text \<open>
  Video starts only for an offer whose first payload is MJPEG and whose port is not 0, so
  stopping after any set-up leaves no session open.
\<close>

theorem video_setup_stop:
  assumes "rtpVideoSetup rem_con rem_media port recv send incoming s = Inr (s', acts)"
    "video_ok s" "\<not> v_session s"
  shows "sessions (acts @ snd (rtpVideoStop s')) = 0 \<and> \<not> v_session (fst (rtpVideoStop s')) \<and>
    (acts \<noteq> [] \<longrightarrow> videoAvailable s \<and>
      (\<exists>m p ps. rem_media = Some m \<and> m_payloads m = p # ps \<and> atoi p = 26 \<and> atoi (m_port m) \<noteq> 0))"
proof (intro conjI)
  note ok = rtpVideoSetup_ok [OF assms(1,2)]
  show "sessions (acts @ snd (rtpVideoStop s')) = 0"
    using ok rtpVideoStop_ok [OF ok(1)] assms by (auto simp: sessions_append)
  show "\<not> v_session (fst (rtpVideoStop s'))" using rtpVideoStop_ok [OF ok(1)] by simp
  show "acts \<noteq> [] \<longrightarrow> videoAvailable s \<and>
      (\<exists>m p ps. rem_media = Some m \<and> m_payloads m = p # ps \<and> atoi p = 26 \<and> atoi (m_port m) \<noteq> 0)"
    using assms(1)
    by (auto simp: rtpVideoSetup_def first_payload_def deref_def res_simps Let_def
        split: if_splits option.splits list.splits)
qed

theorem video_setup_stop_witness:
  "sessions ([Session_new, Session_options, Local_addr ''0.0.0.0'' 30002, Remote_addr ''h'' 9, Payload_type 26,
      Start_thread ''VideoRecv'' 1, Start_thread ''AudioSend'' 2] @
    snd (rtpVideoStop \<lparr>v_sendThid = 2, v_recvThid = 1, stopVideo = False, v_session = True, isVidAvailable = True\<rparr>)) = 0"
proof -
  have "rtpVideoSetup (Some ''h'') (Some \<lparr>m_payloads = [''26''], m_port = ''9''\<rparr>) 30002 1 2 True (video_initial\<lparr>isVidAvailable := True\<rparr>) =
    Inr (\<lparr>v_sendThid = 2, v_recvThid = 1, stopVideo = False, v_session = True, isVidAvailable = True\<rparr>,
      [Session_new, Session_options, Local_addr ''0.0.0.0'' 30002, Remote_addr ''h'' 9, Payload_type 26,
       Start_thread ''VideoRecv'' 1, Start_thread ''AudioSend'' 2])"
    "video_ok (video_initial\<lparr>isVidAvailable := True\<rparr>)" "\<not> v_session (video_initial\<lparr>isVidAvailable := True\<rparr>)"
    by code_simp+
  from video_setup_stop [OF this] show ?thesis by blast
qed

end
