(* ===== verification/Presence.thy ===== *)
theory Presence
  imports Config
begin

text \<open>
  Presence, SIPEngine/presence.c: the document published for the user's own state and the scan that
  reads another party's state out of a received document.
\<close>

section \<open>Publishing\<close>

text \<open>What publishing asks of the SIP library.\<close>

datatype publish_action = Build_publish string string | Send_publish string

definition es_activities :: "string \<Rightarrow> string" where
  "es_activities a = ''<es:activities>'' @ [LF] @ ''  <es:activity>'' @ a @ ''</es:activity>'' @ [LF] @
     ''</es:activities>'' @ [LF]"

definition presence_document :: "string \<Rightarrow> string \<Rightarrow> string \<Rightarrow> string \<Rightarrow> string" where
  "presence_document from state activity note =
     ''<?xml version=\"1.0\" encoding=\"UTF-8\"?>'' @ [LF] @
     ''<presence xmlns=\"urn:ietf:params:xml:ns:pidf\"'' @ [LF] @
     ''          xmlns:es=\"urn:ietf:params:xml:ns:pidf:status:rpid-status\"'' @ [LF] @
     ''          entity=\"'' @ from @ ''\">'' @ [LF] @
     ''<tuple id=\"sg89ae\">'' @ [LF] @
     ''<status>'' @ [LF] @
     ''<basic>'' @ state @ ''</basic>'' @ [LF] @
     activity @
     ''</status>'' @ [LF] @
     ''<contact priority=\"0.8\">'' @ from @ ''</contact>'' @ [LF] @
     note @
     ''</tuple>'' @ [LF] @
     ''</presence>''"

text \<open>
  The texts of each state: state, activity and note, where \<open>None\<close> is an array no branch of the
  switch has written.
\<close>

definition presence_texts :: "int \<Rightarrow> (string \<times> string option \<times> string option) option" where
  "presence_texts status =
     (if status = SUI_PRESENCE_OFFLINE then Some (''closed'', Some (es_activities ''permanent-absence''), None)
      else if status = SUI_PRESENCE_ONLINE then Some (''open'', None, Some (''<note>online</note>'' @ [LF]))
      else if status = SUI_PRESENCE_BUSY then
        Some (''open'', Some (es_activities ''busy''), Some (''<note>busy</note>'' @ [LF]))
      else if status = SUI_PRESENCE_AWAY then
        Some (''open'', Some (es_activities ''away''), Some (''<note>away</note>'' @ [LF]))
      else if status = SUI_PRESENCE_ON_PHONE then
        Some (''open'', Some (es_activities ''on-the-phone''), Some (''<note>On the phone</note>'' @ [LF]))
      else None)"

text \<open>A copy into one of the automatic arrays, if the branch makes it, and the read of that array.\<close>

definition copy_written :: "nat \<Rightarrow> string option \<Rightarrow> string option res" where
  "copy_written cap text = (case text of None \<Rightarrow> Inr None | Some t \<Rightarrow> bindR (strcpy_to cap t) (\<lambda>t. Inr (Some t)))"

definition read_written :: "string option \<Rightarrow> string res" where
  "read_written a = (case a of None \<Rightarrow> Inl Uninitialised_read | Some t \<Rightarrow> Inr t)"

text \<open>\<open>built\<close> is the library's answer to the build request.\<close>

definition update_presence :: "int \<Rightarrow> config \<Rightarrow> int \<Rightarrow> publish_action list res" where
  "update_presence built c status =
     bindR (config_get_user_uri c) (\<lambda>uri.
     bindR (strcpy_to 255 uri) (\<lambda>from.
     case presence_texts status of
       None \<Rightarrow> Inr []
     | Some (state, activity, note) \<Rightarrow>
         bindR (copy_written 25 activity) (\<lambda>activity.
         bindR (copy_written 25 note) (\<lambda>note.
         bindR (read_written activity) (\<lambda>activity.
         bindR (read_written note) (\<lambda>note.
         let buf = snprintf_to 5000 (presence_document from state activity note) in
         Inr (Build_publish from buf # (if built < 0 then [] else [Send_publish from])))))))) "

section \<open>Reading\<close>

definition at_word :: "string \<Rightarrow> string \<Rightarrow> bool" where
  "at_word w s \<longleftrightarrow> s \<noteq> [] \<and> hd s = hd w \<and> strncasecmp0 (length w) s w"

fun scan_activity :: "string \<Rightarrow> int option" where
  "scan_activity [] = None"
| "scan_activity (c # s) =
     (if at_word ''away'' (c # s) then Some SUI_PRESENCE_AWAY
      else if at_word ''busy'' (c # s) then Some SUI_PRESENCE_BUSY
      else if at_word ''on-the-phone'' (c # s) then Some SUI_PRESENCE_ON_PHONE
      else if at_word ''/status'' (c # s) then Some SUI_PRESENCE_ONLINE
      else scan_activity s)"

fun scan_basic :: "string \<Rightarrow> int" where
  "scan_basic [] = SUI_PRESENCE_OFFLINE"
| "scan_basic (c # s) =
     (if at_word ''open'' (c # s) then
        (case scan_activity (c # s) of Some p \<Rightarrow> p | None \<Rightarrow> SUI_PRESENCE_OFFLINE)
      else if at_word ''closed'' (c # s) then SUI_PRESENCE_OFFLINE
      else scan_basic s)"

definition parse_presence :: "string option \<Rightarrow> int" where
  "parse_presence body = (case body of None \<Rightarrow> SUI_PRESENCE_OFFLINE | Some tmp \<Rightarrow> scan_basic tmp)"

section \<open>What publishing can do\<close>

text \<open>
  No known state is ever published: every branch either copies an activity element into
  an array it does not fit or leaves an array it then reads unwritten; only an unknown status runs
  to the end, and it sends nothing.
\<close>

theorem update_presence_never_sends:
  "update_presence built c status = Inr actions \<Longrightarrow>
    actions = [] \<and> status \<notin> {SUI_PRESENCE_OFFLINE, SUI_PRESENCE_ONLINE, SUI_PRESENCE_BUSY,
      SUI_PRESENCE_AWAY, SUI_PRESENCE_ON_PHONE}"
  by (auto simp: update_presence_def res_simps presence_texts_def copy_written_def read_written_def
      es_activities_def Let_def split: if_splits option.splits)

theorem update_presence_never_sends_witness:
  "([] :: publish_action list) = [] \<and> (9 :: int) \<notin> {SUI_PRESENCE_OFFLINE, SUI_PRESENCE_ONLINE, SUI_PRESENCE_BUSY,
      SUI_PRESENCE_AWAY, SUI_PRESENCE_ON_PHONE}"
  by (rule update_presence_never_sends [of 0 config_initial]) code_simp

section \<open>The scan reads the documents the template describes\<close>

lemma take_map_tolower_boundary:
  assumes "q \<notin> set w"
  shows "take (length w) (u @ q # t) = w \<longleftrightarrow> take (length w) u = w"
proof (cases "length w \<le> length u")
  case False
  then have "q \<in> set (take (length w) (u @ q # t))"
    by (cases "length w - length u") auto
  moreover have "length (take (length w) u) \<noteq> length w" using False by simp
  ultimately show ?thesis using assms by metis
qed simp

text \<open>A word cannot straddle a character that is not one of its own.\<close>

lemma at_word_boundary:
  assumes "tolower q \<notin> set (map tolower w)" "w \<noteq> []" "u \<noteq> []"
  shows "at_word w (u @ q # t) = at_word w u"
proof -
  have "map tolower (take (length w) (u @ q # t)) = take (length w) (map tolower u @ tolower q # map tolower t)"
    by (simp add: take_map [symmetric])
  moreover have "map tolower (take (length w) u) = take (length w) (map tolower u)"
    by (simp add: take_map)
  ultimately show ?thesis
    using take_map_tolower_boundary [OF assms(1), of "map tolower u" "map tolower t"] assms(3)
    by (simp add: at_word_def strncasecmp0_def)
qed

fun free_of :: "string \<Rightarrow> string \<Rightarrow> bool" where
  "free_of w [] = True"
| "free_of w (c # s) \<longleftrightarrow> \<not> at_word w (c # s) \<and> free_of w s"

lemma scan_basic_skip:
  assumes "free_of ''open'' u" "free_of ''closed'' u" "tolower q \<notin> set ''opencls''" "tolower q \<notin> set ''d''"
  shows "scan_basic (u @ q # t) = scan_basic (q # t)"
  using assms
proof (induction u)
  case Nil
  then show ?case by simp
next
  case (Cons c u)
  have "tolower q \<notin> set (map tolower ''open'')" "tolower q \<notin> set (map tolower ''closed'')"
    using Cons.prems(3,4) by (auto simp: tolower_def)
  then have "at_word w (c # (u @ q # t)) = at_word w (c # u)" if "w \<in> {''open'', ''closed''}" for w
    using at_word_boundary [of q w "c # u" t] that by auto
  with Cons show ?case by simp
qed

lemma scan_activity_skip:
  assumes "free_of ''away'' u" "free_of ''busy'' u" "free_of ''on-the-phone'' u" "free_of ''/status'' u"
    "tolower q \<notin> set (map tolower ''awaybusyon-the-phone/status'')"
  shows "scan_activity (u @ q # t) = scan_activity (q # t)"
  using assms
proof (induction u)
  case Nil
  then show ?case by simp
next
  case (Cons c u)
  have "at_word w (c # (u @ q # t)) = at_word w (c # u)"
    if "w \<in> {''away'', ''busy'', ''on-the-phone'', ''/status''}" for w
    using at_word_boundary [of q w "c # u" t] Cons.prems(5) that by auto
  with Cons show ?case by simp
qed

lemma at_word_prefix: "w \<noteq> [] \<Longrightarrow> at_word w (w @ r)"
  by (cases w) (simp_all add: at_word_def strncasecmp0_def)

lemma at_word_hd: "hd s \<noteq> hd w \<Longrightarrow> \<not> at_word w s"
  by (simp add: at_word_def)

text \<open>The parts of the document around the places the scan stops at.\<close>

definition document_head :: string where
  "document_head = ''<?xml version=\"1.0\" encoding=\"UTF-8\"?>'' @ [LF] @
     ''<presence xmlns=\"urn:ietf:params:xml:ns:pidf\"'' @ [LF] @
     ''          xmlns:es=\"urn:ietf:params:xml:ns:pidf:status:rpid-status\"'' @ [LF] @
     ''          entity=''"

definition document_tuple :: string where
  "document_tuple = ''>'' @ [LF] @ ''<tuple id=\"sg89ae\">'' @ [LF] @ ''<status>'' @ [LF] @ ''<basic''"

lemma scan_document_head:
  "scan_basic (document_head @ CHR 0x22 # t) = scan_basic t"
proof -
  have "free_of ''open'' document_head" "free_of ''closed'' document_head" by code_simp+
  then have "scan_basic (document_head @ CHR 0x22 # t) = scan_basic (CHR 0x22 # t)"
    by (rule scan_basic_skip) (simp_all add: tolower_def)
  then show ?thesis by (simp add: at_word_hd)
qed

lemma scan_document_tuple: "scan_basic (CHR 0x22 # document_tuple @ CHR ''>'' # t) = scan_basic t"
proof -
  have "free_of ''open'' document_tuple" "free_of ''closed'' document_tuple" by code_simp+
  then have "scan_basic (document_tuple @ CHR ''>'' # t) = scan_basic (CHR ''>'' # t)"
    by (rule scan_basic_skip) (simp_all add: tolower_def)
  then show ?thesis by (simp add: at_word_hd)
qed

lemma scan_document:
  assumes "free_of ''open'' from" "free_of ''closed'' from"
  shows "\<exists>r. scan_basic (presence_document from state activity note) =
    scan_basic (state @ ''</basic>'' @ [LF] @ activity @ CHR ''<'' # ''/status'' @ r)"
proof -
  let ?t = "state @ ''</basic>'' @ [LF] @ activity @ CHR ''<'' # ''/status'' @
    ''>'' @ [LF] @ ''<contact priority=\"0.8\">'' @ from @ ''</contact>'' @ [LF] @ note @ ''</tuple>'' @ [LF] @ ''</presence>''"
  have "presence_document from state activity note =
      document_head @ CHR 0x22 # from @ CHR 0x22 # document_tuple @ CHR ''>'' # ?t"
    by (simp add: presence_document_def document_head_def document_tuple_def)
  moreover have "scan_basic (from @ CHR 0x22 # t) = scan_basic (CHR 0x22 # t)" for t
    using assms by (rule scan_basic_skip) (simp_all add: tolower_def)
  ultimately have "scan_basic (presence_document from state activity note) = scan_basic ?t"
    by (simp only: scan_document_head scan_document_tuple)
  then show ?thesis by blast
qed

lemma scan_closed: "scan_basic (''closed'' @ t) = SUI_PRESENCE_OFFLINE"
  using at_word_prefix [of "''closed''" t] by (simp add: at_word_hd)

lemma scan_open:
  assumes "scan_activity (''open'' @ t) = Some p"
  shows "scan_basic (''open'' @ t) = p"
  using assms at_word_prefix [of "''open''" t] by (simp add: at_word_hd del: scan_activity.simps)

lemma scan_activity_none: "scan_activity (''open</basic>'' @ [LF] @ CHR ''<'' # ''/status'' @ r) = Some SUI_PRESENCE_ONLINE"
proof -
  have free: "free_of ''away'' (''open</basic>'' @ [LF])" "free_of ''busy'' (''open</basic>'' @ [LF])"
    "free_of ''on-the-phone'' (''open</basic>'' @ [LF])" "free_of ''/status'' (''open</basic>'' @ [LF])"
    by code_simp+
  have "scan_activity ((''open</basic>'' @ [LF]) @ CHR ''<'' # ''/status'' @ r) =
      scan_activity (CHR ''<'' # ''/status'' @ r)"
    using free by (rule scan_activity_skip) code_simp
  with at_word_prefix [of "''/status''" r] show ?thesis by (simp add: at_word_hd)
qed

lemma scan_activity_some:
  "scan_activity (''open</basic>'' @ [LF] @ es_activities a @ r) =
   scan_activity (a @ ''</es:activity>'' @ [LF] @ ''</es:activities>'' @ LF # r)"
proof -
  let ?u = "''open</basic>'' @ [LF] @ ''<es:activities>'' @ [LF] @ ''  <es:activity''"
  have free: "free_of ''away'' ?u" "free_of ''busy'' ?u" "free_of ''on-the-phone'' ?u" "free_of ''/status'' ?u"
    by code_simp+
  have "scan_activity (?u @ CHR ''>'' # t) = scan_activity (CHR ''>'' # t)" for t
    using free by (rule scan_activity_skip) code_simp
  then have "scan_activity (?u @ CHR ''>'' # t) = scan_activity t" for t
    by (simp add: at_word_hd)
  from this [of "a @ ''</es:activity>'' @ [LF] @ ''</es:activities>'' @ LF # r"] show ?thesis
    by (simp add: es_activities_def)
qed

lemma scan_activity_word:
  "scan_activity (''away'' @ r) = Some SUI_PRESENCE_AWAY"
  "scan_activity (''busy'' @ r) = Some SUI_PRESENCE_BUSY"
  "scan_activity (''on-the-phone'' @ r) = Some SUI_PRESENCE_ON_PHONE"
  using at_word_prefix [of "''away''" r] at_word_prefix [of "''busy''" r] at_word_prefix [of "''on-the-phone''" r]
  by (simp_all add: at_word_hd)

text \<open>
  The document the template describes for a state (with arrays large enough to hold its
  texts) is read back as that state, for every user URI that contains neither of the two words the
  scan looks for first.
\<close>

theorem presence_roundtrip:
  assumes "free_of ''open'' from" "free_of ''closed'' from"
    "(status, state, activity) \<in> {(SUI_PRESENCE_OFFLINE, ''closed'', es_activities ''permanent-absence''),
      (SUI_PRESENCE_ONLINE, ''open'', []), (SUI_PRESENCE_BUSY, ''open'', es_activities ''busy''),
      (SUI_PRESENCE_AWAY, ''open'', es_activities ''away''),
      (SUI_PRESENCE_ON_PHONE, ''open'', es_activities ''on-the-phone'')}"
  shows "parse_presence (Some (presence_document from state activity note)) = status"
proof -
  obtain r where r: "parse_presence (Some (presence_document from state activity note)) =
      scan_basic (state @ ''</basic>'' @ [LF] @ activity @ CHR ''<'' # ''/status'' @ r)"
    using scan_document [OF assms(1,2)] unfolding parse_presence_def option.case by blast
  show ?thesis using assms(3) unfolding r
    by (elim insertE emptyE)
       (use scan_closed scan_open [of "''</basic>'' @ [LF] @ t" for t] scan_activity_none
          scan_activity_some scan_activity_word in \<open>simp_all del: scan_basic.simps scan_activity.simps\<close>)
qed

theorem presence_roundtrip_witness:
  "parse_presence (Some (presence_document ''sip:u@h'' ''open'' (es_activities ''busy'') [])) = SUI_PRESENCE_BUSY"
  by (rule presence_roundtrip) (simp_all add: at_word_def)

end
