(* ===== verification/Call_Api.thy ===== *)
theory Call_Api
  imports Local_Sdp Video Presence
begin

text \<open>
  The call engine, SIPEngine/call_api.c: its state, the operations the user interface triggers and
  the thread that registers with the server and handles the SIP library's events. Every operation
  returns the new state and, in order, what it asked of the user interface, the SIP and RTP
  libraries and the kernel. What those return is in \<open>call_env\<close>.
\<close>

section \<open>State, actions and environment\<close>

datatype call_state =
    eNOT_REGISTERED | eREGISTERING | eREGISTERED | eIN_CALL | eINCOMING_CALL | eANSWERED | eDISCONNECTING

text \<open>The thread: not created, in its loop, or returned with a value.\<close>

datatype call_thread = Not_started | Running | Returned int

record engine =
  currentState :: call_state
  callThid :: int
  cbid :: int
  quit :: bool
  cid :: int
  did :: int
  tid :: int
  rid :: int
  callback_done :: bool
  callback_proc :: bool
  logfd :: int
  thread :: call_thread
  e_config :: config
  e_ports :: sdp_ports
  e_audio :: audio
  e_video :: video

definition engine_initial :: "config \<Rightarrow> engine" where
  "engine_initial c = \<lparr>currentState = eNOT_REGISTERED, callThid = 0, cbid = 0, quit = False, cid = 0, did = 0,
     tid = 0, rid = 0, callback_done = False, callback_proc = False, logfd = 0, thread = Not_started,
     e_config = c, e_ports = sdp_ports_initial, e_audio = audio_initial, e_video = video_initial\<rparr>"

datatype action =
    Event in_event
  | Callback_proc string
  | Lock
  | Unlock
  | Automatic
  | Register_initial string string
  | Register_build int int
  | Register_send int
  | Send_answer int int
  | Call_answer int string
  | Call_ack int
  | Call_invite string string string
  | Call_terminate int int
  | Insub_build int int
  | Insub_send int int
  | Masquerade string int
  | Publish publish_action
  | Rtp rtp_action
  | Close_log
  | Start_call_thread int
  | Exit_thread

text \<open>The remote description of a transaction, as far as the engine reads it.\<close>

record remote_description =
  audio_con :: "string option"
  audio_media :: "remote_media option"
  video_con :: "string option"
  video_media :: "remote_media option"

record call_env =
  en_callback :: int
  en_register :: int
  en_insub_build :: int
  en_insub_send :: int
  en_invite :: bool
  en_sdp :: sdp_env
  en_remote :: "int \<Rightarrow> remote_description option"
  en_thread :: "string \<Rightarrow> int"
  en_publish :: int

definition remote_payloads :: "remote_description \<Rightarrow> remote_sdp" where
  "remote_payloads r = \<lparr>audio_payloads = map_option m_payloads (audio_media r),
     video_payloads = map_option m_payloads (video_media r)\<rparr>"

text \<open>A null description has neither media nor connections.\<close>

definition remote_part :: "(remote_description \<Rightarrow> 'a option) \<Rightarrow> remote_description option \<Rightarrow> 'a option" where
  "remote_part f r = (case r of None \<Rightarrow> None | Some d \<Rightarrow> f d)"

text \<open>The SIP library's events; those the engine never names are one constructor.\<close>

datatype event_type =
    EXOSIP_REGISTRATION_SUCCESS | EXOSIP_REGISTRATION_FAILURE | EXOSIP_REGISTRATION_TERMINATED
  | EXOSIP_CALL_INVITE | EXOSIP_CALL_NOANSWER | EXOSIP_CALL_PROCEEDING | EXOSIP_CALL_RINGING
  | EXOSIP_CALL_ANSWERED | EXOSIP_CALL_REDIRECTED | EXOSIP_CALL_REQUESTFAILURE
  | EXOSIP_CALL_SERVERFAILURE | EXOSIP_CALL_GLOBALFAILURE | EXOSIP_CALL_ACK | EXOSIP_CALL_CANCELLED
  | EXOSIP_CALL_TIMEOUT | EXOSIP_CALL_CLOSED | EXOSIP_SUBSCRIPTION_NOTIFY | EXOSIP_IN_SUBSCRIPTION_NEW
  | EXOSIP_OTHER int

record exosip_event =
  ev_type :: event_type
  textinfo :: string
  ev_tid :: int
  ev_did :: int
  ev_rid :: int
  ev_cid :: int
  displayname :: "string option"
  body :: "string option"

section \<open>Operations\<close>

type_synonym engine_op = "(engine, action) op"

definition event :: "in_event \<Rightarrow> engine_op" where
  "event e = emit [Event e]"

definition if_op :: "(engine \<Rightarrow> bool) \<Rightarrow> engine_op list \<Rightarrow> engine_op list \<Rightarrow> engine_op" where
  "if_op b f g s = (if b s then runs f s else runs g s)"

definition on_audio :: "(audio \<Rightarrow> audio \<times> rtp_action list) \<Rightarrow> engine_op" where
  "on_audio f s = (let (a, acts) = f (e_audio s) in Inr (s\<lparr>e_audio := a\<rparr>, map Rtp acts))"

definition on_video :: "(video \<Rightarrow> video \<times> rtp_action list) \<Rightarrow> engine_op" where
  "on_video f s = (let (v, acts) = f (e_video s) in Inr (s\<lparr>e_video := v\<rparr>, map Rtp acts))"

definition stop_media :: engine_op where
  "stop_media = runs [on_audio rtpAudioStop, on_video rtpVideoStop]"

definition setup_media :: "call_env \<Rightarrow> int \<Rightarrow> bool \<Rightarrow> engine_op" where
  "setup_media env t incoming s =
     (let r = en_remote env t in
      bindR (rtpAudioSetup (remote_part audio_con r) (remote_part audio_media r) (getAudioPort (e_ports s))
               (en_thread env ''AudioRecv'') (en_thread env ''AudioSend'') incoming (e_audio s)) (\<lambda>(a, as).
      bindR (rtpVideoSetup (remote_part video_con r) (remote_part video_media r) (getVideoPort (e_ports s))
               (en_thread env ''VideoRecv'') (en_thread env ''VideoSend'') incoming (e_video s)) (\<lambda>(v, vs).
      Inr (s\<lparr>e_audio := a, e_video := v\<rparr>, map Rtp (as @ vs)))))"

definition local_sdp :: "call_env \<Rightarrow> remote_sdp option \<Rightarrow> (string \<Rightarrow> engine_op) \<Rightarrow> engine_op" where
  "local_sdp env remote f s =
     bindR (createLocalSdp (en_sdp env) (e_config s) remote (e_ports s)) (\<lambda>(p, sdp). f sdp (s\<lparr>e_ports := p\<rparr>))"

definition stop_ringback :: engine_op where
  "stop_ringback = modify (\<lambda>s. s\<lparr>e_audio := stopRingback (e_audio s)\<rparr>)"

definition ChangeState :: "call_state \<Rightarrow> engine_op" where
  "ChangeState state =
     runs [case state of
             eNOT_REGISTERED \<Rightarrow> event (IN_SIP_STATE SUI_SIP_STATE_DISCONNECTED)
           | eREGISTERING \<Rightarrow> event (IN_SIP_STATE SUI_SIP_STATE_CONNECTING)
           | eREGISTERED \<Rightarrow> runs [stop_ringback, event (IN_SIP_STATE SUI_SIP_STATE_CONNECTED)]
           | eIN_CALL \<Rightarrow> event (IN_SIP_STATE SUI_SIP_STATE_TRYING)
           | eINCOMING_CALL \<Rightarrow> event (IN_SIP_STATE SUI_SIP_STATE_INCOMING)
           | eANSWERED \<Rightarrow> runs [stop_ringback, event (IN_SIP_STATE SUI_SIP_STATE_ESTABLISHED)]
           | eDISCONNECTING \<Rightarrow> emit [],
           modify (\<lambda>s. s\<lparr>currentState := state\<rparr>)]"

definition makeCall :: "call_env \<Rightarrow> string \<Rightarrow> engine_op" where
  "makeCall env user =
     runs [event (InfoMessage ''new call''),
       if_op (\<lambda>s. currentState s = eREGISTERED)
         [\<lambda>s. using_res (config_get_user_uri (e_config s)) (\<lambda>uri.
            if \<not> en_invite env then event (ErrorMessage ''Failed invite build'')
            else local_sdp env None (\<lambda>sdp. runs
              [emit [Lock, Call_invite user uri sdp],
               event (InfoMessage ''Sent invite''),
               emit [Unlock],
               ChangeState eIN_CALL,
               event (InfoMessage ''Now in call'')])) s]
         []]"

definition hangupCall :: engine_op where
  "hangupCall =
     runs [if_op (\<lambda>s. currentState s = eANSWERED) [stop_media] [],
       if_op (\<lambda>s. currentState s \<in> {eIN_CALL, eANSWERED, eINCOMING_CALL})
         [emit [Lock], \<lambda>s. emit [Call_terminate (cid s) (did s)] s, emit [Unlock],
          modify (\<lambda>s. s\<lparr>cid := 0, did := 0\<rparr>), ChangeState eREGISTERED]
         []]"

definition answerCall :: "call_env \<Rightarrow> engine_op" where
  "answerCall env =
     if_op (\<lambda>s. currentState s = eINCOMING_CALL)
       [emit [Lock],
        \<lambda>s. local_sdp env (map_option remote_payloads (en_remote env (tid s)))
              (\<lambda>sdp. emit [Call_answer (tid s) sdp]) s,
        emit [Unlock]]
       []"

definition disconnectSipServer :: engine_op where
  "disconnectSipServer =
     runs [if_op (\<lambda>s. currentState s = eIN_CALL \<or> currentState s = eANSWERED) [hangupCall] [],
       if_op (\<lambda>s. currentState s = eREGISTERED)
         [ChangeState eDISCONNECTING, emit [Lock],
          \<lambda>s. emit [Register_build (rid s) 0, Register_send (rid s)] s, emit [Lock]]
         [if_op (\<lambda>s. 0 < callThid s) [modify (\<lambda>s. s\<lparr>quit := True\<rparr>)]
            [emit [Close_log], modify (\<lambda>s. s\<lparr>callback_done := True\<rparr>)]]]"

text \<open>Schemes: an address that names none gets the default one, in a buffer of 128 characters.\<close>

definition call_address :: "string \<Rightarrow> string res" where
  "call_address lAddress =
     (if \<not> strncmp0 4 lAddress ''sip:'' \<and> \<not> strncmp0 4 lAddress ''tel:''
      then strcpy_to 128 (''sip:'' @ lAddress) else Inr lAddress)"

text \<open>
  The callback that runs an event of the user interface on the engine's thread. Its return value
  goes to the kernel; what counts is the flag the caller waits for.
\<close>

definition GuiCallback :: "call_env \<Rightarrow> out_event \<Rightarrow> engine_op" where
  "GuiCallback env ev =
     runs [case ev of
         OUT_NEW_CALL lAddress \<Rightarrow> using_res (call_address lAddress) (\<lambda>a.
           runs [event (InfoMessage (''Call '' @ [CHR 0x27] @ a @ [CHR 0x27])), makeCall env a])
       | OUT_ANSWER \<Rightarrow> answerCall env
       | OUT_REJECT \<Rightarrow> hangupCall
       | OUT_HANGUP \<Rightarrow> hangupCall
       | OUT_CHANGE_PRESENCE presence \<Rightarrow> (\<lambda>s.
           using_res (update_presence (en_publish env) (e_config s) presence) (\<lambda>acts. emit (map Publish acts)) s)
       | OUT_SHUTDOWN \<Rightarrow> disconnectSipServer
       | OUT_OTHER n \<Rightarrow> emit [],
       modify (\<lambda>s. s\<lparr>callback_done := (ev \<noteq> OUT_SHUTDOWN)\<rparr>)]"

definition GuiCallback_return :: "out_event \<Rightarrow> int" where
  "GuiCallback_return ev = (case ev of OUT_OTHER n \<Rightarrow> SUI_RC_UNKNOWN_EVENT | _ \<Rightarrow> SUI_RC_OK)"

section \<open>The thread\<close>

text \<open>Creation by \<open>setupCallThread\<close> and what the thread does before its loop.\<close>

definition setupCallThread :: "int \<Rightarrow> engine_op" where
  "setupCallThread thid =
     runs [modify (\<lambda>s. s\<lparr>callThid := thid, thread := Running\<rparr>), emit [Start_call_thread thid]]"

definition CallThread_enter :: "call_env \<Rightarrow> engine_op" where
  "CallThread_enter env =
     runs [modify (\<lambda>s. s\<lparr>cbid := en_callback env\<rparr>), event (IN_STARTUP SUI_STARTUP_STATE_BOOT)]"

definition registerCallbackProc :: "bool \<Rightarrow> engine_op" where
  "registerCallbackProc proc = modify (\<lambda>s. s\<lparr>callback_proc := proc\<rparr>)"

definition return_from_thread :: "int \<Rightarrow> engine_op" where
  "return_from_thread rc = modify (\<lambda>s. s\<lparr>thread := Returned rc\<rparr>)"

text \<open>Registration at the head of the loop; a failed build returns from the thread.\<close>

definition register_step :: "call_env \<Rightarrow> engine_op" where
  "register_step env =
     if_op (\<lambda>s. currentState s = eNOT_REGISTERED)
       [emit [Lock],
        \<lambda>s. using_res (config_get_user_uri (e_config s)) (\<lambda>user_uri.
          using_res (config_get_server_uri (e_config s)) (\<lambda>server_uri.
            emit [Register_initial user_uri server_uri])) s,
        if en_register env < 0 then runs [emit [Unlock], return_from_thread (- 1)]
        else runs [emit [Register_send (en_register env), Unlock],
          event (IN_STARTUP SUI_STARTUP_STATE_REGISTER), ChangeState eREGISTERING]]
       []"

definition notify_proc :: "string \<Rightarrow> engine_op" where
  "notify_proc text = if_op callback_proc [emit [Callback_proc text]] []"

definition subscription_notify :: "exosip_event \<Rightarrow> engine_op" where
  "subscription_notify je =
     (case body je of None \<Rightarrow> emit []
      | Some b \<Rightarrow> event (InfoMessage (''presence='' @ show_int (parse_presence (Some b)))))"

text \<open>A subscription that cannot be answered returns from the thread with the lock held.\<close>

definition subscription_new :: "call_env \<Rightarrow> exosip_event \<Rightarrow> engine_op" where
  "subscription_new env je =
     (let t = ev_tid je; built = en_insub_build env;
          i = (if built = 0 then en_insub_send env else built)
      in runs [emit [Lock, Insub_build t 202],
           emit (if built = 0 then [Insub_send t 202] else []),
           if i \<noteq> 0 then runs [emit [Insub_send t 400], return_from_thread 0] else emit [Unlock]])"

definition handle_registering :: "exosip_event \<Rightarrow> engine_op" where
  "handle_registering je =
     (case ev_type je of
        EXOSIP_REGISTRATION_SUCCESS \<Rightarrow>
          runs [if_op callback_proc [event (InfoMessage ''registered fine''),
                  emit [Callback_proc ''Registered with SIP server'']] [],
            modify (\<lambda>s. s\<lparr>rid := ev_rid je\<rparr>),
            event (IN_STARTUP SUI_STARTUP_STATE_READY),
            ChangeState eREGISTERED]
      | _ \<Rightarrow> emit [])"

definition handle_registered :: "call_env \<Rightarrow> exosip_event \<Rightarrow> engine_op" where
  "handle_registered env je =
     (case ev_type je of
        EXOSIP_CALL_INVITE \<Rightarrow>
          runs [emit [Lock, Send_answer (ev_tid je) 180, Unlock],
            modify (\<lambda>s. s\<lparr>cid := ev_cid je, did := ev_did je, tid := ev_tid je\<rparr>),
            event (InfoMessage (''New call from '' @ (case displayname je of None \<Rightarrow> ''(null)'' | Some d \<Rightarrow> d))),
            event (IN_INCOMING_CALL (displayname je) (- 1)),
            ChangeState eINCOMING_CALL]
      | EXOSIP_SUBSCRIPTION_NOTIFY \<Rightarrow> subscription_notify je
      | EXOSIP_IN_SUBSCRIPTION_NEW \<Rightarrow> subscription_new env je
      | _ \<Rightarrow> emit [])"

definition handle_in_call :: "call_env \<Rightarrow> exosip_event \<Rightarrow> engine_op" where
  "handle_in_call env je =
     (let failed = runs [event (ErrorMessage ''Call failed''), ChangeState eREGISTERED] in
      case ev_type je of
        EXOSIP_CALL_RINGING \<Rightarrow>
          runs [event (InfoMessage ''Phone is ringing''),
            modify (\<lambda>s. s\<lparr>cid := ev_cid je, did := ev_did je\<rparr>),
            on_audio (playRingback (en_thread env ''AudioRingback''))]
      | EXOSIP_CALL_ANSWERED \<Rightarrow>
          runs [notify_proc ''Call answered'',
            emit [Lock, Call_ack (ev_did je), Unlock],
            setup_media env (ev_tid je) False,
            ChangeState eANSWERED]
      | EXOSIP_SUBSCRIPTION_NOTIFY \<Rightarrow> subscription_notify je
      | EXOSIP_IN_SUBSCRIPTION_NEW \<Rightarrow> subscription_new env je
      | EXOSIP_CALL_ACK \<Rightarrow>
          runs [modify (\<lambda>s. s\<lparr>cid := ev_cid je, did := ev_did je\<rparr>),
            setup_media env (ev_tid je) True,
            ChangeState eANSWERED]
      | EXOSIP_CALL_CLOSED \<Rightarrow> ChangeState eREGISTERED
      | EXOSIP_CALL_SERVERFAILURE \<Rightarrow> failed
      | EXOSIP_CALL_GLOBALFAILURE \<Rightarrow> failed
      | EXOSIP_CALL_CANCELLED \<Rightarrow> failed
      | EXOSIP_CALL_TIMEOUT \<Rightarrow> failed
      | _ \<Rightarrow> emit [])"

definition handle_answered :: "exosip_event \<Rightarrow> engine_op" where
  "handle_answered je =
     (case ev_type je of
        EXOSIP_CALL_CLOSED \<Rightarrow>
          runs [notify_proc ''Call cleared'', stop_media,
            modify (\<lambda>s. s\<lparr>cid := 0, tid := 0, did := 0\<rparr>), ChangeState eREGISTERED]
      | _ \<Rightarrow> emit [])"

definition handle_disconnecting :: "exosip_event \<Rightarrow> engine_op" where
  "handle_disconnecting je =
     (if ev_type je = EXOSIP_REGISTRATION_SUCCESS \<or> ev_type je = EXOSIP_REGISTRATION_TERMINATED
      then runs [ChangeState eNOT_REGISTERED, modify (\<lambda>s. s\<lparr>quit := True\<rparr>)]
      else emit [])"

definition handle_event :: "call_env \<Rightarrow> exosip_event \<Rightarrow> engine_op" where
  "handle_event env je =
     runs [using_res (format_noargs (textinfo je)) (\<lambda>t. event (InfoMessage t)),
       \<lambda>s. (case currentState s of
           eNOT_REGISTERED \<Rightarrow> emit []
         | eREGISTERING \<Rightarrow> handle_registering je
         | eREGISTERED \<Rightarrow> handle_registered env je
         | eIN_CALL \<Rightarrow> handle_in_call env je
         | eINCOMING_CALL \<Rightarrow> handle_in_call env je
         | eANSWERED \<Rightarrow> handle_answered je
         | eDISCONNECTING \<Rightarrow> handle_disconnecting je) s]"

text \<open>
  One round of the loop. \<open>pending\<close> is the user interface's event, if it has notified one: the
  callback runs inside the delay at the head of the loop and nowhere else, and the notifying thread
  waits, so there is at most one. \<open>je\<close> is the SIP event, if one came in time.
\<close>

definition CallThread_round :: "call_env \<Rightarrow> out_event option \<Rightarrow> exosip_event option \<Rightarrow> engine_op" where
  "CallThread_round env pending je =
     runs [case pending of None \<Rightarrow> emit [] | Some ev \<Rightarrow> GuiCallback env ev,
       register_step env,
       if_op (\<lambda>s. thread s = Running)
         [emit [Lock, Automatic, Unlock],
          case je of None \<Rightarrow> emit [] | Some e \<Rightarrow> handle_event env e]
         []]"

definition CallThread_leave :: engine_op where
  "CallThread_leave =
     runs [emit [Close_log], modify (\<lambda>s. s\<lparr>callback_done := True, thread := Returned 0\<rparr>), emit [Exit_thread]]"

text \<open>The loop as steps: a round while the flag is clear, then the exit.\<close>

definition CallThread_step :: "call_env \<Rightarrow> out_event option \<Rightarrow> exosip_event option \<Rightarrow> engine_op" where
  "CallThread_step env pending je =
     if_op quit [CallThread_leave] [CallThread_round env pending je]"

section \<open>Operations outside the thread\<close>

text \<open>
  \<open>SIPEngineDoEvent\<close> hands an event to the thread if it has a callback and then waits for the flag,
  which it clears on return.
\<close>

definition SIPEngineDoEvent_notifies :: "engine \<Rightarrow> bool" where
  "SIPEngineDoEvent_notifies s \<longleftrightarrow> 0 < cbid s"

definition SIPEngineDoEvent_waits :: "engine \<Rightarrow> bool" where
  "SIPEngineDoEvent_waits s \<longleftrightarrow> 0 < cbid s \<and> \<not> callback_done s"

definition SIPEngineDoEvent_return :: engine_op where
  "SIPEngineDoEvent_return = modify (\<lambda>s. s\<lparr>callback_done := False\<rparr>)"

text \<open>A received message's top Via parameters, if it has the header, and whether its From has a host.\<close>

record sip_via =
  rport :: "string option"
  received :: "string option"

definition UpdateFirewallAddr :: "(sip_via option \<times> bool) option \<Rightarrow> action list" where
  "UpdateFirewallAddr sip =
     (case sip of None \<Rightarrow> []
      | Some (via, from_host) \<Rightarrow>
         (case via of None \<Rightarrow> []
          | Some v \<Rightarrow>
             (case rport v of None \<Rightarrow> []
              | Some p \<Rightarrow>
                 (case received v of None \<Rightarrow> []
                  | Some r \<Rightarrow> if from_host then [Masquerade r (atoi p)] else []))))"

end
