(* ===== verification/Call_Correct.thy ===== *)
theory Call_Correct
  imports Call_Api
begin

text \<open>
  Correctness of the call engine: the calls it can be in and how they follow each other, the media
  sessions and the ringback that go with them, the lock, the ids a call is hung up with, and what
  shutting down needs.
\<close>

section \<open>Closed forms\<close>

text \<open>The state number the user interface is told; disconnecting is not announced.\<close>

fun sip_code :: "call_state \<Rightarrow> int" where
  "sip_code eNOT_REGISTERED = SUI_SIP_STATE_DISCONNECTED"
| "sip_code eREGISTERING = SUI_SIP_STATE_CONNECTING"
| "sip_code eREGISTERED = SUI_SIP_STATE_CONNECTED"
| "sip_code eIN_CALL = SUI_SIP_STATE_TRYING"
| "sip_code eINCOMING_CALL = SUI_SIP_STATE_INCOMING"
| "sip_code eANSWERED = SUI_SIP_STATE_ESTABLISHED"
| "sip_code eDISCONNECTING = SUI_SIP_STATE_CONNECTED"

definition announce :: "call_state \<Rightarrow> action list" where
  "announce st = (if st = eDISCONNECTING then [] else [Event (IN_SIP_STATE (sip_code st))])"

definition enter_state :: "call_state \<Rightarrow> engine \<Rightarrow> engine" where
  "enter_state st s =
     s\<lparr>currentState := st,
       e_audio := (if st = eREGISTERED \<or> st = eANSWERED then stopRingback (e_audio s) else e_audio s)\<rparr>"

lemma ChangeState_eq: "ChangeState st s = Inr (enter_state st s, announce st)"
  by (cases st) (simp_all add: ChangeState_def event_def emit_def modify_def stop_ringback_def enter_state_def announce_def)

lemma ChangeState_Inr [res_simps]: "ChangeState st s = Inr x \<longleftrightarrow> x = (enter_state st s, announce st)"
  by (auto simp: ChangeState_eq)

lemma bindR_Inr_right [simp]: "bindR r Inr = r"
  by (cases r) simp_all

lemma runs_one [simp]: "runs [f] s = f s"
  by (cases "f s") auto

lemma enter_state_simps [simp]:
  "currentState (enter_state st s) = st" "thread (enter_state st s) = thread s" "quit (enter_state st s) = quit s"
  "callback_done (enter_state st s) = callback_done s" "cid (enter_state st s) = cid s"
  "did (enter_state st s) = did s" "tid (enter_state st s) = tid s" "callThid (enter_state st s) = callThid s"
  "rid (enter_state st s) = rid s" "e_video (enter_state st s) = e_video s" "e_config (enter_state st s) = e_config s"
  "e_ports (enter_state st s) = e_ports s" "cbid (enter_state st s) = cbid s"
  "a_session (e_audio (enter_state st s)) = a_session (e_audio s)"
  "ringback (e_audio (enter_state st s)) = (ringback (e_audio s) \<and> st \<noteq> eREGISTERED \<and> st \<noteq> eANSWERED)"
  by (simp_all add: enter_state_def stopRingback_def)

lemmas op_defs = event_def emit_def modify_def if_op_def using_res_def on_audio_def on_video_def

section \<open>The contract of an operation\<close>

text \<open>The transitions of a call, as an abstract machine.\<close>

inductive call_edge :: "call_state \<Rightarrow> call_state \<Rightarrow> bool" where
  register: "call_edge eNOT_REGISTERED eREGISTERING"
| registered: "call_edge eREGISTERING eREGISTERED"
| place: "call_edge eREGISTERED eIN_CALL"
| incoming: "call_edge eREGISTERED eINCOMING_CALL"
| establish: "st \<in> {eIN_CALL, eINCOMING_CALL} \<Longrightarrow> call_edge st eANSWERED"
| clear: "st \<in> {eIN_CALL, eINCOMING_CALL, eANSWERED} \<Longrightarrow> call_edge st eREGISTERED"
| disconnect: "call_edge eREGISTERED eDISCONNECTING"
| unregister: "call_edge eDISCONNECTING eNOT_REGISTERED"

code_pred call_edge .

inductive_simps call_edge_simps [simp]: "call_edge st st'"

lemmas call_edge_intros = call_edge.intros r_into_rtranclp [of call_edge]

text \<open>Media and ringback follow the call state.\<close>

definition engine_ok :: "engine \<Rightarrow> bool" where
  "engine_ok s \<longleftrightarrow>
     (a_session (e_audio s) \<longleftrightarrow> currentState s = eANSWERED) \<and>
     video_ok (e_video s) \<and> (v_session (e_video s) \<longrightarrow> currentState s = eANSWERED) \<and>
     (ringback (e_audio s) \<longrightarrow> currentState s = eIN_CALL \<or> currentState s = eINCOMING_CALL)"

definition open_sessions :: "engine \<Rightarrow> int" where
  "open_sessions s = of_bool (a_session (e_audio s)) + of_bool (v_session (e_video s))"

fun rtp_trace :: "action list \<Rightarrow> rtp_action list" where
  "rtp_trace [] = []"
| "rtp_trace (Rtp a # as) = a # rtp_trace as"
| "rtp_trace (_ # as) = rtp_trace as"

lemma rtp_trace_append [simp]: "rtp_trace (as @ bs) = rtp_trace as @ rtp_trace bs"
  by (induction as rule: rtp_trace.induct) simp_all

lemma rtp_trace_map [simp]: "rtp_trace (map Rtp as) = as"
  by (induction as) simp_all

lemma rtp_trace_announce [simp]: "rtp_trace (announce st) = []"
  by (simp add: announce_def)

text \<open>How often the library's lock is held after a trace.\<close>

fun lock_depth :: "action list \<Rightarrow> int" where
  "lock_depth [] = 0"
| "lock_depth (Lock # as) = 1 + lock_depth as"
| "lock_depth (Unlock # as) = lock_depth as - 1"
| "lock_depth (_ # as) = lock_depth as"

lemma lock_depth_append [simp]: "lock_depth (as @ bs) = lock_depth as + lock_depth bs"
  by (induction as rule: lock_depth.induct) simp_all

lemma lock_depth_map [simp]: "lock_depth (map Rtp as) = 0"
  by (induction as) simp_all

lemma lock_depth_announce [simp]: "lock_depth (announce st) = 0"
  by (simp add: announce_def)

text \<open>
  The contract: from a consistent state an operation leads to a consistent state along the machine's
  transitions, and the sessions it opens and closes are the ones the state accounts for.
\<close>

definition good :: "engine_op \<Rightarrow> bool" where
  "good f \<longleftrightarrow> (\<forall>s s' as. engine_ok s \<longrightarrow> f s = Inr (s', as) \<longrightarrow>
     engine_ok s' \<and> call_edge\<^sup>*\<^sup>* (currentState s) (currentState s') \<and>
     open_sessions s' = open_sessions s + sessions (rtp_trace as))"

lemma goodI:
  assumes "\<And>s s' as. engine_ok s \<Longrightarrow> f s = Inr (s', as) \<Longrightarrow> engine_ok s'"
    "\<And>s s' as. engine_ok s \<Longrightarrow> f s = Inr (s', as) \<Longrightarrow> call_edge\<^sup>*\<^sup>* (currentState s) (currentState s')"
    "\<And>s s' as. engine_ok s \<Longrightarrow> f s = Inr (s', as) \<Longrightarrow> open_sessions s' = open_sessions s + sessions (rtp_trace as)"
  shows "good f"
  using assms unfolding good_def by blast

lemma goodD:
  assumes "good f" "engine_ok s" "f s = Inr (s', as)"
  shows "engine_ok s'" "call_edge\<^sup>*\<^sup>* (currentState s) (currentState s')"
    "open_sessions s' = open_sessions s + sessions (rtp_trace as)"
  using assms unfolding good_def by blast+

lemma good_runs: "list_all good fs \<Longrightarrow> good (runs fs)"
proof (induction fs)
  case Nil
  then show ?case by (simp add: good_def)
next
  case (Cons f fs)
  then have f: "good f" and fs: "good (runs fs)" by simp_all
  show ?case
    unfolding good_def
  proof (intro allI impI)
    fix s s' as
    assume s: "engine_ok s" and r: "runs (f # fs) s = Inr (s', as)"
    from r obtain t bs cs where step: "f s = Inr (t, bs)" "runs fs t = Inr (s', cs)" "as = bs @ cs"
      by (auto simp: res_simps)
    note a = goodD [OF f s step(1)]
    note b = goodD [OF fs a(1) step(2)]
    from a b show "engine_ok s' \<and> call_edge\<^sup>*\<^sup>* (currentState s) (currentState s') \<and>
        open_sessions s' = open_sessions s + sessions (rtp_trace as)"
      by (simp add: step(3) sessions_append)
  qed
qed

lemma good_emit: "rtp_trace as = [] \<Longrightarrow> good (emit as)"
  unfolding good_def emit_def by auto

lemma good_event [simp]: "good (event e)"
  by (simp add: event_def good_emit)

lemma good_if:
  assumes "list_all good f" "list_all good g"
  shows "good (if_op b f g)"
proof -
  have fg: "good (runs f)" "good (runs g)" using assms by (simp_all only: good_runs)
  have eq: "if_op b f g s = (if b s then runs f s else runs g s)" for s by (simp only: if_op_def)
  show ?thesis
    unfolding good_def
  proof (intro allI impI)
    fix s s' as
    assume "engine_ok s" "if_op b f g s = Inr (s', as)"
    then show "engine_ok s' \<and> call_edge\<^sup>*\<^sup>* (currentState s) (currentState s') \<and>
        open_sessions s' = open_sessions s + sessions (rtp_trace as)"
      unfolding eq by (cases "b s") (metis goodD [OF fg(1)], metis goodD [OF fg(2)])
  qed
qed

lemma good_using: "(\<And>x. good (f x)) \<Longrightarrow> good (using_res r f)"
  unfolding good_def using_res_def by (cases r) auto

lemma good_using_state: "(\<And>x. good (f x)) \<Longrightarrow> good (\<lambda>s. using_res (r s) f s)"
  unfolding good_def using_res_def by (metis (no_types, lifting) bindR_eq_Inr)

lemma good_modify:
  assumes "\<And>s. currentState (f s) = currentState s" "\<And>s. e_audio (f s) = e_audio s" "\<And>s. e_video (f s) = e_video s"
  shows "good (modify f)"
  using assms by (simp add: good_def modify_def engine_ok_def open_sessions_def)

section \<open>Media\<close>

lemma setup_media_effect:
  assumes "setup_media env t incoming s = Inr (s', as)" "video_ok (e_video s)" "\<not> v_session (e_video s)"
  obtains a v where "s' = s\<lparr>e_audio := a, e_video := v\<rparr>" "a_session a" "ringback a = ringback (e_audio s)"
    "video_ok v" "sessions (rtp_trace as) = 1 + of_bool (v_session v)" "lock_depth as = 0"
proof -
  let ?r = "en_remote env t"
  from assms(1) obtain a aa v vs where
    a: "rtpAudioSetup (remote_part audio_con ?r) (remote_part audio_media ?r) (getAudioPort (e_ports s))
        (en_thread env ''AudioRecv'') (en_thread env ''AudioSend'') incoming (e_audio s) = Inr (a, aa)" and
    v: "rtpVideoSetup (remote_part video_con ?r) (remote_part video_media ?r) (getVideoPort (e_ports s))
        (en_thread env ''VideoRecv'') (en_thread env ''VideoSend'') incoming (e_video s) = Inr (v, vs)" and
    s': "s' = s\<lparr>e_audio := a, e_video := v\<rparr>" "as = map Rtp (aa @ vs)"
    by (auto simp: setup_media_def Let_def res_simps)
  have audio: "a_session a" "ringback a = ringback (e_audio s)" "sessions aa = 1"
    using a by (auto simp: rtpAudioSetup_def Let_def res_simps)
  note video = rtpVideoSetup_ok [OF v assms(2)]
  have "sessions vs = of_bool (v_session v)"
    using video assms(3) by (cases "vs = []") auto
  then have "sessions (rtp_trace as) = 1 + of_bool (v_session v)"
    using s'(2) audio(3) by (simp add: sessions_append del: map_append)
  moreover have "lock_depth as = 0" using s'(2) by (simp del: map_append)
  ultimately show thesis by (rule that [OF s'(1) audio(1,2) video(1)])
qed

lemma stop_media_effect:
  assumes "stop_media s = Inr (s', as)" "video_ok (e_video s)"
  obtains a v where "s' = s\<lparr>e_audio := a, e_video := v\<rparr>" "\<not> a_session a" "ringback a = ringback (e_audio s)"
    "video_ok v" "\<not> v_session v" "sessions (rtp_trace as) = - 1 - of_bool (v_session (e_video s))" "lock_depth as = 0"
proof -
  from assms(1) have s': "s' = s\<lparr>e_audio := fst (rtpAudioStop (e_audio s)), e_video := fst (rtpVideoStop (e_video s))\<rparr>"
      "as = map Rtp (snd (rtpAudioStop (e_audio s))) @ map Rtp (snd (rtpVideoStop (e_video s)))"
    by (auto simp: stop_media_def on_audio_def on_video_def split_def Let_def)
  have audio: "\<not> a_session (fst (rtpAudioStop (e_audio s)))"
      "ringback (fst (rtpAudioStop (e_audio s))) = ringback (e_audio s)"
      "sessions (snd (rtpAudioStop (e_audio s))) = - 1"
    by (simp_all add: rtpAudioStop_def)
  have "sessions (rtp_trace as) = - 1 - of_bool (v_session (e_video s))" "lock_depth as = 0"
    using s'(2) audio(3) rtpVideoStop_ok [OF assms(2)] by (simp_all add: sessions_append)
  with that [OF s'(1)] audio rtpVideoStop_ok [OF assms(2)] show thesis by simp
qed

section \<open>Every operation keeps the contract\<close>

text \<open>
  An operation that touches no session: it stays in its state, or takes one transition between
  states without media, and starts no ringback.
\<close>

definition plain :: "engine \<Rightarrow> engine \<Rightarrow> action list \<Rightarrow> bool" where
  "plain s s' as \<longleftrightarrow>
     rtp_trace as = [] \<and> e_video s' = e_video s \<and> a_session (e_audio s') = a_session (e_audio s) \<and>
     (ringback (e_audio s') \<longrightarrow> ringback (e_audio s)) \<and>
     (currentState s' = currentState s \<or>
      call_edge (currentState s) (currentState s') \<and> currentState s \<noteq> eANSWERED \<and> currentState s' \<noteq> eANSWERED \<and>
      (ringback (e_audio s') \<longrightarrow> currentState s' \<noteq> eREGISTERED))"

lemma plain_good:
  assumes "engine_ok s" "plain s s' as"
  shows "engine_ok s' \<and> call_edge\<^sup>*\<^sup>* (currentState s) (currentState s') \<and>
      open_sessions s' = open_sessions s + sessions (rtp_trace as)"
proof (cases "currentState s' = currentState s")
  case True
  with assms show ?thesis by (simp add: plain_def engine_ok_def open_sessions_def del: call_edge_simps)
next
  case False
  with assms(2) have e: "call_edge (currentState s) (currentState s')" "currentState s \<noteq> eANSWERED"
      "currentState s' \<noteq> eANSWERED" "ringback (e_audio s') \<longrightarrow> currentState s' \<noteq> eREGISTERED"
    by (simp_all add: plain_def del: call_edge_simps)
  with assms have "engine_ok s'" "open_sessions s' = open_sessions s"
    by (auto simp: plain_def engine_ok_def open_sessions_def)
  with assms(2) e(1) show ?thesis by (simp add: plain_def r_into_rtranclp del: call_edge_simps)
qed

lemma good_plain: "(\<And>s s' as. f s = Inr (s', as) \<Longrightarrow> plain s s' as) \<Longrightarrow> good f"
  using plain_good unfolding good_def by blast

lemma rtp_trace_publish [simp]: "rtp_trace (map Publish as) = []"
  by (induction as) simp_all

lemma lock_depth_publish [simp]: "lock_depth (map Publish as) = 0"
  by (induction as) simp_all

lemma plain_makeCall: "makeCall env user s = Inr (s', as) \<Longrightarrow> plain s s' as"
  by (auto simp: makeCall_def op_defs local_sdp_def res_simps plain_def split: if_split_asm)

lemma good_makeCall: "good (makeCall env user)"
  by (rule good_plain) (rule plain_makeCall)

lemma plain_answerCall: "answerCall env s = Inr (s', as) \<Longrightarrow> plain s s' as"
  by (auto simp: answerCall_def op_defs local_sdp_def res_simps plain_def split: if_split_asm)

lemma good_answerCall: "good (answerCall env)"
  by (rule good_plain) (rule plain_answerCall)

lemma good_subscription_notify: "good (subscription_notify je)"
  by (auto simp: subscription_notify_def good_emit split: option.split)

lemma plain_subscription_new: "subscription_new env je s = Inr (s', as) \<Longrightarrow> plain s s' as"
  by (auto simp: subscription_new_def Let_def op_defs return_from_thread_def plain_def split: if_split_asm)

lemma good_subscription_new: "good (subscription_new env je)"
  by (rule good_plain) (rule plain_subscription_new)

lemma plain_register_step: "register_step env s = Inr (s', as) \<Longrightarrow> plain s s' as"
  by (auto simp: register_step_def op_defs return_from_thread_def res_simps plain_def split: if_split_asm)

lemma good_register_step: "good (register_step env)"
  by (rule good_plain) (rule plain_register_step)

lemma hangup_eq:
  assumes "currentState s \<in> {eIN_CALL, eINCOMING_CALL}"
  shows "hangupCall s = Inr (enter_state eREGISTERED (s\<lparr>cid := 0, did := 0\<rparr>),
    [Lock, Call_terminate (cid s) (did s), Unlock] @ announce eREGISTERED)"
  using assms by (auto simp: hangupCall_def op_defs ChangeState_eq)

lemma hangup_idle:
  "currentState s \<notin> {eIN_CALL, eINCOMING_CALL, eANSWERED} \<Longrightarrow> hangupCall s = Inr (s, [])"
  by (simp add: hangupCall_def op_defs)

lemma hangup_answered:
  assumes "currentState s = eANSWERED" "stop_media s = Inr (t, bs)"
  shows "hangupCall s = Inr (enter_state eREGISTERED (t\<lparr>cid := 0, did := 0\<rparr>),
    bs @ [Lock, Call_terminate (cid s) (did s), Unlock] @ announce eREGISTERED)"
proof -
  have "currentState t = eANSWERED" "cid t = cid s" "did t = did s"
    using assms by (auto simp: stop_media_def on_audio_def on_video_def split_def Let_def)
  then show ?thesis using assms by (simp add: hangupCall_def op_defs ChangeState_eq)
qed

text \<open>Leaving an established call: the media stop and the engine is registered again.\<close>

lemma clear_ok:
  assumes "engine_ok s" "currentState s = eANSWERED" "stop_media s = Inr (t, bs)"
    "e_audio u = e_audio t" "e_video u = e_video t" "rtp_trace as = rtp_trace bs"
  shows "engine_ok (enter_state eREGISTERED u) \<and>
    call_edge\<^sup>*\<^sup>* (currentState s) (currentState (enter_state eREGISTERED u)) \<and>
    open_sessions (enter_state eREGISTERED u) = open_sessions s + sessions (rtp_trace as)"
proof -
  have ok: "video_ok (e_video s)" "a_session (e_audio s)" using assms(1,2) by (simp_all add: engine_ok_def)
  from stop_media_effect [OF assms(3) ok(1)] obtain a v where
    t: "t = s\<lparr>e_audio := a, e_video := v\<rparr>" "\<not> a_session a" "video_ok v" "\<not> v_session v"
      "sessions (rtp_trace bs) = - 1 - of_bool (v_session (e_video s))" by metis
  then have "engine_ok (enter_state eREGISTERED u)" "open_sessions (enter_state eREGISTERED u) = 0"
    using assms(4,5) by (simp_all add: engine_ok_def open_sessions_def)
  moreover have "call_edge (currentState s) eREGISTERED" using assms(2) by simp
  ultimately show ?thesis using t(5) ok assms(6) by (simp add: open_sessions_def r_into_rtranclp del: call_edge_simps)
qed

text \<open>Stopping the media cannot fail.\<close>

lemma stop_media_total: "\<exists>t bs. stop_media s = Inr (t, bs)"
  by (simp add: stop_media_def on_audio_def on_video_def split_def Let_def)

lemma good_hangupCall: "good hangupCall"
  unfolding good_def
proof (intro allI impI)
  fix s s' as
  assume s: "engine_ok s" "hangupCall s = Inr (s', as)"
  consider "currentState s = eANSWERED" | "currentState s \<in> {eIN_CALL, eINCOMING_CALL}"
    | "currentState s \<notin> {eIN_CALL, eINCOMING_CALL, eANSWERED}" by auto
  then show "engine_ok s' \<and> call_edge\<^sup>*\<^sup>* (currentState s) (currentState s') \<and>
      open_sessions s' = open_sessions s + sessions (rtp_trace as)"
  proof cases
    case 1
    obtain t bs where st: "stop_media s = Inr (t, bs)" using stop_media_total by blast
    from hangup_answered [OF 1 st] s(2)
    have "s' = enter_state eREGISTERED (t\<lparr>cid := 0, did := 0\<rparr>)" "rtp_trace as = rtp_trace bs" by auto
    with clear_ok [OF s(1) 1 st, of "t\<lparr>cid := 0, did := 0\<rparr>" as] show ?thesis by simp
  next
    case 2
    with s(2) hangup_eq [OF 2] have "plain s s' as" by (auto simp: plain_def)
    with s(1) show ?thesis by (rule plain_good)
  next
    case 3
    with s(2) hangup_idle [OF 3] have "plain s s' as" by (simp add: plain_def)
    with s(1) show ?thesis by (rule plain_good)
  qed
qed

lemma plain_disconnect_tail:
  "if_op (\<lambda>s. currentState s = eREGISTERED)
     [ChangeState eDISCONNECTING, emit [Lock],
      \<lambda>s. emit [Register_build (rid s) 0, Register_send (rid s)] s, emit [Lock]]
     [if_op (\<lambda>s. 0 < callThid s) [modify (\<lambda>s. s\<lparr>quit := True\<rparr>)]
        [emit [Close_log], modify (\<lambda>s. s\<lparr>callback_done := True\<rparr>)]] s = Inr (s', as) \<Longrightarrow> plain s s' as"
  by (auto simp: op_defs res_simps plain_def split: if_split_asm)

lemma good_disconnect: "good disconnectSipServer"
proof -
  have "good (if_op (\<lambda>s. currentState s = eIN_CALL \<or> currentState s = eANSWERED) [hangupCall] [])"
    by (rule good_if) (simp_all add: good_hangupCall)
  moreover note good_plain [OF plain_disconnect_tail]
  ultimately show ?thesis unfolding disconnectSipServer_def by (intro good_runs) simp
qed

lemma good_GuiCallback: "good (GuiCallback env ev)"
proof -
  have call: "good (using_res (call_address a) (\<lambda>a. runs [event (InfoMessage (f a)), makeCall env a]))" for a f
    by (intro good_using good_runs) (simp add: good_makeCall)
  have presence: "good (\<lambda>s. using_res (update_presence (en_publish env) (e_config s) p) (\<lambda>acts. emit (map Publish acts)) s)" for p
    by (rule good_using_state) (simp add: good_emit)
  have flag: "good (modify (\<lambda>s. s\<lparr>callback_done := b\<rparr>))" for b
    by (rule good_modify) simp_all
  show ?thesis
    unfolding GuiCallback_def
    by (intro good_runs)
       (cases ev; simp add: call presence flag good_answerCall good_hangupCall good_disconnect good_emit)
qed

section \<open>The event handlers\<close>

lemma plain_handle_registering:
  "currentState s = eREGISTERING \<Longrightarrow> handle_registering je s = Inr (s', as) \<Longrightarrow> plain s s' as"
  by (auto simp: handle_registering_def op_defs res_simps plain_def split: event_type.split_asm if_split_asm)

lemma plain_invite:
  "currentState s = eREGISTERED \<Longrightarrow> ev_type je = EXOSIP_CALL_INVITE \<Longrightarrow>
   handle_registered env je s = Inr (s', as) \<Longrightarrow> plain s s' as"
  by (auto simp: handle_registered_def op_defs res_simps plain_def)

lemma good_handle_registered:
  assumes "engine_ok s" "currentState s = eREGISTERED" "handle_registered env je s = Inr (s', as)"
  shows "engine_ok s' \<and> call_edge\<^sup>*\<^sup>* (currentState s) (currentState s') \<and>
    open_sessions s' = open_sessions s + sessions (rtp_trace as)"
proof (cases "ev_type je = EXOSIP_CALL_INVITE")
  case True
  show ?thesis by (rule plain_good [OF assms(1) plain_invite [OF assms(2) True assms(3)]])
next
  case False
  then have "handle_registered env je \<in> {subscription_notify je, subscription_new env je, emit []}"
    by (cases "ev_type je") (simp_all add: handle_registered_def)
  then have "good (handle_registered env je)"
    using good_subscription_notify [of je] good_subscription_new [of env je] good_emit [of "[]"] by auto
  with assms(1,3) show ?thesis unfolding good_def by blast
qed

text \<open>Establishing a call: the media start in a state that has none.\<close>

lemma establish_ok:
  assumes "engine_ok s" "currentState s = eIN_CALL \<or> currentState s = eINCOMING_CALL"
    "e_audio t = e_audio s" "e_video t = e_video s" "setup_media env n incoming t = Inr (u, bs)"
    "rtp_trace as = rtp_trace bs"
  shows "engine_ok (enter_state eANSWERED u) \<and>
    call_edge\<^sup>*\<^sup>* (currentState s) (currentState (enter_state eANSWERED u)) \<and>
    open_sessions (enter_state eANSWERED u) = open_sessions s + sessions (rtp_trace as)"
proof -
  have idle: "video_ok (e_video s)" "\<not> v_session (e_video s)" "\<not> a_session (e_audio s)"
    using assms(1,2) by (auto simp: engine_ok_def)
  with assms(4) have "video_ok (e_video t)" "\<not> v_session (e_video t)" by simp_all
  from setup_media_effect [OF assms(5) this] obtain a v where
    u: "u = t\<lparr>e_audio := a, e_video := v\<rparr>" "a_session a" "video_ok v"
      "sessions (rtp_trace bs) = 1 + of_bool (v_session v)" by metis
  then have "engine_ok (enter_state eANSWERED u)"
      "open_sessions (enter_state eANSWERED u) = 1 + of_bool (v_session v)"
    by (simp_all add: engine_ok_def open_sessions_def)
  moreover have "call_edge (currentState s) eANSWERED" using assms(2) by auto
  ultimately show ?thesis
    using u(4) idle assms(6) by (simp add: open_sessions_def r_into_rtranclp del: call_edge_simps)
qed

lemma ringing_ok:
  assumes "engine_ok s" "currentState s = eIN_CALL \<or> currentState s = eINCOMING_CALL"
    "currentState s' = currentState s" "e_video s' = e_video s" "a_session (e_audio s') = a_session (e_audio s)"
    "sessions (rtp_trace as) = 0"
  shows "engine_ok s' \<and> call_edge\<^sup>*\<^sup>* (currentState s) (currentState s') \<and>
    open_sessions s' = open_sessions s + sessions (rtp_trace as)"
  using assms by (auto simp: engine_ok_def open_sessions_def simp del: call_edge_simps)

lemma good_handle_in_call:
  assumes "engine_ok s" "currentState s = eIN_CALL \<or> currentState s = eINCOMING_CALL"
    "handle_in_call env je s = Inr (s', as)"
  shows "engine_ok s' \<and> call_edge\<^sup>*\<^sup>* (currentState s) (currentState s') \<and>
    open_sessions s' = open_sessions s + sessions (rtp_trace as)"
proof -
  consider (ring) "ev_type je = EXOSIP_CALL_RINGING" | (answered) "ev_type je = EXOSIP_CALL_ANSWERED"
    | (ack) "ev_type je = EXOSIP_CALL_ACK" | (notify) "ev_type je = EXOSIP_SUBSCRIPTION_NOTIFY"
    | (subscribe) "ev_type je = EXOSIP_IN_SUBSCRIPTION_NEW"
    | (other) "ev_type je \<notin> {EXOSIP_CALL_RINGING, EXOSIP_CALL_ANSWERED, EXOSIP_CALL_ACK,
        EXOSIP_SUBSCRIPTION_NOTIFY, EXOSIP_IN_SUBSCRIPTION_NEW}"
    by blast
  then show ?thesis
  proof cases
    case ring
    with assms(3) show ?thesis
      by (intro ringing_ok [OF assms(1,2)])
         (auto simp: handle_in_call_def op_defs playRingback_def Let_def split: if_split_asm)
  next
    case answered
    with assms(3) obtain bs u cs where "setup_media env (ev_tid je) False s = Inr (u, bs)"
        "s' = enter_state eANSWERED u" "as = cs @ [Lock, Call_ack (ev_did je), Unlock] @ bs @ announce eANSWERED"
        "rtp_trace cs = []"
      by (auto simp: handle_in_call_def notify_proc_def op_defs res_simps split: if_split_asm)
    with establish_ok [OF assms(1,2) refl refl, of env "ev_tid je" False u bs as] show ?thesis by simp
  next
    case ack
    with assms(3) obtain bs u where
        "setup_media env (ev_tid je) True (s\<lparr>cid := ev_cid je, did := ev_did je\<rparr>) = Inr (u, bs)"
        "s' = enter_state eANSWERED u" "as = bs @ announce eANSWERED"
      by (auto simp: handle_in_call_def op_defs res_simps)
    with establish_ok [OF assms(1,2), of "s\<lparr>cid := ev_cid je, did := ev_did je\<rparr>" env "ev_tid je" True u bs as]
    show ?thesis by simp
  next
    case notify
    then have "handle_in_call env je = subscription_notify je" by (simp add: handle_in_call_def Let_def)
    with assms(1,3) good_subscription_notify [of je] show ?thesis unfolding good_def by metis
  next
    case subscribe
    then have "handle_in_call env je = subscription_new env je" by (simp add: handle_in_call_def Let_def)
    with assms(1,3) good_subscription_new [of env je] show ?thesis unfolding good_def by metis
  next
    case other
    then have "handle_in_call env je \<in> {ChangeState eREGISTERED,
        runs [event (ErrorMessage ''Call failed''), ChangeState eREGISTERED], emit []}"
      by (cases "ev_type je") (simp_all add: handle_in_call_def Let_def)
    with assms(2,3) have "plain s s' as"
      by (auto simp: op_defs ChangeState_eq plain_def)
    with assms(1) show ?thesis by (rule plain_good)
  qed
qed

lemma good_handle_answered:
  assumes "engine_ok s" "currentState s = eANSWERED" "handle_answered je s = Inr (s', as)"
  shows "engine_ok s' \<and> call_edge\<^sup>*\<^sup>* (currentState s) (currentState s') \<and>
    open_sessions s' = open_sessions s + sessions (rtp_trace as)"
proof (cases "ev_type je = EXOSIP_CALL_CLOSED")
  case True
  with assms(3) obtain t bs cs where st: "stop_media s = Inr (t, bs)"
      "s' = enter_state eREGISTERED (t\<lparr>cid := 0, tid := 0, did := 0\<rparr>)" "as = cs @ bs @ announce eREGISTERED"
      "rtp_trace cs = []"
    by (auto simp: handle_answered_def notify_proc_def op_defs res_simps split: if_split_asm)
  with clear_ok [OF assms(1,2) st(1), of "t\<lparr>cid := 0, tid := 0, did := 0\<rparr>" as] show ?thesis by simp
next
  case False
  then have "handle_answered je = emit []" by (cases "ev_type je") (simp_all add: handle_answered_def)
  with assms(1,3) good_emit [of "[]"] show ?thesis unfolding good_def by fastforce
qed

lemma plain_handle_disconnecting:
  "currentState s = eDISCONNECTING \<Longrightarrow> handle_disconnecting je s = Inr (s', as) \<Longrightarrow> plain s s' as"
  by (auto simp: handle_disconnecting_def op_defs res_simps plain_def split: if_split_asm)

lemma good_handle_event: "good (handle_event env je)"
proof -
  have info: "good (using_res (format_noargs t) (\<lambda>t. event (InfoMessage t)))" for t
    by (rule good_using) simp
  have "good (\<lambda>s. (case currentState s of
           eNOT_REGISTERED \<Rightarrow> emit []
         | eREGISTERING \<Rightarrow> handle_registering je
         | eREGISTERED \<Rightarrow> handle_registered env je
         | eIN_CALL \<Rightarrow> handle_in_call env je
         | eINCOMING_CALL \<Rightarrow> handle_in_call env je
         | eANSWERED \<Rightarrow> handle_answered je
         | eDISCONNECTING \<Rightarrow> handle_disconnecting je) s)" (is "good ?h")
    unfolding good_def
  proof (intro allI impI)
    fix s s' as
    assume s: "engine_ok s" "?h s = Inr (s', as)"
    show "engine_ok s' \<and> call_edge\<^sup>*\<^sup>* (currentState s) (currentState s') \<and>
        open_sessions s' = open_sessions s + sessions (rtp_trace as)"
    proof (cases "currentState s")
      case eNOT_REGISTERED
      with s show ?thesis by (simp add: emit_def)
    next
      case eREGISTERING
      with s show ?thesis by (intro plain_good plain_handle_registering [of s je]) simp_all
    next
      case eREGISTERED
      with s show ?thesis by (intro good_handle_registered [of s env je]) simp_all
    next
      case eIN_CALL
      with s show ?thesis by (intro good_handle_in_call [of s env je]) simp_all
    next
      case eINCOMING_CALL
      with s show ?thesis by (intro good_handle_in_call [of s env je]) simp_all
    next
      case eANSWERED
      with s show ?thesis by (intro good_handle_answered [of s je]) simp_all
    next
      case eDISCONNECTING
      with s show ?thesis by (intro plain_good plain_handle_disconnecting [of s je]) simp_all
    qed
  qed
  with info show ?thesis unfolding handle_event_def by (intro good_runs) simp
qed

section \<open>The thread's loop over parts that keep the contract\<close>

text \<open>
  What the loop relies on: the callback of the user interface, the registration at its head and the
  handler of SIP events each keep the contract.
\<close>

locale thread_parts =
  fixes gui :: "out_event \<Rightarrow> engine_op"
    and register :: engine_op
    and handle :: "exosip_event \<Rightarrow> engine_op"
  assumes gui_good: "good (gui ev)"
    and register_good: "good register"
    and handle_good: "good (handle je)"
begin

lemma round_good:
  "good (runs [case pending of None \<Rightarrow> emit [] | Some ev \<Rightarrow> gui ev, register,
     if_op (\<lambda>s. thread s = Running) [emit [Lock, Automatic, Unlock],
       case je of None \<Rightarrow> emit [] | Some e \<Rightarrow> handle e] []])"
proof -
  have "good (case pending of None \<Rightarrow> emit [] | Some ev \<Rightarrow> gui ev)" for pending
    by (cases pending) (simp_all add: good_emit gui_good)
  moreover have "good (if_op (\<lambda>s. thread s = Running) [emit [Lock, Automatic, Unlock],
       case je of None \<Rightarrow> emit [] | Some e \<Rightarrow> handle e] [])"
    by (rule good_if) (cases je; simp add: good_emit handle_good)+
  ultimately show ?thesis by (intro good_runs) (simp add: register_good)
qed

end

interpretation engine_thread: thread_parts "GuiCallback env" "register_step env" "handle_event env" for env
  by unfold_locales (rule good_GuiCallback good_register_step good_handle_event)+

lemma good_CallThread_round: "good (CallThread_round env pending je)"
  unfolding CallThread_round_def by (rule engine_thread.round_good)

lemma good_CallThread_step: "good (CallThread_step env pending je)"
proof -
  have "good CallThread_leave"
    unfolding CallThread_leave_def by (intro good_runs) (simp add: good_emit good_modify)
  then show ?thesis
    unfolding CallThread_step_def by (intro good_if) (simp_all add: good_CallThread_round)
qed

text \<open>
  The runs of the thread: its entry, then steps while it has not returned; between them the user
  interface's thread may return from its wait.
\<close>

inductive call_run :: "engine \<Rightarrow> action list \<Rightarrow> engine \<Rightarrow> bool" where
  start: "runs [setupCallThread thid, CallThread_enter env] (engine_initial c) = Inr (s, as) \<Longrightarrow>
    call_run (engine_initial c) as s"
| step: "call_run s0 as s \<Longrightarrow> thread s = Running \<Longrightarrow> CallThread_step env pending je s = Inr (s', bs) \<Longrightarrow>
    call_run s0 (as @ bs) s'"
| gui_return: "call_run s0 as s \<Longrightarrow> callback_done s \<Longrightarrow> SIPEngineDoEvent_return s = Inr (s', bs) \<Longrightarrow>
    call_run s0 (as @ bs) s'"

lemma engine_initial_ok: "engine_ok (engine_initial c)" "open_sessions (engine_initial c) = 0"
  by (simp_all add: engine_ok_def engine_initial_def audio_initial_def video_initial_def video_ok_def open_sessions_def)

lemma good_start: "good (runs [setupCallThread thid, CallThread_enter env])"
proof -
  have "good (setupCallThread thid)" "good (CallThread_enter env)"
    unfolding setupCallThread_def CallThread_enter_def
    by (intro good_runs; simp add: good_emit good_modify)+
  then show ?thesis by (intro good_runs) simp
qed

lemma good_gui_return: "good SIPEngineDoEvent_return"
  unfolding SIPEngineDoEvent_return_def by (rule good_modify) simp_all

lemma call_run_contract:
  "call_run s0 as s \<Longrightarrow> engine_ok s0 \<Longrightarrow> open_sessions s0 = 0 \<Longrightarrow>
    engine_ok s \<and> call_edge\<^sup>*\<^sup>* (currentState s0) (currentState s) \<and> sessions (rtp_trace as) = open_sessions s"
proof (induction rule: call_run.induct)
  case (start thid env c s as)
  from goodD [OF good_start start(2,1)] start(2,3) show ?case by (simp del: call_edge_simps)
next
  case (step s0 as s env pending je s' bs)
  then have IH: "engine_ok s" "call_edge\<^sup>*\<^sup>* (currentState s0) (currentState s)" "sessions (rtp_trace as) = open_sessions s"
    by (simp_all del: call_edge_simps)
  note g = goodD [OF good_CallThread_step IH(1) step(3)]
  from IH g show ?case by (simp add: sessions_append del: call_edge_simps)
next
  case (gui_return s0 as s s' bs)
  then have IH: "engine_ok s" "call_edge\<^sup>*\<^sup>* (currentState s0) (currentState s)" "sessions (rtp_trace as) = open_sessions s"
    by (simp_all del: call_edge_simps)
  note g = goodD [OF good_gui_return IH(1) gui_return(3)]
  from IH g show ?case by (simp add: sessions_append del: call_edge_simps)
qed

text \<open>Surroundings in which every request succeeds, for evaluating the model.\<close>

definition example_env :: call_env where
  "example_env = \<lparr>en_callback = 1, en_register = 1, en_insub_build = 0, en_insub_send = 0, en_invite = True,
     en_sdp = \<lparr>guess_localip = ''10.0.0.2'', stun_mapping = (\<lambda>server port local. (0, 0))\<rparr>,
     en_remote = (\<lambda>t. Some \<lparr>audio_con = Some ''10.0.0.3'',
       audio_media = Some \<lparr>m_payloads = [''0''], m_port = ''4000''\<rparr>, video_con = None, video_media = None\<rparr>),
     en_thread = (\<lambda>name. 1), en_publish = 0\<rparr>"

definition example_event :: "event_type \<Rightarrow> exosip_event" where
  "example_event t = \<lparr>ev_type = t, textinfo = ''event'', ev_tid = 1, ev_did = 2, ev_rid = 3, ev_cid = 4,
     displayname = None, body = None\<rparr>"

definition result_of :: "('s \<times> 'a list) res \<Rightarrow> 's \<times> 'a list" where
  "result_of r = (case r of Inr x \<Rightarrow> x | Inl f \<Rightarrow> undefined)"

lemma result_of_eq: "\<not> isl r \<Longrightarrow> r = Inr (fst (result_of r), snd (result_of r))"
  by (cases r) (simp_all add: result_of_def)

definition example_start :: engine where
  "example_start = fst (result_of (runs [setupCallThread 1, CallThread_enter example_env] (engine_initial config_initial)))"





section \<open>The lock\<close>

lemmas lock_simps = op_defs res_simps return_from_thread_def local_sdp_def

lemma lock_hangup: "hangupCall s = Inr (s', as) \<Longrightarrow> lock_depth as = 0"
  by (auto simp: hangupCall_def stop_media_def lock_simps split_def Let_def split: if_split_asm)

lemma lock_makeCall: "makeCall env u s = Inr (s', as) \<Longrightarrow> lock_depth as = 0"
  by (auto simp: makeCall_def lock_simps split: if_split_asm)

lemma lock_answerCall: "answerCall env s = Inr (s', as) \<Longrightarrow> lock_depth as = 0"
  by (auto simp: answerCall_def lock_simps split: if_split_asm)

lemma hangup_state:
  "hangupCall s = Inr (s', as) \<Longrightarrow>
    currentState s' = (if currentState s \<in> {eIN_CALL, eINCOMING_CALL, eANSWERED} then eREGISTERED else currentState s)"
  by (auto simp: hangupCall_def stop_media_def lock_simps split_def Let_def split: if_split_asm)

lemma lock_disconnect:
  assumes "disconnectSipServer s = Inr (s', as)"
  shows "lock_depth as = (if currentState s \<in> {eREGISTERED, eIN_CALL, eANSWERED} then 2 else 0)"
proof -
  from assms obtain t bs cs where
    h: "if_op (\<lambda>s. currentState s = eIN_CALL \<or> currentState s = eANSWERED) [hangupCall] [] s = Inr (t, bs)" and
    tail: "if_op (\<lambda>s. currentState s = eREGISTERED)
         [ChangeState eDISCONNECTING, emit [Lock],
          \<lambda>s. emit [Register_build (rid s) 0, Register_send (rid s)] s, emit [Lock]]
         [if_op (\<lambda>s. 0 < callThid s) [modify (\<lambda>s. s\<lparr>quit := True\<rparr>)]
            [emit [Close_log], modify (\<lambda>s. s\<lparr>callback_done := True\<rparr>)]] t = Inr (s', cs)" and
    as: "as = bs @ cs"
    by (auto simp: disconnectSipServer_def bindR_eq_Inr)
  have "lock_depth bs = 0"
    using h lock_hangup [of s t bs] by (auto simp: if_op_def split: if_split_asm)
  moreover have "currentState t = eREGISTERED \<longleftrightarrow> currentState s \<in> {eREGISTERED, eIN_CALL, eANSWERED}"
    using h hangup_state [of s t bs] by (auto simp: if_op_def split: if_split_asm)
  moreover have "lock_depth cs = (if currentState t = eREGISTERED then 2 else 0)"
    using tail by (auto simp: lock_simps split: if_split_asm)
  ultimately show ?thesis using as by simp
qed

lemma lock_GuiCallback:
  assumes "GuiCallback env ev s = Inr (s', as)"
  shows "lock_depth as = (if ev = OUT_SHUTDOWN \<and> currentState s \<in> {eREGISTERED, eIN_CALL, eANSWERED} then 2 else 0)"
proof -
  from assms obtain t bs where
    ev: "(case ev of
         OUT_NEW_CALL lAddress \<Rightarrow> using_res (call_address lAddress) (\<lambda>a.
           runs [event (InfoMessage (''Call '' @ [CHR 0x27] @ a @ [CHR 0x27])), makeCall env a])
       | OUT_ANSWER \<Rightarrow> answerCall env
       | OUT_REJECT \<Rightarrow> hangupCall
       | OUT_HANGUP \<Rightarrow> hangupCall
       | OUT_CHANGE_PRESENCE presence \<Rightarrow> (\<lambda>s.
           using_res (update_presence (en_publish env) (e_config s) presence) (\<lambda>acts. emit (map Publish acts)) s)
       | OUT_SHUTDOWN \<Rightarrow> disconnectSipServer
       | OUT_OTHER n \<Rightarrow> emit []) s = Inr (t, bs)" and as: "as = bs"
    unfolding GuiCallback_def by (auto simp: bindR_eq_Inr modify_def)
  show ?thesis
    using ev unfolding as
    by (cases ev)
       (auto simp: lock_hangup lock_answerCall lock_disconnect lock_makeCall using_res_def bindR_eq_Inr event_def emit_def)
qed

lemma lock_register_step: "register_step env s = Inr (s', as) \<Longrightarrow> lock_depth as = 0"
  by (auto simp: register_step_def lock_simps split: if_split_asm)

lemma lock_setup_media: "setup_media env t i s = Inr (s', as) \<Longrightarrow> lock_depth as = 0"
  by (auto simp: setup_media_def Let_def res_simps simp del: map_append)

lemma lock_stop_media: "stop_media s = Inr (s', as) \<Longrightarrow> lock_depth as = 0"
  by (auto simp: stop_media_def lock_simps split_def Let_def)

definition framed :: "engine \<Rightarrow> engine \<Rightarrow> action list \<Rightarrow> bool" where
  "framed s s' as \<longleftrightarrow> thread s' = thread s \<and> lock_depth as = 0 \<and> callback_done s' = callback_done s"

lemma framed_setup: "setup_media env t i s = Inr (s', as) \<Longrightarrow> framed s s' as"
  using lock_setup_media [of env t i s s' as] by (auto simp: setup_media_def res_simps Let_def framed_def)

lemma framed_stop: "stop_media s = Inr (s', as) \<Longrightarrow> framed s s' as"
  using lock_stop_media [of s s' as]
  by (auto simp: stop_media_def on_audio_def on_video_def Let_def split_def framed_def)

lemma framed_audio: "on_audio f s = Inr (s', as) \<Longrightarrow> framed s s' as"
  by (auto simp: on_audio_def Let_def split_def framed_def)

lemma framed_notify: "notify_proc p s = Inr (s', as) \<Longrightarrow> framed s s' as"
  by (auto simp: notify_proc_def if_op_def emit_def framed_def split: if_split_asm)

lemmas frames = framed_setup [unfolded framed_def] framed_stop [unfolded framed_def]
  framed_audio [unfolded framed_def] framed_notify [unfolded framed_def]

text \<open>Handlers that neither hold the lock nor return from the thread.\<close>

definition balanced :: "engine \<Rightarrow> engine \<Rightarrow> action list \<Rightarrow> bool" where
  "balanced s s' as \<longleftrightarrow> callback_done s' = callback_done s \<and> (thread s = Running \<longrightarrow>
     (thread s' = Running \<and> lock_depth as = 0) \<or> (thread s' = Returned 0 \<and> lock_depth as = 1))"

lemma balanced_subscription_new: "subscription_new env je s = Inr (s', as) \<Longrightarrow> balanced s s' as"
  by (auto simp: subscription_new_def Let_def lock_simps balanced_def split: if_split_asm)

lemma balanced_subscription_notify: "subscription_notify je s = Inr (s', as) \<Longrightarrow> balanced s s' as"
  by (auto simp: subscription_notify_def lock_simps balanced_def split: option.split_asm)

lemmas balanced_parts = balanced_subscription_new balanced_subscription_notify

lemma balanced_registering: "handle_registering je s = Inr (s', as) \<Longrightarrow> balanced s s' as"
  by (auto simp: handle_registering_def lock_simps balanced_def split: event_type.split_asm if_split_asm)

lemma balanced_registered: "handle_registered env je s = Inr (s', as) \<Longrightarrow> balanced s s' as"
  by (cases "ev_type je") (auto simp: handle_registered_def lock_simps balanced_def dest!: balanced_parts)

lemma balanced_in_call: "handle_in_call env je s = Inr (s', as) \<Longrightarrow> balanced s s' as"
  by (cases "ev_type je")
     (auto simp: handle_in_call_def Let_def bindR_eq_Inr event_def emit_def modify_def ChangeState_eq balanced_def
        dest!: balanced_parts frames)

lemma balanced_answered: "handle_answered je s = Inr (s', as) \<Longrightarrow> balanced s s' as"
  by (cases "ev_type je")
     (auto simp: handle_answered_def bindR_eq_Inr emit_def modify_def ChangeState_eq balanced_def
        dest!: frames)

lemma balanced_disconnecting: "handle_disconnecting je s = Inr (s', as) \<Longrightarrow> balanced s s' as"
  by (auto simp: handle_disconnecting_def lock_simps balanced_def split: if_split_asm)

lemma balanced_handle_event:
  assumes "handle_event env je s = Inr (s', as)"
  shows "balanced s s' as"
proof -
  from assms obtain as' where "(case currentState s of
           eNOT_REGISTERED \<Rightarrow> emit []
         | eREGISTERING \<Rightarrow> handle_registering je
         | eREGISTERED \<Rightarrow> handle_registered env je
         | eIN_CALL \<Rightarrow> handle_in_call env je
         | eINCOMING_CALL \<Rightarrow> handle_in_call env je
         | eANSWERED \<Rightarrow> handle_answered je
         | eDISCONNECTING \<Rightarrow> handle_disconnecting je) s = Inr (s', as')" "lock_depth as = lock_depth as'"
    unfolding handle_event_def by (auto simp: bindR_eq_Inr using_res_def event_def emit_def)
  then show ?thesis
    using balanced_registering [of je s s' as'] balanced_registered [of env je s s' as'] balanced_in_call [of env je s s' as']
      balanced_answered [of je s s' as'] balanced_disconnecting [of je s s' as']
    by (cases "currentState s") (auto simp: balanced_def emit_def)
qed

lemma thread_hangup: "hangupCall s = Inr (s', as) \<Longrightarrow> thread s' = thread s"
  by (auto simp: hangupCall_def stop_media_def lock_simps split_def Let_def split: if_split_asm)

lemma thread_makeCall: "makeCall env u s = Inr (s', as) \<Longrightarrow> thread s' = thread s"
  by (auto simp: makeCall_def lock_simps split: if_split_asm)

lemma thread_answerCall: "answerCall env s = Inr (s', as) \<Longrightarrow> thread s' = thread s"
  by (auto simp: answerCall_def lock_simps split: if_split_asm)

lemma thread_disconnect: "disconnectSipServer s = Inr (s', as) \<Longrightarrow> thread s' = thread s"
  by (auto simp: disconnectSipServer_def lock_simps split: if_split_asm dest: thread_hangup)

lemma thread_GuiCallback: "GuiCallback env ev s = Inr (s', as) \<Longrightarrow> thread s' = thread s"
  unfolding GuiCallback_def
  by (cases ev)
     (auto simp: bindR_eq_Inr using_res_def event_def emit_def modify_def
        dest: thread_hangup thread_makeCall thread_answerCall thread_disconnect)

lemma thread_register_step:
  "register_step env s = Inr (s', as) \<Longrightarrow> thread s = Running \<Longrightarrow> thread s' = Running \<or> thread s' = Returned (- 1)"
  by (auto simp: register_step_def lock_simps split: if_split_asm)

text \<open>
  Claim C35: a round leaves the library's lock as it found it, with two exceptions: a shutdown while
  registered or in a call takes it twice and never gives it back, and a subscription request that
  cannot be answered ends the thread with the lock held.
\<close>

theorem round_lock_balance:
  assumes "CallThread_round env pending je s = Inr (s', as)" "thread s = Running"
  shows "lock_depth as =
    (if pending = Some OUT_SHUTDOWN \<and> currentState s \<in> {eREGISTERED, eIN_CALL, eANSWERED} then 2 else 0) +
    (if thread s' = Returned 0 then 1 else 0)"
proof -
  from assms(1) obtain t u a b c where
    gui: "(case pending of None \<Rightarrow> emit [] | Some ev \<Rightarrow> GuiCallback env ev) s = Inr (t, a)" and
    reg: "register_step env t = Inr (u, b)" and
    rest: "if_op (\<lambda>s. thread s = Running) [emit [Lock, Automatic, Unlock],
          case je of None \<Rightarrow> emit [] | Some e \<Rightarrow> handle_event env e] [] u = Inr (s', c)" and
    as: "as = a @ b @ c"
    unfolding CallThread_round_def by (auto simp: bindR_eq_Inr)
  have "thread t = Running"
    using gui assms(2) thread_GuiCallback by (cases pending) (auto simp: emit_def)
  then have u: "thread u = Running \<or> thread u = Returned (- 1)" using thread_register_step [OF reg] by simp
  have "lock_depth a = (if pending = Some OUT_SHUTDOWN \<and> currentState s \<in> {eREGISTERED, eIN_CALL, eANSWERED} then 2 else 0)"
    using gui lock_GuiCallback [of env _ s t a] by (cases pending) (auto simp: emit_def)
  moreover have "lock_depth b = 0" using reg by (rule lock_register_step)
  moreover have "lock_depth c = (if thread s' = Returned 0 then 1 else 0)"
    using u rest balanced_handle_event [of env _ u s']
    by (cases je) (auto simp: if_op_def emit_def balanced_def bindR_eq_Inr split: if_split_asm)
  ultimately show ?thesis using as by simp
qed

theorem round_lock_balance_witness:
  "lock_depth (snd (result_of (CallThread_round example_env (Some OUT_SHUTDOWN) None (example_start\<lparr>currentState := eREGISTERED\<rparr>)))) =
    (if Some OUT_SHUTDOWN = Some OUT_SHUTDOWN \<and> currentState (example_start\<lparr>currentState := eREGISTERED\<rparr>)
        \<in> {eREGISTERED, eIN_CALL, eANSWERED} then 2 else 0) +
    (if thread (fst (result_of (CallThread_round example_env (Some OUT_SHUTDOWN) None (example_start\<lparr>currentState := eREGISTERED\<rparr>))))
        = Returned 0 then 1 else 0)"
proof (rule round_lock_balance)
  have "\<not> isl (CallThread_round example_env (Some OUT_SHUTDOWN) None (example_start\<lparr>currentState := eREGISTERED\<rparr>))"
    by code_simp
  then show "CallThread_round example_env (Some OUT_SHUTDOWN) None (example_start\<lparr>currentState := eREGISTERED\<rparr>) =
      Inr (fst (result_of (CallThread_round example_env (Some OUT_SHUTDOWN) None (example_start\<lparr>currentState := eREGISTERED\<rparr>))),
           snd (result_of (CallThread_round example_env (Some OUT_SHUTDOWN) None (example_start\<lparr>currentState := eREGISTERED\<rparr>))))"
    by (rule result_of_eq)
  show "thread (example_start\<lparr>currentState := eREGISTERED\<rparr>) = Running" by code_simp
qed

section \<open>Hanging up\<close>

text \<open>
  A call hung up before the network has reported ringing is not the call that is
  terminated: placing a call leaves the ids of the one before (0 after an orderly end), and the
  request to terminate carries these, while the phone shows itself free again.
\<close>

theorem hangup_before_ringing:
  assumes "currentState s = eREGISTERED" "makeCall env user s = Inr (s1, as)" "currentState s1 = eIN_CALL"
  shows "hangupCall s1 = Inr (enter_state eREGISTERED (s1\<lparr>cid := 0, did := 0\<rparr>),
    [Lock, Call_terminate (cid s) (did s), Unlock, Event (IN_SIP_STATE SUI_SIP_STATE_CONNECTED)])"
proof -
  have "cid s1 = cid s" "did s1 = did s"
    using assms(1,2) by (auto simp: makeCall_def lock_simps split: if_split_asm)
  then show ?thesis using hangup_eq [of s1] assms(3) by (simp add: announce_def)
qed

theorem hangup_before_ringing_witness:
  "let s1 = fst (result_of (makeCall example_env ''sip:a'' (example_start\<lparr>currentState := eREGISTERED, cid := 7\<rparr>)))
   in hangupCall s1 = Inr (enter_state eREGISTERED (s1\<lparr>cid := 0, did := 0\<rparr>),
    [Lock, Call_terminate (cid (example_start\<lparr>currentState := eREGISTERED, cid := 7\<rparr>))
       (did (example_start\<lparr>currentState := eREGISTERED, cid := 7\<rparr>)), Unlock,
     Event (IN_SIP_STATE SUI_SIP_STATE_CONNECTED)])"
proof -
  let ?s = "example_start\<lparr>currentState := eREGISTERED, cid := 7\<rparr>"
  have sdp: "createLocalSdp (en_sdp example_env) config_initial None sdp_ports_initial =
      Inr (\<lparr>audioPort = 30000, videoPort = 30002, portCount = 30004\<rparr>,
        sdp_text ''10.0.0.2'' ''m=audio 30000 RTP/AVP 0 8 101'' [] (pcmu_map @ pcma_map @ event_map))"
    by (simp add: createLocalSdp_def sdp_ports_initial_def mapped_address_def config_get_nat_traversal_def
        config_initial_def audio_part_def video_part_def config_get_use_video_def strcpy_to_def strcat_to_def
        read_array_def snprintf_to_def sdp_text_def pcmu_map_def pcma_map_def event_map_def show_int_def
        show_nat.simps digit_chars example_env_def)
  have s: "e_config ?s = config_initial" "e_ports ?s = sdp_ports_initial" "currentState ?s = eREGISTERED"
    by (simp_all add: example_start_def result_of_def setupCallThread_def CallThread_enter_def op_defs engine_initial_def)
  obtain s1 as where call: "makeCall example_env ''sip:a'' ?s = Inr (s1, as)" "currentState s1 = eIN_CALL"
  proof -
    have "config_get_user_uri config_initial = Inr ''sip:@''" "en_invite example_env" by code_simp+
    with s sdp that show thesis by (simp add: makeCall_def op_defs local_sdp_def ChangeState_eq)
  qed
  have "fst (result_of (makeCall example_env ''sip:a'' ?s)) = s1"
    by (simp only: call(1) result_of_def sum.case fst_conv)
  then show ?thesis
    unfolding Let_def by (simp only: hangup_before_ringing [OF s(3) call])
qed

text \<open>
  A failed registration and a refused call change nothing: while registering every event
  but success, and while calling a redirection, a request failure and a missing answer, only pass
  their text on and leave the state as it was.
\<close>

theorem failures_ignored:
  assumes "handle_event env je s = Inr (s', as)"
    "currentState s = eREGISTERING \<and> ev_type je \<noteq> EXOSIP_REGISTRATION_SUCCESS \<or>
     currentState s = eIN_CALL \<and> ev_type je \<in> {EXOSIP_CALL_REDIRECTED, EXOSIP_CALL_REQUESTFAILURE, EXOSIP_CALL_NOANSWER}"
  shows "s' = s \<and> (\<exists>t. format_noargs (textinfo je) = Inr t \<and> as = [Event (InfoMessage t)])"
  using assms
  by (auto simp: handle_event_def handle_registering_def handle_in_call_def Let_def using_res_def bindR_eq_Inr
      event_def emit_def split: event_type.split_asm)

theorem failures_ignored_witness:
  "example_start\<lparr>currentState := eREGISTERING\<rparr> = example_start\<lparr>currentState := eREGISTERING\<rparr> \<and>
   (\<exists>t. format_noargs (textinfo (example_event EXOSIP_REGISTRATION_FAILURE)) = Inr t \<and>
     [Event (InfoMessage ''event'')] = [Event (InfoMessage t)])"
  by (rule failures_ignored [of example_env]) code_simp+

section \<open>Shutting down\<close>

lemma disconnect_registered:
  assumes "currentState s \<in> {eREGISTERED, eIN_CALL, eANSWERED}" "disconnectSipServer s = Inr (s', as)"
  shows "currentState s' = eDISCONNECTING" "quit s' = quit s" "thread s' = thread s"
  using assms
  by (auto simp: disconnectSipServer_def hangupCall_def stop_media_def lock_simps split_def Let_def split: if_split_asm)



text \<open>
  A thread that returns early, because a registration cannot be built or a subscription
  cannot be answered, strands the user interface: there is no further round, and an event it then
  raises waits for a flag nobody sets.
\<close>

theorem early_return_strands_gui:
  assumes "CallThread_step env pending je s = Inr (s', as)" "thread s = Running" "\<not> quit s" "thread s' \<noteq> Running"
    "\<not> callback_done s" "pending = None"
  shows "\<not> callback_done s' \<and> (thread s' = Returned (- 1) \<or> thread s' = Returned 0 \<and> 0 < lock_depth as)"
proof -
  from assms(1,3,6) obtain u b c where
    reg: "register_step env s = Inr (u, b)" and
    rest: "if_op (\<lambda>s. thread s = Running) [emit [Lock, Automatic, Unlock],
          case je of None \<Rightarrow> emit [] | Some e \<Rightarrow> handle_event env e] [] u = Inr (s', c)" and as: "as = b @ c"
    unfolding CallThread_step_def CallThread_round_def by (auto simp: if_op_def bindR_eq_Inr emit_def)
  have u: "\<not> callback_done u" using reg assms(5) by (auto simp: register_step_def lock_simps split: if_split_asm)
  have depth: "lock_depth b = 0" using reg by (rule lock_register_step)
  show ?thesis
  proof (cases "thread u = Running")
    case False
    with thread_register_step [OF reg assms(2)] rest u show ?thesis by (simp add: if_op_def)
  next
    case True
    with rest assms(4) obtain e d where e: "handle_event env e u = Inr (s', d)" "c = [Lock, Automatic, Unlock] @ d"
      by (cases je) (auto simp: if_op_def emit_def bindR_eq_Inr)
    with True assms(4) balanced_handle_event [OF e(1)] have "thread s' = Returned 0" "lock_depth d = 1"
      by (auto simp: balanced_def)
    moreover have "callback_done s' = callback_done u"
      using balanced_handle_event [OF e(1)] by (simp add: balanced_def)
    ultimately show ?thesis using u depth e(2) as by simp
  qed
qed

theorem early_return_strands_gui_witness:
  "let r = result_of (CallThread_step (example_env\<lparr>en_register := - 1\<rparr>) None None example_start)
   in \<not> callback_done (fst r) \<and> (thread (fst r) = Returned (- 1) \<or> thread (fst r) = Returned 0 \<and> 0 < lock_depth (snd r))"
proof -
  have "\<not> isl (CallThread_step (example_env\<lparr>en_register := - 1\<rparr>) None None example_start)" by code_simp
  from result_of_eq [OF this] show ?thesis
    unfolding Let_def by (rule early_return_strands_gui) code_simp+
qed

end
