(* ===== verification/Text_Gui.thy ===== *)
theory Text_Gui
  imports Sip_If
begin

text \<open>
  The text user interface, SIPTextGUI/text_gui.c: the status window, the menu and the two state
  lines, the handler of the engine's events and the buttons of the main loop. Drawing, the engine's
  events and the ringer thread are a trace.
\<close>

section \<open>State\<close>

datatype gui_action =
    SetXY int int
  | Print string
  | Do_event out_event
  | Start_ringer
  | Delay
  | Exit_game

text \<open>
  The null pointer \<open>gContacts\<close> is \<open>None\<close>. \<open>strayWrites\<close> counts the writes of
  \<open>clearStatusBox\<close> to the byte behind its array, which nothing in the file reads.
\<close>

record gui =
  gContacts :: "contact list option"
  gContactsCount :: int
  gCurrentState :: int
  gCaller :: string
  gCallee :: string
  gCallerIndex :: int
  gStartup :: int
  gCurPos :: int
  g_quit :: bool
  redraw :: bool
  gStatusLines :: "string list"
  gNumStatusLines :: nat
  strayWrites :: nat
  ringfile :: int
  ringing :: bool
  showInfos :: bool

definition MAX_STATUS_LINES :: nat where "MAX_STATUS_LINES = 8"

definition gui_initial :: gui where
  "gui_initial = \<lparr>gContacts = None, gContactsCount = 0, gCurrentState = 0, gCaller = [], gCallee = [],
     gCallerIndex = - 1, gStartup = 0, gCurPos = 0, g_quit = False, redraw = False,
     gStatusLines = replicate MAX_STATUS_LINES [], gNumStatusLines = 0, strayWrites = 0,
     ringfile = - 1, ringing = False, showInfos = False\<rparr>"

type_synonym gui_op = "(gui, gui_action) op"

definition if_gui :: "(gui \<Rightarrow> bool) \<Rightarrow> gui_op list \<Rightarrow> gui_op list \<Rightarrow> gui_op" where
  "if_gui b f g s = (if b s then runs f s else runs g s)"

section \<open>Drawing\<close>

definition cleanScreenRect :: "int \<Rightarrow> int \<Rightarrow> int \<Rightarrow> int \<Rightarrow> gui_action list" where
  "cleanScreenRect x y cx cy =
     concat (map (\<lambda>ii. concat (map (\<lambda>jj. [SetXY jj ii, Print '' '']) [x..x + cx - 1])) [y..y + cy - 1])"

definition clean_status_box :: "gui_action list" where
  "clean_status_box = cleanScreenRect 0 25 68 8"

definition setRedraw :: "bool \<Rightarrow> gui_op" where
  "setRedraw val = modify (\<lambda>s. s\<lparr>redraw := val\<rparr>)"

text \<open>The write in the loop always goes to row \<open>MAX_STATUS_LINES\<close>, one past the last.\<close>

definition clearStatusBox :: gui_op where
  "clearStatusBox = runs [emit clean_status_box,
     modify (\<lambda>s. s\<lparr>gNumStatusLines := 0, strayWrites := strayWrites s + MAX_STATUS_LINES\<rparr>)]"

text \<open>Each line is printed as a format.\<close>

fun print_lines :: "nat \<Rightarrow> string list \<Rightarrow> gui_action list res" where
  "print_lines ii [] = Inr []"
| "print_lines ii (l # ls) =
     bindR (format_noargs l) (\<lambda>t. bindR (print_lines (Suc ii) ls) (\<lambda>as.
       Inr (SetXY 0 (25 + int ii) # Print t # as)))"

definition displayStatusLines :: gui_op where
  "displayStatusLines = runs [emit clean_status_box,
     \<lambda>s. using_res (print_lines 0 (take (gNumStatusLines s) (gStatusLines s))) emit s]"

text \<open>Adding a line: at the end while fewer than seven are shown, else after moving the others up.\<close>

definition add_line :: "string \<Rightarrow> gui \<Rightarrow> gui" where
  "add_line l s =
     (let n = gNumStatusLines s; rows = gStatusLines s in
      if n < MAX_STATUS_LINES - 1 then s\<lparr>gStatusLines := rows[n := l], gNumStatusLines := n + 1\<rparr>
      else s\<lparr>gStatusLines := (foldl (\<lambda>r ii. r[ii := r ! (ii + 1)]) rows [0..<n - 1])[n - 1 := l]\<rparr>)"

text \<open>
  The argument is the text the format and its arguments produce; 255 characters of it go into a row
  of 69.
\<close>

definition statusMessage :: "string \<Rightarrow> gui_op" where
  "statusMessage msg =
     runs [\<lambda>s. using_res (strcpy_to 69 (snprintf_to 256 msg)) (\<lambda>l. modify (add_line l)) s, displayStatusLines]"

text \<open>A run-time string passed as the format itself.\<close>

definition statusMessage_format :: "string \<Rightarrow> gui_op" where
  "statusMessage_format fmt = using_res (format_noargs fmt) statusMessage"

definition displaySIPState :: gui_op where
  "displaySIPState s = emit (cleanScreenRect 40 0 27 1 @ [SetXY 40 0, Print ''Server : '',
     Print (let st = gCurrentState s in
       if st = SUI_SIP_STATE_DISCONNECTED then ''Not connected''
       else if st = SUI_SIP_STATE_CONNECTING then ''Connecting...''
       else if st \<in> {SUI_SIP_STATE_CONNECTED, SUI_SIP_STATE_TRYING, SUI_SIP_STATE_INCOMING, SUI_SIP_STATE_ESTABLISHED}
         then ''Connected''
       else ''Unknown'')]) s"

definition displayCallState :: gui_op where
  "displayCallState s = emit (cleanScreenRect 40 1 27 1 @ [SetXY 40 1, Print ''Call   : '',
     Print (let st = gCurrentState s in
       if st = SUI_SIP_STATE_TRYING then ''Calling''
       else if st = SUI_SIP_STATE_INCOMING then ''Incoming''
       else if st = SUI_SIP_STATE_ESTABLISHED then ''Connected''
       else if st \<in> {SUI_SIP_STATE_DISCONNECTED, SUI_SIP_STATE_CONNECTING, SUI_SIP_STATE_CONNECTED} then ''None''
       else ''Unknown'')]) s"

text \<open>An entry of the contact array; its nickname is an array, so the test for null never fails.\<close>

definition contact_at :: "gui \<Rightarrow> int \<Rightarrow> contact res" where
  "contact_at s i = (case gContacts s of None \<Rightarrow> Inl Null_pointer
     | Some cs \<Rightarrow> if 0 \<le> i \<and> nat i < length cs then Inr (cs ! nat i) else Inl Out_of_bounds)"

definition menu_entry :: "gui \<Rightarrow> int \<Rightarrow> gui_action list res" where
  "menu_entry s i =
     bindR (if gContacts s = None then Inr []
            else bindR (contact_at s i) (\<lambda>c.
              Inr [Print ((if gCurPos s = i then ''*'' else '' '') @ '' '' @ nickname c)])) (\<lambda>as.
     Inr (SetXY 3 (6 + i) # as))"

definition menu_body :: gui_op where
  "menu_body s =
     (let st = gCurrentState s in
      if st = SUI_SIP_STATE_CONNECTED then
        bindR (mapR (menu_entry s) [0..gContactsCount s - 1]) (\<lambda>rows.
        Inr (s, Print ''Please choose a contact and press X to dial.'' #
          cleanScreenRect 3 6 68 (gContactsCount s) @ concat rows))
      else if st = SUI_SIP_STATE_ESTABLISHED then Inr (s, [Print ''Press triangle to hang up.''])
      else if st = SUI_SIP_STATE_TRYING then
        Inr (s, [Print (''Attempting call to '' @ gCallee s @ [LF]), Print ''Press O to cancel.''])
      else if st = SUI_SIP_STATE_INCOMING then
        Inr (s, [Print (''Incoming call from '' @ gCaller s @ [LF]), Print ''Press X to accept, O to reject.''])
      else if st = SUI_SIP_STATE_DISCONNECTED then Inr (s, [Print ''Please wait while the server is contacted.''])
      else Inr (s, []))"

definition DisplayMenu :: gui_op where
  "DisplayMenu =
     if_gui redraw
       [emit (cleanScreenRect 0 3 68 20 @ [SetXY 0 3]), menu_body, displayCallState, displaySIPState,
        emit [SetXY 0 10], setRedraw False]
       []"

section \<open>The ringer\<close>

definition playRinger :: gui_op where
  "playRinger = runs [modify (\<lambda>s. s\<lparr>ringing := True\<rparr>), if_gui (\<lambda>s. 0 \<le> ringfile s) [emit [Start_ringer]] []]"

definition stopRinger :: gui_op where
  "stopRinger = modify (\<lambda>s. s\<lparr>ringing := False\<rparr>)"

text \<open>The blocks a pass of the ringer thread plays, of the results of its reads.\<close>

fun ringer_pass :: "(int \<times> bool) list \<Rightarrow> nat" where
  "ringer_pass [] = 0"
| "ringer_pass ((lread, flag) # reads) = (if lread \<noteq> 0 \<and> flag then Suc (ringer_pass reads) else 0)"

text \<open>\<open>open_ring\<close> is the result of opening the ring tone.\<close>

definition gui_initAudio :: "int \<Rightarrow> gui_op" where
  "gui_initAudio open_ring =
     runs [modify (\<lambda>s. s\<lparr>ringfile := open_ring\<rparr>),
       if open_ring < 0 then statusMessage (''Error 0x'' @ show_hex8 open_ring @ '' opening ring.wav file'') else emit []]"

section \<open>Events of the engine\<close>

definition handle_sip_state :: "int \<Rightarrow> gui_op" where
  "handle_sip_state lNewState =
     runs [if_gui (\<lambda>s. SUI_SIP_STATE_CONNECTED < gCurrentState s \<and> lNewState \<le> SUI_SIP_STATE_CONNECTED)
         [clearStatusBox, statusMessage ''Call cancelled''] [],
       if lNewState = SUI_SIP_STATE_ESTABLISHED \<or> lNewState = SUI_SIP_STATE_CONNECTED then stopRinger else emit [],
       if lNewState = SUI_SIP_STATE_ESTABLISHED then runs [clearStatusBox, statusMessage ''Call established''] else emit [],
       modify (\<lambda>s. s\<lparr>gCurrentState := lNewState\<rparr>),
       if_gui (\<lambda>s. gCurrentState s = SUI_SIP_STATE_CONNECTED)
         [modify (\<lambda>s. s\<lparr>gCaller := [], gCallerIndex := - 1\<rparr>)] [],
       setRedraw True]"

definition handle_incoming :: "string option \<Rightarrow> int \<Rightarrow> gui_op" where
  "handle_incoming caller index =
     runs [playRinger,
       using_res (strcpy_to 100 (case caller of Some c \<Rightarrow> c | None \<Rightarrow> ''Unknown''))
         (\<lambda>c. modify (\<lambda>s. s\<lparr>gCaller := c\<rparr>)),
       modify (\<lambda>s. s\<lparr>gCallerIndex := index\<rparr>),
       \<lambda>s. statusMessage (''Incoming call... '' @ gCaller s) s,
       setRedraw True]"

definition handle_startup :: "int \<Rightarrow> gui_op" where
  "handle_startup st =
     runs [emit [SetXY 20 20], modify (\<lambda>s. s\<lparr>gStartup := st\<rparr>),
       if st = 0 then statusMessage ''Starting up...''
       else if st = 1 then statusMessage ''Registering with server...''
       else if st = 2 then runs [clearStatusBox, statusMessage ''Ready.'']
       else statusMessage (''Startup state: '' @ show_int st)]"

definition CallbackEventHandler :: "in_event \<Rightarrow> gui_op" where
  "CallbackEventHandler ev =
     (case ev of
        IN_SIP_STATE st \<Rightarrow> handle_sip_state st
      | IN_INCOMING_CALL caller index \<Rightarrow> handle_incoming caller index
      | IN_STARTUP st \<Rightarrow> handle_startup st
      | IN_ADDRESS_BOOK book count \<Rightarrow>
          runs [modify (\<lambda>s. s\<lparr>gContacts := Some book, gContactsCount := count\<rparr>),
            statusMessage (''Processed address book : '' @ show_int count @ '' contacts'')]
      | IN_INFO_MESSAGE msg \<Rightarrow> if_gui showInfos [statusMessage_format msg] []
      | IN_ERROR_MESSAGE msg \<Rightarrow> runs [statusMessage_format msg, emit [Delay]])"

section \<open>Buttons\<close>

datatype button = CROSS | DOWN | UP | CIRCLE | TRIANGLE | START | SELECT | OTHER_BUTTONS

text \<open>
  What a press does in each state: the operations before the engine's event, the event and the
  operations after it. The main loop only sees a press when no button was down before, since the old
  state it compares with is never updated, and it waits for the release.
\<close>

type_synonym press = "gui_op list \<times> out_event option \<times> gui_op list"

definition press_connected :: "button \<Rightarrow> gui \<Rightarrow> press res" where
  "press_connected b s =
     (case b of
        CROSS \<Rightarrow> bindR (contact_at s (gCurPos s)) (\<lambda>c.
          Inr ([clearStatusBox, statusMessage ''Attempting call'',
                using_res (strcpy_to 100 (nickname c)) (\<lambda>n. modify (\<lambda>s. s\<lparr>gCallee := n\<rparr>))],
               Some (OUT_NEW_CALL (sipuri c)), [setRedraw True]))
      | DOWN \<Rightarrow>
          if gContactsCount s = 0 then Inl Division_by_zero
          else Inr ([modify (\<lambda>s. s\<lparr>gCurPos := c_mod (gCurPos s + 1) (gContactsCount s)\<rparr>), setRedraw True], None, [])
      | UP \<Rightarrow>
          Inr ([modify (\<lambda>s. s\<lparr>gCurPos := (if gCurPos s - 1 < 0 then gContactsCount s - 1 else gCurPos s - 1)\<rparr>),
                setRedraw True], None, [])
      | _ \<Rightarrow> Inr ([], None, []))"

definition press_in_state :: "button \<Rightarrow> gui \<Rightarrow> press res" where
  "press_in_state b s =
     (let st = gCurrentState s in
      if st = SUI_SIP_STATE_CONNECTED then press_connected b s
      else if st = SUI_SIP_STATE_TRYING \<and> b = CIRCLE then
        Inr ([], Some OUT_REJECT, [statusMessage ''Cancelling...'', modify (\<lambda>s. s\<lparr>gCallee := []\<rparr>), setRedraw True])
      else if st = SUI_SIP_STATE_INCOMING \<and> b = CIRCLE then
        Inr ([], Some OUT_REJECT, [statusMessage ''Rejecting...'', setRedraw True])
      else if st = SUI_SIP_STATE_INCOMING \<and> b = CROSS then
        Inr ([], Some OUT_ANSWER, [statusMessage ''Answering...'', setRedraw True])
      else if st = SUI_SIP_STATE_ESTABLISHED \<and> b = TRIANGLE then
        Inr ([], Some OUT_HANGUP, [clearStatusBox, statusMessage ''Call disconnected.'', setRedraw True])
      else Inr ([], None, []))"

definition global_keys :: "button \<Rightarrow> gui_op list" where
  "global_keys b =
     (case b of
        START \<Rightarrow> [modify (\<lambda>s. s\<lparr>g_quit := True\<rparr>)]
      | SELECT \<Rightarrow> [modify (\<lambda>s. s\<lparr>showInfos := \<not> showInfos s\<rparr>),
          if_gui showInfos [statusMessage ''Extra informational messages ENABLED'']
            [statusMessage ''Extra informational messages DISABLED'']]
      | _ \<Rightarrow> [])"

definition press :: "button \<Rightarrow> gui \<Rightarrow> press res" where
  "press b s = bindR (press_in_state b s) (\<lambda>(pre, ev, post). Inr (pre, ev, post @ global_keys b @ [DisplayMenu]))"

text \<open>The start of \<open>main\<close> behind the network dialog, up to the engine's initialisation, and its end.\<close>

definition main_begin :: "int \<Rightarrow> string \<Rightarrow> string \<Rightarrow> gui_op" where
  "main_begin open_ring gui_build engine_build =
     runs [gui_initAudio open_ring,
       emit [Print (''PSP SIP Phone - homebrew wins again!'' @ [LF]),
         Print (''Build - GUI('' @ gui_build @ ''), Engine('' @ engine_build @ '')'' @ [LF])],
       clearStatusBox,
       statusMessage ''Initializing camera... (please ensure it is plugged in)'']"

definition main_initialized :: "int \<Rightarrow> gui_op" where
  "main_initialized rc =
     (if rc < 0 then runs [statusMessage ''Failed to initialize the SIPEngine'']
      else setRedraw True)"

definition main_end :: gui_op where
  "main_end = runs [statusMessage ''Quitting...'', emit [Do_event OUT_SHUTDOWN, Exit_game]]"

section \<open>Network\<close>

text \<open>
  Joining the access point: the connect result and the polled (error, state) pairs, to the first that
  ends the loop; \<open>None\<close> is a loop that has not ended after the polls given.
\<close>

fun apctl_polls :: "(int \<times> int) list \<Rightarrow> int option" where
  "apctl_polls [] = None"
| "apctl_polls ((err, state) # polls) =
     (if err \<noteq> 0 then Some err else if state = 4 then Some 0 else apctl_polls polls)"

definition connect_to_apctl :: "int \<Rightarrow> (int \<times> int) list \<Rightarrow> (gui \<Rightarrow> (gui \<times> gui_action list \<times> int option) res)" where
  "connect_to_apctl err polls s =
     (let finish = (\<lambda>rc f. bindR (runs f s) (\<lambda>(s, as). Inr (s, as, rc)))
      in if err \<noteq> 0 then
           finish (Some 0) [statusMessage ''Attempting to connect to network...'',
             statusMessage ('': sceNetApctlConnect returns '' @ show_hex8 err)]
         else case apctl_polls polls of
             None \<Rightarrow> finish None [statusMessage ''Attempting to connect to network...'', statusMessage '': Connecting...'']
           | Some e \<Rightarrow>
               if e \<noteq> 0 then
                 finish (Some 0) [statusMessage ''Attempting to connect to network...'', statusMessage '': Connecting...'',
                   statusMessage ('': sceNetApctlGetState returns $'' @ show_hex_lower e), statusMessage '': Failed to connect!'', emit [Delay]]
               else finish (Some 1) [statusMessage ''Attempting to connect to network...'', statusMessage '': Connecting...'',
                   statusMessage '': connected!'', emit [Delay], clearStatusBox])"

text \<open>The network modules, in order, up to the first failure; errors go to \<open>printf\<close>.\<close>

definition exitCallback :: gui_op where
  "exitCallback = modify (\<lambda>s. s\<lparr>g_quit := True\<rparr>)"

definition gui_LoadModules :: "(string \<Rightarrow> int) \<Rightarrow> string list \<times> int" where
  "gui_LoadModules answer =
     (if answer ''common'' < 0 then ([''common''], answer ''common'')
      else if answer ''inet'' < 0 then ([''common'', ''inet''], answer ''inet'')
      else ([''common'', ''inet''], 0))"

text \<open>Unloading takes the modules in the same order as loading.\<close>

definition gui_UnloadModules :: "(string \<Rightarrow> int) \<Rightarrow> string list \<times> int" where
  "gui_UnloadModules answer =
     (if answer ''common'' < 0 then ([''common''], answer ''common'')
      else if answer ''inet'' < 0 then ([''common'', ''inet''], answer ''inet'')
      else ([''common'', ''inet''], 0))"

section \<open>The status window\<close>

text \<open>The lines shown, and the window they should be: the last seven messages.\<close>

definition shown :: "gui \<Rightarrow> string list" where
  "shown s = take (gNumStatusLines s) (gStatusLines s)"

definition last_lines :: "nat \<Rightarrow> string list \<Rightarrow> string list" where
  "last_lines n ls = drop (length ls - n) ls"

definition window_ok :: "gui \<Rightarrow> bool" where
  "window_ok s \<longleftrightarrow> length (gStatusLines s) = MAX_STATUS_LINES \<and> gNumStatusLines s \<le> 7 \<and>
     (\<forall>l\<in>set (shown s). CHR ''%'' \<notin> set l \<and> length l < 69)"

lemma shift_length: "length (foldl (\<lambda>r ii. r[ii := r ! Suc ii]) rows xs) = length rows"
  by (induction xs rule: rev_induct) simp_all

lemma shift_nth:
  "m < length rows \<Longrightarrow> j < length rows \<Longrightarrow>
   foldl (\<lambda>r ii. r[ii := r ! Suc ii]) rows [0..<m] ! j = (if j < m then rows ! Suc j else rows ! j)"
  by (induction m arbitrary: j) (auto simp: nth_list_update shift_length)

lemma shown_add_line:
  assumes "length (gStatusLines s) = MAX_STATUS_LINES" "gNumStatusLines s \<le> 7"
  shows "shown (add_line l s) = last_lines 7 (shown s @ [l])"
proof (cases "gNumStatusLines s < 7")
  case True
  with assms show ?thesis
    by (simp add: add_line_def MAX_STATUS_LINES_def Let_def shown_def last_lines_def take_Suc_conv_app_nth)
next
  case False
  let ?rows = "gStatusLines s"
  let ?new = "(foldl (\<lambda>r ii. r[ii := r ! Suc ii]) ?rows [0..<6])[6 := l]"
  from False assms have n: "gNumStatusLines s = 7" "length ?rows = 8" by (simp_all add: MAX_STATUS_LINES_def)
  then have "shown (add_line l s) = take 7 ?new"
    by (simp add: add_line_def MAX_STATUS_LINES_def Let_def shown_def)
  also have "\<dots> = last_lines 7 (take 7 ?rows @ [l])"
  proof (rule nth_equalityI)
    show "length (take 7 ?new) = length (last_lines 7 (take 7 ?rows @ [l]))"
      using n(2) by (simp add: last_lines_def shift_length)
    fix i
    assume "i < length (take 7 ?new)"
    then have "i < 7" by simp
    then show "take 7 ?new ! i = last_lines 7 (take 7 ?rows @ [l]) ! i"
      using n(2) by (auto simp: last_lines_def nth_append nth_list_update shift_length shift_nth)
  qed
  finally show ?thesis using n(1) by (simp add: shown_def)
qed

lemma gNum_add_line: "gNumStatusLines s \<le> 7 \<Longrightarrow> gNumStatusLines (add_line l s) \<le> 7"
  by (auto simp: add_line_def MAX_STATUS_LINES_def Let_def)

lemma length_add_line: "length (gStatusLines (add_line l s)) = length (gStatusLines s)"
  by (simp add: add_line_def Let_def shift_length)

lemma print_lines_plain:
  "\<forall>l\<in>set ls. CHR ''%'' \<notin> set l \<Longrightarrow> \<exists>as. print_lines ii ls = Inr as"
proof (induction ls arbitrary: ii)
  case Nil
  then show ?case by simp
next
  case (Cons l ls)
  then obtain as where "print_lines (Suc ii) ls = Inr as" by fastforce
  with Cons.prems show ?case by (simp add: format_noargs_plain)
qed

lemma window_add_line:
  assumes "window_ok s" "CHR ''%'' \<notin> set l" "length l < 69"
  shows "window_ok (add_line l s)"
proof -
  have w: "length (gStatusLines s) = MAX_STATUS_LINES" "gNumStatusLines s \<le> 7" using assms(1) by (simp_all add: window_ok_def)
  have "set (shown (add_line l s)) \<subseteq> set (shown s @ [l])"
    unfolding shown_add_line [OF w] last_lines_def by (rule set_drop_subset)
  with assms show ?thesis
    unfolding window_ok_def using gNum_add_line [OF w(2), of l] length_add_line [of l s] by auto
qed

definition message_ok :: "string \<Rightarrow> bool" where
  "message_ok msg \<longleftrightarrow> CHR ''%'' \<notin> set msg \<and> length msg < 69"

lemma statusMessage_ok:
  assumes "window_ok s" "message_ok msg"
  shows "\<exists>as. statusMessage msg s = Inr (add_line msg s, as)"
proof -
  have "window_ok (add_line msg s)" using assms by (simp add: window_add_line message_ok_def)
  then obtain as where "print_lines 0 (take (gNumStatusLines (add_line msg s)) (gStatusLines (add_line msg s))) = Inr as"
    using print_lines_plain [of "shown (add_line msg s)" 0] by (auto simp: window_ok_def shown_def)
  with assms(2) show ?thesis
    by (simp add: statusMessage_def displayStatusLines_def using_res_def strcpy_to_def snprintf_to_def message_ok_def
        modify_def emit_def)
qed

lemma last_lines_append: "last_lines n (last_lines n xs @ ys) = last_lines n (xs @ ys)"
  by (cases "length xs \<le> n") (simp_all add: last_lines_def add.commute)

text \<open>
  Claim C40: whatever number of messages has been shown, the status window holds the last seven in
  their order, as long as each fits a row and has no percent sign.
\<close>

theorem status_window_refines:
  assumes "window_ok s" "list_all message_ok msgs"
  shows "\<exists>s' as. runs (map statusMessage msgs) s = Inr (s', as) \<and> window_ok s' \<and>
    shown s' = last_lines 7 (shown s @ msgs)"
  using assms
proof (induction msgs arbitrary: s)
  case Nil
  then have "length (shown s) \<le> 7" by (auto simp: window_ok_def shown_def)
  with Nil show ?case by (simp add: last_lines_def)
next
  case (Cons m msgs)
  then have m: "message_ok m" "list_all message_ok msgs" by simp_all
  obtain as where step: "statusMessage m s = Inr (add_line m s, as)" using statusMessage_ok [OF Cons.prems(1) m(1)] by blast
  have w: "window_ok (add_line m s)" using Cons.prems(1) m(1) by (simp add: window_add_line message_ok_def)
  from Cons.IH [OF w m(2)] obtain s' bs where
    "runs (map statusMessage msgs) (add_line m s) = Inr (s', bs)" "window_ok s'"
    "shown s' = last_lines 7 (shown (add_line m s) @ msgs)" by blast
  moreover have "shown (add_line m s) = last_lines 7 (shown s @ [m])"
    using Cons.prems(1) by (intro shown_add_line) (simp_all add: window_ok_def)
  ultimately show ?case using step by (simp add: last_lines_append)
qed

theorem status_window_refines_witness:
  "\<exists>s' as. runs (map statusMessage (map (\<lambda>c. [c]) ''abcdefghij'')) gui_initial = Inr (s', as) \<and> window_ok s' \<and>
    shown s' = last_lines 7 (shown gui_initial @ map (\<lambda>c. [c]) ''abcdefghij'')"
  by (rule status_window_refines)
     (simp_all add: window_ok_def gui_initial_def MAX_STATUS_LINES_def shown_def message_ok_def)

text \<open>
  Clearing the status box erases no row: its loop writes eight times to the byte behind
  the array. The window is empty only because the count is reset, and the next message shows alone.
\<close>

theorem clearStatusBox_stray:
  "\<exists>s' as. clearStatusBox s = Inr (s', as) \<and> gStatusLines s' = gStatusLines s \<and> shown s' = [] \<and>
    strayWrites s' = strayWrites s + 8"
  by (simp add: clearStatusBox_def emit_def modify_def shown_def MAX_STATUS_LINES_def)

section \<open>The menu\<close>

text \<open>
  With contacts the cursor wraps around in both directions and always names one of them;
  without contacts the down key divides by zero and the up key leaves the cursor at -1, where the
  dial key reads in front of the array.
\<close>

theorem menu_cursor:
  assumes "gCurrentState s = SUI_SIP_STATE_CONNECTED" "gContacts s = Some cs" "gContactsCount s = int (length cs)"
    "cs \<noteq> [] \<longrightarrow> 0 \<le> gCurPos s \<and> gCurPos s < int (length cs)" "cs = [] \<longrightarrow> gCurPos s = 0"
  shows "press_in_state DOWN s = (if cs = [] then Inl Division_by_zero else
      Inr ([modify (\<lambda>s. s\<lparr>gCurPos := c_mod (gCurPos s + 1) (gContactsCount s)\<rparr>), setRedraw True], None, [])) \<and>
    (cs \<noteq> [] \<longrightarrow> c_mod (gCurPos s + 1) (gContactsCount s) = (gCurPos s + 1) mod int (length cs)) \<and>
    (if gCurPos s - 1 < 0 then gContactsCount s - 1 else gCurPos s - 1) =
      (if cs = [] then - 1 else (gCurPos s - 1) mod int (length cs)) \<and>
    (cs = [] \<longrightarrow> press_in_state CROSS (s\<lparr>gCurPos := - 1\<rparr>) = Inl Out_of_bounds) \<and>
    (cs \<noteq> [] \<longrightarrow> (\<exists>pre post. press_in_state CROSS s =
      Inr (pre, Some (OUT_NEW_CALL (sipuri (cs ! nat (gCurPos s)))), post)))"
proof (intro conjI impI)
  show "press_in_state DOWN s = (if cs = [] then Inl Division_by_zero else
      Inr ([modify (\<lambda>s. s\<lparr>gCurPos := c_mod (gCurPos s + 1) (gContactsCount s)\<rparr>), setRedraw True], None, []))"
    using assms(1,3) by (simp add: press_in_state_def press_connected_def)
  show "c_mod (gCurPos s + 1) (gContactsCount s) = (gCurPos s + 1) mod int (length cs)" if "cs \<noteq> []"
    using that assms(3,4) by (simp add: c_mod_nonneg)
  show "(if gCurPos s - 1 < 0 then gContactsCount s - 1 else gCurPos s - 1) =
      (if cs = [] then - 1 else (gCurPos s - 1) mod int (length cs))"
  proof (cases "gCurPos s = 0 \<and> cs \<noteq> []")
    case True
    then have "(- 1) mod int (length cs) = int (length cs) - 1"
      by (intro zmod_minus1) simp
    with True assms(3) show ?thesis by simp
  next
    case False
    with assms(3-5) show ?thesis by auto
  qed
  show "press_in_state CROSS (s\<lparr>gCurPos := - 1\<rparr>) = Inl Out_of_bounds" if "cs = []"
    using assms(1,2) by (simp add: press_in_state_def press_connected_def contact_at_def)
  show "\<exists>pre post. press_in_state CROSS s = Inr (pre, Some (OUT_NEW_CALL (sipuri (cs ! nat (gCurPos s)))), post)"
    if "cs \<noteq> []"
    using that assms by (auto simp: press_in_state_def press_connected_def contact_at_def nat_less_iff)
qed

theorem menu_cursor_witness:
  "let s = gui_initial\<lparr>gCurrentState := SUI_SIP_STATE_CONNECTED, gContacts := Some [], gContactsCount := 0\<rparr> in
    press_in_state DOWN s = Inl Division_by_zero \<and> press_in_state CROSS (s\<lparr>gCurPos := - 1\<rparr>) = Inl Out_of_bounds"
  using menu_cursor [of "gui_initial\<lparr>gCurrentState := SUI_SIP_STATE_CONNECTED, gContacts := Some [], gContactsCount := 0\<rparr>" "[]"]
  by (simp add: gui_initial_def)

section \<open>Events that are always handled\<close>

text \<open>Events whose texts fit a row, are no formats, and whose caller fits its buffer with the prefix.\<close>

fun event_ok :: "in_event \<Rightarrow> bool" where
  "event_ok (IN_INCOMING_CALL caller idx) \<longleftrightarrow>
     (case caller of None \<Rightarrow> True | Some c \<Rightarrow> CHR ''%'' \<notin> set c \<and> length c < 52)"
| "event_ok (IN_STARTUP st) \<longleftrightarrow> st \<in> {0, 1, 2}"
| "event_ok (IN_SIP_STATE st) \<longleftrightarrow> True"
| "event_ok (IN_ADDRESS_BOOK book n) \<longleftrightarrow> message_ok (''Processed address book : '' @ show_int n @ '' contacts'')"
| "event_ok (IN_INFO_MESSAGE msg) \<longleftrightarrow> message_ok msg"
| "event_ok (IN_ERROR_MESSAGE msg) \<longleftrightarrow> message_ok msg"

text \<open>Operations that run without a fault and keep the window.\<close>

definition safe :: "gui_op \<Rightarrow> bool" where
  "safe f \<longleftrightarrow> (\<forall>s. window_ok s \<longrightarrow> (\<exists>s' as. f s = Inr (s', as) \<and> window_ok s'))"

lemma safe_runs: "list_all safe fs \<Longrightarrow> safe (runs fs)"
proof (induction fs)
  case Nil
  then show ?case by (simp add: safe_def)
next
  case (Cons f fs)
  show ?case
    unfolding safe_def
  proof (intro allI impI)
    fix s
    assume "window_ok s"
    with Cons.prems obtain t as where f: "f s = Inr (t, as)" "window_ok t"
      unfolding list.pred_inject safe_def by blast
    with Cons obtain u bs where "runs fs t = Inr (u, bs)" "window_ok u"
      unfolding list.pred_inject safe_def by blast
    with f show "\<exists>s' as. runs (f # fs) s = Inr (s', as) \<and> window_ok s'" by simp
  qed
qed

lemma safe_message: "message_ok msg \<Longrightarrow> safe (statusMessage msg)"
  using statusMessage_ok window_add_line unfolding safe_def message_ok_def by blast

lemma safe_emit [simp]: "safe (emit as)"
  by (simp add: safe_def emit_def)

lemma safe_modify: "(\<And>s. window_ok (f s) = window_ok s) \<Longrightarrow> safe (modify f)"
  by (simp add: safe_def modify_def)

lemma safe_if: "list_all safe f \<Longrightarrow> list_all safe g \<Longrightarrow> safe (if_gui b f g)"
  using safe_runs [of f] safe_runs [of g] unfolding safe_def if_gui_def by simp

lemma safe_clear [simp]: "safe clearStatusBox"
  by (simp add: safe_def clearStatusBox_def emit_def modify_def window_ok_def shown_def)

lemma window_frame:
  "window_ok (s\<lparr>gCurrentState := a\<rparr>) = window_ok s" "window_ok (s\<lparr>ringing := b\<rparr>) = window_ok s"
  "window_ok (s\<lparr>redraw := b\<rparr>) = window_ok s" "window_ok (s\<lparr>gCaller := c, gCallerIndex := a\<rparr>) = window_ok s"
  "window_ok (s\<lparr>gCaller := c\<rparr>) = window_ok s" "window_ok (s\<lparr>gCallerIndex := a\<rparr>) = window_ok s"
  "window_ok (s\<lparr>gStartup := a\<rparr>) = window_ok s" "window_ok (s\<lparr>gContacts := d, gContactsCount := a\<rparr>) = window_ok s"
  by (simp_all add: window_ok_def shown_def)

lemma safe_incoming:
  assumes "event_ok (IN_INCOMING_CALL caller idx)"
  shows "safe (handle_incoming caller idx)"
  unfolding safe_def
proof (intro allI impI)
  fix s
  assume w: "window_ok s"
  let ?c = "case caller of Some c \<Rightarrow> c | None \<Rightarrow> ''Unknown''"
  let ?t = "s\<lparr>ringing := True, gCaller := ?c, gCallerIndex := idx\<rparr>"
  have m: "message_ok (''Incoming call... '' @ ?c)" using assms by (auto simp: message_ok_def split: option.splits)
  have "window_ok ?t" using w by (simp add: window_ok_def shown_def)
  from statusMessage_ok [OF this m] obtain as where
    "statusMessage (''Incoming call... '' @ ?c) ?t = Inr (add_line (''Incoming call... '' @ ?c) ?t, as)" by blast
  moreover have "window_ok (add_line (''Incoming call... '' @ ?c) ?t)"
    using \<open>window_ok ?t\<close> m by (simp add: window_add_line message_ok_def)
  moreover have "strcpy_to 100 ?c = Inr ?c" using assms by (auto simp: strcpy_to_def split: option.splits)
  ultimately show "\<exists>s' as. handle_incoming caller idx s = Inr (s', as) \<and> window_ok s'"
    by (simp add: handle_incoming_def playRinger_def using_res_def modify_def emit_def if_gui_def setRedraw_def window_frame)
qed

lemma safe_startup: "st \<in> {0, 1, 2} \<Longrightarrow> safe (handle_startup st)"
proof -
  have parts: "safe (modify (\<lambda>s. s\<lparr>gStartup := st\<rparr>))" by (intro safe_modify) (simp add: window_frame)
  have fixed: "message_ok ''Starting up...''" "message_ok ''Registering with server...''" "message_ok ''Ready.''"
    by (simp_all add: message_ok_def)
  assume "st \<in> {0, 1, 2}"
  then show ?thesis
    unfolding handle_startup_def by (intro safe_runs) (auto simp: safe_runs safe_message fixed parts)
qed

lemma CallbackEventHandler_startup:
  "window_ok s \<Longrightarrow> \<exists>s' as. CallbackEventHandler (IN_STARTUP 0) s = Inr (s', as)"
  using safe_startup [of 0] by (auto simp: CallbackEventHandler_def safe_def)

text \<open>
  The handler of the engine's events never faults and keeps the status window intact for
  every event whose texts fit a row and contain no percent sign.
\<close>

theorem CallbackEventHandler_safe:
  assumes "window_ok s" "event_ok ev"
  shows "\<exists>s' as. CallbackEventHandler ev s = Inr (s', as) \<and> window_ok s'"
proof -
  have fixed: "message_ok ''Call cancelled''" "message_ok ''Call established''" "message_ok ''Starting up...''"
    "message_ok ''Registering with server...''" "message_ok ''Ready.''"
    by (simp_all add: message_ok_def)
  have parts: "safe stopRinger" "safe (setRedraw b)" "safe (modify (\<lambda>s. s\<lparr>gCurrentState := n\<rparr>))"
      "safe (modify (\<lambda>s. s\<lparr>gCaller := [], gCallerIndex := - 1\<rparr>))" "safe (modify (\<lambda>s. s\<lparr>gStartup := n\<rparr>))"
      "safe (modify (\<lambda>s. s\<lparr>gContacts := d, gContactsCount := n\<rparr>))" for b n d
    unfolding stopRinger_def setRedraw_def by (intro safe_modify; simp add: window_frame)+
  have "safe (CallbackEventHandler ev)"
  proof (cases ev)
    case (IN_INCOMING_CALL caller idx)
    with assms(2) show ?thesis by (simp add: CallbackEventHandler_def safe_incoming)
  next
    case (IN_SIP_STATE st)
    have "safe (handle_sip_state st)"
      unfolding handle_sip_state_def
      by (intro safe_runs) (simp add: safe_if safe_runs safe_message fixed parts)
    with IN_SIP_STATE show ?thesis by (simp add: CallbackEventHandler_def)
  next
    case (IN_STARTUP st)
    with assms(2) have "safe (handle_startup st)" by (intro safe_startup) simp
    with IN_STARTUP show ?thesis by (simp add: CallbackEventHandler_def)
  next
    case (IN_ADDRESS_BOOK book n)
    with assms(2) show ?thesis by (simp add: CallbackEventHandler_def safe_runs safe_message parts)
  next
    case (IN_INFO_MESSAGE msg)
    with assms(2) have "statusMessage_format msg = statusMessage msg"
      by (simp add: statusMessage_format_def using_res_def format_noargs_plain message_ok_def fun_eq_iff)
    with IN_INFO_MESSAGE assms(2) show ?thesis
      by (simp add: CallbackEventHandler_def safe_if safe_message)
  next
    case (IN_ERROR_MESSAGE msg)
    with assms(2) have "statusMessage_format msg = statusMessage msg"
      by (simp add: statusMessage_format_def using_res_def format_noargs_plain message_ok_def fun_eq_iff)
    with IN_ERROR_MESSAGE assms(2) show ?thesis
      by (simp add: CallbackEventHandler_def safe_runs safe_message)
  qed
  with assms(1) show ?thesis unfolding safe_def by blast
qed

theorem CallbackEventHandler_safe_witness:
  "\<exists>s' as. CallbackEventHandler (IN_INCOMING_CALL (Some ''Bob'') (- 1)) gui_initial = Inr (s', as) \<and> window_ok s'"
  by (rule CallbackEventHandler_safe)
     (simp_all add: window_ok_def gui_initial_def MAX_STATUS_LINES_def shown_def)

end
