(* ===== verification/Phone.thy ===== *)
theory Phone
  imports Call_Correct Text_Gui
begin

text \<open>
  The phone: the engine's thread and the user interface together. The engine calls the interface's
  handler for each of its events, in order; a button may hand an event to the engine's thread, which
  runs it at the head of its loop while the interface waits. The handler and the drawing of the main
  loop are taken to run one after the other.
\<close>

section \<open>Events from the engine to the interface\<close>

fun events :: "action list \<Rightarrow> in_event list" where
  "events [] = []"
| "events (Event e # as) = e # events as"
| "events (_ # as) = events as"

definition deliver :: "action list \<Rightarrow> gui_op" where
  "deliver as = runs (map CallbackEventHandler (events as))"

inductive phone_reach :: "engine \<Rightarrow> gui \<Rightarrow> bool" where
  start: "runs [setupCallThread thid, CallThread_enter env] (engine_initial c) = Inr (e, as) \<Longrightarrow>
    deliver as gui_initial = Inr (g, ds) \<Longrightarrow> phone_reach e g"
| round: "phone_reach e g \<Longrightarrow> thread e = Running \<Longrightarrow> CallThread_step env None je e = Inr (e', as) \<Longrightarrow>
    deliver as g = Inr (g', ds) \<Longrightarrow> phone_reach e' g'"
| button: "phone_reach e g \<Longrightarrow> press b g = Inr (pre, Some ev, post) \<Longrightarrow> runs pre g = Inr (g1, ps) \<Longrightarrow>
    SIPEngineDoEvent_notifies e \<Longrightarrow> thread e = Running \<Longrightarrow>
    CallThread_step env (Some ev) je e = Inr (e1, as) \<Longrightarrow> deliver as g1 = Inr (g2, ds) \<Longrightarrow>
    \<not> SIPEngineDoEvent_waits e1 \<Longrightarrow> SIPEngineDoEvent_return e1 = Inr (e2, bs) \<Longrightarrow>
    runs post g2 = Inr (g3, qs) \<Longrightarrow> phone_reach e2 g3"
| local: "phone_reach e g \<Longrightarrow> press b g = Inr (pre, None, post) \<Longrightarrow> runs (pre @ post) g = Inr (g', ps) \<Longrightarrow>
    phone_reach e g'"
| shutdown: "phone_reach e g \<Longrightarrow> g_quit g \<Longrightarrow> main_end g = Inr (g1, ps) \<Longrightarrow> thread e = Running \<Longrightarrow>
    CallThread_step env (Some OUT_SHUTDOWN) je e = Inr (e1, as) \<Longrightarrow> deliver as g1 = Inr (g2, ds) \<Longrightarrow>
    phone_reach e1 g2"

inductive_cases phone_reach_cases: "phone_reach e g"

section \<open>The engine announces its state\<close>

text \<open>The state last announced by a trace.\<close>

fun announced :: "int \<Rightarrow> in_event list \<Rightarrow> int" where
  "announced d [] = d"
| "announced d (IN_SIP_STATE c # es) = announced c es"
| "announced d (_ # es) = announced d es"

lemma announced_append: "announced d (es @ fs) = announced (announced d es) fs"
  by (induction d es rule: announced.induct) simp_all

lemma events_append [simp]: "events (as @ bs) = events as @ events bs"
  by (induction as rule: events.induct) simp_all

lemma events_map [simp]: "events (map Rtp as) = []" "events (map Publish ps) = []"
  by (induction as; simp) (induction ps; simp)

text \<open>Operations after which the last announcement is the state entered.\<close>

definition mirrors :: "engine_op \<Rightarrow> bool" where
  "mirrors f \<longleftrightarrow> (\<forall>s s' as. f s = Inr (s', as) \<longrightarrow>
     announced (sip_code (currentState s)) (events as) = sip_code (currentState s'))"

lemma mirrorsI:
  "(\<And>s s' as. f s = Inr (s', as) \<Longrightarrow> announced (sip_code (currentState s)) (events as) = sip_code (currentState s')) \<Longrightarrow>
    mirrors f"
  by (simp add: mirrors_def)

lemma mirrorsD: "mirrors f \<Longrightarrow> f s = Inr (s', as) \<Longrightarrow>
    announced (sip_code (currentState s)) (events as) = sip_code (currentState s')"
  by (simp add: mirrors_def)

lemma mirrors_runs: "list_all mirrors fs \<Longrightarrow> mirrors (runs fs)"
proof (induction fs)
  case Nil
  then show ?case by (simp add: mirrors_def)
next
  case (Cons f fs)
  then have f: "mirrors f" and fs: "mirrors (runs fs)" by simp_all
  show ?case
  proof (rule mirrorsI)
    fix s s' as
    assume "runs (f # fs) s = Inr (s', as)"
    then obtain t bs cs where "f s = Inr (t, bs)" "runs fs t = Inr (s', cs)" "as = bs @ cs"
      by (auto simp: bindR_eq_Inr)
    with mirrorsD [OF f, of s t bs] mirrorsD [OF fs, of t s' cs]
    show "announced (sip_code (currentState s)) (events as) = sip_code (currentState s')"
      by (simp add: announced_append)
  qed
qed

lemma mirrors_emit: "(\<And>d. announced d (events as) = d) \<Longrightarrow> mirrors (emit as)"
  by (simp add: mirrors_def emit_def)

lemma mirrors_event: "(\<And>d. announced d [e] = d) \<Longrightarrow> mirrors (event e)"
  unfolding event_def by (rule mirrors_emit) simp

lemma mirrors_messages [simp]:
  "mirrors (event (InfoMessage t))" "mirrors (event (ErrorMessage t))" "mirrors (event (IN_STARTUP n))"
  "mirrors (event (IN_INCOMING_CALL c i))"
  by (rule mirrors_event; simp add: InfoMessage_def ErrorMessage_def)+

lemma mirrors_modify: "(\<And>s. currentState (f s) = currentState s) \<Longrightarrow> mirrors (modify f)"
  by (simp add: mirrors_def modify_def)

lemma mirrors_if:
  assumes "list_all mirrors f" "list_all mirrors g"
  shows "mirrors (if_op b f g)"
proof (rule mirrorsI)
  fix s s' as
  assume "if_op b f g s = Inr (s', as)"
  then have "(if b s then runs f s else runs g s) = Inr (s', as)" by (simp only: if_op_def)
  then show "announced (sip_code (currentState s)) (events as) = sip_code (currentState s')"
    using mirrorsD [OF mirrors_runs [OF assms(1)], of s s' as] mirrorsD [OF mirrors_runs [OF assms(2)], of s s' as]
    by (cases "b s") simp_all
qed

lemma mirrors_using: "(\<And>x. mirrors (f x)) \<Longrightarrow> mirrors (using_res r f)"
  by (rule mirrorsI) (auto simp: using_res_def bindR_eq_Inr dest: mirrorsD)

lemma mirrors_using_state: "(\<And>x. mirrors (f x)) \<Longrightarrow> mirrors (\<lambda>s. using_res (r s) f s)"
  by (rule mirrorsI) (auto simp: using_res_def bindR_eq_Inr dest: mirrorsD)

lemma mirrors_media:
  "mirrors (on_audio f)" "mirrors (on_video g)" "mirrors (setup_media env t i)"
  by (rule mirrorsI; auto simp: on_audio_def on_video_def setup_media_def Let_def split_def bindR_eq_Inr
      simp del: map_append)+

lemma mirrors_ChangeState: "st \<noteq> eDISCONNECTING \<Longrightarrow> mirrors (ChangeState st)"
  by (rule mirrorsI) (auto simp: ChangeState_eq announce_def)

lemma mirrors_state_emit: "(\<And>s d. announced d (events (f s)) = d) \<Longrightarrow> mirrors (\<lambda>s. emit (f s) s)"
  by (simp add: mirrors_def emit_def)

lemma mirrors_local_sdp: "(\<And>sdp. mirrors (f sdp)) \<Longrightarrow> mirrors (local_sdp env remote f)"
proof (rule mirrorsI)
  fix s s' as
  assume f: "\<And>sdp. mirrors (f sdp)" and "local_sdp env remote f s = Inr (s', as)"
  then obtain p sdp where "f sdp (s\<lparr>e_ports := p\<rparr>) = Inr (s', as)" by (auto simp: local_sdp_def bindR_eq_Inr)
  with mirrorsD [OF f this] show "announced (sip_code (currentState s)) (events as) = sip_code (currentState s')"
    by simp
qed

lemmas mirrors_simps = mirrors_runs mirrors_emit mirrors_modify mirrors_if mirrors_using mirrors_using_state
  mirrors_media mirrors_ChangeState mirrors_state_emit

lemma mirrors_stop_media: "mirrors stop_media"
  unfolding stop_media_def by (rule mirrors_runs) (simp add: mirrors_media)

lemma mirrors_hangup: "mirrors hangupCall"
  unfolding hangupCall_def
  by (intro mirrors_runs) (simp add: mirrors_if mirrors_stop_media mirrors_emit mirrors_modify mirrors_ChangeState mirrors_state_emit)

lemma mirrors_makeCall: "mirrors (makeCall env user)"
proof -
  have "mirrors (\<lambda>s. using_res (config_get_user_uri (e_config s)) (\<lambda>uri.
            if \<not> en_invite env then event (ErrorMessage ''Failed invite build'')
            else local_sdp env None (\<lambda>sdp. runs
              [emit [Lock, Call_invite user uri sdp],
               event (InfoMessage ''Sent invite''),
               emit [Unlock],
               ChangeState eIN_CALL,
               event (InfoMessage ''Now in call'')])) s)"
    by (intro mirrors_using_state)
       (auto intro!: mirrors_local_sdp mirrors_runs simp: mirrors_emit mirrors_ChangeState)
  then show ?thesis unfolding makeCall_def by (intro mirrors_runs) (simp add: mirrors_if)
qed

lemma mirrors_answerCall: "mirrors (answerCall env)"
proof (rule mirrorsI)
  fix s s' as
  assume "answerCall env s = Inr (s', as)"
  then show "announced (sip_code (currentState s)) (events as) = sip_code (currentState s')"
    by (auto simp: answerCall_def if_op_def emit_def local_sdp_def bindR_eq_Inr split: if_split_asm)
qed

lemma mirrors_disconnect: "mirrors disconnectSipServer"
proof -
  have "mirrors (if_op (\<lambda>s. currentState s = eREGISTERED)
         [ChangeState eDISCONNECTING, emit [Lock],
          \<lambda>s. emit [Register_build (rid s) 0, Register_send (rid s)] s, emit [Lock]]
         [if_op (\<lambda>s. 0 < callThid s) [modify (\<lambda>s. s\<lparr>quit := True\<rparr>)]
            [emit [Close_log], modify (\<lambda>s. s\<lparr>callback_done := True\<rparr>)]])"
    by (rule mirrorsI) (auto simp: if_op_def emit_def modify_def ChangeState_eq announce_def split: if_split_asm)
  then show ?thesis
    unfolding disconnectSipServer_def by (intro mirrors_runs) (simp add: mirrors_if mirrors_hangup)
qed

lemma mirrors_GuiCallback: "mirrors (GuiCallback env ev)"
proof -
  have call: "mirrors (using_res (call_address a) (\<lambda>a. runs [event (InfoMessage (f a)), makeCall env a]))" for a f
    by (intro mirrors_using mirrors_runs) (simp add: mirrors_makeCall)
  have presence: "mirrors (\<lambda>s. using_res (update_presence (en_publish env) (e_config s) p) (\<lambda>acts. emit (map Publish acts)) s)" for p
    by (rule mirrors_using_state) (simp add: mirrors_emit)
  show ?thesis
    unfolding GuiCallback_def
    by (intro mirrors_runs)
       (cases ev; simp add: call presence mirrors_modify mirrors_answerCall mirrors_hangup mirrors_disconnect mirrors_emit)
qed

lemma mirrors_register_step: "mirrors (register_step env)"
proof -
  have "mirrors (\<lambda>s. using_res (config_get_user_uri (e_config s)) (\<lambda>user_uri.
          using_res (config_get_server_uri (e_config s)) (\<lambda>server_uri. emit [Register_initial user_uri server_uri])) s)"
    by (rule mirrorsI) (auto simp: using_res_def bindR_eq_Inr emit_def)
  then show ?thesis
    unfolding register_step_def return_from_thread_def
    by (intro mirrors_if) (auto intro!: mirrors_runs simp: mirrors_emit mirrors_modify mirrors_ChangeState)
qed

lemma mirrors_subscriptions: "mirrors (subscription_notify je)" "mirrors (subscription_new env je)"
  unfolding subscription_notify_def subscription_new_def return_from_thread_def Let_def
  by (cases "body je"; simp add: mirrors_emit)
     (intro mirrors_runs, auto intro!: mirrors_runs simp: mirrors_emit mirrors_modify)

lemma mirrors_notify_proc: "mirrors (notify_proc t)"
  unfolding notify_proc_def by (rule mirrors_if) (simp_all add: mirrors_emit)

lemma mirrors_handlers:
  "mirrors (handle_registering je)" "mirrors (handle_registered env je)" "mirrors (handle_in_call env je)"
  "mirrors (handle_answered je)" "mirrors (handle_disconnecting je)"
  unfolding handle_registering_def handle_registered_def handle_in_call_def handle_answered_def handle_disconnecting_def Let_def
  by (cases "ev_type je"; auto intro!: mirrors_runs mirrors_if simp: mirrors_emit mirrors_modify mirrors_ChangeState
      mirrors_media mirrors_stop_media mirrors_subscriptions mirrors_notify_proc)+

lemma mirrors_handle_event: "mirrors (handle_event env je)"
proof -
  have "mirrors (\<lambda>s. (case currentState s of
           eNOT_REGISTERED \<Rightarrow> emit []
         | eREGISTERING \<Rightarrow> handle_registering je
         | eREGISTERED \<Rightarrow> handle_registered env je
         | eIN_CALL \<Rightarrow> handle_in_call env je
         | eINCOMING_CALL \<Rightarrow> handle_in_call env je
         | eANSWERED \<Rightarrow> handle_answered je
         | eDISCONNECTING \<Rightarrow> handle_disconnecting je) s)"
    by (rule mirrorsI)
       (auto simp: emit_def split: call_state.split_asm dest: mirrorsD [OF mirrors_handlers(1)]
         mirrorsD [OF mirrors_handlers(2)] mirrorsD [OF mirrors_handlers(3)] mirrorsD [OF mirrors_handlers(4)]
         mirrorsD [OF mirrors_handlers(5)])
  then show ?thesis unfolding handle_event_def by (intro mirrors_runs) (simp add: mirrors_using)
qed

lemma mirrors_CallThread_step: "mirrors (CallThread_step env pending je)"
proof -
  have "mirrors (CallThread_round env pending je)"
    unfolding CallThread_round_def
    by (intro mirrors_runs)
       (cases pending; cases je; simp add: mirrors_emit mirrors_if mirrors_GuiCallback mirrors_register_step mirrors_handle_event)
  moreover have "mirrors CallThread_leave"
    unfolding CallThread_leave_def by (intro mirrors_runs) (simp add: mirrors_emit mirrors_modify)
  ultimately show ?thesis unfolding CallThread_step_def by (intro mirrors_if) simp_all
qed

section \<open>The interface follows\<close>

definition keeps_state :: "gui_op \<Rightarrow> bool" where
  "keeps_state f \<longleftrightarrow> (\<forall>g g' as. f g = Inr (g', as) \<longrightarrow> gCurrentState g' = gCurrentState g)"

lemma keeps_runs: "list_all keeps_state fs \<Longrightarrow> keeps_state (runs fs)"
proof (induction fs)
  case Nil
  then show ?case by (simp add: keeps_state_def)
next
  case (Cons f fs)
  then have "keeps_state f" "keeps_state (runs fs)" by simp_all
  then show ?case by (fastforce simp: keeps_state_def bindR_eq_Inr)
qed

lemma keeps_emit [simp]: "keeps_state (emit as)"
  by (simp add: keeps_state_def emit_def)

lemma keeps_modify: "(\<And>g. gCurrentState (f g) = gCurrentState g) \<Longrightarrow> keeps_state (modify f)"
  by (simp add: keeps_state_def modify_def)

lemma keepsD: "keeps_state f \<Longrightarrow> f g = Inr (g', as) \<Longrightarrow> gCurrentState g' = gCurrentState g"
  by (simp add: keeps_state_def)

lemma keeps_if:
  assumes "list_all keeps_state f" "list_all keeps_state h"
  shows "keeps_state (if_gui b f h)"
  unfolding keeps_state_def
proof (intro allI impI)
  fix g g' as
  assume "if_gui b f h g = Inr (g', as)"
  then have "(if b g then runs f g else runs h g) = Inr (g', as)" by (simp only: if_gui_def)
  then show "gCurrentState g' = gCurrentState g"
    using keepsD [OF keeps_runs [OF assms(1)], of g g' as] keepsD [OF keeps_runs [OF assms(2)], of g g' as]
    by (cases "b g") simp_all
qed

lemma keeps_using: "(\<And>x. keeps_state (f x)) \<Longrightarrow> keeps_state (\<lambda>g. using_res (r g) f g)"
  by (auto simp: keeps_state_def using_res_def bindR_eq_Inr)

lemma keeps_clear [simp]: "keeps_state clearStatusBox"
  unfolding clearStatusBox_def by (rule keeps_runs) (simp add: keeps_modify)

lemma keeps_message [simp]: "keeps_state (statusMessage m)"
proof -
  have "gCurrentState (add_line l g) = gCurrentState g" for l g by (simp add: add_line_def Let_def)
  moreover have "keeps_state displayStatusLines"
    unfolding displayStatusLines_def by (intro keeps_runs) (simp add: keeps_using)
  ultimately show ?thesis
    unfolding statusMessage_def by (intro keeps_runs) (simp add: keeps_using keeps_modify)
qed

lemma keeps_message_format [simp]: "keeps_state (statusMessage_format m)"
  unfolding statusMessage_format_def using keeps_using [of statusMessage "\<lambda>g. format_noargs m"] by simp

lemma keeps_redraw [simp]: "keeps_state (setRedraw b)"
  unfolding setRedraw_def by (rule keeps_modify) simp

lemma keeps_ringer [simp]: "keeps_state playRinger" "keeps_state stopRinger"
  unfolding playRinger_def stopRinger_def by (intro keeps_runs keeps_modify; simp add: keeps_modify keeps_if)+

lemma keeps_DisplayMenu [simp]: "keeps_state DisplayMenu"
proof -
  have "keeps_state menu_body"
    by (auto simp: keeps_state_def menu_body_def Let_def bindR_eq_Inr split: if_split_asm)
  moreover have "keeps_state displayCallState" "keeps_state displaySIPState"
    by (simp_all add: keeps_state_def displayCallState_def displaySIPState_def emit_def)
  ultimately show ?thesis unfolding DisplayMenu_def by (intro keeps_if) simp_all
qed

lemma runs_modify: "runs (modify f # fs) s = runs fs (f s)"
  by (cases "runs fs (f s)") (auto simp: modify_def)

lemma runs_append_last:
  assumes "runs (fs @ hs) g = Inr (g', as)"
  obtains h bs where "runs hs h = Inr (g', bs)"
  using assms
proof (induction fs arbitrary: g as thesis)
  case Nil
  then show ?case by simp
next
  case (Cons f fs)
  from Cons.prems(2) obtain h cs where "runs (fs @ hs) h = Inr (g', cs)" by (auto simp: bindR_eq_Inr)
  with Cons.IH Cons.prems(1) show ?case by blast
qed

lemma handler_state:
  assumes "CallbackEventHandler ev g = Inr (g', as)"
  shows "gCurrentState g' = announced (gCurrentState g) [ev]"
proof (cases ev)
  case (IN_SIP_STATE st)
  let ?front = "[if_gui (\<lambda>s. SUI_SIP_STATE_CONNECTED < gCurrentState s \<and> st \<le> SUI_SIP_STATE_CONNECTED)
         [clearStatusBox, statusMessage ''Call cancelled''] [],
       if st = SUI_SIP_STATE_ESTABLISHED \<or> st = SUI_SIP_STATE_CONNECTED then stopRinger else emit [],
       if st = SUI_SIP_STATE_ESTABLISHED then runs [clearStatusBox, statusMessage ''Call established''] else emit []]"
  let ?rear = "[if_gui (\<lambda>s. gCurrentState s = SUI_SIP_STATE_CONNECTED)
         [modify (\<lambda>s. s\<lparr>gCaller := [], gCallerIndex := - 1\<rparr>)] [], setRedraw True]"
  have "runs (?front @ modify (\<lambda>s. s\<lparr>gCurrentState := st\<rparr>) # ?rear) g = Inr (g', as)"
    using assms IN_SIP_STATE by (simp only: CallbackEventHandler_def handle_sip_state_def in_event.case append.simps)
  then obtain h bs where "runs (modify (\<lambda>s. s\<lparr>gCurrentState := st\<rparr>) # ?rear) h = Inr (g', bs)"
    by (rule runs_append_last)
  then have tail_run: "runs ?rear (h\<lparr>gCurrentState := st\<rparr>) = Inr (g', bs)" by (simp only: runs_modify)
  have "keeps_state (runs ?rear)" by (intro keeps_runs) (simp add: keeps_if keeps_modify)
  from keepsD [OF this tail_run] have "gCurrentState g' = st" by simp
  with IN_SIP_STATE show ?thesis by simp
next
  case (IN_INCOMING_CALL caller idx)
  have "keeps_state (\<lambda>s. statusMessage (m s) s)" for m
    using keeps_message unfolding keeps_state_def by blast
  then have "keeps_state (handle_incoming caller idx)"
    unfolding handle_incoming_def
    using keeps_using [of "\<lambda>c. modify (\<lambda>s. s\<lparr>gCaller := c\<rparr>)" "\<lambda>g. strcpy_to 100 (case caller of Some c \<Rightarrow> c | None \<Rightarrow> ''Unknown'')"]
    by (intro keeps_runs) (simp add: keeps_modify)
  with assms IN_INCOMING_CALL show ?thesis by (simp add: CallbackEventHandler_def keeps_state_def)
next
  case (IN_STARTUP st)
  have "keeps_state (handle_startup st)"
    unfolding handle_startup_def by (intro keeps_runs) (simp add: keeps_modify keeps_runs)
  with assms IN_STARTUP show ?thesis by (simp add: CallbackEventHandler_def keeps_state_def)
next
  case (IN_ADDRESS_BOOK book n)
  have "keeps_state (CallbackEventHandler ev)"
    unfolding IN_ADDRESS_BOOK CallbackEventHandler_def in_event.case
    by (intro keeps_runs) (simp add: keeps_modify)
  with assms IN_ADDRESS_BOOK show ?thesis by (simp add: keeps_state_def)
next
  case (IN_INFO_MESSAGE msg)
  have "keeps_state (CallbackEventHandler ev)"
    unfolding IN_INFO_MESSAGE CallbackEventHandler_def in_event.case by (intro keeps_if) simp_all
  with assms IN_INFO_MESSAGE show ?thesis by (simp add: keeps_state_def)
next
  case (IN_ERROR_MESSAGE msg)
  have "keeps_state (CallbackEventHandler ev)"
    unfolding IN_ERROR_MESSAGE CallbackEventHandler_def in_event.case by (intro keeps_runs) simp
  with assms IN_ERROR_MESSAGE show ?thesis by (simp add: keeps_state_def)
qed

lemma deliver_state: "deliver as g = Inr (g', ds) \<Longrightarrow> gCurrentState g' = announced (gCurrentState g) (events as)"
proof -
  have "runs (map CallbackEventHandler es) g = Inr (g', ds) \<Longrightarrow> gCurrentState g' = announced (gCurrentState g) es" for es
  proof (induction es arbitrary: g ds)
    case Nil
    then show ?case by simp
  next
    case (Cons e es)
    then obtain h bs cs where "CallbackEventHandler e g = Inr (h, bs)" "runs (map CallbackEventHandler es) h = Inr (g', cs)"
      by (auto simp: bindR_eq_Inr)
    with Cons.IH handler_state announced_append [of "gCurrentState g" "[e]" es] show ?case by auto
  qed
  then show "deliver as g = Inr (g', ds) \<Longrightarrow> ?thesis" by (simp add: deliver_def)
qed

lemma press_keeps:
  assumes "press b g = Inr (pre, ev, post)"
  shows "list_all keeps_state pre" "list_all keeps_state post"
proof -
  have using_name: "keeps_state (using_res r (\<lambda>n. modify (\<lambda>s. s\<lparr>gCallee := n\<rparr>)))" for r
    using keeps_using [of "\<lambda>n. modify (\<lambda>s. s\<lparr>gCallee := n\<rparr>)" "\<lambda>g. r"] by (simp add: keeps_modify)
  have keys: "list_all keeps_state (global_keys b)"
    by (cases b) (simp_all add: global_keys_def keeps_modify keeps_if)
  from assms obtain post' where p: "press_in_state b g = Inr (pre, ev, post')" "post = post' @ global_keys b @ [DisplayMenu]"
    by (auto simp: press_def bindR_eq_Inr)
  have "list_all keeps_state pre \<and> list_all keeps_state post'"
    using p(1)
    by (cases b) (auto simp: press_in_state_def press_connected_def bindR_eq_Inr Let_def keeps_modify using_name split: if_split_asm)
  with keys p(2) show "list_all keeps_state pre" "list_all keeps_state post" by simp_all
qed

section \<open>The phone shows the state it is in\<close>

definition phone_ok :: "engine \<Rightarrow> gui \<Rightarrow> bool" where
  "phone_ok e g \<longleftrightarrow> gCurrentState g = sip_code (currentState e) \<and> engine_ok e"

lemma phone_reach_ok: "phone_reach e g \<Longrightarrow> phone_ok e g"
proof (induction rule: phone_reach.induct)
  case (start thid env c e as g ds)
  have "mirrors (runs [setupCallThread thid, CallThread_enter env])"
    unfolding setupCallThread_def CallThread_enter_def
    by (intro mirrors_runs) (simp add: mirrors_runs mirrors_emit mirrors_modify)
  from mirrorsD [OF this start(1)] deliver_state [OF start(2)] goodD(1) [OF good_start engine_initial_ok(1) start(1)]
  show ?case by (simp add: phone_ok_def engine_initial_def gui_initial_def SUI_SIP_STATE_defs)
next
  case (round e g env je e' as g' ds)
  then have "gCurrentState g = sip_code (currentState e)" "engine_ok e" by (simp_all add: phone_ok_def)
  with mirrorsD [OF mirrors_CallThread_step round(3)] deliver_state [OF round(4)]
    goodD(1) [OF good_CallThread_step _ round(3)] show ?case by (simp add: phone_ok_def)
next
  case (button e g b pre ev post g1 ps env je e1 as g2 ds e2 bs g3 qs)
  from press_keeps [OF button(2)] have k: "keeps_state (runs pre)" "keeps_state (runs post)" by (simp_all add: keeps_runs)
  have "gCurrentState g1 = gCurrentState g" "gCurrentState g3 = gCurrentState g2"
    using keepsD [OF k(1) button(3)] keepsD [OF k(2) button(10)] by simp_all
  moreover have "gCurrentState g = sip_code (currentState e)" "engine_ok e" using button by (simp_all add: phone_ok_def)
  moreover have "currentState e2 = currentState e1" "engine_ok e2 = engine_ok e1"
    using button(9) by (auto simp: SIPEngineDoEvent_return_def modify_def engine_ok_def)
  ultimately show ?case
    using mirrorsD [OF mirrors_CallThread_step button(6)] deliver_state [OF button(7)]
      goodD(1) [OF good_CallThread_step _ button(6)] by (simp add: phone_ok_def)
next
  case (local e g b pre post g' ps)
  from press_keeps [OF local(2)] have "keeps_state (runs (pre @ post))" by (intro keeps_runs) simp
  from keepsD [OF this local(3)] local(4) show ?case by (simp add: phone_ok_def)
next
  case (shutdown e g g1 ps env je e1 as g2 ds)
  have "keeps_state main_end" unfolding main_end_def by (rule keeps_runs) simp
  from keepsD [OF this shutdown(3)] have "gCurrentState g1 = gCurrentState g" .
  moreover have "gCurrentState g = sip_code (currentState e)" "engine_ok e" using shutdown by (simp_all add: phone_ok_def)
  ultimately show ?case
    using mirrorsD [OF mirrors_CallThread_step shutdown(5)] deliver_state [OF shutdown(6)]
      goodD(1) [OF good_CallThread_step _ shutdown(5)] by (simp add: phone_ok_def)
qed



end
