(* ===== verification/Addressbook.thy ===== *)
theory Addressbook
  imports Sip_If
begin

text \<open>
  The address book, SIPEngine/addressbook.c: the array of 20 contacts, the line parser of
  contacts.txt and the event that hands the array to the user interface. The lines are comma
  separated; \<open>strtok\<close> merges adjacent commas, so no field can be empty.
\<close>

section \<open>The array and the parser\<close>

record addressbook =
  contacts :: "contact list"
  maxContact :: nat

definition no_contact :: contact where
  "no_contact = \<lparr>nickname = [], firstname = [], lastname = [], sipuri = []\<rparr>"

definition addressbook_initial :: addressbook where
  "addressbook_initial = \<lparr>contacts = replicate 20 no_contact, maxContact = 0\<rparr>"

definition strip :: "string \<Rightarrow> string" where
  "strip buf = takeWhile (\<lambda>c. c \<noteq> LF) (takeWhile (\<lambda>c. c \<noteq> CR) buf)"

text \<open>One field: the token is cut at its line end and copied into 128 bytes of the entry.\<close>

definition copy_field :: "(string \<Rightarrow> contact \<Rightarrow> contact) \<Rightarrow> string \<Rightarrow> contact \<Rightarrow> contact res" where
  "copy_field setter value con = bindR (strcpy_to 128 (strip value)) (\<lambda>v. Inr (setter v con))"

text \<open>
  The body of the loop. The entry's address is taken before the line is looked at; the first copy
  through it is the first access, and it is outside the array when 20 entries are in use.
\<close>

definition addressbook_line :: "string \<Rightarrow> addressbook \<Rightarrow> addressbook res" where
  "addressbook_line line book =
     (let n = maxContact book;
          store = (\<lambda>con. book\<lparr>contacts := (contacts book)[n := con]\<rparr>);
          keep = (\<lambda>con. (store con)\<lparr>maxContact := n + 1\<rparr>)
      in case strtok {CHR '',''} (cstr line) of
        None \<Rightarrow> Inr book
      | Some (value, rest) \<Rightarrow>
          if 20 \<le> n then Inl Out_of_bounds
          else bindR (copy_field (\<lambda>v con. con\<lparr>nickname := v\<rparr>) value (contacts book ! n)) (\<lambda>con.
          case strtok {CHR '',''} rest of
            None \<Rightarrow> Inr (store con)
          | Some (value, rest) \<Rightarrow>
              bindR (copy_field (\<lambda>v con. con\<lparr>sipuri := v\<rparr>) value con) (\<lambda>con.
              case strtok {CHR '',''} rest of
                None \<Rightarrow> Inr (keep con)
              | Some (value, rest) \<Rightarrow>
                  bindR (copy_field (\<lambda>v con. con\<lparr>firstname := v\<rparr>) value con) (\<lambda>con.
                  case strtok {CHR '',''} rest of
                    None \<Rightarrow> Inr (keep con)
                  | Some (value, rest) \<Rightarrow>
                      bindR (copy_field (\<lambda>v con. con\<lparr>lastname := v\<rparr>) value con) (\<lambda>con.
                      Inr (keep con))))))"

function addressbook_lines :: "string \<Rightarrow> addressbook \<Rightarrow> addressbook res" where
  "addressbook_lines file book =
     (case fgets 512 file of
        None \<Rightarrow> Inr book
      | Some (line, file') \<Rightarrow> bindR (addressbook_line line book) (addressbook_lines file'))"
  by pat_completeness auto
termination
  by (relation "measure (\<lambda>(file, book). length file)") (auto dest: fgets_shorter [rotated])

declare addressbook_lines.simps [simp del]

text \<open>
  The array is cleared before the file is opened; \<open>None\<close> is a file that cannot be opened. The
  result is the event raised, if any: its handler's return value, always 0, is the function's.
\<close>

definition parseAddressbook :: "string option \<Rightarrow> addressbook \<Rightarrow> (int \<times> addressbook \<times> in_event list) res" where
  "parseAddressbook file book =
     (let book = book\<lparr>contacts := replicate 20 no_contact\<rparr> in
      case file of
        None \<Rightarrow> Inr (- 1, book, [])
      | Some f \<Rightarrow> bindR (addressbook_lines f book) (\<lambda>book.
          Inr (0, book, [IN_ADDRESS_BOOK (take (maxContact book) (contacts book)) (int (maxContact book))])))"

section \<open>Printing and parsing\<close>

text \<open>
  What a line of the file means: a contact, or a line with fewer than two fields, which is skipped.
\<close>

datatype book_entry = Person contact | Skipped string

fun book_entry_text :: "book_entry \<Rightarrow> string" where
  "book_entry_text (Person p) =
     nickname p @ '','' @ sipuri p @
     (if firstname p = [] then [] else '','' @ firstname p @ (if lastname p = [] then [] else '','' @ lastname p))"
| "book_entry_text (Skipped t) = t"

definition print_book_entry :: "book_entry \<Rightarrow> string" where
  "print_book_entry e = book_entry_text e @ crlf"

definition field_ok :: "string \<Rightarrow> bool" where
  "field_ok s \<longleftrightarrow> set s \<inter> {CHR '','', CR, LF, NUL} = {} \<and> length s < 128"

fun book_entry_ok :: "book_entry \<Rightarrow> bool" where
  "book_entry_ok (Person p) \<longleftrightarrow>
     field_ok (nickname p) \<and> field_ok (sipuri p) \<and> field_ok (firstname p) \<and> field_ok (lastname p) \<and>
     nickname p \<noteq> [] \<and> sipuri p \<noteq> [] \<and> (lastname p \<noteq> [] \<longrightarrow> firstname p \<noteq> []) \<and>
     length (nickname p) + length (sipuri p) + length (firstname p) + length (lastname p) + 5 < 512"
| "book_entry_ok (Skipped t) \<longleftrightarrow> field_ok t"

text \<open>The abstract reading: contacts in order, and nothing past the twentieth.\<close>

fun read_book :: "contact list \<Rightarrow> book_entry list \<Rightarrow> contact list res" where
  "read_book cs [] = Inr cs"
| "read_book cs (e # es) =
     (if 20 \<le> length cs then Inl Out_of_bounds
      else read_book (case e of Person p \<Rightarrow> cs @ [p] | Skipped t \<Rightarrow> cs) es)"

text \<open>
  The array holds the contacts read, and the entries behind them have no URI or names yet (a
  skipped line may leave a nickname in the next one).
\<close>

definition book_rep :: "addressbook \<Rightarrow> contact list \<Rightarrow> bool" where
  "book_rep book cs \<longleftrightarrow>
     length (contacts book) = 20 \<and> maxContact book = length cs \<and> length cs \<le> 20 \<and>
     take (length cs) (contacts book) = cs \<and>
     (\<forall>i<20. length cs \<le> i \<longrightarrow> firstname (contacts book ! i) = [] \<and> lastname (contacts book ! i) = [])"

lemma strip_field: "field_ok s \<Longrightarrow> strip s = s" "field_ok s \<Longrightarrow> strip (s @ crlf) = s"
proof -
  assume ok: "field_ok s"
  then have "takeWhile (\<lambda>c. c \<noteq> CR) s = s" "takeWhile (\<lambda>c. c \<noteq> LF) s = s"
    by (auto simp: field_ok_def takeWhile_eq_all_conv)
  moreover have "takeWhile (\<lambda>c. c \<noteq> CR) (s @ crlf) = s"
    using ok by (subst takeWhile_append2) (auto simp: field_ok_def)
  ultimately show "strip s = s" "strip (s @ crlf) = s" unfolding strip_def by metis+
qed

lemma copy_field_ok:
  "field_ok s \<Longrightarrow> copy_field setter s con = Inr (setter s con)"
  "field_ok s \<Longrightarrow> copy_field setter (s @ crlf) con = Inr (setter s con)"
  by (simp_all add: copy_field_def strip_field strcpy_to_def) (simp_all add: field_ok_def)

lemma field_token: "field_ok s \<Longrightarrow> s \<noteq> [] \<Longrightarrow> strtok {CHR '',''} (s @ CHR '','' # rest) = Some (s, rest)"
  by (intro strtok_token) (auto simp: field_ok_def)

lemma field_last: "field_ok s \<Longrightarrow> strtok {CHR '',''} (s @ crlf) = Some (s @ crlf, [])"
  by (intro strtok_last) (auto simp: field_ok_def)

lemma field_end: "strtok {CHR '',''} [] = None"
  by (simp add: strtok_none)

lemmas field_simps = field_token field_last field_end copy_field_ok

lemma book_entry_text_line:
  assumes "book_entry_ok e"
  shows "LF \<notin> set (book_entry_text e)" "NUL \<notin> set (book_entry_text e)"
    "length (book_entry_text e) + 2 < 512"
  using assms by (cases e; simp add: field_ok_def)+

lemma print_book_entry_cstr: "book_entry_ok e \<Longrightarrow> cstr (print_book_entry e) = print_book_entry e"
  by (intro cstr_no_nul) (simp add: print_book_entry_def book_entry_text_line)

lemma print_book_entry_fgets:
  assumes "book_entry_ok e"
  shows "fgets 512 (print_book_entry e @ rest) = Some (print_book_entry e, rest)"
proof -
  have "fgets 512 ((book_entry_text e @ [CR]) @ LF # rest) = Some ((book_entry_text e @ [CR]) @ [LF], rest)"
    using book_entry_text_line [OF assms] line_of_full [of "book_entry_text e @ [CR]" 511 rest]
    by (simp add: fgets_def)
  then show ?thesis by (simp add: print_book_entry_def)
qed

lemma addressbook_line_full:
  assumes "book_entry_ok e" "20 \<le> maxContact book"
  shows "addressbook_line (print_book_entry e) book = Inl Out_of_bounds"
  using assms print_book_entry_cstr [OF assms(1)]
  by (cases e) (simp_all add: addressbook_line_def Let_def print_book_entry_def field_simps)

lemma addressbook_line_skipped:
  assumes "book_entry_ok (Skipped t)" "maxContact book < 20"
  shows "addressbook_line (print_book_entry (Skipped t)) book =
    Inr (book\<lparr>contacts := (contacts book)[maxContact book := (contacts book ! maxContact book)\<lparr>nickname := t\<rparr>]\<rparr>)"
  using assms print_book_entry_cstr [OF assms(1)]
  by (simp add: addressbook_line_def Let_def print_book_entry_def field_simps)

lemma addressbook_line_person:
  assumes "book_entry_ok (Person p)" "maxContact book < 20"
    "firstname (contacts book ! maxContact book) = []" "lastname (contacts book ! maxContact book) = []"
  shows "addressbook_line (print_book_entry (Person p)) book =
    Inr (book\<lparr>contacts := (contacts book)[maxContact book := p], maxContact := maxContact book + 1\<rparr>)"
  using assms print_book_entry_cstr [OF assms(1)]
  by (cases "contacts book ! maxContact book"; cases p; cases "firstname p = []"; cases "lastname p = []")
     (simp_all add: addressbook_line_def Let_def print_book_entry_def field_simps)

lemma book_rep_skipped:
  assumes "book_rep book cs" "length cs < 20"
  shows "book_rep (book\<lparr>contacts := (contacts book)[maxContact book := (contacts book ! maxContact book)\<lparr>nickname := t\<rparr>]\<rparr>) cs"
  using assms by (auto simp: book_rep_def nth_list_update)

lemma book_rep_person:
  assumes "book_rep book cs" "length cs < 20"
  shows "book_rep (book\<lparr>contacts := (contacts book)[maxContact book := p], maxContact := maxContact book + 1\<rparr>) (cs @ [p])"
  using assms by (auto simp: book_rep_def nth_list_update take_Suc_conv_app_nth)

text \<open>Reading a line refines reading an entry, faults included.\<close>

lemma addressbook_lines_refine:
  assumes "list_all book_entry_ok es" "book_rep book cs"
  shows "(case read_book cs es of
      Inl f \<Rightarrow> addressbook_lines (concat (map print_book_entry es)) book = Inl f
    | Inr cs' \<Rightarrow> \<exists>book'. addressbook_lines (concat (map print_book_entry es)) book = Inr book' \<and> book_rep book' cs')"
  using assms
proof (induction es arbitrary: book cs)
  case Nil
  then show ?case by (simp add: addressbook_lines.simps fgets_def)
next
  case (Cons e es)
  let ?rest = "concat (map print_book_entry es)"
  have ok: "book_entry_ok e" "list_all book_entry_ok es" using Cons.prems(1) by simp_all
  have max: "maxContact book = length cs" using Cons.prems(2) by (simp add: book_rep_def)
  have step: "addressbook_lines (print_book_entry e @ ?rest) book =
      bindR (addressbook_line (print_book_entry e) book) (addressbook_lines ?rest)"
    by (subst addressbook_lines.simps) (simp add: print_book_entry_fgets [OF ok(1)])
  show ?case
  proof (cases "20 \<le> length cs")
    case True
    then show ?thesis using addressbook_line_full [OF ok(1)] max by (simp add: step)
  next
    case False
    show ?thesis
    proof (cases e)
      case (Skipped t)
      then show ?thesis
        using Cons.IH [OF ok(2) book_rep_skipped [OF Cons.prems(2)], of t] False ok(1) max step
        by (simp add: addressbook_line_skipped split: sum.split_asm sum.split)
    next
      case (Person p)
      have "firstname (contacts book ! maxContact book) = []" "lastname (contacts book ! maxContact book) = []"
        using Cons.prems(2) False by (simp_all add: book_rep_def)
      then show ?thesis
        using Cons.IH [OF ok(2) book_rep_person [OF Cons.prems(2)], of p] Person False ok(1) max step
        by (simp add: addressbook_line_person split: sum.split_asm sum.split)
    qed
  qed
qed

text \<open>
  A file of well-formed lines gives the user interface exactly its contacts, in order,
  with lines of fewer than two fields skipped; the first line that follows the twentieth contact,
  even one that would be skipped, is a write outside the array.
\<close>

theorem addressbook_roundtrip:
  assumes "list_all book_entry_ok es"
  shows "bindR (parseAddressbook (Some (concat (map print_book_entry es))) addressbook_initial)
      (\<lambda>(rc, book, events). Inr (rc, events)) =
    bindR (read_book [] es) (\<lambda>cs. Inr (0, [IN_ADDRESS_BOOK cs (int (length cs))]))"
proof -
  have init: "addressbook_initial\<lparr>contacts := replicate 20 no_contact\<rparr> = addressbook_initial"
    by (simp add: addressbook_initial_def)
  have "book_rep addressbook_initial []"
    by (simp add: book_rep_def addressbook_initial_def no_contact_def)
  from addressbook_lines_refine [OF assms this] init show ?thesis
    by (auto simp: parseAddressbook_def Let_def book_rep_def split: sum.splits)
qed

theorem addressbook_roundtrip_witness:
  "bindR (parseAddressbook (Some (concat (map print_book_entry
        [Person \<lparr>nickname = ''n'', firstname = [], lastname = [], sipuri = ''u''\<rparr>, Skipped []]))) addressbook_initial)
      (\<lambda>(rc, book, events). Inr (rc, events)) =
    bindR (read_book [] [Person \<lparr>nickname = ''n'', firstname = [], lastname = [], sipuri = ''u''\<rparr>, Skipped []])
      (\<lambda>cs. Inr (0, [IN_ADDRESS_BOOK cs (int (length cs))]))"
  by (rule addressbook_roundtrip) (simp add: field_ok_def)

text \<open>The result in closed form: the capacity of the array against the place of the twentieth contact.\<close>

fun persons :: "book_entry list \<Rightarrow> contact list" where
  "persons [] = []"
| "persons (Person p # es) = p # persons es"
| "persons (Skipped t # es) = persons es"

lemma read_book_room:
  "length cs + length es \<le> 20 \<Longrightarrow> read_book cs es = Inr (cs @ persons es)"
proof (induction es arbitrary: cs)
  case Nil
  then show ?case by simp
next
  case (Cons e es)
  then show ?case by (cases e) simp_all
qed

lemma read_book_overflow:
  "length cs \<le> 20 \<Longrightarrow> 20 < length cs + length (persons es) \<Longrightarrow> read_book cs es = Inl Out_of_bounds"
proof (induction es arbitrary: cs)
  case Nil
  then show ?case by simp
next
  case (Cons e es)
  then show ?case by (cases e) simp_all
qed

end
