(* ===== verification/Sip_Engine.thy ===== *)
theory Sip_Engine
  imports Call_Api Addressbook
begin

text \<open>
  Start-up of the engine, SIPEngine/sipengine.c: the sequence of \<open>SIPEngineInitialize\<close> with its
  early returns, the loading and starting of modules and drivers and their counterparts, and the
  trace function of the SIP library. The kernel's and libraries' answers are \<open>init_env\<close>; the USB
  numbers of the SDK are fields of it.
\<close>

section \<open>Driver sequences\<close>

datatype init_action =
    Call string
  | Init_event in_event
  | Open_log string
  | Usb_activate int
  | Init_video
  | Init_exosip
  | Quit_exosip
  | Init_ortp
  | Trace_on
  | Set_options
  | Listen
  | Add_authentication string string
  | Init_action action

text \<open>
  Calls in order up to the first that fails, whose code is the result; each failure is reported
  with its own text, to the user interface or, with \<open>printf\<close>, to nobody.
\<close>

fun call_seq :: "bool \<Rightarrow> (string \<Rightarrow> int) \<Rightarrow> (string \<times> string) list \<Rightarrow> int \<Rightarrow> init_action list \<times> int" where
  "call_seq report answer [] result = ([], result)"
| "call_seq report answer ((name, err) # calls) result =
     (if answer name < 0
      then (Call name # (if report then [Init_event (ErrorMessage (''Error 0x'' @ show_hex8 (answer name) @ err))] else []),
            answer name)
      else let (as, r) = call_seq report answer calls (answer name) in (Call name # as, r))"

definition load_calls :: "config \<Rightarrow> (string \<times> string) list" where
  "load_calls c =
     [(''AudioFreq.prx'', '' loading AudioFreq.prx.'' @ [LF])] @
     (if config_use_usb c then
        [(''usbacc'', '' loading usbacc.prx.'' @ [LF]),
         (if config_get_use_video c then (''usbcam'', '' loading usbcam.prx.'' @ [LF])
          else (''usbmic'', '' loading usbmic.prx.'' @ [LF]))]
      else [])"

definition LoadModules :: "(string \<Rightarrow> int) \<Rightarrow> config \<Rightarrow> init_action list \<times> int" where
  "LoadModules answer c = call_seq True answer (load_calls c) 0"

definition unload_calls :: "config \<Rightarrow> (string \<times> string) list" where
  "unload_calls c =
     (if config_use_usb c then
        [(if config_get_use_video c then (''usbcam'', '' loading usbcam.prx.'' @ [LF])
          else (''usbmic'', '' loading usbmic.prx.'' @ [LF])),
         (''usbacc'', '' loading usbacc.prx.'' @ [LF])]
      else [])"

definition UnloadModules :: "(string \<Rightarrow> int) \<Rightarrow> config \<Rightarrow> init_action list \<times> int" where
  "UnloadModules answer c = call_seq False answer (unload_calls c) 0"

definition start_calls :: "config \<Rightarrow> (string \<times> string) list" where
  "start_calls c =
     [(''USBBusDriver'', '' starting usbbus driver.'' @ [LF]), (''USBAccBaseDriver'', '' starting usbacc driver.'' @ [LF])] @
     (if config_get_use_video c then
        [(''USBCamDriver'', '' starting usbcam driver.'' @ [LF]), (''USBCamMicDriver'', '' starting usbcammic driver.'' @ [LF])]
      else [(''USBMicDriver'', '' starting usbmic driver.'' @ [LF])])"

definition StartUsb :: "(string \<Rightarrow> int) \<Rightarrow> config \<Rightarrow> init_action list \<times> int" where
  "StartUsb answer c = call_seq True answer (start_calls c) 0"

definition stop_calls :: "config \<Rightarrow> (string \<times> string) list" where
  "stop_calls c =
     (if config_get_use_video c then
        [(''USBCamMicDriver'', '' stopping usbcammic driver.'' @ [LF]), (''USBCamDriver'', '' stopping usbcam driver.'' @ [LF])]
      else [(''USBMicDriver'', '' stopping usbmic driver.'' @ [LF])]) @
     [(''USBAccBaseDriver'', '' stopping usbacc driver.'' @ [LF]), (''USBBusDriver'', '' stopping usbbus driver.'' @ [LF])]"

definition StopUsb :: "(string \<Rightarrow> int) \<Rightarrow> config \<Rightarrow> init_action list \<times> int" where
  "StopUsb answer c = call_seq False answer (stop_calls c) 0"

section \<open>Start-up\<close>

text \<open>
  \<open>Continue\<close> goes on, \<open>Return\<close> leaves the function, \<open>Waiting\<close> is the endless poll for the USB
  connection when none of the observed polls has seen it.
\<close>

datatype outcome = Continue | Return int | Waiting

type_synonym stage = "engine \<Rightarrow> (engine \<times> init_action list \<times> outcome) res"

fun stages :: "stage list \<Rightarrow> stage" where
  "stages [] s = Inr (s, [], Continue)"
| "stages (f # fs) s = bindR (f s) (\<lambda>(s, as, r).
     case r of
       Continue \<Rightarrow> bindR (stages fs s) (\<lambda>(s, bs, r). Inr (s, as @ bs, r))
     | _ \<Rightarrow> Inr (s, as, r))"

record init_env =
  ie_config_file :: "string option"
  ie_contacts_file :: "string option"
  ie_open_log :: int
  ie_answer :: "string \<Rightarrow> int"
  ie_activate :: int
  ie_cam_pid :: int
  ie_mic_pid :: int
  ie_usb_polls :: "int list"
  ie_usb_established :: int
  ie_video_setup :: int
  ie_video_start :: int
  ie_audio :: audio_env
  ie_exosip :: int
  ie_listen :: int
  ie_thread :: int

definition stage_result :: "init_action list \<times> int \<Rightarrow> stage" where
  "stage_result r s = Inr (s, fst r, if snd r < 0 then Return (snd r) else Continue)"

definition stage_do :: "(engine \<Rightarrow> engine) \<Rightarrow> init_action list \<Rightarrow> stage" where
  "stage_do f as s = Inr (f s, as, Continue)"

definition read_files :: "init_env \<Rightarrow> stage" where
  "read_files env s =
     bindR (parseConfigFile (ie_config_file env) (e_config s, [])) (\<lambda>(rc, c, ev).
     bindR (parseAddressbook (ie_contacts_file env) addressbook_initial) (\<lambda>(rc, book, bev).
     Inr (s\<lparr>e_config := c\<rparr>, map Init_event (ev @ bev), Continue)))"

definition open_log :: "init_env \<Rightarrow> stage" where
  "open_log env s =
     bindR (config_get_logfile (e_config s)) (\<lambda>f.
       if f \<noteq> [] then Inr (s\<lparr>logfd := ie_open_log env\<rparr>, [Open_log f], Continue) else Inr (s, [], Continue))"

fun usb_connected :: "int \<Rightarrow> int list \<Rightarrow> bool" where
  "usb_connected established [] = False"
| "usb_connected established (st # polls) =
     (if st AND 0xF = established then True else usb_connected established polls)"

definition activate_usb :: "init_env \<Rightarrow> stage" where
  "activate_usb env s =
     (let pid = (if config_get_use_video (e_config s) then ie_cam_pid env else ie_mic_pid env)
      in if ie_activate env < 0 then
           Inr (s, [Usb_activate pid, Init_event (ErrorMessage
             (''Error activating the camera: 0x'' @ show_hex8 (ie_activate env) @ [LF]))], Return (ie_activate env))
         else if \<not> usb_connected (ie_usb_established env) (ie_usb_polls env) then Inr (s, [Usb_activate pid], Waiting)
         else if config_get_use_video (e_config s) then
           Inr (s\<lparr>e_video := initVideo (ie_video_setup env) (ie_video_start env) (e_video s)\<rparr>,
                [Usb_activate pid, Init_video], Continue)
         else Inr (s, [Usb_activate pid], Continue))"

definition init_usb :: "init_env \<Rightarrow> stage" where
  "init_usb env s =
     (if config_use_usb (e_config s)
      then stages [\<lambda>s. stage_result (StartUsb (ie_answer env) (e_config s)) s, activate_usb env] s
      else Inr (s, [], Continue))"

definition init_audio :: "init_env \<Rightarrow> stage" where
  "init_audio env s =
     bindR (initAudio (ie_audio env) (e_config s) (e_audio s)) (\<lambda>(result, a, ev).
       Inr (s\<lparr>e_audio := a\<rparr>, map Init_event ev, if result < 0 then Return result else Continue))"

definition init_listen :: "init_env \<Rightarrow> stage" where
  "init_listen env s =
     (if ie_listen env \<noteq> 0
      then Inr (s, [Listen, Quit_exosip, Init_event (ErrorMessage ''Could not initialize transport layer'')], Return (- 1))
      else Inr (s, [Listen], Continue))"

definition add_authentication :: stage where
  "add_authentication s =
     bindR (config_get_user (e_config s)) (\<lambda>user.
     bindR (config_get_password (e_config s)) (\<lambda>password.
     Inr (s, [Add_authentication user password], Continue)))"

definition start_thread :: "init_env \<Rightarrow> stage" where
  "start_thread env s =
     bindR (setupCallThread (ie_thread env) s) (\<lambda>(s, as). Inr (s, map Init_action as, Return 0))"

definition SIPEngineInitialize :: "init_env \<Rightarrow> stage" where
  "SIPEngineInitialize env =
     stages [read_files env, open_log env,
       \<lambda>s. stage_result (LoadModules (ie_answer env) (e_config s)) s,
       init_usb env, init_audio env,
       \<lambda>s. Inr (s, [Init_exosip], if ie_exosip env \<noteq> 0 then Return (- 1) else Continue),
       stage_do id [Init_ortp, Trace_on, Set_options],
       init_listen env, add_authentication, start_thread env]"

section \<open>The library's trace\<close>

text \<open>
  The prefix for a level (0 is the gravest, 3 a warning). The text keeps what fits 2047 characters
  with its prefix; a prefix that long would make the remaining size negative. The finished text is
  then used as a format twice: as an info message for warnings and worse, and by \<open>printf\<close>.
\<close>

definition trace_prefix :: "int \<Rightarrow> string \<Rightarrow> int \<Rightarrow> string" where
  "trace_prefix level fi li =
     (let names = [''| FATAL |'', ''|  BUG  |'', ''| ERROR |'', ''|WARNING|'', ''| INFO1 |'', ''| INFO2 |'',
          ''| INFO3 |'', ''| INFO4 |'']
      in if 0 \<le> level \<and> nat level < length names
         then names ! nat level @ '' <'' @ fi @ '': '' @ show_int li @ ''> '' else [])"

definition osip_trace_func ::
    "int \<Rightarrow> int \<Rightarrow> string \<Rightarrow> int \<Rightarrow> string \<Rightarrow> (in_event list \<times> string option) res" where
  "osip_trace_func fd level fi li formatted =
     (let prefix = trace_prefix level fi li in
      if 2047 < length prefix then Inl Buffer_overflow
      else let trc_buf = take 2046 prefix @ snprintf_to (2047 - length prefix) formatted in
      bindR (if level \<le> 3 then bindR (format_noargs trc_buf) (\<lambda>t. Inr [InfoMessage t]) else Inr []) (\<lambda>ev.
      bindR (format_noargs trc_buf) (\<lambda>_.
      Inr (ev, if 0 < fd then Some trc_buf else None))))"

section \<open>Properties\<close>

lemma call_seq_failed:
  "snd (call_seq report answer calls result) < 0 \<longleftrightarrow> (\<exists>c\<in>set calls. answer (fst c) < 0) \<or> calls = [] \<and> result < 0"
proof (induction calls arbitrary: result)
  case Nil
  then show ?case by simp
next
  case (Cons c calls)
  then show ?case by (cases c) (auto simp: split_def Let_def)
qed

text \<open>
  Stopping the USB drivers undoes starting them: the same drivers in the opposite order.
\<close>

theorem stop_reverses_start:
  "map fst (stop_calls c) = rev (map fst (start_calls c))"
  by (simp add: stop_calls_def start_calls_def)

definition thread_started :: "init_action list \<Rightarrow> bool" where
  "thread_started as \<longleftrightarrow> (\<exists>n. Init_action (Start_call_thread n) \<in> set as)"

text \<open>Stages that go on or return an error, and do not start the thread.\<close>

definition cautious :: "stage \<Rightarrow> bool" where
  "cautious f \<longleftrightarrow> (\<forall>s s' as r. f s = Inr (s', as, r) \<longrightarrow>
     \<not> thread_started as \<and> thread s' = thread s \<and> (\<forall>n. r = Return n \<longrightarrow> n < 0))"

lemma thread_started_append [simp]: "thread_started (as @ bs) \<longleftrightarrow> thread_started as \<or> thread_started bs"
  by (auto simp: thread_started_def)

lemma thread_started_events [simp]: "\<not> thread_started (map Init_event ev)"
  by (auto simp: thread_started_def)

lemma call_seq_cautious: "\<not> thread_started (fst (call_seq report answer calls result))"
proof (induction calls arbitrary: result)
  case Nil
  then show ?case by (simp add: thread_started_def)
next
  case (Cons c calls)
  then show ?case by (cases c) (simp add: split_def Let_def thread_started_def)
qed

lemma cautious_parts:
  "cautious (read_files env)" "cautious (open_log env)" "cautious (init_audio env)" "cautious (init_listen env)"
  "cautious add_authentication" "cautious (activate_usb env)"
  by (auto simp: cautious_def read_files_def open_log_def init_audio_def init_listen_def add_authentication_def
      activate_usb_def res_simps Let_def thread_started_def split: if_splits)

lemma cautious_result: "cautious (\<lambda>s. stage_result (call_seq report answer (calls s) 0) s)"
  by (auto simp: cautious_def stage_result_def call_seq_cautious split: if_splits)

lemma cautious_stages: "list_all cautious fs \<Longrightarrow> cautious (stages fs)"
proof (induction fs)
  case Nil
  then show ?case by (simp add: cautious_def thread_started_def)
next
  case (Cons f fs)
  then have f: "cautious f" and fs: "cautious (stages fs)" by simp_all
  show ?case
    unfolding cautious_def
  proof (intro allI impI)
    fix s s' as r
    assume "stages (f # fs) s = Inr (s', as, r)"
    then obtain t bs q where q: "f s = Inr (t, bs, q)" and
      rest: "(case q of Continue \<Rightarrow> bindR (stages fs t) (\<lambda>(s, cs, r). Inr (s, bs @ cs, r)) | _ \<Rightarrow> Inr (t, bs, q)) = Inr (s', as, r)"
      by (auto simp: bindR_eq_Inr)
    from f q have b: "\<not> thread_started bs" "thread t = thread s" "\<forall>n. q = Return n \<longrightarrow> n < 0"
      unfolding cautious_def by blast+
    show "\<not> thread_started as \<and> thread s' = thread s \<and> (\<forall>n. r = Return n \<longrightarrow> n < 0)"
    proof (cases q)
      case Continue
      with rest obtain cs where c: "stages fs t = Inr (s', cs, r)" "as = bs @ cs" by (auto simp: bindR_eq_Inr)
      from fs c(1) have "\<not> thread_started cs" "thread s' = thread t" "\<forall>n. r = Return n \<longrightarrow> n < 0"
        unfolding cautious_def by blast+
      with b c(2) show ?thesis by simp
    qed (use rest b in auto)
  qed
qed

lemma cautious_init_usb: "cautious (init_usb env)"
proof -
  have "cautious (stages [\<lambda>s. stage_result (StartUsb (ie_answer env) (e_config s)) s, activate_usb env])"
    by (intro cautious_stages) (simp add: cautious_result cautious_parts StartUsb_def)
  then show ?thesis by (auto simp: init_usb_def cautious_def thread_started_def split: if_splits)
qed

lemma stages_snoc:
  "stages (fs @ [f]) s = bindR (stages fs s) (\<lambda>(s, as, r).
     case r of Continue \<Rightarrow> bindR (f s) (\<lambda>(s, bs, r). Inr (s, as @ bs, r)) | _ \<Rightarrow> Inr (s, as, r))"
proof (induction fs arbitrary: s)
  case Nil
  then show ?case by (cases "f s") (auto split: outcome.split)
next
  case (Cons g fs)
  show ?case
  proof (cases "g s")
    case (Inr x)
    obtain s' as r where "x = (s', as, r)" by (cases x)
    with Inr Cons [of s'] show ?thesis
      by (cases r; cases "stages fs s'") (auto simp: bindR_assoc split_def split: outcome.split)
  qed simp
qed

text \<open>
  Initialising the engine starts the call thread exactly when it returns 0: every failure
  before that returns a negative code, or polls for the USB device for ever, with no thread behind.
\<close>

theorem initialize_starts_thread:
  assumes "SIPEngineInitialize env s = Inr (s', as, r)" "thread s = Not_started"
  shows "(r = Return 0 \<longleftrightarrow> thread_started as) \<and> (r = Return 0 \<longleftrightarrow> thread s' = Running) \<and>
    (r = Return 0 \<or> r = Waiting \<or> (\<exists>n<0. r = Return n))"
proof -
  let ?front = "[read_files env, open_log env,
       \<lambda>s. stage_result (LoadModules (ie_answer env) (e_config s)) s,
       init_usb env, init_audio env,
       \<lambda>s. Inr (s, [Init_exosip], if ie_exosip env \<noteq> 0 then Return (- 1) else Continue),
       stage_do id [Init_ortp, Trace_on, Set_options],
       init_listen env, add_authentication]"
  have "cautious (\<lambda>s. Inr (s, [Init_exosip], if ie_exosip env \<noteq> 0 then Return (- 1) else Continue))"
    "cautious (stage_do id [Init_ortp, Trace_on, Set_options])"
    by (auto simp: cautious_def stage_do_def thread_started_def split: if_splits)
  then have front: "cautious (stages ?front)"
    by (intro cautious_stages) (simp add: cautious_result cautious_parts cautious_init_usb LoadModules_def)
  have "SIPEngineInitialize env s = bindR (stages ?front s) (\<lambda>(s, as, r).
     case r of Continue \<Rightarrow> bindR (start_thread env s) (\<lambda>(s, bs, r). Inr (s, as @ bs, r)) | _ \<Rightarrow> Inr (s, as, r))"
    unfolding SIPEngineInitialize_def using stages_snoc [of ?front "start_thread env" s] by simp
  with assms(1) obtain t bs q where
    f: "stages ?front s = Inr (t, bs, q)" and
    l: "(case q of Continue \<Rightarrow> bindR (start_thread env t) (\<lambda>(s, cs, r). Inr (s, bs @ cs, r)) | _ \<Rightarrow> Inr (t, bs, q))
        = Inr (s', as, r)"
    by (auto simp: bindR_eq_Inr)
  from front f have "\<not> thread_started bs" "thread t = thread s" "\<forall>n. q = Return n \<longrightarrow> n < 0"
    unfolding cautious_def by blast+
  with l assms(2) show ?thesis
    by (cases q)
       (auto simp: start_thread_def setupCallThread_def emit_def modify_def bindR_eq_Inr thread_started_def)
qed

theorem initialize_starts_thread_witness:
  "let env = \<lparr>ie_config_file = None, ie_contacts_file = None, ie_open_log = 0, ie_answer = (\<lambda>name. 0), ie_activate = 0,
      ie_cam_pid = 1, ie_mic_pid = 2, ie_usb_polls = [], ie_usb_established = 2, ie_video_setup = 0, ie_video_start = 0,
      ie_audio = \<lparr>ae_setup_mic = 0, ae_start_mic = 0, ae_usb_input = 0, ae_headset_input = 0, ae_open_input = 0,
        ae_wav_size = 44, ae_wav_header = None, ae_channel = 0, ae_channel_ringback = 1, ae_open_ringback = 5\<rparr>,
      ie_exosip = 0, ie_listen = 0, ie_thread = 9\<rparr>;
     (s', as, r) = projr (SIPEngineInitialize env (engine_initial config_initial))
   in (r = Return 0 \<longleftrightarrow> thread_started as) \<and> (r = Return 0 \<longleftrightarrow> thread s' = Running) \<and>
    (r = Return 0 \<or> r = Waiting \<or> (\<exists>n<0. r = Return n))"
proof -
  let ?env = "\<lparr>ie_config_file = None, ie_contacts_file = None, ie_open_log = 0, ie_answer = (\<lambda>name. 0), ie_activate = 0,
      ie_cam_pid = 1, ie_mic_pid = 2, ie_usb_polls = [], ie_usb_established = 2, ie_video_setup = 0, ie_video_start = 0,
      ie_audio = \<lparr>ae_setup_mic = 0, ae_start_mic = 0, ae_usb_input = 0, ae_headset_input = 0, ae_open_input = 0,
        ae_wav_size = 44, ae_wav_header = None, ae_channel = 0, ae_channel_ringback = 1, ae_open_ringback = 5\<rparr>,
      ie_exosip = 0, ie_listen = 0, ie_thread = 9\<rparr>"
  obtain s' as r where run: "SIPEngineInitialize ?env (engine_initial config_initial) = Inr (s', as, r)"
  proof -
    have "\<not> isl (SIPEngineInitialize ?env (engine_initial config_initial))" by code_simp
    then show thesis using that by (cases "SIPEngineInitialize ?env (engine_initial config_initial)") auto
  qed
  have "thread (engine_initial config_initial) = Not_started" by (simp add: engine_initial_def)
  then show ?thesis
    unfolding Let_def run sum.sel prod.case by (rule initialize_starts_thread [OF run])
qed

text \<open>
  A sequence of module or driver calls is made in order up to and including the first that
  fails, and its result is negative exactly when one of its calls fails.
\<close>

theorem call_seq_order:
  "map Call (map fst (take (Suc (length (takeWhile (\<lambda>c. 0 \<le> answer (fst c)) calls))) calls)) =
     filter (\<lambda>a. case a of Call n \<Rightarrow> True | _ \<Rightarrow> False) (fst (call_seq report answer calls 0)) \<and>
   (snd (call_seq report answer calls 0) < 0 \<longleftrightarrow> (\<exists>c\<in>set calls. answer (fst c) < 0))"
proof -
  have "map Call (map fst (take (Suc (length (takeWhile (\<lambda>c. 0 \<le> answer (fst c)) calls))) calls)) =
     filter (\<lambda>a. case a of Call n \<Rightarrow> True | _ \<Rightarrow> False) (fst (call_seq report answer calls result))" for result
  proof (induction calls arbitrary: result)
    case Nil
    then show ?case by simp
  next
    case (Cons c calls)
    from Cons [of "answer (fst c)"] show ?case by (cases c) (auto simp: split_def Let_def)
  qed
  then show ?thesis by (simp add: call_seq_failed)
qed

end
