(* ===== verification/Osip_Message.thy ===== *)
theory Osip_Message
  imports Furikup_Prelude
begin

text \<open>
  The parts of a SIP message the transaction layer reads (osipparser2: osip_message.h, osip_uri.c,
  osip_via.c, osip_from.c, osip_to.c, osip_cseq.c, osip_call_id.c, osip_route.c, osip_port.c): the
  structures, the look-up of a parameter, the comparisons of headers, and the copies.

  A pointer is an \<open>option\<close>; the elements of a list are pointers too, so a list of headers is
  a list of options. Fields that are never read here (the body, the remaining headers) are left out. Allocation is taken to succeed.
\<close>

section \<open>Structures\<close>

record param =
  gname :: string
  gvalue :: "string option"

record uri =
  uri_scheme :: "string option"
  uri_username :: "string option"
  uri_password :: "string option"
  uri_host :: "string option"
  uri_port :: "string option"
  url_params :: "param list"
  url_headers :: "param list"
  uri_string :: "string option"

record via =
  via_version :: "string option"
  via_protocol :: "string option"
  via_host :: "string option"
  via_port :: "string option"
  via_comment :: "string option"
  via_params :: "param list"

text \<open>From, To, Contact, Route and Record-Route headers have the same structure.\<close>

record name_addr =
  displayname :: "string option"
  from_url :: "uri option"
  gen_params :: "param list"

record call_id =
  call_id_number :: "string option"
  call_id_host :: "string option"

record cseq =
  cseq_number :: "string option"
  cseq_method :: "string option"

record message =
  status_code :: int
  sip_method :: "string option"
  sip_version :: "string option"
  req_uri :: "uri option"
  vias :: "via option list"
  routes :: "name_addr option list"
  record_routes :: "name_addr option list"
  msg_contacts :: "name_addr option list"
  msg_from :: "name_addr option"
  msg_to :: "name_addr option"
  msg_call_id :: "call_id option"
  msg_cseq :: "cseq option"

text \<open>Following a pointer.\<close>

definition deref :: "'a option \<Rightarrow> 'a res" where
  "deref p = (case p of None \<Rightarrow> Inl Null_pointer | Some x \<Rightarrow> Inr x)"

lemma deref_simps [simp]: "deref (Some x) = Inr x" "deref None = Inl Null_pointer"
  by (simp_all add: deref_def)

lemma deref_Inr [res_simps]: "deref p = Inr x \<longleftrightarrow> p = Some x"
  by (cases p) auto

section \<open>Lists and parameters\<close>

definition osip_list_get :: "'a option list \<Rightarrow> int \<Rightarrow> 'a option" where
  "osip_list_get li pos = (if pos < 0 \<or> int (length li) \<le> pos then None else li ! nat pos)"

definition osip_message_get_via :: "message \<Rightarrow> int \<Rightarrow> int \<times> via option" where
  "osip_message_get_via sip pos =
     (if int (length (vias sip)) \<le> pos then (- 1, None) else (pos, osip_list_get (vias sip) pos))"

definition osip_message_get_route :: "message \<Rightarrow> int \<Rightarrow> name_addr option" where
  "osip_message_get_route sip pos =
     (if int (length (routes sip)) \<le> pos then None else osip_list_get (routes sip) pos)"

definition osip_uri_param_get_byname :: "param list \<Rightarrow> string \<Rightarrow> param option" where
  "osip_uri_param_get_byname params pname =
     (if pname = [] then None
      else find (\<lambda>u. length (gname u) = length pname \<and> strncasecmp0 (length pname) (gname u) pname) params)"

definition osip_atoi :: "string \<Rightarrow> int" where
  "osip_atoi number = atoi number"

section \<open>What a message is\<close>

definition MSG_IS_REQUEST :: "message \<Rightarrow> bool" where
  "MSG_IS_REQUEST m \<longleftrightarrow> status_code m = 0"

definition msg_is :: "string \<Rightarrow> message \<Rightarrow> bool res" where
  "msg_is name m = (if MSG_IS_REQUEST m then bindR (deref (sip_method m)) (\<lambda>s. Inr (s = name)) else Inr False)"

definition msg_status :: "int \<Rightarrow> message \<Rightarrow> bool" where
  "msg_status c m \<longleftrightarrow> 100 * c \<le> status_code m \<and> status_code m < 100 * c + 100"

abbreviation MSG_IS_STATUS_1XX :: "message \<Rightarrow> bool" where "MSG_IS_STATUS_1XX \<equiv> msg_status 1"
abbreviation MSG_IS_STATUS_2XX :: "message \<Rightarrow> bool" where "MSG_IS_STATUS_2XX \<equiv> msg_status 2"

section \<open>Comparing headers\<close>

text \<open>The comparisons return 0 for a match and -1 otherwise.\<close>

definition osip_call_id_match :: "call_id option \<Rightarrow> call_id option \<Rightarrow> int" where
  "osip_call_id_match callid1 callid2 =
     (case (callid1, callid2) of
        (Some c1, Some c2) \<Rightarrow>
          (case (call_id_number c1, call_id_number c2) of
             (Some n1, Some n2) \<Rightarrow> if n1 = n2 \<and> call_id_host c1 = call_id_host c2 then 0 else - 1
           | _ \<Rightarrow> - 1)
      | _ \<Rightarrow> - 1)"

definition osip_from_tag_match :: "name_addr \<Rightarrow> name_addr \<Rightarrow> int" where
  "osip_from_tag_match from1 from2 =
     (case (osip_uri_param_get_byname (gen_params from1) ''tag'', osip_uri_param_get_byname (gen_params from2) ''tag'') of
        (None, None) \<Rightarrow> 0
      | (Some t1, Some t2) \<Rightarrow> if gvalue t1 \<noteq> None \<and> gvalue t1 = gvalue t2 then 0 else - 1
      | _ \<Rightarrow> - 1)"

definition osip_to_tag_match :: "name_addr \<Rightarrow> name_addr \<Rightarrow> int" where
  "osip_to_tag_match to1 to2 = osip_from_tag_match to1 to2"

definition osip_cseq_match :: "cseq option \<Rightarrow> cseq option \<Rightarrow> int" where
  "osip_cseq_match cseq1 cseq2 =
     (case (cseq1, cseq2) of
        (Some c1, Some c2) \<Rightarrow>
          (case (cseq_number c1, cseq_number c2, cseq_method c1, cseq_method c2) of
             (Some n1, Some n2, Some m1, Some m2) \<Rightarrow>
               if n1 = n2 \<and>
                  (if m2 = ''INVITE'' \<or> m2 = ''ACK'' then m1 = ''INVITE'' \<or> m1 = ''ACK'' else m1 = m2)
               then 0 else - 1
           | _ \<Rightarrow> - 1)
      | _ \<Rightarrow> - 1)"

fun param_text :: "param \<Rightarrow> string" where
  "param_text u = '';'' @ gname u @ (case gvalue u of None \<Rightarrow> [] | Some v \<Rightarrow> ''='' @ v)"

definition osip_via_to_str :: "via option \<Rightarrow> string option" where
  "osip_via_to_str via =
     (case via of None \<Rightarrow> None | Some v \<Rightarrow>
       (case (via_host v, via_version v, via_protocol v) of
          (Some host, Some version, Some protocol) \<Rightarrow>
            Some (''SIP/'' @ version @ ''/'' @ protocol @ '' '' @
                  (if CHR '':'' \<in> set host then ''['' @ host @ '']'' else host) @
                  (case via_port v of None \<Rightarrow> [] | Some p \<Rightarrow> '':'' @ p) @
                  concat (map param_text (via_params v)) @
                  (case via_comment v of None \<Rightarrow> [] | Some c \<Rightarrow> '' ('' @ c @ '')''))
        | _ \<Rightarrow> None))"

definition osip_via_match :: "via option \<Rightarrow> via option \<Rightarrow> int" where
  "osip_via_match via1 via2 =
     (case (osip_via_to_str via1, osip_via_to_str via2) of
        (Some s1, Some s2) \<Rightarrow> if s1 = s2 then 0 else - 1
      | _ \<Rightarrow> - 1)"

section \<open>Copies\<close>

text \<open>A copy is the original, or \<open>None\<close> where the source refuses to copy.\<close>

definition osip_uri_clone :: "uri option \<Rightarrow> uri option" where
  "osip_uri_clone url =
     (case url of None \<Rightarrow> None | Some u \<Rightarrow> if uri_host u = None \<and> uri_string u = None then None else Some u)"

definition osip_via_clone :: "via option \<Rightarrow> via option" where
  "osip_via_clone via =
     (case via of None \<Rightarrow> None | Some v \<Rightarrow>
        if via_version v = None \<or> via_protocol v = None \<or> via_host v = None then None else Some v)"

definition osip_from_clone :: "name_addr option \<Rightarrow> name_addr option" where
  "osip_from_clone f =
     (case f of None \<Rightarrow> None | Some x \<Rightarrow>
        if from_url x \<noteq> None \<and> osip_uri_clone (from_url x) = None then None else Some x)"

definition osip_call_id_clone :: "call_id option \<Rightarrow> call_id option" where
  "osip_call_id_clone callid =
     (case callid of None \<Rightarrow> None | Some c \<Rightarrow> if call_id_number c = None then None else Some c)"

definition osip_cseq_clone :: "cseq option \<Rightarrow> cseq option" where
  "osip_cseq_clone cs =
     (case cs of None \<Rightarrow> None | Some c \<Rightarrow> if cseq_method c = None \<or> cseq_number c = None then None else Some c)"

lemma clone_SomeD:
  "osip_uri_clone u = Some u' \<Longrightarrow> u = Some u'"
  "osip_via_clone v = Some v' \<Longrightarrow> v = Some v'"
  "osip_from_clone f = Some f' \<Longrightarrow> f = Some f'"
  "osip_call_id_clone c = Some c' \<Longrightarrow> c = Some c'"
  "osip_cseq_clone s = Some s' \<Longrightarrow> s = Some s'"
  by (auto simp: osip_uri_clone_def osip_via_clone_def osip_from_clone_def osip_call_id_clone_def
      osip_cseq_clone_def split: option.splits if_splits)

lemma call_id_match_refl: "call_id_number c \<noteq> None \<Longrightarrow> osip_call_id_match (Some c) (Some c) = 0"
  by (auto simp: osip_call_id_match_def)

lemma via_match_refl: "osip_via_to_str v \<noteq> None \<Longrightarrow> osip_via_match v v = 0"
  by (auto simp: osip_via_match_def)

section \<open>An example\<close>

text \<open>The messages of a call from one phone to another, used to run the definitions.\<close>

definition sample_uri :: uri where
  "sample_uri = \<lparr>uri_scheme = Some ''sip'', uri_username = None, uri_password = None, uri_host = Some ''psp'',
     uri_port = None, url_params = [], url_headers = [], uri_string = None\<rparr>"

definition sample_via :: "string \<Rightarrow> via" where
  "sample_via branch = \<lparr>via_version = Some ''2.0'', via_protocol = Some ''UDP'', via_host = Some ''a'', via_port = None,
     via_comment = None, via_params = [\<lparr>gname = ''branch'', gvalue = Some branch\<rparr>]\<rparr>"

definition sample_message :: "int \<Rightarrow> string \<Rightarrow> message" where
  "sample_message code method = \<lparr>status_code = code, sip_method = (if code = 0 then Some method else None),
     sip_version = Some ''SIP/2.0'', req_uri = (if code = 0 then Some sample_uri else None),
     vias = [Some (sample_via ''z9hG4bK1'')], routes = [],
     record_routes = [], msg_contacts = [],
     msg_from = Some \<lparr>displayname = None, from_url = Some sample_uri, gen_params = []\<rparr>,
     msg_to = Some \<lparr>displayname = None, from_url = Some sample_uri, gen_params = []\<rparr>,
     msg_call_id = Some \<lparr>call_id_number = Some ''1'', call_id_host = None\<rparr>,
     msg_cseq = Some \<lparr>cseq_number = Some ''1'', cseq_method = Some method\<rparr>\<rparr>"

end
