(* ===== verification/Osip_Transaction.thy ===== *)
theory Osip_Transaction
  imports Osip_Message
begin

text \<open>
  What the four state machines of the transaction layer share (libosip2: osip.h, fsm.h, fsm_misc.c,
  osip_time.c, osip_event.c, port_fifo.c, osip_transaction.c and the callbacks of osip.c): time, the
  event queue, the transaction with its timers, the callbacks and the sending of a response, and how
  a message is matched to a transaction.

  The application's callbacks and the transport are its surroundings: a transaction leaves a trace of
  the callbacks it made, the messages it handed to \<open>cb_send_message\<close> and the messages it
  freed; the result of a send and the time of day come from an environment. A handler sends at most
  one message.
\<close>

section \<open>Time\<close>

record timeval =
  tv_sec :: int
  tv_usec :: int

definition add_gettimeofday :: "timeval \<Rightarrow> int \<Rightarrow> timeval" where
  "add_gettimeofday atv ms =
     (if 1000000 \<le> ms then \<lparr>tv_sec = tv_sec atv + c_div ms 1000, tv_usec = 0\<rparr>
      else let usec = tv_usec atv + ms * 1000 in
           \<lparr>tv_sec = tv_sec atv + c_div usec 1000000, tv_usec = c_mod usec 1000000\<rparr>)"

definition osip_timercmp_gt :: "timeval \<Rightarrow> timeval \<Rightarrow> bool" where
  "osip_timercmp_gt a b \<longleftrightarrow> (if tv_sec a = tv_sec b then tv_usec b < tv_usec a else tv_sec b < tv_sec a)"

definition min_timercmp :: "timeval \<Rightarrow> timeval \<Rightarrow> timeval" where
  "min_timercmp tv1 tv2 =
     (if tv_sec tv2 = - 1 then tv1 else if osip_timercmp_gt tv1 tv2 then tv2 else tv1)"

text \<open>A timer that is not started has -1 for its seconds.\<close>

definition not_started :: timeval where
  "not_started = \<lparr>tv_sec = - 1, tv_usec = 0\<rparr>"

definition stop_timer :: "timeval \<Rightarrow> timeval" where
  "stop_timer tv = tv\<lparr>tv_sec := - 1\<rparr>"

definition DEFAULT_T1 :: int where "DEFAULT_T1 = 500"
definition DEFAULT_T4 :: int where "DEFAULT_T4 = 5000"

section \<open>States and events\<close>

datatype state_t =
    ICT_PRE_CALLING | ICT_CALLING | ICT_PROCEEDING | ICT_COMPLETED | ICT_TERMINATED
  | IST_PRE_PROCEEDING | IST_PROCEEDING | IST_COMPLETED | IST_CONFIRMED | IST_TERMINATED
  | NICT_PRE_TRYING | NICT_TRYING | NICT_PROCEEDING | NICT_COMPLETED | NICT_TERMINATED
  | NIST_PRE_TRYING | NIST_TRYING | NIST_PROCEEDING | NIST_COMPLETED | NIST_TERMINATED
  | DIALOG_EARLY | DIALOG_CONFIRMED | DIALOG_CLOSE

datatype type_t =
    TIMEOUT_A | TIMEOUT_B | TIMEOUT_D | TIMEOUT_E | TIMEOUT_F | TIMEOUT_K
  | TIMEOUT_G | TIMEOUT_H | TIMEOUT_I | TIMEOUT_J
  | RCV_REQINVITE | RCV_REQACK | RCV_REQUEST | RCV_STATUS_1XX | RCV_STATUS_2XX | RCV_STATUS_3456XX
  | SND_REQINVITE | SND_REQACK | SND_REQUEST | SND_STATUS_1XX | SND_STATUS_2XX | SND_STATUS_3456XX
  | KILL_TRANSACTION | UNKNOWN_EVT

datatype osip_fsm_type = ICT | IST | NICT | NIST

record osip_event =
  evt_type :: type_t
  evt_sip :: "message option"
  evt_transactionid :: int

definition EVT_IS_INCOMINGREQ :: "osip_event \<Rightarrow> bool" where
  "EVT_IS_INCOMINGREQ e \<longleftrightarrow> evt_type e \<in> {RCV_REQINVITE, RCV_REQACK, RCV_REQUEST}"

definition EVT_IS_INCOMINGRESP :: "osip_event \<Rightarrow> bool" where
  "EVT_IS_INCOMINGRESP e \<longleftrightarrow> evt_type e \<in> {RCV_STATUS_1XX, RCV_STATUS_2XX, RCV_STATUS_3456XX}"

definition EVT_IS_OUTGOINGREQ :: "osip_event \<Rightarrow> bool" where
  "EVT_IS_OUTGOINGREQ e \<longleftrightarrow> evt_type e \<in> {SND_REQINVITE, SND_REQACK, SND_REQUEST}"

definition EVT_IS_INCOMINGMSG :: "osip_event \<Rightarrow> bool" where
  "EVT_IS_INCOMINGMSG e \<longleftrightarrow> EVT_IS_INCOMINGREQ e \<or> EVT_IS_INCOMINGRESP e"

definition EVT_IS_OUTGOINGMSG :: "osip_event \<Rightarrow> bool" where
  "EVT_IS_OUTGOINGMSG e \<longleftrightarrow> EVT_IS_OUTGOINGREQ e \<or> evt_type e \<in> {SND_STATUS_1XX, SND_STATUS_2XX, SND_STATUS_3456XX}"

definition EVT_IS_MSG :: "osip_event \<Rightarrow> bool" where
  "EVT_IS_MSG e \<longleftrightarrow> EVT_IS_INCOMINGMSG e \<or> EVT_IS_OUTGOINGMSG e"

definition osip_event_new :: "type_t \<Rightarrow> int \<Rightarrow> osip_event" where
  "osip_event_new ty trid = \<lparr>evt_type = ty, evt_sip = None, evt_transactionid = trid\<rparr>"

definition evt_set_type_incoming_sipmessage :: "message \<Rightarrow> type_t res" where
  "evt_set_type_incoming_sipmessage sip =
     (if MSG_IS_REQUEST sip then
        bindR (msg_is ''INVITE'' sip) (\<lambda>invite. if invite then Inr RCV_REQINVITE else
        bindR (msg_is ''ACK'' sip) (\<lambda>ack. Inr (if ack then RCV_REQACK else RCV_REQUEST)))
      else Inr (if MSG_IS_STATUS_1XX sip then RCV_STATUS_1XX
                else if MSG_IS_STATUS_2XX sip then RCV_STATUS_2XX else RCV_STATUS_3456XX))"

definition evt_set_type_outgoing_sipmessage :: "message \<Rightarrow> type_t res" where
  "evt_set_type_outgoing_sipmessage sip =
     (if MSG_IS_REQUEST sip then
        bindR (msg_is ''INVITE'' sip) (\<lambda>invite. if invite then Inr SND_REQINVITE else
        bindR (msg_is ''ACK'' sip) (\<lambda>ack. Inr (if ack then SND_REQACK else SND_REQUEST)))
      else Inr (if MSG_IS_STATUS_1XX sip then SND_STATUS_1XX
                else if MSG_IS_STATUS_2XX sip then SND_STATUS_2XX else SND_STATUS_3456XX))"

definition osip_new_outgoing_sipmessage :: "message \<Rightarrow> osip_event option res" where
  "osip_new_outgoing_sipmessage sip =
     (if MSG_IS_REQUEST sip \<and> (sip_method sip = None \<or> req_uri sip = None) then Inr None
      else bindR (evt_set_type_outgoing_sipmessage sip) (\<lambda>ty.
        Inr (Some \<lparr>evt_type = ty, evt_sip = Some sip, evt_transactionid = 0\<rparr>)))"

text \<open>\<open>osip_parse\<close> behind the message parser, whose result is its argument.\<close>

definition osip_parse_event :: "message option \<Rightarrow> osip_event option res" where
  "osip_parse_event parsed =
     (case parsed of None \<Rightarrow> Inr None | Some sip \<Rightarrow>
        if MSG_IS_REQUEST sip \<and> (sip_method sip = None \<or> req_uri sip = None) then Inr None
        else bindR (evt_set_type_incoming_sipmessage sip) (\<lambda>ty.
          Inr (Some \<lparr>evt_type = ty, evt_sip = Some sip, evt_transactionid = 0\<rparr>)))"

section \<open>The event queue\<close>

datatype osip_fifo_state = osip_ok | osip_full | osip_empty

record 'a osip_fifo =
  queue :: "'a list"
  fifo_state :: osip_fifo_state

definition MAX_LEN :: nat where "MAX_LEN = 1000"

definition osip_fifo_init :: "'a osip_fifo" where
  "osip_fifo_init = \<lparr>queue = [], fifo_state = osip_empty\<rparr>"

definition osip_fifo_size :: "'a osip_fifo \<Rightarrow> nat" where
  "osip_fifo_size ff = length (queue ff)"

definition osip_fifo_add :: "'a osip_fifo \<Rightarrow> 'a \<Rightarrow> int \<times> 'a osip_fifo" where
  "osip_fifo_add ff el =
     (if fifo_state ff \<noteq> osip_full then
        let q = queue ff @ [el] in (0, \<lparr>queue = q, fifo_state = (if MAX_LEN \<le> length q then osip_full else osip_ok)\<rparr>)
      else (- 1, ff))"

definition osip_fifo_insert :: "'a osip_fifo \<Rightarrow> 'a \<Rightarrow> int \<times> 'a osip_fifo" where
  "osip_fifo_insert ff el =
     (if fifo_state ff \<noteq> osip_full then
        let q = el # queue ff in (0, \<lparr>queue = q, fifo_state = (if MAX_LEN \<le> length q then osip_full else osip_ok)\<rparr>)
      else (- 1, ff))"

definition osip_fifo_tryget :: "'a osip_fifo \<Rightarrow> 'a option \<times> 'a osip_fifo" where
  "osip_fifo_tryget ff =
     (if fifo_state ff = osip_empty then (None, ff)
      else let q = tl (queue ff) in
        (case queue ff of [] \<Rightarrow> None | el # _ \<Rightarrow> Some el,
         \<lparr>queue = q, fifo_state = (if q = [] then osip_empty else osip_ok)\<rparr>))"

text \<open>
  The interface its clients rely on: what is added comes out in the order it was added, and only
  then is the queue empty.
\<close>

locale event_queue =
  fixes elems :: "'q \<Rightarrow> 'a list"
    and ok :: "'q \<Rightarrow> bool"
    and room :: "'q \<Rightarrow> bool"
    and initial :: 'q
    and put :: "'q \<Rightarrow> 'a \<Rightarrow> 'q"
    and get :: "'q \<Rightarrow> 'a option \<times> 'q"
  assumes initial: "ok initial \<and> elems initial = []"
    and put: "ok q \<Longrightarrow> ok (put q x) \<and> elems (put q x) = (if room q then elems q @ [x] else elems q)"
    and get: "ok q \<Longrightarrow> ok (snd (get q)) \<and>
      (case elems q of [] \<Rightarrow> fst (get q) = None \<and> elems (snd (get q)) = []
                     | x # xs \<Rightarrow> fst (get q) = Some x \<and> elems (snd (get q)) = xs)"
begin

lemma get_none: "ok q \<Longrightarrow> fst (get q) = None \<longleftrightarrow> elems q = []"
  using get [of q] by (cases "elems q") auto

lemma get_some: "ok q \<Longrightarrow> get q = (Some x, q') \<Longrightarrow> ok q' \<and> elems q = x # elems q'"
  using get [of q] by (cases "elems q") auto

lemma get_shorter: "ok q \<Longrightarrow> get q = (Some x, q') \<Longrightarrow> length (elems q') < length (elems q)"
  using get_some [of q x q'] by simp

lemma put_all:
  "ok q \<Longrightarrow> (\<And>i. i < length xs \<Longrightarrow> room (foldl put q (take i xs))) \<Longrightarrow>
   ok (foldl put q xs) \<and> elems (foldl put q xs) = elems q @ xs"
proof (induction xs rule: rev_induct)
  case Nil
  then show ?case by simp
next
  case (snoc x xs)
  have "ok (foldl put q xs) \<and> elems (foldl put q xs) = elems q @ xs"
  proof (rule snoc.IH [OF snoc.prems(1)])
    fix i
    assume "i < length xs"
    then show "room (foldl put q (take i xs))" using snoc.prems(2) [of i] by simp
  qed
  moreover have "room (foldl put q xs)" using snoc.prems(2) [of "length xs"] by simp
  ultimately show ?case using put [of "foldl put q xs" x] by simp
qed

end

text \<open>The queue's state says how full it is.\<close>

definition fifo_ok :: "'a osip_fifo \<Rightarrow> bool" where
  "fifo_ok ff \<longleftrightarrow> (fifo_state ff = osip_empty \<longleftrightarrow> queue ff = []) \<and> length (queue ff) \<le> MAX_LEN \<and>
     (fifo_state ff = osip_full \<longleftrightarrow> length (queue ff) = MAX_LEN)"

interpretation osip_queue: event_queue queue fifo_ok "\<lambda>ff. length (queue ff) < MAX_LEN" osip_fifo_init
  "\<lambda>ff x. snd (osip_fifo_add ff x)" osip_fifo_tryget
proof unfold_locales
  show "fifo_ok osip_fifo_init \<and> queue osip_fifo_init = []"
    by (simp add: fifo_ok_def osip_fifo_init_def MAX_LEN_def)
next
  fix q :: "'a osip_fifo" and x
  assume "fifo_ok q"
  then show "fifo_ok (snd (osip_fifo_add q x)) \<and>
      queue (snd (osip_fifo_add q x)) = (if length (queue q) < MAX_LEN then queue q @ [x] else queue q)"
    by (auto simp: fifo_ok_def osip_fifo_add_def Let_def)
next
  fix q :: "'a osip_fifo"
  assume "fifo_ok q"
  then show "fifo_ok (snd (osip_fifo_tryget q)) \<and>
      (case queue q of [] \<Rightarrow> fst (osip_fifo_tryget q) = None \<and> queue (snd (osip_fifo_tryget q)) = []
        | x # xs \<Rightarrow> fst (osip_fifo_tryget q) = Some x \<and> queue (snd (osip_fifo_tryget q)) = xs)"
    by (cases "queue q") (auto simp: fifo_ok_def osip_fifo_tryget_def Let_def MAX_LEN_def)
qed

end
