(* ===== verification/Osip_Fsm.thy ===== *)
theory Osip_Fsm
  imports Osip_Transaction
begin

text \<open>
  The transaction record, the vocabulary of its handlers, and the dispatch of an event to a handler
  through a table of transitions (libosip2: osip.h, fsm.h, fsm_misc.c, osip_transaction.c, the
  callbacks of osip.c).
\<close>

section \<open>The transaction\<close>

record ict =
  timer_a_length :: int
  timer_a_start :: timeval
  timer_b_length :: int
  timer_b_start :: timeval
  timer_d_length :: int
  timer_d_start :: timeval
  ict_destination :: "string option"
  ict_port :: int

record ist =
  timer_g_length :: int
  timer_g_start :: timeval
  timer_i_length :: int
  timer_i_start :: timeval
  timer_h_length :: int
  timer_h_start :: timeval

record nict =
  timer_e_length :: int
  timer_e_start :: timeval
  timer_f_length :: int
  timer_f_start :: timeval
  timer_k_length :: int
  timer_k_start :: timeval
  nict_destination :: "string option"
  nict_port :: int

record nist =
  timer_j_length :: int
  timer_j_start :: timeval

record transaction =
  transactionid :: int
  transactionff :: "osip_event osip_fifo"
  topvia :: "via option"
  tr_from :: "name_addr option"
  tr_to :: "name_addr option"
  tr_callid :: "call_id option"
  tr_cseq :: "cseq option"
  orig_request :: "message option"
  last_response :: "message option"
  tr_ack :: "message option"
  state :: state_t
  out_socket :: int
  ctx_type :: osip_fsm_type
  ict_context :: "ict option"
  ist_context :: "ist option"
  nict_context :: "nict option"
  nist_context :: "nist option"

section \<open>Callbacks and the environment\<close>

datatype message_callback =
    OSIP_ICT_INVITE_SENT | OSIP_ICT_INVITE_SENT_AGAIN | OSIP_ICT_ACK_SENT | OSIP_ICT_ACK_SENT_AGAIN
  | OSIP_ICT_STATUS_1XX_RECEIVED | OSIP_ICT_STATUS_2XX_RECEIVED | OSIP_ICT_STATUS_3XX_RECEIVED
  | OSIP_ICT_STATUS_4XX_RECEIVED | OSIP_ICT_STATUS_5XX_RECEIVED | OSIP_ICT_STATUS_6XX_RECEIVED
  | OSIP_ICT_STATUS_3456XX_RECEIVED_AGAIN
  | OSIP_IST_INVITE_RECEIVED | OSIP_IST_INVITE_RECEIVED_AGAIN | OSIP_IST_ACK_RECEIVED
  | OSIP_IST_ACK_RECEIVED_AGAIN | OSIP_IST_STATUS_1XX_SENT | OSIP_IST_STATUS_2XX_SENT
  | OSIP_IST_STATUS_2XX_SENT_AGAIN | OSIP_IST_STATUS_3XX_SENT | OSIP_IST_STATUS_4XX_SENT
  | OSIP_IST_STATUS_5XX_SENT | OSIP_IST_STATUS_6XX_SENT | OSIP_IST_STATUS_3456XX_SENT_AGAIN
  | OSIP_NICT_REGISTER_SENT | OSIP_NICT_BYE_SENT | OSIP_NICT_OPTIONS_SENT | OSIP_NICT_INFO_SENT
  | OSIP_NICT_CANCEL_SENT | OSIP_NICT_NOTIFY_SENT | OSIP_NICT_SUBSCRIBE_SENT
  | OSIP_NICT_UNKNOWN_REQUEST_SENT | OSIP_NICT_REQUEST_SENT_AGAIN | OSIP_NICT_STATUS_1XX_RECEIVED
  | OSIP_NICT_STATUS_2XX_RECEIVED | OSIP_NICT_STATUS_3XX_RECEIVED | OSIP_NICT_STATUS_4XX_RECEIVED
  | OSIP_NICT_STATUS_5XX_RECEIVED | OSIP_NICT_STATUS_6XX_RECEIVED
  | OSIP_NIST_REGISTER_RECEIVED | OSIP_NIST_BYE_RECEIVED | OSIP_NIST_OPTIONS_RECEIVED
  | OSIP_NIST_INFO_RECEIVED | OSIP_NIST_CANCEL_RECEIVED | OSIP_NIST_NOTIFY_RECEIVED
  | OSIP_NIST_SUBSCRIBE_RECEIVED | OSIP_NIST_UNKNOWN_REQUEST_RECEIVED
  | OSIP_NIST_REQUEST_RECEIVED_AGAIN | OSIP_NIST_STATUS_1XX_SENT | OSIP_NIST_STATUS_2XX_SENT
  | OSIP_NIST_STATUS_2XX_SENT_AGAIN | OSIP_NIST_STATUS_3XX_SENT | OSIP_NIST_STATUS_4XX_SENT
  | OSIP_NIST_STATUS_5XX_SENT | OSIP_NIST_STATUS_6XX_SENT | OSIP_NIST_STATUS_3456XX_SENT_AGAIN
  | OSIP_ICT_STATUS_TIMEOUT | OSIP_NICT_STATUS_TIMEOUT

text \<open>
  The three kinds of callback; the transport and kill callbacks come in one version for each kind of
  transaction. \<open>Free\<close> is \<open>osip_message_free\<close>.
\<close>

datatype tr_action =
    Message_callback message_callback "message option"
  | Kill_transaction osip_fsm_type
  | Transport_error osip_fsm_type int
  | Send "message option" "string option" int int
  | Free message

text \<open>What a handler meets: the result of \<open>cb_send_message\<close> and the time of day.\<close>

record tr_env =
  send_result :: int
  time_now :: timeval

type_synonym tr_op = "(transaction, tr_action) op"
type_synonym handler = "tr_env \<Rightarrow> osip_event \<Rightarrow> tr_op"

definition osip_message_callback :: "message_callback \<Rightarrow> message option \<Rightarrow> tr_op" where
  "osip_message_callback ty msg = emit [Message_callback ty msg]"

definition osip_kill_transaction_callback :: "osip_fsm_type \<Rightarrow> tr_op" where
  "osip_kill_transaction_callback ty = emit [Kill_transaction ty]"

definition osip_transport_error_callback :: "osip_fsm_type \<Rightarrow> int \<Rightarrow> tr_op" where
  "osip_transport_error_callback ty err = emit [Transport_error ty err]"

definition osip_transaction_set_state :: "state_t \<Rightarrow> tr_op" where
  "osip_transaction_set_state st = modify (\<lambda>tr. tr\<lparr>state := st\<rparr>)"

definition osip_message_free :: "message option \<Rightarrow> tr_op" where
  "osip_message_free msg = emit (case msg of None \<Rightarrow> [] | Some m \<Rightarrow> [Free m])"

text \<open>An operation that reads the transaction first, and a branch on it.\<close>

definition with_tr :: "(transaction \<Rightarrow> tr_op) \<Rightarrow> tr_op" where
  "with_tr f tr = f tr tr"

definition if_tr :: "(transaction \<Rightarrow> bool) \<Rightarrow> tr_op list \<Rightarrow> tr_op list \<Rightarrow> tr_op" where
  "if_tr b f g tr = (if b tr then runs f tr else runs g tr)"

text \<open>The block that opens every handler of a response: free the last one, keep the new one.\<close>

definition replace_response :: "osip_event \<Rightarrow> tr_op" where
  "replace_response evt = runs [
     with_tr (\<lambda>tr. osip_message_free (last_response tr)),
     modify (\<lambda>tr. tr\<lparr>last_response := evt_sip evt\<rparr>)]"

text \<open>A change of the timers of a context; a null context faults.\<close>

definition on_ict :: "(ict \<Rightarrow> ict) \<Rightarrow> tr_op" where
  "on_ict f tr = bindR (deref (ict_context tr)) (\<lambda>c. Inr (tr\<lparr>ict_context := Some (f c)\<rparr>, []))"

definition on_ist :: "(ist \<Rightarrow> ist) \<Rightarrow> tr_op" where
  "on_ist f tr = bindR (deref (ist_context tr)) (\<lambda>c. Inr (tr\<lparr>ist_context := Some (f c)\<rparr>, []))"

definition on_nict :: "(nict \<Rightarrow> nict) \<Rightarrow> tr_op" where
  "on_nict f tr = bindR (deref (nict_context tr)) (\<lambda>c. Inr (tr\<lparr>nict_context := Some (f c)\<rparr>, []))"

definition on_nist :: "(nist \<Rightarrow> nist) \<Rightarrow> tr_op" where
  "on_nist f tr = bindR (deref (nist_context tr)) (\<lambda>c. Inr (tr\<lparr>nist_context := Some (f c)\<rparr>, []))"

text \<open>A change that can fault: doubling a length overflows an \<open>int\<close> at last.\<close>

definition on_ictR :: "(ict \<Rightarrow> ict res) \<Rightarrow> tr_op" where
  "on_ictR f tr = bindR (bindR (deref (ict_context tr)) f) (\<lambda>c. Inr (tr\<lparr>ict_context := Some c\<rparr>, []))"

definition on_istR :: "(ist \<Rightarrow> ist res) \<Rightarrow> tr_op" where
  "on_istR f tr = bindR (bindR (deref (ist_context tr)) f) (\<lambda>c. Inr (tr\<lparr>ist_context := Some c\<rparr>, []))"

definition on_nictR :: "(nict \<Rightarrow> nict res) \<Rightarrow> tr_op" where
  "on_nictR f tr = bindR (bindR (deref (nict_context tr)) f) (\<lambda>c. Inr (tr\<lparr>nict_context := Some c\<rparr>, []))"

definition doubled :: "int \<Rightarrow> int res" where
  "doubled n = add_int n n"

section \<open>Sending\<close>

text \<open>Handing a message to the transport and going on with the result.\<close>

definition cb_send_message ::
    "tr_env \<Rightarrow> message option \<Rightarrow> string option \<Rightarrow> int \<Rightarrow> (int \<Rightarrow> tr_op list) \<Rightarrow> tr_op" where
  "cb_send_message env msg host port k = with_tr (\<lambda>tr.
     runs (emit [Send msg host port (out_socket tr)] # k (send_result env)))"

text \<open>Where a response goes, from its top Via.\<close>

definition response_destination :: "via \<Rightarrow> string option \<times> int" where
  "response_destination via =
     (let maddr = osip_uri_param_get_byname (via_params via) ''maddr'';
          received = osip_uri_param_get_byname (via_params via) ''received'';
          rport = osip_uri_param_get_byname (via_params via) ''rport'';
          host = (case maddr of Some p \<Rightarrow> gvalue p | None \<Rightarrow>
                  (case received of Some p \<Rightarrow> gvalue p | None \<Rightarrow> via_host via));
          port = (case (case rport of None \<Rightarrow> None | Some p \<Rightarrow> gvalue p) of
                    Some v \<Rightarrow> osip_atoi v
                  | None \<Rightarrow> (case via_port via of Some p \<Rightarrow> osip_atoi p | None \<Rightarrow> 5060))
      in (host, port))"

definition osip_transaction_snd_xxx :: "tr_env \<Rightarrow> message option \<Rightarrow> (int \<Rightarrow> tr_op list) \<Rightarrow> tr_op" where
  "osip_transaction_snd_xxx env msg k =
     using_res (deref msg) (\<lambda>m.
       case osip_list_get (vias m) 0 of
         None \<Rightarrow> runs (k (- 1))
       | Some via \<Rightarrow> (let (host, port) = response_destination via in cb_send_message env msg host port k))"

definition osip_response_get_destination :: "message \<Rightarrow> string option \<times> int" where
  "osip_response_get_destination response =
     (case osip_list_get (vias response) 0 of None \<Rightarrow> (None, 0) | Some via \<Rightarrow> response_destination via)"

text \<open>Where a request goes: its first loose route, or the address of the request URI.\<close>

definition loose_route :: "name_addr option \<Rightarrow> name_addr option" where
  "loose_route route =
     (case route of None \<Rightarrow> None | Some r \<Rightarrow>
       (case from_url r of
          None \<Rightarrow> Some r
        | Some u \<Rightarrow> if osip_uri_param_get_byname (url_params u) ''lr'' = None then None else Some r))"

definition port_or_5060 :: "string option \<Rightarrow> int" where
  "port_or_5060 p = (case p of None \<Rightarrow> 5060 | Some v \<Rightarrow> osip_atoi v)"

definition uri_destination :: "uri \<Rightarrow> string option \<times> int" where
  "uri_destination u =
     (let maddr = osip_uri_param_get_byname (url_params u) ''maddr''
      in (case (case maddr of None \<Rightarrow> None | Some p \<Rightarrow> gvalue p) of
            Some v \<Rightarrow> Some v | None \<Rightarrow> uri_host u, port_or_5060 (uri_port u)))"

section \<open>Dispatch\<close>

record transition =
  tr_state :: state_t
  tr_type :: type_t
  tr_method :: handler

definition ADD_ELEMENT :: "transition list \<Rightarrow> transition \<Rightarrow> transition list" where
  "ADD_ELEMENT first_element element = element # first_element"

definition fsm_findmethod :: "type_t \<Rightarrow> state_t \<Rightarrow> transition list \<Rightarrow> transition option" where
  "fsm_findmethod ty st transitions = find (\<lambda>t. tr_type t = ty \<and> tr_state t = st) transitions"

abbreviation entry :: "state_t \<Rightarrow> type_t \<Rightarrow> handler \<Rightarrow> transition" where
  "entry st ty m \<equiv> \<lparr>tr_state = st, tr_type = ty, tr_method = m\<rparr>"

text \<open>\<open>None\<close> stands for the result -1, an event to be discarded.\<close>

definition fsm_callmethod ::
    "type_t \<Rightarrow> state_t \<Rightarrow> transition list \<Rightarrow> tr_env \<Rightarrow> osip_event \<Rightarrow> tr_op option" where
  "fsm_callmethod ty st statemachine env evt =
     (case fsm_findmethod ty st statemachine of None \<Rightarrow> None | Some t \<Rightarrow> Some (tr_method t env evt))"

text \<open>A table built with \<open>ADD_ELEMENT\<close> is searched from its last entry; with distinct keys that is the same.\<close>

abbreviation transition_key :: "transition \<Rightarrow> state_t \<times> type_t" where
  "transition_key t \<equiv> (tr_state t, tr_type t)"

lemma foldl_ADD_ELEMENT: "foldl ADD_ELEMENT acc ts = rev ts @ acc"
  by (induction ts arbitrary: acc) (simp_all add: ADD_ELEMENT_def)

lemma find_unique:
  assumes "distinct (map transition_key ts)" "t \<in> set ts" "tr_type t = ty" "tr_state t = st"
  shows "fsm_findmethod ty st ts = Some t"
  using assms
proof (induction ts)
  case Nil
  then show ?case by simp
next
  case (Cons u us)
  show ?case
  proof (cases "t = u")
    case True
    with Cons.prems(3,4) show ?thesis by (simp add: fsm_findmethod_def)
  next
    case False
    have us: "t \<in> set us" using Cons.prems(2) False by (simp only: set_ConsD list.set insert_iff) blast
    have d: "distinct (map transition_key us)" "transition_key u \<notin> transition_key ` set us"
      using Cons.prems(1) unfolding list.map distinct.simps set_map by iprover+
    have "transition_key u \<noteq> transition_key t"
    proof
      assume "transition_key u = transition_key t"
      then have "transition_key u \<in> transition_key ` set us" using us by (rule image_eqI)
      with d(2) show False ..
    qed
    then have "\<not> (tr_type u = ty \<and> tr_state u = st)" using Cons.prems(3,4) by simp blast
    moreover have "fsm_findmethod ty st us = Some t" by (rule Cons.IH [OF d(1) us Cons.prems(3,4)])
    ultimately show ?thesis by (simp only: fsm_findmethod_def find.simps if_False)
  qed
qed

lemma findmethod_none: "fsm_findmethod ty st ts = None \<longleftrightarrow> (\<forall>t\<in>set ts. \<not> (tr_type t = ty \<and> tr_state t = st))"
  by (auto simp: fsm_findmethod_def find_None_iff)

lemma findmethod_rev:
  assumes "distinct (map transition_key ts)"
  shows "fsm_findmethod ty st (rev ts) = fsm_findmethod ty st ts"
proof (cases "fsm_findmethod ty st ts")
  case None
  then have "fsm_findmethod ty st (rev ts) = None" by (simp add: findmethod_none)
  with None show ?thesis by simp
next
  case (Some t)
  then have t: "t \<in> set ts" "tr_type t = ty" "tr_state t = st"
    unfolding fsm_findmethod_def by (auto simp: find_Some_iff)
  have "distinct (map transition_key (rev ts))" using assms by (metis distinct_rev rev_map)
  from find_unique [OF this _ t(2,3)] t(1) Some show ?thesis by simp
qed

section \<open>Timers that are due\<close>

text \<open>A timer that runs out a number of milliseconds from now.\<close>

definition timer_from_now :: "tr_env \<Rightarrow> int \<Rightarrow> timeval" where
  "timer_from_now env ms = add_gettimeofday (time_now env) ms"

definition osip_transaction_need_timer_x_event ::
    "timeval \<Rightarrow> 'c option \<Rightarrow> ('c \<Rightarrow> timeval) \<Rightarrow> bool \<Rightarrow> int \<Rightarrow> type_t \<Rightarrow> osip_event option" where
  "osip_transaction_need_timer_x_event now xixt timer cond_state trid TIMER_VAL =
     (case xixt of None \<Rightarrow> None | Some c \<Rightarrow>
        if cond_state \<and> tv_sec (timer c) \<noteq> - 1 \<and> osip_timercmp_gt now (timer c)
        then Some (osip_event_new TIMER_VAL trid) else None)"

text \<open>The vocabulary, unfolded.\<close>

lemmas handler_defs = osip_message_callback_def osip_kill_transaction_callback_def
  osip_transport_error_callback_def osip_transaction_set_state_def osip_message_free_def with_tr_def
  if_tr_def replace_response_def on_ict_def on_ist_def on_nict_def on_nist_def on_ictR_def on_istR_def on_nictR_def cb_send_message_def
  emit_def modify_def using_res_def

end
