(* ===== verification/Osip_Ict.thy ===== *)
theory Osip_Ict
  imports Osip_Fsm
begin

text \<open>
  The INVITE client transaction (libosip2: ict.c, ict_fsm.c): its context, the handlers of its state
  machine with the acknowledgement of a failure, and its table of transitions, both as it is built at
  run time and as the static array of the small build.
\<close>

section \<open>The context\<close>

definition osip_ict_set_destination :: "ict \<Rightarrow> string option \<Rightarrow> int \<Rightarrow> ict" where
  "osip_ict_set_destination c destination port = c\<lparr>ict_destination := destination, ict_port := port\<rparr>"

text \<open>Whether the protocol of a Via is a reliable one; other transports are treated as UDP.\<close>

definition reliable_protocol :: "string \<Rightarrow> bool" where
  "reliable_protocol proto \<longleftrightarrow>
     strcasecmp0 proto ''TCP'' \<or> strcasecmp0 proto ''TLS'' \<or> strcasecmp0 proto ''SCTP''"

text \<open>The protocol of the top Via; \<open>None\<close> when there is none, which ends the initialisation with -1.\<close>

definition top_protocol :: "message \<Rightarrow> string option" where
  "top_protocol m = (case osip_message_get_via m 0 of
      (i, via) \<Rightarrow> if i \<noteq> 0 then None else case via of None \<Rightarrow> None | Some v \<Rightarrow> via_protocol v)"

text \<open>The address a client transaction sends to: its loose route or the request URI.\<close>

definition request_destination :: "message \<Rightarrow> (string option \<times> int) res" where
  "request_destination m =
     (case loose_route (osip_message_get_route m 0) of
        Some r \<Rightarrow> bindR (deref (from_url r)) (\<lambda>u. Inr (uri_host u, port_or_5060 (uri_port u)))
      | None \<Rightarrow> bindR (deref (req_uri m)) (\<lambda>u. Inr (uri_destination u)))"

definition osip_ict_init :: "timeval \<Rightarrow> message \<Rightarrow> ict option res" where
  "osip_ict_init now invite =
     (case top_protocol invite of None \<Rightarrow> Inr None | Some proto \<Rightarrow>
       bindR (request_destination invite) (\<lambda>(host, port).
       let reliable = reliable_protocol proto;
           a = (if reliable then - 1 else DEFAULT_T1);
           d = (if reliable then 0 else if 64 * DEFAULT_T1 < 32000 then 32000 else 64 * DEFAULT_T1);
           b = 64 * DEFAULT_T1
       in Inr (Some \<lparr>timer_a_length = a,
                     timer_a_start = (if reliable then not_started else add_gettimeofday now a),
                     timer_b_length = b, timer_b_start = add_gettimeofday now b,
                     timer_d_length = d, timer_d_start = not_started,
                     ict_destination = host, ict_port = port\<rparr>)))"

definition osip_ict_need_timer_a_event :: "timeval \<Rightarrow> transaction \<Rightarrow> osip_event option" where
  "osip_ict_need_timer_a_event now tr =
     osip_transaction_need_timer_x_event now (ict_context tr) timer_a_start (state tr = ICT_CALLING) (transactionid tr) TIMEOUT_A"

definition osip_ict_need_timer_b_event :: "timeval \<Rightarrow> transaction \<Rightarrow> osip_event option" where
  "osip_ict_need_timer_b_event now tr =
     osip_transaction_need_timer_x_event now (ict_context tr) timer_b_start (state tr = ICT_CALLING) (transactionid tr) TIMEOUT_B"

definition osip_ict_need_timer_d_event :: "timeval \<Rightarrow> transaction \<Rightarrow> osip_event option" where
  "osip_ict_need_timer_d_event now tr =
     osip_transaction_need_timer_x_event now (ict_context tr) timer_d_start (state tr = ICT_COMPLETED) (transactionid tr) TIMEOUT_D"

section \<open>Handlers\<close>

definition ict_handle_transport_error :: "int \<Rightarrow> tr_op" where
  "ict_handle_transport_error err = runs [
     osip_transport_error_callback ICT err,
     osip_transaction_set_state ICT_TERMINATED,
     osip_kill_transaction_callback ICT]"

text \<open>Sending to the destination of the context.\<close>

definition ict_send :: "tr_env \<Rightarrow> message option \<Rightarrow> (int \<Rightarrow> tr_op list) \<Rightarrow> tr_op" where
  "ict_send env msg k = with_tr (\<lambda>tr. using_res (deref (ict_context tr)) (\<lambda>c.
     cb_send_message env msg (ict_destination c) (ict_port c) k))"

definition ict_snd_invite :: handler where
  "ict_snd_invite env evt = runs [
     modify (\<lambda>tr. tr\<lparr>orig_request := evt_sip evt\<rparr>),
     ict_send env (evt_sip evt) (\<lambda>i.
       if i = 0 then
         [with_tr (\<lambda>tr. osip_message_callback OSIP_ICT_INVITE_SENT (orig_request tr)),
          osip_transaction_set_state ICT_CALLING]
       else [ict_handle_transport_error i])]"

definition osip_ict_timeout_a_event :: handler where
  "osip_ict_timeout_a_event env evt = runs [
     on_ictR (\<lambda>c. bindR (doubled (timer_a_length c)) (\<lambda>n. Inr (c\<lparr>timer_a_length := n\<rparr>))),
     on_ict (\<lambda>c. c\<lparr>timer_a_start := timer_from_now env (timer_a_length c)\<rparr>),
     with_tr (\<lambda>tr. ict_send env (orig_request tr) (\<lambda>i.
       if i \<noteq> 0 then [ict_handle_transport_error i]
       else [with_tr (\<lambda>tr. osip_message_callback OSIP_ICT_INVITE_SENT_AGAIN (orig_request tr))]))]"

definition osip_ict_timeout_b_event :: handler where
  "osip_ict_timeout_b_event env evt = runs [
     on_ict (\<lambda>c. c\<lparr>timer_b_length := - 1, timer_b_start := stop_timer (timer_b_start c)\<rparr>),
     osip_message_callback OSIP_ICT_STATUS_TIMEOUT (evt_sip evt),
     osip_transaction_set_state ICT_TERMINATED,
     osip_kill_transaction_callback ICT]"

definition ict_rcv_1xx :: handler where
  "ict_rcv_1xx env evt = runs [
     replace_response evt,
     osip_message_callback OSIP_ICT_STATUS_1XX_RECEIVED (evt_sip evt),
     osip_transaction_set_state ICT_PROCEEDING]"

definition ict_rcv_2xx :: handler where
  "ict_rcv_2xx env evt = runs [
     replace_response evt,
     osip_message_callback OSIP_ICT_STATUS_2XX_RECEIVED (evt_sip evt),
     osip_transaction_set_state ICT_TERMINATED,
     osip_kill_transaction_callback ICT]"

text \<open>The ACK for a failure; \<open>Inr None\<close> is the null pointer the source returns when it cannot build one.\<close>

definition ict_create_ack :: "transaction \<Rightarrow> message \<Rightarrow> message option res" where
  "ict_create_ack tr response =
     (case (osip_from_clone (msg_from response), osip_from_clone (msg_to response),
            osip_call_id_clone (msg_call_id response), osip_cseq_clone (msg_cseq response)) of
        (Some f, Some t, Some c, Some s) \<Rightarrow>
          bindR (deref (orig_request tr)) (\<lambda>orig.
            case snd (osip_message_get_via orig 0) of
              None \<Rightarrow> Inr None
            | Some orig_via \<Rightarrow> Inr (Some
                \<lparr>status_code = 0, sip_method = Some ''ACK'', sip_version = sip_version orig,
                 req_uri = osip_uri_clone (req_uri orig), vias = [osip_via_clone (Some orig_via)],
                 routes = map osip_from_clone (routes orig),
                 record_routes = [], msg_contacts = [], msg_from = Some f, msg_to = Some t,
                 msg_call_id = Some c, msg_cseq = Some (s\<lparr>cseq_method := Some ''ACK''\<rparr>)\<rparr>))
      | _ \<Rightarrow> Inr None)"

definition ict_ack_destination :: "message \<Rightarrow> ict \<Rightarrow> ict res" where
  "ict_ack_destination ack c =
     (if ict_destination c \<noteq> None then Inr c
      else case (case loose_route (osip_message_get_route ack 0) of None \<Rightarrow> None | Some r \<Rightarrow> from_url r) of
          Some u \<Rightarrow> Inr (osip_ict_set_destination c (uri_host u) (port_or_5060 (uri_port u)))
        | None \<Rightarrow> bindR (deref (req_uri ack)) (\<lambda>u.
            let (host, port) = uri_destination u in Inr (osip_ict_set_destination c host port)))"

definition ict_failure_received :: "message \<Rightarrow> message_callback" where
  "ict_failure_received m =
     (if msg_status 3 m then OSIP_ICT_STATUS_3XX_RECEIVED
      else if msg_status 4 m then OSIP_ICT_STATUS_4XX_RECEIVED
      else if msg_status 5 m then OSIP_ICT_STATUS_5XX_RECEIVED
      else OSIP_ICT_STATUS_6XX_RECEIVED)"

text \<open>The end of the handler: timer D, and the state.\<close>

definition ict_completed :: "tr_env \<Rightarrow> tr_op list" where
  "ict_completed env = [
     on_ict (\<lambda>c. c\<lparr>timer_d_start := timer_from_now env (timer_d_length c)\<rparr>),
     osip_transaction_set_state ICT_COMPLETED]"

definition ict_rcv_3456xx :: handler where
  "ict_rcv_3456xx env evt = runs [
     replace_response evt,
     if_tr (\<lambda>tr. state tr \<noteq> ICT_COMPLETED)
       [with_tr (\<lambda>tr. using_res (bindR (deref (evt_sip evt)) (ict_create_ack tr)) (\<lambda>ack.
          runs (modify (\<lambda>tr. tr\<lparr>tr_ack := ack\<rparr>) #
            (case ack of
               None \<Rightarrow> [osip_transaction_set_state ICT_TERMINATED, osip_kill_transaction_callback ICT]
             | Some a \<Rightarrow>
                 [on_ictR (ict_ack_destination a),
                  ict_send env ack (\<lambda>i.
                    if i \<noteq> 0 then [ict_handle_transport_error i]
                    else using_res (deref (evt_sip evt)) (\<lambda>sip.
                           osip_message_callback (ict_failure_received sip) (Some sip)) #
                         osip_message_callback OSIP_ICT_ACK_SENT (evt_sip evt) # ict_completed env)]))))]
       (ict_completed env)]"

definition osip_ict_timeout_d_event :: handler where
  "osip_ict_timeout_d_event env evt = runs [
     on_ict (\<lambda>c. c\<lparr>timer_d_length := - 1, timer_d_start := stop_timer (timer_d_start c)\<rparr>),
     osip_transaction_set_state ICT_TERMINATED,
     osip_kill_transaction_callback ICT]"

definition ict_retransmit_ack :: handler where
  "ict_retransmit_ack env evt = runs [
     osip_message_callback OSIP_ICT_STATUS_3456XX_RECEIVED_AGAIN (evt_sip evt),
     osip_message_free (evt_sip evt),
     with_tr (\<lambda>tr. ict_send env (tr_ack tr) (\<lambda>i.
       if i = 0 then
         [with_tr (\<lambda>tr. osip_message_callback OSIP_ICT_ACK_SENT_AGAIN (tr_ack tr)),
          osip_transaction_set_state ICT_COMPLETED]
       else [ict_handle_transport_error i]))]"

section \<open>The table\<close>

definition ict_load_fsm :: "transition list" where
  "ict_load_fsm = foldl ADD_ELEMENT [] [
     entry ICT_PRE_CALLING SND_REQINVITE ict_snd_invite,
     entry ICT_CALLING TIMEOUT_A osip_ict_timeout_a_event,
     entry ICT_CALLING TIMEOUT_B osip_ict_timeout_b_event,
     entry ICT_CALLING RCV_STATUS_1XX ict_rcv_1xx,
     entry ICT_CALLING RCV_STATUS_2XX ict_rcv_2xx,
     entry ICT_CALLING RCV_STATUS_3456XX ict_rcv_3456xx,
     entry ICT_PROCEEDING RCV_STATUS_1XX ict_rcv_1xx,
     entry ICT_PROCEEDING RCV_STATUS_2XX ict_rcv_2xx,
     entry ICT_PROCEEDING RCV_STATUS_3456XX ict_rcv_3456xx,
     entry ICT_COMPLETED RCV_STATUS_3456XX ict_retransmit_ack,
     entry ICT_COMPLETED TIMEOUT_D osip_ict_timeout_d_event]"

definition ict_transition :: "transition list" where
  "ict_transition = [
     entry ICT_PRE_CALLING SND_REQINVITE ict_snd_invite,
     entry ICT_CALLING TIMEOUT_A osip_ict_timeout_a_event,
     entry ICT_CALLING TIMEOUT_B osip_ict_timeout_b_event,
     entry ICT_CALLING RCV_STATUS_1XX ict_rcv_1xx,
     entry ICT_CALLING RCV_STATUS_2XX ict_rcv_2xx,
     entry ICT_CALLING RCV_STATUS_3456XX ict_rcv_3456xx,
     entry ICT_PROCEEDING RCV_STATUS_1XX ict_rcv_1xx,
     entry ICT_PROCEEDING RCV_STATUS_2XX ict_rcv_2xx,
     entry ICT_PROCEEDING RCV_STATUS_3456XX ict_rcv_3456xx,
     entry ICT_COMPLETED RCV_STATUS_3456XX ict_retransmit_ack,
     entry ICT_COMPLETED TIMEOUT_D osip_ict_timeout_d_event]"

lemma ict_transition_keys: "distinct (map transition_key ict_transition)"
  by (simp add: ict_transition_def)

lemma ict_load_fsm_rev: "ict_load_fsm = rev ict_transition"
  by (simp only: ict_load_fsm_def ict_transition_def foldl_ADD_ELEMENT append_Nil2)

end
