(* ===== verification/Osip_Ist.thy ===== *)
theory Osip_Ist
  imports Osip_Ict
begin

text \<open>
  The INVITE server transaction (libosip2: ist.c, ist_fsm.c): its context, its handlers and its table
  of transitions.
\<close>

section \<open>The context\<close>

definition osip_ist_init :: "message \<Rightarrow> ist option" where
  "osip_ist_init invite =
     (case top_protocol invite of None \<Rightarrow> None | Some proto \<Rightarrow>
       let reliable = reliable_protocol proto
       in Some \<lparr>timer_g_length = (if reliable then - 1 else DEFAULT_T1), timer_g_start = not_started,
                timer_i_length = (if reliable then 0 else DEFAULT_T4), timer_i_start = not_started,
                timer_h_length = 64 * DEFAULT_T1, timer_h_start = not_started\<rparr>)"

definition osip_ist_need_timer_g_event :: "timeval \<Rightarrow> transaction \<Rightarrow> osip_event option" where
  "osip_ist_need_timer_g_event now tr =
     osip_transaction_need_timer_x_event now (ist_context tr) timer_g_start (state tr = IST_COMPLETED) (transactionid tr) TIMEOUT_G"

definition osip_ist_need_timer_h_event :: "timeval \<Rightarrow> transaction \<Rightarrow> osip_event option" where
  "osip_ist_need_timer_h_event now tr =
     osip_transaction_need_timer_x_event now (ist_context tr) timer_h_start (state tr = IST_COMPLETED) (transactionid tr) TIMEOUT_H"

definition osip_ist_need_timer_i_event :: "timeval \<Rightarrow> transaction \<Rightarrow> osip_event option" where
  "osip_ist_need_timer_i_event now tr =
     osip_transaction_need_timer_x_event now (ist_context tr) timer_i_start (state tr = IST_CONFIRMED) (transactionid tr) TIMEOUT_I"

section \<open>Handlers\<close>

definition ist_handle_transport_error :: "int \<Rightarrow> tr_op" where
  "ist_handle_transport_error err = runs [
     osip_transport_error_callback IST err,
     osip_transaction_set_state IST_TERMINATED,
     osip_kill_transaction_callback IST]"

definition ist_response_again :: "message \<Rightarrow> message_callback" where
  "ist_response_again m =
     (if MSG_IS_STATUS_1XX m then OSIP_IST_STATUS_1XX_SENT
      else if MSG_IS_STATUS_2XX m then OSIP_IST_STATUS_2XX_SENT_AGAIN
      else OSIP_IST_STATUS_3456XX_SENT_AGAIN)"

definition ist_rcv_invite :: handler where
  "ist_rcv_invite env evt = if_tr (\<lambda>tr. state tr = IST_PRE_PROCEEDING)
     [modify (\<lambda>tr. tr\<lparr>orig_request := evt_sip evt\<rparr>),
      osip_message_callback OSIP_IST_INVITE_RECEIVED (evt_sip evt),
      osip_transaction_set_state IST_PROCEEDING]
     [osip_message_free (evt_sip evt),
      with_tr (\<lambda>tr. osip_message_callback OSIP_IST_INVITE_RECEIVED_AGAIN (orig_request tr)),
      with_tr (\<lambda>tr. case last_response tr of
          None \<Rightarrow> emit []
        | Some m \<Rightarrow> osip_transaction_snd_xxx env (last_response tr) (\<lambda>i.
            if i \<noteq> 0 then [ist_handle_transport_error i]
            else [osip_message_callback (ist_response_again m) (last_response tr)]))]"

definition osip_ist_timeout_g_event :: handler where
  "osip_ist_timeout_g_event env evt = runs [
     on_istR (\<lambda>c. bindR (doubled (timer_g_length c)) (\<lambda>n. Inr (c\<lparr>timer_g_length := n\<rparr>))),
     on_ist (\<lambda>c. if 4000 < timer_g_length c then c\<lparr>timer_g_length := 4000\<rparr> else c),
     on_ist (\<lambda>c. c\<lparr>timer_g_start := timer_from_now env (timer_g_length c)\<rparr>),
     with_tr (\<lambda>tr. osip_transaction_snd_xxx env (last_response tr) (\<lambda>i.
       if i \<noteq> 0 then [ist_handle_transport_error i]
       else [with_tr (\<lambda>tr. osip_message_callback OSIP_IST_STATUS_3456XX_SENT_AGAIN (last_response tr))]))]"

definition osip_ist_timeout_h_event :: handler where
  "osip_ist_timeout_h_event env evt = runs [
     on_ist (\<lambda>c. c\<lparr>timer_h_length := - 1, timer_h_start := stop_timer (timer_h_start c)\<rparr>),
     osip_transaction_set_state IST_TERMINATED,
     osip_kill_transaction_callback IST]"

definition osip_ist_timeout_i_event :: handler where
  "osip_ist_timeout_i_event env evt = runs [
     on_ist (\<lambda>c. c\<lparr>timer_i_length := - 1, timer_i_start := stop_timer (timer_i_start c)\<rparr>),
     osip_transaction_set_state IST_TERMINATED,
     osip_kill_transaction_callback IST]"

definition ist_snd_1xx :: handler where
  "ist_snd_1xx env evt = runs [
     replace_response evt,
     osip_transaction_snd_xxx env (evt_sip evt) (\<lambda>i.
       if i \<noteq> 0 then [ist_handle_transport_error i]
       else [with_tr (\<lambda>tr. osip_message_callback OSIP_IST_STATUS_1XX_SENT (last_response tr))])]"

definition ist_snd_2xx :: handler where
  "ist_snd_2xx env evt = runs [
     replace_response evt,
     osip_transaction_snd_xxx env (evt_sip evt) (\<lambda>i.
       if i \<noteq> 0 then [ist_handle_transport_error i]
       else [with_tr (\<lambda>tr. osip_message_callback OSIP_IST_STATUS_2XX_SENT (last_response tr)),
             osip_transaction_set_state IST_TERMINATED,
             osip_kill_transaction_callback IST])]"

definition ist_failure_sent :: "message \<Rightarrow> message_callback" where
  "ist_failure_sent m =
     (if msg_status 3 m then OSIP_IST_STATUS_3XX_SENT
      else if msg_status 4 m then OSIP_IST_STATUS_4XX_SENT
      else if msg_status 5 m then OSIP_IST_STATUS_5XX_SENT
      else OSIP_IST_STATUS_6XX_SENT)"

definition ist_snd_3456xx :: handler where
  "ist_snd_3456xx env evt = runs [
     replace_response evt,
     osip_transaction_snd_xxx env (evt_sip evt) (\<lambda>i.
       if i \<noteq> 0 then [ist_handle_transport_error i]
       else [with_tr (\<lambda>tr. using_res (deref (last_response tr)) (\<lambda>m.
               osip_message_callback (ist_failure_sent m) (Some m))),
             on_ist (\<lambda>c. if timer_g_length c \<noteq> - 1
                         then c\<lparr>timer_g_start := timer_from_now env (timer_g_length c)\<rparr> else c),
             on_ist (\<lambda>c. c\<lparr>timer_h_start := timer_from_now env (timer_h_length c)\<rparr>),
             osip_transaction_set_state IST_COMPLETED])]"

definition ist_rcv_ack :: handler where
  "ist_rcv_ack env evt = runs [
     with_tr (\<lambda>tr. osip_message_free (tr_ack tr)),
     modify (\<lambda>tr. tr\<lparr>tr_ack := evt_sip evt\<rparr>),
     with_tr (\<lambda>tr. osip_message_callback
       (if state tr = IST_COMPLETED then OSIP_IST_ACK_RECEIVED else OSIP_IST_ACK_RECEIVED_AGAIN) (tr_ack tr)),
     on_ist (\<lambda>c. c\<lparr>timer_i_start := timer_from_now env (timer_i_length c)\<rparr>),
     osip_transaction_set_state IST_CONFIRMED]"

section \<open>The table\<close>

definition ist_load_fsm :: "transition list" where
  "ist_load_fsm = foldl ADD_ELEMENT [] [
     entry IST_PRE_PROCEEDING RCV_REQINVITE ist_rcv_invite,
     entry IST_PROCEEDING RCV_REQINVITE ist_rcv_invite,
     entry IST_COMPLETED RCV_REQINVITE ist_rcv_invite,
     entry IST_COMPLETED TIMEOUT_G osip_ist_timeout_g_event,
     entry IST_COMPLETED TIMEOUT_H osip_ist_timeout_h_event,
     entry IST_PROCEEDING SND_STATUS_1XX ist_snd_1xx,
     entry IST_PROCEEDING SND_STATUS_2XX ist_snd_2xx,
     entry IST_PROCEEDING SND_STATUS_3456XX ist_snd_3456xx,
     entry IST_COMPLETED RCV_REQACK ist_rcv_ack,
     entry IST_CONFIRMED RCV_REQACK ist_rcv_ack,
     entry IST_CONFIRMED TIMEOUT_I osip_ist_timeout_i_event]"

definition ist_transition :: "transition list" where
  "ist_transition = [
     entry IST_PRE_PROCEEDING RCV_REQINVITE ist_rcv_invite,
     entry IST_PROCEEDING RCV_REQINVITE ist_rcv_invite,
     entry IST_COMPLETED RCV_REQINVITE ist_rcv_invite,
     entry IST_COMPLETED TIMEOUT_G osip_ist_timeout_g_event,
     entry IST_COMPLETED TIMEOUT_H osip_ist_timeout_h_event,
     entry IST_PROCEEDING SND_STATUS_1XX ist_snd_1xx,
     entry IST_PROCEEDING SND_STATUS_2XX ist_snd_2xx,
     entry IST_PROCEEDING SND_STATUS_3456XX ist_snd_3456xx,
     entry IST_COMPLETED RCV_REQACK ist_rcv_ack,
     entry IST_CONFIRMED RCV_REQACK ist_rcv_ack,
     entry IST_CONFIRMED TIMEOUT_I osip_ist_timeout_i_event]"

lemma ist_transition_keys: "distinct (map transition_key ist_transition)"
  by (simp add: ist_transition_def)

lemma ist_load_fsm_rev: "ist_load_fsm = rev ist_transition"
  by (simp only: ist_load_fsm_def ist_transition_def foldl_ADD_ELEMENT append_Nil2)

end
