(* ===== verification/Osip_Nict.thy ===== *)
theory Osip_Nict
  imports Osip_Ict
begin

text \<open>
  The client transaction of any request but INVITE (libosip2: nict.c, nict_fsm.c): its context, its
  handlers and its table of transitions.
\<close>

section \<open>The context\<close>

definition osip_nict_set_destination :: "nict \<Rightarrow> string option \<Rightarrow> int \<Rightarrow> nict" where
  "osip_nict_set_destination c destination port = c\<lparr>nict_destination := destination, nict_port := port\<rparr>"

definition osip_nict_init :: "timeval \<Rightarrow> message \<Rightarrow> nict option res" where
  "osip_nict_init now request =
     (case top_protocol request of None \<Rightarrow> Inr None | Some proto \<Rightarrow>
       bindR (request_destination request) (\<lambda>(host, port).
       let reliable = reliable_protocol proto; f = 64 * DEFAULT_T1
       in Inr (Some \<lparr>timer_e_length = (if reliable then - 1 else DEFAULT_T1), timer_e_start = not_started,
                     timer_f_length = f, timer_f_start = add_gettimeofday now f,
                     timer_k_length = (if reliable then 0 else DEFAULT_T4), timer_k_start = not_started,
                     nict_destination = host, nict_port = port\<rparr>)))"

definition osip_nict_need_timer_e_event :: "timeval \<Rightarrow> transaction \<Rightarrow> osip_event option" where
  "osip_nict_need_timer_e_event now tr =
     osip_transaction_need_timer_x_event now (nict_context tr) timer_e_start
       (state tr = NICT_PROCEEDING \<or> state tr = NICT_TRYING) (transactionid tr) TIMEOUT_E"

definition osip_nict_need_timer_f_event :: "timeval \<Rightarrow> transaction \<Rightarrow> osip_event option" where
  "osip_nict_need_timer_f_event now tr =
     osip_transaction_need_timer_x_event now (nict_context tr) timer_f_start
       (state tr = NICT_PROCEEDING \<or> state tr = NICT_TRYING) (transactionid tr) TIMEOUT_F"

definition osip_nict_need_timer_k_event :: "timeval \<Rightarrow> transaction \<Rightarrow> osip_event option" where
  "osip_nict_need_timer_k_event now tr =
     osip_transaction_need_timer_x_event now (nict_context tr) timer_k_start
       (state tr = NICT_COMPLETED) (transactionid tr) TIMEOUT_K"

section \<open>Handlers\<close>

definition nict_handle_transport_error :: "int \<Rightarrow> tr_op" where
  "nict_handle_transport_error err = runs [
     osip_transport_error_callback NICT err,
     osip_transaction_set_state NICT_TERMINATED,
     osip_kill_transaction_callback NICT]"

definition nict_send :: "tr_env \<Rightarrow> message option \<Rightarrow> (int \<Rightarrow> tr_op list) \<Rightarrow> tr_op" where
  "nict_send env msg k = with_tr (\<lambda>tr. using_res (deref (nict_context tr)) (\<lambda>c.
     cb_send_message env msg (nict_destination c) (nict_port c) k))"

text \<open>A callback chosen by the method of a request: the first of a list of methods that it has.\<close>

fun by_method :: "(string \<times> message_callback) list \<Rightarrow> message_callback \<Rightarrow> message \<Rightarrow> message_callback res" where
  "by_method [] other m = Inr other"
| "by_method ((name, cb) # cs) other m = bindR (msg_is name m) (\<lambda>b. if b then Inr cb else by_method cs other m)"

definition request_sent :: "message \<Rightarrow> message_callback res" where
  "request_sent = by_method [
     (''REGISTER'', OSIP_NICT_REGISTER_SENT), (''BYE'', OSIP_NICT_BYE_SENT), (''OPTIONS'', OSIP_NICT_OPTIONS_SENT),
     (''INFO'', OSIP_NICT_INFO_SENT), (''CANCEL'', OSIP_NICT_CANCEL_SENT), (''NOTIFY'', OSIP_NICT_NOTIFY_SENT),
     (''SUBSCRIBE'', OSIP_NICT_SUBSCRIBE_SENT)] OSIP_NICT_UNKNOWN_REQUEST_SENT"

definition nict_snd_request :: handler where
  "nict_snd_request env evt = runs [
     modify (\<lambda>tr. tr\<lparr>orig_request := evt_sip evt\<rparr>),
     nict_send env (evt_sip evt) (\<lambda>i.
       if i = 0 then
         [using_res (bindR (deref (evt_sip evt)) request_sent) (\<lambda>cb.
            with_tr (\<lambda>tr. osip_message_callback cb (orig_request tr))),
          on_nict (\<lambda>c. if 0 < timer_e_length c
                       then c\<lparr>timer_e_start := timer_from_now env (timer_e_length c)\<rparr> else c),
          osip_transaction_set_state NICT_TRYING]
       else [nict_handle_transport_error i])]"

definition osip_nict_timeout_e_event :: handler where
  "osip_nict_timeout_e_event env evt = runs [
     if_tr (\<lambda>tr. state tr = NICT_TRYING)
       [on_nictR (\<lambda>c. bindR (doubled (timer_e_length c)) (\<lambda>n. Inr (c\<lparr>timer_e_length := n\<rparr>))),
        on_nict (\<lambda>c. if 4000 < timer_e_length c then c\<lparr>timer_e_length := 4000\<rparr> else c)]
       [on_nict (\<lambda>c. c\<lparr>timer_e_length := 4000\<rparr>)],
     on_nict (\<lambda>c. c\<lparr>timer_e_start := timer_from_now env (timer_e_length c)\<rparr>),
     with_tr (\<lambda>tr. nict_send env (orig_request tr) (\<lambda>i.
       if i \<noteq> 0 then [nict_handle_transport_error i]
       else [with_tr (\<lambda>tr. osip_message_callback OSIP_NICT_REQUEST_SENT_AGAIN (orig_request tr))]))]"

definition osip_nict_timeout_f_event :: handler where
  "osip_nict_timeout_f_event env evt = runs [
     on_nict (\<lambda>c. c\<lparr>timer_f_length := - 1, timer_f_start := stop_timer (timer_f_start c)\<rparr>),
     osip_message_callback OSIP_NICT_STATUS_TIMEOUT (evt_sip evt),
     osip_transaction_set_state NICT_TERMINATED,
     osip_kill_transaction_callback NICT]"

definition osip_nict_timeout_k_event :: handler where
  "osip_nict_timeout_k_event env evt = runs [
     on_nict (\<lambda>c. c\<lparr>timer_k_length := - 1, timer_k_start := stop_timer (timer_k_start c)\<rparr>),
     osip_transaction_set_state NICT_TERMINATED,
     osip_kill_transaction_callback NICT]"

definition nict_rcv_1xx :: handler where
  "nict_rcv_1xx env evt = runs [
     replace_response evt,
     osip_message_callback OSIP_NICT_STATUS_1XX_RECEIVED (evt_sip evt),
     osip_transaction_set_state NICT_PROCEEDING]"

definition nict_response_received :: "osip_event \<Rightarrow> message option \<Rightarrow> message_callback res" where
  "nict_response_received evt msg =
     (if evt_type evt = RCV_STATUS_2XX then Inr OSIP_NICT_STATUS_2XX_RECEIVED
      else bindR (deref msg) (\<lambda>m. Inr (
        if msg_status 3 m then OSIP_NICT_STATUS_3XX_RECEIVED
        else if msg_status 4 m then OSIP_NICT_STATUS_4XX_RECEIVED
        else if msg_status 5 m then OSIP_NICT_STATUS_5XX_RECEIVED
        else OSIP_NICT_STATUS_6XX_RECEIVED)))"

definition nict_rcv_23456xx :: handler where
  "nict_rcv_23456xx env evt = runs [
     replace_response evt,
     with_tr (\<lambda>tr. using_res (nict_response_received evt (last_response tr)) (\<lambda>cb.
       osip_message_callback cb (last_response tr))),
     if_tr (\<lambda>tr. state tr \<noteq> NICT_COMPLETED)
       [on_nict (\<lambda>c. c\<lparr>timer_k_start := timer_from_now env (timer_k_length c)\<rparr>)] [],
     osip_transaction_set_state NICT_COMPLETED]"

section \<open>The table\<close>

definition nict_load_fsm :: "transition list" where
  "nict_load_fsm = foldl ADD_ELEMENT [] [
     entry NICT_PRE_TRYING SND_REQUEST nict_snd_request,
     entry NICT_TRYING TIMEOUT_F osip_nict_timeout_f_event,
     entry NICT_TRYING TIMEOUT_E osip_nict_timeout_e_event,
     entry NICT_TRYING RCV_STATUS_1XX nict_rcv_1xx,
     entry NICT_TRYING RCV_STATUS_2XX nict_rcv_23456xx,
     entry NICT_TRYING RCV_STATUS_3456XX nict_rcv_23456xx,
     entry NICT_PROCEEDING TIMEOUT_F osip_nict_timeout_f_event,
     entry NICT_PROCEEDING TIMEOUT_E osip_nict_timeout_e_event,
     entry NICT_PROCEEDING RCV_STATUS_1XX nict_rcv_1xx,
     entry NICT_PROCEEDING RCV_STATUS_2XX nict_rcv_23456xx,
     entry NICT_PROCEEDING RCV_STATUS_3456XX nict_rcv_23456xx,
     entry NICT_COMPLETED TIMEOUT_K osip_nict_timeout_k_event]"

definition nict_transition :: "transition list" where
  "nict_transition = [
     entry NICT_PRE_TRYING SND_REQUEST nict_snd_request,
     entry NICT_TRYING TIMEOUT_F osip_nict_timeout_f_event,
     entry NICT_TRYING TIMEOUT_E osip_nict_timeout_e_event,
     entry NICT_TRYING RCV_STATUS_1XX nict_rcv_1xx,
     entry NICT_TRYING RCV_STATUS_2XX nict_rcv_23456xx,
     entry NICT_TRYING RCV_STATUS_3456XX nict_rcv_23456xx,
     entry NICT_PROCEEDING TIMEOUT_F osip_nict_timeout_f_event,
     entry NICT_PROCEEDING TIMEOUT_E osip_nict_timeout_e_event,
     entry NICT_PROCEEDING RCV_STATUS_1XX nict_rcv_1xx,
     entry NICT_PROCEEDING RCV_STATUS_2XX nict_rcv_23456xx,
     entry NICT_PROCEEDING RCV_STATUS_3456XX nict_rcv_23456xx,
     entry NICT_COMPLETED TIMEOUT_K osip_nict_timeout_k_event]"

lemma nict_transition_keys: "distinct (map transition_key nict_transition)"
  by (simp add: nict_transition_def)

lemma nict_load_fsm_rev: "nict_load_fsm = rev nict_transition"
  by (simp only: nict_load_fsm_def nict_transition_def foldl_ADD_ELEMENT append_Nil2)

end
