(* ===== verification/Osip_Nist.thy ===== *)
theory Osip_Nist
  imports Osip_Nict
begin

text \<open>
  The server transaction of any request but INVITE (libosip2: nist.c, nist_fsm.c): its context, its
  handlers and its table of transitions.
\<close>

section \<open>The context\<close>

definition osip_nist_init :: "message \<Rightarrow> nist option" where
  "osip_nist_init request =
     (case top_protocol request of None \<Rightarrow> None | Some proto \<Rightarrow>
       Some \<lparr>timer_j_length = (if reliable_protocol proto then 0 else 64 * DEFAULT_T1), timer_j_start = not_started\<rparr>)"

definition osip_nist_need_timer_j_event :: "timeval \<Rightarrow> transaction \<Rightarrow> osip_event option" where
  "osip_nist_need_timer_j_event now tr =
     osip_transaction_need_timer_x_event now (nist_context tr) timer_j_start
       (state tr = NIST_COMPLETED) (transactionid tr) TIMEOUT_J"

section \<open>Handlers\<close>

definition nist_handle_transport_error :: "int \<Rightarrow> tr_op" where
  "nist_handle_transport_error err = runs [
     osip_transport_error_callback NIST err,
     osip_transaction_set_state NIST_TERMINATED,
     osip_kill_transaction_callback NIST]"

definition request_received :: "message \<Rightarrow> message_callback res" where
  "request_received = by_method [
     (''REGISTER'', OSIP_NIST_REGISTER_RECEIVED), (''BYE'', OSIP_NIST_BYE_RECEIVED),
     (''OPTIONS'', OSIP_NIST_OPTIONS_RECEIVED), (''INFO'', OSIP_NIST_INFO_RECEIVED),
     (''CANCEL'', OSIP_NIST_CANCEL_RECEIVED), (''NOTIFY'', OSIP_NIST_NOTIFY_RECEIVED),
     (''SUBSCRIBE'', OSIP_NIST_SUBSCRIBE_RECEIVED)] OSIP_NIST_UNKNOWN_REQUEST_RECEIVED"

definition nist_response_again :: "message \<Rightarrow> message_callback" where
  "nist_response_again m =
     (if MSG_IS_STATUS_1XX m then OSIP_NIST_STATUS_1XX_SENT
      else if MSG_IS_STATUS_2XX m then OSIP_NIST_STATUS_2XX_SENT_AGAIN
      else OSIP_NIST_STATUS_3456XX_SENT_AGAIN)"

definition nist_rcv_request :: handler where
  "nist_rcv_request env evt = if_tr (\<lambda>tr. state tr = NIST_PRE_TRYING)
     [modify (\<lambda>tr. tr\<lparr>orig_request := evt_sip evt\<rparr>),
      using_res (bindR (deref (evt_sip evt)) request_received) (\<lambda>cb.
        with_tr (\<lambda>tr. osip_message_callback cb (orig_request tr))),
      osip_transaction_set_state NIST_TRYING]
     [osip_message_free (evt_sip evt),
      with_tr (\<lambda>tr. osip_message_callback OSIP_NIST_REQUEST_RECEIVED_AGAIN (orig_request tr)),
      with_tr (\<lambda>tr. case last_response tr of
          None \<Rightarrow> emit []
        | Some m \<Rightarrow> osip_transaction_snd_xxx env (last_response tr) (\<lambda>i.
            if i \<noteq> 0 then [nist_handle_transport_error i]
            else [osip_message_callback (nist_response_again m) (last_response tr)]))]"

definition nist_snd_1xx :: handler where
  "nist_snd_1xx env evt = runs [
     replace_response evt,
     with_tr (\<lambda>tr. osip_transaction_snd_xxx env (last_response tr) (\<lambda>i.
       if i \<noteq> 0 then [nist_handle_transport_error i]
       else [with_tr (\<lambda>tr. osip_message_callback OSIP_NIST_STATUS_1XX_SENT (last_response tr)),
             osip_transaction_set_state NIST_PROCEEDING]))]"

definition nist_response_sent :: "osip_event \<Rightarrow> message option \<Rightarrow> message_callback res" where
  "nist_response_sent evt msg =
     (if evt_type evt = SND_STATUS_2XX then Inr OSIP_NIST_STATUS_2XX_SENT
      else bindR (deref msg) (\<lambda>m. Inr (
        if msg_status 3 m then OSIP_NIST_STATUS_3XX_SENT
        else if msg_status 4 m then OSIP_NIST_STATUS_4XX_SENT
        else if msg_status 5 m then OSIP_NIST_STATUS_5XX_SENT
        else OSIP_NIST_STATUS_6XX_SENT)))"

definition nist_snd_23456xx :: handler where
  "nist_snd_23456xx env evt = runs [
     replace_response evt,
     with_tr (\<lambda>tr. osip_transaction_snd_xxx env (last_response tr) (\<lambda>i.
       if i \<noteq> 0 then [nist_handle_transport_error i]
       else [with_tr (\<lambda>tr. using_res (nist_response_sent evt (last_response tr)) (\<lambda>cb.
               osip_message_callback cb (last_response tr))),
             if_tr (\<lambda>tr. state tr \<noteq> NIST_COMPLETED)
               [on_nist (\<lambda>c. c\<lparr>timer_j_start := timer_from_now env (timer_j_length c)\<rparr>)] [],
             osip_transaction_set_state NIST_COMPLETED]))]"

definition osip_nist_timeout_j_event :: handler where
  "osip_nist_timeout_j_event env evt = runs [
     on_nist (\<lambda>c. c\<lparr>timer_j_length := - 1, timer_j_start := stop_timer (timer_j_start c)\<rparr>),
     osip_transaction_set_state NIST_TERMINATED,
     osip_kill_transaction_callback NIST]"

section \<open>The table\<close>

definition nist_load_fsm :: "transition list" where
  "nist_load_fsm = foldl ADD_ELEMENT [] [
     entry NIST_PRE_TRYING RCV_REQUEST nist_rcv_request,
     entry NIST_TRYING SND_STATUS_1XX nist_snd_1xx,
     entry NIST_TRYING SND_STATUS_2XX nist_snd_23456xx,
     entry NIST_TRYING SND_STATUS_3456XX nist_snd_23456xx,
     entry NIST_PROCEEDING SND_STATUS_1XX nist_snd_1xx,
     entry NIST_PROCEEDING SND_STATUS_2XX nist_snd_23456xx,
     entry NIST_PROCEEDING SND_STATUS_3456XX nist_snd_23456xx,
     entry NIST_PROCEEDING RCV_REQUEST nist_rcv_request,
     entry NIST_COMPLETED TIMEOUT_J osip_nist_timeout_j_event,
     entry NIST_COMPLETED RCV_REQUEST nist_rcv_request]"

definition nist_transition :: "transition list" where
  "nist_transition = [
     entry NIST_PRE_TRYING RCV_REQUEST nist_rcv_request,
     entry NIST_TRYING SND_STATUS_1XX nist_snd_1xx,
     entry NIST_TRYING SND_STATUS_2XX nist_snd_23456xx,
     entry NIST_TRYING SND_STATUS_3456XX nist_snd_23456xx,
     entry NIST_PROCEEDING SND_STATUS_1XX nist_snd_1xx,
     entry NIST_PROCEEDING SND_STATUS_2XX nist_snd_23456xx,
     entry NIST_PROCEEDING SND_STATUS_3456XX nist_snd_23456xx,
     entry NIST_PROCEEDING RCV_REQUEST nist_rcv_request,
     entry NIST_COMPLETED TIMEOUT_J osip_nist_timeout_j_event,
     entry NIST_COMPLETED RCV_REQUEST nist_rcv_request]"

lemma nist_transition_keys: "distinct (map transition_key nist_transition)"
  by (simp add: nist_transition_def)

lemma nist_load_fsm_rev: "nist_load_fsm = rev nist_transition"
  by (simp only: nist_load_fsm_def nist_transition_def foldl_ADD_ELEMENT append_Nil2)

end
