(* ===== verification/Osip_Execute.thy ===== *)
theory Osip_Execute
  imports Osip_Ist Osip_Nist
begin

text \<open>
  A transaction as a whole (libosip2: osip_transaction.c): creating one for a request, executing one
  event, matching a message to it, and emptying its queue.
\<close>

section \<open>Creating a transaction\<close>

text \<open>
  The second argument of the result is the static counter of transaction ids, which moves on even
  when the transaction is then given up.
\<close>

definition osip_transaction_init ::
    "timeval \<Rightarrow> osip_fsm_type \<Rightarrow> message option \<Rightarrow> int \<Rightarrow> (transaction option \<times> int) res" where
  "osip_transaction_init now ty request counter =
     (case request of None \<Rightarrow> Inr (None, counter) | Some m \<Rightarrow>
      (case msg_call_id m of None \<Rightarrow> Inr (None, counter) | Some cid \<Rightarrow>
       if call_id_number cid = None then Inr (None, counter)
       else bindR (add_int counter 1) (\<lambda>counter'.
         (case (osip_via_clone (osip_list_get (vias m) 0), osip_from_clone (msg_from m), osip_from_clone (msg_to m),
                osip_call_id_clone (msg_call_id m), osip_cseq_clone (msg_cseq m)) of
            (Some v, Some f, Some t, Some c, Some s) \<Rightarrow>
              let tr = \<lparr>transactionid = counter, transactionff = osip_fifo_init, topvia = Some v,
                        tr_from = Some f, tr_to = Some t, tr_callid = Some c, tr_cseq = Some s,
                        orig_request = None, last_response = None, tr_ack = None,
                        state = (case ty of ICT \<Rightarrow> ICT_PRE_CALLING | IST \<Rightarrow> IST_PRE_PROCEEDING
                                          | NICT \<Rightarrow> NICT_PRE_TRYING | NIST \<Rightarrow> NIST_PRE_TRYING),
                        out_socket = 0, ctx_type = ty, ict_context = None, ist_context = None,
                        nict_context = None, nist_context = None\<rparr>
              in (case ty of
                    ICT \<Rightarrow> bindR (osip_ict_init now m) (\<lambda>c. Inr (map_option (\<lambda>c. tr\<lparr>ict_context := Some c\<rparr>) c, counter'))
                  | IST \<Rightarrow> Inr (map_option (\<lambda>c. tr\<lparr>ist_context := Some c\<rparr>) (osip_ist_init m), counter')
                  | NICT \<Rightarrow> bindR (osip_nict_init now m) (\<lambda>c. Inr (map_option (\<lambda>c. tr\<lparr>nict_context := Some c\<rparr>) c, counter'))
                  | NIST \<Rightarrow> Inr (map_option (\<lambda>c. tr\<lparr>nist_context := Some c\<rparr>) (osip_nist_init m), counter'))
          | _ \<Rightarrow> Inr (None, counter')))))"

section \<open>Executing an event\<close>

definition fsm_of :: "osip_fsm_type \<Rightarrow> transition list" where
  "fsm_of ty = (case ty of ICT \<Rightarrow> ict_load_fsm | IST \<Rightarrow> ist_load_fsm | NICT \<Rightarrow> nict_load_fsm | NIST \<Rightarrow> nist_load_fsm)"

text \<open>The same in the small build.\<close>

definition small_fsm_of :: "osip_fsm_type \<Rightarrow> transition list" where
  "small_fsm_of ty = (case ty of ICT \<Rightarrow> ict_transition | IST \<Rightarrow> ist_transition | NICT \<Rightarrow> nict_transition | NIST \<Rightarrow> nist_transition)"

definition osip_transaction_execute :: handler where
  "osip_transaction_execute env evt tr =
     (if evt_type evt = KILL_TRANSACTION then Inr (tr, [])
      else case fsm_callmethod (evt_type evt) (state tr) (fsm_of (ctx_type tr)) env evt of
          None \<Rightarrow> if EVT_IS_MSG evt then osip_message_free (evt_sip evt) tr else Inr (tr, [])
        | Some f \<Rightarrow> f tr)"

definition osip_transaction_execute_return :: "osip_event \<Rightarrow> int" where
  "osip_transaction_execute_return evt = (if evt_type evt = KILL_TRANSACTION then 0 else 1)"

definition osip_transaction_add_event :: "osip_event \<Rightarrow> transaction \<Rightarrow> transaction" where
  "osip_transaction_add_event evt tr =
     tr\<lparr>transactionff := snd (osip_fifo_add (transactionff tr) (evt\<lparr>evt_transactionid := transactionid tr\<rparr>))\<rparr>"

section \<open>Matching\<close>

text \<open>The branch parameter of a Via.\<close>

definition via_branch :: "via \<Rightarrow> param option" where
  "via_branch v = osip_uri_param_get_byname (via_params v) ''branch''"

definition matching_response_17_1_3 :: "transaction \<Rightarrow> message \<Rightarrow> int res" where
  "matching_response_17_1_3 tr response =
     (if ict_context tr = None \<and> nict_context tr = None then Inr (- 1)
      else case (case msg_cseq response of None \<Rightarrow> None | Some s \<Rightarrow> cseq_method s) of None \<Rightarrow> Inr (- 1) | Some method \<Rightarrow>
      case osip_list_get (vias response) 0 of None \<Rightarrow> Inr (- 1) | Some topvia_response \<Rightarrow>
      bindR (deref (topvia tr)) (\<lambda>topvia_request.
      case via_branch topvia_request of None \<Rightarrow> Inr (- 1) | Some b_request \<Rightarrow>
      case via_branch topvia_response of None \<Rightarrow> Inr (- 1) | Some b_response \<Rightarrow>
      bindR (deref (gvalue b_request)) (\<lambda>v1. bindR (deref (gvalue b_response)) (\<lambda>v2.
      if v1 \<noteq> v2 then Inr (- 1)
      else bindR (deref (tr_cseq tr)) (\<lambda>s. bindR (deref (cseq_method s)) (\<lambda>m.
        Inr (if method = m then 0 else - 1)))))))"

definition sent_by_match :: "via \<Rightarrow> via \<Rightarrow> bool" where
  "sent_by_match orig request \<longleftrightarrow>
     via_host orig \<noteq> None \<and> via_host orig = via_host request \<and>
     (case (via_port orig, via_port request) of
        (None, Some p) \<Rightarrow> p = ''5060'' | (Some p, None) \<Rightarrow> p = ''5060'' | (p, q) \<Rightarrow> p = q)"

text \<open>The comparison of RFC 2543, for requests without the magic cookie.\<close>

definition matching_request_rfc2543 :: "transaction \<Rightarrow> message \<Rightarrow> via option \<Rightarrow> int res" where
  "matching_request_rfc2543 tr request topvia_request =
     (if osip_call_id_match (tr_callid tr) (msg_call_id request) \<noteq> 0 then Inr (- 1)
      else bindR (msg_is ''ACK'' request) (\<lambda>is_ack.
        bindR (deref (tr_to tr)) (\<lambda>to1. bindR (deref (msg_to request)) (\<lambda>to2.
        let tag1 = osip_uri_param_get_byname (gen_params to1) ''tag'';
            tag2 = osip_uri_param_get_byname (gen_params to2) ''tag''
        in if (if is_ack \<and> tag1 = None \<and> tag2 \<noteq> None then False
               else if is_ack \<and> tag1 \<noteq> None \<and> tag2 = None then True
               else osip_to_tag_match to1 to2 \<noteq> 0) then Inr (- 1)
        else bindR (deref (tr_from tr)) (\<lambda>from1. bindR (deref (msg_from request)) (\<lambda>from2.
          Inr (if osip_from_tag_match from1 from2 = 0 \<and> osip_cseq_match (tr_cseq tr) (msg_cseq request) = 0 \<and>
                  osip_via_match (topvia tr) topvia_request = 0 then 0 else - 1)))))))"

definition MAGIC :: string where "MAGIC = ''z9hG4bK''"

definition matching_request_17_2_3 :: "transaction \<Rightarrow> message \<Rightarrow> int res" where
  "matching_request_17_2_3 tr request =
     (if ist_context tr = None \<and> nist_context tr = None then Inr (- 1)
      else case (case msg_cseq request of None \<Rightarrow> None | Some s \<Rightarrow> cseq_method s) of None \<Rightarrow> Inr (- 1) | Some method \<Rightarrow>
      case osip_list_get (vias request) 0 of None \<Rightarrow> Inr (- 1) | Some topvia_request \<Rightarrow>
      bindR (deref (topvia tr)) (\<lambda>orig_via.
      case (via_branch orig_via, via_branch topvia_request) of
        (None, Some _) \<Rightarrow> Inr (- 1)
      | (Some _, None) \<Rightarrow> Inr (- 1)
      | (None, None) \<Rightarrow> matching_request_rfc2543 tr request (Some topvia_request)
      | (Some b1, Some b2) \<Rightarrow>
          (case (gvalue b1, gvalue b2) of
             (Some v1, Some v2) \<Rightarrow>
               if length v1 \<noteq> length v2 then Inr (- 1)
               else if strncmp0 7 v1 MAGIC \<and> strncmp0 7 v2 MAGIC then
                 if v1 \<noteq> v2 \<or> \<not> sent_by_match orig_via topvia_request then Inr (- 1)
                 else bindR (deref (tr_cseq tr)) (\<lambda>s. bindR (deref (cseq_method s)) (\<lambda>m.
                   Inr (if \<not> (m = ''INVITE'' \<and> method = ''ACK'') \<and> m \<noteq> method then - 1 else 0)))
               else matching_request_rfc2543 tr request (Some topvia_request)
           | _ \<Rightarrow> Inr (- 1))))"

end
