(* ===== verification/Osip_Spec.thy ===== *)
theory Osip_Spec
  imports Osip_Execute "HOL-Library.Multiset"
begin

text \<open>
  What the four transaction state machines promise of one event: a well-formed transaction does not
  fault and stays well-formed, its state follows RFC 3261, every message it is given is kept or freed
  exactly once, and its end is announced exactly when it ends.
\<close>

section \<open>The state machines of RFC 3261\<close>

text \<open>
  Figures 5 to 8 of the RFC. The flag says that the transaction had to be given up, because the
  transport failed or a failure could not be acknowledged.
\<close>

inductive rfc3261 :: "state_t \<Rightarrow> type_t \<Rightarrow> bool \<Rightarrow> state_t \<Rightarrow> bool" where
  ict_invite: "rfc3261 ICT_PRE_CALLING SND_REQINVITE False ICT_CALLING"
| ict_invite_failed: "rfc3261 ICT_PRE_CALLING SND_REQINVITE True ICT_TERMINATED"
| ict_timer_a: "rfc3261 ICT_CALLING TIMEOUT_A False ICT_CALLING"
| ict_timer_a_failed: "rfc3261 ICT_CALLING TIMEOUT_A True ICT_TERMINATED"
| ict_timer_b: "rfc3261 ICT_CALLING TIMEOUT_B False ICT_TERMINATED"
| ict_provisional: "st \<in> {ICT_CALLING, ICT_PROCEEDING} \<Longrightarrow> rfc3261 st RCV_STATUS_1XX False ICT_PROCEEDING"
| ict_success: "st \<in> {ICT_CALLING, ICT_PROCEEDING} \<Longrightarrow> rfc3261 st RCV_STATUS_2XX False ICT_TERMINATED"
| ict_failure: "st \<in> {ICT_CALLING, ICT_PROCEEDING, ICT_COMPLETED} \<Longrightarrow> rfc3261 st RCV_STATUS_3456XX False ICT_COMPLETED"
| ict_ack_failed: "st \<in> {ICT_CALLING, ICT_PROCEEDING, ICT_COMPLETED} \<Longrightarrow> rfc3261 st RCV_STATUS_3456XX True ICT_TERMINATED"
| ict_timer_d: "rfc3261 ICT_COMPLETED TIMEOUT_D False ICT_TERMINATED"
| ist_invite: "rfc3261 IST_PRE_PROCEEDING RCV_REQINVITE False IST_PROCEEDING"
| ist_invite_again: "st \<in> {IST_PROCEEDING, IST_COMPLETED} \<Longrightarrow> rfc3261 st RCV_REQINVITE False st"
| ist_invite_again_failed: "st \<in> {IST_PROCEEDING, IST_COMPLETED} \<Longrightarrow> rfc3261 st RCV_REQINVITE True IST_TERMINATED"
| ist_provisional: "rfc3261 IST_PROCEEDING SND_STATUS_1XX False IST_PROCEEDING"
| ist_success: "rfc3261 IST_PROCEEDING SND_STATUS_2XX False IST_TERMINATED"
| ist_failure: "rfc3261 IST_PROCEEDING SND_STATUS_3456XX False IST_COMPLETED"
| ist_response_failed: "ty \<in> {SND_STATUS_1XX, SND_STATUS_2XX, SND_STATUS_3456XX} \<Longrightarrow> rfc3261 IST_PROCEEDING ty True IST_TERMINATED"
| ist_timer_g: "rfc3261 IST_COMPLETED TIMEOUT_G False IST_COMPLETED"
| ist_timer_g_failed: "rfc3261 IST_COMPLETED TIMEOUT_G True IST_TERMINATED"
| ist_timer_h: "rfc3261 IST_COMPLETED TIMEOUT_H False IST_TERMINATED"
| ist_ack: "st \<in> {IST_COMPLETED, IST_CONFIRMED} \<Longrightarrow> rfc3261 st RCV_REQACK False IST_CONFIRMED"
| ist_timer_i: "rfc3261 IST_CONFIRMED TIMEOUT_I False IST_TERMINATED"
| nict_request: "rfc3261 NICT_PRE_TRYING SND_REQUEST False NICT_TRYING"
| nict_request_failed: "rfc3261 NICT_PRE_TRYING SND_REQUEST True NICT_TERMINATED"
| nict_timer_e: "st \<in> {NICT_TRYING, NICT_PROCEEDING} \<Longrightarrow> rfc3261 st TIMEOUT_E False st"
| nict_timer_e_failed: "st \<in> {NICT_TRYING, NICT_PROCEEDING} \<Longrightarrow> rfc3261 st TIMEOUT_E True NICT_TERMINATED"
| nict_timer_f: "st \<in> {NICT_TRYING, NICT_PROCEEDING} \<Longrightarrow> rfc3261 st TIMEOUT_F False NICT_TERMINATED"
| nict_provisional: "st \<in> {NICT_TRYING, NICT_PROCEEDING} \<Longrightarrow> rfc3261 st RCV_STATUS_1XX False NICT_PROCEEDING"
| nict_final: "st \<in> {NICT_TRYING, NICT_PROCEEDING} \<Longrightarrow> ty \<in> {RCV_STATUS_2XX, RCV_STATUS_3456XX} \<Longrightarrow> rfc3261 st ty False NICT_COMPLETED"
| nict_timer_k: "rfc3261 NICT_COMPLETED TIMEOUT_K False NICT_TERMINATED"
| nist_request: "rfc3261 NIST_PRE_TRYING RCV_REQUEST False NIST_TRYING"
| nist_request_again: "st \<in> {NIST_PROCEEDING, NIST_COMPLETED} \<Longrightarrow> rfc3261 st RCV_REQUEST False st"
| nist_request_again_failed: "st \<in> {NIST_PROCEEDING, NIST_COMPLETED} \<Longrightarrow> rfc3261 st RCV_REQUEST True NIST_TERMINATED"
| nist_provisional: "st \<in> {NIST_TRYING, NIST_PROCEEDING} \<Longrightarrow> rfc3261 st SND_STATUS_1XX False NIST_PROCEEDING"
| nist_final: "st \<in> {NIST_TRYING, NIST_PROCEEDING} \<Longrightarrow> ty \<in> {SND_STATUS_2XX, SND_STATUS_3456XX} \<Longrightarrow> rfc3261 st ty False NIST_COMPLETED"
| nist_response_failed: "st \<in> {NIST_TRYING, NIST_PROCEEDING} \<Longrightarrow> ty \<in> {SND_STATUS_1XX, SND_STATUS_2XX, SND_STATUS_3456XX} \<Longrightarrow> rfc3261 st ty True NIST_TERMINATED"
| nist_timer_j: "rfc3261 NIST_COMPLETED TIMEOUT_J False NIST_TERMINATED"

code_pred rfc3261 .

definition expected :: "state_t \<Rightarrow> type_t \<Rightarrow> bool" where
  "expected st ty \<longleftrightarrow> (\<exists>failed st'. rfc3261 st ty failed st')"

section \<open>What a step is accounted for\<close>

fun terminated :: "osip_fsm_type \<Rightarrow> state_t" where
  "terminated ICT = ICT_TERMINATED" | "terminated IST = IST_TERMINATED"
| "terminated NICT = NICT_TERMINATED" | "terminated NIST = NIST_TERMINATED"

fun states :: "osip_fsm_type \<Rightarrow> state_t set" where
  "states ICT = {ICT_PRE_CALLING, ICT_CALLING, ICT_PROCEEDING, ICT_COMPLETED, ICT_TERMINATED}"
| "states IST = {IST_PRE_PROCEEDING, IST_PROCEEDING, IST_COMPLETED, IST_CONFIRMED, IST_TERMINATED}"
| "states NICT = {NICT_PRE_TRYING, NICT_TRYING, NICT_PROCEEDING, NICT_COMPLETED, NICT_TERMINATED}"
| "states NIST = {NIST_PRE_TRYING, NIST_TRYING, NIST_PROCEEDING, NIST_COMPLETED, NIST_TERMINATED}"

text \<open>The messages a trace frees, and the ends and transport errors it announces.\<close>

fun freed :: "tr_action list \<Rightarrow> message multiset" where
  "freed [] = {#}"
| "freed (Free m # as) = add_mset m (freed as)"
| "freed (_ # as) = freed as"

fun kills :: "tr_action list \<Rightarrow> nat" where
  "kills [] = 0"
| "kills (Kill_transaction ty # as) = Suc (kills as)"
| "kills (_ # as) = kills as"

fun transport_failed :: "tr_action list \<Rightarrow> bool" where
  "transport_failed [] = False"
| "transport_failed (Transport_error ty e # as) = True"
| "transport_failed (_ # as) = transport_failed as"

lemma freed_append [simp]: "freed (as @ bs) = freed as + freed bs"
  by (induction as rule: freed.induct) simp_all

lemma kills_append [simp]: "kills (as @ bs) = kills as + kills bs"
  by (induction as rule: kills.induct) simp_all

lemma transport_failed_append [simp]: "transport_failed (as @ bs) = (transport_failed as \<or> transport_failed bs)"
  by (induction as rule: transport_failed.induct) simp_all

definition opt_mset :: "'a option \<Rightarrow> 'a multiset" where
  "opt_mset p = (case p of None \<Rightarrow> {#} | Some x \<Rightarrow> {#x#})"

lemma opt_mset_simps [simp]: "opt_mset None = {#}" "opt_mset (Some x) = {#x#}"
  by (simp_all add: opt_mset_def)

text \<open>
  The messages a transaction has been given and holds. The ACK of a client transaction is its own.
\<close>

definition owned :: "transaction \<Rightarrow> message multiset" where
  "owned tr = opt_mset (orig_request tr) + opt_mset (last_response tr) +
     (if ctx_type tr = IST then opt_mset (tr_ack tr) else {#})"

section \<open>Well-formed transactions and events\<close>

text \<open>A request the client transactions are started with: its URI can be copied.\<close>

definition request_ok :: "message option \<Rightarrow> bool" where
  "request_ok p \<longleftrightarrow> (case p of None \<Rightarrow> False | Some m \<Rightarrow> osip_uri_clone (req_uri m) \<noteq> None)"

text \<open>The timer of a repeated message: it runs only over an unreliable transport, for 4 s at most.\<close>

definition timer_ok :: "int \<Rightarrow> timeval \<Rightarrow> bool" where
  "timer_ok n start \<longleftrightarrow> - 1 \<le> n \<and> n \<le> 4000 \<and> (tv_sec start \<noteq> - 1 \<longrightarrow> 0 \<le> n)"

definition transaction_ok :: "transaction \<Rightarrow> bool" where
  "transaction_ok tr \<longleftrightarrow> state tr \<in> states (ctx_type tr) \<and>
     (case ctx_type tr of
        ICT \<Rightarrow> ict_context tr \<noteq> None \<and>
          (if state tr = ICT_PRE_CALLING then orig_request tr = None else request_ok (orig_request tr))
      | IST \<Rightarrow> (case ist_context tr of None \<Rightarrow> False | Some c \<Rightarrow> timer_ok (timer_g_length c) (timer_g_start c)) \<and>
          (state tr = IST_PRE_PROCEEDING \<longrightarrow> orig_request tr = None) \<and>
          (state tr = IST_COMPLETED \<longrightarrow> last_response tr \<noteq> None)
      | NICT \<Rightarrow> (case nict_context tr of None \<Rightarrow> False | Some c \<Rightarrow> timer_ok (timer_e_length c) (timer_e_start c)) \<and>
          (state tr = NICT_PRE_TRYING \<longrightarrow> orig_request tr = None)
      | NIST \<Rightarrow> nist_context tr \<noteq> None \<and>
          (state tr = NIST_PRE_TRYING \<longrightarrow> orig_request tr = None))"

text \<open>
  An event carries a message exactly when it is about one, of the kind its type says; a timer that
  runs out has a length, and timer A has not been doubled beyond an \<open>int\<close>.
\<close>

definition event_ok :: "osip_event \<Rightarrow> transaction \<Rightarrow> bool" where
  "event_ok evt tr \<longleftrightarrow>
     (case evt_sip evt of
        None \<Rightarrow> \<not> EVT_IS_MSG evt
      | Some m \<Rightarrow> (EVT_IS_INCOMINGMSG evt \<and> evt_set_type_incoming_sipmessage m = Inr (evt_type evt)) \<or>
                  (EVT_IS_OUTGOINGMSG evt \<and> evt_set_type_outgoing_sipmessage m = Inr (evt_type evt))) \<and>
     (evt_type evt = SND_REQINVITE \<longrightarrow> request_ok (evt_sip evt)) \<and>
     (evt_type evt = TIMEOUT_A \<longrightarrow> (case ict_context tr of None \<Rightarrow> True | Some c \<Rightarrow> \<bar>timer_a_length c\<bar> < 2 ^ 30)) \<and>
     (evt_type evt = TIMEOUT_G \<longrightarrow> (case ist_context tr of None \<Rightarrow> True | Some c \<Rightarrow> 0 \<le> timer_g_length c)) \<and>
     (evt_type evt = TIMEOUT_E \<longrightarrow> (case nict_context tr of None \<Rightarrow> True | Some c \<Rightarrow> 0 \<le> timer_e_length c))"

text \<open>What identifies a transaction never changes.\<close>

definition same_identity :: "transaction \<Rightarrow> transaction \<Rightarrow> bool" where
  "same_identity tr tr' \<longleftrightarrow>
     transactionid tr' = transactionid tr \<and> transactionff tr' = transactionff tr \<and> topvia tr' = topvia tr \<and>
     tr_from tr' = tr_from tr \<and> tr_to tr' = tr_to tr \<and> tr_callid tr' = tr_callid tr \<and>
     tr_cseq tr' = tr_cseq tr \<and> ctx_type tr' = ctx_type tr"

text \<open>A failure the client cannot acknowledge.\<close>

definition unacknowledgeable :: "osip_event \<Rightarrow> transaction \<Rightarrow> bool" where
  "unacknowledgeable evt tr \<longleftrightarrow> evt_type evt = RCV_STATUS_3456XX \<and> state tr \<in> {ICT_CALLING, ICT_PROCEEDING} \<and>
     (\<forall>m. evt_sip evt = Some m \<longrightarrow> ict_create_ack tr m = Inr None)"

definition step_ok :: "osip_event \<Rightarrow> transaction \<Rightarrow> transaction \<Rightarrow> tr_action list \<Rightarrow> bool" where
  "step_ok evt tr tr' as \<longleftrightarrow>
     same_identity tr tr' \<and> transaction_ok tr' \<and>
     rfc3261 (state tr) (evt_type evt) (transport_failed as \<or> unacknowledgeable evt tr) (state tr') \<and>
     owned tr' + freed as = owned tr + opt_mset (evt_sip evt) \<and>
     kills as = (if state tr' = terminated (ctx_type tr) then 1 else 0)"

definition handles :: "handler \<Rightarrow> state_t \<Rightarrow> type_t \<Rightarrow> bool" where
  "handles h st ty \<longleftrightarrow> (\<forall>env evt tr. state tr = st \<longrightarrow> evt_type evt = ty \<longrightarrow> transaction_ok tr \<longrightarrow> event_ok evt tr \<longrightarrow>
     (\<exists>tr' as. h env evt tr = Inr (tr', as) \<and> step_ok evt tr tr' as))"

lemma handlesI:
  assumes "\<And>env evt tr. state tr = st \<Longrightarrow> evt_type evt = ty \<Longrightarrow> transaction_ok tr \<Longrightarrow> event_ok evt tr \<Longrightarrow>
     \<exists>tr' as. h env evt tr = Inr (tr', as) \<and> step_ok evt tr tr' as"
  shows "handles h st ty"
  using assms unfolding handles_def by blast

lemma doubled_Inr: "\<bar>n\<bar> < 2 ^ 30 \<Longrightarrow> doubled n = Inr (n + n)"
  by (auto simp: doubled_def add_int_def)

text \<open>The state tells the kind of a well-formed transaction.\<close>

lemma ctx_of_state:
  assumes "transaction_ok tr"
  shows "state tr \<in> states ty \<Longrightarrow> ctx_type tr = ty"
  using assms by (cases ty; cases "ctx_type tr") (auto simp: transaction_ok_def)

lemma event_message:
  assumes "event_ok evt tr"
  shows "EVT_IS_MSG evt \<Longrightarrow> \<exists>m. evt_sip evt = Some m" "\<not> EVT_IS_MSG evt \<Longrightarrow> evt_sip evt = None"
  using assms by (auto simp: event_ok_def EVT_IS_MSG_def split: option.splits)

lemmas evt_classes = EVT_IS_MSG_def EVT_IS_INCOMINGMSG_def EVT_IS_OUTGOINGMSG_def EVT_IS_INCOMINGREQ_def
  EVT_IS_INCOMINGRESP_def EVT_IS_OUTGOINGREQ_def

lemmas step_simps = step_ok_def same_identity_def owned_def transaction_ok_def unacknowledgeable_def

end
