(* ===== verification/Osip_Ict_Correct.thy ===== *)
theory Osip_Ict_Correct
  imports Osip_Spec
begin

text \<open>The handlers of the INVITE client transaction keep the promises of a step.\<close>

lemma ict_ok:
  assumes "transaction_ok tr" "state tr \<in> states ICT"
  obtains c where "ctx_type tr = ICT" "ict_context tr = Some c"
    "if state tr = ICT_PRE_CALLING then orig_request tr = None else request_ok (orig_request tr)"
  using assms ctx_of_state [OF assms] by (auto simp: transaction_ok_def)

lemma ict_started:
  assumes "transaction_ok tr" "state tr \<in> {ICT_CALLING, ICT_PROCEEDING, ICT_COMPLETED}"
  obtains c where "ctx_type tr = ICT" "ict_context tr = Some c" "request_ok (orig_request tr)"
proof -
  have "state tr \<in> states ICT" "state tr \<noteq> ICT_PRE_CALLING" using assms(2) by auto
  then show thesis by (metis ict_ok [OF assms(1)] that)
qed

lemmas ict_handlers = ict_snd_invite_def osip_ict_timeout_a_event_def osip_ict_timeout_b_event_def ict_rcv_1xx_def
  ict_rcv_2xx_def osip_ict_timeout_d_event_def ict_retransmit_ack_def ict_send_def ict_handle_transport_error_def

lemma handles_ict_snd_invite: "handles ict_snd_invite ICT_PRE_CALLING SND_REQINVITE"
proof (rule handlesI)
  fix env evt tr
  assume st: "state tr = ICT_PRE_CALLING" and ty: "evt_type evt = SND_REQINVITE" and ok: "transaction_ok tr" "event_ok evt tr"
  obtain c where c: "ctx_type tr = ICT" "ict_context tr = Some c" "orig_request tr = None"
    using ict_ok [OF ok(1)] st by auto
  obtain m where m: "evt_sip evt = Some m" using event_message(1) [OF ok(2)] ty by (auto simp: evt_classes)
  have r: "request_ok (Some m)" using ok(2) ty m by (auto simp: event_ok_def)
  show "\<exists>tr' as. ict_snd_invite env evt tr = Inr (tr', as) \<and> step_ok evt tr tr' as"
    using st ty c m r
    by (cases "send_result env = 0") (simp_all add: ict_handlers handler_defs step_simps rfc3261.intros)
qed

lemma handles_ict_timeout_a: "handles osip_ict_timeout_a_event ICT_CALLING TIMEOUT_A"
proof (rule handlesI)
  fix env evt tr
  assume st: "state tr = ICT_CALLING" and ty: "evt_type evt = TIMEOUT_A" and ok: "transaction_ok tr" "event_ok evt tr"
  obtain c where c: "ctx_type tr = ICT" "ict_context tr = Some c" "request_ok (orig_request tr)"
    by (rule ict_started [OF ok(1)]) (use st in simp_all)
  have m: "evt_sip evt = None" using event_message(2) [OF ok(2)] ty by (auto simp: evt_classes)
  have "\<bar>timer_a_length c\<bar> < 2 ^ 30" using ok(2) ty c(2) by (simp add: event_ok_def)
  from doubled_Inr [OF this] show "\<exists>tr' as. osip_ict_timeout_a_event env evt tr = Inr (tr', as) \<and> step_ok evt tr tr' as"
    using st ty c m
    by (cases "send_result env = 0") (simp_all add: ict_handlers handler_defs step_simps rfc3261.intros)
qed

lemma handles_ict_timeout_b: "handles osip_ict_timeout_b_event ICT_CALLING TIMEOUT_B"
proof (rule handlesI)
  fix env evt tr
  assume st: "state tr = ICT_CALLING" and ty: "evt_type evt = TIMEOUT_B" and ok: "transaction_ok tr" "event_ok evt tr"
  obtain c where c: "ctx_type tr = ICT" "ict_context tr = Some c" "request_ok (orig_request tr)"
    by (rule ict_started [OF ok(1)]) (use st in simp_all)
  have m: "evt_sip evt = None" using event_message(2) [OF ok(2)] ty by (auto simp: evt_classes)
  show "\<exists>tr' as. osip_ict_timeout_b_event env evt tr = Inr (tr', as) \<and> step_ok evt tr tr' as"
    using st ty c m by (simp add: ict_handlers handler_defs step_simps rfc3261.intros)
qed

lemma handles_ict_timeout_d: "handles osip_ict_timeout_d_event ICT_COMPLETED TIMEOUT_D"
proof (rule handlesI)
  fix env evt tr
  assume st: "state tr = ICT_COMPLETED" and ty: "evt_type evt = TIMEOUT_D" and ok: "transaction_ok tr" "event_ok evt tr"
  obtain c where c: "ctx_type tr = ICT" "ict_context tr = Some c" "request_ok (orig_request tr)"
    by (rule ict_started [OF ok(1)]) (use st in simp_all)
  have m: "evt_sip evt = None" using event_message(2) [OF ok(2)] ty by (auto simp: evt_classes)
  show "\<exists>tr' as. osip_ict_timeout_d_event env evt tr = Inr (tr', as) \<and> step_ok evt tr tr' as"
    using st ty c m by (simp add: ict_handlers handler_defs step_simps rfc3261.intros)
qed

lemma handles_ict_rcv_1xx:
  assumes "st \<in> {ICT_CALLING, ICT_PROCEEDING}"
  shows "handles ict_rcv_1xx st RCV_STATUS_1XX"
proof (rule handlesI)
  fix env evt tr
  assume st: "state tr = st" and ty: "evt_type evt = RCV_STATUS_1XX" and ok: "transaction_ok tr" "event_ok evt tr"
  obtain c where c: "ctx_type tr = ICT" "ict_context tr = Some c" "request_ok (orig_request tr)"
    by (rule ict_started [OF ok(1)]) (use st assms in auto)
  obtain m where m: "evt_sip evt = Some m" using event_message(1) [OF ok(2)] ty by (auto simp: evt_classes)
  have "state tr = ICT_CALLING \<or> state tr = ICT_PROCEEDING" using st assms by simp
  then show "\<exists>tr' as. ict_rcv_1xx env evt tr = Inr (tr', as) \<and> step_ok evt tr tr' as"
    using ty c m
    by (elim disjE; cases "last_response tr") (simp_all add: ict_handlers handler_defs step_simps rfc3261.intros)
qed

lemma handles_ict_rcv_2xx:
  assumes "st \<in> {ICT_CALLING, ICT_PROCEEDING}"
  shows "handles ict_rcv_2xx st RCV_STATUS_2XX"
proof (rule handlesI)
  fix env evt tr
  assume st: "state tr = st" and ty: "evt_type evt = RCV_STATUS_2XX" and ok: "transaction_ok tr" "event_ok evt tr"
  obtain c where c: "ctx_type tr = ICT" "ict_context tr = Some c" "request_ok (orig_request tr)"
    by (rule ict_started [OF ok(1)]) (use st assms in auto)
  obtain m where m: "evt_sip evt = Some m" using event_message(1) [OF ok(2)] ty by (auto simp: evt_classes)
  have "state tr = ICT_CALLING \<or> state tr = ICT_PROCEEDING" using st assms by simp
  then show "\<exists>tr' as. ict_rcv_2xx env evt tr = Inr (tr', as) \<and> step_ok evt tr tr' as"
    using ty c m
    by (elim disjE; cases "last_response tr") (simp_all add: ict_handlers handler_defs step_simps rfc3261.intros)
qed

lemma handles_ict_retransmit_ack: "handles ict_retransmit_ack ICT_COMPLETED RCV_STATUS_3456XX"
proof (rule handlesI)
  fix env evt tr
  assume st: "state tr = ICT_COMPLETED" and ty: "evt_type evt = RCV_STATUS_3456XX" and ok: "transaction_ok tr" "event_ok evt tr"
  obtain c where c: "ctx_type tr = ICT" "ict_context tr = Some c" "request_ok (orig_request tr)"
    by (rule ict_started [OF ok(1)]) (use st in simp_all)
  obtain m where m: "evt_sip evt = Some m" using event_message(1) [OF ok(2)] ty by (auto simp: evt_classes)
  show "\<exists>tr' as. ict_retransmit_ack env evt tr = Inr (tr', as) \<and> step_ok evt tr tr' as"
    using st ty c m
    by (cases "send_result env = 0") (simp_all add: ict_handlers handler_defs step_simps rfc3261.intros)
qed

text \<open>The ACK can be built or not; when it can, its destination is defined.\<close>

lemma create_ack_orig:
  assumes "orig_request tr = Some o'"
  obtains (no_ack) "ict_create_ack tr m = Inr None"
  | (ack) a where "ict_create_ack tr m = Inr (Some a)" "req_uri a = osip_uri_clone (req_uri o')"
proof (cases "\<exists>a. ict_create_ack tr m = Inr (Some a) \<and> req_uri a = osip_uri_clone (req_uri o')")
  case True
  then show thesis using ack by blast
next
  case False
  then have "ict_create_ack tr m = Inr None"
    using assms by (simp add: ict_create_ack_def split: option.splits prod.splits)
  then show thesis by (rule no_ack)
qed

lemma ack_destination_defined:
  assumes "req_uri a \<noteq> None"
  shows "\<exists>c'. ict_ack_destination a c = Inr c'"
  using assms by (auto simp: ict_ack_destination_def Let_def split: option.split prod.split)

lemma create_ack_cong: "orig_request tr' = orig_request tr \<Longrightarrow> ict_create_ack tr' m = ict_create_ack tr m"
  by (simp only: ict_create_ack_def)

lemma replace_response_step:
  "evt_sip evt = Some m \<Longrightarrow> replace_response evt tr =
     Inr (tr\<lparr>last_response := Some m\<rparr>, case last_response tr of None \<Rightarrow> [] | Some x \<Rightarrow> [Free x])"
  by (simp add: handler_defs)

lemma freed_old_response [simp]:
  "freed (case p of None \<Rightarrow> [] | Some x \<Rightarrow> [Free x]) = opt_mset p"
  "kills (case p of None \<Rightarrow> [] | Some x \<Rightarrow> [Free x]) = 0"
  "transport_failed (case p of None \<Rightarrow> [] | Some x \<Rightarrow> [Free x]) = False"
  by (cases p; simp)+

lemma handles_ict_rcv_3456xx:
  assumes "st \<in> {ICT_CALLING, ICT_PROCEEDING}"
  shows "handles ict_rcv_3456xx st RCV_STATUS_3456XX"
proof (rule handlesI)
  fix env evt tr
  assume st: "state tr = st" and ty: "evt_type evt = RCV_STATUS_3456XX" and ok: "transaction_ok tr" "event_ok evt tr"
  obtain c where c: "ctx_type tr = ICT" "ict_context tr = Some c" "request_ok (orig_request tr)"
    by (rule ict_started [OF ok(1)]) (use st assms in auto)
  obtain m where m: "evt_sip evt = Some m" using event_message(1) [OF ok(2)] ty by (auto simp: evt_classes)
  obtain o' where o': "orig_request tr = Some o'" "osip_uri_clone (req_uri o') \<noteq> None"
    using c(3) by (auto simp: request_ok_def split: option.splits)
  have s: "state tr = ICT_CALLING \<or> state tr = ICT_PROCEEDING" using st assms by simp
  have ack_tr: "ict_create_ack (tr\<lparr>last_response := Some m\<rparr>) m = ict_create_ack tr m" by (rule create_ack_cong) simp
  note defs = ict_rcv_3456xx_def replace_response_step [OF m] ack_tr ict_completed_def ict_send_def
    ict_handle_transport_error_def osip_message_callback_def osip_kill_transaction_callback_def
    osip_transport_error_callback_def osip_transaction_set_state_def with_tr_def if_tr_def on_ict_def on_ictR_def
    cb_send_message_def emit_def modify_def using_res_def step_simps
  from o'(1) show "\<exists>tr' as. ict_rcv_3456xx env evt tr = Inr (tr', as) \<and> step_ok evt tr tr' as"
  proof (cases rule: create_ack_orig [where m = m])
    case no_ack
    with s ty c m show ?thesis by (elim disjE) (simp_all add: defs rfc3261.intros)
  next
    case (ack a)
    obtain c' where c': "ict_ack_destination a c = Inr c'"
      using ack_destination_defined [of a c] ack(2) o'(2) by metis
    from s ty c m ack(1) c' show ?thesis
      by (elim disjE; cases "send_result env = 0") (simp_all add: defs rfc3261.intros)
  qed
qed

end
