(* ===== verification/Osip_Ist_Correct.thy ===== *)
theory Osip_Ist_Correct
  imports Osip_Ict_Correct
begin

text \<open>The handlers of the INVITE server transaction keep the promises of a step.\<close>

lemma ist_ok:
  assumes "transaction_ok tr" "state tr \<in> states IST"
  obtains c where "ctx_type tr = IST" "ist_context tr = Some c" "timer_ok (timer_g_length c) (timer_g_start c)"
    "state tr = IST_PRE_PROCEEDING \<Longrightarrow> orig_request tr = None" "state tr = IST_COMPLETED \<Longrightarrow> last_response tr \<noteq> None"
proof -
  have "ctx_type tr = IST" by (rule ctx_of_state [OF assms])
  with assms(1) that show thesis by (auto simp: transaction_ok_def split: option.splits)
qed

text \<open>Sending a response: it can fail before the transport is asked, and then the caller's error number is -1.\<close>

lemma snd_xxx_cases:
  obtains (failed) "\<And>k tr. osip_transaction_snd_xxx env (Some m) k tr = runs (k (- 1)) tr"
  | (sent) host port where "\<And>k tr. osip_transaction_snd_xxx env (Some m) k tr =
      runs (emit [Send (Some m) host port (out_socket tr)] # k (send_result env)) tr"
proof (cases "osip_list_get (vias m) 0")
  case None
  show thesis by (rule failed) (simp add: osip_transaction_snd_xxx_def using_res_def None)
next
  case (Some via)
  obtain host port where "response_destination via = (host, port)" by force
  then show thesis
    by (intro sent [of host port])
      (simp add: osip_transaction_snd_xxx_def using_res_def Some cb_send_message_def with_tr_def)
qed

text \<open>
  What the sending does: with some error number it goes on to the continuation, after a trace that
  neither frees a message nor announces an end.
\<close>

definition sends :: "tr_env \<Rightarrow> message \<Rightarrow> int \<Rightarrow> (int \<Rightarrow> tr_action list) \<Rightarrow> bool" where
  "sends env m i pre \<longleftrightarrow>
     (\<forall>k tr. osip_transaction_snd_xxx env (Some m) k tr =
        bindR (runs (k i) tr) (\<lambda>(tr', as). Inr (tr', pre (out_socket tr) @ as))) \<and>
     (\<forall>s. freed (pre s) = {#} \<and> kills (pre s) = 0 \<and> \<not> transport_failed (pre s))"

lemma sendsD:
  assumes "sends env m i pre"
  shows "osip_transaction_snd_xxx env (Some m) k tr =
      bindR (runs (k i) tr) (\<lambda>(tr', as). Inr (tr', pre (out_socket tr) @ as))"
    "freed (pre s) = {#}" "kills (pre s) = 0" "transport_failed (pre s) = False"
  using assms unfolding sends_def by blast+

lemma bindR_unit [simp]: "bindR r Inr = r"
  by (cases r) auto

lemma snd_xxx_result:
  obtains i pre where "sends env m i pre"
proof (cases rule: snd_xxx_cases [of env m])
  case failed
  show thesis
    by (rule that [of "- 1" "\<lambda>_. []"]) (simp add: sends_def failed)
next
  case (sent host port)
  show thesis
    by (rule that [of "send_result env" "\<lambda>s. [Send (Some m) host port s]"])
      (simp add: sends_def sent emit_def)
qed

lemmas ist_handlers = ist_rcv_invite_def osip_ist_timeout_g_event_def osip_ist_timeout_h_event_def
  osip_ist_timeout_i_event_def ist_snd_1xx_def ist_snd_2xx_def ist_snd_3456xx_def ist_rcv_ack_def
  ist_handle_transport_error_def

lemma handles_ist_rcv_invite: "handles ist_rcv_invite IST_PRE_PROCEEDING RCV_REQINVITE"
proof (rule handlesI)
  fix env evt tr
  assume st: "state tr = IST_PRE_PROCEEDING" and ty: "evt_type evt = RCV_REQINVITE" and ok: "transaction_ok tr" "event_ok evt tr"
  obtain c where c: "ctx_type tr = IST" "ist_context tr = Some c" "timer_ok (timer_g_length c) (timer_g_start c)" "orig_request tr = None"
    by (rule ist_ok [OF ok(1)]) (use st in simp_all)
  obtain m where m: "evt_sip evt = Some m" using event_message(1) [OF ok(2)] ty by (auto simp: evt_classes)
  show "\<exists>tr' as. ist_rcv_invite env evt tr = Inr (tr', as) \<and> step_ok evt tr tr' as"
    using st ty c m by (simp add: ist_handlers handler_defs step_simps rfc3261.intros)
qed

lemma handles_ist_rcv_invite_again:
  assumes "st \<in> {IST_PROCEEDING, IST_COMPLETED}"
  shows "handles ist_rcv_invite st RCV_REQINVITE"
proof (rule handlesI)
  fix env evt tr
  assume st: "state tr = st" and ty: "evt_type evt = RCV_REQINVITE" and ok: "transaction_ok tr" "event_ok evt tr"
  obtain c where c: "ctx_type tr = IST" "ist_context tr = Some c" "timer_ok (timer_g_length c) (timer_g_start c)"
      "state tr = IST_COMPLETED \<Longrightarrow> last_response tr \<noteq> None"
    by (rule ist_ok [OF ok(1)]) (use st assms in auto)
  obtain m where m: "evt_sip evt = Some m" using event_message(1) [OF ok(2)] ty by (auto simp: evt_classes)
  have s: "state tr = IST_PROCEEDING \<or> state tr = IST_COMPLETED" using st assms by simp
  show "\<exists>tr' as. ist_rcv_invite env evt tr = Inr (tr', as) \<and> step_ok evt tr tr' as"
  proof (cases "last_response tr")
    case None
    then have "state tr = IST_PROCEEDING" using s c(4) by auto
    then show ?thesis using None ty c(1-3) m by (simp add: ist_handlers handler_defs step_simps rfc3261.intros)
  next
    case (Some r)
    obtain i pre where "sends env r i pre" by (rule snd_xxx_result)
    note snd = sendsD [OF this]
    from s Some ty c(1-3) m show ?thesis
      by (elim disjE; cases "i = 0") (simp_all add: ist_handlers handler_defs snd step_simps rfc3261.intros)
  qed
qed

lemma handles_ist_timeout_h: "handles osip_ist_timeout_h_event IST_COMPLETED TIMEOUT_H"
proof (rule handlesI)
  fix env evt tr
  assume st: "state tr = IST_COMPLETED" and ty: "evt_type evt = TIMEOUT_H" and ok: "transaction_ok tr" "event_ok evt tr"
  obtain c where c: "ctx_type tr = IST" "ist_context tr = Some c" "timer_ok (timer_g_length c) (timer_g_start c)"
    by (rule ist_ok [OF ok(1)]) (use st in simp_all)
  have m: "evt_sip evt = None" using event_message(2) [OF ok(2)] ty by (auto simp: evt_classes)
  show "\<exists>tr' as. osip_ist_timeout_h_event env evt tr = Inr (tr', as) \<and> step_ok evt tr tr' as"
    using st ty c m by (simp add: ist_handlers handler_defs step_simps rfc3261.intros)
qed

lemma handles_ist_timeout_i: "handles osip_ist_timeout_i_event IST_CONFIRMED TIMEOUT_I"
proof (rule handlesI)
  fix env evt tr
  assume st: "state tr = IST_CONFIRMED" and ty: "evt_type evt = TIMEOUT_I" and ok: "transaction_ok tr" "event_ok evt tr"
  obtain c where c: "ctx_type tr = IST" "ist_context tr = Some c" "timer_ok (timer_g_length c) (timer_g_start c)"
    by (rule ist_ok [OF ok(1)]) (use st in simp_all)
  have m: "evt_sip evt = None" using event_message(2) [OF ok(2)] ty by (auto simp: evt_classes)
  show "\<exists>tr' as. osip_ist_timeout_i_event env evt tr = Inr (tr', as) \<and> step_ok evt tr tr' as"
    using st ty c m by (simp add: ist_handlers handler_defs step_simps rfc3261.intros)
qed

lemma handles_ist_rcv_ack:
  assumes "st \<in> {IST_COMPLETED, IST_CONFIRMED}"
  shows "handles ist_rcv_ack st RCV_REQACK"
proof (rule handlesI)
  fix env evt tr
  assume st: "state tr = st" and ty: "evt_type evt = RCV_REQACK" and ok: "transaction_ok tr" "event_ok evt tr"
  obtain c where c: "ctx_type tr = IST" "ist_context tr = Some c" "timer_ok (timer_g_length c) (timer_g_start c)"
    by (rule ist_ok [OF ok(1)]) (use st assms in auto)
  obtain m where m: "evt_sip evt = Some m" using event_message(1) [OF ok(2)] ty by (auto simp: evt_classes)
  have "state tr = IST_COMPLETED \<or> state tr = IST_CONFIRMED" using st assms by simp
  then show "\<exists>tr' as. ist_rcv_ack env evt tr = Inr (tr', as) \<and> step_ok evt tr tr' as"
    using ty c m
    by (elim disjE; cases "tr_ack tr") (simp_all add: ist_handlers handler_defs step_simps rfc3261.intros)
qed

text \<open>Doubling the length of a timer that runs, and cutting it at 4 s.\<close>

lemma timer_ok_doubled:
  assumes "timer_ok n start" "0 \<le> n"
  shows "doubled n = Inr (n + n)"
    "4000 < n + n \<Longrightarrow> timer_ok 4000 start'" "\<not> 4000 < n + n \<Longrightarrow> timer_ok (n + n) start'"
proof -
  show "doubled n = Inr (n + n)" using assms by (intro doubled_Inr) (auto simp: timer_ok_def)
qed (use assms in \<open>auto simp: timer_ok_def\<close>)

lemma handles_ist_timeout_g: "handles osip_ist_timeout_g_event IST_COMPLETED TIMEOUT_G"
proof (rule handlesI)
  fix env evt tr
  assume st: "state tr = IST_COMPLETED" and ty: "evt_type evt = TIMEOUT_G" and ok: "transaction_ok tr" "event_ok evt tr"
  obtain c where c: "ctx_type tr = IST" "ist_context tr = Some c" and t: "timer_ok (timer_g_length c) (timer_g_start c)"
      and r: "last_response tr \<noteq> None"
    by (rule ist_ok [OF ok(1)]) (use st in simp_all)
  obtain r where r: "last_response tr = Some r" using r by auto
  have m: "evt_sip evt = None" using event_message(2) [OF ok(2)] ty by (auto simp: evt_classes)
  have "0 \<le> timer_g_length c" using ok(2) ty c(2) by (simp add: event_ok_def)
  note d = timer_ok_doubled [OF t this]
  obtain i pre where "sends env r i pre" by (rule snd_xxx_result)
  note snd = sendsD [OF this]
  show "\<exists>tr' as. osip_ist_timeout_g_event env evt tr = Inr (tr', as) \<and> step_ok evt tr tr' as"
    using st ty c m r d
    by (cases "4000 < timer_g_length c + timer_g_length c"; cases "i = 0")
      (simp_all add: ist_handlers handler_defs snd step_simps rfc3261.intros)
qed

text \<open>The three handlers of an outgoing response begin alike.\<close>

lemma handles_ist_snd_1xx: "handles ist_snd_1xx IST_PROCEEDING SND_STATUS_1XX"
proof (rule handlesI)
  fix env evt tr
  assume st: "state tr = IST_PROCEEDING" and ty: "evt_type evt = SND_STATUS_1XX" and ok: "transaction_ok tr" "event_ok evt tr"
  obtain c where c: "ctx_type tr = IST" "ist_context tr = Some c" "timer_ok (timer_g_length c) (timer_g_start c)"
    by (rule ist_ok [OF ok(1)]) (use st in simp_all)
  obtain m where m: "evt_sip evt = Some m" using event_message(1) [OF ok(2)] ty by (auto simp: evt_classes)
  obtain i pre where "sends env m i pre" by (rule snd_xxx_result)
  note snd = sendsD [OF this]
  show "\<exists>tr' as. ist_snd_1xx env evt tr = Inr (tr', as) \<and> step_ok evt tr tr' as"
    using st ty c m
    by (cases "last_response tr"; cases "i = 0") (simp_all add: ist_handlers handler_defs snd step_simps rfc3261.intros)
qed

lemma handles_ist_snd_2xx: "handles ist_snd_2xx IST_PROCEEDING SND_STATUS_2XX"
proof (rule handlesI)
  fix env evt tr
  assume st: "state tr = IST_PROCEEDING" and ty: "evt_type evt = SND_STATUS_2XX" and ok: "transaction_ok tr" "event_ok evt tr"
  obtain c where c: "ctx_type tr = IST" "ist_context tr = Some c" "timer_ok (timer_g_length c) (timer_g_start c)"
    by (rule ist_ok [OF ok(1)]) (use st in simp_all)
  obtain m where m: "evt_sip evt = Some m" using event_message(1) [OF ok(2)] ty by (auto simp: evt_classes)
  obtain i pre where "sends env m i pre" by (rule snd_xxx_result)
  note snd = sendsD [OF this]
  show "\<exists>tr' as. ist_snd_2xx env evt tr = Inr (tr', as) \<and> step_ok evt tr tr' as"
    using st ty c m
    by (cases "last_response tr"; cases "i = 0") (simp_all add: ist_handlers handler_defs snd step_simps rfc3261.intros)
qed

lemma handles_ist_snd_3456xx: "handles ist_snd_3456xx IST_PROCEEDING SND_STATUS_3456XX"
proof (rule handlesI)
  fix env evt tr
  assume st: "state tr = IST_PROCEEDING" and ty: "evt_type evt = SND_STATUS_3456XX" and ok: "transaction_ok tr" "event_ok evt tr"
  obtain c where c: "ctx_type tr = IST" "ist_context tr = Some c" and t: "timer_ok (timer_g_length c) (timer_g_start c)"
    by (rule ist_ok [OF ok(1)]) (use st in simp_all)
  have t': "timer_ok (timer_g_length c) start" if "timer_g_length c \<noteq> - 1" for start
    using t that by (auto simp: timer_ok_def)
  obtain m where m: "evt_sip evt = Some m" using event_message(1) [OF ok(2)] ty by (auto simp: evt_classes)
  obtain i pre where "sends env m i pre" by (rule snd_xxx_result)
  note snd = sendsD [OF this]
  show "\<exists>tr' as. ist_snd_3456xx env evt tr = Inr (tr', as) \<and> step_ok evt tr tr' as"
    using st ty c t m t'
    by (cases "last_response tr"; cases "i = 0"; cases "timer_g_length c = - 1")
      (simp_all add: ist_handlers handler_defs snd step_simps rfc3261.intros)
qed

end
