(* ===== verification/Osip_Nict_Correct.thy ===== *)
theory Osip_Nict_Correct
  imports Osip_Ist_Correct
begin

text \<open>The handlers of the client transaction of any request but INVITE keep the promises of a step.\<close>

lemma nict_ok:
  assumes "transaction_ok tr" "state tr \<in> states NICT"
  obtains c where "ctx_type tr = NICT" "nict_context tr = Some c" "timer_ok (timer_e_length c) (timer_e_start c)"
    "state tr = NICT_PRE_TRYING \<Longrightarrow> orig_request tr = None"
proof -
  have "ctx_type tr = NICT" by (rule ctx_of_state [OF assms])
  with assms(1) that show thesis by (auto simp: transaction_ok_def split: option.splits)
qed

text \<open>The method of a request that an event is about is there to be compared.\<close>

lemma by_method_defined: "sip_method m \<noteq> None \<Longrightarrow> \<exists>cb. by_method cs other m = Inr cb"
  by (induction cs other m rule: by_method.induct) (auto simp: msg_is_def)

lemma set_type_method:
  "evt_set_type_incoming_sipmessage m = Inr RCV_REQUEST \<Longrightarrow> sip_method m \<noteq> None"
  "evt_set_type_outgoing_sipmessage m = Inr SND_REQUEST \<Longrightarrow> sip_method m \<noteq> None"
  by (cases "sip_method m"; cases "MSG_IS_REQUEST m";
      simp add: evt_set_type_incoming_sipmessage_def evt_set_type_outgoing_sipmessage_def msg_is_def split: if_splits)+

lemma event_method:
  assumes "event_ok evt tr" "evt_sip evt = Some m" "evt_type evt = SND_REQUEST \<or> evt_type evt = RCV_REQUEST"
  shows "sip_method m \<noteq> None"
proof -
  have k: "(EVT_IS_INCOMINGMSG evt \<and> evt_set_type_incoming_sipmessage m = Inr (evt_type evt)) \<or>
      (EVT_IS_OUTGOINGMSG evt \<and> evt_set_type_outgoing_sipmessage m = Inr (evt_type evt))"
    using assms(1,2) unfolding event_ok_def by simp
  from assms(3) show ?thesis
  proof
    assume ty: "evt_type evt = SND_REQUEST"
    then have "\<not> EVT_IS_INCOMINGMSG evt" by (simp add: evt_classes)
    with k ty show ?thesis using set_type_method(2) by simp
  next
    assume ty: "evt_type evt = RCV_REQUEST"
    then have "\<not> EVT_IS_OUTGOINGMSG evt" by (simp add: evt_classes)
    with k ty show ?thesis using set_type_method(1) by simp
  qed
qed

lemmas nict_handlers = nict_snd_request_def osip_nict_timeout_e_event_def osip_nict_timeout_f_event_def
  osip_nict_timeout_k_event_def nict_rcv_1xx_def nict_rcv_23456xx_def nict_send_def nict_handle_transport_error_def

lemma handles_nict_snd_request: "handles nict_snd_request NICT_PRE_TRYING SND_REQUEST"
proof (rule handlesI)
  fix env evt tr
  assume st: "state tr = NICT_PRE_TRYING" and ty: "evt_type evt = SND_REQUEST" and ok: "transaction_ok tr" "event_ok evt tr"
  obtain c where c: "ctx_type tr = NICT" "nict_context tr = Some c" "orig_request tr = None"
      and t: "timer_ok (timer_e_length c) (timer_e_start c)"
    by (rule nict_ok [OF ok(1)]) (use st in simp_all)
  have t': "timer_ok (timer_e_length c) start" if "0 < timer_e_length c" for start
    using t that by (auto simp: timer_ok_def)
  obtain m where m: "evt_sip evt = Some m" using event_message(1) [OF ok(2)] ty by (auto simp: evt_classes)
  obtain cb where cb: "request_sent m = Inr cb"
    using by_method_defined event_method [OF ok(2) m] ty unfolding request_sent_def by blast
  show "\<exists>tr' as. nict_snd_request env evt tr = Inr (tr', as) \<and> step_ok evt tr tr' as"
    using st ty c m t t' cb
    by (cases "send_result env = 0"; cases "0 < timer_e_length c")
      (simp_all add: nict_handlers handler_defs step_simps rfc3261.intros)
qed

lemma handles_nict_timeout_e:
  assumes "st \<in> {NICT_TRYING, NICT_PROCEEDING}"
  shows "handles osip_nict_timeout_e_event st TIMEOUT_E"
proof (rule handlesI)
  fix env evt tr
  assume st: "state tr = st" and ty: "evt_type evt = TIMEOUT_E" and ok: "transaction_ok tr" "event_ok evt tr"
  obtain c where c: "ctx_type tr = NICT" "nict_context tr = Some c" and t: "timer_ok (timer_e_length c) (timer_e_start c)"
    by (rule nict_ok [OF ok(1)]) (use st assms in auto)
  have m: "evt_sip evt = None" using event_message(2) [OF ok(2)] ty by (auto simp: evt_classes)
  have "0 \<le> timer_e_length c" using ok(2) ty c(2) by (simp add: event_ok_def)
  note d = timer_ok_doubled [OF t this]
  have four: "timer_ok 4000 start" for start by (simp add: timer_ok_def)
  have "state tr = NICT_TRYING \<or> state tr = NICT_PROCEEDING" using st assms by simp
  then show "\<exists>tr' as. osip_nict_timeout_e_event env evt tr = Inr (tr', as) \<and> step_ok evt tr tr' as"
    using ty c m d four
    by (elim disjE; cases "4000 < timer_e_length c + timer_e_length c"; cases "send_result env = 0")
      (simp_all add: nict_handlers handler_defs step_simps rfc3261.intros)
qed

lemma handles_nict_timeout_f:
  assumes "st \<in> {NICT_TRYING, NICT_PROCEEDING}"
  shows "handles osip_nict_timeout_f_event st TIMEOUT_F"
proof (rule handlesI)
  fix env evt tr
  assume st: "state tr = st" and ty: "evt_type evt = TIMEOUT_F" and ok: "transaction_ok tr" "event_ok evt tr"
  obtain c where c: "ctx_type tr = NICT" "nict_context tr = Some c" "timer_ok (timer_e_length c) (timer_e_start c)"
    by (rule nict_ok [OF ok(1)]) (use st assms in auto)
  have m: "evt_sip evt = None" using event_message(2) [OF ok(2)] ty by (auto simp: evt_classes)
  have "state tr = NICT_TRYING \<or> state tr = NICT_PROCEEDING" using st assms by simp
  then show "\<exists>tr' as. osip_nict_timeout_f_event env evt tr = Inr (tr', as) \<and> step_ok evt tr tr' as"
    using ty c m by (elim disjE) (simp_all add: nict_handlers handler_defs step_simps rfc3261.intros)
qed

lemma handles_nict_timeout_k: "handles osip_nict_timeout_k_event NICT_COMPLETED TIMEOUT_K"
proof (rule handlesI)
  fix env evt tr
  assume st: "state tr = NICT_COMPLETED" and ty: "evt_type evt = TIMEOUT_K" and ok: "transaction_ok tr" "event_ok evt tr"
  obtain c where c: "ctx_type tr = NICT" "nict_context tr = Some c" "timer_ok (timer_e_length c) (timer_e_start c)"
    by (rule nict_ok [OF ok(1)]) (use st in auto)
  have m: "evt_sip evt = None" using event_message(2) [OF ok(2)] ty by (auto simp: evt_classes)
  show "\<exists>tr' as. osip_nict_timeout_k_event env evt tr = Inr (tr', as) \<and> step_ok evt tr tr' as"
    using st ty c m by (simp add: nict_handlers handler_defs step_simps rfc3261.intros)
qed

lemma handles_nict_rcv_1xx:
  assumes "st \<in> {NICT_TRYING, NICT_PROCEEDING}"
  shows "handles nict_rcv_1xx st RCV_STATUS_1XX"
proof (rule handlesI)
  fix env evt tr
  assume st: "state tr = st" and ty: "evt_type evt = RCV_STATUS_1XX" and ok: "transaction_ok tr" "event_ok evt tr"
  obtain c where c: "ctx_type tr = NICT" "nict_context tr = Some c" "timer_ok (timer_e_length c) (timer_e_start c)"
    by (rule nict_ok [OF ok(1)]) (use st assms in auto)
  obtain m where m: "evt_sip evt = Some m" using event_message(1) [OF ok(2)] ty by (auto simp: evt_classes)
  have "state tr = NICT_TRYING \<or> state tr = NICT_PROCEEDING" using st assms by simp
  then show "\<exists>tr' as. nict_rcv_1xx env evt tr = Inr (tr', as) \<and> step_ok evt tr tr' as"
    using ty c m
    by (elim disjE; cases "last_response tr") (simp_all add: nict_handlers handler_defs step_simps rfc3261.intros)
qed

lemma response_received_defined: "\<exists>cb. nict_response_received evt (Some m) = Inr cb"
  by (simp add: nict_response_received_def)

lemma handles_nict_rcv_23456xx:
  assumes "st \<in> {NICT_TRYING, NICT_PROCEEDING}" "ty \<in> {RCV_STATUS_2XX, RCV_STATUS_3456XX}"
  shows "handles nict_rcv_23456xx st ty"
proof (rule handlesI)
  fix env evt tr
  assume st: "state tr = st" and ty: "evt_type evt = ty" and ok: "transaction_ok tr" "event_ok evt tr"
  obtain c where c: "ctx_type tr = NICT" "nict_context tr = Some c" "timer_ok (timer_e_length c) (timer_e_start c)"
    by (rule nict_ok [OF ok(1)]) (use st assms in auto)
  obtain m where m: "evt_sip evt = Some m" using event_message(1) [OF ok(2)] ty assms(2) by (auto simp: evt_classes)
  obtain cb where cb: "nict_response_received evt (Some m) = Inr cb" using response_received_defined by blast
  have "state tr = NICT_TRYING \<or> state tr = NICT_PROCEEDING" "evt_type evt = RCV_STATUS_2XX \<or> evt_type evt = RCV_STATUS_3456XX"
    using st ty assms by simp_all
  then show "\<exists>tr' as. nict_rcv_23456xx env evt tr = Inr (tr', as) \<and> step_ok evt tr tr' as"
    using c m cb
    by (elim disjE; cases "last_response tr") (simp_all add: nict_handlers handler_defs step_simps rfc3261.intros)
qed

end
