(* ===== verification/Osip_Nist_Correct.thy ===== *)
theory Osip_Nist_Correct
  imports Osip_Nict_Correct
begin

text \<open>The handlers of the server transaction of any request but INVITE keep the promises of a step.\<close>

lemma nist_ok:
  assumes "transaction_ok tr" "state tr \<in> states NIST"
  obtains c where "ctx_type tr = NIST" "nist_context tr = Some c" "state tr = NIST_PRE_TRYING \<Longrightarrow> orig_request tr = None"
proof -
  have "ctx_type tr = NIST" by (rule ctx_of_state [OF assms])
  with assms(1) that show thesis by (auto simp: transaction_ok_def)
qed

lemmas nist_handlers = nist_rcv_request_def nist_snd_1xx_def nist_snd_23456xx_def osip_nist_timeout_j_event_def
  nist_handle_transport_error_def

lemma handles_nist_rcv_request: "handles nist_rcv_request NIST_PRE_TRYING RCV_REQUEST"
proof (rule handlesI)
  fix env evt tr
  assume st: "state tr = NIST_PRE_TRYING" and ty: "evt_type evt = RCV_REQUEST" and ok: "transaction_ok tr" "event_ok evt tr"
  obtain c where c: "ctx_type tr = NIST" "nist_context tr = Some c" "orig_request tr = None"
    by (rule nist_ok [OF ok(1)]) (use st in simp_all)
  obtain m where m: "evt_sip evt = Some m" using event_message(1) [OF ok(2)] ty by (auto simp: evt_classes)
  obtain cb where cb: "request_received m = Inr cb"
    using by_method_defined event_method [OF ok(2) m] ty unfolding request_received_def by blast
  show "\<exists>tr' as. nist_rcv_request env evt tr = Inr (tr', as) \<and> step_ok evt tr tr' as"
    using st ty c m cb by (simp add: nist_handlers handler_defs step_simps rfc3261.intros)
qed

lemma handles_nist_rcv_request_again:
  assumes "st \<in> {NIST_PROCEEDING, NIST_COMPLETED}"
  shows "handles nist_rcv_request st RCV_REQUEST"
proof (rule handlesI)
  fix env evt tr
  assume st: "state tr = st" and ty: "evt_type evt = RCV_REQUEST" and ok: "transaction_ok tr" "event_ok evt tr"
  obtain c where c: "ctx_type tr = NIST" "nist_context tr = Some c"
    by (rule nist_ok [OF ok(1)]) (use st assms in auto)
  obtain m where m: "evt_sip evt = Some m" using event_message(1) [OF ok(2)] ty by (auto simp: evt_classes)
  have s: "state tr = NIST_PROCEEDING \<or> state tr = NIST_COMPLETED" using st assms by simp
  show "\<exists>tr' as. nist_rcv_request env evt tr = Inr (tr', as) \<and> step_ok evt tr tr' as"
  proof (cases "last_response tr")
    case None
    from s None ty c m show ?thesis
      by (elim disjE) (simp_all add: nist_handlers handler_defs step_simps rfc3261.intros)
  next
    case (Some r)
    obtain i pre where "sends env r i pre" by (rule snd_xxx_result)
    note snd = sendsD [OF this]
    from s Some ty c m show ?thesis
      by (elim disjE; cases "i = 0") (simp_all add: nist_handlers handler_defs snd step_simps rfc3261.intros)
  qed
qed

lemma handles_nist_snd_1xx:
  assumes "st \<in> {NIST_TRYING, NIST_PROCEEDING}"
  shows "handles nist_snd_1xx st SND_STATUS_1XX"
proof (rule handlesI)
  fix env evt tr
  assume st: "state tr = st" and ty: "evt_type evt = SND_STATUS_1XX" and ok: "transaction_ok tr" "event_ok evt tr"
  obtain c where c: "ctx_type tr = NIST" "nist_context tr = Some c"
    by (rule nist_ok [OF ok(1)]) (use st assms in auto)
  obtain m where m: "evt_sip evt = Some m" using event_message(1) [OF ok(2)] ty by (auto simp: evt_classes)
  obtain i pre where "sends env m i pre" by (rule snd_xxx_result)
  note snd = sendsD [OF this]
  have "state tr = NIST_TRYING \<or> state tr = NIST_PROCEEDING" using st assms by simp
  then show "\<exists>tr' as. nist_snd_1xx env evt tr = Inr (tr', as) \<and> step_ok evt tr tr' as"
    using ty c m
    by (elim disjE; cases "last_response tr"; cases "i = 0")
      (simp_all add: nist_handlers handler_defs snd step_simps rfc3261.intros)
qed

lemma response_sent_defined: "\<exists>cb. nist_response_sent evt (Some m) = Inr cb"
  by (simp add: nist_response_sent_def)

lemma handles_nist_snd_23456xx:
  assumes "st \<in> {NIST_TRYING, NIST_PROCEEDING}" "ty \<in> {SND_STATUS_2XX, SND_STATUS_3456XX}"
  shows "handles nist_snd_23456xx st ty"
proof (rule handlesI)
  fix env evt tr
  assume st: "state tr = st" and ty: "evt_type evt = ty" and ok: "transaction_ok tr" "event_ok evt tr"
  obtain c where c: "ctx_type tr = NIST" "nist_context tr = Some c"
    by (rule nist_ok [OF ok(1)]) (use st assms in auto)
  obtain m where m: "evt_sip evt = Some m" using event_message(1) [OF ok(2)] ty assms(2) by (auto simp: evt_classes)
  obtain i pre where "sends env m i pre" by (rule snd_xxx_result)
  note snd = sendsD [OF this]
  obtain cb where cb: "nist_response_sent evt (Some m) = Inr cb" using response_sent_defined by blast
  have "state tr = NIST_TRYING \<or> state tr = NIST_PROCEEDING" "evt_type evt = SND_STATUS_2XX \<or> evt_type evt = SND_STATUS_3456XX"
    using st ty assms by simp_all
  then show "\<exists>tr' as. nist_snd_23456xx env evt tr = Inr (tr', as) \<and> step_ok evt tr tr' as"
    using c m cb
    by (elim disjE; cases "last_response tr"; cases "i = 0")
      (simp_all add: nist_handlers handler_defs snd step_simps rfc3261.intros)
qed

lemma handles_nist_timeout_j: "handles osip_nist_timeout_j_event NIST_COMPLETED TIMEOUT_J"
proof (rule handlesI)
  fix env evt tr
  assume st: "state tr = NIST_COMPLETED" and ty: "evt_type evt = TIMEOUT_J" and ok: "transaction_ok tr" "event_ok evt tr"
  obtain c where c: "ctx_type tr = NIST" "nist_context tr = Some c"
    by (rule nist_ok [OF ok(1)]) (use st in auto)
  have m: "evt_sip evt = None" using event_message(2) [OF ok(2)] ty by (auto simp: evt_classes)
  show "\<exists>tr' as. osip_nist_timeout_j_event env evt tr = Inr (tr', as) \<and> step_ok evt tr tr' as"
    using st ty c m by (simp add: nist_handlers handler_defs step_simps rfc3261.intros)
qed

end
