(* ===== verification/Osip_Correct.thy ===== *)
theory Osip_Correct
  imports Osip_Nist_Correct
begin

text \<open>
  The four machines together: the tables cover exactly the steps of the RFC, and the execution of an
  event, of a run of events and of a whole queue keeps the promises.
\<close>

section \<open>An example\<close>

text \<open>A call from one phone to another, used to run the definitions.\<close>

definition sample_start :: timeval where "sample_start = \<lparr>tv_sec = 100, tv_usec = 0\<rparr>"

definition sample_env :: "int \<Rightarrow> tr_env" where "sample_env rc = \<lparr>send_result = rc, time_now = sample_start\<rparr>"

definition sample_event :: "type_t \<Rightarrow> message \<Rightarrow> osip_event" where
  "sample_event ty m = \<lparr>evt_type = ty, evt_sip = Some m, evt_transactionid = 1\<rparr>"

text \<open>The client transaction of the call, before anything is sent.\<close>

definition sample_ict :: transaction where
  "sample_ict = \<lparr>transactionid = 1, transactionff = osip_fifo_init, topvia = Some (sample_via ''z9hG4bK1''),
     tr_from = msg_from (sample_message 0 ''INVITE''), tr_to = msg_to (sample_message 0 ''INVITE''),
     tr_callid = msg_call_id (sample_message 0 ''INVITE''), tr_cseq = msg_cseq (sample_message 0 ''INVITE''),
     orig_request = None, last_response = None, tr_ack = None, state = ICT_PRE_CALLING, out_socket = 0,
     ctx_type = ICT, ict_context = Some \<lparr>timer_a_length = 500, timer_a_start = \<lparr>tv_sec = 100, tv_usec = 500000\<rparr>,
       timer_b_length = 32000, timer_b_start = \<lparr>tv_sec = 132, tv_usec = 0\<rparr>, timer_d_length = 32000,
       timer_d_start = \<lparr>tv_sec = - 1, tv_usec = 0\<rparr>, ict_destination = Some ''psp'', ict_port = 5060\<rparr>,
     ist_context = None, nict_context = None, nist_context = None\<rparr>"

lemmas sample_defs = sample_uri_def sample_via_def sample_message_def sample_start_def sample_env_def
  sample_event_def sample_ict_def

lemma sample_init:
  "osip_transaction_init sample_start ICT (Some (sample_message 0 ''INVITE'')) 1 = Inr (Some sample_ict, 2)"
  by code_simp

lemma sample_ok: "transaction_ok sample_ict" "event_ok (sample_event SND_REQINVITE (sample_message 0 ''INVITE'')) sample_ict"
proof -
  show "transaction_ok sample_ict" by code_simp
  show "event_ok (sample_event SND_REQINVITE (sample_message 0 ''INVITE'')) sample_ict"
    by (simp add: event_ok_def sample_defs evt_classes evt_set_type_outgoing_sipmessage_def msg_is_def MSG_IS_REQUEST_def
      request_ok_def osip_uri_clone_def)
qed

section \<open>The tables\<close>

lemma ict_transition_key: "map transition_key ict_transition =
  [(ICT_PRE_CALLING, SND_REQINVITE), (ICT_CALLING, TIMEOUT_A), (ICT_CALLING, TIMEOUT_B), (ICT_CALLING, RCV_STATUS_1XX),
   (ICT_CALLING, RCV_STATUS_2XX), (ICT_CALLING, RCV_STATUS_3456XX), (ICT_PROCEEDING, RCV_STATUS_1XX),
   (ICT_PROCEEDING, RCV_STATUS_2XX), (ICT_PROCEEDING, RCV_STATUS_3456XX), (ICT_COMPLETED, RCV_STATUS_3456XX),
   (ICT_COMPLETED, TIMEOUT_D)]"
  by (simp add: ict_transition_def)

lemma ist_transition_key: "map transition_key ist_transition =
  [(IST_PRE_PROCEEDING, RCV_REQINVITE), (IST_PROCEEDING, RCV_REQINVITE), (IST_COMPLETED, RCV_REQINVITE),
   (IST_COMPLETED, TIMEOUT_G), (IST_COMPLETED, TIMEOUT_H), (IST_PROCEEDING, SND_STATUS_1XX),
   (IST_PROCEEDING, SND_STATUS_2XX), (IST_PROCEEDING, SND_STATUS_3456XX), (IST_COMPLETED, RCV_REQACK),
   (IST_CONFIRMED, RCV_REQACK), (IST_CONFIRMED, TIMEOUT_I)]"
  by (simp add: ist_transition_def)

lemma nict_transition_key: "map transition_key nict_transition =
  [(NICT_PRE_TRYING, SND_REQUEST), (NICT_TRYING, TIMEOUT_F), (NICT_TRYING, TIMEOUT_E), (NICT_TRYING, RCV_STATUS_1XX),
   (NICT_TRYING, RCV_STATUS_2XX), (NICT_TRYING, RCV_STATUS_3456XX), (NICT_PROCEEDING, TIMEOUT_F),
   (NICT_PROCEEDING, TIMEOUT_E), (NICT_PROCEEDING, RCV_STATUS_1XX), (NICT_PROCEEDING, RCV_STATUS_2XX),
   (NICT_PROCEEDING, RCV_STATUS_3456XX), (NICT_COMPLETED, TIMEOUT_K)]"
  by (simp add: nict_transition_def)

lemma nist_transition_key: "map transition_key nist_transition =
  [(NIST_PRE_TRYING, RCV_REQUEST), (NIST_TRYING, SND_STATUS_1XX), (NIST_TRYING, SND_STATUS_2XX),
   (NIST_TRYING, SND_STATUS_3456XX), (NIST_PROCEEDING, SND_STATUS_1XX), (NIST_PROCEEDING, SND_STATUS_2XX),
   (NIST_PROCEEDING, SND_STATUS_3456XX), (NIST_PROCEEDING, RCV_REQUEST), (NIST_COMPLETED, TIMEOUT_J),
   (NIST_COMPLETED, RCV_REQUEST)]"
  by (simp add: nist_transition_def)

lemmas transition_keys = ict_transition_key ist_transition_key nict_transition_key nist_transition_key

lemma small_fsm_keys: "distinct (map transition_key (small_fsm_of k))"
  by (cases k; simp only: small_fsm_of_def osip_fsm_type.case ict_transition_keys ist_transition_keys
      nict_transition_keys nist_transition_keys)

lemma fsm_of_rev: "fsm_of k = rev (small_fsm_of k)"
  by (cases k; simp only: fsm_of_def small_fsm_of_def osip_fsm_type.case ict_load_fsm_rev ist_load_fsm_rev
      nict_load_fsm_rev nist_load_fsm_rev)

lemma findmethod_small: "fsm_findmethod ty st (fsm_of k) = fsm_findmethod ty st (small_fsm_of k)"
  by (simp only: fsm_of_rev findmethod_rev [OF small_fsm_keys])

text \<open>Every entry of a table is right.\<close>

lemma tables_handle:
  "list_all (\<lambda>t. handles (tr_method t) (tr_state t) (tr_type t)) (small_fsm_of k)"
proof (cases k)
  case ICT
  show ?thesis
    by (simp add: ICT small_fsm_of_def ict_transition_def handles_ict_snd_invite handles_ict_timeout_a
      handles_ict_timeout_b handles_ict_timeout_d handles_ict_rcv_1xx handles_ict_rcv_2xx handles_ict_rcv_3456xx
      handles_ict_retransmit_ack)
next
  case IST
  show ?thesis
    by (simp add: IST small_fsm_of_def ist_transition_def handles_ist_rcv_invite handles_ist_rcv_invite_again
      handles_ist_timeout_g handles_ist_timeout_h handles_ist_timeout_i handles_ist_snd_1xx handles_ist_snd_2xx
      handles_ist_snd_3456xx handles_ist_rcv_ack)
next
  case NICT
  show ?thesis
    by (simp add: NICT small_fsm_of_def nict_transition_def handles_nict_snd_request handles_nict_timeout_e
      handles_nict_timeout_f handles_nict_timeout_k handles_nict_rcv_1xx handles_nict_rcv_23456xx)
next
  case NIST
  show ?thesis
    by (simp add: NIST small_fsm_of_def nist_transition_def handles_nist_rcv_request handles_nist_rcv_request_again
      handles_nist_snd_1xx handles_nist_snd_23456xx handles_nist_timeout_j)
qed

lemma rfc3261_in_table:
  assumes "rfc3261 st ty failed st'" "st \<in> states k"
  shows "(st, ty) \<in> set (map transition_key (small_fsm_of k))"
  using assms
  by (cases k; simp only: small_fsm_of_def osip_fsm_type.case transition_keys; cases rule: rfc3261.cases) auto

lemma table_in_rfc3261: "\<forall>(st, ty)\<in>set (map transition_key (small_fsm_of k)). expected st ty"
  unfolding expected_def
  by (cases k; simp only: small_fsm_of_def osip_fsm_type.case transition_keys)
    (auto intro: rfc3261.intros)

lemma expected_table:
  assumes "st \<in> states k"
  shows "expected st ty \<longleftrightarrow> fsm_findmethod ty st (fsm_of k) \<noteq> None"
proof -
  have "expected st ty \<longleftrightarrow> (st, ty) \<in> set (map transition_key (small_fsm_of k))"
    using rfc3261_in_table [OF _ assms] table_in_rfc3261 [of k] unfolding expected_def by blast
  also have "\<dots> \<longleftrightarrow> fsm_findmethod ty st (small_fsm_of k) \<noteq> None"
    unfolding findmethod_none set_map image_iff by (metis (no_types, lifting) prod.inject)
  finally show ?thesis by (simp only: findmethod_small)
qed

section \<open>One event\<close>

text \<open>An event the state does not expect is discarded, with its message.\<close>

definition discarded :: "osip_event \<Rightarrow> tr_action list" where
  "discarded evt = map Free (case evt_sip evt of None \<Rightarrow> [] | Some m \<Rightarrow> [m])"

lemma event_ok_sip: "event_ok evt tr \<Longrightarrow> EVT_IS_MSG evt \<longleftrightarrow> evt_sip evt \<noteq> None"
  using event_message(1) [of evt tr] event_message(2) [of evt tr] by (metis not_None_eq)

lemma execute_discards:
  assumes "transaction_ok tr" "event_ok evt tr" "\<not> expected (state tr) (evt_type evt)"
  shows "osip_transaction_execute env evt tr = Inr (tr, discarded evt)"
proof -
  have "state tr \<in> states (ctx_type tr)" using assms(1) by (simp add: transaction_ok_def)
  from expected_table [OF this] assms(3)
  have n: "fsm_callmethod (evt_type evt) (state tr) (fsm_of (ctx_type tr)) env evt = None"
    by (simp add: fsm_callmethod_def)
  have kill: "evt_type evt \<noteq> KILL_TRANSACTION" if "EVT_IS_MSG evt"
    using that by (auto simp: evt_classes)
  show ?thesis
  proof (cases "evt_sip evt")
    case None
    then show ?thesis using n event_ok_sip [OF assms(2)]
      by (simp add: osip_transaction_execute_def discarded_def)
  next
    case (Some m)
    then show ?thesis using n event_ok_sip [OF assms(2)] kill
      by (simp add: osip_transaction_execute_def discarded_def osip_message_free_def emit_def)
  qed
qed

lemma execute_steps:
  assumes "transaction_ok tr" "event_ok evt tr" "expected (state tr) (evt_type evt)"
  shows "\<exists>tr' as. osip_transaction_execute env evt tr = Inr (tr', as) \<and> step_ok evt tr tr' as"
proof -
  have st: "state tr \<in> states (ctx_type tr)" using assms(1) by (simp add: transaction_ok_def)
  from expected_table [OF st] assms(3) findmethod_small obtain t
    where t: "fsm_findmethod (evt_type evt) (state tr) (fsm_of (ctx_type tr)) = Some t"
      "fsm_findmethod (evt_type evt) (state tr) (small_fsm_of (ctx_type tr)) = Some t"
    by auto
  from t(2) have t': "t \<in> set (small_fsm_of (ctx_type tr))" "tr_type t = evt_type evt" "tr_state t = state tr"
    unfolding fsm_findmethod_def by (auto simp: find_Some_iff)
  have "handles (tr_method t) (state tr) (evt_type evt)"
    using tables_handle [of "ctx_type tr"] t' by (metis list_all_iff)
  then have "\<exists>tr' as. tr_method t env evt tr = Inr (tr', as) \<and> step_ok evt tr tr' as"
    using assms(1,2) unfolding handles_def by blast
  moreover have "evt_type evt \<noteq> KILL_TRANSACTION"
    using assms(3) unfolding expected_def by (auto elim: rfc3261.cases)
  ultimately show ?thesis by (simp add: osip_transaction_execute_def fsm_callmethod_def t(1))
qed

text \<open>Either way, what one event does.\<close>

lemma execute_cases:
  assumes "transaction_ok tr" "event_ok evt tr" "osip_transaction_execute env evt tr = Inr (tr', as)"
  obtains (step) "expected (state tr) (evt_type evt)" "step_ok evt tr tr' as"
  | (discard) "\<not> expected (state tr) (evt_type evt)" "tr' = tr" "as = discarded evt"
  using execute_steps [OF assms(1,2)] execute_discards [OF assms(1,2)] assms(3) that
  by (metis Inr_inject Pair_inject)

lemma discarded_counts [simp]:
  "freed (discarded evt) = opt_mset (evt_sip evt)" "kills (discarded evt) = 0"
  by (cases "evt_sip evt"; simp add: discarded_def)+

lemma terminated_unexpected: "\<not> expected (terminated k) ty"
  unfolding expected_def by (cases k) (auto elim: rfc3261.cases)

text \<open>
  Claim C4: one event moves a well-formed transaction only along the state machines of RFC 3261; it
  gives the transaction up only after the transport failed or when a failure cannot be acknowledged,
  and an event the state does not expect changes nothing.
\<close>

theorem execute_refines_rfc3261:
  assumes "transaction_ok tr" "event_ok evt tr"
  shows "\<exists>tr' as. osip_transaction_execute env evt tr = Inr (tr', as) \<and>
    (rfc3261 (state tr) (evt_type evt) (transport_failed as \<or> unacknowledgeable evt tr) (state tr') \<or>
     \<not> expected (state tr) (evt_type evt) \<and> tr' = tr)"
  using execute_steps [OF assms, of env] execute_discards [OF assms, of env] by (auto simp: step_ok_def)

theorem execute_refines_rfc3261_witness:
  "\<exists>tr' as. osip_transaction_execute (sample_env 0) (sample_event SND_REQINVITE (sample_message 0 ''INVITE'')) sample_ict
      = Inr (tr', as) \<and>
    (rfc3261 (state sample_ict) (evt_type (sample_event SND_REQINVITE (sample_message 0 ''INVITE'')))
       (transport_failed as \<or> unacknowledgeable (sample_event SND_REQINVITE (sample_message 0 ''INVITE'')) sample_ict) (state tr') \<or>
     \<not> expected (state sample_ict) (evt_type (sample_event SND_REQINVITE (sample_message 0 ''INVITE''))) \<and> tr' = sample_ict)"
  by (rule execute_refines_rfc3261 [OF sample_ok])

section \<open>Runs of events\<close>

text \<open>The messages given to a transaction, what it did, and where it got.\<close>

inductive tr_run :: "transaction \<Rightarrow> message multiset \<Rightarrow> tr_action list \<Rightarrow> transaction \<Rightarrow> bool" where
  tr_start: "tr_run tr {#} [] tr"
| tr_step: "tr_run tr0 given as tr \<Longrightarrow> event_ok evt tr \<Longrightarrow>
    osip_transaction_execute env evt tr = Inr (tr', bs) \<Longrightarrow>
    tr_run tr0 (given + opt_mset (evt_sip evt)) (as @ bs) tr'"

lemma sample_failed:
  "osip_transaction_execute (sample_env (- 1)) (sample_event SND_REQINVITE (sample_message 0 ''INVITE'')) sample_ict =
   Inr (sample_ict\<lparr>orig_request := Some (sample_message 0 ''INVITE''), state := ICT_TERMINATED\<rparr>,
     [Send (Some (sample_message 0 ''INVITE'')) (Some ''psp'') 5060 0, Transport_error ICT (- 1), Kill_transaction ICT])"
  by code_simp

text \<open>A run of the example: the invitation cannot be sent.\<close>

lemmas sample_run = tr_step [OF tr_start sample_ok(2) sample_failed]

lemma tr_run_ok: "tr_run tr0 given as tr \<Longrightarrow> transaction_ok tr0 \<Longrightarrow> transaction_ok tr \<and> same_identity tr0 tr"
proof (induction rule: tr_run.induct)
  case (tr_start tr)
  then show ?case by (simp add: same_identity_def)
next
  case (tr_step tr0 given as tr evt env tr' bs)
  then have ok: "transaction_ok tr" "same_identity tr0 tr" by simp_all
  from ok(1) tr_step.hyps(2,3) show ?case
    by (cases rule: execute_cases) (use ok in \<open>auto simp: step_ok_def same_identity_def\<close>)
qed

text \<open>
  Claim C5: a well-formed transaction never meets undefined behaviour and stays well-formed, of its
  kind and with its identity, whatever events it is given, however their sending turns out.
\<close>

theorem transactions_never_fault:
  assumes "tr_run tr0 given as tr" "transaction_ok tr0" "event_ok evt tr"
  shows "transaction_ok tr \<and> same_identity tr0 tr \<and> (\<exists>tr' bs. osip_transaction_execute env evt tr = Inr (tr', bs))"
  using tr_run_ok [OF assms(1,2)] execute_steps [OF _ assms(3)] execute_discards [OF _ assms(3)] by blast

theorem transactions_never_fault_witness:
  "transaction_ok sample_ict \<and> same_identity sample_ict sample_ict \<and>
   (\<exists>tr' bs. osip_transaction_execute (sample_env 0) (sample_event SND_REQINVITE (sample_message 0 ''INVITE'')) sample_ict
     = Inr (tr', bs))"
  by (rule transactions_never_fault [OF tr_start sample_ok])

lemma tr_run_owned: "tr_run tr0 given as tr \<Longrightarrow> transaction_ok tr0 \<Longrightarrow> owned tr + freed as = owned tr0 + given"
proof (induction rule: tr_run.induct)
  case (tr_start tr)
  then show ?case by simp
next
  case (tr_step tr0 given as tr evt env tr' bs)
  then have ok: "transaction_ok tr" and IH: "owned tr + freed as = owned tr0 + given"
    using tr_run_ok by blast+
  have "owned tr' + freed bs = owned tr + opt_mset (evt_sip evt)"
    using ok tr_step.hyps(2,3) by (cases rule: execute_cases) (auto simp: step_ok_def)
  then have "owned tr' + freed (as @ bs) = (owned tr + freed as) + opt_mset (evt_sip evt)"
    by (metis freed_append union_assoc union_commute)
  then show ?case by (simp only: IH union_assoc)
qed

text \<open>
  Claim C6: no message leaks and none is freed twice: of all the messages a transaction was given,
  each one is either held by it still or has been freed, once.
\<close>

theorem messages_conserved:
  assumes "tr_run tr0 given as tr" "transaction_ok tr0"
  shows "owned tr + freed as = owned tr0 + given"
  using assms by (rule tr_run_owned)

theorem messages_conserved_witness:
  "owned (sample_ict\<lparr>orig_request := Some (sample_message 0 ''INVITE''), state := ICT_TERMINATED\<rparr>) +
     freed ([] @ [Send (Some (sample_message 0 ''INVITE'')) (Some ''psp'') 5060 0, Transport_error ICT (- 1), Kill_transaction ICT]) =
   owned sample_ict + ({#} + opt_mset (evt_sip (sample_event SND_REQINVITE (sample_message 0 ''INVITE''))))"
  by (rule messages_conserved [OF sample_run sample_ok(1)])

lemma tr_run_kills:
  "tr_run tr0 given as tr \<Longrightarrow> transaction_ok tr0 \<Longrightarrow> state tr0 \<noteq> terminated (ctx_type tr0) \<Longrightarrow>
   kills as = (if state tr = terminated (ctx_type tr) then 1 else 0)"
proof (induction rule: tr_run.induct)
  case (tr_start tr)
  then show ?case by simp
next
  case (tr_step tr0 given as tr evt env tr' bs)
  then have ok: "transaction_ok tr" and IH: "kills as = (if state tr = terminated (ctx_type tr) then 1 else 0)"
    using tr_run_ok by blast+
  from ok tr_step.hyps(2,3) show ?case
  proof (cases rule: execute_cases)
    case step
    then have "state tr \<noteq> terminated (ctx_type tr)" using terminated_unexpected by metis
    with IH step show ?thesis by (simp add: step_ok_def same_identity_def)
  next
    case discard
    with IH show ?thesis by simp
  qed
qed

text \<open>
  Claim C7: the end of a transaction is announced to the application exactly once, when it reaches
  its final state, and never before.
\<close>

theorem kill_announced_once:
  assumes "tr_run tr0 given as tr" "transaction_ok tr0" "state tr0 \<noteq> terminated (ctx_type tr0)"
  shows "kills as = (if state tr = terminated (ctx_type tr) then 1 else 0)"
  using assms by (rule tr_run_kills)

theorem kill_announced_once_witness:
  "kills ([] @ [Send (Some (sample_message 0 ''INVITE'')) (Some ''psp'') 5060 0, Transport_error ICT (- 1), Kill_transaction ICT]) = 1"
  using kill_announced_once [OF sample_run sample_ok(1)] by (simp add: sample_defs)

text \<open>
  Claim C17: the tables built at run time, which are searched from their last entry, and the static
  arrays of the small build dispatch every event in every state to the same handler.
\<close>

theorem small_build_equal:
  "fsm_callmethod ty st (fsm_of k) env evt = fsm_callmethod ty st (small_fsm_of k) env evt"
  by (simp only: fsm_callmethod_def findmethod_small)

section \<open>New transactions\<close>

lemma transaction_init_facts:
  assumes "osip_transaction_init now ty (Some m) counter = Inr (Some tr, counter')"
  shows "transaction_ok tr \<and> ctx_type tr = ty \<and> state tr \<noteq> terminated ty \<and> owned tr = {#} \<and>
    transactionid tr = counter \<and> counter' = counter + 1 \<and> transactionff tr = osip_fifo_init \<and>
    tr_callid tr = msg_call_id m \<and> tr_cseq tr = msg_cseq m \<and> topvia tr = osip_list_get (vias m) 0"
proof -
  from assms obtain cid v f t c s where
    m: "msg_call_id m = Some cid" "call_id_number cid \<noteq> None" "osip_via_clone (osip_list_get (vias m) 0) = Some v"
      "osip_from_clone (msg_from m) = Some f" "osip_from_clone (msg_to m) = Some t"
      "osip_call_id_clone (msg_call_id m) = Some c" "osip_cseq_clone (msg_cseq m) = Some s"
      "add_int counter 1 = Inr (counter + 1)"
    by (auto simp: osip_transaction_init_def res_simps split: option.splits if_splits)
  note same = clone_SomeD(2) [OF m(3)] clone_SomeD(4) [OF m(6)] clone_SomeD(5) [OF m(7)]
  have "cid = c" using m(1) same(2) by simp
  note m = m [unfolded this]
  note clones = m(3) [unfolded same(1)] m(4,5) m(6) [unfolded same(2)] m(7) [unfolded same(3)] m(8)
  note defs = osip_transaction_init_def same clones Let_def transaction_ok_def owned_def
  show ?thesis
  proof (cases ty)
    case ICT
    with assms m(1,2) show ?thesis by (auto simp: defs res_simps)
  next
    case IST
    with assms m(1,2) show ?thesis
      by (auto simp: defs res_simps osip_ist_init_def timer_ok_def not_started_def DEFAULT_T1_def split: option.splits)
  next
    case NICT
    with assms m(1,2) show ?thesis
      by (auto simp: defs res_simps osip_nict_init_def timer_ok_def not_started_def DEFAULT_T1_def split: option.splits)
  next
    case NIST
    with assms m(1,2) show ?thesis by (auto simp: defs res_simps)
  qed
qed

text \<open>
  A transaction made for a request is well-formed, holds no message yet, has the next id
  and the identity of its request.
\<close>

theorem osip_transaction_init_ok:
  assumes "osip_transaction_init now ty (Some m) counter = Inr (Some tr, counter')"
  shows "transaction_ok tr \<and> ctx_type tr = ty \<and> state tr \<noteq> terminated ty \<and> owned tr = {#} \<and>
    transactionid tr = counter \<and> counter' = counter + 1 \<and> transactionff tr = osip_fifo_init \<and>
    tr_callid tr = msg_call_id m \<and> tr_cseq tr = msg_cseq m \<and> topvia tr = osip_list_get (vias m) 0"
  using assms by (rule transaction_init_facts)

theorem osip_transaction_init_ok_witness:
  "transaction_ok sample_ict \<and> ctx_type sample_ict = ICT \<and> state sample_ict \<noteq> terminated ICT \<and> owned sample_ict = {#} \<and>
    transactionid sample_ict = 1 \<and> (2 :: int) = 1 + 1 \<and> transactionff sample_ict = osip_fifo_init \<and>
    tr_callid sample_ict = msg_call_id (sample_message 0 ''INVITE'') \<and>
    tr_cseq sample_ict = msg_cseq (sample_message 0 ''INVITE'') \<and>
    topvia sample_ict = osip_list_get (vias (sample_message 0 ''INVITE'')) 0"
  by (rule osip_transaction_init_ok [OF sample_init])

end
