(* ===== verification/Osip_Frame.thy ===== *)
theory Osip_Frame
  imports Osip_Correct
begin

text \<open>
  What the handlers leave alone: a small logic of operations that keep an observation of the
  transaction, its queue and its timers above all.
\<close>

section \<open>Keeping an observation\<close>

named_theorems preserves_intros \<open>Which operations keep an observation.\<close>

definition preserves :: "(transaction \<Rightarrow> 'v) \<Rightarrow> tr_op \<Rightarrow> bool" where
  "preserves g f \<longleftrightarrow> (\<forall>tr tr' as. f tr = Inr (tr', as) \<longrightarrow> g tr' = g tr)"

lemma preservesD: "preserves g f \<Longrightarrow> f tr = Inr (tr', as) \<Longrightarrow> g tr' = g tr"
  unfolding preserves_def by blast

lemma preserves_runs_Nil [preserves_intros]: "preserves g (runs [])"
  by (simp add: preserves_def)

lemma preserves_runs_Cons [preserves_intros]: "preserves g f \<Longrightarrow> preserves g (runs fs) \<Longrightarrow> preserves g (runs (f # fs))"
  unfolding preserves_def by (auto simp: res_simps split: prod.splits) metis

lemma preserves_runs_if [preserves_intros]:
  "preserves g (runs fs) \<Longrightarrow> preserves g (runs hs) \<Longrightarrow> preserves g (runs (if b then fs else hs))"
  by simp

lemma preserves_emit [preserves_intros]: "preserves g (emit as)"
  by (simp add: preserves_def res_simps)

lemma preserves_modify [preserves_intros]: "(\<And>tr. g (f tr) = g tr) \<Longrightarrow> preserves g (modify f)"
  by (simp add: preserves_def res_simps)

lemma preserves_with_tr [preserves_intros]: "(\<And>tr. preserves g (f tr)) \<Longrightarrow> preserves g (with_tr f)"
  by (simp add: preserves_def with_tr_def)

lemma preserves_if_tr [preserves_intros]: "preserves g (runs fs) \<Longrightarrow> preserves g (runs hs) \<Longrightarrow> preserves g (if_tr b fs hs)"
  by (simp add: preserves_def if_tr_def)

lemma preserves_using_res [preserves_intros]: "(\<And>x. preserves g (f x)) \<Longrightarrow> preserves g (using_res r f)"
  by (auto simp: preserves_def res_simps)

lemma preserves_case_option [preserves_intros]:
  "preserves g f \<Longrightarrow> (\<And>x. preserves g (h x)) \<Longrightarrow> preserves g (case p of None \<Rightarrow> f | Some x \<Rightarrow> h x)"
  "preserves g (runs fs) \<Longrightarrow> (\<And>x. preserves g (runs (hs x))) \<Longrightarrow> preserves g (runs (case p of None \<Rightarrow> fs | Some x \<Rightarrow> hs x))"
  by (cases p; simp)+

lemma preserves_on_ict [preserves_intros]:
  "(\<And>tr c. ict_context tr = Some c \<Longrightarrow> g (tr\<lparr>ict_context := Some (f c)\<rparr>) = g tr) \<Longrightarrow> preserves g (on_ict f)"
  by (auto simp: preserves_def on_ict_def res_simps)

lemma preserves_on_ist [preserves_intros]:
  "(\<And>tr c. ist_context tr = Some c \<Longrightarrow> g (tr\<lparr>ist_context := Some (f c)\<rparr>) = g tr) \<Longrightarrow> preserves g (on_ist f)"
  by (auto simp: preserves_def on_ist_def res_simps)

lemma preserves_on_nict [preserves_intros]:
  "(\<And>tr c. nict_context tr = Some c \<Longrightarrow> g (tr\<lparr>nict_context := Some (f c)\<rparr>) = g tr) \<Longrightarrow> preserves g (on_nict f)"
  by (auto simp: preserves_def on_nict_def res_simps)

lemma preserves_on_nist [preserves_intros]:
  "(\<And>tr c. nist_context tr = Some c \<Longrightarrow> g (tr\<lparr>nist_context := Some (f c)\<rparr>) = g tr) \<Longrightarrow> preserves g (on_nist f)"
  by (auto simp: preserves_def on_nist_def res_simps)

lemma preserves_on_ictR [preserves_intros]:
  "(\<And>tr c c'. ict_context tr = Some c \<Longrightarrow> f c = Inr c' \<Longrightarrow> g (tr\<lparr>ict_context := Some c'\<rparr>) = g tr) \<Longrightarrow> preserves g (on_ictR f)"
  by (auto simp: preserves_def on_ictR_def res_simps)

lemma preserves_on_istR [preserves_intros]:
  "(\<And>tr c c'. ist_context tr = Some c \<Longrightarrow> f c = Inr c' \<Longrightarrow> g (tr\<lparr>ist_context := Some c'\<rparr>) = g tr) \<Longrightarrow> preserves g (on_istR f)"
  by (auto simp: preserves_def on_istR_def res_simps)

lemma preserves_on_nictR [preserves_intros]:
  "(\<And>tr c c'. nict_context tr = Some c \<Longrightarrow> f c = Inr c' \<Longrightarrow> g (tr\<lparr>nict_context := Some c'\<rparr>) = g tr) \<Longrightarrow> preserves g (on_nictR f)"
  by (auto simp: preserves_def on_nictR_def res_simps)

lemma preserves_cb_send [preserves_intros]: "(\<And>i. preserves g (runs (k i))) \<Longrightarrow> preserves g (cb_send_message env msg host port k)"
  unfolding cb_send_message_def by (intro preserves_intros)

lemma preserves_snd_xxx [preserves_intros]:
  assumes "\<And>i. preserves g (runs (k i))"
  shows "preserves g (osip_transaction_snd_xxx env msg k)"
  unfolding osip_transaction_snd_xxx_def
  by (intro preserves_intros assms) (simp add: split_def preserves_cb_send assms Let_def)

section \<open>The handlers\<close>

lemmas vocabulary = osip_message_callback_def osip_kill_transaction_callback_def osip_transport_error_callback_def
  osip_transaction_set_state_def osip_message_free_def replace_response_def ict_send_def nict_send_def
  ict_handle_transport_error_def ist_handle_transport_error_def nict_handle_transport_error_def
  nist_handle_transport_error_def ict_completed_def

lemmas all_handlers = ict_snd_invite_def osip_ict_timeout_a_event_def osip_ict_timeout_b_event_def ict_rcv_1xx_def
  ict_rcv_2xx_def ict_rcv_3456xx_def osip_ict_timeout_d_event_def ict_retransmit_ack_def
  ist_rcv_invite_def osip_ist_timeout_g_event_def osip_ist_timeout_h_event_def osip_ist_timeout_i_event_def
  ist_snd_1xx_def ist_snd_2xx_def ist_snd_3456xx_def ist_rcv_ack_def
  nict_snd_request_def osip_nict_timeout_e_event_def osip_nict_timeout_f_event_def osip_nict_timeout_k_event_def
  nict_rcv_1xx_def nict_rcv_23456xx_def
  nist_rcv_request_def nist_snd_1xx_def nist_snd_23456xx_def osip_nist_timeout_j_event_def

text \<open>The fields no handler writes: the identity of a transaction, and its queue.\<close>

definition fixed_part where
  "fixed_part tr = (transactionid tr, transactionff tr, topvia tr, tr_from tr, tr_to tr, tr_callid tr, tr_cseq tr,
     ctx_type tr)"

lemma preserves_fixed:
  "preserves fixed_part (ict_snd_invite env evt)" "preserves fixed_part (osip_ict_timeout_a_event env evt)"
  "preserves fixed_part (osip_ict_timeout_b_event env evt)" "preserves fixed_part (ict_rcv_1xx env evt)"
  "preserves fixed_part (ict_rcv_2xx env evt)" "preserves fixed_part (ict_rcv_3456xx env evt)"
  "preserves fixed_part (osip_ict_timeout_d_event env evt)" "preserves fixed_part (ict_retransmit_ack env evt)"
  "preserves fixed_part (ist_rcv_invite env evt)" "preserves fixed_part (osip_ist_timeout_g_event env evt)"
  "preserves fixed_part (osip_ist_timeout_h_event env evt)" "preserves fixed_part (osip_ist_timeout_i_event env evt)"
  "preserves fixed_part (ist_snd_1xx env evt)" "preserves fixed_part (ist_snd_2xx env evt)"
  "preserves fixed_part (ist_snd_3456xx env evt)" "preserves fixed_part (ist_rcv_ack env evt)"
  "preserves fixed_part (nict_snd_request env evt)" "preserves fixed_part (osip_nict_timeout_e_event env evt)"
  "preserves fixed_part (osip_nict_timeout_f_event env evt)" "preserves fixed_part (osip_nict_timeout_k_event env evt)"
  "preserves fixed_part (nict_rcv_1xx env evt)" "preserves fixed_part (nict_rcv_23456xx env evt)"
  "preserves fixed_part (nist_rcv_request env evt)" "preserves fixed_part (nist_snd_1xx env evt)"
  "preserves fixed_part (nist_snd_23456xx env evt)" "preserves fixed_part (osip_nist_timeout_j_event env evt)"
  unfolding all_handlers vocabulary by (intro preserves_intros; simp add: fixed_part_def)+

lemma tables_keep_fixed: "list_all (\<lambda>t. \<forall>env evt. preserves fixed_part (tr_method t env evt)) (small_fsm_of k)"
  by (cases k) (simp_all add: small_fsm_of_def ict_transition_def ist_transition_def nict_transition_def
    nist_transition_def preserves_fixed)

text \<open>An event is executed by the entry of a table, or changes nothing.\<close>

lemma execute_by_entry:
  assumes "osip_transaction_execute env evt tr = Inr (tr', as)"
  obtains (handled) t where "t \<in> set (small_fsm_of (ctx_type tr))" "tr_state t = state tr" "tr_type t = evt_type evt"
      "tr_method t env evt tr = Inr (tr', as)"
  | (ignored) "tr' = tr"
proof (cases "evt_type evt = KILL_TRANSACTION \<or> fsm_findmethod (evt_type evt) (state tr) (small_fsm_of (ctx_type tr)) = None")
  case True
  then have "tr' = tr"
    using assms by (auto simp: osip_transaction_execute_def fsm_callmethod_def findmethod_small osip_message_free_def
        res_simps split: if_splits)
  then show thesis by (rule ignored)
next
  case False
  then obtain t where t: "fsm_findmethod (evt_type evt) (state tr) (small_fsm_of (ctx_type tr)) = Some t" by auto
  then have "t \<in> set (small_fsm_of (ctx_type tr))" "tr_type t = evt_type evt" "tr_state t = state tr"
    unfolding fsm_findmethod_def by (auto simp: find_Some_iff)
  moreover have "tr_method t env evt tr = Inr (tr', as)"
    using assms False by (simp add: osip_transaction_execute_def fsm_callmethod_def findmethod_small t)
  ultimately show thesis using handled by blast
qed

lemma execute_keeps_fixed:
  assumes "osip_transaction_execute env evt tr = Inr (tr', as)"
  shows "fixed_part tr' = fixed_part tr"
  using assms
proof (cases rule: execute_by_entry)
  case (handled t)
  then show ?thesis using tables_keep_fixed [of "ctx_type tr"] preservesD unfolding list_all_iff by metis
qed simp

lemma execute_keeps_queue:
  "osip_transaction_execute env evt tr = Inr (tr', as) \<Longrightarrow> transactionff tr' = transactionff tr"
  by (drule execute_keeps_fixed) (simp add: fixed_part_def)

text \<open>The timers that an INVITE client transaction starts with change only when they run out.\<close>

definition invite_timers :: "transaction \<Rightarrow> (int \<times> timeval \<times> timeval) option" where
  "invite_timers tr = map_option (\<lambda>c. (timer_a_length c, timer_a_start c, timer_b_start c)) (ict_context tr)"

lemma invite_timers_update:
  "ict_context tr = Some c \<Longrightarrow> timer_a_length c' = timer_a_length c \<Longrightarrow> timer_a_start c' = timer_a_start c \<Longrightarrow>
   timer_b_start c' = timer_b_start c \<Longrightarrow> invite_timers (tr\<lparr>ict_context := Some c'\<rparr>) = invite_timers tr"
  by (simp add: invite_timers_def)

lemma ack_destination_timers:
  assumes "ict_ack_destination a c = Inr c'"
  shows "timer_a_length c' = timer_a_length c" "timer_a_start c' = timer_a_start c" "timer_b_start c' = timer_b_start c"
  using assms by (auto simp: ict_ack_destination_def osip_ict_set_destination_def res_simps Let_def
      split: if_splits option.splits prod.splits)

lemma preserves_invite_timers:
  "preserves invite_timers (ict_snd_invite env evt)" "preserves invite_timers (ict_rcv_1xx env evt)"
  "preserves invite_timers (ict_rcv_2xx env evt)" "preserves invite_timers (ict_rcv_3456xx env evt)"
  "preserves invite_timers (osip_ict_timeout_d_event env evt)" "preserves invite_timers (ict_retransmit_ack env evt)"
  unfolding all_handlers vocabulary
  by ((intro preserves_intros; (simp add: invite_timers_def; fail)?),
      (auto intro: invite_timers_update dest: ack_destination_timers; fail)?)+

lemma execute_keeps_invite_timers:
  assumes "osip_transaction_execute env evt tr = Inr (tr', as)" "ctx_type tr = ICT"
    "evt_type evt \<notin> {TIMEOUT_A, TIMEOUT_B}"
  shows "invite_timers tr' = invite_timers tr"
  using assms(1)
proof (cases rule: execute_by_entry)
  case (handled t)
  have "list_all (\<lambda>t. tr_type t \<in> {TIMEOUT_A, TIMEOUT_B} \<or> preserves invite_timers (tr_method t env evt)) ict_transition"
    by (simp add: ict_transition_def preserves_invite_timers)
  then have "preserves invite_timers (tr_method t env evt)"
    using handled(1,3) assms(2,3) by (auto simp: small_fsm_of_def list_all_iff)
  then show ?thesis using handled(4) by (rule preservesD)
qed simp

end
