(* ===== verification/Osip_Dialog.thy ===== *)
theory Osip_Dialog
  imports Osip_Transaction
begin

text \<open>
  Dialogs (libosip2: osip_dialog.c, osip_dialog.h, osip_from.c, osip_call_id.c): creating one at either
  end of a call, updating it, and matching a later message to it.
\<close>

section \<open>State\<close>

datatype osip_dialog_type = CALLER | CALLEE

record dialog =
  dlg_call_id :: "string option"
  local_tag :: "string option"
  remote_tag :: "string option"
  route_set :: "name_addr option list"
  local_cseq :: int
  remote_cseq :: int
  remote_uri :: "name_addr option"
  local_uri :: "name_addr option"
  remote_contact_uri :: "name_addr option"
  secure :: int
  dlg_type :: osip_dialog_type
  dlg_state :: state_t

definition osip_dialog_set_state :: "state_t \<Rightarrow> dialog \<Rightarrow> dialog" where
  "osip_dialog_set_state st d = d\<lparr>dlg_state := st\<rparr>"

section \<open>Headers\<close>

text \<open>\<open>None\<close> is the result -1.\<close>

definition osip_call_id_to_str :: "call_id option \<Rightarrow> string option" where
  "osip_call_id_to_str callid =
     (case callid of None \<Rightarrow> None | Some c \<Rightarrow>
       (case call_id_number c of None \<Rightarrow> None | Some n \<Rightarrow>
         Some (case call_id_host c of None \<Rightarrow> n | Some h \<Rightarrow> n @ ''@'' @ h)))"

definition get_tag :: "name_addr \<Rightarrow> param option" where
  "get_tag x = osip_uri_param_get_byname (gen_params x) ''tag''"

text \<open>The comparison of addresses looks for a parameter whose name begins with \<open>tag\<close>.\<close>

definition compare_tag :: "name_addr \<Rightarrow> string option" where
  "compare_tag x = (case find (\<lambda>u. strncmp0 3 (gname u) ''tag'') (gen_params x) of None \<Rightarrow> None | Some u \<Rightarrow> gvalue u)"

definition differ :: "string option \<Rightarrow> string option \<Rightarrow> bool" where
  "differ a b \<longleftrightarrow> a \<noteq> None \<and> b \<noteq> None \<and> a \<noteq> b"

definition osip_from_compare :: "name_addr option \<Rightarrow> name_addr option \<Rightarrow> int" where
  "osip_from_compare from1 from2 =
     (case (from1, from2) of
        (Some f1, Some f2) \<Rightarrow>
          (case (from_url f1, from_url f2) of
             (Some u1, Some u2) \<Rightarrow>
               if uri_host u1 = None \<and> uri_host u2 = None then
                 if uri_string u1 \<noteq> None \<and> uri_string u1 = uri_string u2 then 0 else - 1
               else if uri_host u1 \<noteq> uri_host u2 then - 1
               else if differ (uri_username u1) (uri_username u2) then - 1
               else if differ (compare_tag f1) (compare_tag f2) then - 1 else 0
           | _ \<Rightarrow> - 1)
      | _ \<Rightarrow> - 1)"

section \<open>Creating a dialog\<close>

text \<open>A list of headers copied; \<open>None\<close> when one of them cannot be.\<close>

fun clone_routes :: "name_addr option list \<Rightarrow> name_addr option list option" where
  "clone_routes [] = Some []"
| "clone_routes (rr # rrs) =
     (case osip_from_clone rr of None \<Rightarrow> None
      | Some r \<Rightarrow> map_option (\<lambda>rs. Some r # rs) (clone_routes rrs))"

text \<open>The remote target: the first contact, or nothing. The inner \<open>None\<close> is a failed copy.\<close>

definition first_contact :: "message \<Rightarrow> name_addr option option" where
  "first_contact m =
     (if msg_contacts m = [] then Some None
      else case osip_from_clone (osip_list_get (msg_contacts m) 0) of None \<Rightarrow> None | Some c \<Rightarrow> Some (Some c))"

text \<open>\<open>osip_atoi\<close> of the number of a CSeq header, which is read without a check.\<close>

definition cseq_value :: "message \<Rightarrow> int res" where
  "cseq_value m = bindR (deref (msg_cseq m)) (\<lambda>s. bindR (deref (cseq_number s)) (\<lambda>n. Inr (osip_atoi n)))"

definition dialog_init ::
    "message option \<Rightarrow> message \<Rightarrow> name_addr option \<Rightarrow> name_addr option \<Rightarrow> message \<Rightarrow> dialog option res" where
  "dialog_init invite response local remote remote_msg =
     (case osip_call_id_to_str (msg_call_id response) of None \<Rightarrow> Inr None | Some cid \<Rightarrow>
      bindR (deref local) (\<lambda>l.
      case get_tag l of None \<Rightarrow> Inr None | Some ltag \<Rightarrow>
      bindR (deref remote) (\<lambda>r.
      case clone_routes (record_routes response) of None \<Rightarrow> Inr None | Some rs \<Rightarrow>
      bindR (cseq_value response) (\<lambda>n.
      case (osip_from_clone remote, osip_from_clone local, first_contact remote_msg) of
        (Some ru, Some lu, Some contact) \<Rightarrow> Inr (Some
          \<lparr>dlg_call_id = Some cid, local_tag = gvalue ltag,
           remote_tag = (case get_tag r of None \<Rightarrow> None | Some t \<Rightarrow> gvalue t),
           route_set = (if invite = None then rev rs else rs), local_cseq = n, remote_cseq = 0,
           remote_uri = Some ru, local_uri = Some lu, remote_contact_uri = contact, secure = - 1,
           dlg_type = CALLER,
           dlg_state = (if MSG_IS_STATUS_2XX response then DIALOG_CONFIRMED else DIALOG_EARLY)\<rparr>)
      | _ \<Rightarrow> Inr None))))"

definition osip_dialog_init_as_uac :: "message \<Rightarrow> dialog option res" where
  "osip_dialog_init_as_uac response =
     bindR (dialog_init None response (msg_from response) (msg_to response) response) (\<lambda>d.
       Inr (map_option (\<lambda>d. d\<lparr>dlg_type := CALLER, remote_cseq := - 1\<rparr>) d))"

definition osip_dialog_init_as_uac_with_remote_request :: "message \<Rightarrow> int \<Rightarrow> dialog option res" where
  "osip_dialog_init_as_uac_with_remote_request next_request lcseq =
     bindR (dialog_init (Some next_request) next_request (msg_to next_request) (msg_from next_request) next_request) (\<lambda>d.
       case d of None \<Rightarrow> Inr None | Some d \<Rightarrow>
         bindR (cseq_value next_request) (\<lambda>n. Inr (Some (d\<lparr>dlg_type := CALLER, dlg_state := DIALOG_CONFIRMED,
           local_cseq := lcseq, remote_cseq := n\<rparr>))))"

definition osip_dialog_init_as_uas :: "message \<Rightarrow> message \<Rightarrow> dialog option res" where
  "osip_dialog_init_as_uas invite response =
     bindR (dialog_init (Some invite) response (msg_to response) (msg_from response) invite) (\<lambda>d.
       case d of None \<Rightarrow> Inr None | Some d \<Rightarrow>
         bindR (cseq_value response) (\<lambda>n. Inr (Some (d\<lparr>dlg_type := CALLEE, remote_cseq := n\<rparr>))))"

section \<open>Updating a dialog\<close>

text \<open>The result code and the dialog; an existing contact is dropped even when the new one cannot be copied.\<close>

definition update_contact :: "message \<Rightarrow> dialog \<Rightarrow> int \<times> dialog" where
  "update_contact m d =
     (if msg_contacts m = [] then (0, d)
      else case osip_from_clone (osip_list_get (msg_contacts m) 0) of
          None \<Rightarrow> (- 1, d\<lparr>remote_contact_uri := None\<rparr>)
        | Some c \<Rightarrow> (0, d\<lparr>remote_contact_uri := Some c\<rparr>))"

definition osip_dialog_update_route_set_as_uas :: "message \<Rightarrow> dialog \<Rightarrow> int \<times> dialog" where
  "osip_dialog_update_route_set_as_uas invite d = update_contact invite d"

definition osip_dialog_update_osip_cseq_as_uas :: "message \<Rightarrow> dialog \<Rightarrow> int \<times> dialog" where
  "osip_dialog_update_osip_cseq_as_uas invite d =
     (case (case msg_cseq invite of None \<Rightarrow> None | Some s \<Rightarrow> cseq_number s) of
        None \<Rightarrow> (- 1, d) | Some n \<Rightarrow> (0, d\<lparr>remote_cseq := osip_atoi n\<rparr>))"

text \<open>Record-Route headers added at the front one by one; a failed copy leaves what was added.\<close>

fun add_routes :: "name_addr option list \<Rightarrow> name_addr option list \<Rightarrow> int \<times> name_addr option list" where
  "add_routes [] rs = (0, rs)"
| "add_routes (rr # rrs) rs = (case osip_from_clone rr of None \<Rightarrow> (- 1, rs) | Some r \<Rightarrow> add_routes rrs (Some r # rs))"

definition osip_dialog_update_route_set_as_uac :: "message \<Rightarrow> dialog \<Rightarrow> int \<times> dialog" where
  "osip_dialog_update_route_set_as_uac response d =
     (let (rc, d) = update_contact response d in
      if rc \<noteq> 0 then (- 1, d)
      else let (rc, d) = (if dlg_state d = DIALOG_EARLY
                          then let (rc, rs) = add_routes (record_routes response) [] in (rc, d\<lparr>route_set := rs\<rparr>)
                          else (0, d)) in
      if rc \<noteq> 0 then (- 1, d)
      else (0, if MSG_IS_STATUS_2XX response then d\<lparr>dlg_state := DIALOG_CONFIRMED\<rparr> else d))"

definition osip_dialog_update_tag_as_uac :: "message \<Rightarrow> dialog \<Rightarrow> int \<times> dialog" where
  "osip_dialog_update_tag_as_uac response d =
     (case msg_to response of None \<Rightarrow> (- 1, d) | Some t \<Rightarrow>
      if remote_tag d \<noteq> None then (- 1, d)
      else (0, d\<lparr>remote_tag := (case get_tag t of None \<Rightarrow> None | Some p \<Rightarrow> gvalue p)\<rparr>))"

section \<open>Matching\<close>

definition zero_if :: "bool \<Rightarrow> int" where
  "zero_if b = (if b then 0 else - 1)"

text \<open>The string comparison of the Call-ID, which both must have.\<close>

definition call_id_matches :: "dialog \<Rightarrow> message \<Rightarrow> bool res" where
  "call_id_matches d m = bindR (deref (dlg_call_id d)) (\<lambda>c. bindR (deref (osip_call_id_to_str (msg_call_id m))) (\<lambda>c'. Inr (c = c')))"

definition osip_dialog_match_as_uac :: "dialog \<Rightarrow> message \<Rightarrow> int res" where
  "osip_dialog_match_as_uac d answer =
     (case (msg_call_id answer, msg_from answer, msg_to answer) of
        (Some _, Some f, Some t) \<Rightarrow>
          bindR (call_id_matches d answer) (\<lambda>same. if \<not> same then Inr (- 1) else
          let by_address = Inr (zero_if (osip_from_compare (local_uri d) (Some f) = 0 \<and> osip_from_compare (remote_uri d) (Some t) = 0))
          in case (get_tag f, local_tag d) of
               (Some p, Some l) \<Rightarrow> bindR (deref (gvalue p)) (\<lambda>v. if v \<noteq> l then Inr (- 1) else
                 case (get_tag t, remote_tag d) of
                   (None, Some _) \<Rightarrow> Inr (- 1)
                 | (_, None) \<Rightarrow> by_address
                 | (Some p, Some r) \<Rightarrow> bindR (deref (gvalue p)) (\<lambda>v. Inr (zero_if (v = r))))
             | _ \<Rightarrow> Inr (- 1))
      | _ \<Rightarrow> Inr (- 1))"

definition osip_dialog_match_as_uas :: "dialog \<Rightarrow> message \<Rightarrow> int res" where
  "osip_dialog_match_as_uas d request =
     (case (msg_call_id request, msg_from request, msg_to request) of
        (Some _, Some f, Some t) \<Rightarrow>
          bindR (call_id_matches d request) (\<lambda>same. if \<not> same then Inr (- 1) else
          let by_address = Inr (zero_if (osip_from_compare (remote_uri d) (Some f) = 0 \<and> osip_from_compare (local_uri d) (Some t) = 0))
          in if local_tag d = None then Inr (- 1)
             else case (get_tag f, remote_tag d) of
               (None, Some _) \<Rightarrow> Inr (- 1)
             | (_, None) \<Rightarrow> by_address
             | (Some p, Some r) \<Rightarrow> bindR (deref (gvalue p)) (\<lambda>v. Inr (zero_if (v = r))))
      | _ \<Rightarrow> Inr (- 1))"

section \<open>The two ends of a call\<close>

lemma zero_if_simps [simp]: "zero_if True = 0" "zero_if False = - 1" "zero_if b = 0 \<longleftrightarrow> b"
  by (simp_all add: zero_if_def)

lemma dialog_init_Some:
  assumes "dialog_init invite response local remote remote_msg = Inr (Some d)"
  obtains l r p rs n where "local = Some l" "remote = Some r" "get_tag l = Some p"
    "clone_routes (record_routes response) = Some rs" "cseq_value response = Inr n"
    "dlg_call_id d = osip_call_id_to_str (msg_call_id response)" "dlg_call_id d \<noteq> None" "local_tag d = gvalue p"
    "remote_tag d = (case get_tag r of None \<Rightarrow> None | Some t \<Rightarrow> gvalue t)"
    "route_set d = (if invite = None then rev rs else rs)" "local_cseq d = n" "remote_uri d = Some r" "local_uri d = Some l"
    "dlg_state d = (if MSG_IS_STATUS_2XX response then DIALOG_CONFIRMED else DIALOG_EARLY)"
proof -
  from assms obtain cid where c: "osip_call_id_to_str (msg_call_id response) = Some cid"
    by (cases "osip_call_id_to_str (msg_call_id response)") (simp_all add: dialog_init_def)
  from assms c obtain l p where l: "local = Some l" "get_tag l = Some p"
    by (cases local; cases "get_tag (the local)") (simp_all add: dialog_init_def)
  from assms c l obtain r rs n where r: "remote = Some r" "clone_routes (record_routes response) = Some rs" "cseq_value response = Inr n"
    by (cases remote; cases "clone_routes (record_routes response)"; cases "cseq_value response") (simp_all add: dialog_init_def)
  from assms c l r obtain ru lu where u: "osip_from_clone (Some r) = Some ru" "osip_from_clone (Some l) = Some lu"
    by (cases "osip_from_clone (Some r)"; cases "osip_from_clone (Some l)") (simp_all add: dialog_init_def)
  have same: "ru = r" "lu = l" using u clone_SomeD(3) by (metis option.inject)+
  show thesis
    by (rule that [OF l(1) r(1) l(2) r(2,3)])
      (use assms c l r u same in \<open>cases "first_contact remote_msg"; auto simp: dialog_init_def\<close>)+
qed

lemma init_as_uac_Some:
  assumes "osip_dialog_init_as_uac r = Inr (Some a)"
  obtains d where "dialog_init None r (msg_from r) (msg_to r) r = Inr (Some d)"
    "a = d\<lparr>dlg_type := CALLER, remote_cseq := - 1\<rparr>"
  using assms by (auto simp: osip_dialog_init_as_uac_def res_simps)

lemma init_as_uas_Some:
  assumes "osip_dialog_init_as_uas i r = Inr (Some b)"
  obtains d n where "dialog_init (Some i) r (msg_to r) (msg_from r) i = Inr (Some d)" "cseq_value r = Inr n"
    "b = d\<lparr>dlg_type := CALLEE, remote_cseq := n\<rparr>"
  using assms by (auto simp: osip_dialog_init_as_uas_def res_simps split: option.splits)

text \<open>
  Claim C18: the two ends of a call that both make a dialog from the same response agree: same Call-ID
  and state, each one's local tag and address are the other's remote ones, the callee expects the
  caller's sequence number, and the caller's route set is the callee's in reverse.
\<close>

theorem dialogs_agree:
  assumes "osip_dialog_init_as_uac r = Inr (Some a)" "osip_dialog_init_as_uas i r = Inr (Some b)"
  shows "dlg_call_id a = dlg_call_id b \<and> dlg_state a = dlg_state b \<and>
    local_tag a = remote_tag b \<and> remote_tag a = local_tag b \<and>
    local_uri a = remote_uri b \<and> remote_uri a = local_uri b \<and>
    route_set a = rev (route_set b) \<and> local_cseq a = remote_cseq b"
proof -
  obtain c where c: "dialog_init None r (msg_from r) (msg_to r) r = Inr (Some c)"
      "a = c\<lparr>dlg_type := CALLER, remote_cseq := - 1\<rparr>"
    by (rule init_as_uac_Some [OF assms(1)])
  obtain d n where d: "dialog_init (Some i) r (msg_to r) (msg_from r) i = Inr (Some d)" "cseq_value r = Inr n"
      "b = d\<lparr>dlg_type := CALLEE, remote_cseq := n\<rparr>"
    by (rule init_as_uas_Some [OF assms(2)])
  show ?thesis
    by (rule dialog_init_Some [OF c(1)]; rule dialog_init_Some [OF d(1)]) (simp add: c(2) d(2,3))
qed

definition sample_answer :: message where
  "sample_answer = (sample_message 200 ''INVITE'')\<lparr>
     msg_from := Some \<lparr>displayname = None, from_url = Some sample_uri, gen_params = [\<lparr>gname = ''tag'', gvalue = Some ''a''\<rparr>]\<rparr>,
     msg_to := Some \<lparr>displayname = None, from_url = Some sample_uri, gen_params = [\<lparr>gname = ''tag'', gvalue = Some ''b''\<rparr>]\<rparr>,
     record_routes := [Some \<lparr>displayname = None, from_url = None, gen_params = []\<rparr>, Some \<lparr>displayname = None, from_url = Some sample_uri, gen_params = []\<rparr>]\<rparr>"

lemma Inr_Some_cases: "(case r of Inr (Some x) \<Rightarrow> True | _ \<Rightarrow> False) \<Longrightarrow> \<exists>x. r = Inr (Some x)"
  by (auto split: sum.splits option.splits)

theorem dialogs_agree_witness:
  "\<exists>a b. osip_dialog_init_as_uac sample_answer = Inr (Some a) \<and>
    osip_dialog_init_as_uas (sample_message 0 ''INVITE'') sample_answer = Inr (Some b) \<and>
    local_tag a = remote_tag b \<and> remote_tag a = local_tag b \<and> route_set a = rev (route_set b)"
proof -
  have "case osip_dialog_init_as_uac sample_answer of Inr (Some x) \<Rightarrow> True | _ \<Rightarrow> False"
    "case osip_dialog_init_as_uas (sample_message 0 ''INVITE'') sample_answer of Inr (Some x) \<Rightarrow> True | _ \<Rightarrow> False"
    by code_simp+
  then obtain a b where "osip_dialog_init_as_uac sample_answer = Inr (Some a)"
      "osip_dialog_init_as_uas (sample_message 0 ''INVITE'') sample_answer = Inr (Some b)"
    using Inr_Some_cases by blast
  with dialogs_agree [of sample_answer a "sample_message 0 ''INVITE''" b] show ?thesis by blast
qed


definition sample_dialog :: dialog where
  "sample_dialog = \<lparr>dlg_call_id = Some ''1'', local_tag = Some ''b'', remote_tag = Some ''a'', route_set = [],
     local_cseq = 1, remote_cseq = 1, remote_uri = None, local_uri = None, remote_contact_uri = None, secure = - 1,
     dlg_type = CALLEE, dlg_state = DIALOG_CONFIRMED\<rparr>"


text \<open>
  Once a dialog is confirmed no response, and no sequence of them, changes its route set or
  its state any more.
\<close>

theorem confirmed_route_set_fixed:
  assumes "dlg_state d = DIALOG_CONFIRMED"
  shows "route_set (foldl (\<lambda>d m. snd (osip_dialog_update_route_set_as_uac m d)) d ms) = route_set d \<and>
    dlg_state (foldl (\<lambda>d m. snd (osip_dialog_update_route_set_as_uac m d)) d ms) = DIALOG_CONFIRMED"
  using assms
proof (induction ms arbitrary: d)
  case (Cons m ms)
  have "route_set (snd (osip_dialog_update_route_set_as_uac m d)) = route_set d \<and>
      dlg_state (snd (osip_dialog_update_route_set_as_uac m d)) = DIALOG_CONFIRMED"
    using Cons.prems by (auto simp: osip_dialog_update_route_set_as_uac_def update_contact_def Let_def split: option.split)
  with Cons.IH show ?case by simp
qed simp

theorem confirmed_route_set_fixed_witness:
  "route_set (foldl (\<lambda>d m. snd (osip_dialog_update_route_set_as_uac m d)) sample_dialog [sample_answer]) = route_set sample_dialog \<and>
   dlg_state (foldl (\<lambda>d m. snd (osip_dialog_update_route_set_as_uac m d)) sample_dialog [sample_answer]) = DIALOG_CONFIRMED"
  by (rule confirmed_route_set_fixed) (simp add: sample_dialog_def)

text \<open>An early dialog takes the route set of a response: its Record-Route headers in reverse.\<close>

lemma add_routes_rev: "clone_routes rrs = Some rs \<Longrightarrow> add_routes rrs acc = (0, rev rs @ acc)"
  by (induction rrs arbitrary: rs acc) (auto dest: clone_SomeD split: option.splits)

lemma early_route_set:
  assumes "dlg_state d = DIALOG_EARLY" "msg_contacts r = []" "clone_routes (record_routes r) = Some rs"
  shows "osip_dialog_update_route_set_as_uac r d =
    (0, d\<lparr>route_set := rev rs, dlg_state := (if MSG_IS_STATUS_2XX r then DIALOG_CONFIRMED else DIALOG_EARLY)\<rparr>)"
  using assms add_routes_rev [OF assms(3), of "[]"]
  by (simp add: osip_dialog_update_route_set_as_uac_def update_contact_def)

end
