(* ===== verification/Osip_Stack.thy ===== *)
theory Osip_Stack
  imports Osip_Frame Osip_Dialog
begin

text \<open>
  The stack (libosip2: osip.c, osip_transaction.c): its four lists of transactions and its list of
  retransmissions, finding and creating transactions, executing their queues, firing their timers and
  computing how long to wait.

  A transaction on a list is named by its position where the source holds a pointer to it.
\<close>

section \<open>State\<close>

record ixt =
  ixt_dialog :: "nat option"
  msg2xx :: "message option"
  ixt_ack :: "message option"
  ixt_start :: timeval
  ixt_interval :: int
  ixt_dest :: "string option"
  ixt_port :: int
  ixt_sock :: int
  ixt_counter :: int

text \<open>\<open>next_transactionid\<close> is the static counter of \<open>osip_transaction_init\<close>.\<close>

record osip =
  osip_ict_transactions :: "transaction list"
  osip_ist_transactions :: "transaction list"
  osip_nict_transactions :: "transaction list"
  osip_nist_transactions :: "transaction list"
  ixt_retransmissions :: "ixt list"
  next_transactionid :: int

definition osip_init :: osip where
  "osip_init = \<lparr>osip_ict_transactions = [], osip_ist_transactions = [], osip_nict_transactions = [],
     osip_nist_transactions = [], ixt_retransmissions = [], next_transactionid = 1\<rparr>"

definition transactions :: "osip_fsm_type \<Rightarrow> osip \<Rightarrow> transaction list" where
  "transactions ty = (case ty of ICT \<Rightarrow> osip_ict_transactions | IST \<Rightarrow> osip_ist_transactions
     | NICT \<Rightarrow> osip_nict_transactions | NIST \<Rightarrow> osip_nist_transactions)"

definition set_transactions :: "osip_fsm_type \<Rightarrow> transaction list \<Rightarrow> osip \<Rightarrow> osip" where
  "set_transactions ty ts osip = (case ty of
       ICT \<Rightarrow> osip\<lparr>osip_ict_transactions := ts\<rparr> | IST \<Rightarrow> osip\<lparr>osip_ist_transactions := ts\<rparr>
     | NICT \<Rightarrow> osip\<lparr>osip_nict_transactions := ts\<rparr> | NIST \<Rightarrow> osip\<lparr>osip_nist_transactions := ts\<rparr>)"

lemma transactions_set [simp]:
  "transactions ty (set_transactions ty' ts osip) = (if ty = ty' then ts else transactions ty osip)"
  by (cases ty; cases ty') (simp_all add: transactions_def set_transactions_def)

lemma set_transactions_rest [simp]:
  "next_transactionid (set_transactions ty ts osip) = next_transactionid osip"
  "ixt_retransmissions (set_transactions ty ts osip) = ixt_retransmissions osip"
  by (cases ty; simp add: set_transactions_def)+

lemma transactions_rest [simp]:
  "transactions ty (osip\<lparr>next_transactionid := n\<rparr>) = transactions ty osip"
  "transactions ty (osip\<lparr>ixt_retransmissions := is\<rparr>) = transactions ty osip"
  by (cases ty; simp add: transactions_def)+

section \<open>Adding, removing and finding\<close>

definition osip_add_transaction :: "transaction \<Rightarrow> osip \<Rightarrow> osip" where
  "osip_add_transaction tr osip = set_transactions (ctx_type tr) (transactions (ctx_type tr) osip @ [tr]) osip"

text \<open>Removal goes by the id; -1 says that it is not there.\<close>

fun remove_id :: "int \<Rightarrow> transaction list \<Rightarrow> int \<times> transaction list" where
  "remove_id i [] = (- 1, [])"
| "remove_id i (tmp # ts) =
     (if transactionid tmp = i then (0, ts) else let (rc, ts') = remove_id i ts in (rc, tmp # ts'))"

definition osip_remove_transaction :: "transaction \<Rightarrow> osip \<Rightarrow> int \<times> osip" where
  "osip_remove_transaction tr osip =
     (let (rc, ts) = remove_id (transactionid tr) (transactions (ctx_type tr) osip)
      in (rc, set_transactions (ctx_type tr) ts osip))"

text \<open>The first transaction a test returns 0 for.\<close>

fun find_zero :: "(transaction \<Rightarrow> int res) \<Rightarrow> transaction list \<Rightarrow> nat option res" where
  "find_zero f [] = Inr None"
| "find_zero f (tr # ts) = bindR (f tr) (\<lambda>i. if i = 0 then Inr (Some 0)
     else bindR (find_zero f ts) (\<lambda>p. Inr (map_option Suc p)))"

definition osip_transaction_find :: "transaction list \<Rightarrow> osip_event \<Rightarrow> nat option res" where
  "osip_transaction_find ts evt =
     (if EVT_IS_INCOMINGREQ evt then
        find_zero (\<lambda>tr. bindR (deref (evt_sip evt)) (matching_request_17_2_3 tr)) ts
      else if EVT_IS_INCOMINGRESP evt then
        find_zero (\<lambda>tr. bindR (deref (evt_sip evt)) (matching_response_17_1_3 tr)) ts
      else find_zero (\<lambda>tr. Inr (if transactionid tr = evt_transactionid evt then 0 else - 1)) ts)"

text \<open>The list an event is looked up in, by the method of its CSeq header.\<close>

definition list_for_event :: "osip_event \<Rightarrow> message \<Rightarrow> string \<Rightarrow> osip_fsm_type" where
  "list_for_event evt sip method =
     (if EVT_IS_INCOMINGMSG evt then
        if MSG_IS_REQUEST sip then if method = ''INVITE'' \<or> method = ''ACK'' then IST else NIST
        else if method = ''INVITE'' then ICT else NICT
      else if \<not> MSG_IS_REQUEST sip then if method = ''INVITE'' then IST else NIST
      else if method = ''INVITE'' \<or> method = ''ACK'' then ICT else NICT)"

text \<open>Where the transaction of an event is; when the event is consumed it is added to its queue.\<close>

definition osip_find_transaction :: "osip \<Rightarrow> osip_event \<Rightarrow> (osip_fsm_type \<times> nat) option res" where
  "osip_find_transaction osip evt =
     (case evt_sip evt of None \<Rightarrow> Inr None | Some sip \<Rightarrow>
      case msg_cseq sip of None \<Rightarrow> Inr None | Some cs \<Rightarrow>
      if \<not> EVT_IS_INCOMINGMSG evt \<and> \<not> EVT_IS_OUTGOINGMSG evt then Inr None
      else bindR (deref (cseq_method cs)) (\<lambda>method.
        let ty = list_for_event evt sip method
        in bindR (osip_transaction_find (transactions ty osip) evt) (\<lambda>p. Inr (map_option (Pair ty) p))))"

definition osip_find_transaction_and_add_event :: "osip \<Rightarrow> osip_event \<Rightarrow> (int \<times> osip) res" where
  "osip_find_transaction_and_add_event osip evt =
     bindR (osip_find_transaction osip evt) (\<lambda>p. Inr (case p of
         None \<Rightarrow> (- 1, osip)
       | Some (ty, n) \<Rightarrow> let ts = transactions ty osip
           in (0, set_transactions ty (ts[n := osip_transaction_add_event evt (ts ! n)]) osip)))"

section \<open>Creating\<close>

text \<open>The result is the new transaction with the event, whose id is set; \<open>None\<close> is a null pointer.\<close>

definition create_for :: "timeval \<Rightarrow> osip \<Rightarrow> osip_event \<Rightarrow> osip_fsm_type \<Rightarrow>
    (osip \<times> (transaction \<times> osip_event) option) res" where
  "create_for now osip evt ty =
     bindR (osip_transaction_init now ty (evt_sip evt) (next_transactionid osip)) (\<lambda>(tr, counter).
       let osip = osip\<lparr>next_transactionid := counter\<rparr>
       in Inr (case tr of None \<Rightarrow> (osip, None)
          | Some tr \<Rightarrow> (osip_add_transaction tr osip, Some (tr, evt\<lparr>evt_transactionid := transactionid tr\<rparr>))))"

definition osip_create_transaction :: "timeval \<Rightarrow> osip \<Rightarrow> osip_event \<Rightarrow>
    (osip \<times> (transaction \<times> osip_event) option) res" where
  "osip_create_transaction now osip evt =
     (case evt_sip evt of None \<Rightarrow> Inr (osip, None) | Some sip \<Rightarrow>
      let method = (case msg_cseq sip of None \<Rightarrow> None | Some cs \<Rightarrow> cseq_method cs) in
      if MSG_IS_REQUEST sip \<and> (method = None \<or> sip_method sip = None) then Inr (osip, None)
      else if MSG_IS_REQUEST sip \<and> method \<noteq> sip_method sip then Inr (osip, None)
      else bindR (msg_is ''ACK'' sip) (\<lambda>ack. if ack then Inr (osip, None)
      else if EVT_IS_INCOMINGREQ evt then
        bindR (deref method) (\<lambda>m. create_for now osip evt (if m = ''INVITE'' then IST else NIST))
      else if EVT_IS_OUTGOINGREQ evt then
        bindR (deref method) (\<lambda>m. create_for now osip evt (if m = ''INVITE'' then ICT else NICT))
      else Inr (osip, None)))"

definition osip_transaction_get_destination :: "transaction \<Rightarrow> int \<times> string option \<times> int" where
  "osip_transaction_get_destination tr =
     (case (ict_context tr, nict_context tr) of
        (Some c, _) \<Rightarrow> (0, ict_destination c, ict_port c)
      | (None, Some c) \<Rightarrow> (0, nict_destination c, nict_port c)
      | (None, None) \<Rightarrow> (- 1, None, 0))"

definition osip_transaction_set_out_socket :: "int \<Rightarrow> transaction \<Rightarrow> transaction" where
  "osip_transaction_set_out_socket sock tr = tr\<lparr>out_socket := sock\<rparr>"

section \<open>Executing\<close>

text \<open>The loop that empties the queue of one transaction; the environments are those of its steps.\<close>

function execute_queue :: "(nat \<Rightarrow> tr_env) \<Rightarrow> tr_op" where
  "execute_queue envs tr =
     (case osip_fifo_tryget (transactionff tr) of
        (None, ff) \<Rightarrow> Inr (tr\<lparr>transactionff := ff\<rparr>, [])
      | (Some se, ff) \<Rightarrow>
          bindR (osip_transaction_execute (envs 0) se (tr\<lparr>transactionff := ff\<rparr>)) (\<lambda>(tr', as).
          bindR (execute_queue (\<lambda>n. envs (Suc n)) tr') (\<lambda>(tr'', bs). Inr (tr'', as @ bs))))"
  by pat_completeness auto

text \<open>An event taken from a queue makes it shorter.\<close>

lemma tryget_shorter: "osip_fifo_tryget ff = (Some x, ff') \<Longrightarrow> length (queue ff') < length (queue ff)"
  "(Some x, ff') = osip_fifo_tryget ff \<Longrightarrow> length (queue ff') < length (queue ff)"
  by (cases "queue ff"; auto simp: osip_fifo_tryget_def Let_def split: if_splits)+

termination execute_queue
  by (relation "measure (\<lambda>(envs, tr). length (queue (transactionff tr)))")
    (auto dest!: execute_keeps_queue dest: tryget_shorter)

declare execute_queue.simps [simp del]

text \<open>One list, and the four of them.\<close>

fun execute_list :: "(int \<Rightarrow> nat \<Rightarrow> tr_env) \<Rightarrow> transaction list \<Rightarrow> (transaction list \<times> tr_action list) res" where
  "execute_list envs [] = Inr ([], [])"
| "execute_list envs (tr # ts) = bindR (execute_queue (envs (transactionid tr)) tr) (\<lambda>(tr', as).
     bindR (execute_list envs ts) (\<lambda>(ts', bs). Inr (tr' # ts', as @ bs)))"

definition osip_execute :: "osip_fsm_type \<Rightarrow> (int \<Rightarrow> nat \<Rightarrow> tr_env) \<Rightarrow> osip \<Rightarrow> (osip \<times> tr_action list) res" where
  "osip_execute ty envs osip =
     bindR (execute_list envs (transactions ty osip)) (\<lambda>(ts, as). Inr (set_transactions ty ts osip, as))"

text \<open>The source has one copy of the loop for each kind.\<close>

definition osip_ict_execute where "osip_ict_execute = osip_execute ICT"
definition osip_ist_execute where "osip_ist_execute = osip_execute IST"
definition osip_nict_execute where "osip_nict_execute = osip_execute NICT"
definition osip_nist_execute where "osip_nist_execute = osip_execute NIST"

text \<open>Freeing a transaction frees the messages of the events still queued, and its own three.\<close>

function free_queue :: "osip_event osip_fifo \<Rightarrow> tr_action list" where
  "free_queue ff =
     (case osip_fifo_tryget ff of
        (None, ff) \<Rightarrow> []
      | (Some evt, ff) \<Rightarrow> map Free (case evt_sip evt of None \<Rightarrow> [] | Some m \<Rightarrow> [m]) @ free_queue ff)"
  by pat_completeness auto

termination free_queue
  by (relation "measure (\<lambda>ff. length (queue ff))") (auto dest: tryget_shorter)

declare free_queue.simps [simp del]

definition osip_transaction_free2 :: "transaction \<Rightarrow> tr_action list" where
  "osip_transaction_free2 tr =
     (let free = (\<lambda>p. map Free (case p of None \<Rightarrow> [] | Some m \<Rightarrow> [m]))
      in free_queue (transactionff tr) @ free (orig_request tr) @ free (last_response tr) @ free (tr_ack tr))"

definition osip_transaction_free :: "transaction \<Rightarrow> osip \<Rightarrow> osip \<times> tr_action list" where
  "osip_transaction_free tr osip = (snd (osip_remove_transaction tr osip), osip_transaction_free2 tr)"

section \<open>Timers\<close>

text \<open>The first timer that is due, in the order the source asks for them.\<close>

fun first_event :: "osip_event option list \<Rightarrow> osip_event option" where
  "first_event [] = None"
| "first_event (None # es) = first_event es"
| "first_event (Some e # es) = Some e"

definition ict_timer_event :: "timeval \<Rightarrow> transaction \<Rightarrow> osip_event option" where
  "ict_timer_event now tr =
     (if 1 \<le> osip_fifo_size (transactionff tr) then None
      else first_event [osip_ict_need_timer_b_event now tr, osip_ict_need_timer_a_event now tr,
                        osip_ict_need_timer_d_event now tr])"

definition ist_timer_event :: "timeval \<Rightarrow> transaction \<Rightarrow> osip_event option" where
  "ist_timer_event now tr =
     first_event [osip_ist_need_timer_i_event now tr, osip_ist_need_timer_h_event now tr,
                  osip_ist_need_timer_g_event now tr]"

definition nict_timer_event :: "timeval \<Rightarrow> transaction \<Rightarrow> osip_event option" where
  "nict_timer_event now tr =
     first_event [osip_nict_need_timer_k_event now tr, osip_nict_need_timer_f_event now tr,
                  osip_nict_need_timer_e_event now tr]"

definition nist_timer_event :: "timeval \<Rightarrow> transaction \<Rightarrow> osip_event option" where
  "nist_timer_event now tr = osip_nist_need_timer_j_event now tr"

definition timer_event :: "osip_fsm_type \<Rightarrow> timeval \<Rightarrow> transaction \<Rightarrow> osip_event option" where
  "timer_event ty = (case ty of ICT \<Rightarrow> ict_timer_event | IST \<Rightarrow> ist_timer_event
     | NICT \<Rightarrow> nict_timer_event | NIST \<Rightarrow> nist_timer_event)"

definition fire_timer :: "osip_fsm_type \<Rightarrow> timeval \<Rightarrow> transaction \<Rightarrow> transaction" where
  "fire_timer ty now tr = (case timer_event ty now tr of None \<Rightarrow> tr
     | Some e \<Rightarrow> tr\<lparr>transactionff := snd (osip_fifo_add (transactionff tr) e)\<rparr>)"

definition osip_timers_execute :: "osip_fsm_type \<Rightarrow> timeval \<Rightarrow> osip \<Rightarrow> osip" where
  "osip_timers_execute ty now osip = set_transactions ty (map (fire_timer ty now) (transactions ty osip)) osip"

definition osip_timers_ict_execute where "osip_timers_ict_execute = osip_timers_execute ICT"
definition osip_timers_ist_execute where "osip_timers_ist_execute = osip_timers_execute IST"
definition osip_timers_nict_execute where "osip_timers_nict_execute = osip_timers_execute NICT"
definition osip_timers_nist_execute where "osip_timers_nist_execute = osip_timers_execute NIST"

text \<open>
  The timers a transaction waits for, which are read through its context, and the earliest over a
  list; \<open>None\<close> is the early return with a wait of 0.
\<close>

definition ict_waits :: "transaction \<Rightarrow> timeval list res" where
  "ict_waits tr =
     (if state tr = ICT_CALLING then bindR (deref (ict_context tr)) (\<lambda>c. Inr [timer_b_start c, timer_a_start c])
      else if state tr = ICT_COMPLETED then bindR (deref (ict_context tr)) (\<lambda>c. Inr [timer_d_start c])
      else Inr [])"

definition ist_waits :: "transaction \<Rightarrow> timeval list res" where
  "ist_waits tr =
     (if state tr = IST_CONFIRMED then bindR (deref (ist_context tr)) (\<lambda>c. Inr [timer_i_start c])
      else if state tr = IST_COMPLETED then bindR (deref (ist_context tr)) (\<lambda>c. Inr [timer_h_start c, timer_g_start c])
      else Inr [])"

definition nict_waits :: "transaction \<Rightarrow> timeval list res" where
  "nict_waits tr =
     (if state tr = NICT_COMPLETED then bindR (deref (nict_context tr)) (\<lambda>c. Inr [timer_k_start c])
      else if state tr = NICT_PROCEEDING \<or> state tr = NICT_TRYING
      then bindR (deref (nict_context tr)) (\<lambda>c. Inr [timer_f_start c, timer_e_start c])
      else Inr [])"

definition nist_waits :: "transaction \<Rightarrow> timeval list res" where
  "nist_waits tr =
     (if state tr = NIST_COMPLETED then bindR (deref (nist_context tr)) (\<lambda>c. Inr [timer_j_start c]) else Inr [])"

fun lower_over :: "timeval \<Rightarrow> ('a \<Rightarrow> bool) \<Rightarrow> ('a \<Rightarrow> timeval list res) \<Rightarrow> 'a list \<Rightarrow> timeval \<Rightarrow> timeval option res" where
  "lower_over now pending waits [] lower = Inr (Some lower)"
| "lower_over now pending waits (x # xs) lower =
     (if pending x then Inr None
      else bindR (waits x) (\<lambda>ts. let lower = foldl min_timercmp lower ts in
        if osip_timercmp_gt now lower then Inr None else lower_over now pending waits xs lower))"

definition thenR :: "timeval option res \<Rightarrow> (timeval \<Rightarrow> timeval option res) \<Rightarrow> timeval option res" where
  "thenR r f = bindR r (\<lambda>l. case l of None \<Rightarrow> Inr None | Some l \<Rightarrow> f l)"

text \<open>What is left at the end, as a wait from now on.\<close>

definition wait_until :: "timeval \<Rightarrow> timeval \<Rightarrow> timeval" where
  "wait_until now lower =
     (let sec = tv_sec lower - tv_sec now; usec = tv_usec lower - tv_usec now;
          (sec, usec) = (if usec < 0 then (sec - 1, usec + 1000000) else (sec, usec));
          (sec, usec) = (if sec < 0 then (0, 0) else (sec, usec));
          (sec, usec) = (if 1000000 < usec then (sec + 1, usec - 1000000) else (sec, usec))
      in \<lparr>tv_sec = sec, tv_usec = usec\<rparr>)"

definition osip_timers_gettimeout :: "timeval \<Rightarrow> osip \<Rightarrow> timeval res" where
  "osip_timers_gettimeout now osip =
     bindR (thenR (lower_over now (\<lambda>tr. 1 \<le> osip_fifo_size (transactionff tr)) ict_waits (osip_ict_transactions osip)
              \<lparr>tv_sec = tv_sec now + 3600 * 24 * 365, tv_usec = tv_usec now\<rparr>) (\<lambda>l.
            thenR (lower_over now (\<lambda>_. False) ist_waits (osip_ist_transactions osip) l) (\<lambda>l.
            thenR (lower_over now (\<lambda>_. False) nict_waits (osip_nict_transactions osip) l) (\<lambda>l.
            thenR (lower_over now (\<lambda>_. False) nist_waits (osip_nist_transactions osip) l) (\<lambda>l.
            lower_over now (\<lambda>_. False) (\<lambda>ixt. Inr [ixt_start ixt]) (ixt_retransmissions osip) l)))))
       (\<lambda>l. Inr (case l of None \<Rightarrow> \<lparr>tv_sec = 0, tv_usec = 0\<rparr> | Some l \<Rightarrow> wait_until now l))"

section \<open>Retransmissions outside transactions\<close>

definition ixt_init :: "timeval \<Rightarrow> ixt" where
  "ixt_init now = \<lparr>ixt_dialog = None, msg2xx = None, ixt_ack = None,
     ixt_start = add_gettimeofday now (DEFAULT_T1 + 10), ixt_interval = DEFAULT_T1, ixt_dest = None,
     ixt_port = 5060, ixt_sock = - 1, ixt_counter = 10\<rparr>"

definition osip_add_ixt :: "ixt \<Rightarrow> osip \<Rightarrow> osip" where
  "osip_add_ixt ixt osip = osip\<lparr>ixt_retransmissions := ixt # ixt_retransmissions osip\<rparr>"

text \<open>The copy of a message, \<open>osip_message_clone\<close>, is an argument: it parses and prints the whole message.\<close>

definition osip_start_200ok_retransmissions ::
    "(message \<Rightarrow> message option) \<Rightarrow> timeval \<Rightarrow> nat option \<Rightarrow> message \<Rightarrow> int \<Rightarrow> osip \<Rightarrow> osip" where
  "osip_start_200ok_retransmissions clone now dialog msg200ok sock osip =
     (let (dest, port) = osip_response_get_destination msg200ok
      in osip_add_ixt ((ixt_init now)\<lparr>ixt_dialog := dialog, msg2xx := clone msg200ok, ixt_sock := sock,
           ixt_dest := dest, ixt_port := port\<rparr>) osip)"

definition osip_start_ack_retransmissions ::
    "(message \<Rightarrow> message option) \<Rightarrow> timeval \<Rightarrow> nat option \<Rightarrow> message \<Rightarrow> string \<Rightarrow> int \<Rightarrow> int \<Rightarrow> osip \<Rightarrow> osip" where
  "osip_start_ack_retransmissions clone now dialog ack dest port sock osip =
     osip_add_ixt ((ixt_init now)\<lparr>ixt_dialog := dialog, ixt_ack := clone ack, ixt_dest := Some dest,
       ixt_port := port, ixt_sock := sock\<rparr>) osip"

definition ixt_retransmit :: "timeval \<Rightarrow> ixt \<Rightarrow> ixt \<times> tr_action list" where
  "ixt_retransmit current ixt =
     (if osip_timercmp_gt current (ixt_start ixt) then
        let interval = (if 4000 < ixt_interval ixt * 2 then 4000 else ixt_interval ixt * 2)
        in (ixt\<lparr>ixt_interval := interval, ixt_start := add_gettimeofday (ixt_start ixt) interval,
              ixt_counter := ixt_counter ixt - 1\<rparr>,
            case (ixt_ack ixt, msg2xx ixt) of
              (Some a, _) \<Rightarrow> [Send (Some a) (ixt_dest ixt) (ixt_port ixt) (ixt_sock ixt)]
            | (None, Some m) \<Rightarrow> [Send (Some m) (ixt_dest ixt) (ixt_port ixt) (ixt_sock ixt)]
            | (None, None) \<Rightarrow> [])
      else (ixt, []))"

definition ixt_free :: "ixt \<Rightarrow> tr_action list" where
  "ixt_free ixt = map Free ((case ixt_ack ixt of None \<Rightarrow> [] | Some m \<Rightarrow> [m]) @
     (case msg2xx ixt of None \<Rightarrow> [] | Some m \<Rightarrow> [m]))"

fun retransmit_list :: "timeval \<Rightarrow> ixt list \<Rightarrow> ixt list \<times> tr_action list" where
  "retransmit_list current [] = ([], [])"
| "retransmit_list current (x # xs) =
     (let (x', as) = ixt_retransmit current x; (xs', bs) = retransmit_list current xs
      in if ixt_counter x' = 0 then (xs', as @ ixt_free x' @ bs) else (x' # xs', as @ bs))"

definition osip_retransmissions_execute :: "timeval \<Rightarrow> osip \<Rightarrow> osip \<times> tr_action list" where
  "osip_retransmissions_execute current osip =
     (let (xs, as) = retransmit_list current (ixt_retransmissions osip)
      in (osip\<lparr>ixt_retransmissions := xs\<rparr>, as))"

definition osip_stop_retransmissions_from_dialog :: "nat option \<Rightarrow> osip \<Rightarrow> osip \<times> tr_action list" where
  "osip_stop_retransmissions_from_dialog dialog osip =
     (let (stopped, kept) = partition (\<lambda>x. ixt_dialog x = dialog) (ixt_retransmissions osip)
      in (osip\<lparr>ixt_retransmissions := kept\<rparr>, concat (map ixt_free stopped)))"

text \<open>The ACK of a 2xx ends its repetition; \<open>dialogs\<close> is the memory the pointers of the list lead to.\<close>

fun stop_matching :: "(nat \<rightharpoonup> dialog) \<Rightarrow> message \<Rightarrow> ixt list \<Rightarrow> (nat option \<times> ixt list \<times> tr_action list) res" where
  "stop_matching dialogs ack [] = Inr (None, [], [])"
| "stop_matching dialogs ack (x # xs) =
     bindR (case ixt_dialog x of None \<Rightarrow> Inr (- 1)
            | Some n \<Rightarrow> bindR (deref (dialogs n)) (\<lambda>d. osip_dialog_match_as_uas d ack)) (\<lambda>i.
       if i = 0 then Inr (ixt_dialog x, xs, ixt_free x)
       else bindR (stop_matching dialogs ack xs) (\<lambda>(d, ys, as). Inr (d, x # ys, as)))"

definition osip_stop_200ok_retransmissions ::
    "(nat \<rightharpoonup> dialog) \<Rightarrow> message \<Rightarrow> osip \<Rightarrow> (nat option \<times> osip \<times> tr_action list) res" where
  "osip_stop_200ok_retransmissions dialogs ack osip =
     bindR (stop_matching dialogs ack (ixt_retransmissions osip)) (\<lambda>(d, xs, as).
       Inr (d, osip\<lparr>ixt_retransmissions := xs\<rparr>, as))"

end
