(* ===== verification/Osip_Stack_Correct.thy ===== *)
theory Osip_Stack_Correct
  imports Osip_Stack
begin

text \<open>
  Correctness of the stack: queues are emptied and all messages accounted for, ids are unique, a
  response finds its transaction, and the stack wakes up in time.
\<close>

section \<open>Emptying a queue\<close>

text \<open>The messages of the events of a queue.\<close>

definition queued :: "osip_event osip_fifo \<Rightarrow> message multiset" where
  "queued ff = (\<Sum>e\<leftarrow>queue ff. opt_mset (evt_sip e))"

lemma tryget_Nil: "fifo_ok ff \<Longrightarrow> queue ff = [] \<Longrightarrow> osip_fifo_tryget ff = (None, ff)"
  by (simp add: osip_fifo_tryget_def fifo_ok_def)

lemma tryget_Cons:
  assumes "fifo_ok ff" "queue ff = e # es"
  obtains ff' where "osip_fifo_tryget ff = (Some e, ff')" "fifo_ok ff'" "queue ff' = es"
  using osip_queue.get [OF assms(1)] assms(2) that [of "snd (osip_fifo_tryget ff)"]
  by (cases "osip_fifo_tryget ff") simp

text \<open>An event that any transaction can be given: it is about a message, or a timer of fixed length.\<close>

definition plain_event :: "osip_event \<Rightarrow> bool" where
  "plain_event evt \<longleftrightarrow>
     (case evt_sip evt of
        None \<Rightarrow> \<not> EVT_IS_MSG evt \<and> evt_type evt \<notin> {TIMEOUT_A, TIMEOUT_G, TIMEOUT_E}
      | Some m \<Rightarrow> (EVT_IS_INCOMINGMSG evt \<and> evt_set_type_incoming_sipmessage m = Inr (evt_type evt)) \<or>
                  (EVT_IS_OUTGOINGMSG evt \<and> evt_set_type_outgoing_sipmessage m = Inr (evt_type evt))) \<and>
     (evt_type evt = SND_REQINVITE \<longrightarrow> request_ok (evt_sip evt))"

lemma plain_event_ok: "plain_event evt \<Longrightarrow> event_ok evt tr"
  unfolding plain_event_def event_ok_def by (cases "evt_sip evt") (auto simp: evt_classes)

lemma transaction_ok_queue [simp]:
  "transaction_ok (tr\<lparr>transactionff := ff\<rparr>) = transaction_ok tr" "owned (tr\<lparr>transactionff := ff\<rparr>) = owned tr"
  by (simp_all add: transaction_ok_def owned_def cong: osip_fsm_type.case_cong)

lemma execute_plain:
  assumes "transaction_ok tr" "plain_event e"
  obtains tr' as where "osip_transaction_execute env e tr = Inr (tr', as)" "transaction_ok tr'"
    "transactionff tr' = transactionff tr" "owned tr' + freed as = owned tr + opt_mset (evt_sip e)"
proof -
  have e: "event_ok e tr" by (rule plain_event_ok [OF assms(2)])
  obtain tr' as where x: "osip_transaction_execute env e tr = Inr (tr', as)"
    using execute_steps [OF assms(1) e, of env] execute_discards [OF assms(1) e, of env] by blast
  from assms(1) e x have "transaction_ok tr'" "owned tr' + freed as = owned tr + opt_mset (evt_sip e)"
    by (cases rule: execute_cases; use assms(1) in \<open>simp add: step_ok_def\<close>)+
  with x execute_keeps_queue [OF x] show thesis using that by blast
qed

lemma execute_queue_empties:
  assumes "fifo_ok (transactionff tr)" "transaction_ok tr" "list_all plain_event (queue (transactionff tr))"
  shows "\<exists>tr' as. execute_queue envs tr = Inr (tr', as) \<and> queue (transactionff tr') = [] \<and>
    fifo_ok (transactionff tr') \<and> transaction_ok tr' \<and> owned tr' + freed as = owned tr + queued (transactionff tr)"
  using assms
proof (induction "queue (transactionff tr)" arbitrary: tr envs)
  case Nil
  then show ?case
    using tryget_Nil [of "transactionff tr"] by (simp add: execute_queue.simps [of envs tr] queued_def)
next
  case (Cons e es)
  obtain ff where ff: "osip_fifo_tryget (transactionff tr) = (Some e, ff)" "fifo_ok ff" "queue ff = es"
    using tryget_Cons [OF Cons.prems(1) Cons.hyps(2) [symmetric]] .
  have ok: "transaction_ok (tr\<lparr>transactionff := ff\<rparr>)" using Cons.prems(2) by simp
  have pe: "plain_event e" "list_all plain_event es" using Cons.prems(3) unfolding Cons.hyps(2) [symmetric] by simp_all
  obtain tr1 as where x: "osip_transaction_execute (envs 0) e (tr\<lparr>transactionff := ff\<rparr>) = Inr (tr1, as)"
      "transaction_ok tr1" "transactionff tr1 = ff" "owned tr1 + freed as = owned tr + opt_mset (evt_sip e)"
    by (rule execute_plain [OF ok pe(1), of "envs 0"]) simp
  have q: "es = queue (transactionff tr1)" "fifo_ok (transactionff tr1)"
      "list_all plain_event (queue (transactionff tr1))"
    using ff x(3) pe(2) by simp_all
  from Cons.hyps(1) [OF q(1,2) x(2) q(3), of "\<lambda>n. envs (Suc n)"] obtain tr2 bs where
    y: "execute_queue (\<lambda>n. envs (Suc n)) tr1 = Inr (tr2, bs)" "queue (transactionff tr2) = []"
      "fifo_ok (transactionff tr2)" "transaction_ok tr2" "owned tr2 + freed bs = owned tr1 + queued (transactionff tr1)"
    by blast
  have "owned tr2 + freed (as @ bs) = (owned tr1 + freed as) + queued ff"
    using y(5) unfolding freed_append x(3) by (metis union_assoc union_commute)
  also have "\<dots> = owned tr + queued (transactionff tr)"
    unfolding x(4) queued_def Cons.hyps(2) [symmetric] ff(3) by simp
  finally show ?case
    using ff(1) x(1) y(1-4) by (simp add: execute_queue.simps [of envs tr])
qed



section \<open>The whole life of a transaction\<close>

lemma free_queue_freed: "fifo_ok ff \<Longrightarrow> freed (free_queue ff) = queued ff"
proof (induction "queue ff" arbitrary: ff)
  case Nil
  then show ?case using tryget_Nil [of ff] by (simp add: free_queue.simps [of ff] queued_def)
next
  case (Cons e es)
  obtain ff' where ff: "osip_fifo_tryget ff = (Some e, ff')" "fifo_ok ff'" "queue ff' = es"
    using tryget_Cons [OF Cons.prems Cons.hyps(2) [symmetric]] .
  have "freed (free_queue ff') = queued ff'" using Cons.hyps(1) [of ff'] ff(2,3) by simp
  then show ?case
    using ff(1,3) Cons.hyps(2) [symmetric]
    by (cases "evt_sip e") (simp_all add: free_queue.simps [of ff] queued_def)
qed

lemma freed_opt [simp]: "freed (map Free (case p of None \<Rightarrow> [] | Some m \<Rightarrow> [m])) = opt_mset p"
  by (cases p) simp_all

text \<open>
  Claim C12: over its whole life a transaction frees exactly the messages it was given, those still
  queued at its end included, each once, and beside them only the ACK it made itself.
\<close>

theorem life_of_a_transaction:
  assumes "osip_transaction_init now ty (Some m) counter = Inr (Some tr0, counter')"
    "tr_run tr0 given as tr" "fifo_ok ff"
  shows "freed (as @ osip_transaction_free2 (tr\<lparr>transactionff := ff\<rparr>)) =
    given + queued ff + (if ty = IST then {#} else opt_mset (tr_ack tr))"
proof -
  note i = transaction_init_facts [OF assms(1)]
  have tr: "transaction_ok tr" "ctx_type tr = ty" "owned tr + freed as = given"
    using tr_run_ok [OF assms(2)] tr_run_owned [OF assms(2)] i by (auto simp: same_identity_def)
  have "freed (osip_transaction_free2 (tr\<lparr>transactionff := ff\<rparr>)) =
      queued ff + (owned tr + (if ty = IST then {#} else opt_mset (tr_ack tr)))"
    using tr(2) free_queue_freed [OF assms(3)] by (simp add: osip_transaction_free2_def owned_def ac_simps)
  then have "freed (as @ osip_transaction_free2 (tr\<lparr>transactionff := ff\<rparr>)) =
      (owned tr + freed as) + queued ff + (if ty = IST then {#} else opt_mset (tr_ack tr))"
    by (simp add: ac_simps)
  then show ?thesis by (simp only: tr(3))
qed

theorem life_of_a_transaction_witness:
  "freed (([] @ [Send (Some (sample_message 0 ''INVITE'')) (Some ''psp'') 5060 0, Transport_error ICT (- 1), Kill_transaction ICT]) @
     osip_transaction_free2 (sample_ict\<lparr>orig_request := Some (sample_message 0 ''INVITE''), state := ICT_TERMINATED,
       transactionff := osip_fifo_init\<rparr>)) = {#sample_message 0 ''INVITE''#}"
  using life_of_a_transaction [OF sample_init sample_run osip_queue.initial [THEN conjunct1]]
  by (simp add: sample_event_def sample_ict_def queued_def osip_fifo_init_def)

section \<open>Identities\<close>

lemma execute_queue_fixed:
  "execute_queue envs tr = Inr (tr', as) \<Longrightarrow> fifo_ok (transactionff tr) \<Longrightarrow>
   transactionid tr' = transactionid tr \<and> ctx_type tr' = ctx_type tr \<and> fifo_ok (transactionff tr')"
proof (induction "queue (transactionff tr)" arbitrary: tr tr' as envs)
  case Nil
  then show ?case
    using tryget_Nil [of "transactionff tr"] by (auto simp: execute_queue.simps [of envs tr])
next
  case (Cons e es)
  obtain ff where ff: "osip_fifo_tryget (transactionff tr) = (Some e, ff)" "fifo_ok ff" "queue ff = es"
    using tryget_Cons [OF Cons.prems(2) Cons.hyps(2) [symmetric]] .
  from Cons.prems(1) ff(1) obtain tr1 as1 bs where
    x: "osip_transaction_execute (envs 0) e (tr\<lparr>transactionff := ff\<rparr>) = Inr (tr1, as1)"
      "execute_queue (\<lambda>n. envs (Suc n)) tr1 = Inr (tr', bs)"
    by (auto simp: execute_queue.simps [of envs tr] res_simps split: prod.splits)
  from execute_keeps_fixed [OF x(1)] have c: "transactionff tr1 = ff" "transactionid tr1 = transactionid tr"
      "ctx_type tr1 = ctx_type tr"
    by (simp_all add: fixed_part_def)
  with Cons.hyps(1) [OF _ x(2)] ff(2,3) show ?case by simp
qed

text \<open>Every operation of the stack.\<close>

inductive stack_reach :: "osip \<Rightarrow> bool" where
  reach_init: "stack_reach osip_init"
| reach_create: "stack_reach osip \<Longrightarrow> osip_create_transaction now osip evt = Inr (osip', r) \<Longrightarrow> stack_reach osip'"
| reach_find: "stack_reach osip \<Longrightarrow> osip_find_transaction_and_add_event osip evt = Inr (rc, osip') \<Longrightarrow> stack_reach osip'"
| reach_add: "stack_reach osip \<Longrightarrow> n < length (transactions ty osip) \<Longrightarrow>
    stack_reach (set_transactions ty
      ((transactions ty osip)[n := osip_transaction_add_event evt (transactions ty osip ! n)]) osip)"
| reach_execute: "stack_reach osip \<Longrightarrow> osip_execute ty envs osip = Inr (osip', as) \<Longrightarrow> stack_reach osip'"
| reach_timers: "stack_reach osip \<Longrightarrow> stack_reach (osip_timers_execute ty now osip)"
| reach_remove: "stack_reach osip \<Longrightarrow> stack_reach (snd (osip_remove_transaction tr osip))"
| reach_ixt: "stack_reach osip \<Longrightarrow> stack_reach (osip_add_ixt ixt osip)"
| reach_retransmit: "stack_reach osip \<Longrightarrow> stack_reach (fst (osip_retransmissions_execute now osip))"
| reach_stop: "stack_reach osip \<Longrightarrow> stack_reach (fst (osip_stop_retransmissions_from_dialog d osip))"

definition ids_of :: "osip_fsm_type \<Rightarrow> osip \<Rightarrow> int list" where
  "ids_of ty osip = map transactionid (transactions ty osip)"

definition member_ok :: "osip_fsm_type \<Rightarrow> osip \<Rightarrow> transaction \<Rightarrow> bool" where
  "member_ok ty osip tr \<longleftrightarrow> ctx_type tr = ty \<and> 1 \<le> transactionid tr \<and> transactionid tr < next_transactionid osip \<and>
     fifo_ok (transactionff tr)"

definition stack_ok :: "osip \<Rightarrow> bool" where
  "stack_ok osip \<longleftrightarrow> 1 \<le> next_transactionid osip \<and>
     (\<forall>ty. distinct (ids_of ty osip) \<and> (\<forall>tr\<in>set (transactions ty osip). member_ok ty osip tr)) \<and>
     (\<forall>ty ty'. ty \<noteq> ty' \<longrightarrow> set (ids_of ty osip) \<inter> set (ids_of ty' osip) = {})"

text \<open>A list replaced by one with no new ids, or with the next one.\<close>

lemma stack_ok_replace:
  assumes "stack_ok osip" "distinct (map transactionid ts)" "set (map transactionid ts) \<subseteq> set (ids_of ty osip)"
    "\<And>tr. tr \<in> set ts \<Longrightarrow> ctx_type tr = ty \<and> fifo_ok (transactionff tr)"
  shows "stack_ok (set_transactions ty ts osip)"
proof -
  have "member_ok ty osip tr" if "tr \<in> set ts" for tr
  proof -
    have "transactionid tr \<in> transactionid ` set (transactions ty osip)"
      using assms(3) that unfolding ids_of_def set_map by blast
    then obtain tr0 where "tr0 \<in> set (transactions ty osip)" "transactionid tr0 = transactionid tr" by auto
    with assms(1,4) that show ?thesis unfolding stack_ok_def member_ok_def by metis
  qed
  then have new: "distinct (ids_of ty' (set_transactions ty ts osip)) \<and>
      (\<forall>tr\<in>set (transactions ty' (set_transactions ty ts osip)). member_ok ty' (set_transactions ty ts osip) tr)" for ty'
    using assms(1,2) by (cases "ty' = ty") (simp_all add: stack_ok_def ids_of_def member_ok_def)
  have sub: "set (ids_of ty' (set_transactions ty ts osip)) \<subseteq> set (ids_of ty' osip)" for ty'
    using assms(3) by (cases "ty' = ty") (simp_all add: ids_of_def)
  have "set (ids_of ty' (set_transactions ty ts osip)) \<inter> set (ids_of ty'' (set_transactions ty ts osip)) = {}"
    if "ty' \<noteq> ty''" for ty' ty''
    using sub [of ty'] sub [of ty''] assms(1) that unfolding stack_ok_def by blast
  with new assms(1) show ?thesis unfolding stack_ok_def by simp
qed

lemma stack_okD:
  assumes "stack_ok osip" "tr \<in> set (transactions ty osip)"
  shows "ctx_type tr = ty" "fifo_ok (transactionff tr)" "transactionid tr < next_transactionid osip"
  using assms unfolding stack_ok_def member_ok_def by blast+

lemma stack_ok_same_ids:
  assumes "stack_ok osip" "map transactionid ts = ids_of ty osip"
    "\<And>tr. tr \<in> set ts \<Longrightarrow> ctx_type tr = ty \<and> fifo_ok (transactionff tr)"
  shows "stack_ok (set_transactions ty ts osip)"
  using assms by (intro stack_ok_replace) (auto simp: stack_ok_def simp del: set_map)

lemma stack_ok_add:
  assumes "stack_ok osip" "transactionid tr = next_transactionid osip" "fifo_ok (transactionff tr)"
  shows "stack_ok (osip_add_transaction tr (osip\<lparr>next_transactionid := next_transactionid osip + 1\<rparr>))"
proof -
  have "next_transactionid osip \<notin> set (ids_of ty osip)" for ty
    using assms(1) unfolding stack_ok_def ids_of_def member_ok_def by fastforce
  then show ?thesis
    using assms unfolding stack_ok_def ids_of_def osip_add_transaction_def
    by (auto simp: member_ok_def) (force, force)
qed

lemma stack_ok_counter:
  "stack_ok osip \<Longrightarrow> next_transactionid osip \<le> n \<Longrightarrow> stack_ok (osip\<lparr>next_transactionid := n\<rparr>)"
  unfolding stack_ok_def ids_of_def by (auto simp: member_ok_def) force

lemma add_event_same:
  assumes "fifo_ok (transactionff tr)"
  shows "transactionid (osip_transaction_add_event evt tr) = transactionid tr \<and>
    ctx_type (osip_transaction_add_event evt tr) = ctx_type tr \<and>
    fifo_ok (transactionff (osip_transaction_add_event evt tr))"
  using osip_queue.put [OF assms] by (simp add: osip_transaction_add_event_def)

lemma stack_ok_add_event:
  assumes "stack_ok osip" "n < length (transactions ty osip)"
  shows "stack_ok (set_transactions ty
    ((transactions ty osip)[n := osip_transaction_add_event evt (transactions ty osip ! n)]) osip)"
proof (rule stack_ok_same_ids [OF assms(1)])
  have m: "transactions ty osip ! n \<in> set (transactions ty osip)" using assms(2) by simp
  note same = add_event_same [OF stack_okD(2) [OF assms(1) m], of evt]
  show "map transactionid ((transactions ty osip)[n := osip_transaction_add_event evt (transactions ty osip ! n)]) =
      ids_of ty osip"
    using assms(2) same by (simp add: ids_of_def map_update list_update_same_conv)
  show "ctx_type tr = ty \<and> fifo_ok (transactionff tr)"
    if "tr \<in> set ((transactions ty osip)[n := osip_transaction_add_event evt (transactions ty osip ! n)])" for tr
    using that set_update_subset_insert same stack_okD(1,2) [OF assms(1)] stack_okD(1) [OF assms(1) m]
    by (metis (no_types, lifting) insert_iff subset_iff)
qed

lemma execute_list_same:
  "execute_list envs ts = Inr (ts', as) \<Longrightarrow> (\<And>tr. tr \<in> set ts \<Longrightarrow> ctx_type tr = ty \<and> fifo_ok (transactionff tr)) \<Longrightarrow>
   map transactionid ts' = map transactionid ts \<and> (\<forall>tr\<in>set ts'. ctx_type tr = ty \<and> fifo_ok (transactionff tr))"
proof (induction ts arbitrary: ts' as)
  case Nil
  then show ?case by simp
next
  case (Cons tr ts)
  from Cons.prems(1) obtain tr' as1 ts1 bs where
    x: "execute_queue (envs (transactionid tr)) tr = Inr (tr', as1)" "execute_list envs ts = Inr (ts1, bs)" "ts' = tr' # ts1"
    by (auto simp: res_simps split: prod.splits)
  from execute_queue_fixed [OF x(1)] Cons.prems(2) [of tr]
  have "transactionid tr' = transactionid tr \<and> ctx_type tr' = ty \<and> fifo_ok (transactionff tr')" by simp
  moreover have "map transactionid ts1 = map transactionid ts \<and> (\<forall>tr\<in>set ts1. ctx_type tr = ty \<and> fifo_ok (transactionff tr))"
    by (rule Cons.IH [OF x(2)]) (simp add: Cons.prems(2))
  ultimately show ?case by (simp add: x(3))
qed

lemma fire_timer_same:
  "fifo_ok (transactionff tr) \<Longrightarrow> transactionid (fire_timer ty now tr) = transactionid tr \<and>
     ctx_type (fire_timer ty now tr) = ctx_type tr \<and> fifo_ok (transactionff (fire_timer ty now tr))"
  using osip_queue.put [of "transactionff tr"] by (auto simp: fire_timer_def split: option.splits)

lemma remove_id_subset: "set (snd (remove_id i ts)) \<subseteq> set ts"
  by (induction ts) (auto simp: Let_def split: prod.splits)

lemma remove_id_distinct:
  "distinct (map transactionid ts) \<Longrightarrow> distinct (map transactionid (snd (remove_id i ts)))"
proof (induction ts)
  case (Cons tr ts)
  have "transactionid ` set (snd (remove_id i ts)) \<subseteq> transactionid ` set ts" using remove_id_subset by blast
  with Cons show ?case by (auto simp: split_def Let_def)
qed simp

lemma init_counter:
  assumes "osip_transaction_init now ty m counter = Inr (tr, counter')"
  shows "counter \<le> counter'"
proof (cases m)
  case None
  then show ?thesis using assms by (simp add: osip_transaction_init_def)
next
  case (Some m)
  have step: "counter \<le> counter'" if "\<exists>c'. add_int counter 1 = Inr c' \<and> counter' = c'"
    using that by (auto simp: res_simps)
  show ?thesis
    using assms Some
    by (auto simp: osip_transaction_init_def res_simps Let_def split: option.splits if_splits osip_fsm_type.splits)
qed

lemma create_for_ok:
  assumes "stack_ok osip" "create_for now osip evt ty = Inr (osip', r)"
  shows "stack_ok osip'"
proof -
  from assms(2) obtain tr counter where i:
    "osip_transaction_init now ty (evt_sip evt) (next_transactionid osip) = Inr (tr, counter)"
    "osip' = (case tr of None \<Rightarrow> osip\<lparr>next_transactionid := counter\<rparr>
       | Some tr \<Rightarrow> osip_add_transaction tr (osip\<lparr>next_transactionid := counter\<rparr>))"
    by (auto simp: create_for_def res_simps Let_def split: option.splits prod.splits)
  show ?thesis
  proof (cases tr)
    case None
    with i init_counter [OF i(1)] show ?thesis using stack_ok_counter [OF assms(1)] by simp
  next
    case (Some tr)
    then obtain m where m: "evt_sip evt = Some m" using i(1) by (cases "evt_sip evt") (auto simp: osip_transaction_init_def)
    have f: "transactionid tr = next_transactionid osip" "counter = next_transactionid osip + 1"
        "transactionff tr = osip_fifo_init"
      using transaction_init_facts [OF i(1) [unfolded m Some]] by simp_all
    moreover have "fifo_ok (transactionff tr)" unfolding f(3) using osip_queue.initial by blast
    ultimately show ?thesis using stack_ok_add [OF assms(1), of tr] i(2) Some by simp
  qed
qed

lemma create_transaction_ok:
  assumes "stack_ok osip" "osip_create_transaction now osip evt = Inr (osip', r)"
  shows "stack_ok osip'"
proof -
  have "osip' = osip \<or> (\<exists>ty. create_for now osip evt ty = Inr (osip', r))"
    using assms(2) by (auto simp: osip_create_transaction_def res_simps Let_def split: option.splits if_splits)
  then show ?thesis using assms(1) create_for_ok by blast
qed

lemma find_zero_bound: "find_zero f ts = Inr (Some n) \<Longrightarrow> n < length ts"
  by (induction ts arbitrary: n) (auto simp: res_simps split: if_splits)

lemma find_and_add_ok:
  assumes "stack_ok osip" "osip_find_transaction_and_add_event osip evt = Inr (rc, osip')"
  shows "stack_ok osip'"
proof -
  from assms(2) obtain p where p: "osip_find_transaction osip evt = Inr p"
    "osip' = (case p of None \<Rightarrow> osip | Some (ty, n) \<Rightarrow> set_transactions ty
       ((transactions ty osip)[n := osip_transaction_add_event evt (transactions ty osip ! n)]) osip)"
    by (auto simp: osip_find_transaction_and_add_event_def res_simps Let_def split: option.splits prod.splits)
  have "n < length (transactions ty osip)" if "p = Some (ty, n)" for ty n
    using p(1) that find_zero_bound
    by (auto simp: osip_find_transaction_def osip_transaction_find_def res_simps Let_def split: option.splits if_splits)
  with p(2) assms(1) stack_ok_add_event show ?thesis by (auto split: option.splits)
qed

lemma stack_ok_ixt [simp]: "stack_ok (osip\<lparr>ixt_retransmissions := is\<rparr>) = stack_ok osip"
  by (simp add: stack_ok_def ids_of_def member_ok_def)

lemma stack_reach_ok: "stack_reach osip \<Longrightarrow> stack_ok osip"
proof (induction rule: stack_reach.induct)
  case reach_init
  have "transactions ty osip_init = []" for ty by (cases ty) (simp_all add: transactions_def osip_init_def)
  then show ?case by (simp add: stack_ok_def ids_of_def osip_init_def)
next
  case (reach_create osip now evt osip' r)
  then show ?case using create_transaction_ok by blast
next
  case (reach_find osip evt rc osip')
  then show ?case using find_and_add_ok by blast
next
  case (reach_add osip n ty evt)
  then show ?case using stack_ok_add_event by blast
next
  case (reach_execute osip ty envs osip' as)
  then obtain ts bs where x: "execute_list envs (transactions ty osip) = Inr (ts, bs)" "osip' = set_transactions ty ts osip"
    by (auto simp: osip_execute_def res_simps)
  have "map transactionid ts = map transactionid (transactions ty osip) \<and>
      (\<forall>tr\<in>set ts. ctx_type tr = ty \<and> fifo_ok (transactionff tr))"
    by (rule execute_list_same [OF x(1)]) (use stack_okD [OF reach_execute.IH] in blast)
  then show ?case unfolding x(2) using stack_ok_same_ids [OF reach_execute.IH] by (simp add: ids_of_def)
next
  case (reach_timers osip ty now)
  have same: "transactionid (fire_timer ty now tr) = transactionid tr \<and> ctx_type (fire_timer ty now tr) = ty \<and>
      fifo_ok (transactionff (fire_timer ty now tr))" if "tr \<in> set (transactions ty osip)" for tr
    using fire_timer_same stack_okD [OF reach_timers.IH that] by metis
  show ?case unfolding osip_timers_execute_def
    by (rule stack_ok_same_ids [OF reach_timers.IH]) (use same in \<open>auto simp: ids_of_def\<close>)
next
  case (reach_remove osip tr)
  let ?ts = "snd (remove_id (transactionid tr) (transactions (ctx_type tr) osip))"
  have "stack_ok (set_transactions (ctx_type tr) ?ts osip)"
  proof (rule stack_ok_replace [OF reach_remove.IH])
    show "distinct (map transactionid ?ts)"
      using reach_remove.IH by (intro remove_id_distinct) (simp add: stack_ok_def ids_of_def)
    show "set (map transactionid ?ts) \<subseteq> set (ids_of (ctx_type tr) osip)"
      using remove_id_subset unfolding ids_of_def set_map by blast
    show "ctx_type t = ctx_type tr \<and> fifo_ok (transactionff t)" if "t \<in> set ?ts" for t
      using that remove_id_subset stack_okD [OF reach_remove.IH] by blast
  qed
  then show ?case by (simp add: osip_remove_transaction_def split_def Let_def)
next
  case (reach_ixt osip ixt)
  then show ?case by (simp add: osip_add_ixt_def)
next
  case (reach_retransmit osip now)
  then show ?case by (simp add: osip_retransmissions_execute_def split_def Let_def)
next
  case (reach_stop osip d)
  then show ?case by (simp add: osip_stop_retransmissions_from_dialog_def split_def Let_def)
qed

text \<open>
  Claim C8: in every state the stack can get into, the ids of its transactions are positive, pairwise
  different and below the next one, each transaction is on the list of its kind, and no queue holds
  more than 1000 events.
\<close>

theorem stack_invariant:
  assumes "stack_reach osip"
  shows "stack_ok osip"
  using assms by (rule stack_reach_ok)

theorem stack_invariant_witness:
  "stack_ok (osip_init\<lparr>osip_ict_transactions := [sample_ict], next_transactionid := 2\<rparr>)"
proof (rule stack_invariant)
  have "osip_create_transaction sample_start osip_init (sample_event SND_REQINVITE (sample_message 0 ''INVITE'')) =
    Inr (osip_init\<lparr>osip_ict_transactions := [sample_ict], next_transactionid := 2\<rparr>,
      Some (sample_ict, sample_event SND_REQINVITE (sample_message 0 ''INVITE'')))"
    by code_simp
  with reach_init show "stack_reach (osip_init\<lparr>osip_ict_transactions := [sample_ict], next_transactionid := 2\<rparr>)"
    by (rule reach_create)
qed

end
