(* ===== verification/Osip_Matching.thy ===== *)
theory Osip_Matching
  imports Osip_Stack_Correct
begin

text \<open>
  Which transaction a message from the network belongs to: the rules of RFC 3261 17.1.3 and 17.2.3,
  and when the comparison itself is undefined.
\<close>

section \<open>Responses\<close>

text \<open>The branch of a Via and the method of a CSeq header, where they are there.\<close>

definition branch_of :: "via option \<Rightarrow> string option" where
  "branch_of v = (case v of None \<Rightarrow> None | Some v \<Rightarrow> (case via_branch v of None \<Rightarrow> None | Some p \<Rightarrow> gvalue p))"

definition method_of :: "cseq option \<Rightarrow> string option" where
  "method_of s = (case s of None \<Rightarrow> None | Some s \<Rightarrow> cseq_method s)"

definition top_via :: "message \<Rightarrow> via option" where
  "top_via m = osip_list_get (vias m) 0"

definition client_ok :: "transaction \<Rightarrow> bool" where
  "client_ok tr \<longleftrightarrow> (ict_context tr \<noteq> None \<or> nict_context tr \<noteq> None) \<and> branch_of (topvia tr) \<noteq> None \<and>
     method_of (tr_cseq tr) \<noteq> None"

text \<open>A branch parameter without a value.\<close>

definition empty_branch :: "message \<Rightarrow> bool" where
  "empty_branch m \<longleftrightarrow> (case top_via m of None \<Rightarrow> False | Some v \<Rightarrow>
     (case via_branch v of None \<Rightarrow> False | Some p \<Rightarrow> gvalue p = None))"

text \<open>The rule of 17.1.3: same branch, same method.\<close>

definition response_for :: "message \<Rightarrow> transaction \<Rightarrow> bool" where
  "response_for r tr \<longleftrightarrow> branch_of (topvia tr) = branch_of (top_via r) \<and> method_of (tr_cseq tr) = method_of (msg_cseq r)"

lemma matching_response:
  assumes "client_ok tr" "\<not> empty_branch r"
  shows "matching_response_17_1_3 tr r = Inr (if response_for r tr then 0 else - 1)"
proof -
  from assms(1) obtain v p b s m where tr: "topvia tr = Some v" "via_branch v = Some p" "gvalue p = Some b"
      "tr_cseq tr = Some s" "cseq_method s = Some m"
    by (auto simp: client_ok_def branch_of_def method_of_def split: option.splits)
  have c: "\<not> (ict_context tr = None \<and> nict_context tr = None)" using assms(1) by (simp add: client_ok_def)
  show ?thesis
  proof (cases "method_of (msg_cseq r) = None \<or> branch_of (top_via r) = None")
    case True
    with assms(2) tr c show ?thesis
      by (auto simp: matching_response_17_1_3_def response_for_def method_of_def branch_of_def top_via_def
        empty_branch_def split: option.splits)
  next
    case False
    then obtain v' p' b' m' where "top_via r = Some v'" "via_branch v' = Some p'" "gvalue p' = Some b'"
        "method_of (msg_cseq r) = Some m'"
      by (auto simp: branch_of_def split: option.splits)
    with tr c show ?thesis
      by (auto simp: matching_response_17_1_3_def response_for_def method_of_def branch_of_def top_via_def)
  qed
qed

text \<open>
  A response whose top Via has a branch parameter without a value crashes the stack as soon
  as it is compared with any client transaction: the source compares the missing value as a string.
  Without such a parameter the comparison is always defined.
\<close>

theorem empty_branch_faults:
  assumes "client_ok tr" "method_of (msg_cseq r) \<noteq> None"
  shows "matching_response_17_1_3 tr r = Inl Null_pointer \<longleftrightarrow> empty_branch r"
proof (cases "empty_branch r")
  case True
  then obtain v' p' where r: "top_via r = Some v'" "via_branch v' = Some p'" "gvalue p' = None"
    by (auto simp: empty_branch_def split: option.splits)
  from assms obtain v p b m' where "topvia tr = Some v" "via_branch v = Some p" "gvalue p = Some b"
      "method_of (msg_cseq r) = Some m'"
    by (auto simp: client_ok_def branch_of_def split: option.splits)
  with r assms(1) True show ?thesis
    by (auto simp: matching_response_17_1_3_def client_ok_def method_of_def top_via_def)
next
  case False
  with matching_response [OF assms(1) False] show ?thesis by simp
qed

theorem empty_branch_faults_witness:
  "matching_response_17_1_3 sample_ict ((sample_message 180 ''INVITE'')\<lparr>vias :=
      [Some ((sample_via [])\<lparr>via_params := [\<lparr>gname = ''branch'', gvalue = None\<rparr>]\<rparr>)]\<rparr>) = Inl Null_pointer"
proof -
  let ?r = "(sample_message 180 ''INVITE'')\<lparr>vias :=
      [Some ((sample_via [])\<lparr>via_params := [\<lparr>gname = ''branch'', gvalue = None\<rparr>]\<rparr>)]\<rparr>"
  have "client_ok sample_ict" "method_of (msg_cseq ?r) \<noteq> None" "empty_branch ?r" by code_simp+
  with empty_branch_faults [of sample_ict ?r] show ?thesis by simp
qed

section \<open>Delivering a response\<close>

text \<open>The first position that satisfies a predicate.\<close>

fun first_index :: "('a \<Rightarrow> bool) \<Rightarrow> 'a list \<Rightarrow> nat option" where
  "first_index P [] = None"
| "first_index P (x # xs) = (if P x then Some 0 else map_option Suc (first_index P xs))"

lemma first_index_eqI:
  "n < length xs \<Longrightarrow> P (xs ! n) \<Longrightarrow> (\<And>i. i < n \<Longrightarrow> \<not> P (xs ! i)) \<Longrightarrow> first_index P xs = Some n"
proof (induction xs arbitrary: n)
  case (Cons x xs)
  show ?case
  proof (cases n)
    case 0
    with Cons.prems show ?thesis by simp
  next
    case (Suc k)
    have "\<not> P x" using Cons.prems(3) [of 0] Suc by simp
    moreover have "first_index P xs = Some k"
    proof (rule Cons.IH)
      show "\<not> P (xs ! i)" if "i < k" for i using Cons.prems(3) [of "Suc i"] that Suc by simp
    qed (use Cons.prems Suc in simp_all)
    ultimately show ?thesis using Suc by simp
  qed
qed simp

lemma find_zero_first: "(\<And>tr. tr \<in> set ts \<Longrightarrow> f tr = Inr (if P tr then 0 else - 1)) \<Longrightarrow>
   find_zero f ts = Inr (first_index P ts)"
  by (induction ts) simp_all

text \<open>
  Claim C13: a response is put at the end of the queue of the first client transaction of its kind
  with the branch of its top Via and the method of its CSeq header; every other transaction is left
  as it was.
\<close>

theorem response_delivered:
  assumes "EVT_IS_INCOMINGRESP evt" "evt_sip evt = Some r" "\<not> MSG_IS_REQUEST r" "\<not> empty_branch r"
    "msg_cseq r = Some s" "cseq_method s = Some method" "ty = (if method = ''INVITE'' then ICT else NICT)"
    "list_all client_ok (transactions ty osip)" "n < length (transactions ty osip)"
    "response_for r (transactions ty osip ! n)" "\<forall>i<n. \<not> response_for r (transactions ty osip ! i)"
  shows "osip_find_transaction_and_add_event osip evt = Inr (0, set_transactions ty
    ((transactions ty osip)[n := osip_transaction_add_event evt (transactions ty osip ! n)]) osip)"
proof -
  have c: "EVT_IS_INCOMINGMSG evt" "\<not> EVT_IS_INCOMINGREQ evt"
    using assms(1) by (auto simp: evt_classes)
  have "find_zero (\<lambda>tr. bindR (deref (evt_sip evt)) (matching_response_17_1_3 tr)) (transactions ty osip) =
      Inr (first_index (response_for r) (transactions ty osip))"
    using assms(8) matching_response [OF _ assms(4)] by (intro find_zero_first) (simp add: assms(2) list_all_iff)
  also have "first_index (response_for r) (transactions ty osip) = Some n"
    using assms(9-11) by (intro first_index_eqI) auto
  finally have "osip_transaction_find (transactions ty osip) evt = Inr (Some n)"
    using c(2) assms(1) by (simp add: osip_transaction_find_def)
  moreover have "list_for_event evt r method = ty"
    using c(1) assms(3,7) by (simp add: list_for_event_def)
  ultimately show ?thesis
    using c(1) assms(2,5,6) by (simp add: osip_find_transaction_and_add_event_def osip_find_transaction_def Let_def)
qed

theorem response_delivered_witness:
  "osip_find_transaction_and_add_event (osip_init\<lparr>osip_ict_transactions := [sample_ict]\<rparr>)
     (sample_event RCV_STATUS_1XX (sample_message 180 ''INVITE'')) =
   Inr (0, set_transactions ICT [osip_transaction_add_event (sample_event RCV_STATUS_1XX (sample_message 180 ''INVITE'')) sample_ict]
     (osip_init\<lparr>osip_ict_transactions := [sample_ict]\<rparr>))"
proof -
  have "EVT_IS_INCOMINGRESP (sample_event RCV_STATUS_1XX (sample_message 180 ''INVITE''))"
      "\<not> MSG_IS_REQUEST (sample_message 180 ''INVITE'')" "\<not> empty_branch (sample_message 180 ''INVITE'')"
      "client_ok sample_ict" "response_for (sample_message 180 ''INVITE'') sample_ict"
    by code_simp+
  then show ?thesis
    using response_delivered [of "sample_event RCV_STATUS_1XX (sample_message 180 ''INVITE'')" "sample_message 180 ''INVITE''"
      "\<lparr>cseq_number = Some ''1'', cseq_method = Some ''INVITE''\<rparr>" "''INVITE''" ICT
      "osip_init\<lparr>osip_ict_transactions := [sample_ict]\<rparr>" 0]
    by (simp add: transactions_def sample_event_def sample_message_def)
qed

section \<open>Requests\<close>

definition server_ok :: "transaction \<Rightarrow> bool" where
  "server_ok tr \<longleftrightarrow> (ist_context tr \<noteq> None \<or> nist_context tr \<noteq> None) \<and> branch_of (topvia tr) \<noteq> None \<and>
     method_of (tr_cseq tr) \<noteq> None"

definition compliant :: "string option \<Rightarrow> bool" where
  "compliant b \<longleftrightarrow> (case b of None \<Rightarrow> False | Some v \<Rightarrow> strncmp0 7 v MAGIC)"

text \<open>The same sender: the same host, and the same port where a missing one is the default.\<close>

definition same_sender :: "via \<Rightarrow> via \<Rightarrow> bool" where
  "same_sender v v' \<longleftrightarrow> via_host v \<noteq> None \<and> via_host v = via_host v' \<and>
     case_option ''5060'' id (via_port v) = case_option ''5060'' id (via_port v')"

lemma sent_by_same_sender: "sent_by_match v v' \<longleftrightarrow> same_sender v v'"
  by (auto simp: sent_by_match_def same_sender_def split: option.splits)

text \<open>The rule of 17.2.3: same branch, same sender, same method, but for the ACK of an INVITE.\<close>

definition request_for :: "message \<Rightarrow> transaction \<Rightarrow> bool" where
  "request_for m tr \<longleftrightarrow> branch_of (topvia tr) = branch_of (top_via m) \<and>
     (case (topvia tr, top_via m) of (Some v, Some v') \<Rightarrow> same_sender v v' | _ \<Rightarrow> False) \<and>
     (method_of (tr_cseq tr) = method_of (msg_cseq m) \<or>
      method_of (tr_cseq tr) = Some ''INVITE'' \<and> method_of (msg_cseq m) = Some ''ACK'')"

text \<open>
  Claim C14: between requests with the branches of RFC 3261 a server transaction takes exactly the
  retransmissions of its request and, if that is an INVITE, its ACK.
\<close>

theorem matching_request_compliant:
  assumes "server_ok tr" "compliant (branch_of (topvia tr))" "compliant (branch_of (top_via m))"
    "method_of (msg_cseq m) \<noteq> None"
  shows "matching_request_17_2_3 tr m = Inr (if request_for m tr then 0 else - 1)"
proof -
  from assms(1) obtain v p b s me where tr: "topvia tr = Some v" "via_branch v = Some p" "gvalue p = Some b"
      "tr_cseq tr = Some s" "cseq_method s = Some me"
    by (auto simp: server_ok_def branch_of_def method_of_def split: option.splits)
  from assms(3) obtain v' p' b' where m: "top_via m = Some v'" "via_branch v' = Some p'" "gvalue p' = Some b'"
    by (auto simp: compliant_def branch_of_def split: option.splits)
  from assms(4) obtain s' me' where s: "msg_cseq m = Some s'" "cseq_method s' = Some me'"
    by (auto simp: method_of_def split: option.splits)
  have magic: "strncmp0 7 b MAGIC" "strncmp0 7 b' MAGIC"
    using assms(2,3) tr(1-3) m by (simp_all add: compliant_def branch_of_def)
  have c: "\<not> (ist_context tr = None \<and> nist_context tr = None)" using assms(1) by (simp add: server_ok_def)
  show ?thesis
    using tr m s magic c
    by (auto simp: matching_request_17_2_3_def request_for_def branch_of_def method_of_def top_via_def
        sent_by_same_sender)
qed

theorem matching_request_compliant_witness:
  "matching_request_17_2_3 (sample_ict\<lparr>ctx_type := IST, ict_context := None,
     ist_context := osip_ist_init (sample_message 0 ''INVITE'')\<rparr>) (sample_message 0 ''ACK'') = Inr 0"
proof -
  let ?tr = "sample_ict\<lparr>ctx_type := IST, ict_context := None, ist_context := osip_ist_init (sample_message 0 ''INVITE'')\<rparr>"
  have "server_ok ?tr" "compliant (branch_of (topvia ?tr))" "compliant (branch_of (top_via (sample_message 0 ''ACK'')))"
      "method_of (msg_cseq (sample_message 0 ''ACK'')) \<noteq> None" "request_for (sample_message 0 ''ACK'') ?tr"
    by code_simp+
  with matching_request_compliant [of ?tr "sample_message 0 ''ACK''"] show ?thesis by simp
qed

end
