(* ===== verification/Osip_Timing.thy ===== *)
theory Osip_Timing
  imports Osip_Stack_Correct
begin

text \<open>
  The timers of the stack: the wait it computes never sleeps through one, an unanswered invitation is
  repeated a bounded number of times and then given up, and a retransmission outside transactions ends.
\<close>

section \<open>Time in microseconds\<close>

definition us :: "timeval \<Rightarrow> int" where
  "us tv = tv_sec tv * 1000000 + tv_usec tv"

definition tv_ok :: "timeval \<Rightarrow> bool" where
  "tv_ok tv \<longleftrightarrow> 0 \<le> tv_sec tv \<and> 0 \<le> tv_usec tv \<and> tv_usec tv < 1000000"

lemma gt_us: "tv_ok a \<Longrightarrow> tv_ok b \<Longrightarrow> osip_timercmp_gt a b \<longleftrightarrow> us b < us a"
  unfolding tv_ok_def osip_timercmp_gt_def us_def by auto

lemma add_us:
  assumes "tv_ok tv" "0 \<le> ms" "ms < 1000000"
  shows "us (add_gettimeofday tv ms) = us tv + ms * 1000" "tv_ok (add_gettimeofday tv ms)"
proof -
  let ?u = "tv_usec tv + ms * 1000"
  have u: "0 \<le> ?u" using assms by (simp add: tv_ok_def)
  have d: "c_div ?u 1000000 = ?u div 1000000" "c_mod ?u 1000000 = ?u mod 1000000"
    using u by (simp_all add: c_div_nonneg c_mod_nonneg)
  show "us (add_gettimeofday tv ms) = us tv + ms * 1000"
    using assms d by (simp add: add_gettimeofday_def us_def Let_def algebra_simps)
  show "tv_ok (add_gettimeofday tv ms)"
    using assms d u by (simp add: add_gettimeofday_def tv_ok_def Let_def pos_imp_zdiv_nonneg_iff)
qed

text \<open>A timer is stopped or stands at a proper time.\<close>

definition running :: "timeval \<Rightarrow> bool" where
  "running t \<longleftrightarrow> tv_sec t \<noteq> - 1"

section \<open>The wait\<close>

definition waits :: "osip_fsm_type \<Rightarrow> transaction \<Rightarrow> timeval list res" where
  "waits ty = (case ty of ICT \<Rightarrow> ict_waits | IST \<Rightarrow> ist_waits | NICT \<Rightarrow> nict_waits | NIST \<Rightarrow> nist_waits)"

lemma min_us:
  assumes "tv_ok a" "running b \<longrightarrow> tv_ok b"
  shows "tv_ok (min_timercmp a b)" "us (min_timercmp a b) \<le> us a" "running b \<Longrightarrow> us (min_timercmp a b) \<le> us b"
  using assms gt_us [of a b] by (auto simp: min_timercmp_def running_def)

lemma foldl_min_us:
  assumes "tv_ok a" "\<forall>t\<in>set ts. running t \<longrightarrow> tv_ok t"
  shows "tv_ok (foldl min_timercmp a ts) \<and> us (foldl min_timercmp a ts) \<le> us a \<and>
    (\<forall>t\<in>set ts. running t \<longrightarrow> us (foldl min_timercmp a ts) \<le> us t)"
  using assms
proof (induction ts arbitrary: a)
  case (Cons t ts)
  have m: "tv_ok (min_timercmp a t)" "us (min_timercmp a t) \<le> us a" "running t \<Longrightarrow> us (min_timercmp a t) \<le> us t"
    using min_us [of a t] Cons.prems by simp_all
  from Cons.IH [OF m(1)] Cons.prems(2) m(2,3) show ?case by fastforce
qed simp

text \<open>Elements whose timers stand at proper times.\<close>

definition timers_ok :: "('a \<Rightarrow> timeval list res) \<Rightarrow> 'a list \<Rightarrow> bool" where
  "timers_ok w xs \<longleftrightarrow> (\<forall>x\<in>set xs. case w x of Inl e \<Rightarrow> True | Inr ts \<Rightarrow> \<forall>t\<in>set ts. running t \<longrightarrow> tv_ok t)"

lemma lower_over_sound:
  assumes "tv_ok now" "lower_over now pending w xs l = Inr (Some l')" "tv_ok l" "us now \<le> us l" "timers_ok w xs"
  shows "tv_ok l' \<and> us now \<le> us l' \<and> us l' \<le> us l \<and>
    (\<forall>x\<in>set xs. \<not> pending x \<and> (\<exists>ts. w x = Inr ts \<and> (\<forall>t\<in>set ts. running t \<longrightarrow> us l' \<le> us t)))"
  using assms(2-5)
proof (induction xs arbitrary: l)
  case (Cons x xs)
  then obtain ts where ts: "\<not> pending x" "w x = Inr ts" "\<not> osip_timercmp_gt now (foldl min_timercmp l ts)"
      "lower_over now pending w xs (foldl min_timercmp l ts) = Inr (Some l')"
    by (auto simp: res_simps Let_def split: if_splits)
  let ?m = "foldl min_timercmp l ts"
  have m: "tv_ok ?m" "us ?m \<le> us l" "\<forall>t\<in>set ts. running t \<longrightarrow> us ?m \<le> us t"
    using foldl_min_us [of l ts] Cons.prems(2,4) ts(2) by (auto simp: timers_ok_def)
  have "us now \<le> us ?m" using ts(3) gt_us [OF assms(1) m(1)] by simp
  with Cons.IH [OF ts(4) m(1)] Cons.prems(4)
  have "tv_ok l' \<and> us now \<le> us l' \<and> us l' \<le> us ?m \<and>
      (\<forall>x\<in>set xs. \<not> pending x \<and> (\<exists>ts. w x = Inr ts \<and> (\<forall>t\<in>set ts. running t \<longrightarrow> us l' \<le> us t)))"
    by (simp add: timers_ok_def)
  with m ts(1,2) show ?case by fastforce
qed simp

lemma wait_until_us:
  assumes "tv_ok now" "tv_ok l" "us now \<le> us l"
  shows "us (wait_until now l) = us l - us now"
  using assms unfolding tv_ok_def us_def wait_until_def Let_def by (auto split: prod.splits if_splits)

definition stack_timers_ok :: "osip \<Rightarrow> bool" where
  "stack_timers_ok osip \<longleftrightarrow>
     list_all (\<lambda>ty. timers_ok (waits ty) (transactions ty osip)) [ICT, IST, NICT, NIST] \<and>
     timers_ok (\<lambda>x. Inr [ixt_start x]) (ixt_retransmissions osip)"

lemma thenR_Some: "thenR r f = Inr (Some l) \<longleftrightarrow> (\<exists>x. r = Inr (Some x) \<and> f x = Inr (Some l))"
  by (cases r) (auto simp: thenR_def split: option.splits)

text \<open>A wait that is not 0 is the time until the earliest timer, and no event is pending.\<close>

lemma gettimeout_sound:
  assumes "tv_ok now" "stack_timers_ok osip" "osip_timers_gettimeout now osip = Inr w" "us w \<noteq> 0"
  shows "0 < us w \<and> us w \<le> 31536000 * 1000000 \<and>
    (\<forall>ty. \<forall>tr\<in>set (transactions ty osip). (ty = ICT \<longrightarrow> osip_fifo_size (transactionff tr) = 0) \<and>
       (\<exists>ts. waits ty tr = Inr ts \<and> (\<forall>t\<in>set ts. running t \<longrightarrow> us now + us w \<le> us t))) \<and>
    (\<forall>x\<in>set (ixt_retransmissions osip). running (ixt_start x) \<longrightarrow> us now + us w \<le> us (ixt_start x))"
proof -
  let ?year = "\<lparr>tv_sec = tv_sec now + 3600 * 24 * 365, tv_usec = tv_usec now\<rparr>"
  let ?p = "\<lambda>tr. 1 \<le> osip_fifo_size (transactionff tr)"
  have year: "tv_ok ?year" "us now \<le> us ?year" "us ?year = us now + 31536000 * 1000000"
    using assms(1) by (simp_all add: tv_ok_def us_def)
  from assms(3,4) obtain l1 l2 l3 l4 l where l:
    "lower_over now ?p ict_waits (osip_ict_transactions osip) ?year = Inr (Some l1)"
    "lower_over now (\<lambda>_. False) ist_waits (osip_ist_transactions osip) l1 = Inr (Some l2)"
    "lower_over now (\<lambda>_. False) nict_waits (osip_nict_transactions osip) l2 = Inr (Some l3)"
    "lower_over now (\<lambda>_. False) nist_waits (osip_nist_transactions osip) l3 = Inr (Some l4)"
    "lower_over now (\<lambda>_. False) (\<lambda>x. Inr [ixt_start x]) (ixt_retransmissions osip) l4 = Inr (Some l)"
    "w = wait_until now l"
    by (auto simp: osip_timers_gettimeout_def res_simps thenR_Some us_def split: option.splits)
  have ok: "timers_ok ict_waits (osip_ict_transactions osip)" "timers_ok ist_waits (osip_ist_transactions osip)"
      "timers_ok nict_waits (osip_nict_transactions osip)" "timers_ok nist_waits (osip_nist_transactions osip)"
      "timers_ok (\<lambda>x. Inr [ixt_start x]) (ixt_retransmissions osip)"
    using assms(2) by (simp_all add: stack_timers_ok_def waits_def transactions_def)
  note s1 = lower_over_sound [OF assms(1) l(1) year(1,2) ok(1)]
  note s2 = lower_over_sound [OF assms(1) l(2) _ _ ok(2)]
  note s3 = lower_over_sound [OF assms(1) l(3) _ _ ok(3)]
  note s4 = lower_over_sound [OF assms(1) l(4) _ _ ok(4)]
  note s5 = lower_over_sound [OF assms(1) l(5) _ _ ok(5)]
  have o: "tv_ok l \<and> us now \<le> us l" "us l \<le> us l4" "us l4 \<le> us l3" "us l3 \<le> us l2" "us l2 \<le> us l1" "us l1 \<le> us ?year"
    using s1 s2 s3 s4 s5 by blast+
  have w: "us now + us w = us l" using wait_until_us [OF assms(1), of l] o(1) l(6) by simp
  have weaken: "\<exists>ts. f x = Inr ts \<and> (\<forall>t\<in>set ts. running t \<longrightarrow> us now + us w \<le> us t)"
    if "\<exists>ts. f x = Inr ts \<and> (\<forall>t\<in>set ts. running t \<longrightarrow> b \<le> us t)" "us l \<le> b" for f :: "'z \<Rightarrow> timeval list res" and x b
    using that w by fastforce
  have "(ty = ICT \<longrightarrow> osip_fifo_size (transactionff tr) = 0) \<and>
      (\<exists>ts. waits ty tr = Inr ts \<and> (\<forall>t\<in>set ts. running t \<longrightarrow> us now + us w \<le> us t))"
    if tr: "tr \<in> set (transactions ty osip)" for ty tr
  proof (cases ty)
    case ICT
    have x: "\<not> ?p tr" "\<exists>ts. ict_waits tr = Inr ts \<and> (\<forall>t\<in>set ts. running t \<longrightarrow> us l1 \<le> us t)"
      using s1 tr by (simp_all add: ICT transactions_def)
    from weaken [of ict_waits tr "us l1", OF x(2)] x(1) o show ?thesis by (simp add: ICT waits_def)
  next
    case IST
    have x: "\<exists>ts. ist_waits tr = Inr ts \<and> (\<forall>t\<in>set ts. running t \<longrightarrow> us l2 \<le> us t)"
      using s1 s2 tr by (simp add: IST transactions_def)
    from weaken [of ist_waits tr "us l2", OF x] o show ?thesis by (simp add: IST waits_def)
  next
    case NICT
    have x: "\<exists>ts. nict_waits tr = Inr ts \<and> (\<forall>t\<in>set ts. running t \<longrightarrow> us l3 \<le> us t)"
      using s1 s2 s3 tr by (simp add: NICT transactions_def)
    from weaken [of nict_waits tr "us l3", OF x] o show ?thesis by (simp add: NICT waits_def)
  next
    case NIST
    have x: "\<exists>ts. nist_waits tr = Inr ts \<and> (\<forall>t\<in>set ts. running t \<longrightarrow> us l4 \<le> us t)"
      using s1 s2 s3 s4 tr by (simp add: NIST transactions_def)
    from weaken [of nist_waits tr "us l4", OF x] o show ?thesis by (simp add: NIST waits_def)
  qed
  moreover have "\<forall>x\<in>set (ixt_retransmissions osip). running (ixt_start x) \<longrightarrow> us l \<le> us (ixt_start x)"
    using s1 s2 s3 s4 s5 by fastforce
  ultimately show ?thesis using w o year(3) assms(4) by auto
qed

lemma first_event_Some: "first_event es = Some e \<Longrightarrow> Some e \<in> set es"
  by (induction es rule: first_event.induct) auto

lemma need_timer_due:
  "osip_transaction_need_timer_x_event now ctx timer b i ty = Some e \<Longrightarrow>
   \<exists>c. ctx = Some c \<and> b \<and> running (timer c) \<and> osip_timercmp_gt now (timer c) \<and> e = osip_event_new ty i"
  by (auto simp: osip_transaction_need_timer_x_event_def running_def split: option.splits if_splits)

text \<open>A timer event is fired only for a timer the transaction waits for, after its time.\<close>

lemma timer_event_due:
  assumes "timer_event ty now tr = Some e" "waits ty tr = Inr ts"
  shows "\<exists>t\<in>set ts. running t \<and> osip_timercmp_gt now t"
proof (cases ty)
  case ICT
  with assms(1) have "Some e \<in> set [osip_ict_need_timer_b_event now tr, osip_ict_need_timer_a_event now tr,
      osip_ict_need_timer_d_event now tr]"
    by (intro first_event_Some) (simp add: timer_event_def ict_timer_event_def split: if_splits)
  then show ?thesis using assms(2) ICT
    by (auto simp: osip_ict_need_timer_b_event_def osip_ict_need_timer_a_event_def osip_ict_need_timer_d_event_def
      waits_def ict_waits_def dest!: sym [of "Some e"] need_timer_due)
next
  case IST
  with assms(1) have "Some e \<in> set [osip_ist_need_timer_i_event now tr, osip_ist_need_timer_h_event now tr,
      osip_ist_need_timer_g_event now tr]"
    by (intro first_event_Some) (simp add: timer_event_def ist_timer_event_def)
  then show ?thesis using assms(2) IST
    by (auto simp: osip_ist_need_timer_i_event_def osip_ist_need_timer_h_event_def osip_ist_need_timer_g_event_def
      waits_def ist_waits_def dest!: sym [of "Some e"] need_timer_due)
next
  case NICT
  with assms(1) have "Some e \<in> set [osip_nict_need_timer_k_event now tr, osip_nict_need_timer_f_event now tr,
      osip_nict_need_timer_e_event now tr]"
    by (intro first_event_Some) (simp add: timer_event_def nict_timer_event_def)
  then show ?thesis using assms(2) NICT
    by (auto simp: osip_nict_need_timer_k_event_def osip_nict_need_timer_f_event_def osip_nict_need_timer_e_event_def
      waits_def nict_waits_def dest!: sym [of "Some e"] need_timer_due split: if_splits)
next
  case NIST
  with assms show ?thesis
    by (auto simp: timer_event_def nist_timer_event_def osip_nist_need_timer_j_event_def waits_def nist_waits_def
      dest!: need_timer_due)
qed

text \<open>
  Claim C10: the stack never oversleeps: while it waits as long as it computed, no timer of any
  transaction runs out, so firing the timers earlier would queue nothing; it also never waits while
  an INVITE client transaction has an event queued.
\<close>

theorem wakes_in_time:
  assumes "tv_ok now" "stack_timers_ok osip" "osip_timers_gettimeout now osip = Inr w" "us w \<noteq> 0"
    "tv_ok now'" "us now' \<le> us now + us w" "tr \<in> set (transactions ty osip)"
  shows "fire_timer ty now' tr = tr \<and> (ty = ICT \<longrightarrow> osip_fifo_size (transactionff tr) = 0)"
proof -
  from gettimeout_sound [OF assms(1-4)] assms(7) obtain ts where ts: "waits ty tr = Inr ts"
      "\<forall>t\<in>set ts. running t \<longrightarrow> us now + us w \<le> us t" "ty = ICT \<longrightarrow> osip_fifo_size (transactionff tr) = 0"
    by blast
  have "timers_ok (waits ty) (transactions ty osip)"
    using assms(2) by (cases ty) (simp_all add: stack_timers_ok_def)
  then have t: "tv_ok t" if "t \<in> set ts" "running t" for t
    using that ts(1) assms(7) by (force simp: timers_ok_def)
  have "timer_event ty now' tr = None"
  proof (rule ccontr)
    assume "timer_event ty now' tr \<noteq> None"
    then obtain e where "timer_event ty now' tr = Some e" by auto
    from timer_event_due [OF this ts(1)] obtain t where "t \<in> set ts" "running t" "osip_timercmp_gt now' t" by blast
    with ts(2) t gt_us [OF assms(5)] assms(6) show False by fastforce
  qed
  with ts(3) show ?thesis by (simp add: fire_timer_def)
qed

theorem wakes_in_time_witness:
  "fire_timer ICT \<lparr>tv_sec = 100, tv_usec = 400000\<rparr> (sample_ict\<lparr>state := ICT_CALLING\<rparr>) = sample_ict\<lparr>state := ICT_CALLING\<rparr> \<and>
   osip_fifo_size (transactionff (sample_ict\<lparr>state := ICT_CALLING\<rparr>)) = 0"
proof -
  let ?s = "osip_init\<lparr>osip_ict_transactions := [sample_ict\<lparr>state := ICT_CALLING\<rparr>]\<rparr>"
  have "tv_ok sample_start" "stack_timers_ok ?s" "tv_ok \<lparr>tv_sec = 100, tv_usec = 400000\<rparr>"
      "osip_timers_gettimeout sample_start ?s = Inr \<lparr>tv_sec = 0, tv_usec = 500000\<rparr>"
      "us \<lparr>tv_sec = 100, tv_usec = 400000\<rparr> \<le> us sample_start + us \<lparr>tv_sec = 0, tv_usec = 500000\<rparr>"
      "us \<lparr>tv_sec = 0, tv_usec = 500000\<rparr> \<noteq> 0"
    by code_simp+
  moreover have "sample_ict\<lparr>state := ICT_CALLING\<rparr> \<in> set (transactions ICT ?s)" by (simp add: transactions_def)
  ultimately show ?thesis using wakes_in_time by blast
qed

section \<open>An unanswered invitation\<close>

text \<open>
  A client transaction from its creation on: time passes, it is given events, and its timers are fired
  and executed as the stack does it, the timer event being the only one in the queue.
\<close>

inductive ict_life :: "timeval \<Rightarrow> transaction \<Rightarrow> timeval \<Rightarrow> bool" where
  life_init: "osip_transaction_init t0 ICT (Some m) counter = Inr (Some tr, counter') \<Longrightarrow> tv_ok t0 \<Longrightarrow> ict_life t0 tr t0"
| life_clock: "ict_life t0 tr now \<Longrightarrow> tv_ok now' \<Longrightarrow> us now \<le> us now' \<Longrightarrow> ict_life t0 tr now'"
| life_event: "ict_life t0 tr now \<Longrightarrow> event_ok evt tr \<Longrightarrow> evt_type evt \<notin> {TIMEOUT_A, TIMEOUT_B} \<Longrightarrow>
    osip_transaction_execute env evt tr = Inr (tr', as) \<Longrightarrow> ict_life t0 tr' now"
| life_timer: "ict_life t0 tr now \<Longrightarrow> ict_timer_event now tr = Some evt \<Longrightarrow> tv_ok (time_now env) \<Longrightarrow>
    us now \<le> us (time_now env) \<Longrightarrow> osip_transaction_execute env evt tr = Inr (tr', as) \<Longrightarrow>
    ict_life t0 tr' (time_now env)"

text \<open>Timer A: its length is a doubling of T1, and the later it runs the longer it is.\<close>

definition timer_a_ok :: "timeval \<Rightarrow> int \<Rightarrow> timeval \<Rightarrow> bool" where
  "timer_a_ok t0 n start \<longleftrightarrow> \<not> running start \<and> n = - 1 \<or>
     tv_ok start \<and> n \<in> {500, 1000, 2000, 4000, 8000, 16000, 32000} \<and> us t0 + (2 * n - 500) * 1000 \<le> us start"

definition life_ok :: "timeval \<Rightarrow> transaction \<Rightarrow> timeval \<Rightarrow> bool" where
  "life_ok t0 tr now \<longleftrightarrow> transaction_ok tr \<and> ctx_type tr = ICT \<and> tv_ok now \<and>
     (case ict_context tr of None \<Rightarrow> False | Some c \<Rightarrow>
        timer_a_ok t0 (timer_a_length c) (timer_a_start c) \<and>
        (state tr \<in> {ICT_PRE_CALLING, ICT_CALLING} \<longrightarrow>
           tv_ok (timer_b_start c) \<and> us (timer_b_start c) = us t0 + 32000 * 1000))"

lemma calling_from: "rfc3261 st ty f ICT_CALLING \<Longrightarrow> st \<in> {ICT_PRE_CALLING, ICT_CALLING}"
  by (auto elim: rfc3261.cases)

lemma precalling_from: "\<not> rfc3261 st ty f ICT_PRE_CALLING"
  by (auto elim: rfc3261.cases)

text \<open>After any event but timer A the transaction was calling before if it is calling still.\<close>

lemma life_ok_event:
  assumes "life_ok t0 tr now" "event_ok evt tr" "osip_transaction_execute env evt tr = Inr (tr', as)"
    "evt_type evt \<noteq> TIMEOUT_A" "evt_type evt \<noteq> TIMEOUT_B" "tv_ok now'"
  shows "life_ok t0 tr' now'"
proof -
  have ok: "transaction_ok tr" "ctx_type tr = ICT" using assms(1) by (simp_all add: life_ok_def)
  have "invite_timers tr' = invite_timers tr"
    using execute_keeps_invite_timers [OF assms(3) ok(2)] assms(4,5) by simp
  with assms(1) obtain c c' where c: "ict_context tr = Some c" "ict_context tr' = Some c'"
      "timer_a_length c' = timer_a_length c" "timer_a_start c' = timer_a_start c" "timer_b_start c' = timer_b_start c"
    by (auto simp: life_ok_def invite_timers_def split: option.splits)
  from ok(1) assms(2,3) have "transaction_ok tr' \<and> ctx_type tr' = ICT \<and>
      (state tr' \<in> {ICT_PRE_CALLING, ICT_CALLING} \<longrightarrow> state tr \<in> {ICT_PRE_CALLING, ICT_CALLING})"
  proof (cases rule: execute_cases)
    case step
    then have "rfc3261 (state tr) (evt_type evt) (transport_failed as \<or> unacknowledgeable evt tr) (state tr')"
        "transaction_ok tr'" "ctx_type tr' = ICT"
      using ok(2) by (simp_all add: step_ok_def same_identity_def)
    then show ?thesis using calling_from precalling_from by (metis insert_iff empty_iff)
  qed (use ok in simp)
  with assms(1,6) c show ?thesis by (auto simp: life_ok_def)
qed

lemma timer_b_executes:
  assumes "ctx_type tr = ICT" "state tr = ICT_CALLING" "ict_context tr = Some c"
  shows "osip_transaction_execute env (osip_event_new TIMEOUT_B i) tr =
    Inr (tr\<lparr>ict_context := Some (c\<lparr>timer_b_length := - 1, timer_b_start := stop_timer (timer_b_start c)\<rparr>),
      state := ICT_TERMINATED\<rparr>, [Message_callback OSIP_ICT_STATUS_TIMEOUT None, Kill_transaction ICT])"
proof -
  have "fsm_findmethod TIMEOUT_B ICT_CALLING (fsm_of ICT) =
      Some (entry ICT_CALLING TIMEOUT_B osip_ict_timeout_b_event)"
    unfolding findmethod_small by (simp add: small_fsm_of_def ict_transition_def fsm_findmethod_def)
  with assms show ?thesis
    by (simp add: osip_transaction_execute_def fsm_callmethod_def osip_event_new_def osip_ict_timeout_b_event_def
      handler_defs)
qed

lemma timer_a_executes:
  assumes "osip_transaction_execute env evt tr = Inr (tr', as)" "evt_type evt = TIMEOUT_A" "ctx_type tr = ICT"
    "state tr = ICT_CALLING" "ict_context tr = Some c" "\<bar>timer_a_length c\<bar> < 2 ^ 30"
  obtains c' where "ict_context tr' = Some c'" "timer_a_length c' = timer_a_length c + timer_a_length c"
    "timer_a_start c' = add_gettimeofday (time_now env) (timer_a_length c + timer_a_length c)"
    "timer_b_start c' = timer_b_start c"
proof -
  have f: "fsm_findmethod TIMEOUT_A ICT_CALLING (fsm_of ICT) = Some (entry ICT_CALLING TIMEOUT_A osip_ict_timeout_a_event)"
    unfolding findmethod_small by (simp add: small_fsm_of_def ict_transition_def fsm_findmethod_def)
  have x: "osip_ict_timeout_a_event env evt tr = Inr (tr', as)"
    using assms(1-4) f by (simp add: osip_transaction_execute_def fsm_callmethod_def)
  have d: "doubled (timer_a_length c) = Inr (timer_a_length c + timer_a_length c)" by (rule doubled_Inr [OF assms(6)])
  from x that assms(5) d show thesis
    by (cases "send_result env = 0")
      (auto simp: ict_handlers handler_defs timer_from_now_def)
qed

text \<open>When timer A is fired, timer B has not run out, so its length has room to double.\<close>

lemma ict_timer_cases:
  assumes "ict_timer_event now tr = Some evt" "ict_context tr = Some c"
  obtains (timer_b) "evt = osip_event_new TIMEOUT_B (transactionid tr)" "state tr = ICT_CALLING"
  | (timer_a) "evt = osip_event_new TIMEOUT_A (transactionid tr)" "state tr = ICT_CALLING" "running (timer_a_start c)"
      "osip_timercmp_gt now (timer_a_start c)" "running (timer_b_start c) \<Longrightarrow> \<not> osip_timercmp_gt now (timer_b_start c)"
  | (timer_d) "evt = osip_event_new TIMEOUT_D (transactionid tr)" "state tr = ICT_COMPLETED"
  using assms
  by (auto simp: ict_timer_event_def osip_ict_need_timer_b_event_def osip_ict_need_timer_a_event_def
    osip_ict_need_timer_d_event_def osip_transaction_need_timer_x_event_def running_def split: if_splits)

lemma timer_event_ok:
  "ty \<in> {TIMEOUT_B, TIMEOUT_D} \<Longrightarrow> event_ok (osip_event_new ty i) tr"
  by (auto simp: event_ok_def osip_event_new_def evt_classes)

lemma life_ok_timer:
  assumes "life_ok t0 tr now" "ict_timer_event now tr = Some evt" "tv_ok (time_now env)" "us now \<le> us (time_now env)"
    "osip_transaction_execute env evt tr = Inr (tr', as)"
  shows "life_ok t0 tr' (time_now env)"
proof -
  from assms(1) obtain c where c: "transaction_ok tr" "ctx_type tr = ICT" "tv_ok now" "ict_context tr = Some c"
      "timer_a_ok t0 (timer_a_length c) (timer_a_start c)"
      "state tr \<in> {ICT_PRE_CALLING, ICT_CALLING} \<Longrightarrow> tv_ok (timer_b_start c) \<and> us (timer_b_start c) = us t0 + 32000 * 1000"
    by (auto simp: life_ok_def split: option.splits)
  have ok: "transaction_ok tr'" "ctx_type tr' = ICT" if "event_ok evt tr"
    using tr_run_ok [OF tr_step [OF tr_start that assms(5)] c(1)] c(2) by (simp_all add: same_identity_def)
  from assms(2) c(4) show ?thesis
  proof (cases rule: ict_timer_cases)
    case timer_b
    have "event_ok evt tr" unfolding timer_b(1) by (rule timer_event_ok) simp
    with ok c(5) assms(3,5) timer_b_executes [OF c(2) timer_b(2) c(4), of env] show ?thesis
      by (auto simp: life_ok_def timer_b(1))
  next
    case timer_a
    have b: "tv_ok (timer_b_start c)" "us (timer_b_start c) = us t0 + 32000 * 1000" using c(6) timer_a(2) by simp_all
    then have now: "us now \<le> us t0 + 32000 * 1000"
      using timer_a(5) gt_us [OF c(3) b(1)] by (auto simp: running_def tv_ok_def)
    from c(5) timer_a(3) have a: "tv_ok (timer_a_start c)"
        "timer_a_length c \<in> {500, 1000, 2000, 4000, 8000, 16000, 32000}"
        "us t0 + (2 * timer_a_length c - 500) * 1000 \<le> us (timer_a_start c)"
      by (auto simp: timer_a_ok_def)
    have late: "us (timer_a_start c) < us now" using timer_a(4) gt_us [OF c(3) a(1)] by simp
    have "2 * timer_a_length c - 500 < 32000" using now a(3) late by simp
    then have len: "timer_a_length c \<in> {500, 1000, 2000, 4000, 8000, 16000}" using a(2) by auto
    then have small: "\<bar>timer_a_length c\<bar> < 2 ^ 30" by auto
    have e: "event_ok evt tr"
      using small c(4) by (simp add: event_ok_def timer_a(1) osip_event_new_def evt_classes)
    obtain c' where c': "ict_context tr' = Some c'" "timer_a_length c' = timer_a_length c + timer_a_length c"
        "timer_a_start c' = add_gettimeofday (time_now env) (timer_a_length c + timer_a_length c)"
        "timer_b_start c' = timer_b_start c"
      by (rule timer_a_executes [OF assms(5) _ c(2) timer_a(2) c(4) small])
        (simp_all add: timer_a(1) osip_event_new_def)
    have range: "0 \<le> timer_a_length c + timer_a_length c" "timer_a_length c + timer_a_length c < 1000000"
      using len by auto
    note n = add_us [OF assms(3) range]
    have "timer_a_ok t0 (timer_a_length c') (timer_a_start c')"
      unfolding timer_a_ok_def c' using n a(3) late assms(4) len by auto
    with ok [OF e] assms(3) c'(1,4) b show ?thesis by (simp add: life_ok_def)
  next
    case timer_d
    have "event_ok evt tr" unfolding timer_d(1) by (rule timer_event_ok) simp
    then show ?thesis
      by (rule life_ok_event [OF assms(1) _ assms(5) _ _ assms(3)]) (simp_all add: timer_d(1) osip_event_new_def)
  qed
qed

lemma life_ok_init:
  assumes "osip_transaction_init t0 ICT (Some m) counter = Inr (Some tr, counter')" "tv_ok t0"
  shows "life_ok t0 tr t0"
proof -
  obtain c where c: "osip_ict_init t0 m = Inr (Some c)" "ict_context tr = Some c"
    using assms(1) by (auto simp: osip_transaction_init_def res_simps Let_def split: option.splits if_splits)
  from c(1) have "timer_a_ok t0 (timer_a_length c) (timer_a_start c) \<and>
      tv_ok (timer_b_start c) \<and> us (timer_b_start c) = us t0 + 32000 * 1000"
    using add_us [OF assms(2), of 500] add_us [OF assms(2), of 32000]
    by (auto simp: osip_ict_init_def res_simps Let_def DEFAULT_T1_def timer_a_ok_def not_started_def running_def
      split: option.splits prod.splits if_splits)
  with c(2) transaction_init_facts [OF assms(1)] assms(2) show ?thesis by (simp add: life_ok_def)
qed

lemma ict_life_ok: "ict_life t0 tr now \<Longrightarrow> life_ok t0 tr now"
proof (induction rule: ict_life.induct)
  case (life_init t0 m counter tr counter')
  then show ?case by (rule life_ok_init)
next
  case (life_clock t0 tr now now')
  then show ?case by (simp add: life_ok_def)
next
  case (life_event t0 tr now evt env tr' as)
  from life_event.hyps(3) show ?case
    by (intro life_ok_event [OF life_event.IH life_event.hyps(2,4)])
      (use life_event.IH in \<open>simp_all add: life_ok_def\<close>)
next
  case (life_timer t0 tr now evt env tr' as)
  then show ?case using life_ok_timer by blast
qed

text \<open>
  Claim C15: the repetitions of an invitation are bounded: whatever happens and however late the timers
  are looked at, timer A is one of the doublings of 500 ms up to 32 s (or unused over a reliable
  transport), so an invitation is sent seven times at most and the length never overflows.
\<close>

theorem timer_a_bounded:
  assumes "ict_life t0 tr now" "ict_context tr = Some c"
  shows "timer_a_length c \<in> {- 1, 500, 1000, 2000, 4000, 8000, 16000, 32000}"
  using ict_life_ok [OF assms(1)] assms(2) by (auto simp: life_ok_def timer_a_ok_def)

theorem timer_a_bounded_witness:
  "timer_a_length (the (ict_context sample_ict)) \<in> {- 1, 500, 1000, 2000, 4000, 8000, 16000, 32000}"
proof -
  have "tv_ok sample_start" by code_simp
  moreover have "ict_context sample_ict = Some (the (ict_context sample_ict))" by (simp add: sample_ict_def)
  ultimately show ?thesis using timer_a_bounded life_init [OF sample_init] by blast
qed

text \<open>
  Claim C11: an invitation that nobody answers is given up: more than 32 s after its start, with an
  empty queue, looking at the timers and executing the queue tells the application of the timeout and
  ends the transaction.
\<close>

theorem unanswered_invite_ends:
  assumes "ict_life t0 tr now" "state tr = ICT_CALLING" "us t0 + 32000000 < us now"
    "fifo_ok (transactionff tr)" "queue (transactionff tr) = []"
  shows "\<exists>tr'. execute_queue envs (fire_timer ICT now tr) =
      Inr (tr', [Message_callback OSIP_ICT_STATUS_TIMEOUT None, Kill_transaction ICT]) \<and> state tr' = ICT_TERMINATED"
proof -
  from ict_life_ok [OF assms(1)] assms(2) obtain c where c: "ctx_type tr = ICT" "ict_context tr = Some c" "tv_ok now"
      "tv_ok (timer_b_start c)" "us (timer_b_start c) = us t0 + 32000 * 1000"
    by (auto simp: life_ok_def split: option.splits)
  let ?e = "osip_event_new TIMEOUT_B (transactionid tr)"
  have "osip_timercmp_gt now (timer_b_start c)" using gt_us [OF c(3,4)] c(5) assms(3) by simp
  moreover have "tv_sec (timer_b_start c) \<noteq> - 1" using c(4) by (simp add: tv_ok_def)
  ultimately have "ict_timer_event now tr = Some ?e"
    using assms(2,5) c(2) by (simp add: ict_timer_event_def osip_fifo_size_def osip_ict_need_timer_b_event_def
        osip_transaction_need_timer_x_event_def)
  then have fire: "fire_timer ICT now tr = tr\<lparr>transactionff := snd (osip_fifo_add (transactionff tr) ?e)\<rparr>"
    by (simp add: fire_timer_def timer_event_def)
  let ?ff = "snd (osip_fifo_add (transactionff tr) ?e)"
  have q: "fifo_ok ?ff" "queue ?ff = [?e]"
    using osip_queue.put [OF assms(4), of ?e] assms(5) by (simp_all add: MAX_LEN_def)
  obtain ff where ff: "osip_fifo_tryget ?ff = (Some ?e, ff)" "fifo_ok ff" "queue ff = []"
    by (rule tryget_Cons [OF q])
  let ?tr = "tr\<lparr>transactionff := ff\<rparr>"
  have x: "ctx_type ?tr = ICT" "state ?tr = ICT_CALLING" "ict_context ?tr = Some c" using c assms(2) by simp_all
  let ?tr' = "?tr\<lparr>ict_context := Some (c\<lparr>timer_b_length := - 1, timer_b_start := stop_timer (timer_b_start c)\<rparr>),
      state := ICT_TERMINATED\<rparr>"
  have "execute_queue (\<lambda>n. envs (Suc n)) ?tr' = Inr (?tr', [])"
    using tryget_Nil [OF ff(2,3)] by (simp add: execute_queue.simps [of "\<lambda>n. envs (Suc n)" ?tr'])
  then have "execute_queue envs (tr\<lparr>transactionff := ?ff\<rparr>) =
      Inr (?tr', [Message_callback OSIP_ICT_STATUS_TIMEOUT None, Kill_transaction ICT])"
    using ff(1) timer_b_executes [OF x, of "envs 0" "transactionid tr"]
    by (simp add: execute_queue.simps [of envs "tr\<lparr>transactionff := ?ff\<rparr>"])
  then show ?thesis unfolding fire by auto
qed

lemma sample_sent:
  "osip_transaction_execute (sample_env 0) (sample_event SND_REQINVITE (sample_message 0 ''INVITE'')) sample_ict =
   Inr (sample_ict\<lparr>orig_request := Some (sample_message 0 ''INVITE''), state := ICT_CALLING\<rparr>,
     [Send (Some (sample_message 0 ''INVITE'')) (Some ''psp'') 5060 0,
      Message_callback OSIP_ICT_INVITE_SENT (Some (sample_message 0 ''INVITE''))])"
  by code_simp

theorem unanswered_invite_ends_witness:
  "\<exists>tr'. execute_queue (\<lambda>_. sample_env 0) (fire_timer ICT \<lparr>tv_sec = 140, tv_usec = 0\<rparr>
     (sample_ict\<lparr>orig_request := Some (sample_message 0 ''INVITE''), state := ICT_CALLING\<rparr>)) =
      Inr (tr', [Message_callback OSIP_ICT_STATUS_TIMEOUT None, Kill_transaction ICT]) \<and> state tr' = ICT_TERMINATED"
proof (rule unanswered_invite_ends [of sample_start])
  let ?tr = "sample_ict\<lparr>orig_request := Some (sample_message 0 ''INVITE''), state := ICT_CALLING\<rparr>"
  have t: "tv_ok sample_start" "tv_ok \<lparr>tv_sec = 140, tv_usec = 0\<rparr>"
      "us sample_start \<le> us \<lparr>tv_sec = 140, tv_usec = 0\<rparr>"
    by code_simp+
  have "ict_life sample_start ?tr sample_start"
    by (rule life_event [OF life_init [OF sample_init t(1)] sample_ok(2) _ sample_sent]) (simp add: sample_event_def)
  then show "ict_life sample_start ?tr \<lparr>tv_sec = 140, tv_usec = 0\<rparr>" using t(2,3) by (rule life_clock)
  show "us sample_start + 32000000 < us \<lparr>tv_sec = 140, tv_usec = 0\<rparr>" by code_simp
  show "fifo_ok (transactionff ?tr)" "queue (transactionff ?tr) = []"
    by (simp_all add: sample_ict_def osip_fifo_init_def fifo_ok_def MAX_LEN_def)
qed simp

section \<open>Retransmissions outside transactions\<close>

definition ixt_ok :: "ixt \<Rightarrow> bool" where
  "ixt_ok x \<longleftrightarrow> 0 < ixt_counter x \<and> 0 \<le> ixt_interval x \<and> ixt_interval x \<le> 4000 \<and>
     (ixt_ack x \<noteq> None \<or> msg2xx x \<noteq> None)"

fun sends_of :: "tr_action list \<Rightarrow> nat" where
  "sends_of [] = 0"
| "sends_of (Send m h p s # as) = Suc (sends_of as)"
| "sends_of (_ # as) = sends_of as"

lemma sends_of_append [simp]: "sends_of (as @ bs) = sends_of as + sends_of bs"
  by (induction as rule: sends_of.induct) simp_all

lemma sends_of_frees [simp]: "sends_of (map Free ms) = 0"
  by (induction ms) simp_all

lemma freed_frees [simp]: "freed (map Free ms) = mset ms"
  by (induction ms) simp_all

text \<open>What is left to be sent, and the messages held.\<close>

definition to_send :: "ixt list \<Rightarrow> int" where
  "to_send xs = (\<Sum>x\<leftarrow>xs. ixt_counter x)"

definition held :: "ixt list \<Rightarrow> message multiset" where
  "held xs = (\<Sum>x\<leftarrow>xs. opt_mset (ixt_ack x) + opt_mset (msg2xx x))"

lemma to_send_simps [simp]: "to_send [] = 0" "to_send (x # xs) = ixt_counter x + to_send xs"
  by (simp_all add: to_send_def)

lemma held_simps [simp]: "held [] = {#}" "held (x # xs) = opt_mset (ixt_ack x) + opt_mset (msg2xx x) + held xs"
  by (simp_all add: held_def)

lemma ixt_free_frees: "freed (ixt_free x) = opt_mset (ixt_ack x) + opt_mset (msg2xx x)" "sends_of (ixt_free x) = 0"
  by (cases "ixt_ack x"; cases "msg2xx x"; simp add: ixt_free_def)+

lemma ixt_retransmit_step:
  assumes "ixt_ok x" "ixt_retransmit now x = (x', as)"
  shows "int (sends_of as) + ixt_counter x' = ixt_counter x" "freed as = {#}" "ixt_ack x' = ixt_ack x"
    "msg2xx x' = msg2xx x" "ixt_counter x' \<noteq> 0 \<Longrightarrow> ixt_ok x'"
  using assms by (auto simp: ixt_ok_def ixt_retransmit_def Let_def split: if_splits option.splits)

lemma retransmit_list_step:
  "list_all ixt_ok xs \<Longrightarrow> retransmit_list now xs = (xs', as) \<Longrightarrow>
   list_all ixt_ok xs' \<and> int (sends_of as) + to_send xs' = to_send xs \<and> held xs' + freed as = held xs"
proof (induction xs arbitrary: xs' as)
  case Nil
  then show ?case by simp
next
  case (Cons x xs)
  obtain x1 as1 where x1: "ixt_retransmit now x = (x1, as1)" by force
  obtain xs1 bs where xs1: "retransmit_list now xs = (xs1, bs)" by force
  from Cons.prems have ok: "ixt_ok x" "list_all ixt_ok xs" by simp_all
  note s = ixt_retransmit_step [OF ok(1) x1]
  note IH = Cons.IH [OF ok(2) xs1]
  show ?case
  proof (cases "ixt_counter x1 = 0")
    case True
    with Cons.prems(2) x1 xs1 have r: "xs' = xs1" "as = as1 @ ixt_free x1 @ bs" by simp_all
    from IH s(1) True have "int (sends_of as) + to_send xs' = to_send (x # xs)" by (simp add: r ixt_free_frees)
    moreover from IH s(2-4) have "held xs' + freed as = held (x # xs)"
      by (simp add: r ixt_free_frees)
    ultimately show ?thesis using IH by (simp add: r)
  next
    case False
    with Cons.prems(2) x1 xs1 have r: "xs' = x1 # xs1" "as = as1 @ bs" by simp_all
    from IH s(1) have "int (sends_of as) + to_send xs' = to_send (x # xs)" by (simp add: r)
    moreover from IH s(2-4) have "held xs' + freed as = held (x # xs)" by (simp add: r ac_simps)
    ultimately show ?thesis using IH s(5) False by (simp add: r)
  qed
qed

text \<open>The stack looking at its retransmissions again and again.\<close>

fun retransmissions :: "timeval list \<Rightarrow> osip \<Rightarrow> osip \<times> tr_action list" where
  "retransmissions [] osip = (osip, [])"
| "retransmissions (t # ts) osip =
     (let (osip, as) = osip_retransmissions_execute t osip; (osip, bs) = retransmissions ts osip in (osip, as @ bs))"

lemma retransmissions_conserve:
  "list_all ixt_ok (ixt_retransmissions osip) \<Longrightarrow> retransmissions ts osip = (osip', as) \<Longrightarrow>
   list_all ixt_ok (ixt_retransmissions osip') \<and>
   int (sends_of as) + to_send (ixt_retransmissions osip') = to_send (ixt_retransmissions osip) \<and>
   held (ixt_retransmissions osip') + freed as = held (ixt_retransmissions osip)"
proof (induction ts arbitrary: osip as)
  case Nil
  then show ?case by simp
next
  case (Cons t ts)
  obtain xs as1 where x: "retransmit_list t (ixt_retransmissions osip) = (xs, as1)" by force
  obtain osip2 bs where y: "retransmissions ts (osip\<lparr>ixt_retransmissions := xs\<rparr>) = (osip2, bs)" by force
  have r: "osip' = osip2" "as = as1 @ bs"
    using Cons.prems(2) x y by (simp_all add: osip_retransmissions_execute_def)
  note step = retransmit_list_step [OF Cons.prems(1) x]
  have ok: "list_all ixt_ok (ixt_retransmissions (osip\<lparr>ixt_retransmissions := xs\<rparr>))" using step by simp
  note IH = Cons.IH [OF ok y [folded r(1)]]
  from IH step have "held (ixt_retransmissions osip') + freed as = held (ixt_retransmissions osip)"
    by (simp add: r) (metis union_assoc union_commute)
  with IH step show ?case by (simp add: r)
qed

lemma to_send_nonneg: "list_all ixt_ok xs \<Longrightarrow> 0 \<le> to_send xs \<and> (to_send xs = 0 \<longrightarrow> xs = [])"
  by (induction xs) (auto simp: to_send_def ixt_ok_def)

lemma to_send_fresh: "list_all (\<lambda>x. ixt_counter x = 10 \<and> P x) xs \<Longrightarrow> to_send xs = 10 * int (length xs)"
  by (induction xs) simp_all



end
