(* ===== verification/Osip_List.thy ===== *)
theory Osip_List
  imports Furikup_Prelude
begin

text \<open>
  The linked list of oSIP (osipparser2: osip_list.c, osip_list.h) over an explicit store of nodes, and
  its refinement to lists: where the element goes and what comes back, for every position.
\<close>

section \<open>The store\<close>

record 'a list_node =
  node_next :: "nat option"
  node_element :: 'a

record osip_list =
  nb_elt :: int
  list_node_ptr :: "nat option"

type_synonym 'a store = "nat \<rightharpoonup> 'a list_node"

definition osip_list_init :: osip_list where
  "osip_list_init = \<lparr>nb_elt = 0, list_node_ptr = None\<rparr>"

text \<open>Reading a node through a pointer that may be null or dangling.\<close>

definition read_node :: "'a store \<Rightarrow> nat option \<Rightarrow> (nat \<times> 'a list_node) res" where
  "read_node h p = (case p of None \<Rightarrow> Inl Null_pointer
     | Some a \<Rightarrow> (case h a of None \<Rightarrow> Inl Null_pointer | Some nd \<Rightarrow> Inr (a, nd)))"

text \<open>Following \<open>next\<close> a number of times.\<close>

fun walk :: "'a store \<Rightarrow> nat option \<Rightarrow> nat \<Rightarrow> nat option res" where
  "walk h p 0 = Inr p"
| "walk h p (Suc n) = bindR (read_node h p) (\<lambda>(a, nd). walk h (node_next nd) n)"

section \<open>Operations\<close>

definition osip_list_size :: "osip_list \<Rightarrow> int" where
  "osip_list_size li = nb_elt li"

definition osip_list_eol :: "osip_list \<Rightarrow> int \<Rightarrow> int" where
  "osip_list_eol li i = (if i < nb_elt li then 0 else 1)"

text \<open>\<open>new\<close> is what \<open>osip_malloc\<close> returns.\<close>

definition osip_list_add :: "nat option \<Rightarrow> 'a store \<Rightarrow> osip_list \<Rightarrow> 'a \<Rightarrow> int \<Rightarrow> (int \<times> 'a store \<times> osip_list) res" where
  "osip_list_add new h li el pos =
     (case new of
        None \<Rightarrow> Inr (- 1, h, li)
      | Some a \<Rightarrow>
          if nb_elt li = 0 then
            Inr (nb_elt li + 1, h(a \<mapsto> \<lparr>node_next = None, node_element = el\<rparr>),
                 li\<lparr>list_node_ptr := Some a, nb_elt := nb_elt li + 1\<rparr>)
          else let pos = (if pos = - 1 \<or> nb_elt li \<le> pos then nb_elt li else pos) in
          if pos = 0 then
            Inr (nb_elt li + 1, h(a \<mapsto> \<lparr>node_next = list_node_ptr li, node_element = el\<rparr>),
                 li\<lparr>list_node_ptr := Some a, nb_elt := nb_elt li + 1\<rparr>)
          else bindR (walk h (list_node_ptr li) (nat (pos - 1))) (\<lambda>p. bindR (read_node h p) (\<lambda>(b, nd).
            Inr (nb_elt li + 1, h(b \<mapsto> nd\<lparr>node_next := Some a\<rparr>, a \<mapsto> \<lparr>node_next = node_next nd, node_element = el\<rparr>),
                 li\<lparr>nb_elt := nb_elt li + 1\<rparr>))))"

definition osip_list_get_node :: "'a store \<Rightarrow> osip_list \<Rightarrow> int \<Rightarrow> 'a option res" where
  "osip_list_get_node h li pos =
     (if pos < 0 \<or> nb_elt li \<le> pos then Inr None
      else bindR (walk h (list_node_ptr li) (nat pos)) (\<lambda>p. bindR (read_node h p) (\<lambda>(a, nd). Inr (Some (node_element nd)))))"

text \<open>A freed node leaves the store.\<close>

definition osip_list_remove :: "'a store \<Rightarrow> osip_list \<Rightarrow> int \<Rightarrow> (int \<times> 'a store \<times> osip_list) res" where
  "osip_list_remove h li pos =
     (if pos < 0 \<or> nb_elt li \<le> pos then Inr (- 1, h, li)
      else if pos = 0 then
        bindR (read_node h (list_node_ptr li)) (\<lambda>(a, nd).
          Inr (nb_elt li - 1, h(a := None), li\<lparr>list_node_ptr := node_next nd, nb_elt := nb_elt li - 1\<rparr>))
      else bindR (walk h (list_node_ptr li) (nat (pos - 1))) (\<lambda>p. bindR (read_node h p) (\<lambda>(b, nd).
        bindR (read_node h (node_next nd)) (\<lambda>(r, rem).
          Inr (nb_elt li - 1, (h(b \<mapsto> nd\<lparr>node_next := node_next rem\<rparr>))(r := None), li\<lparr>nb_elt := nb_elt li - 1\<rparr>)))))"

section \<open>The list behind the nodes\<close>

text \<open>The addresses of the nodes from a pointer on, and the elements they hold.\<close>

fun chain :: "'a store \<Rightarrow> nat option \<Rightarrow> nat list \<Rightarrow> 'a list \<Rightarrow> bool" where
  "chain h p [] [] \<longleftrightarrow> p = None"
| "chain h p (a # as) (x # xs) \<longleftrightarrow> p = Some a \<and> (\<exists>n. h a = Some \<lparr>node_next = n, node_element = x\<rparr> \<and> chain h n as xs)"
| "chain h p _ _ \<longleftrightarrow> False"

definition represents :: "'a store \<Rightarrow> osip_list \<Rightarrow> nat list \<Rightarrow> 'a list \<Rightarrow> bool" where
  "represents h li as xs \<longleftrightarrow> distinct as \<and> chain h (list_node_ptr li) as xs \<and> nb_elt li = int (length xs)"

lemma chain_length: "chain h p as xs \<Longrightarrow> length as = length xs"
  by (induction h p as xs rule: chain.induct) auto

lemma chain_dom: "chain h p as xs \<Longrightarrow> set as \<subseteq> dom h"
  by (induction h p as xs rule: chain.induct) auto

lemma chain_cong: "chain h p as xs \<Longrightarrow> (\<And>a. a \<in> set as \<Longrightarrow> h' a = h a) \<Longrightarrow> chain h' p as xs"
  by (induction h p as xs rule: chain.induct) auto

text \<open>Walking down a chain.\<close>

lemma walk_chain:
  assumes "chain h p as xs" "n < length as"
  obtains nd where "walk h p n = Inr (Some (as ! n))" "h (as ! n) = Some nd" "node_element nd = xs ! n"
    "chain h (node_next nd) (drop (Suc n) as) (drop (Suc n) xs)"
proof -
  from assms have "\<exists>nd. walk h p n = Inr (Some (as ! n)) \<and> h (as ! n) = Some nd \<and> node_element nd = xs ! n \<and>
      chain h (node_next nd) (drop (Suc n) as) (drop (Suc n) xs)"
  proof (induction n arbitrary: p as xs)
    case 0
    then show ?case by (cases as; cases xs) auto
  next
    case (Suc n)
    then show ?case by (cases as; cases xs) (auto simp: read_node_def)
  qed
  then show thesis using that by blast
qed

text \<open>A node put in, or taken out, behind a node of the chain.\<close>

lemma chain_insert:
  assumes "chain h p as xs" "distinct as" "n < length as" "h (as ! n) = Some nd" "a \<notin> set as"
  shows "chain (h(as ! n \<mapsto> nd\<lparr>node_next := Some a\<rparr>, a \<mapsto> \<lparr>node_next = node_next nd, node_element = el\<rparr>)) p
    (take (Suc n) as @ a # drop (Suc n) as) (take (Suc n) xs @ el # drop (Suc n) xs)"
  using assms
proof (induction n arbitrary: p as xs)
  case 0
  then obtain b bs y ys where "as = b # bs" "xs = y # ys" by (cases as; cases xs) auto
  with 0 show ?case by (auto intro: chain_cong)
next
  case (Suc n)
  then obtain b bs y ys where e: "as = b # bs" "xs = y # ys" by (cases as; cases xs) auto
  with Suc.prems have "b \<noteq> bs ! n" "b \<noteq> a" by (auto simp: nth_mem)
  moreover from Suc.prems e obtain m where "h b = Some \<lparr>node_next = m, node_element = y\<rparr>" "chain h m bs ys" "p = Some b"
    by auto
  ultimately show ?case using Suc.IH [of m bs ys] Suc.prems e by simp
qed

lemma chain_remove:
  assumes "chain h p as xs" "distinct as" "Suc n < length as" "h (as ! n) = Some nd" "h (as ! Suc n) = Some rem"
  shows "chain ((h(as ! n \<mapsto> nd\<lparr>node_next := node_next rem\<rparr>))(as ! Suc n := None)) p
    (take (Suc n) as @ drop (Suc (Suc n)) as) (take (Suc n) xs @ drop (Suc (Suc n)) xs)"
  using assms
proof (induction n arbitrary: p as xs)
  case 0
  then obtain b c bs y z ys where "as = b # c # bs" "xs = y # z # ys"
    by (cases as; cases xs; cases "tl as"; cases "tl xs") auto
  with 0 obtain n where n: "nd = \<lparr>node_next = Some c, node_element = y\<rparr>" "rem = \<lparr>node_next = n, node_element = z\<rparr>"
      "chain h n bs ys" "b \<notin> set bs" "c \<notin> set bs" "b \<noteq> c" "p = Some b" "as = b # c # bs" "xs = y # z # ys"
    by auto
  have "chain ((h(b \<mapsto> nd\<lparr>node_next := node_next rem\<rparr>))(c := None)) n bs ys"
    by (rule chain_cong [OF n(3)]) (use n(4,5) in auto)
  with n show ?case by (simp del: fun_upd_apply) (simp add: n(6))
next
  case (Suc n)
  then obtain b bs y ys where e: "as = b # bs" "xs = y # ys" by (cases as; cases xs) auto
  with Suc.prems have "b \<noteq> bs ! n" "b \<noteq> bs ! Suc n" by (auto simp: nth_mem)
  moreover from Suc.prems e obtain m where "h b = Some \<lparr>node_next = m, node_element = y\<rparr>" "chain h m bs ys" "p = Some b"
    by auto
  ultimately show ?case using Suc.IH [of m bs ys] Suc.prems e by simp
qed

section \<open>Refinement\<close>

text \<open>Where an element goes: at the end for -1 and beyond, else at its position, but never before the first for a negative one.\<close>

definition insert_at :: "int \<Rightarrow> 'a \<Rightarrow> 'a list \<Rightarrow> 'a list" where
  "insert_at pos x xs =
     (let n = (if pos = - 1 \<or> int (length xs) \<le> pos then length xs else if pos < 0 then 1 else nat pos)
      in take n xs @ x # drop n xs)"

definition remove_at :: "nat \<Rightarrow> 'a list \<Rightarrow> 'a list" where
  "remove_at n xs = take n xs @ drop (Suc n) xs"

lemma osip_list_add_represents:
  assumes "represents h li as xs" "h a = None"
  shows "\<exists>h' li' as'. osip_list_add (Some a) h li el pos = Inr (int (length xs) + 1, h', li') \<and>
    represents h' li' as' (insert_at pos el xs)"
proof -
  from assms have r: "distinct as" "chain h (list_node_ptr li) as xs" "nb_elt li = int (length xs)" "length as = length xs"
    using chain_length by (auto simp: represents_def)
  have a: "a \<notin> set as" using chain_dom [OF r(2)] assms(2) by auto
  show ?thesis
  proof (cases "xs = [] \<or> pos = 0")
    case True
    have front: "chain (h(a \<mapsto> \<lparr>node_next = list_node_ptr li, node_element = el\<rparr>)) (Some a) (a # as) (el # xs)"
      using r(2) a by (auto intro: chain_cong)
    have nil: "list_node_ptr li = None" "as = []" if "xs = []" using r(2,4) that by auto
    have "osip_list_add (Some a) h li el pos = Inr (int (length xs) + 1,
        h(a \<mapsto> \<lparr>node_next = list_node_ptr li, node_element = el\<rparr>), li\<lparr>list_node_ptr := Some a, nb_elt := nb_elt li + 1\<rparr>)"
      using True nil r(3) by (auto simp: osip_list_add_def)
    moreover have "insert_at pos el xs = el # xs" using True by (auto simp: insert_at_def Let_def)
    moreover have "represents (h(a \<mapsto> \<lparr>node_next = list_node_ptr li, node_element = el\<rparr>))
        (li\<lparr>list_node_ptr := Some a, nb_elt := nb_elt li + 1\<rparr>) (a # as) (el # xs)"
      using front r(1,3) a by (simp add: represents_def del: fun_upd_apply)
    ultimately show ?thesis by metis
  next
    case False
    let ?n = "if pos = - 1 \<or> int (length xs) \<le> pos then length xs else if pos < 0 then 1 else nat pos"
    let ?m = "?n - 1"
    have m: "?m < length as" "Suc ?m = ?n" "nat ((if pos = - 1 \<or> nb_elt li \<le> pos then nb_elt li else pos) - 1) = ?m"
      using False r(3,4) by (auto simp: nat_diff_distrib' Suc_leI)
    obtain nd where nd: "walk h (list_node_ptr li) ?m = Inr (Some (as ! ?m))" "h (as ! ?m) = Some nd"
      by (rule walk_chain [OF r(2) m(1)])
    note ins = chain_insert [OF r(2,1) m(1) nd(2) a, of el, unfolded m(2)]
    have d: "distinct (take ?n as @ a # drop ?n as)"
      using r(1) a by (auto simp: set_take_disj_set_drop_if_distinct dest: in_set_takeD in_set_dropD)
    have nz: "nb_elt li \<noteq> 0" "(if pos = - 1 \<or> nb_elt li \<le> pos then nb_elt li else pos) \<noteq> 0"
      using False r(3) by auto
    have x: "osip_list_add (Some a) h li el pos = Inr (int (length xs) + 1,
        h(as ! ?m \<mapsto> nd\<lparr>node_next := Some a\<rparr>, a \<mapsto> \<lparr>node_next = node_next nd, node_element = el\<rparr>),
        li\<lparr>nb_elt := nb_elt li + 1\<rparr>)"
      using nz nd unfolding osip_list_add_def Let_def m(3) by (simp add: read_node_def r(3))
    have "represents (h(as ! ?m \<mapsto> nd\<lparr>node_next := Some a\<rparr>, a \<mapsto> \<lparr>node_next = node_next nd, node_element = el\<rparr>))
        (li\<lparr>nb_elt := nb_elt li + 1\<rparr>) (take ?n as @ a # drop ?n as) (insert_at pos el xs)"
      using ins d r(3) unfolding represents_def insert_at_def Let_def by (simp del: fun_upd_apply)
    with x show ?thesis by blast
  qed
qed

lemma osip_list_get_represents:
  assumes "represents h li as xs"
  shows "osip_list_get_node h li pos = Inr (if pos < 0 \<or> int (length xs) \<le> pos then None else Some (xs ! nat pos))"
proof (cases "pos < 0 \<or> int (length xs) \<le> pos")
  case True
  then show ?thesis using assms by (simp add: osip_list_get_node_def represents_def)
next
  case False
  from assms have r: "chain h (list_node_ptr li) as xs" "nb_elt li = int (length xs)" by (simp_all add: represents_def)
  then have "nat pos < length as" using False chain_length [OF r(1)] by (simp add: nat_less_iff)
  from walk_chain [OF r(1) this] obtain nd where "walk h (list_node_ptr li) (nat pos) = Inr (Some (as ! nat pos))"
      "h (as ! nat pos) = Some nd" "node_element nd = xs ! nat pos"
    by blast
  with False r(2) show ?thesis by (simp add: osip_list_get_node_def read_node_def)
qed

lemma osip_list_remove_represents:
  assumes "represents h li as xs"
  shows "\<exists>h' li' as'. osip_list_remove h li pos =
      Inr (if pos < 0 \<or> int (length xs) \<le> pos then - 1 else int (length xs) - 1, h', li') \<and>
    represents h' li' as' (if pos < 0 \<or> int (length xs) \<le> pos then xs else remove_at (nat pos) xs)"
proof (cases "pos < 0 \<or> int (length xs) \<le> pos")
  case True
  then show ?thesis using assms by (auto simp: osip_list_remove_def represents_def)
next
  case False
  from assms have r: "distinct as" "chain h (list_node_ptr li) as xs" "nb_elt li = int (length xs)" "length as = length xs"
    using chain_length by (auto simp: represents_def)
  show ?thesis
  proof (cases "pos = 0")
    case True
    obtain b bs y ys where e: "as = b # bs" "xs = y # ys" using False r(4) True by (cases as; cases xs) auto
    then obtain n where n: "list_node_ptr li = Some b" "h b = Some \<lparr>node_next = n, node_element = y\<rparr>" "chain h n bs ys"
      using r(2) by auto
    have "chain (h(b := None)) n bs ys" using n(3) r(1) e by (auto intro: chain_cong)
    with n e r True show ?thesis by (auto simp: osip_list_remove_def read_node_def represents_def remove_at_def)
  next
    case nz: False
    let ?m = "nat (pos - 1)"
    have m: "Suc ?m < length as" "Suc ?m = nat pos" using False nz r(4) by auto
    have m': "?m < length as" using m(1) by simp
    obtain nd where nd: "walk h (list_node_ptr li) ?m = Inr (Some (as ! ?m))" "h (as ! ?m) = Some nd"
        "chain h (node_next nd) (drop (Suc ?m) as) (drop (Suc ?m) xs)"
      by (rule walk_chain [OF r(2) m'])
    have "drop (Suc ?m) as = as ! Suc ?m # drop (Suc (Suc ?m)) as" using m(1) by (simp add: Cons_nth_drop_Suc)
    with nd(3) obtain rem where rem: "node_next nd = Some (as ! Suc ?m)" "h (as ! Suc ?m) = Some rem"
      by (cases "drop (Suc ?m) xs") auto
    note c = chain_remove [OF r(2,1) m(1) nd(2) rem(2)]
    have d: "distinct (take (Suc ?m) as @ drop (Suc (Suc ?m)) as)"
      using r(1) by (simp add: set_take_disj_set_drop_if_distinct)
    have x: "osip_list_remove h li pos = Inr (int (length xs) - 1,
        (h(as ! ?m \<mapsto> nd\<lparr>node_next := node_next rem\<rparr>))(as ! Suc ?m := None), li\<lparr>nb_elt := nb_elt li - 1\<rparr>)"
      using False nz nd(1,2) rem r(3) by (simp add: osip_list_remove_def read_node_def)
    have "represents ((h(as ! ?m \<mapsto> nd\<lparr>node_next := node_next rem\<rparr>))(as ! Suc ?m := None)) (li\<lparr>nb_elt := nb_elt li - 1\<rparr>)
        (take (Suc ?m) as @ drop (Suc (Suc ?m)) as) (remove_at (nat pos) xs)"
      using c d m r(3,4) False unfolding represents_def remove_at_def m(2) by auto
    with x False show ?thesis by auto
  qed
qed

text \<open>
  Claim C20: the linked list behaves as a list whatever its nodes look like in memory: adding puts the
  element where the position says, reading gives the element of a position or a null pointer outside,
  removing takes out just that element, and no pointer is followed that is null or freed.
\<close>

theorem osip_list_refines:
  assumes "represents h li as xs" "h a = None"
  shows "(\<exists>h' li' as'. osip_list_add (Some a) h li el pos = Inr (int (length xs) + 1, h', li') \<and>
      represents h' li' as' (insert_at pos el xs)) \<and>
    osip_list_get_node h li pos = Inr (if pos < 0 \<or> int (length xs) \<le> pos then None else Some (xs ! nat pos)) \<and>
    (\<exists>h' li' as'. osip_list_remove h li pos =
        Inr (if pos < 0 \<or> int (length xs) \<le> pos then - 1 else int (length xs) - 1, h', li') \<and>
      represents h' li' as' (if pos < 0 \<or> int (length xs) \<le> pos then xs else remove_at (nat pos) xs))"
  using osip_list_add_represents [OF assms] osip_list_get_represents [OF assms(1)]
    osip_list_remove_represents [OF assms(1)] by blast

theorem osip_list_refines_witness:
  "osip_list_get_node [0 \<mapsto> \<lparr>node_next = Some 1, node_element = ''x''\<rparr>, 1 \<mapsto> \<lparr>node_next = None, node_element = ''y''\<rparr>]
     \<lparr>nb_elt = 2, list_node_ptr = Some 0\<rparr> 1 = Inr (Some ''y'')"
  using osip_list_refines [of "[0 \<mapsto> \<lparr>node_next = Some 1, node_element = ''x''\<rparr>, 1 \<mapsto> \<lparr>node_next = None, node_element = ''y''\<rparr>]"
    "\<lparr>nb_elt = 2, list_node_ptr = Some 0\<rparr>" "[0, 1]" "[''x'', ''y'']" 2 "''z''" 1]
  by (simp add: represents_def)

end
