(* ===== verification/Osip_Strings.thy ===== *)
theory Osip_Strings
  imports Osip_Message
begin

text \<open>
  The strings the parser of oSIP works on (osipparser2: osip_port.c, osip_uri.c): pointers into a
  string, searching, and the copies into freshly allocated blocks.

  A pointer into a NUL-terminated string is its offset, an \<open>int\<close>; reading behind the NUL or in
  front of the first character is a fault, and so is a copy that does not fit its block. A block is
  named by its size, the argument of the \<open>osip_malloc\<close> in front of the copy; allocation is taken
  to succeed.
\<close>

section \<open>Pointers into a string\<close>

definition rd :: "string \<Rightarrow> int \<Rightarrow> char res" where
  "rd s p = (if p < 0 \<or> int (length s) < p then Inl Out_of_bounds
             else if p = int (length s) then Inr NUL else Inr (s ! nat p))"

definition strchr :: "string \<Rightarrow> int \<Rightarrow> char \<Rightarrow> int option res" where
  "strchr s p c = (if p < 0 \<or> int (length s) < p then Inl Out_of_bounds
                   else Inr (map_option int (find (\<lambda>i. s ! i = c) [nat p..<length s])))"

definition strend :: "string \<Rightarrow> int" where
  "strend s = int (length s)"

text \<open>\<open>osip_strncpy\<close> of \<open>n\<close> characters from \<open>p\<close> into a block of \<open>m\<close>.\<close>

definition osip_strncpy :: "int \<Rightarrow> string \<Rightarrow> int \<Rightarrow> int \<Rightarrow> string res" where
  "osip_strncpy m s p n =
     (if p < 0 \<or> int (length s) < p then Inl Out_of_bounds
      else if n < 0 \<or> m < n + 1 then Inl Buffer_overflow
      else Inr (take (nat n) (drop (nat p) s)))"

definition is_blank :: "char \<Rightarrow> bool" where
  "is_blank c \<longleftrightarrow> c = CHR '' '' \<or> c = CR \<or> c = LF \<or> c = CHR 0x09"

text \<open>The two loops of \<open>osip_clrncpy\<close>: the first character kept, and the last; \<open>None\<close> when nothing is left.\<close>

definition skip_blanks :: "string \<Rightarrow> int \<Rightarrow> int res" where
  "skip_blanks s p = (if p < 0 \<or> int (length s) < p then Inl Out_of_bounds
                      else Inr (p + int (length (takeWhile is_blank (drop (nat p) s)))))"

function trim_end :: "string \<Rightarrow> int \<Rightarrow> int \<Rightarrow> int option res" where
  "trim_end s pbeg pend =
     bindR (rd s pend) (\<lambda>c. if is_blank c
       then if pend - 1 < pbeg then Inr None else trim_end s pbeg (pend - 1)
       else Inr (Some pend))"
  by pat_completeness auto

termination trim_end
  by (relation "measure (\<lambda>(s, pbeg, pend). nat (pend + 1))") (auto simp: rd_def split: if_splits)

declare trim_end.simps [simp del]

definition osip_clrncpy :: "int \<Rightarrow> string \<Rightarrow> int \<Rightarrow> int \<Rightarrow> string res" where
  "osip_clrncpy m s p n =
     bindR (skip_blanks s p) (\<lambda>pbeg.
     bindR (trim_end s pbeg (p + n - 1)) (\<lambda>r. case r of
         None \<Rightarrow> if m < 1 then Inl Buffer_overflow else Inr []
       | Some pend \<Rightarrow> let k = pend - pbeg + 1 in
           if k < 0 \<or> m < k + 1 \<or> m < n then Inl Buffer_overflow
           else Inr (take (nat k) (drop (nat pbeg) s))))"

definition osip_clrspace :: "string \<Rightarrow> string" where
  "osip_clrspace w = rev (dropWhile is_blank (rev (dropWhile is_blank w)))"

text \<open>The first separator, if it comes before the other one; \<open>NUL\<close> is no other one.\<close>

definition next_separator :: "string \<Rightarrow> int \<Rightarrow> char \<Rightarrow> char \<Rightarrow> int option res" where
  "next_separator s ch separator_to_find before_separator =
     bindR (strchr s ch separator_to_find) (\<lambda>ind. case ind of None \<Rightarrow> Inr None | Some i \<Rightarrow>
     bindR (if before_separator = NUL then Inr None else strchr s ch before_separator) (\<lambda>tmp.
       Inr (case tmp of None \<Rightarrow> Some i | Some t \<Rightarrow> if i < t then Some i else None)))"

section \<open>Tokens and quotes\<close>

text \<open>The value up to a separator that must come before the end of the line; \<open>None\<close> is -1.\<close>

definition osip_set_next_token :: "string \<Rightarrow> int \<Rightarrow> char \<Rightarrow> (string \<times> int) option res" where
  "osip_set_next_token s buf end_separator =
     (if buf < 0 \<or> int (length s) < buf then Inl Out_of_bounds
      else let sep = buf + int (length (takeWhile (\<lambda>c. c \<noteq> end_separator \<and> c \<noteq> CR \<and> c \<noteq> LF) (drop (nat buf) s)))
      in bindR (rd s sep) (\<lambda>c.
        if (c = CR \<or> c = LF) \<and> c \<noteq> end_separator then Inr None
        else if c = NUL \<or> sep = buf then Inr None
        else bindR (osip_strncpy (sep - buf + 1) s buf (sep - buf)) (\<lambda>dest. Inr (Some (dest, sep + 1)))))"

text \<open>
  The next quote that is not escaped, looked for from a quote on: \<open>i\<close> counts the backslashes in
  front of it.
\<close>

function quote_loop :: "string \<Rightarrow> int \<Rightarrow> int \<Rightarrow> int \<Rightarrow> int option res" where
  "quote_loop s qstring quote i =
     bindR (rd s (quote - i)) (\<lambda>c.
       if c \<noteq> CHR 0x5C \<and> odd i then Inr (Some quote)
       else bindR (if c = CHR 0x5C then Inr (Some (quote, i + 1))
                   else bindR (strchr s (quote + 1) (CHR 0x22)) (\<lambda>r. Inr (map_option (\<lambda>q. (q, 1)) r))) (\<lambda>r. case r of
           None \<Rightarrow> Inr None
         | Some (quote', i') \<Rightarrow>
             if quote' - i' = qstring - 1 then
               bindR (rd s qstring) (\<lambda>q.
                 if even (if q = CHR 0x5C then i' + 1 else i') then Inr (Some quote')
                 else bindR (strchr s (quote' + 1) (CHR 0x22)) (\<lambda>r. case r of
                     None \<Rightarrow> Inr None | Some quote'' \<Rightarrow> quote_loop s (quote' + 1) quote'' 1))
             else quote_loop s qstring quote' i'))"
  by pat_completeness auto

lemma strchr_Some:
  assumes "strchr s p c = Inr (Some q)"
  shows "0 \<le> p \<and> p \<le> q \<and> q < int (length s) \<and> s ! nat q = c \<and> (\<forall>j. p \<le> int j \<and> int j < q \<longrightarrow> s ! j \<noteq> c)"
proof -
  from assms have p: "0 \<le> p" "p \<le> int (length s)" by (auto simp: strchr_def split: if_splits)
  with assms obtain i where i: "q = int i" "find (\<lambda>i. s ! i = c) [nat p..<length s] = Some i"
    by (auto simp: strchr_def)
  from i(2) obtain k where k: "k < length s - nat p" "s ! (nat p + k) = c" "i = nat p + k"
      "\<forall>j<k. s ! (nat p + j) \<noteq> c"
    by (auto simp: find_Some_iff)
  have "s ! j \<noteq> c" if "p \<le> int j" "int j < q" for j
    using k(4) [rule_format, of "j - nat p"] that p(1) i(1) k(3) by simp
  moreover have "nat q = nat p + k" using i(1) k(3) by (simp only: nat_int)
  ultimately show ?thesis using p i(1) k by auto
qed

termination quote_loop
  by (relation "measures [\<lambda>(s, qstring, quote, i). nat (int (length s) - quote), \<lambda>(s, qstring, quote, i). nat (quote - i + 1)]")
    (auto simp: rd_def res_simps dest!: strchr_Some split: if_splits)

declare quote_loop.simps [simp del]

definition osip_quote_find :: "string \<Rightarrow> int \<Rightarrow> int option res" where
  "osip_quote_find s qstring =
     bindR (strchr s qstring (CHR 0x22)) (\<lambda>r. case r of
         None \<Rightarrow> Inr None
       | Some quote \<Rightarrow> if quote = qstring then Inr (Some quote) else quote_loop s qstring quote 1)"

section \<open>Steps that do not fault\<close>

named_theorems ensures_rules \<open>what the string operations ensure when their pointers are good\<close>

abbreviation within :: "string \<Rightarrow> int \<Rightarrow> bool" where
  "within s p \<equiv> 0 \<le> p \<and> p \<le> int (length s)"

text \<open>A pointer to a character, found from another one on.\<close>

definition points_to :: "string \<Rightarrow> char \<Rightarrow> int \<Rightarrow> int \<Rightarrow> bool" where
  "points_to s c p q \<longleftrightarrow> p \<le> q \<and> q < int (length s) \<and> s ! nat q = c"

lemma ensures_strchr [ensures_rules]:
  "within s p \<Longrightarrow> ensures (strchr s p c) (\<lambda>r. \<forall>q. r = Some q \<longrightarrow> points_to s c p q)"
  by (cases "strchr s p c")
    (auto simp: points_to_def dest!: strchr_Some, auto simp: strchr_def split: if_splits)

lemma ensures_next_separator [ensures_rules]:
  assumes "within s p"
  shows "ensures (next_separator s p c d) (\<lambda>r. \<forall>q. r = Some q \<longrightarrow> points_to s c p q)"
  unfolding next_separator_def
proof (rule ensures_bind [OF ensures_strchr [OF assms]])
  fix r
  assume r: "\<forall>q. r = Some q \<longrightarrow> points_to s c p q"
  show "ensures (case r of None \<Rightarrow> Inr None | Some i \<Rightarrow>
      bindR (if d = NUL then Inr None else strchr s p d) (\<lambda>tmp.
        Inr (case tmp of None \<Rightarrow> Some i | Some t \<Rightarrow> if i < t then Some i else None)))
    (\<lambda>r. \<forall>q. r = Some q \<longrightarrow> points_to s c p q)"
  proof (cases r)
    case (Some i)
    have "ensures (if d = NUL then Inr None else strchr s p d) (\<lambda>_. True)"
      using ensures_mono [OF ensures_strchr [OF assms]] by simp
    with Some r show ?thesis by (auto intro!: ensures_bind [where Q = "\<lambda>_. True"] split: option.splits)
  qed simp
qed

lemma ensures_strncpy [ensures_rules]:
  "within s p \<Longrightarrow> 0 \<le> n \<Longrightarrow> n + 1 \<le> m \<Longrightarrow> 
   ensures (osip_strncpy m s p n) (\<lambda>w. w = take (nat n) (drop (nat p) s))"
  by (simp add: osip_strncpy_def)

lemma ensures_rd [ensures_rules]: "within s p \<Longrightarrow> ensures (rd s p) (\<lambda>_. True)"
  by (simp add: rd_def)

text \<open>The same as elimination rules.\<close>

lemma strchr_defined:
  assumes "within s p"
  obtains r where "strchr s p c = Inr r" "\<And>q. r = Some q \<Longrightarrow> points_to s c p q"
  using ensures_strchr [OF assms, of c] by (auto simp: ensures_iff)

lemma next_separator_defined:
  assumes "within s p"
  obtains r where "next_separator s p c d = Inr r" "\<And>q. r = Some q \<Longrightarrow> points_to s c p q"
  using ensures_next_separator [OF assms, of c d] by (auto simp: ensures_iff)

lemma strncpy_defined: "within s p \<Longrightarrow> 0 \<le> n \<Longrightarrow> n + 1 \<le> m \<Longrightarrow> osip_strncpy m s p n = Inr (take (nat n) (drop (nat p) s))"
  by (simp add: osip_strncpy_def)

lemma rd_defined: "within s p \<Longrightarrow> \<exists>c. rd s p = Inr c"
  by (simp add: rd_def)

section \<open>Copying without blanks\<close>

text \<open>
  \<open>osip_clrncpy\<close> is there to replace a copy followed by \<open>osip_clrspace\<close>; on at least one
  character the two agree.
\<close>

lemma rd_nth: "p < length s \<Longrightarrow> rd s (int p) = Inr (s ! p)"
  by (simp add: rd_def)

lemma trim_end_last:
  assumes "q \<le> e" "e < length s" "\<not> is_blank (s ! q)" "\<forall>j. q < j \<and> j \<le> e \<longrightarrow> is_blank (s ! j)" "b \<le> int q"
  shows "trim_end s b (int e) = Inr (Some (int q))"
  using assms
proof (induction "e - q" arbitrary: e)
  case 0
  then show ?case by (subst trim_end.simps) (simp add: rd_nth)
next
  case (Suc n)
  then obtain e' where e: "e = Suc e'" by (cases e) auto
  with Suc.hyps(2) Suc.prems have step: "is_blank (s ! e)" "trim_end s b (int e') = Inr (Some (int q))" "b \<le> int e'"
    by (auto intro: Suc.hyps(1))
  have "rd s (int e) = Inr (s ! e)" by (rule rd_nth [OF Suc.prems(2)])
  moreover have "int e - 1 = int e'" using e by simp
  ultimately show ?case using step by (simp only: trim_end.simps [of s b "int e"] bindR.simps if_True) simp
qed

lemma trim_end_blank: "e < length s \<Longrightarrow> is_blank (s ! e) \<Longrightarrow> int e < b + 1 \<Longrightarrow> trim_end s b (int e) = Inr None"
  by (subst trim_end.simps) (simp add: rd_nth)

text \<open>Any text is its core between blanks.\<close>

lemma blank_core:
  obtains bs core es where "t = bs @ core @ es" "list_all is_blank bs" "list_all is_blank es" "osip_clrspace t = core"
    "core = [] \<Longrightarrow> es = []" "core \<noteq> [] \<Longrightarrow> \<not> is_blank (hd core) \<and> \<not> is_blank (last core)"
proof -
  let ?u = "dropWhile is_blank t"
  let ?core = "rev (dropWhile is_blank (rev ?u))" and ?es = "rev (takeWhile is_blank (rev ?u))"
  have u: "?u = ?core @ ?es" by (metis rev_append rev_rev_ident takeWhile_dropWhile_id)
  have es: "list_all is_blank ?es" by (auto simp: list_all_iff dest: set_takeWhileD)
  have nb: "?u \<noteq> [] \<Longrightarrow> \<not> is_blank (hd ?u)" by (metis hd_dropWhile)
  have core: "?core = [] \<Longrightarrow> ?es = []"
    using nb es u by (metis append_Nil hd_in_set list_all_iff)
  show thesis
  proof (rule that [of "takeWhile is_blank t" ?core ?es])
    show "t = takeWhile is_blank t @ ?core @ ?es" using u by (metis takeWhile_dropWhile_id)
    show "list_all is_blank (takeWhile is_blank t)" by (auto simp: list_all_iff dest: set_takeWhileD)
    show "osip_clrspace t = ?core" by (simp add: osip_clrspace_def)
    show "?core = [] \<Longrightarrow> ?es = []" by (rule core)
    assume ne: "?core \<noteq> []"
    then have "hd ?core = hd ?u" using u by (metis hd_append2)
    moreover have "?u \<noteq> []" using ne by (metis dropWhile.simps(1) rev.simps(1))
    moreover have "\<not> is_blank (last ?core)"
      using ne by (metis hd_dropWhile last_rev rev.simps(1))
    ultimately show "\<not> is_blank (hd ?core) \<and> \<not> is_blank (last ?core)" using nb by metis
  qed (rule es)
qed

lemma clrncpy_blank:
  assumes "s = A @ bs @ R" "list_all is_blank bs" "p = int (length A)" "n = int (length bs)" "1 \<le> n" "1 \<le> m"
  shows "osip_clrncpy m s p n = Inr []"
proof -
  have bs: "bs \<noteq> []" using assms(4,5) by auto
  let ?b = "p + int (length bs) + int (length (takeWhile is_blank R))" and ?e = "length A + (length bs - 1)"
  have "skip_blanks s p = Inr ?b"
    using assms(1-4) by (simp add: skip_blanks_def list_all_iff)
  moreover have "trim_end s ?b (int ?e) = Inr None"
  proof (rule trim_end_blank)
    show "?e < length s" using assms(1) bs by (cases bs) auto
    have "s ! ?e = bs ! (length bs - 1)" using assms(1) bs by (simp add: nth_append)
    then show "is_blank (s ! ?e)" using assms(2) bs by (simp add: list_all_length)
    show "int ?e < ?b + 1" using assms(3) by simp
  qed
  moreover have "p + n - 1 = int ?e" using assms(3,4) bs by (cases bs) auto
  ultimately show ?thesis using assms(6) by (simp add: osip_clrncpy_def)
qed

lemma clrncpy_core:
  assumes "s = A @ bs @ core @ es @ R" "list_all is_blank bs" "list_all is_blank es"
    "core \<noteq> []" "\<not> is_blank (hd core)" "\<not> is_blank (last core)"
    "p = int (length A)" "n = int (length bs + length core + length es)" "n + 1 \<le> m"
  shows "osip_clrncpy m s p n = Inr core"
proof -
  let ?q = "length A + length bs + length core - 1" and ?e = "length A + nat n - 1"
  have c1: "1 \<le> length core" using assms(4) by (cases core) auto
  have "skip_blanks s p = Inr (p + int (length bs))"
    using assms by (cases core) (simp_all add: skip_blanks_def list_all_iff)
  moreover have "trim_end s (p + int (length bs)) (int ?e) = Inr (Some (int ?q))"
  proof (rule trim_end_last)
    show "?q \<le> ?e" "?e < length s" using assms(1,8) c1 by auto
    have "s ! ?q = last core" using assms(1,4) by (cases core rule: rev_cases) (auto simp: nth_append)
    then show "\<not> is_blank (s ! ?q)" using assms(6) by simp
    show "p + int (length bs) \<le> int ?q" using assms(7) c1 by linarith
    show "\<forall>j. ?q < j \<and> j \<le> ?e \<longrightarrow> is_blank (s ! j)"
    proof (intro allI impI)
      fix j
      assume j: "?q < j \<and> j \<le> ?e"
      with c1 have "length A + length bs + length core \<le> j" by linarith
      then obtain k where k: "j = length A + length bs + length core + k" by (metis le_Suc_ex)
      with j assms(8) c1 have "k < length es" by linarith
      moreover from this have "s ! j = es ! k" by (simp add: k assms(1) nth_append)
      ultimately show "is_blank (s ! j)" using assms(3) by (simp add: list_all_length)
    qed
  qed
  moreover have "p + n - 1 = int ?e" using assms(7,8) c1 by linarith
  moreover have "take (nat (int (length core))) (drop (nat (p + int (length bs))) s) = core"
    using assms(1,7) by (simp add: nat_add_distrib)
  moreover have "int ?q - (p + int (length bs)) + 1 = int (length core)" using assms(7) c1 by linarith
  moreover have "\<not> (int (length core) < 0 \<or> m < int (length core) + 1 \<or> m < n)" using assms(8,9) by linarith
  ultimately show ?thesis by (simp only: osip_clrncpy_def bindR.simps option.case Let_def if_False)
qed

lemma clrncpy_trims:
  assumes "0 \<le> p" "1 \<le> n" "p + n \<le> int (length s)" "n + 1 \<le> m"
  shows "osip_clrncpy m s p n = Inr (osip_clrspace (take (nat n) (drop (nat p) s))) \<and>
    osip_strncpy m s p n = Inr (take (nat n) (drop (nat p) s))"
proof -
  let ?t = "take (nat n) (drop (nat p) s)"
  obtain bs core es where t: "?t = bs @ core @ es" "list_all is_blank bs" "list_all is_blank es" "osip_clrspace ?t = core"
      "core = [] \<Longrightarrow> es = []" "core \<noteq> [] \<Longrightarrow> \<not> is_blank (hd core) \<and> \<not> is_blank (last core)"
    using blank_core by blast
  let ?A = "take (nat p) s" and ?R = "drop (nat p + nat n) s"
  have s: "s = ?A @ bs @ core @ es @ ?R"
    using t(1) by (metis append_assoc append_take_drop_id drop_drop add.commute)
  have p: "p = int (length ?A)" using assms by simp
  have n: "n = int (length bs + length core + length es)"
    using assms arg_cong [OF t(1), of length] by simp
  have "osip_clrncpy m s p n = Inr core"
  proof (cases "core = []")
    case True
    with s t(5) have "s = ?A @ bs @ ?R" by simp
    from clrncpy_blank [OF this t(2) p] n True t(5) assms show ?thesis by simp
  next
    case False
    with t(6) clrncpy_core [OF s t(2,3) False _ _ p n assms(4)] show ?thesis by blast
  qed
  with t(4) assms show ?thesis by (simp add: osip_strncpy_def)
qed

text \<open>
  On at least one character \<open>osip_clrncpy\<close>, which copies without the blanks around the
  text in one pass, gives what \<open>osip_strncpy\<close> and \<open>osip_clrspace\<close> give one after the other,
  without reading or writing out of bounds.
\<close>

theorem clrncpy_equal:
  assumes "0 \<le> p" "1 \<le> n" "p + n \<le> int (length s)" "n + 1 \<le> m"
  shows "osip_clrncpy m s p n = Inr (osip_clrspace (take (nat n) (drop (nat p) s))) \<and>
    osip_strncpy m s p n = Inr (take (nat n) (drop (nat p) s))"
  using clrncpy_trims [OF assms] .

theorem clrncpy_equal_witness:
  "osip_clrncpy 9 '' sip: x y  ;'' 5 6 = Inr ''x y'' \<and> osip_strncpy 9 '' sip: x y  ;'' 5 6 = Inr '' x y  ''"
proof -
  have "(0::int) \<le> 5 \<and> (1::int) \<le> 6 \<and> (5::int) + 6 \<le> int (length '' sip: x y  ;'') \<and> (6::int) + 1 \<le> 9"
    "osip_clrspace (take (nat 6) (drop (nat 5) '' sip: x y  ;'')) = ''x y''"
    by code_simp+
  then show ?thesis using clrncpy_equal [of 5 6 "'' sip: x y  ;''" 9] by simp
qed

lemma ensures_clrncpy [ensures_rules]:
  "0 \<le> p \<Longrightarrow> 1 \<le> n \<Longrightarrow> p + n \<le> int (length s) \<Longrightarrow> n + 1 \<le> m \<Longrightarrow> ensures (osip_clrncpy m s p n) (\<lambda>_. True)"
  using clrncpy_trims by simp

section \<open>Quotes\<close>

text \<open>Looking for a quote never leaves the string, although it looks back.\<close>

lemma ensures_quote_loop:
  assumes "0 \<le> qstring" "1 \<le> i" "quote < int (length s)" "s ! nat quote = CHR 0x22"
    "qstring \<le> quote - i \<or> i = 1 \<and> quote = qstring \<and> 1 \<le> quote \<and> s ! nat (quote - 1) = CHR 0x22"
  shows "ensures (quote_loop s qstring quote i) (\<lambda>r. \<forall>q. r = Some q \<longrightarrow> points_to s (CHR 0x22) quote q)"
  using assms
proof (induction s qstring quote i rule: quote_loop.induct)
  case (1 s qstring quote i)
  have at: "rd s (quote - i) = Inr (s ! nat (quote - i))" "0 \<le> quote - i"
    using "1.prems" by (auto simp: rd_def)
  let ?c = "s ! nat (quote - i)"
  show ?case
  proof (cases "?c \<noteq> CHR 0x5C \<and> odd i")
    case True
    with at "1.prems" show ?thesis by (subst quote_loop.simps) (simp add: points_to_def)
  next
    case False
    let ?next = "if ?c = CHR 0x5C then Inr (Some (quote, i + 1))
      else bindR (strchr s (quote + 1) (CHR 0x22)) (\<lambda>r. Inr (map_option (\<lambda>q. (q, 1)) r))"
    have w: "within s (quote + 1)" using "1.prems" by auto
    have nxt: "ensures ?next (\<lambda>r. \<forall>q j. r = Some (q, j) \<longrightarrow> q < int (length s) \<and> s ! nat q = CHR 0x22 \<and> 1 \<le> j \<and> quote \<le> q \<and>
        qstring - 1 \<le> q - j)"
    proof (cases "?c = CHR 0x5C")
      case True
      with "1.prems" show ?thesis by auto
    next
      case False
      show ?thesis
        by (simp only: False if_False, rule ensures_bind [OF ensures_strchr [OF w]])
          (use "1.prems" in \<open>auto simp: points_to_def\<close>)
    qed
    then obtain r where r: "?next = Inr r" "\<forall>q j. r = Some (q, j) \<longrightarrow> q < int (length s) \<and> s ! nat q = CHR 0x22 \<and> 1 \<le> j \<and> quote \<le> q \<and>
        qstring - 1 \<le> q - j"
      by (auto simp: ensures_iff)
    note step = quote_loop.simps [of s qstring quote i, unfolded at(1) bindR.simps if_not_P [OF False] r(1)]
    show ?thesis
    proof (cases r)
      case None
      then show ?thesis by (simp add: step)
    next
      case (Some qj)
      obtain quote' i' where qj: "qj = (quote', i')" by (cases qj)
      note ok = r(2) [unfolded Some qj, rule_format, OF refl]
      have wq: "within s qstring" using "1.prems" by auto
      show ?thesis
      proof (cases "quote' - i' = qstring - 1")
        case stop: True
        have w': "within s (quote' + 1)" using ok "1.prems" by auto
        obtain c where c: "rd s qstring = Inr c" using ensures_rd [OF wq] by (auto simp: ensures_iff)
        obtain r'' where r'': "strchr s (quote' + 1) (CHR 0x22) = Inr r''"
            "\<forall>q. r'' = Some q \<longrightarrow> points_to s (CHR 0x22) (quote' + 1) q"
          using ensures_strchr [OF w'] by (auto simp: ensures_iff)
        have "ensures (quote_loop s (quote' + 1) q 1) (\<lambda>r. \<forall>x. r = Some x \<longrightarrow> points_to s (CHR 0x22) q x)"
          if "r'' = Some q" "\<not> even (if c = CHR 0x5C then i' + 1 else i')" for q
        proof (rule "1.IH"(1) [OF at(1) False r(1) Some qj [symmetric] stop c that(2) r''(1) that(1)])
          show "0 \<le> quote' + 1" "(1::int) \<le> 1" using ok "1.prems" by auto
          have p: "points_to s (CHR 0x22) (quote' + 1) q" using r''(2) that(1) by blast
          then show "q < int (length s)" "s ! nat q = CHR 0x22" by (auto simp: points_to_def)
          show "quote' + 1 \<le> q - 1 \<or> (1::int) = 1 \<and> q = quote' + 1 \<and> 1 \<le> q \<and> s ! nat (q - 1) = CHR 0x22"
            using p ok "1.prems" by (auto simp: points_to_def)
        qed
        with Some qj stop c r'' ok show ?thesis
          by (auto simp: step points_to_def split: option.splits elim!: ensures_mono)
      next
        case go: False
        have "ensures (quote_loop s qstring quote' i') (\<lambda>r. \<forall>x. r = Some x \<longrightarrow> points_to s (CHR 0x22) quote' x)"
          by (rule "1.IH"(2) [OF at(1) False r(1) Some qj [symmetric] go])
            (use ok go "1.prems" in auto)
        with Some qj go ok show ?thesis
          by (auto simp: step points_to_def elim!: ensures_mono)
      qed
    qed
  qed
qed

lemma ensures_quote_find [ensures_rules]:
  assumes "within s p"
  shows "ensures (osip_quote_find s p) (\<lambda>r. \<forall>q. r = Some q \<longrightarrow> points_to s (CHR 0x22) p q)"
  unfolding osip_quote_find_def
proof (rule ensures_bind [OF ensures_strchr [OF assms]])
  fix r
  assume r: "\<forall>q. r = Some q \<longrightarrow> points_to s (CHR 0x22) p q"
  have "ensures (quote_loop s p q 1) (\<lambda>r. \<forall>x. r = Some x \<longrightarrow> points_to s (CHR 0x22) q x)"
    if "r = Some q" "q \<noteq> p" for q
    by (rule ensures_quote_loop) (use r that assms in \<open>auto simp: points_to_def\<close>)
  with r show "ensures (case r of None \<Rightarrow> Inr None | Some quote \<Rightarrow> if quote = p then Inr (Some quote) else quote_loop s p quote 1)
      (\<lambda>r. \<forall>q. r = Some q \<longrightarrow> points_to s (CHR 0x22) p q)"
    by (auto split: option.splits simp: points_to_def elim!: ensures_mono)
qed

end
