(* ===== verification/Osip_Uri.thy ===== *)
theory Osip_Uri
  imports Osip_Strings
begin

text \<open>
  SIP addresses (osipparser2: osip_uri.c): reading one from text, writing one to text, and the escaping
  of its parts.

  A result \<open>(-1, url)\<close> is the error return, \<open>url\<close> holding what was stored until then.
\<close>

section \<open>Escaping\<close>

definition is_alphanum :: "char \<Rightarrow> bool" where
  "is_alphanum c \<longleftrightarrow> (let n = of_char c :: nat in 97 \<le> n \<and> n \<le> 122 \<or> 65 \<le> n \<and> n \<le> 90 \<or> 48 \<le> n \<and> n \<le> 57)"

definition userinfo_def :: string where "userinfo_def = ''-_.!~*'()&=+$,;?/''"
definition password_def :: string where "password_def = ''-_.!~*'()&=+$,''"
definition uri_param_def :: string where "uri_param_def = ''-_.!~*'()[]/:&+$''"
definition header_param_def :: string where "header_param_def = ''-_.!~*'()[]/?:+$''"

definition unreserved :: "string \<Rightarrow> char \<Rightarrow> bool" where
  "unreserved d c \<longleftrightarrow> is_alphanum c \<or> c \<in> set d"

definition percent :: "char \<Rightarrow> string" where
  "percent c = [CHR ''%'', hex_digit (of_char c div 16), hex_digit (of_char c mod 16)]"

text \<open>The block that holds the result grows when it has to; \<open>sprintf\<close> adds a NUL to its three characters.\<close>

fun escape_loop :: "string \<Rightarrow> string \<Rightarrow> nat \<Rightarrow> nat \<Rightarrow> string \<Rightarrow> string res" where
  "escape_loop d [] alloc newlen ns = (if length ns < alloc then Inr ns else Inl Buffer_overflow)"
| "escape_loop d (c # s) alloc newlen ns =
     (if unreserved d c then
        if length ns < alloc then escape_loop d s alloc newlen (ns @ [c]) else Inl Buffer_overflow
      else let newlen = newlen + 2; alloc = (if alloc < newlen then alloc * 2 else alloc) in
        if length ns + 4 \<le> alloc then escape_loop d s alloc newlen (ns @ percent c) else Inl Buffer_overflow)"

definition osip_uri_escape :: "string \<Rightarrow> string \<Rightarrow> string res" where
  "osip_uri_escape d s = escape_loop d s (length s + 1) (length s + 1) []"

text \<open>
  \<open>sscanf(s, "%02X", &hex)\<close>: white space, then at most two characters, a sign among them; the
  prefix \<open>0x\<close> without a digit behind it is no number.
\<close>

definition hex_value :: "char \<Rightarrow> int option" where
  "hex_value c = (let n = of_char c :: int in
     if 48 \<le> n \<and> n \<le> 57 then Some (n - 48) else if 97 \<le> n \<and> n \<le> 102 then Some (n - 87)
     else if 65 \<le> n \<and> n \<le> 70 then Some (n - 55) else None)"

definition sscanf_hex :: "string \<Rightarrow> int option" where
  "sscanf_hex s = (case dropWhile is_space s of
      [] \<Rightarrow> None
    | c # t \<Rightarrow>
        if c = CHR ''-'' \<or> c = CHR ''+'' then
          (case t of [] \<Rightarrow> None | d # _ \<Rightarrow> map_option (\<lambda>v. if c = CHR ''-'' then - v else v) (hex_value d))
        else (case hex_value c of None \<Rightarrow> None | Some v \<Rightarrow>
          (case t of [] \<Rightarrow> Some v | d # _ \<Rightarrow>
             if v = 0 \<and> (d = CHR ''x'' \<or> d = CHR ''X'') then None
             else (case hex_value d of None \<Rightarrow> Some v | Some w \<Rightarrow> Some (16 * v + w)))))"

text \<open>The loop over the rest of the text; a sequence that cannot be read ends it.\<close>

function unescape_loop :: "string \<Rightarrow> string" where
  "unescape_loop [] = []"
| "unescape_loop (c # s) =
     (if c \<noteq> CHR ''%'' then c # unescape_loop s
      else if 2 \<le> length s then
        (case sscanf_hex s of
           None \<Rightarrow> []
         | Some hex \<Rightarrow> char_of (hex mod 256) #
             unescape_loop (if hex_value (s ! 1) \<noteq> None then drop 2 s else drop 1 s))
      else [])"
  by pat_completeness auto

termination unescape_loop
  by (relation "measure length") auto

definition osip_uri_unescape :: "string \<Rightarrow> string" where
  "osip_uri_unescape s = cstr (unescape_loop s)"

section \<open>Parameters\<close>

definition osip_uri_param_set :: "string \<Rightarrow> string option \<Rightarrow> param" where
  "osip_uri_param_set pname pvalue = \<lparr>gname = osip_clrspace pname, gvalue = map_option osip_clrspace pvalue\<rparr>"

definition osip_uri_param_add :: "param list \<Rightarrow> string \<Rightarrow> string option \<Rightarrow> param list" where
  "osip_uri_param_add ps pname pvalue = ps @ [osip_uri_param_set pname pvalue]"

text \<open>
  One parameter, between \<open>params\<close> and \<open>comma\<close>: its name and its value, which are unescaped but
  for the last parameter. \<open>None\<close> is the error return.
\<close>

definition uri_param :: "(string \<Rightarrow> string) \<Rightarrow> string \<Rightarrow> int \<Rightarrow> int option \<Rightarrow> int \<Rightarrow> (string \<times> string option) option res" where
  "uri_param unescape s params equal comma =
     bindR (case equal of None \<Rightarrow> Inr (Some None)
            | Some e \<Rightarrow> if comma - e < 2 then Inr None
                else bindR (osip_strncpy (comma - e) s (e + 1) (comma - e - 1)) (\<lambda>v. Inr (Some (Some (unescape v))))) (\<lambda>pv.
     case pv of None \<Rightarrow> Inr None | Some pvalue \<Rightarrow>
       let equal = (case equal of None \<Rightarrow> comma | Some e \<Rightarrow> e) in
       if equal - params < 2 then Inr None
       else bindR (osip_strncpy (equal - params) s (params + 1) (equal - params - 1)) (\<lambda>n.
         Inr (Some (unescape n, pvalue))))"

function osip_uri_parse_params :: "string \<Rightarrow> int \<Rightarrow> param list \<Rightarrow> (int \<times> param list) res" where
  "osip_uri_parse_params s params ps =
     bindR (next_separator s (params + 1) (CHR ''='') (CHR '';'')) (\<lambda>equal.
     bindR (strchr s (params + 1) (CHR '';'')) (\<lambda>comma. case comma of
         Some comma \<Rightarrow> bindR (uri_param osip_uri_unescape s params equal comma) (\<lambda>r. case r of
             None \<Rightarrow> Inr (- 1, ps)
           | Some (n, v) \<Rightarrow> osip_uri_parse_params s comma (osip_uri_param_add ps n v))
       | None \<Rightarrow> bindR (uri_param id s params equal (strend s)) (\<lambda>r. Inr (case r of
             None \<Rightarrow> (- 1, ps)
           | Some (n, v) \<Rightarrow> (0, osip_uri_param_add ps n v)))))"
  by pat_completeness auto

termination osip_uri_parse_params
  by (relation "measure (\<lambda>(s, params, ps). nat (int (length s) - params))") (auto dest!: strchr_Some)

declare osip_uri_parse_params.simps [simp del]

function osip_uri_parse_headers :: "string \<Rightarrow> int \<Rightarrow> param list \<Rightarrow> (int \<times> param list) res" where
  "osip_uri_parse_headers s headers hs =
     bindR (strchr s headers (CHR ''='')) (\<lambda>equal.
     bindR (strchr s (headers + 1) (CHR ''&'')) (\<lambda>amp. case equal of
         None \<Rightarrow> Inr (- 1, hs)
       | Some equal \<Rightarrow>
           bindR (osip_strncpy (equal - headers) s (headers + 1) (equal - headers - 1)) (\<lambda>hname.
           case amp of
             Some amp \<Rightarrow>
               if amp - equal < 2 then Inr (- 1, hs)
               else bindR (osip_strncpy (amp - equal) s (equal + 1) (amp - equal - 1)) (\<lambda>hvalue.
                 osip_uri_parse_headers s amp
                   (osip_uri_param_add hs (osip_uri_unescape hname) (Some (osip_uri_unescape hvalue))))
           | None \<Rightarrow>
               if strend s - equal + 1 < 2 then Inr (- 1, hs)
               else bindR (osip_strncpy (strend s - equal + 1) s (equal + 1) (strend s - equal)) (\<lambda>hvalue.
                 Inr (0, osip_uri_param_add hs (osip_uri_unescape hname) (Some (osip_uri_unescape hvalue)))))))"
  by pat_completeness auto

termination osip_uri_parse_headers
  by (relation "measure (\<lambda>(s, headers, hs). nat (int (length s) - headers))") (auto dest!: strchr_Some)

declare osip_uri_parse_headers.simps [simp del]

section \<open>Reading an address\<close>

definition osip_uri_init :: uri where
  "osip_uri_init = \<lparr>uri_scheme = None, uri_username = None, uri_password = None, uri_host = None, uri_port = None,
     url_params = [], url_headers = [], uri_string = None\<rparr>"

text \<open>The loops that move a pointer back to \<open>lo\<close>, or on to \<open>hi\<close>, unless a character stops them.\<close>

function scan_back :: "(char \<Rightarrow> bool) \<Rightarrow> string \<Rightarrow> int \<Rightarrow> int \<Rightarrow> int res" where
  "scan_back stop s lo p =
     (if lo < p then bindR (rd s p) (\<lambda>c. if stop c then Inr p else scan_back stop s lo (p - 1)) else Inr p)"
  by pat_completeness auto

termination scan_back
  by (relation "measure (\<lambda>(stop, s, lo, p). nat (p - lo))") auto

declare scan_back.simps [simp del]

function scan_on :: "(char \<Rightarrow> bool) \<Rightarrow> string \<Rightarrow> int \<Rightarrow> int \<Rightarrow> int res" where
  "scan_on stop s p hi =
     (if p < hi then bindR (rd s p) (\<lambda>c. if stop c then Inr p else scan_on stop s (p + 1) hi) else Inr p)"
  by pat_completeness auto

termination scan_on
  by (relation "measure (\<lambda>(stop, s, p, hi). nat (hi - p))") auto

declare scan_on.simps [simp del]

text \<open>What stands between the scheme and the host.\<close>

definition uri_userinfo :: "string \<Rightarrow> int \<Rightarrow> int \<Rightarrow> uri \<Rightarrow> (int \<times> uri) res" where
  "uri_userinfo s username host url =
     bindR (next_separator s (username + 1) (CHR '':'') (CHR ''@'')) (\<lambda>pw.
     bindR (case pw of None \<Rightarrow> Inr (Some url)
            | Some p \<Rightarrow> if host - p < 2 then Inr None
                else bindR (osip_strncpy (host - p) s (p + 1) (host - p - 1)) (\<lambda>v.
                  Inr (Some (url\<lparr>uri_password := Some (osip_uri_unescape v)\<rparr>)))) (\<lambda>r.
     case r of None \<Rightarrow> Inr (- 1, url) | Some url \<Rightarrow>
       let password = (case pw of None \<Rightarrow> host | Some p \<Rightarrow> p) in
       if password - username < 2 then Inr (- 1, url)
       else bindR (osip_strncpy (password - username) s (username + 1) (password - username - 1)) (\<lambda>v.
         Inr (0, url\<lparr>uri_username := Some (osip_uri_unescape v)\<rparr>))))"

text \<open>The headers behind the host; \<open>osip_uri_parse\<close> does not look at the result of reading them.\<close>

definition uri_headers :: "string \<Rightarrow> int \<Rightarrow> uri \<Rightarrow> (int \<times> uri) res" where
  "uri_headers s host url =
     bindR (strchr s host (CHR ''?'')) (\<lambda>h. case h of
         None \<Rightarrow> Inr (strend s, url)
       | Some headers \<Rightarrow> bindR (osip_uri_parse_headers s headers (url_headers url)) (\<lambda>(_, hs).
           Inr (headers, url\<lparr>url_headers := hs\<rparr>)))"

text \<open>Likewise the parameters, which are copied first. \<open>None\<close> is the error return.\<close>

definition uri_params :: "string \<Rightarrow> int \<Rightarrow> int \<Rightarrow> uri \<Rightarrow> (int \<times> uri) option res" where
  "uri_params s host headers url =
     bindR (strchr s host (CHR '';'')) (\<lambda>p. case p of
         None \<Rightarrow> Inr (Some (headers, url))
       | Some params \<Rightarrow>
           if headers - params + 1 < 2 then Inr None
           else bindR (osip_strncpy (headers - params + 1) s params (headers - params)) (\<lambda>tmpbuf.
             bindR (osip_uri_parse_params tmpbuf 0 (url_params url)) (\<lambda>(_, ps).
               Inr (Some (params, url\<lparr>url_params := ps\<rparr>)))))"

definition uri_port_part :: "string \<Rightarrow> int \<Rightarrow> int \<Rightarrow> uri \<Rightarrow> (int \<times> uri) option res" where
  "uri_port_part s host params url =
     bindR (scan_back (\<lambda>c. c = CHR '']'' \<or> c = CHR '':'') s host (params - 1)) (\<lambda>port. bindR (rd s port) (\<lambda>c.
       if c = CHR '':'' then
         if host = port then Inr (Some (params, url))
         else if params - port < 2 \<or> 8 < params - port then Inr None
         else bindR (osip_clrncpy (params - port) s (port + 1) (params - port - 1)) (\<lambda>v.
           Inr (Some (port, url\<lparr>uri_port := Some v\<rparr>)))
       else Inr (Some (params, url))))"

definition uri_host_part :: "string \<Rightarrow> int \<Rightarrow> int \<Rightarrow> uri \<Rightarrow> (int \<times> uri) res" where
  "uri_host_part s host port url =
     bindR (scan_back (\<lambda>c. c = CHR '']'') s host port) (\<lambda>tmp. bindR (rd s tmp) (\<lambda>c.
     bindR (if c = CHR '']''
            then bindR (scan_on (\<lambda>c. c = CHR ''['') s host tmp) (\<lambda>h. Inr (if tmp \<le> h then None else Some (h, tmp)))
            else Inr (Some (host, port))) (\<lambda>r.
     case r of None \<Rightarrow> Inr (- 1, url) | Some (host, port) \<Rightarrow>
       if port - host < 2 then Inr (- 1, url)
       else bindR (osip_clrncpy (port - host) s (host + 1) (port - host - 1)) (\<lambda>v.
         Inr (0, url\<lparr>uri_host := Some v\<rparr>)))))"

text \<open>An address of another scheme is kept as it is.\<close>

definition other_uri :: "string \<Rightarrow> int \<Rightarrow> uri \<Rightarrow> (int \<times> uri) res" where
  "other_uri s tmp url =
     (let i = strend s - (tmp + 1) in
      if i < 2 then Inr (- 1, url)
      else bindR (osip_strncpy (i + 1) s (tmp + 1) i) (\<lambda>v. Inr (0, url\<lparr>uri_string := Some v\<rparr>)))"

definition uri_address :: "string \<Rightarrow> int \<Rightarrow> uri \<Rightarrow> (int \<times> uri) res" where
  "uri_address s host url =
     bindR (uri_headers s host url) (\<lambda>(headers, url).
     bindR (uri_params s host headers url) (\<lambda>r. case r of None \<Rightarrow> Inr (- 1, url) | Some (params, url) \<Rightarrow>
     bindR (uri_port_part s host params url) (\<lambda>r. case r of None \<Rightarrow> Inr (- 1, url) | Some (port, url) \<Rightarrow>
     uri_host_part s host port url)))"

definition osip_uri_parse :: "uri \<Rightarrow> string \<Rightarrow> (int \<times> uri) res" where
  "osip_uri_parse url buf =
     (if buf = [] then Inr (- 1, url)
      else bindR (strchr buf 0 (CHR '':'')) (\<lambda>tmp. case tmp of None \<Rightarrow> Inr (- 1, url) | Some tmp \<Rightarrow>
      if tmp < 2 then Inr (- 1, url)
      else bindR (osip_strncpy (tmp + 1) buf 0 tmp) (\<lambda>scheme.
        let url = url\<lparr>uri_scheme := Some scheme\<rparr> in
        if length scheme < 3 \<or> \<not> strncasecmp0 3 scheme ''sip'' \<and> \<not> strncasecmp0 4 scheme ''sips''
        then other_uri buf tmp url
        else bindR (strchr buf 0 (CHR ''@'')) (\<lambda>at. case at of
            None \<Rightarrow> uri_address buf tmp url
          | Some host \<Rightarrow> bindR (rd buf (tmp + 1)) (\<lambda>c.
              if c = CHR ''@'' then uri_address buf (tmp + 1) url
              else bindR (uri_userinfo buf tmp host url) (\<lambda>(rc, url).
                if rc \<noteq> 0 then Inr (- 1, url) else uri_address buf host url))))))"

section \<open>Writing an address\<close>

text \<open>
  The text is printed into blocks of the computed sizes: \<open>strcat_to cap buf t\<close> is a
  \<open>sprintf\<close> at the end of \<open>buf\<close>.
\<close>

definition param_to_str :: "string \<Rightarrow> nat \<times> string \<Rightarrow> string \<Rightarrow> string option \<Rightarrow> (nat \<times> string) res" where
  "param_to_str sep state n v =
     (let (len, buf) = state; len = len + (case v of None \<Rightarrow> length n + 2 | Some v \<Rightarrow> length n + length v + 3) in
      bindR (strcat_to len buf (sep @ n @ (case v of None \<Rightarrow> [] | Some v \<Rightarrow> ''='' @ v))) (\<lambda>buf. Inr (len, buf)))"

definition uri_param_to_str :: "param \<Rightarrow> nat \<times> string \<Rightarrow> (nat \<times> string) res" where
  "uri_param_to_str u state =
     bindR (osip_uri_escape uri_param_def (gname u)) (\<lambda>n.
     bindR (case gvalue u of None \<Rightarrow> Inr None
            | Some v \<Rightarrow> bindR (osip_uri_escape uri_param_def v) (\<lambda>v. Inr (Some v))) (\<lambda>v. param_to_str '';'' state n v))"

text \<open>A header must have a value: a null one is escaped as a string.\<close>

fun uri_headers_to_str :: "string \<Rightarrow> param list \<Rightarrow> nat \<times> string \<Rightarrow> (nat \<times> string) res" where
  "uri_headers_to_str sep [] state = Inr state"
| "uri_headers_to_str sep (h # hs) state =
     bindR (osip_uri_escape header_param_def (gname h)) (\<lambda>n.
     bindR (deref (gvalue h)) (\<lambda>v. bindR (osip_uri_escape header_param_def v) (\<lambda>v.
     let (len, buf) = state; len = len + length n + length v + 4 in
     bindR (strcat_to len buf (sep @ n @ ''='' @ v)) (\<lambda>buf. uri_headers_to_str ''&'' hs (len, buf)))))"

definition userinfo_to_str :: "nat \<Rightarrow> string \<Rightarrow> uri \<Rightarrow> string res" where
  "userinfo_to_str cap buf url =
     (case uri_username url of None \<Rightarrow> Inr buf | Some u \<Rightarrow>
       bindR (osip_uri_escape userinfo_def u) (\<lambda>u. bindR (strcat_to cap buf u) (\<lambda>buf.
       bindR (case uri_password url of None \<Rightarrow> Inr buf
              | Some p \<Rightarrow> bindR (osip_uri_escape password_def p) (\<lambda>p. strcat_to cap buf ('':'' @ p))) (\<lambda>buf.
       strcat_to cap buf ''@''))))"

text \<open>\<open>None\<close> is the error return.\<close>

definition osip_uri_to_str :: "uri \<Rightarrow> string option res" where
  "osip_uri_to_str url =
     (if uri_host url = None \<and> uri_string url = None then Inr None
      else if uri_scheme url = None \<and> uri_string url \<noteq> None then Inr None
      else let scheme = (case uri_scheme url of None \<Rightarrow> ''sip'' | Some s \<Rightarrow> s) in
      case uri_string url of
        Some s \<Rightarrow> let cap = length scheme + length s + 3 in
          bindR (strcat_to cap [] (scheme @ '':'')) (\<lambda>buf. bindR (strcat_to cap buf s) (\<lambda>buf. Inr (Some buf)))
      | None \<Rightarrow> bindR (deref (uri_host url)) (\<lambda>host.
          let len = length scheme + 1 + length host + 5 +
                (case uri_username url of None \<Rightarrow> 0 | Some u \<Rightarrow> length u * 3 + 1) +
                (case uri_password url of None \<Rightarrow> 0 | Some p \<Rightarrow> length p * 3 + 1) +
                (case uri_port url of None \<Rightarrow> 0 | Some p \<Rightarrow> length p + 3) in
          bindR (strcat_to len [] (scheme @ '':'')) (\<lambda>buf.
          bindR (userinfo_to_str len buf url) (\<lambda>buf.
          bindR (strcat_to len buf (if CHR '':'' \<in> set host then ''['' @ host @ '']'' else host)) (\<lambda>buf.
          bindR (case uri_port url of None \<Rightarrow> Inr buf | Some p \<Rightarrow> strcat_to len buf ('':'' @ p)) (\<lambda>buf.
          bindR (foldR uri_param_to_str (url_params url) (len, buf)) (\<lambda>state.
          bindR (uri_headers_to_str ''?'' (url_headers url) state) (\<lambda>(_, buf). Inr (Some buf)))))))))"

definition osip_uri_to_str_canonical :: "uri \<Rightarrow> string option res" where
  "osip_uri_to_str_canonical url = bindR (osip_uri_to_str url) (\<lambda>r. Inr (map_option osip_uri_unescape r))"

end
