(* ===== verification/Osip_Uri_Correct.thy ===== *)
theory Osip_Uri_Correct
  imports Osip_Uri
begin

text \<open>
  Correctness of the addresses: reading any text stays within it, printing stays within the blocks that
  were computed for it, and what is printed is read back.
\<close>

section \<open>Reading any text\<close>

lemma ensures_uri_param:
  assumes "0 \<le> params" "params < comma" "comma \<le> int (length s)" "\<And>e. equal = Some e \<Longrightarrow> points_to s (CHR ''='') (params + 1) e"
  shows "ensures (uri_param f s params equal comma) (\<lambda>_. True)"
  unfolding uri_param_def using assms
  by (auto simp: points_to_def split: option.splits
      intro!: ensures_bind [where Q = "\<lambda>_. True"] ensures_mono [OF ensures_strncpy])

definition valued :: "param list \<Rightarrow> bool" where
  "valued ps \<longleftrightarrow> list_all (\<lambda>u. gvalue u \<noteq> None) ps"

lemma valued_add: "valued hs \<Longrightarrow> valued (osip_uri_param_add hs n (Some v))"
  by (simp add: valued_def osip_uri_param_add_def osip_uri_param_set_def)

lemma ensures_parse_params:
  "0 \<le> params \<Longrightarrow> params < int (length s) \<Longrightarrow> ensures (osip_uri_parse_params s params ps) (\<lambda>_. True)"
proof (induction s params ps rule: osip_uri_parse_params.induct)
  case (1 s params ps)
  have w: "within s (params + 1)" using "1.prems" by simp
  obtain equal where e: "next_separator s (params + 1) (CHR ''='') (CHR '';'') = Inr equal"
      "\<And>q. equal = Some q \<Longrightarrow> points_to s (CHR ''='') (params + 1) q"
    by (rule next_separator_defined [OF w, where c = "CHR ''=''" and d = "CHR '';''"]) (rule that)
  obtain comma where c: "strchr s (params + 1) (CHR '';'') = Inr comma"
      "\<And>q. comma = Some q \<Longrightarrow> points_to s (CHR '';'') (params + 1) q"
    by (rule strchr_defined [OF w, where c = "CHR '';''"]) (rule that)
  show ?case
  proof (cases comma)
    case None
    have "ensures (uri_param id s params equal (strend s)) (\<lambda>_. True)"
      by (rule ensures_uri_param) (use "1.prems" e in \<open>auto simp: strend_def\<close>)
    with None e c show ?thesis
      by (subst osip_uri_parse_params.simps) (auto simp: ensures_iff split: option.splits)
  next
    case (Some q)
    have "ensures (uri_param osip_uri_unescape s params equal q) (\<lambda>_. True)"
      by (rule ensures_uri_param) (use "1.prems" e c Some in \<open>auto simp: points_to_def\<close>)
    then obtain r where r: "uri_param osip_uri_unescape s params equal q = Inr r" by (auto simp: ensures_iff)
    have "0 \<le> q" "q < int (length s)" using c(2) Some "1.prems" by (auto simp: points_to_def)
    with "1.IH" [OF e(1) c(1) Some r] have "ensures (osip_uri_parse_params s q (osip_uri_param_add ps n v)) (\<lambda>_. True)"
      if "r = Some (n, v)" for n v using that by blast
    with Some e c r show ?thesis
      by (subst osip_uri_parse_params.simps) (auto split: option.splits)
  qed
qed

lemma ensures_parse_headers:
  "0 \<le> headers \<Longrightarrow> headers < int (length s) \<Longrightarrow> s ! nat headers \<noteq> CHR ''='' \<Longrightarrow> valued hs \<Longrightarrow>
   ensures (osip_uri_parse_headers s headers hs) (\<lambda>(_, hs). valued hs)"
proof (induction s headers hs rule: osip_uri_parse_headers.induct)
  case (1 s headers hs)
  have w: "within s headers" "within s (headers + 1)" using "1.prems" by simp_all
  obtain equal where e: "strchr s headers (CHR ''='') = Inr equal"
      "\<And>q. equal = Some q \<Longrightarrow> points_to s (CHR ''='') headers q"
    by (rule strchr_defined [OF w(1), where c = "CHR ''=''"]) (rule that)
  obtain amp where a: "strchr s (headers + 1) (CHR ''&'') = Inr amp"
      "\<And>q. amp = Some q \<Longrightarrow> points_to s (CHR ''&'') (headers + 1) q"
    by (rule strchr_defined [OF w(2), where c = "CHR ''&''"]) (rule that)
  show ?case
  proof (cases equal)
    case None
    with "1.prems" e(1) a(1) show ?thesis by (subst osip_uri_parse_headers.simps) simp
  next
    case (Some q)
    have q: "headers < q" "q < int (length s)" using e(2) [OF Some] "1.prems"
      by (auto simp: points_to_def order_less_le)
    obtain hname where n: "osip_strncpy (q - headers) s (headers + 1) (q - headers - 1) = Inr hname"
      using strncpy_defined [where s = s and p = "headers + 1" and n = "q - headers - 1" and m = "q - headers"] q "1.prems" by (auto simp: strend_def)
    show ?thesis
    proof (cases amp)
      case None
      obtain hvalue where "osip_strncpy (strend s - q + 1) s (q + 1) (strend s - q) = Inr hvalue"
        using strncpy_defined [where s = s and p = "q + 1" and n = "strend s - q" and m = "strend s - q + 1"] q "1.prems" by (auto simp: strend_def)
      with e(1) a(1) n Some None "1.prems" show ?thesis
        by (subst osip_uri_parse_headers.simps) (simp add: valued_add)
    next
      case amp: (Some x)
      have x: "headers + 1 \<le> x" "x < int (length s)" "s ! nat x = CHR ''&''" using a(2) [OF amp] by (auto simp: points_to_def)
      show ?thesis
      proof (cases "x - q < 2")
        case True
        with e(1) a(1) n Some amp "1.prems" show ?thesis by (subst osip_uri_parse_headers.simps) simp
      next
        case False
        obtain hvalue where v: "osip_strncpy (x - q) s (q + 1) (x - q - 1) = Inr hvalue"
          using strncpy_defined [where s = s and p = "q + 1" and n = "x - q - 1" and m = "x - q"] q x False "1.prems" by (auto simp: strend_def)
        from "1.IH" [OF e(1) a(1) Some n amp False v] x "1.prems"
        have "ensures (osip_uri_parse_headers s x (osip_uri_param_add hs (osip_uri_unescape hname) (Some (osip_uri_unescape hvalue)))) (\<lambda>(_, hs). valued hs)"
          by (simp add: valued_add)
        with e(1) a(1) n Some amp False v show ?thesis by (subst osip_uri_parse_headers.simps) simp
      qed
    qed
  qed
qed

lemma ensures_scan_back:
  "lo \<le> p \<Longrightarrow> 0 \<le> lo \<Longrightarrow> p \<le> int (length s) \<Longrightarrow> ensures (scan_back P s lo p) (\<lambda>q. lo \<le> q \<and> q \<le> p)"
proof (induction P s lo p rule: scan_back.induct)
  case (1 P s lo p)
  show ?case
  proof (cases "lo < p")
    case True
    obtain c where c: "rd s p = Inr c" using rd_defined [of p s] "1.prems" by auto
    with "1.IH" [OF True c] "1.prems" True show ?thesis
      by (subst scan_back.simps) (auto elim!: ensures_mono)
  next
    case False
    with "1.prems" show ?thesis by (subst scan_back.simps) simp
  qed
qed

lemma ensures_scan_on:
  "p \<le> hi \<Longrightarrow> 0 \<le> p \<Longrightarrow> hi \<le> int (length s) \<Longrightarrow> ensures (scan_on P s p hi) (\<lambda>q. p \<le> q \<and> q \<le> hi)"
proof (induction P s p hi rule: scan_on.induct)
  case (1 P s p hi)
  show ?case
  proof (cases "p < hi")
    case True
    obtain c where c: "rd s p = Inr c" using rd_defined [of p s] "1.prems" by auto
    with "1.IH" [OF True c] "1.prems" True show ?thesis
      by (subst scan_on.simps) (auto elim!: ensures_mono)
  next
    case False
    with "1.prems" show ?thesis by (subst scan_on.simps) simp
  qed
qed

text \<open>The parts of an address, from a pointer to the character in front of the host on.\<close>

definition host_start :: "string \<Rightarrow> int \<Rightarrow> bool" where
  "host_start s host \<longleftrightarrow> 0 \<le> host \<and> host < int (length s) \<and> s ! nat host \<in> {CHR '':'', CHR ''@''}"

text \<open>What a part leaves alone, and what it ensures.\<close>

definition same_head :: "uri \<Rightarrow> uri \<Rightarrow> bool" where
  "same_head u u' \<longleftrightarrow> uri_scheme u' = uri_scheme u \<and> uri_string u' = uri_string u \<and>
     (valued (url_headers u) \<longrightarrow> valued (url_headers u'))"

definition part_ok :: "string \<Rightarrow> int \<Rightarrow> uri \<Rightarrow> (int \<times> uri) option \<Rightarrow> bool" where
  "part_ok s host url r \<longleftrightarrow> (\<forall>p u. r = Some (p, u) \<longrightarrow> host < p \<and> p \<le> int (length s) \<and> same_head url u)"

definition address_ok :: "uri \<Rightarrow> int \<times> uri \<Rightarrow> bool" where
  "address_ok url = (\<lambda>(rc, u). (rc = 0 \<and> uri_host u \<noteq> None \<or> rc = - 1) \<and> same_head url u)"

lemma ensures_uri_headers:
  assumes "host_start s host"
  shows "valued (url_headers url) \<Longrightarrow> ensures (uri_headers s host url) (\<lambda>(h, u). part_ok s host url (Some (h, u)))"
proof -
  assume v: "valued (url_headers url)"
  have w: "within s host" using assms by (simp add: host_start_def)
  obtain h where h: "strchr s host (CHR ''?'') = Inr h" "\<And>q. h = Some q \<Longrightarrow> points_to s (CHR ''?'') host q"
    by (rule strchr_defined [OF w]) (rule that)
  show ?thesis
  proof (cases h)
    case None
    with assms h(1) show ?thesis by (simp add: uri_headers_def strend_def host_start_def part_ok_def same_head_def)
  next
    case (Some q)
    with h(2) assms have q: "host < q" "q < int (length s)" "s ! nat q = CHR ''?''"
      by (auto simp: points_to_def host_start_def order_less_le)
    with w v have "ensures (osip_uri_parse_headers s q (url_headers url)) (\<lambda>(_, hs). valued hs)"
      by (intro ensures_parse_headers) auto
    with h(1) Some q show ?thesis by (auto simp: uri_headers_def ensures_iff part_ok_def same_head_def)
  qed
qed

lemma ensures_uri_params:
  assumes "host_start s host" "host < headers" "headers \<le> int (length s)"
  shows "ensures (uri_params s host headers url) (part_ok s host url)"
proof -
  have w: "within s host" using assms by (simp add: host_start_def)
  obtain r where r: "strchr s host (CHR '';'') = Inr r" "\<And>q. r = Some q \<Longrightarrow> points_to s (CHR '';'') host q"
    by (rule strchr_defined [OF w]) (rule that)
  show ?thesis
  proof (cases r)
    case None
    with assms r(1) show ?thesis by (simp add: uri_params_def part_ok_def same_head_def)
  next
    case (Some q)
    with r(2) assms have q: "host < q" "q < int (length s)" by (auto simp: points_to_def host_start_def order_less_le)
    show ?thesis
    proof (cases "headers - q + 1 < 2")
      case True
      with r(1) Some show ?thesis by (simp add: uri_params_def part_ok_def)
    next
      case False
      let ?t = "take (nat (headers - q)) (drop (nat q) s)"
      have c: "osip_strncpy (headers - q + 1) s q (headers - q) = Inr ?t"
        by (rule strncpy_defined) (use q w False in auto)
      have "ensures (osip_uri_parse_params ?t 0 (url_params url)) (\<lambda>_. True)"
        by (rule ensures_parse_params) (use q w False assms in auto)
      with r(1) Some False q c show ?thesis by (auto simp: uri_params_def ensures_iff part_ok_def same_head_def)
    qed
  qed
qed

lemma ensures_uri_port:
  assumes "host_start s host" "host < params" "params \<le> int (length s)"
  shows "ensures (uri_port_part s host params url) (part_ok s host url)"
proof -
  obtain port where port: "scan_back (\<lambda>c. c = CHR '']'' \<or> c = CHR '':'') s host (params - 1) = Inr port" "host \<le> port" "port \<le> params - 1"
    using ensures_scan_back [of host "params - 1" s] assms by (auto simp: ensures_iff host_start_def)
  obtain c where c: "rd s port = Inr c" using rd_defined [of port s] port assms by (auto simp: host_start_def)
  have "ensures (osip_clrncpy (params - port) s (port + 1) (params - port - 1)) (\<lambda>_. True)" if "2 \<le> params - port"
    by (rule ensures_clrncpy) (use that port assms in \<open>auto simp: host_start_def\<close>)
  with port c assms show ?thesis by (auto simp: uri_port_part_def ensures_iff part_ok_def same_head_def)
qed

lemma ensures_uri_host:
  assumes "host_start s host" "host < port" "port \<le> int (length s)"
  shows "ensures (uri_host_part s host port url) (address_ok url)"
proof -
  obtain tmp where tmp: "scan_back (\<lambda>c. c = CHR '']'') s host port = Inr tmp" "host \<le> tmp" "tmp \<le> port"
    using ensures_scan_back [of host port s] assms by (auto simp: ensures_iff host_start_def)
  obtain c where c: "rd s tmp = Inr c" using rd_defined [of tmp s] tmp assms by (auto simp: host_start_def)
  obtain h where h: "scan_on (\<lambda>c. c = CHR ''['') s host tmp = Inr h" "host \<le> h" "h \<le> tmp"
    using ensures_scan_on [of host tmp s] tmp assms by (auto simp: ensures_iff host_start_def)
  have copy: "\<exists>v. osip_clrncpy (q - p) s (p + 1) (q - p - 1) = Inr v" if "host \<le> p" "\<not> q - p < 2" "q \<le> port" for p q
    using ensures_clrncpy [of "p + 1" "q - p - 1" s "q - p"] that assms by (auto simp: ensures_iff host_start_def)
  show ?thesis using tmp c h copy [of host port] copy [of h tmp]
    by (auto simp: uri_host_part_def address_ok_def same_head_def)
qed

lemma same_head_trans: "same_head u v \<Longrightarrow> same_head v w \<Longrightarrow> same_head u w"
  by (simp add: same_head_def)

lemma address_ok_trans: "same_head u v \<Longrightarrow> address_ok v r \<Longrightarrow> address_ok u r"
  by (auto simp: address_ok_def intro: same_head_trans)

lemma ensures_uri_address:
  assumes "host_start s host" "valued (url_headers url)"
  shows "ensures (uri_address s host url) (address_ok url)"
proof -
  obtain h u where h: "uri_headers s host url = Inr (h, u)" "host < h" "h \<le> int (length s)" "same_head url u"
    using ensures_uri_headers [OF assms] by (auto simp: ensures_iff part_ok_def)
  obtain r where r: "uri_params s host h u = Inr r" "part_ok s host u r"
    using ensures_uri_params [OF assms(1) h(2,3)] by (auto simp: ensures_iff)
  show ?thesis
  proof (cases r)
    case None
    with h r show ?thesis by (simp add: uri_address_def address_ok_def)
  next
    case (Some pu)
    obtain p u' where pu: "pu = (p, u')" by (cases pu)
    with r(2) Some have p: "host < p" "p \<le> int (length s)" "same_head u u'" by (simp_all add: part_ok_def)
    obtain r' where r': "uri_port_part s host p u' = Inr r'" "part_ok s host u' r'"
      using ensures_uri_port [OF assms(1) p(1,2)] by (auto simp: ensures_iff)
    show ?thesis
    proof (cases r')
      case None
      with h r Some pu p r' show ?thesis by (simp add: uri_address_def address_ok_def same_head_trans [OF h(4) p(3)])
    next
      case r'': (Some qv)
      obtain q v where qv: "qv = (q, v)" by (cases qv)
      with r'(2) r'' have q: "host < q" "q \<le> int (length s)" "same_head u' v" by (simp_all add: part_ok_def)
      have "ensures (uri_host_part s host q v) (address_ok url)"
        using ensures_uri_host [OF assms(1) q(1,2)] address_ok_trans
          [OF same_head_trans [OF same_head_trans [OF h(4) p(3)] q(3)]] by (rule ensures_mono)
      with h r Some pu r' r'' qv show ?thesis by (simp add: uri_address_def)
    qed
  qed
qed

lemma ensures_uri_userinfo:
  assumes "0 \<le> username" "username + 1 \<le> int (length s)" "host \<le> int (length s)"
  shows "ensures (uri_userinfo s username host url) (\<lambda>(_, u). same_head url u)"
proof -
  have w: "within s (username + 1)" using assms by simp
  obtain r where r: "next_separator s (username + 1) (CHR '':'') (CHR ''@'') = Inr r" "\<And>q. r = Some q \<Longrightarrow> points_to s (CHR '':'') (username + 1) q"
    by (rule next_separator_defined [OF w]) (rule that)
  have copy: "\<exists>v. osip_strncpy (q - p) s (p + 1) (q - p - 1) = Inr v" if "0 \<le> p" "\<not> q - p < 2" "q \<le> int (length s)" for p q
    using strncpy_defined [where s = s and p = "p + 1" and n = "q - p - 1" and m = "q - p"] that by simp
  show ?thesis
  proof (cases r)
    case None
    with r(1) copy [of username host] assms show ?thesis by (auto simp: uri_userinfo_def same_head_def)
  next
    case (Some q)
    with r(2) have q: "0 \<le> q" "q < int (length s)" using assms by (auto simp: points_to_def)
    with r(1) Some copy [of q host] copy [of username q] assms show ?thesis
      by (auto simp: uri_userinfo_def same_head_def)
  qed
qed

text \<open>What reading a text gives: an error, or an address with a host or with the text of another scheme.\<close>

definition parsed :: "int \<times> uri \<Rightarrow> bool" where
  "parsed = (\<lambda>(rc, u). (rc = 0 \<and> (uri_host u \<noteq> None \<or> uri_string u \<noteq> None) \<or> rc = - 1) \<and> valued (url_headers u) \<and>
     (rc = 0 \<longrightarrow> uri_scheme u \<noteq> None))"

lemma parsed_error [simp]: "parsed (- 1, u) = valued (url_headers u)"
  by (simp add: parsed_def)

lemma address_parsed: "valued (url_headers u) \<Longrightarrow> uri_scheme u \<noteq> None \<Longrightarrow> address_ok u r \<Longrightarrow> parsed r"
  by (auto simp: address_ok_def parsed_def same_head_def)

lemma ensures_address_parsed:
  "host_start s host \<Longrightarrow> valued (url_headers u) \<Longrightarrow> uri_scheme u \<noteq> None \<Longrightarrow> ensures (uri_address s host u) parsed"
  by (rule ensures_mono [OF ensures_uri_address]) (auto intro: address_parsed)

lemma ensures_uri_parse:
  assumes "valued (url_headers url)"
  shows "ensures (osip_uri_parse url buf) parsed"
proof (cases "buf = []")
  case True
  with assms show ?thesis by (simp add: osip_uri_parse_def parsed_def)
next
  case False
  have w: "within buf 0" by simp
  obtain tmp where t: "strchr buf 0 (CHR '':'') = Inr tmp" "\<And>q. tmp = Some q \<Longrightarrow> points_to buf (CHR '':'') 0 q"
    by (rule strchr_defined [OF w, where c = "CHR '':''"]) (rule that)
  obtain at where a: "strchr buf 0 (CHR ''@'') = Inr at" "\<And>q. at = Some q \<Longrightarrow> points_to buf (CHR ''@'') 0 q"
    by (rule strchr_defined [OF w, where c = "CHR ''@''"]) (rule that)
  show ?thesis
  proof (cases tmp)
    case None
    with False t assms show ?thesis by (simp add: osip_uri_parse_def parsed_def)
  next
    case (Some q)
    with t(2) have q: "0 \<le> q" "q < int (length buf)" "buf ! nat q = CHR '':''" by (auto simp: points_to_def)
    have hq: "host_start buf q" using q by (simp add: host_start_def)
    let ?scheme = "take (nat q) (drop (nat 0) buf)"
    have copy: "osip_strncpy (q + 1) buf 0 q = Inr ?scheme" by (rule strncpy_defined) (use q in auto)
    let ?u = "url\<lparr>uri_scheme := Some ?scheme\<rparr>"
    have u: "valued (url_headers ?u)" "uri_scheme ?u \<noteq> None" using assms by simp_all
    have other: "ensures (other_uri buf q ?u) parsed"
      using strncpy_defined [where s = buf and p = "q + 1" and n = "strend buf - (q + 1)" and m = "strend buf - (q + 1) + 1"] q u
      by (auto simp: other_uri_def Let_def parsed_def strend_def)
    obtain c where c: "rd buf (q + 1) = Inr c" using rd_defined [of "q + 1" buf] q by auto
    have skip: "host_start buf (q + 1)" if "c = CHR ''@''"
      using c that q by (auto simp: host_start_def rd_def split: if_splits)
    have full: "ensures (bindR (uri_userinfo buf q h ?u) (\<lambda>(rc, url). if rc \<noteq> 0 then Inr (- 1, url) else uri_address buf h url)) parsed"
      if "at = Some h" for h
    proof -
      have h: "host_start buf h" using a(2) [OF that] by (auto simp: host_start_def points_to_def)
      have "ensures (uri_userinfo buf q h ?u) (\<lambda>(_, u). same_head ?u u)"
        by (rule ensures_uri_userinfo) (use q h in \<open>auto simp: host_start_def\<close>)
      then show ?thesis
      proof (rule ensures_bind, clarify)
        fix rc u'
        assume "same_head ?u u'"
        with u have "valued (url_headers u')" "uri_scheme u' \<noteq> None" by (simp_all add: same_head_def)
        with ensures_address_parsed [OF h this]
        show "ensures (if rc \<noteq> 0 then Inr (- 1, u') else uri_address buf h u') parsed" by (simp add: parsed_def)
      qed
    qed
    show ?thesis
      using False t(1) Some copy other a(1) c skip full ensures_address_parsed [OF hq u]
        ensures_address_parsed [OF skip u] u
      by (auto simp: osip_uri_parse_def Let_def split: option.splits)
  qed
qed

section \<open>Printing\<close>

definition escaped :: "string \<Rightarrow> string \<Rightarrow> string" where
  "escaped d s = concat (map (\<lambda>c. if unreserved d c then [c] else percent c) s)"

lemma escaped_simps [simp]:
  "escaped d [] = []" "escaped d (c # s) = (if unreserved d c then [c] else percent c) @ escaped d s"
  by (simp_all add: escaped_def)

lemma length_escaped: "length (escaped d s) \<le> 3 * length s"
  by (induction s) (auto simp: percent_def)

text \<open>The block grows in time: escaping never writes behind it.\<close>

lemma escape_loop_eq:
  "newlen = length ns + length s + 1 \<Longrightarrow> newlen \<le> alloc \<Longrightarrow> escape_loop d s alloc newlen ns = Inr (ns @ escaped d s)"
proof (induction s arbitrary: alloc newlen ns)
  case Nil
  then show ?case by simp
next
  case (Cons c s)
  show ?case
  proof (cases "unreserved d c")
    case True
    with Cons.IH [of newlen "ns @ [c]" alloc] Cons.prems show ?thesis by simp
  next
    case False
    let ?alloc = "if alloc < newlen + 2 then alloc * 2 else alloc"
    have "newlen + 2 \<le> ?alloc" "length ns + 4 \<le> ?alloc" using Cons.prems by auto
    moreover have "escape_loop d s ?alloc (newlen + 2) (ns @ percent c) = Inr ((ns @ percent c) @ escaped d s)"
      by (rule Cons.IH) (use Cons.prems in \<open>auto simp: percent_def\<close>)
    ultimately show ?thesis using False by (simp add: Let_def)
  qed
qed

lemma escape_eq [simp]: "osip_uri_escape d s = Inr (escaped d s)"
  by (simp add: osip_uri_escape_def escape_loop_eq)

text \<open>The text of an address.\<close>

definition param_text_of :: "string \<Rightarrow> param \<Rightarrow> string" where
  "param_text_of d u = escaped d (gname u) @ (case gvalue u of None \<Rightarrow> [] | Some v \<Rightarrow> ''='' @ escaped d v)"

definition params_text :: "param list \<Rightarrow> string" where
  "params_text ps = concat (map (\<lambda>u. '';'' @ param_text_of uri_param_def u) ps)"

fun headers_text :: "string \<Rightarrow> param list \<Rightarrow> string" where
  "headers_text sep [] = []"
| "headers_text sep (h # hs) = sep @ param_text_of header_param_def h @ headers_text ''&'' hs"

definition userinfo_text :: "uri \<Rightarrow> string" where
  "userinfo_text u = (case uri_username u of None \<Rightarrow> [] | Some n \<Rightarrow> escaped userinfo_def n @
     (case uri_password u of None \<Rightarrow> [] | Some p \<Rightarrow> '':'' @ escaped password_def p) @ ''@'')"

definition host_text :: "string \<Rightarrow> string" where
  "host_text h = (if CHR '':'' \<in> set h then ''['' @ h @ '']'' else h)"

definition port_text :: "uri \<Rightarrow> string" where
  "port_text u = (case uri_port u of None \<Rightarrow> [] | Some p \<Rightarrow> '':'' @ p)"

definition scheme_of :: "uri \<Rightarrow> string" where
  "scheme_of u = (case uri_scheme u of None \<Rightarrow> ''sip'' | Some s \<Rightarrow> s)"

definition uri_text :: "uri \<Rightarrow> string" where
  "uri_text u = scheme_of u @ '':'' @ (case uri_string u of Some s \<Rightarrow> s | None \<Rightarrow>
     userinfo_text u @ host_text (the (uri_host u)) @ port_text u @ params_text (url_params u) @
     headers_text ''?'' (url_headers u))"

lemma strcat_to_eq: "length s + length t < cap \<Longrightarrow> strcat_to cap s t = Inr (s @ t)"
  by (simp add: strcat_to_def strcpy_to_def)

lemma params_to_str:
  "length buf < len \<Longrightarrow> \<exists>len'. foldR uri_param_to_str ps (len, buf) = Inr (len', buf @ params_text ps) \<and> length (buf @ params_text ps) < len'"
proof (induction ps arbitrary: len buf)
  case Nil
  then show ?case by (simp add: params_text_def)
next
  case (Cons u ps)
  let ?t = "'';'' @ param_text_of uri_param_def u"
  let ?len = "len + (case gvalue u of None \<Rightarrow> length (escaped uri_param_def (gname u)) + 2
      | Some v \<Rightarrow> length (escaped uri_param_def (gname u)) + length (escaped uri_param_def v) + 3)"
  have "uri_param_to_str u (len, buf) = Inr (?len, buf @ ?t)"
    using Cons.prems by (cases "gvalue u") (simp_all add: uri_param_to_str_def param_to_str_def param_text_of_def strcat_to_eq)
  moreover have "length (buf @ ?t) < ?len"
    using Cons.prems by (cases "gvalue u") (simp_all add: param_text_of_def)
  ultimately show ?case using Cons.IH [of "buf @ ?t" ?len] by (simp add: params_text_def)
qed

lemma headers_to_str:
  "length buf < len \<Longrightarrow> valued hs \<Longrightarrow> length sep = 1 \<Longrightarrow>
   \<exists>len'. uri_headers_to_str sep hs (len, buf) = Inr (len', buf @ headers_text sep hs)"
proof (induction hs arbitrary: len buf sep)
  case Nil
  then show ?case by simp
next
  case (Cons h hs)
  from Cons.prems(2) obtain v where v: "gvalue h = Some v" "valued hs" by (auto simp: valued_def)
  let ?t = "sep @ param_text_of header_param_def h"
  let ?len = "len + length (escaped header_param_def (gname h)) + length (escaped header_param_def v) + 4"
  have "strcat_to ?len buf ?t = Inr (buf @ ?t)" "length (buf @ ?t) < ?len"
    using Cons.prems v by (simp_all add: param_text_of_def strcat_to_eq)
  with Cons.IH [of "buf @ ?t" ?len "''&''"] v show ?case by (auto simp: param_text_of_def)
qed

lemma to_str_text:
  assumes "uri_host u \<noteq> None \<and> uri_string u = None \<or> uri_scheme u \<noteq> None \<and> uri_string u \<noteq> None" "valued (url_headers u)"
  shows "osip_uri_to_str u = Inr (Some (uri_text u))"
proof (cases "uri_string u")
  case (Some s)
  with assms(1) obtain sc where sc: "uri_scheme u = Some sc" by auto
  have "strcat_to (length sc + length s + 3) [] (sc @ '':'') = Inr (sc @ '':'')"
    "strcat_to (length sc + length s + 3) (sc @ '':'') s = Inr (sc @ '':'' @ s)"
    by (simp_all add: strcat_to_eq)
  with Some sc show ?thesis by (simp add: osip_uri_to_str_def uri_text_def scheme_of_def)
next
  case None
  with assms(1) obtain h where h: "uri_host u = Some h" by auto
  define len where "len = length (scheme_of u) + 1 + length h + 5 +
    (case uri_username u of None \<Rightarrow> 0 | Some u \<Rightarrow> length u * 3 + 1) +
    (case uri_password u of None \<Rightarrow> 0 | Some p \<Rightarrow> length p * 3 + 1) +
    (case uri_port u of None \<Rightarrow> 0 | Some p \<Rightarrow> length p + 3)"
  let ?b1 = "scheme_of u @ '':''"
  let ?b2 = "?b1 @ userinfo_text u"
  let ?b3 = "?b2 @ host_text h"
  let ?b4 = "?b3 @ port_text u"
  have ui: "length (userinfo_text u) \<le> (case uri_username u of None \<Rightarrow> 0 | Some u \<Rightarrow> length u * 3 + 1) +
      (case uri_password u of None \<Rightarrow> 0 | Some p \<Rightarrow> length p * 3 + 1)"
    using length_escaped [of userinfo_def "the (uri_username u)"] length_escaped [of password_def "the (uri_password u)"]
    by (cases "uri_username u"; cases "uri_password u") (simp_all add: userinfo_text_def)
  have hp: "length (host_text h) \<le> length h + 2" "length (port_text u) \<le> (case uri_port u of None \<Rightarrow> 0 | Some p \<Rightarrow> length p + 3)"
    by (simp_all add: host_text_def port_text_def split: option.splits)
  have fits: "length ?b2 + 2 + length h + length (port_text u) < len" using ui hp(2) by (simp add: len_def)
  have s1: "strcat_to len [] ?b1 = Inr ?b1" using fits by (simp add: strcat_to_eq)
  have s2: "userinfo_to_str len ?b1 u = Inr ?b2"
    using fits by (cases "uri_username u"; cases "uri_password u")
      (simp_all add: userinfo_to_str_def userinfo_text_def strcat_to_eq)
  have s3: "strcat_to len ?b2 (host_text h) = Inr ?b3" using fits hp(1) by (simp add: strcat_to_eq)
  have s4: "(case uri_port u of None \<Rightarrow> Inr ?b3 | Some p \<Rightarrow> strcat_to len ?b3 ('':'' @ p)) = Inr ?b4"
    using fits hp(1) by (cases "uri_port u") (simp_all add: port_text_def strcat_to_eq)
  have "length ?b4 < len" using fits hp(1) by simp
  then obtain len' where s5: "foldR uri_param_to_str (url_params u) (len, ?b4) = Inr (len', ?b4 @ params_text (url_params u))"
      "length (?b4 @ params_text (url_params u)) < len'"
    using params_to_str by blast
  obtain len'' where s6: "uri_headers_to_str ''?'' (url_headers u) (len', ?b4 @ params_text (url_params u)) =
      Inr (len'', (?b4 @ params_text (url_params u)) @ headers_text ''?'' (url_headers u))"
    using headers_to_str [OF s5(2) assms(2), of "''?''"] by auto
  have "osip_uri_to_str u = bindR (strcat_to len [] ?b1) (\<lambda>buf. bindR (userinfo_to_str len buf u) (\<lambda>buf.
      bindR (strcat_to len buf (host_text h)) (\<lambda>buf.
      bindR (case uri_port u of None \<Rightarrow> Inr buf | Some p \<Rightarrow> strcat_to len buf ('':'' @ p)) (\<lambda>buf.
      bindR (foldR uri_param_to_str (url_params u) (len, buf)) (\<lambda>state.
      bindR (uri_headers_to_str ''?'' (url_headers u) state) (\<lambda>(_, buf). Inr (Some buf)))))))"
    by (simp only: osip_uri_to_str_def None h deref_simps bindR.simps option.case option.distinct simp_thms if_False
        Let_def scheme_of_def [symmetric] len_def [symmetric] host_text_def [symmetric])
  then show ?thesis
    unfolding s1 bindR.simps s2 s3 s4 s5(1) s6 using None h by (simp add: uri_text_def)
qed

section \<open>The claims\<close>

text \<open>
  Claim C34: reading an address from any text at all stays within the text and within the blocks that
  were allocated, and ends; what it accepts can be printed, again without leaving the blocks whose
  sizes \<open>osip_uri_to_str\<close> computes.
\<close>

theorem uri_memory_safe:
  "\<exists>rc u. osip_uri_parse osip_uri_init buf = Inr (rc, u) \<and>
    (rc = - 1 \<or> rc = 0 \<and> osip_uri_to_str u = Inr (Some (uri_text u)))"
proof -
  have "ensures (osip_uri_parse osip_uri_init buf) parsed"
    by (rule ensures_uri_parse) (simp add: osip_uri_init_def valued_def)
  then obtain rc u where r: "osip_uri_parse osip_uri_init buf = Inr (rc, u)" "parsed (rc, u)"
    by (auto simp: ensures_iff)
  moreover have "osip_uri_to_str u = Inr (Some (uri_text u))" if "rc = 0"
    by (rule to_str_text) (use that r(2) in \<open>auto simp: parsed_def\<close>)
  ultimately show ?thesis by (auto simp: parsed_def)
qed

end
