(* ===== verification/Osip_Text.thy ===== *)
theory Osip_Text
  imports Osip_Strings
begin

text \<open>The string operations on a text put together of known parts: what they find and copy there.\<close>

section \<open>Pointers into a text put together\<close>

text \<open>A pointer behind a known beginning: \<open>p\<close> is the length of \<open>a\<close>.\<close>

lemma find_upt: "find (\<lambda>i. s ! i = c) [k..<length s] =
    (if c \<in> set (drop k s) then Some (k + length (takeWhile (\<lambda>x. x \<noteq> c) (drop k s))) else None)"
proof (induction "length s - k" arbitrary: k)
  case 0
  then show ?case by simp
next
  case (Suc n)
  then have k: "k < length s" by simp
  then have "drop k s = s ! k # drop (Suc k) s" by (metis Cons_nth_drop_Suc)
  moreover have "[k..<length s] = k # [Suc k..<length s]" using k by (simp add: upt_rec)
  moreover have "n = length s - Suc k" using Suc.hyps(2) by simp
  note Suc.hyps(1) [OF this]
  ultimately show ?case by simp
qed

lemma strchr_suffix:
  "p = int (length a) \<Longrightarrow> strchr (a @ t) p c =
     Inr (if c \<in> set t then Some (p + int (length (takeWhile (\<lambda>x. x \<noteq> c) t))) else None)"
  using find_upt [of "a @ t" c "length a"] by (simp add: strchr_def)

lemma strncpy_suffix:
  "p = int (length a) \<Longrightarrow> n = int (length x) \<Longrightarrow> n + 1 \<le> m \<Longrightarrow> osip_strncpy m (a @ x @ t) p n = Inr x"
  by (simp add: osip_strncpy_def)

lemma clrncpy_suffix:
  assumes "p = int (length a)" "n = int (length x)" "x \<noteq> []" "n + 1 \<le> m"
  shows "osip_clrncpy m (a @ x @ t) p n = Inr (osip_clrspace x)"
proof -
  have "1 \<le> n" using assms(2,3) by (cases x) auto
  with clrncpy_trims [of p n "a @ x @ t" m] assms show ?thesis by simp
qed

lemma rd_suffix: "p = int (length a) \<Longrightarrow> rd (a @ c # t) p = Inr c"
  by (simp add: rd_def)

lemma takeWhile_until: "c \<notin> set x \<Longrightarrow> takeWhile (\<lambda>y. y \<noteq> c) (x @ c # t) = x"
  by (induction x) auto

lemma strchr_first:
  "p = int (length a) \<Longrightarrow> c \<notin> set x \<Longrightarrow> strchr (a @ x @ c # t) p c = Inr (Some (p + int (length x)))"
  by (simp add: strchr_suffix takeWhile_until)

lemma next_separator_found:
  assumes "p = int (length a)" "c \<notin> set x" "d \<notin> set x" "c \<noteq> d"
  shows "next_separator (a @ x @ c # t) p c d = Inr (Some (p + int (length x)))"
proof -
  have "takeWhile (\<lambda>y. y \<noteq> d) (x @ c # t) = x @ c # takeWhile (\<lambda>y. y \<noteq> d) t"
    using assms(3,4) by (induction x) auto
  with assms show ?thesis
    by (simp add: next_separator_def strchr_suffix takeWhile_until)
qed

lemma next_separator_none:
  assumes "p = int (length a)" "c \<notin> set x" "d \<notin> set x" "c \<noteq> d" "d \<noteq> NUL" "t = [] \<or> hd t = d"
  shows "next_separator (a @ x @ t) p c d = Inr None"
proof (cases t)
  case Nil
  with assms show ?thesis by (simp add: next_separator_def strchr_suffix)
next
  case (Cons e t')
  with assms(6) have t: "t = d # t'" by simp
  have "takeWhile (\<lambda>y. y \<noteq> d) (x @ t) = x" using takeWhile_until [OF assms(3)] t by simp
  moreover have "takeWhile (\<lambda>y. y \<noteq> c) (x @ t) = x @ d # takeWhile (\<lambda>y. y \<noteq> c) t'"
    using assms(2,4) t by (induction x) auto
  ultimately show ?thesis using assms t by (simp add: next_separator_def strchr_suffix)
qed

end
