(* ===== verification/Osip_Uri_Roundtrip.thy ===== *)
theory Osip_Uri_Roundtrip
  imports Osip_Uri_Correct Osip_Text
begin

text \<open>
  What \<open>osip_uri_to_str\<close> prints, \<open>osip_uri_parse\<close> reads back, but for the last parameter, which it
  forgets to unescape.
\<close>

section \<open>Unescaping what was escaped\<close>

lemma of_hex_digit: "i < 16 \<Longrightarrow> (of_char (hex_digit i) :: nat) = (if i < 10 then 48 + i else 55 + i)"
  by (simp add: hex_digit_def)

lemma of_hex_digit_int: "i < 16 \<Longrightarrow> (of_char (hex_digit i) :: int) = (if i < 10 then 48 + int i else 55 + int i)"
  by (subst of_nat_of_char [symmetric], simp only: of_hex_digit) simp

lemma char_neq: "(of_char c :: nat) \<noteq> of_char d \<Longrightarrow> c \<noteq> d"
  by auto

lemma hex_digit_facts:
  assumes "i < 16"
  shows "is_alphanum (hex_digit i) \<and> hex_value (hex_digit i) = Some (int i) \<and> \<not> is_space (hex_digit i) \<and>
     hex_digit i \<noteq> CHR ''-'' \<and> hex_digit i \<noteq> CHR ''+'' \<and> hex_digit i \<noteq> CHR ''x'' \<and> hex_digit i \<noteq> CHR ''X''"
proof -
  have "is_alphanum (hex_digit i)" "hex_value (hex_digit i) = Some (int i)"
    using assms by (simp_all add: is_alphanum_def hex_value_def of_hex_digit of_hex_digit_int)
  moreover have "hex_digit i \<noteq> CHR '' '' \<and> hex_digit i \<noteq> CHR ''-'' \<and> hex_digit i \<noteq> CHR ''+'' \<and>
      hex_digit i \<noteq> CHR ''x'' \<and> hex_digit i \<noteq> CHR ''X''"
    by (intro conjI char_neq) (use assms in \<open>simp_all add: of_hex_digit\<close>)
  ultimately show ?thesis using assms by (simp add: is_space_def of_hex_digit)
qed

lemma percent_chars: "c \<in> set (percent d) \<Longrightarrow> is_alphanum c \<or> c = CHR ''%''"
proof -
  have n: "(of_char d :: nat) < 256" by (rule nat_of_char_less_256)
  have "(of_char d :: nat) div 16 < 16" "(of_char d :: nat) mod 16 < 16"
    using n by (simp_all add: div_less_iff_less_mult)
  then show "c \<in> set (percent d) \<Longrightarrow> ?thesis"
    using hex_digit_facts by (auto simp: percent_def)
qed

lemma unescape_percent: "unescape_loop (percent c @ s) = c # unescape_loop s"
proof -
  let ?n = "of_char c :: nat"
  have n: "?n < 256" by (rule nat_of_char_less_256)
  then have d: "?n div 16 < 16" "?n mod 16 < 16" by (simp_all add: div_less_iff_less_mult)
  have "16 * (?n div 16) + ?n mod 16 = ?n" by (rule mult_div_mod_eq)
  from arg_cong [OF this, of int] have v: "16 * int (?n div 16) + int (?n mod 16) = int ?n"
    by (simp only: of_nat_add of_nat_mult of_nat_numeral)
  have "sscanf_hex (hex_digit (?n div 16) # hex_digit (?n mod 16) # s) = Some (int ?n)"
    using hex_digit_facts [OF d(1)] hex_digit_facts [OF d(2)] v by (simp add: sscanf_hex_def)
  moreover have "char_of (int ?n mod 256) = c" by simp
  ultimately show ?thesis
    using hex_digit_facts [OF d(2)] by (simp add: percent_def)
qed

definition no_percent :: "string \<Rightarrow> bool" where
  "no_percent d \<longleftrightarrow> \<not> unreserved d (CHR ''%'')"

lemma unescape_escaped: "no_percent d \<Longrightarrow> unescape_loop (escaped d s @ t) = s @ unescape_loop t"
  by (induction s) (auto simp: unescape_percent no_percent_def)

lemma osip_uri_unescape_escaped: "no_percent d \<Longrightarrow> NUL \<notin> set s \<Longrightarrow> osip_uri_unescape (escaped d s) = s"
  using unescape_escaped [of d s "[]"] by (simp add: osip_uri_unescape_def cstr_no_nul)

lemma escaped_chars: "c \<in> set (escaped d s) \<Longrightarrow> unreserved d c \<or> c = CHR ''%''"
  by (induction s) (auto simp: unreserved_def split: if_splits dest: percent_chars)

lemma escaped_Nil [simp]: "escaped d s = [] \<longleftrightarrow> s = []"
  by (cases s) (auto simp: percent_def)

lemma escaped_same: "escaped d s = s \<longleftrightarrow> list_all (unreserved d) s"
proof (induction s)
  case (Cons c s)
  show ?case
  proof (cases "unreserved d c")
    case False
    have "length s \<le> length (escaped d s)" by (induction s) (auto simp: percent_def)
    then have "length (escaped d (c # s)) \<noteq> length (c # s)" using False by (simp add: percent_def)
    then have "escaped d (c # s) \<noteq> c # s" by metis
    with False show ?thesis by simp
  qed (use Cons in simp)
qed simp

text \<open>The characters that separate the parts are escaped in them.\<close>

lemma reserved_chars:
  "no_percent userinfo_def \<and> no_percent password_def \<and> no_percent uri_param_def \<and> no_percent header_param_def"
  "list_all (\<lambda>c. \<not> unreserved userinfo_def c) ('':@'' @ [CHR '' '', CR, LF, CHR 0x09])"
  "list_all (\<lambda>c. \<not> unreserved password_def c) '':@''"
  "list_all (\<lambda>c. \<not> unreserved uri_param_def c) (''=;?@'' @ [CHR '' '', CR, LF, CHR 0x09])"
  "list_all (\<lambda>c. \<not> unreserved header_param_def c) (''=;&@'' @ [CHR '' '', CR, LF, CHR 0x09])"
  by code_simp+

lemma escaped_reserved: "list_all (\<lambda>c. \<not> unreserved d c) cs \<Longrightarrow> c \<in> set cs \<Longrightarrow> c \<noteq> CHR ''%'' \<Longrightarrow> c \<notin> set (escaped d s)"
  using escaped_chars by (auto simp: list_all_iff)

lemma not_in_escaped:
  "CHR '':'' \<notin> set (escaped userinfo_def s)" "CHR ''@'' \<notin> set (escaped userinfo_def s)"
  "CHR ''@'' \<notin> set (escaped password_def s)" "CHR '':'' \<notin> set (escaped password_def s)"
  "CHR ''='' \<notin> set (escaped uri_param_def s)" "CHR '';'' \<notin> set (escaped uri_param_def s)"
  "CHR ''?'' \<notin> set (escaped uri_param_def s)" "CHR ''@'' \<notin> set (escaped uri_param_def s)"
  "CHR ''='' \<notin> set (escaped header_param_def s)" "CHR '';'' \<notin> set (escaped header_param_def s)"
  "CHR ''&'' \<notin> set (escaped header_param_def s)" "CHR ''@'' \<notin> set (escaped header_param_def s)"
  by (rule escaped_reserved [OF reserved_chars(2)] escaped_reserved [OF reserved_chars(3)]
      escaped_reserved [OF reserved_chars(4)] escaped_reserved [OF reserved_chars(5)]; simp)+

lemma clrspace_no_blanks: "list_all (\<lambda>c. \<not> is_blank c) s \<Longrightarrow> osip_clrspace s = s"
proof -
  assume a: "list_all (\<lambda>c. \<not> is_blank c) s"
  have "dropWhile is_blank t = t" if "list_all (\<lambda>c. \<not> is_blank c) t" for t
    using that by (cases t) auto
  from this [OF a] this [of "rev s"] a show ?thesis by (simp add: osip_clrspace_def)
qed

lemma no_blank_in_escaped: "list_all (\<lambda>c. \<not> unreserved d c) [CHR '' '', CR, LF, CHR 0x09] \<Longrightarrow> osip_clrspace (escaped d s) = escaped d s"
proof (rule clrspace_no_blanks, unfold list_all_iff, rule ballI, rule notI)
  fix c
  assume a: "\<forall>c\<in>set [CHR '' '', CR, LF, CHR 0x09]. \<not> unreserved d c" "c \<in> set (escaped d s)" "is_blank c"
  then have "c \<in> set [CHR '' '', CR, LF, CHR 0x09]" by (auto simp: is_blank_def)
  moreover have "c \<noteq> CHR ''%''" using a(3) by (auto simp: is_blank_def)
  ultimately show False using a(1,2) escaped_chars [of c d s] by blast
qed

lemma clrspace_escaped:
  "osip_clrspace (escaped uri_param_def s) = escaped uri_param_def s"
  "osip_clrspace (escaped header_param_def s) = escaped header_param_def s"
  by (rule no_blank_in_escaped, code_simp)+

section \<open>Looking back over a text\<close>

lemma scan_back_over:
  "list_all (\<lambda>c. \<not> stop c) x \<Longrightarrow> lo < int (length a) \<Longrightarrow>
   scan_back stop (a @ x @ t) lo (int (length a) + int (length x) - 1) = scan_back stop (a @ x @ t) lo (int (length a) - 1)"
proof (induction x arbitrary: t rule: rev_induct)
  case (snoc c x)
  have "rd (a @ (x @ [c]) @ t) (int (length a) + int (length x)) = Inr c"
    using rd_suffix [of "int (length a) + int (length x)" "a @ x" c t] by simp
  with snoc.prems snoc.IH [of "c # t"] show ?case
    by (subst scan_back.simps) simp
qed simp

section \<open>Parameters and headers\<close>

text \<open>What can be a name or a value: no NUL, and no blanks at either end.\<close>

definition plain :: "string \<Rightarrow> bool" where
  "plain s \<longleftrightarrow> NUL \<notin> set s \<and> osip_clrspace s = s"

definition wf_param :: "param \<Rightarrow> bool" where
  "wf_param u \<longleftrightarrow> gname u \<noteq> [] \<and> plain (gname u) \<and> (case gvalue u of None \<Rightarrow> True | Some v \<Rightarrow> v \<noteq> [] \<and> plain v)"

definition value_text :: "string option \<Rightarrow> string" where
  "value_text v = (case v of None \<Rightarrow> [] | Some w \<Rightarrow> CHR ''='' # w)"

lemma uri_param_at:
  assumes "p = int (length a)" "n \<noteq> []" "v \<noteq> Some []"
    "e = (if v = None then None else Some (p + 1 + int (length n)))" "q = p + 1 + int (length n) + int (length (value_text v))"
  shows "uri_param f (a @ sep # n @ value_text v @ t) p e q = Inr (Some (f n, map_option f v))"
proof -
  have n: "osip_strncpy (1 + int (length n)) (a @ sep # n @ x) (p + 1) (int (length n)) = Inr n" for x
    using strncpy_suffix [of "p + 1" "a @ [sep]" "int (length n)" n _ x] assms(1) by simp
  have n1: "\<not> int (length n) < 1" using assms(2) by (cases n) auto
  show ?thesis
  proof (cases v)
    case None
    with n [of t] n1 assms show ?thesis by (simp add: uri_param_def value_text_def)
  next
    case (Some w)
    have "osip_strncpy (1 + int (length w)) (a @ sep # n @ CHR ''='' # w @ t) (p + 2 + int (length n)) (int (length w)) = Inr w"
      using strncpy_suffix [of "p + 2 + int (length n)" "a @ sep # n @ ''=''" "int (length w)" w _ t] assms(1) by simp
    moreover have "\<not> int (length w) < 1" using assms(3) Some by (cases w) auto
    ultimately show ?thesis
      using n [of "CHR ''='' # w @ t"] n1 assms Some by (simp add: uri_param_def value_text_def algebra_simps)
  qed
qed

text \<open>The separators in front of the value and behind it.\<close>

lemma param_ends:
  assumes "p = int (length a)" "CHR ''='' \<notin> set n" "sep \<notin> set n" "\<And>w. v = Some w \<Longrightarrow> sep \<notin> set w"
    "t = [] \<or> hd t = sep" "sep \<noteq> CHR ''=''" "sep \<noteq> NUL"
  shows "next_separator (a @ sep # n @ value_text v @ t) (p + 1) (CHR ''='') sep =
      Inr (if v = None then None else Some (p + 1 + int (length n)))"
    "strchr (a @ sep # n @ value_text v @ t) (p + 1) sep =
      Inr (if t = [] then None else Some (p + 1 + int (length n) + int (length (value_text v))))"
proof -
  have p: "p + 1 = int (length (a @ [sep]))" using assms(1) by simp
  show "next_separator (a @ sep # n @ value_text v @ t) (p + 1) (CHR ''='') sep =
      Inr (if v = None then None else Some (p + 1 + int (length n)))"
    using next_separator_none [OF p assms(2,3) not_sym [OF assms(6)] assms(7,5)]
      next_separator_found [OF p assms(2,3) not_sym [OF assms(6)]]
    by (cases v) (simp_all add: value_text_def)
  have v: "sep \<notin> set (value_text v)" using assms(4,6) by (cases v) (auto simp: value_text_def)
  show "strchr (a @ sep # n @ value_text v @ t) (p + 1) sep =
      Inr (if t = [] then None else Some (p + 1 + int (length n) + int (length (value_text v))))"
  proof (cases t)
    case Nil
    with strchr_suffix [OF p, of "n @ value_text v" sep] v assms(3) show ?thesis by simp
  next
    case (Cons e t')
    with assms(5) have t: "t = sep # t'" by simp
    show ?thesis
      using strchr_suffix [OF p, of "n @ value_text v @ t" sep] takeWhile_until [of sep "n @ value_text v" t'] v assms(3)
      by (simp add: t)
  qed
qed

definition escape_param :: "param \<Rightarrow> param" where
  "escape_param u = \<lparr>gname = escaped uri_param_def (gname u), gvalue = map_option (escaped uri_param_def) (gvalue u)\<rparr>"

text \<open>The parameters as they come back: all but the last one as they were.\<close>

definition escape_last :: "param list \<Rightarrow> param list" where
  "escape_last ps = (if ps = [] then [] else butlast ps @ [escape_param (last ps)])"

lemma unescape_part:
  "plain s \<Longrightarrow> no_percent d \<Longrightarrow> osip_clrspace (osip_uri_unescape (escaped d s)) = s"
  by (simp add: plain_def osip_uri_unescape_escaped)

lemma params_text_hd: "params_text ps = [] \<or> hd (params_text ps) = CHR '';''"
  by (cases ps) (simp_all add: params_text_def)

lemma parse_params_text:
  "ps \<noteq> [] \<Longrightarrow> list_all wf_param ps \<Longrightarrow> p = int (length a) \<Longrightarrow>
   osip_uri_parse_params (a @ params_text ps) p acc = Inr (0, acc @ escape_last ps)"
proof (induction ps arbitrary: a p acc)
  case (Cons u ps)
  let ?n = "escaped uri_param_def (gname u)" and ?v = "map_option (escaped uri_param_def) (gvalue u)"
  let ?s = "a @ CHR '';'' # ?n @ value_text ?v @ params_text ps"
  have s: "a @ params_text (u # ps) = ?s"
    by (simp add: params_text_def param_text_of_def value_text_def split: option.splits)
  have u: "gname u \<noteq> []" "plain (gname u)" "\<And>v. gvalue u = Some v \<Longrightarrow> v \<noteq> [] \<and> plain v"
    using Cons.prems(2) by (auto simp: wf_param_def)
  have ends: "next_separator ?s (p + 1) (CHR ''='') (CHR '';'') =
      Inr (if ?v = None then None else Some (p + 1 + int (length ?n)))"
    "strchr ?s (p + 1) (CHR '';'') =
      Inr (if params_text ps = [] then None else Some (p + 1 + int (length ?n) + int (length (value_text ?v))))"
    by (rule param_ends; use Cons.prems(3) params_text_hd not_in_escaped in auto)+
  have par: "uri_param f ?s p (if ?v = None then None else Some (p + 1 + int (length ?n)))
      (p + 1 + int (length ?n) + int (length (value_text ?v))) = Inr (Some (f ?n, map_option f ?v))" for f
    by (rule uri_param_at) (use Cons.prems(3) u in auto)
  show ?case
  proof (cases "ps = []")
    case True
    have "strend ?s = p + 1 + int (length ?n) + int (length (value_text ?v))"
      using Cons.prems(3) True by (simp add: strend_def params_text_def)
    moreover have "map_option osip_clrspace ?v = ?v" by (cases "gvalue u") (simp_all add: clrspace_escaped)
    ultimately show ?thesis
      using True ends par [of id] unfolding s
      by (subst osip_uri_parse_params.simps)
        (simp add: params_text_def escape_last_def escape_param_def osip_uri_param_add_def osip_uri_param_set_def clrspace_escaped
          option.map_id)
  next
    case False
    let ?q = "p + 1 + int (length ?n) + int (length (value_text ?v))"
    have "osip_uri_param_add acc (osip_uri_unescape ?n) (map_option osip_uri_unescape ?v) = acc @ [u]"
      using u reserved_chars(1) unescape_part
      by (cases "gvalue u") (auto simp: osip_uri_param_add_def osip_uri_param_set_def)
    moreover have "osip_uri_parse_params ((a @ CHR '';'' # ?n @ value_text ?v) @ params_text ps) ?q (acc @ [u]) =
        Inr (0, (acc @ [u]) @ escape_last ps)"
      by (rule Cons.IH) (use False Cons.prems in auto)
    moreover have "params_text ps \<noteq> []" using False by (cases ps) (simp_all add: params_text_def)
    ultimately show ?thesis
      using False ends par [of osip_uri_unescape] unfolding s
      by (subst osip_uri_parse_params.simps) (simp add: escape_last_def)
  qed
qed simp

definition wf_header :: "param \<Rightarrow> bool" where
  "wf_header u \<longleftrightarrow> plain (gname u) \<and> (case gvalue u of None \<Rightarrow> False | Some v \<Rightarrow> v \<noteq> [] \<and> plain v)"

lemma headers_text_amp: "headers_text ''&'' hs = [] \<or> hd (headers_text ''&'' hs) = CHR ''&''"
  by (cases hs) simp_all

lemma parse_headers_text:
  "hs \<noteq> [] \<Longrightarrow> list_all wf_header hs \<Longrightarrow> p = int (length a) \<Longrightarrow> sep \<noteq> CHR ''='' \<Longrightarrow>
   osip_uri_parse_headers (a @ headers_text [sep] hs) p acc = Inr (0, acc @ hs)"
proof (induction hs arbitrary: a p acc sep)
  case (Cons h hs)
  let ?n = "escaped header_param_def (gname h)"
  from Cons.prems(2) obtain w where w: "gvalue h = Some w" "w \<noteq> []" "plain w" "plain (gname h)"
    by (auto simp: wf_header_def split: option.splits)
  let ?w = "escaped header_param_def w" and ?t = "headers_text ''&'' hs"
  let ?s = "a @ sep # ?n @ CHR ''='' # ?w @ ?t"
  let ?e = "p + 1 + int (length ?n)" and ?q = "p + 2 + int (length ?n) + int (length ?w)"
  have s: "a @ headers_text [sep] (h # hs) = ?s" using w(1) by (simp add: param_text_of_def)
  have eq: "strchr ?s p (CHR ''='') = Inr (Some ?e)"
    using strchr_suffix [OF Cons.prems(3), of "sep # ?n @ CHR ''='' # ?w @ ?t" "CHR ''=''"] not_in_escaped Cons.prems(4)
      takeWhile_until [of "CHR ''=''" "sep # ?n" "?w @ ?t"]
    by simp
  have amp: "strchr ?s (p + 1) (CHR ''&'') = Inr (if hs = [] then None else Some ?q)"
  proof (cases ?t)
    case Nil
    then have "hs = []" by (cases hs) simp_all
    with strchr_suffix [of "p + 1" "a @ [sep]" "?n @ CHR ''='' # ?w" "CHR ''&''"] not_in_escaped Cons.prems(3)
    show ?thesis by simp
  next
    case (Cons c t)
    with headers_text_amp [of hs] have t: "?t = CHR ''&'' # t" by simp
    then have "hs \<noteq> []" by (cases hs) simp_all
    with strchr_suffix [of "p + 1" "a @ [sep]" "?n @ CHR ''='' # ?w @ ?t" "CHR ''&''"] not_in_escaped Cons.prems(3)
      takeWhile_until [of "CHR ''&''" "?n @ CHR ''='' # ?w" t]
    show ?thesis by (simp add: t)
  qed
  have name: "osip_strncpy (?e - p) ?s (p + 1) (?e - p - 1) = Inr ?n"
    using strncpy_suffix [of "p + 1" "a @ [sep]" "?e - p - 1" ?n "?e - p"] Cons.prems(3) by simp
  have w1: "\<not> int (length ?w) + 1 < 2" using w(2) by (cases ?w) auto
  have add: "osip_uri_param_add acc (osip_uri_unescape ?n) (Some (osip_uri_unescape ?w)) = acc @ [h]"
    using w reserved_chars(1) unescape_part by (simp add: osip_uri_param_add_def osip_uri_param_set_def)
  show ?case
  proof (cases "hs = []")
    case True
    have "strend ?s = ?q" using Cons.prems(3) True by (simp add: strend_def)
    moreover have "osip_strncpy (?q - ?e + 1) ?s (?e + 1) (?q - ?e) = Inr ?w"
      using Cons.prems(3) True by (simp add: osip_strncpy_def nat_add_distrib)
    ultimately show ?thesis
      using True eq amp name w1 add unfolding s
      by (subst osip_uri_parse_headers.simps) simp
  next
    case False
    have "osip_strncpy (?q - ?e) ?s (?e + 1) (?q - ?e - 1) = Inr ?w"
      using strncpy_suffix [of "?e + 1" "a @ sep # ?n @ ''=''" "?q - ?e - 1" ?w "?q - ?e" ?t] Cons.prems(3) by simp
    moreover have "osip_uri_parse_headers ((a @ sep # ?n @ CHR ''='' # ?w) @ headers_text ''&'' hs) ?q (acc @ [h]) = Inr (0, (acc @ [h]) @ hs)"
      by (rule Cons.IH) (use False Cons.prems in auto)
    ultimately show ?thesis
      using False eq amp name w1 add unfolding s
      by (subst osip_uri_parse_headers.simps) simp
  qed
qed simp

section \<open>The address behind the user information\<close>

text \<open>\<open>c\<close>, the character in front of the host, is at \<open>p\<close>.\<close>

lemma uri_headers_at:
  assumes "p = int (length a)" "c \<noteq> CHR ''?''" "CHR ''?'' \<notin> set x" "list_all wf_header hs" "url_headers url = []"
  shows "uri_headers (a @ c # x @ headers_text ''?'' hs) p url = Inr (p + 1 + int (length x), url\<lparr>url_headers := hs\<rparr>)"
proof (cases hs)
  case Nil
  with strchr_suffix [OF assms(1), of "c # x" "CHR ''?''"] assms show ?thesis
    by (simp add: uri_headers_def strend_def)
next
  case (Cons h hs')
  let ?R = "headers_text ''?'' hs"
  obtain r where r: "?R = CHR ''?'' # r" using Cons by simp
  have at: "strchr (a @ c # x @ ?R) p (CHR ''?'') = Inr (Some (p + 1 + int (length x)))"
    using strchr_first [OF assms(1), of "CHR ''?''" "c # x" r] assms(2,3) by (simp add: r)
  have "osip_uri_parse_headers ((a @ c # x) @ headers_text ''?'' hs) (p + 1 + int (length x)) [] = Inr (0, [] @ hs)"
    by (rule parse_headers_text) (use assms Cons in auto)
  then show ?thesis using at assms(5) by (simp add: uri_headers_def)
qed

lemma params_text_chars:
  "CHR ''?'' \<notin> set (params_text ps)" "CHR ''@'' \<notin> set (params_text ps)"
  by (induction ps) (auto simp: params_text_def param_text_of_def not_in_escaped split: option.splits)

lemma headers_text_chars:
  "CHR '';'' \<notin> set (headers_text ''?'' hs)" "CHR ''@'' \<notin> set (headers_text ''?'' hs)"
proof -
  have "CHR '';'' \<notin> set (headers_text sep hs) \<and> CHR ''@'' \<notin> set (headers_text sep hs)"
    if "CHR '';'' \<notin> set sep" "CHR ''@'' \<notin> set sep" for sep
    using that by (induction sep hs rule: headers_text.induct) (auto simp: param_text_of_def not_in_escaped split: option.splits)
  then show "CHR '';'' \<notin> set (headers_text ''?'' hs)" "CHR ''@'' \<notin> set (headers_text ''?'' hs)" by simp_all
qed

lemma uri_params_at:
  assumes "p = int (length a)" "c \<noteq> CHR '';''" "CHR '';'' \<notin> set x" "CHR '';'' \<notin> set r" "list_all wf_param ps"
    "url_params url = []" "headers = p + 1 + int (length x) + int (length (params_text ps))"
  shows "uri_params (a @ c # x @ params_text ps @ r) p headers url =
    Inr (Some (p + 1 + int (length x), url\<lparr>url_params := escape_last ps\<rparr>))"
proof (cases ps)
  case Nil
  with strchr_suffix [OF assms(1), of "c # x @ r" "CHR '';''"] assms show ?thesis
    by (simp add: uri_params_def params_text_def escape_last_def)
next
  case (Cons u ps')
  let ?Q = "params_text ps"
  obtain q where q: "?Q = CHR '';'' # q" using Cons by (simp add: params_text_def)
  have q1: "\<not> int (length ?Q) + 1 < 2" by (simp add: q)
  have at: "strchr (a @ c # x @ ?Q @ r) p (CHR '';'') = Inr (Some (p + 1 + int (length x)))"
    using strchr_first [OF assms(1), of "CHR '';''" "c # x" "q @ r"] assms(2,3) by (simp add: q)
  have "osip_strncpy (int (length ?Q) + 1) ((a @ c # x) @ ?Q @ r) (p + 1 + int (length x)) (int (length ?Q)) = Inr ?Q"
    by (rule strncpy_suffix) (use assms(1) in auto)
  moreover have "osip_uri_parse_params ([] @ ?Q) 0 [] = Inr (0, [] @ escape_last ps)"
    by (rule parse_params_text) (use assms Cons in auto)
  ultimately show ?thesis using at q1 assms(6,7) by (simp add: uri_params_def)
qed

definition wf_host :: "string \<Rightarrow> bool" where
  "wf_host h \<longleftrightarrow> h \<noteq> [] \<and> osip_clrspace h = h \<and> list_all (\<lambda>c. c \<notin> set ''@;?[]'') h"

definition wf_port :: "string \<Rightarrow> bool" where
  "wf_port q \<longleftrightarrow> q \<noteq> [] \<and> length q \<le> 7 \<and> osip_clrspace q = q \<and> list_all (\<lambda>c. c \<notin> set '':@;?]'') q"

lemma host_text_chars: "wf_host h \<Longrightarrow> c = CHR ''@'' \<or> c = CHR '';'' \<or> c = CHR ''?'' \<Longrightarrow> c \<notin> set (host_text h)"
proof
  assume h: "wf_host h" "c = CHR ''@'' \<or> c = CHR '';'' \<or> c = CHR ''?''" "c \<in> set (host_text h)"
  then have "c \<in> set h" by (auto simp: host_text_def split: if_splits)
  moreover have "\<forall>c\<in>set h. c \<notin> set ''@;?[]''" using h(1) by (simp add: wf_host_def list_all_iff)
  ultimately show False using h(2) by auto
qed

lemma port_text_chars:
  assumes "\<And>q. uri_port u = Some q \<Longrightarrow> wf_port q" "c = CHR ''@'' \<or> c = CHR '';'' \<or> c = CHR ''?''"
  shows "c \<notin> set (port_text u)"
proof (cases "uri_port u")
  case (Some q)
  then have "\<forall>c\<in>set q. c \<notin> set '':@;?]''" using assms(1) by (simp add: wf_port_def list_all_iff)
  with assms(2) Some show ?thesis by (auto simp: port_text_def)
qed (simp add: port_text_def)

lemma scan_back_stop: "lo < p \<Longrightarrow> rd s p = Inr c \<Longrightarrow> stop c \<Longrightarrow> scan_back stop s lo p = Inr p"
  by (subst scan_back.simps) simp

lemma scan_back_end: "scan_back stop s p p = Inr p"
  by (subst scan_back.simps) simp

lemma uri_port_at:
  assumes "p = int (length a)" "c = CHR '':'' \<or> c = CHR ''@''" "wf_host h"
    "\<And>q. uri_port u = Some q \<Longrightarrow> wf_port q" "uri_port url = None"
    "params = p + 1 + int (length (host_text h @ port_text u))"
  shows "uri_port_part (a @ c # host_text h @ port_text u @ t) p params url =
    Inr (Some (p + 1 + int (length (host_text h)), url\<lparr>uri_port := uri_port u\<rparr>))"
proof -
  let ?stop = "\<lambda>c. c = CHR '']'' \<or> c = CHR '':''" and ?H = "host_text h"
  let ?s = "a @ c # ?H @ port_text u @ t"
  show ?thesis
  proof (cases "uri_port u")
    case None
    have s: "?s = a @ c # ?H @ t" and par: "params = p + 1 + int (length ?H)"
      using None assms(6) by (simp_all add: port_text_def)
    show ?thesis
    proof (cases "CHR '':'' \<in> set h")
      case True
      have "rd ((a @ c # CHR ''['' # h) @ CHR '']'' # t) (p + int (length ?H)) = Inr (CHR '']'')"
        by (rule rd_suffix) (use True assms(1) in \<open>simp add: host_text_def\<close>)
      then have rd: "rd (a @ c # ?H @ t) (p + int (length ?H)) = Inr (CHR '']'')"
        using True by (simp add: host_text_def)
      moreover have "scan_back ?stop (a @ c # ?H @ t) p (p + int (length ?H)) = Inr (p + int (length ?H))"
        by (rule scan_back_stop [OF _ rd]) (use True in \<open>simp_all add: host_text_def\<close>)
      ultimately show ?thesis unfolding s using par None assms(5) by (simp add: uri_port_part_def)
    next
      case False
      then have H: "?H = h" by (simp add: host_text_def)
      have "scan_back ?stop ((a @ [c]) @ h @ t) p (int (length (a @ [c])) + int (length h) - 1) =
          scan_back ?stop ((a @ [c]) @ h @ t) p (int (length (a @ [c])) - 1)"
        by (rule scan_back_over) (use False assms(1,3) in \<open>auto simp: wf_host_def list_all_iff\<close>)
      then have "scan_back ?stop (a @ c # h @ t) p (p + int (length h)) = Inr p"
        using assms(1) by (simp add: scan_back_end)
      moreover have "rd (a @ c # h @ t) p = Inr c" by (rule rd_suffix [OF assms(1)])
      ultimately show ?thesis unfolding s using par None assms(2,5) H by (simp add: uri_port_part_def)
    qed
  next
    case (Some q)
    note q = assms(4) [OF Some, unfolded wf_port_def]
    let ?p = "p + 1 + int (length ?H)"
    have s: "?s = (a @ c # ?H @ '':'') @ q @ t" using Some by (simp add: port_text_def)
    have par: "params = ?p + 1 + int (length q)" using Some assms(6) by (simp add: port_text_def)
    have rd: "rd ?s ?p = Inr (CHR '':'')"
      using rd_suffix [of ?p "a @ c # ?H" "CHR '':''" "q @ t"] assms(1) Some by (simp add: port_text_def)
    have "scan_back ?stop ((a @ c # ?H @ '':'') @ q @ t) p (int (length (a @ c # ?H @ '':'')) + int (length q) - 1) =
        scan_back ?stop ((a @ c # ?H @ '':'') @ q @ t) p (int (length (a @ c # ?H @ '':'')) - 1)"
      by (rule scan_back_over) (use q assms(1) in \<open>auto simp: list_all_iff\<close>)
    then have "scan_back ?stop ?s p (params - 1) = scan_back ?stop ?s p ?p"
      unfolding s using assms(1) par by (simp add: algebra_simps)
    also have "\<dots> = Inr ?p" by (rule scan_back_stop [OF _ rd]) (use assms(1) in auto)
    finally have sc: "scan_back ?stop ?s p (params - 1) = Inr ?p" .
    have "osip_clrncpy (params - ?p) ?s (?p + 1) (params - ?p - 1) = Inr q"
      unfolding s using clrncpy_suffix [of "?p + 1" "a @ c # ?H @ '':''" "params - ?p - 1" q "params - ?p" t] par assms(1) q by simp
    moreover have "\<not> params - ?p < 2" "\<not> 8 < params - ?p" using par q by (cases q, auto)
    ultimately show ?thesis
      using sc rd Some by (simp add: uri_port_part_def)
  qed
qed

lemma uri_host_at:
  assumes "p = int (length a)" "c = CHR '':'' \<or> c = CHR ''@''" "wf_host h" "t = [] \<or> hd t \<noteq> CHR '']''"
    "q = p + 1 + int (length (host_text h))"
  shows "uri_host_part (a @ c # host_text h @ t) p q url = Inr (0, url\<lparr>uri_host := Some h\<rparr>)"
proof -
  let ?stop = "\<lambda>c. c = CHR '']''" and ?H = "host_text h"
  let ?s = "a @ c # ?H @ t"
  have h1: "\<not> int (length h) + 1 < 2" using assms(3) by (cases h) (auto simp: wf_host_def)
  obtain d where d: "rd ?s q = Inr d" "d \<noteq> CHR '']''"
  proof (cases t)
    case Nil
    then have "rd ?s q = Inr NUL" using assms(1,5) by (simp add: rd_def)
    with that show thesis by simp
  next
    case (Cons x y)
    with assms(4) that show thesis using rd_suffix [of q "a @ c # ?H" x y] assms(1,5) by simp
  qed
  then have first: "scan_back ?stop ?s p q = scan_back ?stop ?s p (p + int (length ?H))"
    using assms(5) by (subst scan_back.simps) simp
  show ?thesis
  proof (cases "CHR '':'' \<in> set h")
    case True
    have "rd ((a @ c # CHR ''['' # h) @ CHR '']'' # t) (p + int (length ?H)) = Inr (CHR '']'')"
      by (rule rd_suffix) (use True assms(1) in \<open>simp add: host_text_def\<close>)
    then have rd: "rd ?s (p + int (length ?H)) = Inr (CHR '']'')" using True by (simp add: host_text_def)
    moreover have "scan_back ?stop ?s p (p + int (length ?H)) = Inr (p + int (length ?H))"
      by (rule scan_back_stop [OF _ rd]) (use True in \<open>simp_all add: host_text_def\<close>)
    moreover have rds: "rd ?s p = Inr c" "rd ?s (p + 1) = Inr (CHR ''['')"
      using rd_suffix [OF assms(1)] rd_suffix [of "p + 1" "a @ [c]" "CHR ''[''" "h @ '']'' @ t"] assms(1) True
      by (simp_all add: host_text_def)
    have "scan_on (\<lambda>c. c = CHR ''['') ?s (p + 1) (p + int (length ?H)) = Inr (p + 1)"
      using True rds by (subst scan_on.simps) (simp add: host_text_def)
    then have "scan_on (\<lambda>c. c = CHR ''['') ?s p (p + int (length ?H)) = Inr (p + 1)"
      using True rds assms(2) by (subst scan_on.simps) (auto simp: host_text_def)
    moreover have "osip_clrncpy (int (length h) + 1) ?s (p + 2) (int (length h)) = Inr h"
      using clrncpy_suffix [of "p + 2" "a @ [c, CHR ''['']" "int (length h)" h _ "'']'' @ t"] True assms(1,3)
      by (simp add: host_text_def wf_host_def)
    ultimately show ?thesis
      using first h1 True by (simp add: uri_host_part_def host_text_def algebra_simps)
  next
    case False
    then have H: "?H = h" by (simp add: host_text_def)
    have "scan_back ?stop ((a @ [c]) @ h @ t) p (int (length (a @ [c])) + int (length h) - 1) =
        scan_back ?stop ((a @ [c]) @ h @ t) p (int (length (a @ [c])) - 1)"
      by (rule scan_back_over) (use False assms(1,3) in \<open>auto simp: wf_host_def list_all_iff\<close>)
    then have "scan_back ?stop (a @ c # h @ t) p (p + int (length h)) = Inr p"
      using assms(1) by (simp add: scan_back_end)
    moreover have "rd (a @ c # h @ t) p = Inr c" by (rule rd_suffix [OF assms(1)])
    moreover have "osip_clrncpy (int (length h) + 1) (a @ c # h @ t) (p + 1) (int (length h)) = Inr h"
      using clrncpy_suffix [of "p + 1" "a @ [c]" "int (length h)" h _ t] assms(1,3) by (simp add: wf_host_def)
    ultimately show ?thesis
      using first h1 H assms(2,5) by (auto simp: uri_host_part_def algebra_simps)
  qed
qed

lemma uri_address_at:
  assumes "p = int (length a)" "c = CHR '':'' \<or> c = CHR ''@''" "wf_host h"
    "\<And>q. uri_port u = Some q \<Longrightarrow> wf_port q" "list_all wf_param (url_params u)" "list_all wf_header (url_headers u)"
    "uri_port url = None" "url_params url = []" "url_headers url = []"
  shows "uri_address (a @ c # host_text h @ port_text u @ params_text (url_params u) @ headers_text ''?'' (url_headers u)) p url =
    Inr (0, url\<lparr>uri_host := Some h, uri_port := uri_port u, url_params := escape_last (url_params u), url_headers := url_headers u\<rparr>)"
proof -
  let ?H = "host_text h" and ?P = "port_text u" and ?Q = "params_text (url_params u)" and ?R = "headers_text ''?'' (url_headers u)"
  let ?s = "a @ c # ?H @ ?P @ ?Q @ ?R"
  have hp: "CHR ''?'' \<notin> set (?H @ ?P)" "CHR '';'' \<notin> set (?H @ ?P)"
    using host_text_chars [OF assms(3)] port_text_chars [OF assms(4)] by simp_all
  have c: "c \<noteq> CHR ''?''" "c \<noteq> CHR '';''" using assms(2) by auto
  have "uri_headers (a @ c # (?H @ ?P @ ?Q) @ ?R) p url = Inr (p + 1 + int (length (?H @ ?P @ ?Q)), url\<lparr>url_headers := url_headers u\<rparr>)"
    by (rule uri_headers_at [OF assms(1) c(1)]) (use hp params_text_chars assms in auto)
  moreover have "uri_params (a @ c # (?H @ ?P) @ ?Q @ ?R) p (p + 1 + int (length (?H @ ?P @ ?Q))) (url\<lparr>url_headers := url_headers u\<rparr>) =
      Inr (Some (p + 1 + int (length (?H @ ?P)), url\<lparr>url_headers := url_headers u, url_params := escape_last (url_params u)\<rparr>))"
    by (rule uri_params_at [OF assms(1) c(2)]) (use hp headers_text_chars assms in auto)
  moreover have "uri_port_part ?s p (p + 1 + int (length (?H @ ?P))) (url\<lparr>url_headers := url_headers u, url_params := escape_last (url_params u)\<rparr>) =
      Inr (Some (p + 1 + int (length ?H), url\<lparr>url_headers := url_headers u, url_params := escape_last (url_params u), uri_port := uri_port u\<rparr>))"
    by (rule uri_port_at [OF assms(1-3)]) (use assms in auto)
  moreover have "uri_host_part ?s p (p + 1 + int (length ?H))
      (url\<lparr>url_headers := url_headers u, url_params := escape_last (url_params u), uri_port := uri_port u\<rparr>) =
      Inr (0, url\<lparr>url_headers := url_headers u, url_params := escape_last (url_params u), uri_port := uri_port u, uri_host := Some h\<rparr>)"
  proof (rule uri_host_at [OF assms(1-3)])
    show "?P @ ?Q @ ?R = [] \<or> hd (?P @ ?Q @ ?R) \<noteq> CHR '']''"
    proof (cases "?P @ ?Q")
      case Nil
      then show ?thesis by (cases "url_headers u") auto
    next
      case (Cons x y)
      with params_text_hd [of "url_params u"] show ?thesis
        by (cases "uri_port u") (auto simp: port_text_def)
    qed
  qed simp
  ultimately show ?thesis by (simp add: uri_address_def)
qed

section \<open>The user information, and the whole\<close>

definition wf_user :: "string \<Rightarrow> bool" where
  "wf_user s \<longleftrightarrow> s \<noteq> [] \<and> NUL \<notin> set s"

lemma uri_userinfo_at:
  assumes "p = int (length a)" "uri_username u = Some n" "wf_user n" "\<And>w. uri_password u = Some w \<Longrightarrow> wf_user w"
    "uri_password url = None" "host = p + int (length (userinfo_text u))"
  shows "uri_userinfo (a @ CHR '':'' # userinfo_text u @ t) p host url =
    Inr (0, url\<lparr>uri_username := uri_username u, uri_password := uri_password u\<rparr>)"
proof -
  let ?n = "escaped userinfo_def n"
  have p: "p + 1 = int (length (a @ '':''))" using assms(1) by simp
  have n1: "\<not> int (length ?n) + 1 < 2" using assms(3) by (cases ?n) (auto simp: wf_user_def)
  have un: "osip_uri_unescape ?n = n"
    using assms(3) reserved_chars(1) by (simp add: wf_user_def osip_uri_unescape_escaped)
  have name: "osip_strncpy (1 + int (length ?n)) (a @ CHR '':'' # ?n @ x) (p + 1) (int (length ?n)) = Inr ?n" for x
    using strncpy_suffix [OF p, of "int (length ?n)" ?n _ x] by simp
  show ?thesis
  proof (cases "uri_password u")
    case None
    have "next_separator ((a @ '':'') @ ?n @ ''@'' @ t) (p + 1) (CHR '':'') (CHR ''@'') = Inr None"
      by (rule next_separator_none [OF p]) (use not_in_escaped in auto)
    with None name [of "''@'' @ t"] n1 un assms(2,5,6) show ?thesis
      by (simp add: uri_userinfo_def userinfo_text_def)
  next
    case (Some w)
    let ?w = "escaped password_def w"
    note w = assms(4) [OF Some, unfolded wf_user_def]
    have "next_separator ((a @ '':'') @ ?n @ CHR '':'' # ?w @ ''@'' @ t) (p + 1) (CHR '':'') (CHR ''@'') =
        Inr (Some (p + 1 + int (length ?n)))"
      by (rule next_separator_found [OF p]) (use not_in_escaped in auto)
    moreover have "osip_strncpy (1 + int (length ?w)) ((a @ CHR '':'' # ?n @ '':'') @ ?w @ ''@'' @ t) (p + 2 + int (length ?n)) (int (length ?w)) = Inr ?w"
      by (rule strncpy_suffix) (use assms(1) in auto)
    moreover have "osip_uri_unescape ?w = w" using w reserved_chars(1) by (simp add: osip_uri_unescape_escaped)
    moreover have "\<not> int (length ?w) + 1 < 2" using w by (cases ?w) auto
    ultimately show ?thesis
      using Some name [of "CHR '':'' # ?w @ ''@'' @ t"] n1 un assms(2,6)
      by (simp add: uri_userinfo_def userinfo_text_def algebra_simps)
  qed
qed

text \<open>An address that can be written: every part is there as its grammar wants it.\<close>

definition wf_uri :: "uri \<Rightarrow> bool" where
  "wf_uri u \<longleftrightarrow> uri_string u = None \<and>
     (case uri_scheme u of None \<Rightarrow> False
      | Some s \<Rightarrow> 3 \<le> length s \<and> strncasecmp0 3 s ''sip'' \<and> CHR '':'' \<notin> set s \<and> CHR ''@'' \<notin> set s) \<and>
     (case uri_host u of None \<Rightarrow> False | Some h \<Rightarrow> wf_host h) \<and>
     (case uri_port u of None \<Rightarrow> True | Some q \<Rightarrow> wf_port q) \<and>
     (case uri_username u of None \<Rightarrow> uri_password u = None | Some n \<Rightarrow> wf_user n) \<and>
     (case uri_password u of None \<Rightarrow> True | Some w \<Rightarrow> wf_user w) \<and>
     list_all wf_param (url_params u) \<and> list_all wf_header (url_headers u)"

definition last_unreserved :: "param list \<Rightarrow> bool" where
  "last_unreserved ps = (case rev ps of [] \<Rightarrow> True
     | u # _ \<Rightarrow> list_all (unreserved uri_param_def) (gname u) \<and>
         (case gvalue u of None \<Rightarrow> True | Some v \<Rightarrow> list_all (unreserved uri_param_def) v))"

lemma escape_last_same: "escape_last ps = ps \<longleftrightarrow> last_unreserved ps"
proof (cases ps rule: rev_cases)
  case (snoc qs u)
  have "escape_param u = u \<longleftrightarrow> last_unreserved [u]"
    by (cases u; cases "gvalue u") (auto simp: escape_param_def last_unreserved_def escaped_same)
  with snoc show ?thesis by (simp add: escape_last_def last_unreserved_def)
qed (simp add: escape_last_def last_unreserved_def)

lemma wf_uri_valued: "list_all wf_header hs \<Longrightarrow> valued hs"
  by (auto simp: valued_def list_all_iff wf_header_def split: option.splits)

lemma osip_uri_parse_text:
  assumes "wf_uri u"
  shows "osip_uri_parse osip_uri_init (uri_text u) = Inr (0, u\<lparr>url_params := escape_last (url_params u)\<rparr>)"
proof -
  obtain sch h where u: "uri_scheme u = Some sch" "3 \<le> length sch" "strncasecmp0 3 sch ''sip''" "CHR '':'' \<notin> set sch" "CHR ''@'' \<notin> set sch"
      "uri_host u = Some h" "wf_host h" "uri_string u = None"
    using assms by (auto simp: wf_uri_def split: option.splits)
  have parts: "\<And>q. uri_port u = Some q \<Longrightarrow> wf_port q" "list_all wf_param (url_params u)" "list_all wf_header (url_headers u)"
    using assms by (auto simp: wf_uri_def)
  let ?A = "host_text h @ port_text u @ params_text (url_params u) @ headers_text ''?'' (url_headers u)"
  let ?s = "sch @ CHR '':'' # userinfo_text u @ ?A" and ?p = "int (length sch)"
  let ?url = "osip_uri_init\<lparr>uri_scheme := Some sch\<rparr>"
  have s: "uri_text u = ?s" using u by (simp add: uri_text_def scheme_of_def)
  have colon: "strchr ?s 0 (CHR '':'') = Inr (Some ?p)"
    using strchr_first [of 0 "[]" "CHR '':''" sch] u(4) by simp
  have scheme: "osip_strncpy (?p + 1) ?s 0 ?p = Inr sch"
    using strncpy_suffix [of 0 "[]" ?p sch] by simp
  have head: "osip_uri_parse osip_uri_init ?s = bindR (strchr ?s 0 (CHR ''@'')) (\<lambda>at. case at of
            None \<Rightarrow> uri_address ?s ?p ?url
          | Some host \<Rightarrow> bindR (rd ?s (?p + 1)) (\<lambda>c.
              if c = CHR ''@'' then uri_address ?s (?p + 1) ?url
              else bindR (uri_userinfo ?s ?p host ?url) (\<lambda>(rc, url).
                if rc \<noteq> 0 then Inr (- 1, url) else uri_address ?s host url)))"
    using colon scheme u(2,3) by (simp add: osip_uri_parse_def Let_def)
  show ?thesis
  proof (cases "uri_username u")
    case None
    then have pw: "uri_password u = None" using assms by (simp add: wf_uri_def)
    have "CHR ''@'' \<notin> set ?A"
      using host_text_chars [OF u(7)] port_text_chars [OF parts(1)] params_text_chars headers_text_chars by simp
    then have "strchr ?s 0 (CHR ''@'') = Inr None"
      using strchr_suffix [of 0 "[]" ?s "CHR ''@''"] u(5) None by (simp add: userinfo_text_def)
    moreover have "uri_address (sch @ CHR '':'' # ?A) ?p ?url =
        Inr (0, ?url\<lparr>uri_host := Some h, uri_port := uri_port u, url_params := escape_last (url_params u), url_headers := url_headers u\<rparr>)"
      by (rule uri_address_at) (use u parts in \<open>auto simp: osip_uri_init_def\<close>)
    ultimately show ?thesis
      using None pw u unfolding s head by (simp add: userinfo_text_def osip_uri_init_def)
  next
    case (Some n)
    have n: "wf_user n" "\<And>w. uri_password u = Some w \<Longrightarrow> wf_user w" using assms Some by (auto simp: wf_uri_def)
    obtain x where x: "userinfo_text u = x @ ''@''" "CHR ''@'' \<notin> set x" "x \<noteq> []"
    proof (rule that)
      let ?x = "escaped userinfo_def n @ (case uri_password u of None \<Rightarrow> [] | Some p \<Rightarrow> '':'' @ escaped password_def p)"
      show "userinfo_text u = ?x @ ''@''" using Some by (simp add: userinfo_text_def)
      show "CHR ''@'' \<notin> set ?x" using not_in_escaped by (auto split: option.splits)
      show "?x \<noteq> []" using n(1) by (simp add: wf_user_def)
    qed
    let ?host = "?p + 1 + int (length x)"
    have at: "strchr ?s 0 (CHR ''@'') = Inr (Some ?host)"
      using strchr_first [of 0 "[]" "CHR ''@''" "sch @ CHR '':'' # x" ?A] u(5) x by simp
    obtain c where c: "rd ?s (?p + 1) = Inr c" "c \<noteq> CHR ''@''"
    proof (cases x)
      case (Cons c y)
      show thesis
        by (rule that [of c]) (use rd_suffix [of "?p + 1" "sch @ '':''" c] Cons x in auto)
    qed (use x in simp)
    have "uri_userinfo ?s ?p ?host ?url = Inr (0, ?url\<lparr>uri_username := uri_username u, uri_password := uri_password u\<rparr>)"
      by (rule uri_userinfo_at) (use Some n x in \<open>auto simp: osip_uri_init_def\<close>)
    moreover have "uri_address ((sch @ CHR '':'' # x) @ CHR ''@'' # ?A) ?host (?url\<lparr>uri_username := uri_username u, uri_password := uri_password u\<rparr>) =
        Inr (0, ?url\<lparr>uri_username := uri_username u, uri_password := uri_password u, uri_host := Some h, uri_port := uri_port u,
          url_params := escape_last (url_params u), url_headers := url_headers u\<rparr>)"
      by (rule uri_address_at) (use u parts in \<open>auto simp: osip_uri_init_def\<close>)
    ultimately show ?thesis
      using at c u x unfolding s head by (simp add: osip_uri_init_def)
  qed
qed

text \<open>
  Claim C28: what \<open>osip_uri_to_str\<close> prints for a well-formed address \<open>osip_uri_parse\<close> reads back part
  by part; but the last parameter comes back escaped, so the address is the same exactly when that
  parameter needs no escaping.
\<close>

theorem uri_roundtrip:
  assumes "wf_uri u"
  shows "\<exists>t. osip_uri_to_str u = Inr (Some t) \<and>
    osip_uri_parse osip_uri_init t = Inr (0, u\<lparr>url_params := escape_last (url_params u)\<rparr>) \<and>
    (escape_last (url_params u) = url_params u \<longleftrightarrow> last_unreserved (url_params u))"
proof -
  have "osip_uri_to_str u = Inr (Some (uri_text u))"
    by (rule to_str_text) (use assms wf_uri_valued in \<open>auto simp: wf_uri_def split: option.splits\<close>)
  with osip_uri_parse_text [OF assms] escape_last_same show ?thesis by blast
qed

definition odd_uri :: uri where
  "odd_uri = \<lparr>uri_scheme = Some ''sip'', uri_username = Some ''a b'', uri_password = None, uri_host = Some ''::1'',
     uri_port = Some ''5060'', url_params = [\<lparr>gname = ''lr'', gvalue = None\<rparr>, \<lparr>gname = ''x'', gvalue = Some ''1=2''\<rparr>],
     url_headers = [\<lparr>gname = ''s'', gvalue = Some ''t''\<rparr>], uri_string = None\<rparr>"

theorem uri_roundtrip_witness:
  "\<exists>t. osip_uri_to_str odd_uri = Inr (Some t) \<and> osip_uri_parse osip_uri_init t = Inr (0, odd_uri\<lparr>url_params :=
     [\<lparr>gname = ''lr'', gvalue = None\<rparr>, \<lparr>gname = ''x'', gvalue = Some ''1%3D2''\<rparr>]\<rparr>)"
proof -
  have "wf_uri odd_uri" by code_simp
  moreover have "escape_last (url_params odd_uri) = [\<lparr>gname = ''lr'', gvalue = None\<rparr>, \<lparr>gname = ''x'', gvalue = Some ''1%3D2''\<rparr>]"
    by code_simp
  ultimately show ?thesis using uri_roundtrip [of odd_uri] by auto
qed

end
