(* ===== verification/Osip_Headers.thy ===== *)
theory Osip_Headers
  imports Osip_Uri
begin

text \<open>
  The headers of a SIP message (osipparser2: osip_from.c, osip_to.c, osip_contact.c, osip_record_route.c,
  osip_route.c, osip_via.c, osip_cseq.c, osip_call_id.c, osip_content_type.c, osip_content_length.c,
  osip_accept.c, osip_accept_encoding.c, osip_call_info.c, osip_header.c): reading each from its text and
  printing it into a block of the computed size.

  A reader returns \<open>None\<close> where the source returns -1: its callers then free what it stored so far.
\<close>

section \<open>Steps that may return an error\<close>

definition bindO :: "'a option res \<Rightarrow> ('a \<Rightarrow> 'b option res) \<Rightarrow> 'b option res" where
  "bindO m f = bindR m (\<lambda>r. case r of None \<Rightarrow> Inr None | Some x \<Rightarrow> f x)"

lemma bindO_simps [simp]:
  "bindO (Inl e) f = Inl e" "bindO (Inr None) f = Inr None" "bindO (Inr (Some x)) f = f x"
  by (simp_all add: bindO_def)

lemma bindO_cong [fundef_cong]:
  "m = m' \<Longrightarrow> (\<And>x. m' = Inr (Some x) \<Longrightarrow> f x = f' x) \<Longrightarrow> bindO m f = bindO m' f'"
  by (cases m') (auto simp: bindO_def split: option.splits)

text \<open>The copies as such steps, and the search for a character that must be there.\<close>

definition copyO :: "int \<Rightarrow> string \<Rightarrow> int \<Rightarrow> int \<Rightarrow> string option res" where
  "copyO m s p n = bindR (osip_strncpy m s p n) (\<lambda>v. Inr (Some v))"

definition clrcopyO :: "int \<Rightarrow> string \<Rightarrow> int \<Rightarrow> int \<Rightarrow> string option res" where
  "clrcopyO m s p n = bindR (osip_clrncpy m s p n) (\<lambda>v. Inr (Some v))"

definition skip_chars :: "(char \<Rightarrow> bool) \<Rightarrow> string \<Rightarrow> int \<Rightarrow> int res" where
  "skip_chars P s p = (if p < 0 \<or> int (length s) < p then Inl Out_of_bounds
                       else Inr (p + int (length (takeWhile P (drop (nat p) s)))))"

definition or_end :: "string \<Rightarrow> int option \<Rightarrow> int" where
  "or_end s p = (case p of None \<Rightarrow> strend s | Some q \<Rightarrow> q)"

section \<open>Parameters\<close>

definition sp_or_tab :: "char \<Rightarrow> bool" where
  "sp_or_tab c \<longleftrightarrow> c = CHR '' '' \<or> c = CHR 0x09"

text \<open>The value between \<open>equal\<close> and \<open>comma\<close>: an empty one before a comma or the end is no value.\<close>

definition generic_value :: "string \<Rightarrow> int option \<Rightarrow> int \<Rightarrow> string option option res" where
  "generic_value s equal comma =
     (case equal of None \<Rightarrow> Inr (Some None)
      | Some e \<Rightarrow> bindR (skip_chars sp_or_tab s (e + 1)) (\<lambda>tmp. bindR (rd s tmp) (\<lambda>c.
          if c = CHR '','' \<or> c = NUL then Inr (Some None)
          else if comma - e < 2 then Inr None
          else bindO (copyO (comma - e) s (e + 1) (comma - e - 1)) (\<lambda>v. Inr (Some (Some v))))))"

definition generic_param :: "string \<Rightarrow> int \<Rightarrow> int option \<Rightarrow> int \<Rightarrow> (string \<times> string option) option res" where
  "generic_param s params equal comma =
     bindO (generic_value s equal comma) (\<lambda>pvalue.
     let equal = (case equal of None \<Rightarrow> comma | Some e \<Rightarrow> e) in
     if equal - params < 2 then Inr None
     else bindO (copyO (equal - params) s (params + 1) (equal - params - 1)) (\<lambda>pname. Inr (Some (pname, pvalue))))"

function generic_param_parseall :: "string \<Rightarrow> int \<Rightarrow> param list \<Rightarrow> param list option res" where
  "generic_param_parseall s params ps =
     bindR (next_separator s (params + 1) (CHR ''='') (CHR '';'')) (\<lambda>equal.
     bindR (strchr s (params + 1) (CHR '';'')) (\<lambda>comma. case comma of
         Some comma \<Rightarrow> bindO (generic_param s params equal comma) (\<lambda>(n, v).
           generic_param_parseall s comma (osip_uri_param_add ps n v))
       | None \<Rightarrow> bindO (generic_param s params equal (strend s)) (\<lambda>(n, v).
           Inr (Some (osip_uri_param_add ps n v)))))"
  by pat_completeness auto

termination generic_param_parseall
  by (relation "measure (\<lambda>(s, params, ps). nat (int (length s) - params))") (auto dest!: strchr_Some)

declare generic_param_parseall.simps [simp del]

text \<open>The parameters from a semicolon on, if there is one.\<close>

definition params_from :: "string \<Rightarrow> int option \<Rightarrow> param list option res" where
  "params_from s p = (case p of None \<Rightarrow> Inr (Some []) | Some q \<Rightarrow> generic_param_parseall s q [])"

section \<open>CSeq and Call-ID\<close>

definition osip_cseq_parse :: "string \<Rightarrow> cseq option res" where
  "osip_cseq_parse s =
     bindR (strchr s 0 (CHR '' '')) (\<lambda>m. case m of None \<Rightarrow> Inr None | Some method \<Rightarrow>
       if method + 1 < 2 then Inr None
       else bindO (clrcopyO (method + 1) s 0 method) (\<lambda>number.
         if strend s - method + 1 < 2 then Inr None
         else bindO (clrcopyO (strend s - method + 1) s (method + 1) (strend s - method)) (\<lambda>v.
           Inr (Some \<lparr>cseq_number = Some number, cseq_method = Some v\<rparr>))))"

definition osip_cseq_to_str :: "cseq \<Rightarrow> string option res" where
  "osip_cseq_to_str c = (case (cseq_number c, cseq_method c) of
      (Some n, Some m) \<Rightarrow> bindR (strcat_to (length m + length n + 2) [] (n @ '' '' @ m)) (\<lambda>t. Inr (Some t))
    | _ \<Rightarrow> Inr None)"

definition osip_call_id_parse :: "string \<Rightarrow> call_id option res" where
  "osip_call_id_parse s =
     bindR (strchr s 0 (CHR ''@'')) (\<lambda>h.
     bindO (case h of None \<Rightarrow> Inr (Some None)
            | Some host \<Rightarrow> if strend s - host + 1 < 2 then Inr None
                else bindO (clrcopyO (strend s - host) s (host + 1) (strend s - host - 1)) (\<lambda>v. Inr (Some (Some v)))) (\<lambda>v.
     let host = or_end s h in
     if host + 1 < 2 then Inr None
     else bindO (clrcopyO (host + 1) s 0 host) (\<lambda>number.
       Inr (Some \<lparr>call_id_number = Some number, call_id_host = v\<rparr>))))"

definition call_id_print :: "call_id \<Rightarrow> string option res" where
  "call_id_print c = (case call_id_number c of None \<Rightarrow> Inr None
     | Some n \<Rightarrow> bindR (case call_id_host c of
           None \<Rightarrow> strcat_to (length n + 1) [] n
         | Some h \<Rightarrow> strcat_to (length n + length h + 2) [] (n @ ''@'' @ h)) (\<lambda>t. Inr (Some t)))"

section \<open>Via\<close>

text \<open>
  The end of the protocol name: blanks in front of it are skipped one by one; at a single character
  left over the header is malformed.
\<close>

function via_skip :: "string \<Rightarrow> int \<Rightarrow> int option res" where
  "via_skip s host =
     bindR (rd s host) (\<lambda>c. if c \<noteq> CHR '' '' then Inr (Some host)
       else if strend s - (host + 1) = 1 then Inr None else via_skip s (host + 1))"
  by pat_completeness auto

termination via_skip
  by (relation "measure (\<lambda>(s, host). nat (int (length s) - host))") (auto simp: rd_def split: if_splits)

declare via_skip.simps [simp del]

definition via_protocol_end :: "string \<Rightarrow> int \<Rightarrow> int option res" where
  "via_protocol_end s protocol =
     bindO (strchr s (protocol + 1) (CHR '' '')) (\<lambda>host.
       if host = protocol + 1 then bindO (via_skip s host) (\<lambda>host. strchr s (host + 1) (CHR '' ''))
       else Inr (Some host))"

text \<open>The comment in brackets, and the position in front of it or the end of the text.\<close>

definition via_comment_part :: "string \<Rightarrow> int \<Rightarrow> (string option \<times> int) option res" where
  "via_comment_part s host =
     bindR (strchr s host (CHR ''('')) (\<lambda>c. case c of
         None \<Rightarrow> Inr (Some (None, strend s))
       | Some comment \<Rightarrow> bindO (strchr s host (CHR '')'')) (\<lambda>end_comment.
           if end_comment - comment < 2 then Inr None
           else bindO (copyO (end_comment - comment) s (comment + 1) (end_comment - comment - 1)) (\<lambda>v.
             Inr (Some (Some v, comment - 1)))))"

definition via_params_part :: "string \<Rightarrow> int \<Rightarrow> int \<Rightarrow> (param list \<times> int) option res" where
  "via_params_part s host comment =
     bindR (strchr s host (CHR '';'')) (\<lambda>p. case p of
         None \<Rightarrow> Inr (Some ([], comment))
       | Some params \<Rightarrow>
           if params < comment then
             if comment - params + 1 < 2 then Inr None
             else bindO (copyO (comment - params + 1) s params (comment - params)) (\<lambda>tmp.
               bindO (generic_param_parseall tmp 0 []) (\<lambda>ps. Inr (Some (ps, params))))
           else Inr (Some ([], params)))"

text \<open>A host in square brackets is stored first; the port is looked for behind it.\<close>

definition via_ipv6host :: "string \<Rightarrow> int \<Rightarrow> int \<Rightarrow> (string option \<times> int option) option res" where
  "via_ipv6host s host params =
     bindR (strchr s host (CHR ''['')) (\<lambda>b.
       if (case b of None \<Rightarrow> False | Some ipv6host \<Rightarrow> ipv6host < params) then
         let ipv6host = the b in
         bindO (strchr s ipv6host (CHR '']'')) (\<lambda>port.
           if params < port then Inr None
           else if port - ipv6host < 2 then Inr None
           else bindO (clrcopyO (port - ipv6host) s (ipv6host + 1) (port - ipv6host - 1)) (\<lambda>h.
             bindR (strchr s port (CHR '':'')) (\<lambda>port. Inr (Some (Some h, port)))))
       else bindR (strchr s host (CHR '':'')) (\<lambda>port. Inr (Some (None, port))))"

definition via_port_value :: "string \<Rightarrow> int option \<Rightarrow> int \<Rightarrow> (string option \<times> int) option res" where
  "via_port_value s port params =
     (case port of
        Some p \<Rightarrow> if p < params then
            if params - p < 2 then Inr None
            else bindO (clrcopyO (params - p) s (p + 1) (params - p - 1)) (\<lambda>v. Inr (Some (Some v, p)))
          else Inr (Some (None, params))
      | None \<Rightarrow> Inr (Some (None, params)))"

definition via_host_port :: "string \<Rightarrow> int \<Rightarrow> int \<Rightarrow> via \<Rightarrow> via option res" where
  "via_host_port s host params via =
     bindO (via_ipv6host s host params) (\<lambda>(v6, port).
     bindO (via_port_value s port params) (\<lambda>(v, port).
     case v6 of
       Some h \<Rightarrow> Inr (Some (via\<lparr>via_host := Some h, via_port := v\<rparr>))
     | None \<Rightarrow> if port - host < 2 then Inr None
         else bindO (clrcopyO (port - host) s (host + 1) (port - host - 1)) (\<lambda>h.
           Inr (Some (via\<lparr>via_host := Some h, via_port := v\<rparr>)))))"

definition osip_via_parse :: "string \<Rightarrow> via option res" where
  "osip_via_parse s =
     bindO (strchr s 0 (CHR ''/'')) (\<lambda>version.
     bindO (strchr s (version + 1) (CHR ''/'')) (\<lambda>protocol.
     if protocol - version < 2 then Inr None
     else bindO (clrcopyO (protocol - version) s (version + 1) (protocol - version - 1)) (\<lambda>ver.
     bindO (via_protocol_end s protocol) (\<lambda>host.
     if host - protocol < 2 then Inr None
     else bindO (clrcopyO (host - protocol) s (protocol + 1) (host - protocol - 1)) (\<lambda>prot.
     bindO (via_comment_part s host) (\<lambda>(com, comment).
     bindO (via_params_part s host comment) (\<lambda>(ps, params).
     via_host_port s host params \<lparr>via_version = Some ver, via_protocol = Some prot, via_host = None, via_port = None,
       via_comment = com, via_params = ps\<rparr>)))))))"

text \<open>Printing one, and the parameters that follow it in blocks that grow.\<close>

definition generic_param_print :: "param \<Rightarrow> nat \<times> string \<Rightarrow> (nat \<times> string) res" where
  "generic_param_print u state = param_to_str '';'' state (gname u) (gvalue u)"

definition via_print :: "via \<Rightarrow> string option res" where
  "via_print via =
     (case (via_host via, via_version via, via_protocol via) of
        (Some host, Some version, Some protocol) \<Rightarrow>
          let len = length version + 1 + length protocol + 1 + 3 + 2 + length host + 3 + 1 +
                (case via_port via of None \<Rightarrow> 0 | Some p \<Rightarrow> length p + 2) in
          bindR (strcat_to len [] (''SIP/'' @ version @ ''/'' @ protocol @ '' '' @
              (if CHR '':'' \<in> set host then ''['' @ host @ '']'' else host) @
              (case via_port via of None \<Rightarrow> [] | Some p \<Rightarrow> '':'' @ p))) (\<lambda>buf.
          bindR (foldR generic_param_print (via_params via) (len, buf)) (\<lambda>(len, buf).
          bindR (case via_comment via of None \<Rightarrow> Inr buf
                 | Some c \<Rightarrow> strcat_to (len + length c + 4) buf ('' ('' @ c @ '')'')) (\<lambda>buf. Inr (Some buf))))
      | _ \<Rightarrow> Inr None)"

section \<open>From, To, Contact, Route and Record-Route\<close>

text \<open>The display name, and where the address starts.\<close>

definition from_displayname :: "string \<Rightarrow> int option \<Rightarrow> (string option \<times> int) option res" where
  "from_displayname s url =
     bindR (strchr s 0 (CHR 0x22)) (\<lambda>displayname.
     let displayname = (case (displayname, url) of (Some d, Some u) \<Rightarrow> if u < d then None else Some d | _ \<Rightarrow> None) in
     case (displayname, url) of
       (None, Some u) \<Rightarrow>
         if u \<noteq> 0 then bindO (clrcopyO (u + 1) s 0 u) (\<lambda>v. Inr (Some (Some v, u + 1)))
         else Inr (Some (None, u + 1))
     | (Some _, Some u) \<Rightarrow>
         bindO (osip_quote_find s 0) (\<lambda>first.
         bindO (osip_quote_find s (first + 1)) (\<lambda>second.
         if u < first then Inr None
         else bindO (if 2 \<le> second - first + 2
                then bindO (copyO (second - first + 2) s first (second - first + 1)) (\<lambda>v. Inr (Some (Some v)))
                else Inr (Some None)) (\<lambda>v.
         bindO (strchr s (second + 1) (CHR ''<'')) (\<lambda>url. Inr (Some (v, url + 1))))))
     | (_, None) \<Rightarrow> Inr (Some (None, 0)))"

text \<open>Where the address ends, and where the parameters start.\<close>

definition from_url_end :: "string \<Rightarrow> int \<Rightarrow> (int \<times> int option) res" where
  "from_url_end s url =
     bindR (strchr s url (CHR ''>'')) (\<lambda>e. case e of
         None \<Rightarrow> bindR (strchr s url (CHR ''@'')) (\<lambda>host.
           bindR (strchr s (case host of None \<Rightarrow> url | Some h \<Rightarrow> h) (CHR '';'')) (\<lambda>params.
             Inr (case params of None \<Rightarrow> strend s | Some p \<Rightarrow> p - 1, params)))
       | Some url_end \<Rightarrow> bindR (strchr s url_end (CHR '';'')) (\<lambda>params. Inr (url_end - 1, params)))"

definition osip_from_parse :: "string \<Rightarrow> name_addr option res" where
  "osip_from_parse s =
     bindR (strchr s 0 (CHR ''<'')) (\<lambda>url.
     bindO (case url of None \<Rightarrow> Inr (Some ())
            | Some u \<Rightarrow> bindO (strchr s u (CHR ''>'')) (\<lambda>_. Inr (Some ()))) (\<lambda>_.
     bindO (from_displayname s url) (\<lambda>(v, url).
     bindR (from_url_end s url) (\<lambda>(url_end, params).
     bindO (params_from s params) (\<lambda>ps.
     if url_end - url + 2 < 7 then Inr None
     else bindO (copyO (url_end - url + 2) s url (url_end - url + 1)) (\<lambda>tmp.
     bindR (osip_uri_parse osip_uri_init tmp) (\<lambda>(rc, uri).
       if rc \<noteq> 0 then Inr None
       else Inr (Some \<lparr>displayname = v, from_url = Some uri, gen_params = ps\<rparr>))))))))"

definition osip_from_to_str :: "name_addr \<Rightarrow> string option res" where
  "osip_from_to_str f =
     (case from_url f of None \<Rightarrow> Inr None | Some u \<Rightarrow>
       bindO (osip_uri_to_str u) (\<lambda>url.
       let len = length url + (case displayname f of None \<Rightarrow> 0 | Some d \<Rightarrow> length d) + 5 in
       bindR (strcat_to len [] ((case displayname f of None \<Rightarrow> [] | Some d \<Rightarrow> d @ '' '') @ ''<'' @ url @ ''>'')) (\<lambda>buf.
       bindR (foldR generic_param_print (gen_params f) (len, buf)) (\<lambda>(_, buf). Inr (Some buf)))))"

text \<open>To, Route and Record-Route are the same; a Contact may be a star.\<close>

definition osip_record_route_to_str :: "name_addr \<Rightarrow> string option res" where
  "osip_record_route_to_str = osip_from_to_str"

definition osip_contact_parse :: "string \<Rightarrow> name_addr option res" where
  "osip_contact_parse s =
     (if take 1 s = ''*'' then Inr (Some \<lparr>displayname = Some s, from_url = None, gen_params = []\<rparr>) else osip_from_parse s)"

definition osip_contact_to_str :: "name_addr \<Rightarrow> string option res" where
  "osip_contact_to_str c =
     (case displayname c of Some d \<Rightarrow> if take 1 d = ''*'' then Inr (Some ''*'') else osip_from_to_str c
      | None \<Rightarrow> osip_from_to_str c)"

section \<open>Content-Type and Accept\<close>

record content_type =
  ct_type :: "string option"
  ct_subtype :: "string option"
  ct_params :: "param list"

definition osip_content_type_init :: content_type where
  "osip_content_type_init = \<lparr>ct_type = None, ct_subtype = None, ct_params = []\<rparr>"

definition osip_content_type_parse :: "string \<Rightarrow> content_type option res" where
  "osip_content_type_parse s =
     (if s = [] then Inr (Some osip_content_type_init)
      else bindO (strchr s 0 (CHR ''/'')) (\<lambda>subtype.
      bindR (strchr s 0 (CHR '';'')) (\<lambda>params.
      bindO (params_from s params) (\<lambda>ps.
      let params = or_end s params in
      if subtype + 1 < 2 then Inr None
      else bindO (clrcopyO (subtype + 1) s 0 subtype) (\<lambda>ty.
      if params - subtype < 2 then Inr None
      else bindO (clrcopyO (params - subtype) s (subtype + 1) (params - subtype - 1)) (\<lambda>sub.
        Inr (Some \<lparr>ct_type = Some ty, ct_subtype = Some sub, ct_params = ps\<rparr>)))))))"

text \<open>The block grows only when it is too small; a parameter without a value is an error.\<close>

fun content_type_params_print :: "param list \<Rightarrow> nat \<times> string \<Rightarrow> string option res" where
  "content_type_params_print [] (len, buf) = Inr (Some buf)"
| "content_type_params_print (u # us) (len, buf) =
     (case gvalue u of None \<Rightarrow> Inr None | Some v \<Rightarrow>
       let tmp_len = length buf + 4 + length (gname u) + length v + 1;
         len = (if len < tmp_len then tmp_len else len) in
       bindR (strcat_to len buf (''; '' @ gname u @ ''='' @ v)) (\<lambda>buf. content_type_params_print us (len, buf)))"

definition osip_content_type_to_str :: "content_type \<Rightarrow> string option res" where
  "osip_content_type_to_str c =
     (case (ct_type c, ct_subtype c) of
        (Some ty, Some sub) \<Rightarrow>
          let len = length ty + length sub + 4 + 10 * length (ct_params c) in
          bindR (strcat_to len [] (ty @ ''/'' @ sub)) (\<lambda>buf. content_type_params_print (ct_params c) (len, buf))
      | _ \<Rightarrow> Inr None)"

text \<open>An Accept header may be empty. A missing part of a header that is not is printed through a null pointer.\<close>

definition osip_accept_to_str :: "content_type \<Rightarrow> string option res" where
  "osip_accept_to_str c =
     (let len = (case ct_type c of None \<Rightarrow> 0 | Some t \<Rightarrow> length t) + (case ct_subtype c of None \<Rightarrow> 0 | Some t \<Rightarrow> length t) in
      if len = 0 then Inr (Some '' '')
      else bindR (deref (ct_type c)) (\<lambda>ty. bindR (deref (ct_subtype c)) (\<lambda>sub.
        let len = len + 4 + 10 * length (ct_params c) in
        bindR (strcat_to len [] (ty @ ''/'' @ sub)) (\<lambda>buf. content_type_params_print (ct_params c) (len, buf)))))"

section \<open>Headers with one element\<close>

text \<open>Content-Length, and with it Allow, Content-Encoding and Mime-Version: the text as it is.\<close>

definition osip_content_length_parse :: "string \<Rightarrow> string option res" where
  "osip_content_length_parse s =
     (if length s + 1 < 2 then Inr None else copyO (strend s + 1) s 0 (strend s))"

definition osip_content_length_to_str :: "string option \<Rightarrow> string option res" where
  "osip_content_length_to_str v = Inr v"

text \<open>Accept-Encoding and Accept-Language; Call-Info, Alert-Info and Error-Info: an element and parameters.\<close>

record element =
  elt_element :: "string option"
  elt_params :: "param list"

definition osip_accept_encoding_parse :: "string \<Rightarrow> element option res" where
  "osip_accept_encoding_parse s =
     bindR (strchr s 0 (CHR '';'')) (\<lambda>params.
     bindO (params_from s params) (\<lambda>ps.
     let params = or_end s params in
     if params + 1 < 2 then Inr None
     else bindO (clrcopyO (params + 1) s 0 params) (\<lambda>v. Inr (Some \<lparr>elt_element = Some v, elt_params = ps\<rparr>))))"

definition osip_call_info_parse :: "string \<Rightarrow> element option res" where
  "osip_call_info_parse s =
     bindO (strchr s 0 (CHR ''<'')) (\<lambda>p.
     bindO (strchr s (p + 1) (CHR ''>'')) (\<lambda>p.
     bindR (strchr s (p + 1) (CHR '';'')) (\<lambda>params.
     bindO (params_from s params) (\<lambda>ps.
     let params = or_end s params in
     if params + 1 < 2 then Inr None
     else bindO (clrcopyO (params + 1) s 0 params) (\<lambda>v. Inr (Some \<lparr>elt_element = Some v, elt_params = ps\<rparr>))))))"

definition osip_call_info_to_str :: "element \<Rightarrow> string option res" where
  "osip_call_info_to_str e =
     (case elt_element e of None \<Rightarrow> Inr None | Some v \<Rightarrow>
       let len = length v + 2 in
       bindR (strcat_to len [] v) (\<lambda>buf.
       bindR (foldR generic_param_print (elt_params e) (len, buf)) (\<lambda>(_, buf). Inr (Some buf))))"

definition osip_accept_encoding_to_str :: "element \<Rightarrow> string option res" where
  "osip_accept_encoding_to_str = osip_call_info_to_str"

section \<open>Other headers\<close>

record header =
  hname :: string
  hvalue :: "string option"

text \<open>A name or value that is empty is copied by \<open>osip_clrncpy\<close> of no characters.\<close>

definition header_init :: "string \<Rightarrow> string option \<Rightarrow> header res" where
  "header_init n v =
     bindR (osip_clrncpy (strend n + 1) n 0 (strend n)) (\<lambda>n.
     bindR (case v of None \<Rightarrow> Inr None
            | Some v \<Rightarrow> bindR (osip_clrncpy (strend v + 1) v 0 (strend v)) (\<lambda>v. Inr (Some v))) (\<lambda>v.
     Inr \<lparr>hname = n, hvalue = v\<rparr>))"

text \<open>The first letter is put in upper case, but for \<open>a\<close> and \<open>z\<close>.\<close>

definition osip_header_to_str :: "header \<Rightarrow> string option res" where
  "osip_header_to_str h =
     (let v = (case hvalue h of None \<Rightarrow> [] | Some v \<Rightarrow> v) in
      bindR (strcat_to (length (hname h) + length v + 3) [] (hname h @ '': '' @ v)) (\<lambda>t.
        Inr (Some (case t of [] \<Rightarrow> [] | c # r \<Rightarrow>
          (if (97::nat) < of_char c \<and> of_char c < (122::nat) then char_of (of_char c - 32 :: nat) else c) # r))))"

definition osip_message_header_get_byname :: "header list \<Rightarrow> string \<Rightarrow> nat \<Rightarrow> (nat \<times> header) option" where
  "osip_message_header_get_byname hs name pos =
     map_option (\<lambda>i. (i, hs ! i)) (find (\<lambda>i. strcasecmp0 (hname (hs ! i)) name) [pos..<length hs])"

section \<open>Quoting\<close>

definition enquote_char :: "char \<Rightarrow> string" where
  "enquote_char c = (if c = CHR 0x22 \<or> c = CHR 0x5C \<or> c = CHR 0x7F then [CHR 0x5C, c]
                     else if c = LF \<or> c = CR then '' '' else [c])"

definition osip_enquote :: "string \<Rightarrow> string res" where
  "osip_enquote s = strcat_to (length s * 2 + 3) [] ([CHR 0x22] @ concat (map enquote_char s) @ [CHR 0x22])"

text \<open>The loop of \<open>osip_dequote\<close>, which moves the rest of the string onto a backslash.\<close>

fun dequote_loop :: "string \<Rightarrow> string" where
  "dequote_loop [] = []"
| "dequote_loop (c # s) =
     (if c = CHR 0x5C then (case s of [] \<Rightarrow> [] | d # r \<Rightarrow> d # dequote_loop r) else c # dequote_loop s)"

definition osip_dequote :: "string \<Rightarrow> string" where
  "osip_dequote s =
     (case s of [] \<Rightarrow> [] | c # r \<Rightarrow> if c \<noteq> CHR 0x22 then s
        else dequote_loop (if r \<noteq> [] \<and> last r = CHR 0x22 then butlast r else r))"

end
