(* ===== verification/Osip_Auth.thy ===== *)
theory Osip_Auth
  imports Osip_Headers
begin

text \<open>
  The headers of digest authentication (osipparser2: osip_www_authenticate.c, osip_authorization.c,
  osip_authentication_info.c): the fields are looked for one after the other, in a loop, until the text
  ends; a field that is not known is skipped up to the next comma.
\<close>

record www_authenticate =
  wwwa_auth_type :: "string option"
  wwwa_realm :: "string option"
  wwwa_domain :: "string option"
  wwwa_nonce :: "string option"
  wwwa_opaque :: "string option"
  wwwa_stale :: "string option"
  wwwa_algorithm :: "string option"
  wwwa_qop_options :: "string option"

record authorization =
  auth_type :: "string option"
  auth_username :: "string option"
  auth_realm :: "string option"
  auth_nonce :: "string option"
  auth_uri :: "string option"
  auth_response :: "string option"
  auth_digest :: "string option"
  auth_algorithm :: "string option"
  auth_cnonce :: "string option"
  auth_opaque :: "string option"
  auth_message_qop :: "string option"
  auth_nonce_count :: "string option"

record authentication_info =
  ainfo_nextnonce :: "string option"
  ainfo_qop_options :: "string option"
  ainfo_rspauth :: "string option"
  ainfo_cnonce :: "string option"
  ainfo_nonce_count :: "string option"

section \<open>One field\<close>

definition sp_tab_comma :: "char \<Rightarrow> bool" where
  "sp_tab_comma c \<longleftrightarrow> sp_or_tab c \<or> c = CHR '',''"

definition cr_or_lf :: "char \<Rightarrow> bool" where
  "cr_or_lf c \<longleftrightarrow> c = LF \<or> c = CR"

text \<open>The next element behind \<open>tmp\<close>; \<open>None\<close> at the end of the header.\<close>

definition next_element :: "string \<Rightarrow> int \<Rightarrow> int option res" where
  "next_element s tmp =
     bindR (skip_chars sp_or_tab s tmp) (\<lambda>tmp. bindR (skip_chars cr_or_lf s tmp) (\<lambda>tmp. bindR (rd s tmp) (\<lambda>c.
       if c = NUL then Inr None
       else if c \<noteq> CHR 0x09 \<and> c \<noteq> CHR '' '' then Inr (Some tmp)
       else bindR (skip_chars sp_or_tab s tmp) (\<lambda>tmp. bindR (rd s tmp) (\<lambda>c.
         Inr (if c = NUL then None else Some tmp))))))"

text \<open>The loop that gets rid of the blanks in front of an equal sign.\<close>

function back_over_blanks :: "string \<Rightarrow> int \<Rightarrow> int res" where
  "back_over_blanks s p = bindR (rd s (p - 1)) (\<lambda>c. if c = CHR '' '' then back_over_blanks s (p - 1) else Inr p)"
  by pat_completeness auto

termination back_over_blanks
  by (relation "measure (\<lambda>(s, p). nat p)") (auto simp: rd_def split: if_splits)

declare back_over_blanks.simps [simp del]

text \<open>
  Both setters return \<open>None\<close> for -1, or the field and the pointer \<open>next\<close>, which is \<open>None\<close> at the
  end of the header. A field that is there already is not read again.
\<close>

definition osip_quoted_string_set :: "string \<Rightarrow> string \<Rightarrow> int \<Rightarrow> string option \<Rightarrow> (string option \<times> int option) option res" where
  "osip_quoted_string_set name s str result =
     (if result \<noteq> None then Inr (Some (result, Some str))
      else bindR (skip_chars sp_tab_comma s str) (\<lambda>str.
      if strend s - str \<le> int (length name) then Inr None
      else if strncasecmp0 (length name) name (drop (nat str) s) then
        bindO (strchr s str (CHR ''='')) (\<lambda>hack. bindR (back_over_blanks s hack) (\<lambda>hack.
        if hack - str \<noteq> int (length name) then Inr (Some (None, Some str))
        else bindO (osip_quote_find s str) (\<lambda>quote1. bindO (osip_quote_find s (quote1 + 1)) (\<lambda>quote2.
          bindO (if quote2 - quote1 = 1 then Inr (Some None)
                 else bindO (copyO (quote2 - quote1 + 3) s quote1 (quote2 - quote1 + 1)) (\<lambda>v. Inr (Some (Some v)))) (\<lambda>v.
          bindR (next_element s (quote2 + 1)) (\<lambda>n. Inr (Some (v, n))))))))
      else Inr (Some (None, Some str))))"

definition osip_token_set :: "string \<Rightarrow> string \<Rightarrow> int \<Rightarrow> string option \<Rightarrow> (string option \<times> int option) option res" where
  "osip_token_set name s str result =
     (if result \<noteq> None then Inr (Some (result, Some str))
      else bindO (strchr s str (CHR ''='')) (\<lambda>beg.
      if strend s - str < 6 then Inr (Some (None, None))
      else bindR (skip_chars sp_tab_comma s str) (\<lambda>str.
      if strncasecmp0 (length name) name (drop (nat str) s) then
        bindR (strchr s str (CHR '','')) (\<lambda>e. let e = or_end s e in
        if e - beg < 2 then Inr None
        else bindO (clrcopyO (e - beg) s (beg + 1) (e - beg - 1)) (\<lambda>v.
          bindR (rd s e) (\<lambda>c. bindR (next_element s (if c = NUL then e else e + 1)) (\<lambda>n. Inr (Some (Some v, n))))))
      else Inr (Some (None, Some str)))))"

section \<open>The loop over the fields\<close>

text \<open>
  A field of a header: whether its value is quoted, its name, and its place in the structure. The
  source repeats the same lines for every field.
\<close>

datatype 'a field = Field (is_quoted: bool) (fname: string) (fget: "'a \<Rightarrow> string option") (fset: "string option \<Rightarrow> 'a \<Rightarrow> 'a")

datatype 'a fields_result = Malformed | Finished 'a | Continue int bool 'a

fun read_fields :: "'a field list \<Rightarrow> string \<Rightarrow> int \<Rightarrow> bool \<Rightarrow> 'a \<Rightarrow> 'a fields_result res" where
  "read_fields [] s space parse_ok a = Inr (Continue space parse_ok a)"
| "read_fields (f # fs) s space parse_ok a =
     bindR ((if is_quoted f then osip_quoted_string_set else osip_token_set) (fname f) s space (fget f a)) (\<lambda>r. case r of
         None \<Rightarrow> Inr Malformed
       | Some (v, None) \<Rightarrow> Inr (Finished (fset f v a))
       | Some (v, Some n) \<Rightarrow> read_fields fs s n (parse_ok \<or> n \<noteq> space) (fset f v a))"

text \<open>A field that is not known: the result is the next comma outside quotes; \<open>None\<close> ends the header.\<close>

definition skip_field :: "string \<Rightarrow> int \<Rightarrow> int option option res" where
  "skip_field s space =
     (if strend s - space < 1 then Inr (Some None)
      else bindR (strchr s (space + 1) (CHR '','')) (\<lambda>tmp. case tmp of None \<Rightarrow> Inr (Some None) | Some tmp \<Rightarrow>
      bindR (osip_quote_find s space) (\<lambda>q. case q of
          None \<Rightarrow> Inr (Some (Some tmp))
        | Some quote1 \<Rightarrow>
            if quote1 < tmp then bindO (osip_quote_find s (quote1 + 1)) (\<lambda>quote2.
              if tmp < quote2 then bindR (strchr s quote2 (CHR '','')) (\<lambda>p. Inr (Some p)) else Inr (Some (Some tmp)))
            else Inr (Some (Some tmp)))))"

text \<open>Every step moves on, which is why the loop ends.\<close>

lemma skip_chars_bounds: "skip_chars P s p = Inr q \<Longrightarrow> 0 \<le> p \<and> p \<le> q \<and> q \<le> int (length s)"
  using length_takeWhile_le [of P "drop (nat p) s"] by (auto simp: skip_chars_def split: if_splits)

lemma quote_find_bounds: "osip_quote_find s p = Inr (Some q) \<Longrightarrow> 0 \<le> p \<and> p \<le> q \<and> q < int (length s)"
proof -
  assume a: "osip_quote_find s p = Inr (Some q)"
  then have "within s p" by (auto simp: osip_quote_find_def strchr_def bindR_eq_Inr split: if_splits)
  with ensures_quote_find [OF this] a show ?thesis by (auto simp: points_to_def)
qed

lemma next_element_bounds: "next_element s p = Inr (Some q) \<Longrightarrow> p \<le> q \<and> q < int (length s)"
  by (auto simp: next_element_def bindR_eq_Inr rd_def dest!: skip_chars_bounds split: if_splits)

lemma bindO_eq_Inr: "bindO m f = Inr (Some y) \<longleftrightarrow> (\<exists>x. m = Inr (Some x) \<and> f x = Inr (Some y))"
  by (auto simp: bindO_def bindR_eq_Inr split: option.splits)

lemma quoted_string_set_next:
  "osip_quoted_string_set name s p r = Inr (Some (v, Some q)) \<Longrightarrow> p \<le> q \<and> (r = None \<longrightarrow> q \<le> int (length s))"
  unfolding osip_quoted_string_set_def
  by (auto simp: bindR_eq_Inr bindO_eq_Inr Let_def dest!: next_element_bounds quote_find_bounds skip_chars_bounds
      split: if_splits option.splits)

lemma token_set_next:
  "osip_token_set name s p r = Inr (Some (v, Some q)) \<Longrightarrow> p \<le> q \<and> (r = None \<longrightarrow> q \<le> int (length s))"
  unfolding osip_token_set_def
  by (auto simp: bindR_eq_Inr bindO_eq_Inr Let_def or_end_def dest!: next_element_bounds strchr_Some skip_chars_bounds
      split: if_splits option.splits)

lemma read_fields_moves:
  "read_fields fs s p ok a = Inr (Continue q ok' a') \<Longrightarrow>
     p \<le> q \<and> (p \<le> int (length s) \<longrightarrow> q \<le> int (length s)) \<and> (ok' \<longrightarrow> ok \<or> p < q)"
proof (induction fs arbitrary: p ok a)
  case (Cons f fs)
  let ?set = "if is_quoted f then osip_quoted_string_set else osip_token_set"
  from Cons.prems obtain v n where n: "?set (fname f) s p (fget f a) = Inr (Some (v, Some n))"
      "read_fields fs s n (ok \<or> n \<noteq> p) (fset f v a) = Inr (Continue q ok' a')"
    by (cases "?set (fname f) s p (fget f a)") (auto split: option.splits)
  have "p \<le> n \<and> (p \<le> int (length s) \<longrightarrow> n \<le> int (length s))"
    using n(1) quoted_string_set_next [of "fname f" s p "fget f a" v n] token_set_next [of "fname f" s p "fget f a" v n]
    by (cases "fget f a = None") (auto simp: osip_quoted_string_set_def osip_token_set_def split: if_splits)
  with Cons.IH [OF n(2)] show ?case by auto
qed simp

lemma skip_field_moves: "skip_field s p = Inr (Some (Some q)) \<Longrightarrow> p < q \<and> q < int (length s)"
  by (auto simp: skip_field_def bindR_eq_Inr bindO_eq_Inr strend_def dest!: strchr_Some quote_find_bounds split: if_splits option.splits)

function auth_loop :: "'a field list \<Rightarrow> string \<Rightarrow> int \<Rightarrow> 'a \<Rightarrow> 'a option res" where
  "auth_loop fs s space a =
     (if space < 0 \<or> int (length s) < space then Inl Out_of_bounds
      else bindR (read_fields fs s space False a) (\<lambda>r. case r of
         Malformed \<Rightarrow> Inr None
       | Finished a \<Rightarrow> Inr (Some a)
       | Continue space' parse_ok a \<Rightarrow>
           if parse_ok then auth_loop fs s space' a
           else bindO (skip_field s space') (\<lambda>r. case r of None \<Rightarrow> Inr (Some a) | Some space' \<Rightarrow> auth_loop fs s space' a)))"
  by pat_completeness auto

termination auth_loop
proof (relation "measure (\<lambda>(fs, s, space, a). nat (int (length s) - space))", goal_cases)
  case 1
  then show ?case by simp
next
  case (2 fs s space a r q ok a')
  then show ?case by (auto dest!: read_fields_moves)
next
  case (3 fs s space a r q ok a' x p)
  then show ?case by (auto dest!: read_fields_moves skip_field_moves)
qed

declare auth_loop.simps [simp del]

section \<open>Reading and printing the headers\<close>

definition www_authenticate_fields :: "www_authenticate field list" where
  "www_authenticate_fields =
     [Field True ''realm'' wwwa_realm (\<lambda>v. wwwa_realm_update (\<lambda>_. v)),
      Field True ''domain'' wwwa_domain (\<lambda>v. wwwa_domain_update (\<lambda>_. v)),
      Field True ''nonce'' wwwa_nonce (\<lambda>v. wwwa_nonce_update (\<lambda>_. v)),
      Field True ''opaque'' wwwa_opaque (\<lambda>v. wwwa_opaque_update (\<lambda>_. v)),
      Field False ''stale'' wwwa_stale (\<lambda>v. wwwa_stale_update (\<lambda>_. v)),
      Field False ''algorithm'' wwwa_algorithm (\<lambda>v. wwwa_algorithm_update (\<lambda>_. v)),
      Field True ''qop'' wwwa_qop_options (\<lambda>v. wwwa_qop_options_update (\<lambda>_. v))]"

definition osip_www_authenticate_init :: www_authenticate where
  "osip_www_authenticate_init = \<lparr>wwwa_auth_type = None, wwwa_realm = None, wwwa_domain = None, wwwa_nonce = None,
     wwwa_opaque = None, wwwa_stale = None, wwwa_algorithm = None, wwwa_qop_options = None\<rparr>"

definition osip_www_authenticate_parse :: "string \<Rightarrow> www_authenticate option res" where
  "osip_www_authenticate_parse s =
     bindO (strchr s 0 (CHR '' '')) (\<lambda>space.
       if space + 1 < 2 then Inr None
       else bindO (copyO (space + 1) s 0 space) (\<lambda>v.
         auth_loop www_authenticate_fields s space (osip_www_authenticate_init\<lparr>wwwa_auth_type := Some v\<rparr>)))"

definition authorization_fields :: "authorization field list" where
  "authorization_fields =
     [Field True ''username'' auth_username (\<lambda>v. auth_username_update (\<lambda>_. v)),
      Field True ''realm'' auth_realm (\<lambda>v. auth_realm_update (\<lambda>_. v)),
      Field True ''nonce'' auth_nonce (\<lambda>v. auth_nonce_update (\<lambda>_. v)),
      Field True ''uri'' auth_uri (\<lambda>v. auth_uri_update (\<lambda>_. v)),
      Field True ''response'' auth_response (\<lambda>v. auth_response_update (\<lambda>_. v)),
      Field True ''digest'' auth_digest (\<lambda>v. auth_digest_update (\<lambda>_. v)),
      Field False ''algorithm'' auth_algorithm (\<lambda>v. auth_algorithm_update (\<lambda>_. v)),
      Field True ''cnonce'' auth_cnonce (\<lambda>v. auth_cnonce_update (\<lambda>_. v)),
      Field True ''opaque'' auth_opaque (\<lambda>v. auth_opaque_update (\<lambda>_. v)),
      Field False ''qop'' auth_message_qop (\<lambda>v. auth_message_qop_update (\<lambda>_. v)),
      Field False ''nc'' auth_nonce_count (\<lambda>v. auth_nonce_count_update (\<lambda>_. v))]"

definition osip_authorization_init :: authorization where
  "osip_authorization_init = \<lparr>auth_type = None, auth_username = None, auth_realm = None, auth_nonce = None,
     auth_uri = None, auth_response = None, auth_digest = None, auth_algorithm = None, auth_cnonce = None,
     auth_opaque = None, auth_message_qop = None, auth_nonce_count = None\<rparr>"

definition osip_authorization_parse :: "string \<Rightarrow> authorization option res" where
  "osip_authorization_parse s =
     bindO (strchr s 0 (CHR '' '')) (\<lambda>space.
       if space < 1 then Inr None
       else bindO (copyO (space + 1) s 0 space) (\<lambda>v.
         auth_loop authorization_fields s space (osip_authorization_init\<lparr>auth_type := Some v\<rparr>)))"

definition authentication_info_fields :: "authentication_info field list" where
  "authentication_info_fields =
     [Field True ''nextnonce'' ainfo_nextnonce (\<lambda>v. ainfo_nextnonce_update (\<lambda>_. v)),
      Field True ''cnonce'' ainfo_cnonce (\<lambda>v. ainfo_cnonce_update (\<lambda>_. v)),
      Field True ''rspauth'' ainfo_rspauth (\<lambda>v. ainfo_rspauth_update (\<lambda>_. v)),
      Field False ''nc'' ainfo_nonce_count (\<lambda>v. ainfo_nonce_count_update (\<lambda>_. v)),
      Field False ''qop'' ainfo_qop_options (\<lambda>v. ainfo_qop_options_update (\<lambda>_. v))]"

definition osip_authentication_info_init :: authentication_info where
  "osip_authentication_info_init = \<lparr>ainfo_nextnonce = None, ainfo_qop_options = None, ainfo_rspauth = None,
     ainfo_cnonce = None, ainfo_nonce_count = None\<rparr>"

definition osip_authentication_info_parse :: "string \<Rightarrow> authentication_info option res" where
  "osip_authentication_info_parse s = auth_loop authentication_info_fields s 0 osip_authentication_info_init"

text \<open>
  Printing computes the size of the block first: a constant and the length of the value for each field
  that is there. \<open>osip_str_append\<close> leaves a NUL behind the text each time.
\<close>

definition field_size :: "nat \<Rightarrow> string option \<Rightarrow> nat" where
  "field_size k v = (case v of None \<Rightarrow> 0 | Some s \<Rightarrow> length s + k)"

definition append_field :: "nat \<Rightarrow> string \<times> string option \<Rightarrow> string \<Rightarrow> string res" where
  "append_field len f buf = (case f of (label, v) \<Rightarrow>
     (case v of None \<Rightarrow> Inr buf | Some v \<Rightarrow> bindR (strcat_to len buf label) (\<lambda>buf. strcat_to len buf v)))"

definition osip_www_authenticate_to_str :: "www_authenticate \<Rightarrow> string option res" where
  "osip_www_authenticate_to_str w =
     (case wwwa_auth_type w of None \<Rightarrow> Inr None | Some ty \<Rightarrow>
       let len = length ty + 1 + field_size 7 (wwwa_realm w) + field_size 8 (wwwa_nonce w) + 2 + field_size 9 (wwwa_domain w) +
             field_size 9 (wwwa_opaque w) + field_size 8 (wwwa_stale w) + field_size 12 (wwwa_algorithm w) + field_size 6 (wwwa_qop_options w) in
       bindR (strcat_to len [] ty) (\<lambda>buf.
       bindR (foldR (append_field len)
         [('' realm='', wwwa_realm w), ('', domain='', wwwa_domain w), ('', nonce='', wwwa_nonce w), ('', opaque='', wwwa_opaque w),
          ('', stale='', wwwa_stale w), ('', algorithm='', wwwa_algorithm w), ('', qop='', wwwa_qop_options w)] buf) (\<lambda>buf.
       if wwwa_realm w = None then
         if len \<le> length ty then Inl Out_of_bounds
         else Inr (Some (if length ty < length buf \<and> buf ! length ty = CHR '','' then buf[length ty := CHR '' ''] else buf))
       else Inr (Some buf))))"

definition osip_authorization_to_str :: "authorization \<Rightarrow> string option res" where
  "osip_authorization_to_str a =
     (case (auth_type a, auth_realm a, auth_nonce a) of
        (Some ty, Some realm, Some nonce) \<Rightarrow>
          let len = length ty + 1 + field_size 10 (auth_username a) + field_size 8 (auth_realm a) + field_size 8 (auth_nonce a) +
                field_size 6 (auth_uri a) + field_size 11 (auth_response a) + 2 + field_size 9 (auth_digest a) +
                field_size 12 (auth_algorithm a) + field_size 9 (auth_cnonce a) + field_size 9 (auth_opaque a) +
                field_size 5 (auth_nonce_count a) + field_size 6 (auth_message_qop a) in
          bindR (strcat_to len [] ty) (\<lambda>buf.
          bindR (foldR (append_field len)
            [('' username='', auth_username a), ('', realm='', auth_realm a), ('', nonce='', auth_nonce a), ('', uri='', auth_uri a),
             ('', response='', auth_response a), ('', digest='', auth_digest a), ('', algorithm='', auth_algorithm a),
             ('', cnonce='', auth_cnonce a), ('', opaque='', auth_opaque a), ('', qop='', auth_message_qop a),
             ('', nc='', auth_nonce_count a)] buf) (\<lambda>buf. Inr (Some buf)))
      | _ \<Rightarrow> Inr None)"

definition append_info :: "nat \<Rightarrow> string \<times> string option \<Rightarrow> string \<Rightarrow> string res" where
  "append_info len f buf = (case f of (label, v) \<Rightarrow>
     (case v of None \<Rightarrow> Inr buf | Some v \<Rightarrow>
       bindR (if buf \<noteq> [] then strcat_to len buf '', '' else Inr buf) (\<lambda>buf.
       bindR (strcat_to len buf label) (\<lambda>buf. strcat_to len buf v))))"

definition osip_authentication_info_to_str :: "authentication_info \<Rightarrow> string option res" where
  "osip_authentication_info_to_str a =
     (let len = field_size 11 (ainfo_nextnonce a) + field_size 10 (ainfo_rspauth a) + field_size 9 (ainfo_cnonce a) +
            field_size 5 (ainfo_nonce_count a) + field_size 6 (ainfo_qop_options a) in
      if len = 0 then Inr None
      else bindR (foldR (append_info len)
        [(''qop='', ainfo_qop_options a), (''nextnonce='', ainfo_nextnonce a), (''rspauth='', ainfo_rspauth a),
         (''cnonce='', ainfo_cnonce a), (''nc='', ainfo_nonce_count a)] []) (\<lambda>buf. Inr (Some buf)))"

end
