(* ===== verification/Osip_Headers_Correct.thy ===== *)
theory Osip_Headers_Correct
  imports Osip_Auth Osip_Uri_Correct Osip_Text
begin

text \<open>
  Correctness of the headers: reading any text stays within it (a Via header that ends in a blank apart),
  and printing stays within the blocks that were computed for it.
\<close>

section \<open>Weakest preconditions\<close>

text \<open>\<open>ensures m P\<close> is the weakest precondition of \<open>m\<close> for \<open>P\<close>; \<open>safe m\<close> is that it does not fault.\<close>

abbreviation safe :: "'a res \<Rightarrow> bool" where
  "safe m \<equiv> ensures m (\<lambda>_. True)"

named_theorems wp_simps \<open>weakest preconditions of the composed steps\<close>
named_theorems wp_intros \<open>weakest preconditions of the string operations\<close>

lemma wp_bind [wp_simps]: "ensures (bindR m f) P \<longleftrightarrow> ensures m (\<lambda>x. ensures (f x) P)"
  by (cases m) simp_all

lemma wp_bindO [wp_simps]: "ensures (bindO m f) P \<longleftrightarrow> ensures m (\<lambda>r. case r of None \<Rightarrow> P None | Some x \<Rightarrow> ensures (f x) P)"
  by (cases m) (auto simp: bindO_def split: option.splits)

lemma nonempty_length [wp_simps]: "s \<noteq> [] \<Longrightarrow> Suc 0 \<le> length s"
  by (cases s) simp_all

lemma wp_if [wp_intros]: "(b \<Longrightarrow> ensures x P) \<Longrightarrow> (\<not> b \<Longrightarrow> ensures y P) \<Longrightarrow> ensures (if b then x else y) P"
  by simp

lemma wp_strchr [wp_intros]:
  assumes "within s p" "P None"
    "\<And>q. p \<le> q \<Longrightarrow> (s ! nat p \<noteq> c \<longrightarrow> p < q) \<Longrightarrow> q < int (length s) \<Longrightarrow> s ! nat q = c \<Longrightarrow> P (Some q)"
  shows "ensures (strchr s p c) P"
proof -
  obtain r where r: "strchr s p c = Inr r" "\<And>q. r = Some q \<Longrightarrow> points_to s c p q"
    by (rule strchr_defined [OF assms(1), where c = c]) (rule that)
  show ?thesis
  proof (cases r)
    case (Some q)
    with r(2) have "p \<le> q" "q < int (length s)" "s ! nat q = c" by (auto simp: points_to_def)
    moreover from this have "s ! nat p \<noteq> c \<longrightarrow> p < q" by (auto simp: order_less_le)
    ultimately show ?thesis using assms(3) r(1) Some by simp
  qed (use assms(2) r(1) in simp)
qed

lemma wp_next_separator [wp_intros]:
  "within s p \<Longrightarrow> P None \<Longrightarrow> (\<And>q. p \<le> q \<Longrightarrow> q < int (length s) \<Longrightarrow> s ! nat q = c \<Longrightarrow> P (Some q)) \<Longrightarrow> ensures (next_separator s p c d) P"
  by (rule next_separator_defined [where c = c and p = p and s = s and d = d]; auto simp: points_to_def split: option.splits; metis option.exhaust)

lemma wp_quote_find [wp_intros]:
  "within s p \<Longrightarrow> P None \<Longrightarrow> (\<And>q. p \<le> q \<Longrightarrow> q < int (length s) \<Longrightarrow> s ! nat q = CHR 0x22 \<Longrightarrow> P (Some q)) \<Longrightarrow> ensures (osip_quote_find s p) P"
  using ensures_quote_find [of p s] by (auto simp: ensures_iff points_to_def) (metis option.exhaust)

lemma wp_rd [wp_intros]: "within s p \<Longrightarrow> (\<And>c. rd s p = Inr c \<Longrightarrow> P c) \<Longrightarrow> ensures (rd s p) P"
  using rd_defined [of p s] by auto

lemma wp_skip_chars [wp_intros]:
  "within s p \<Longrightarrow> (\<And>q. p \<le> q \<Longrightarrow> q \<le> int (length s) \<Longrightarrow> P q) \<Longrightarrow> ensures (skip_chars C s p) P"
  using length_takeWhile_le [of C "drop (nat p) s"] by (auto simp: skip_chars_def)

lemma wp_copyO [wp_intros]:
  "within s p \<Longrightarrow> 0 \<le> n \<Longrightarrow> n + 1 \<le> m \<Longrightarrow> (\<And>w. P (Some w)) \<Longrightarrow> ensures (copyO m s p n) P"
  by (simp add: copyO_def osip_strncpy_def)

text \<open>\<open>osip_clrncpy\<close> may look at the NUL behind the text.\<close>

lemma skip_blanks_bounds: "within s p \<Longrightarrow> \<exists>q. skip_blanks s p = Inr q \<and> p \<le> q \<and> q \<le> int (length s)"
  using length_takeWhile_le [of is_blank "drop (nat p) s"] by (auto simp: skip_blanks_def)

lemma trim_end_bounds:
  "0 \<le> b \<Longrightarrow> b \<le> e + 1 \<Longrightarrow> 0 \<le> e \<Longrightarrow> e \<le> int (length s) \<Longrightarrow> ensures (trim_end s b e) (\<lambda>r. \<forall>q. r = Some q \<longrightarrow> q \<le> e \<and> b \<le> q + 1)"
proof (induction s b e rule: trim_end.induct)
  case (1 s b e)
  then obtain c where c: "rd s e = Inr c" using rd_defined [of e s] by auto
  show ?case
  proof (cases "is_blank c \<and> b \<le> e - 1")
    case True
    with 1 c have "ensures (trim_end s b (e - 1)) (\<lambda>r. \<forall>q. r = Some q \<longrightarrow> q \<le> e - 1 \<and> b \<le> q + 1)" by force
    with c True show ?thesis by (subst trim_end.simps) (auto elim!: ensures_mono)
  next
    case False
    with c "1.prems" show ?thesis by (subst trim_end.simps) auto
  qed
qed

lemma clrncpy_safe:
  assumes "within s p" "1 \<le> n" "p + n \<le> int (length s) + 1" "n + 1 \<le> m"
  shows "safe (osip_clrncpy m s p n)"
proof -
  let ?k = "length (takeWhile is_blank (drop (nat p) s))" and ?e = "p + n - 1"
  let ?b = "p + int ?k"
  have b: "skip_blanks s p = Inr ?b" "p \<le> ?b" "?b \<le> int (length s)"
    using assms(1) skip_blanks_bounds [OF assms(1)] by (auto simp: skip_blanks_def)
  show ?thesis
  proof (cases "?b \<le> ?e")
    case True
    have "ensures (trim_end s ?b ?e) (\<lambda>r. \<forall>q. r = Some q \<longrightarrow> q \<le> ?e \<and> ?b \<le> q + 1)"
      by (rule trim_end_bounds) (use True assms in auto)
    with b assms show ?thesis by (auto simp: osip_clrncpy_def ensures_iff Let_def split: option.splits)
  next
    case False
    have lt: "nat ?e < length s" using False b assms by linarith
    let ?t = "takeWhile is_blank (drop (nat p) s)" and ?i = "nat ?e - nat p"
    have i: "?i < length ?t" using False assms by linarith
    have "?t ! ?i = s ! nat ?e" using takeWhile_nth [OF i] lt assms by simp
    moreover have "is_blank (?t ! ?i)" using set_takeWhileD [OF nth_mem [OF i]] by blast
    ultimately have "is_blank (s ! nat ?e)" by simp
    then have "trim_end s ?b (int (nat ?e)) = Inr None" using trim_end_blank [OF lt] False assms by simp
    with b assms show ?thesis by (simp add: osip_clrncpy_def)
  qed
qed

lemma wp_clrcopyO [wp_intros]:
  assumes "within s p" "1 \<le> n" "p + n \<le> int (length s) + 1" "n + 1 \<le> m" "\<And>w. P (Some w)"
  shows "ensures (clrcopyO m s p n) P"
  using clrncpy_safe [OF assms(1-4)] assms(5) by (auto simp: clrcopyO_def ensures_iff)

text \<open>Nothing to copy, behind a character that is no blank.\<close>

lemma clrncpy_none:
  assumes "p = int (length s)" "s \<noteq> []" "\<not> is_blank (last s)" "1 \<le> m"
  shows "osip_clrncpy m s p 0 = Inr []"
proof -
  have "rd s (p - 1) = Inr (last s)"
    using assms(1,2) by (cases s rule: rev_cases) (simp_all add: rd_def)
  then have "trim_end s p (p - 1) = Inr (Some (p - 1))" using assms(3) by (subst trim_end.simps) simp
  with assms show ?thesis by (simp add: osip_clrncpy_def skip_blanks_def)
qed

section \<open>Reading any text\<close>

lemma wp_prod: "(\<And>a b. x = (a, b) \<Longrightarrow> ensures (f a b) P) \<Longrightarrow> ensures (case x of (a, b) \<Rightarrow> f a b) P"
  by (cases x) simp

lemma generic_param_safe:
  assumes "0 \<le> params" "params < comma" "comma \<le> int (length s)" "\<And>e. equal = Some e \<Longrightarrow> params < e \<and> e < int (length s)"
  shows "safe (generic_param s params equal comma)"
  unfolding generic_param_def generic_value_def Let_def
  by (cases equal; use assms in \<open>force simp: wp_simps split: option.splits intro!: wp_intros\<close>)

lemma parseall_safe:
  "0 \<le> p \<Longrightarrow> p < int (length s) \<Longrightarrow> safe (generic_param_parseall s p ps)"
proof (induction s p ps rule: generic_param_parseall.induct)
  case (1 s p ps)
  have w: "within s (p + 1)" using "1.prems" by simp
  obtain equal where e: "next_separator s (p + 1) (CHR ''='') (CHR '';'') = Inr equal"
      "\<And>q. equal = Some q \<Longrightarrow> points_to s (CHR ''='') (p + 1) q"
    by (rule next_separator_defined [OF w, where c = "CHR ''=''" and d = "CHR '';''"]) (rule that)
  obtain comma where c: "strchr s (p + 1) (CHR '';'') = Inr comma"
      "\<And>q. comma = Some q \<Longrightarrow> points_to s (CHR '';'') (p + 1) q"
    by (rule strchr_defined [OF w, where c = "CHR '';''"]) (rule that)
  let ?to = "or_end s comma"
  have to: "p < ?to" "?to \<le> int (length s)" using "1.prems" c(2) by (auto simp: or_end_def strend_def points_to_def split: option.splits)
  have par: "safe (generic_param s p equal ?to)"
    by (rule generic_param_safe [OF "1.prems"(1) to]) (use e(2) in \<open>auto simp: points_to_def\<close>)
  show ?case
  proof (cases comma)
    case None
    with e c par show ?thesis
      by (subst generic_param_parseall.simps) (auto simp: or_end_def wp_simps elim!: ensures_mono split: option.splits)
  next
    case (Some q)
    have "0 \<le> q" "q < int (length s)" using c(2) [OF Some] "1.prems" by (auto simp: points_to_def)
    from par obtain r where r: "generic_param s p equal q = Inr r" using Some by (auto simp: or_end_def ensures_iff)
    have "safe (generic_param_parseall s q (osip_uri_param_add ps n v))" if "r = Some (n, v)" for n v
      using "1.IH" [OF e(1) c(1) Some] r that \<open>0 \<le> q\<close> \<open>q < int (length s)\<close> by fastforce
    with Some e c r show ?thesis
      by (subst generic_param_parseall.simps, cases r) auto
  qed
qed

lemma wp_parseall [wp_intros]:
  "0 \<le> p \<Longrightarrow> p < int (length s) \<Longrightarrow> (\<And>r. P r) \<Longrightarrow> ensures (generic_param_parseall s p ps) P"
  using ensures_mono [OF parseall_safe] by simp

lemma wp_params_from [wp_intros]:
  "(\<And>q. p = Some q \<Longrightarrow> 0 \<le> q \<and> q < int (length s)) \<Longrightarrow> (\<And>r. P r) \<Longrightarrow> ensures (params_from s p) P"
  by (auto simp: params_from_def intro!: wp_intros split: option.splits)

lemma cseq_safe: "safe (osip_cseq_parse s)"
  unfolding osip_cseq_parse_def
  by (auto simp: wp_simps strend_def intro!: wp_intros split: option.splits)

lemma call_id_safe: "safe (osip_call_id_parse s)"
proof -
  have "safe (osip_call_id_parse s)" if "strchr s 0 (CHR ''@'') = Inr None"
    using that unfolding osip_call_id_parse_def
    by (auto simp: wp_simps or_end_def strend_def Let_def intro!: wp_intros)
  moreover have "safe (osip_call_id_parse s)" if h: "strchr s 0 (CHR ''@'') = Inr (Some h)" for h
  proof -
    have b: "0 \<le> h" "h < int (length s)" "s ! nat h = CHR ''@''" using strchr_Some [OF h] by auto
    have "safe (clrcopyO (strend s - h) s (h + 1) (strend s - h - 1))"
    proof (cases "h + 1 = int (length s)")
      case True
      then have "last s = CHR ''@''" using b by (cases s rule: rev_cases) (auto simp: nth_append)
      then have "osip_clrncpy 1 s (h + 1) 0 = Inr []"
        by (intro clrncpy_none) (use True b in \<open>auto simp: is_blank_def\<close>)
      moreover have "strend s - h = 1" using True by (simp add: strend_def)
      ultimately show ?thesis by (simp add: clrcopyO_def)
    next
      case False
      with b show ?thesis by (auto intro!: wp_intros simp: strend_def)
    qed
    then obtain w where "clrcopyO (strend s - h) s (h + 1) (strend s - h - 1) = Inr (Some w)"
      by (auto simp: clrcopyO_def ensures_iff bindR_eq_Inr)
    with h b show ?thesis
      by (auto simp: osip_call_id_parse_def wp_simps or_end_def Let_def intro!: wp_intros split: option.splits)
  qed
  moreover obtain r where "strchr s 0 (CHR ''@'') = Inr r" by (auto simp: strchr_def)
  ultimately show ?thesis by (cases r) auto
qed

lemma uri_parse_parsed: "ensures (osip_uri_parse osip_uri_init s) parsed"
  by (rule ensures_uri_parse) (simp add: osip_uri_init_def valued_def)

lemma wp_uri_parse [wp_intros]: "(\<And>r. parsed r \<Longrightarrow> P r) \<Longrightarrow> ensures (osip_uri_parse osip_uri_init s) P"
  using ensures_mono [OF uri_parse_parsed] by blast

lemma from_displayname_wp [wp_intros]:
  assumes "\<And>u. url = Some u \<Longrightarrow> 0 \<le> u \<and> u < int (length s)" "P None" "\<And>v u. 0 \<le> u \<Longrightarrow> u \<le> int (length s) \<Longrightarrow> P (Some (v, u))"
  shows "ensures (from_displayname s url) P"
  unfolding from_displayname_def Let_def
  by (cases url; use assms in \<open>auto simp: wp_simps intro!: wp_intros split: option.splits\<close>)

lemma from_url_end_wp [wp_intros]:
  assumes "0 \<le> u" "u \<le> int (length s)" "\<And>e. e \<le> int (length s) \<Longrightarrow> P (e, None)"
    "\<And>e q. e \<le> int (length s) \<Longrightarrow> 0 \<le> q \<Longrightarrow> q < int (length s) \<Longrightarrow> P (e, Some q)"
  shows "ensures (from_url_end s u) P"
  unfolding from_url_end_def
  by (use assms in \<open>auto simp: wp_simps strend_def intro!: wp_intros split: option.splits\<close>)

lemma from_safe: "safe (osip_from_parse s)"
  unfolding osip_from_parse_def
  by (auto simp: wp_simps intro!: wp_intros wp_prod split: option.splits)

lemma contact_safe: "safe (osip_contact_parse s)"
  by (simp add: osip_contact_parse_def from_safe)

lemma content_type_safe: "safe (osip_content_type_parse s)"
  unfolding osip_content_type_parse_def Let_def or_end_def
  by (auto simp: wp_simps strend_def intro!: wp_intros split: option.splits)

lemma content_length_safe: "safe (osip_content_length_parse s)"
  unfolding osip_content_length_parse_def by (auto simp: strend_def wp_simps intro!: wp_intros)

lemma accept_encoding_safe: "safe (osip_accept_encoding_parse s)"
  unfolding osip_accept_encoding_parse_def Let_def or_end_def
  by (auto simp: wp_simps strend_def intro!: wp_intros split: option.splits)

lemma call_info_safe: "safe (osip_call_info_parse s)"
  unfolding osip_call_info_parse_def Let_def or_end_def
  by (auto simp: wp_simps strend_def intro!: wp_intros split: option.splits)

section \<open>Via\<close>

text \<open>
  The loop over the blanks in front of the host leaves the text exactly when a blank is the last
  character behind the second slash.
\<close>

lemma via_skip_wp:
  "within s p \<Longrightarrow> ensures (via_skip s p) (\<lambda>r. \<forall>q. r = Some q \<longrightarrow> p \<le> q \<and> q \<le> int (length s) \<and>
     (q = int (length s) \<longrightarrow> p = q \<or> p + 1 = q \<and> s ! nat p = CHR '' ''))"
proof (induction s p rule: via_skip.induct)
  case (1 s p)
  obtain c where c: "rd s p = Inr c" using rd_defined "1.prems" by blast
  show ?case
  proof (cases "c = CHR '' '' \<and> strend s - (p + 1) \<noteq> 1")
    case True
    then have p: "p < int (length s)" "s ! nat p = CHR '' ''" using c by (auto simp: rd_def split: if_splits)
    from 1 True c p have "ensures (via_skip s (p + 1)) (\<lambda>r. \<forall>q. r = Some q \<longrightarrow> p + 1 \<le> q \<and> q \<le> int (length s) \<and>
        (q = int (length s) \<longrightarrow> p + 1 = q \<or> p + 1 + 1 = q \<and> s ! nat (p + 1) = CHR '' ''))"
      by force
    with c True p show ?thesis
      by (subst via_skip.simps) (auto simp: strend_def elim!: ensures_mono)
  next
    case False
    with c "1.prems" show ?thesis by (subst via_skip.simps) auto
  qed
qed

lemma via_protocol_end_wp [wp_intros]:
  assumes "\<not> (p + 2 = int (length s) \<and> s ! nat (p + 1) = CHR '' '')" "0 \<le> p" "p < int (length s)" "P None"
    "\<And>q. p < q \<Longrightarrow> q < int (length s) \<Longrightarrow> s ! nat q = CHR '' '' \<Longrightarrow> P (Some q)"
  shows "ensures (via_protocol_end s p) P"
proof -
  have w: "within s (p + 1)" using assms by simp
  obtain r where r: "strchr s (p + 1) (CHR '' '') = Inr r" "\<And>q. r = Some q \<Longrightarrow> points_to s (CHR '' '') (p + 1) q"
    by (rule strchr_defined [OF w, where c = "CHR '' ''"]) (rule that)
  show ?thesis
  proof (cases r)
    case (Some h)
    note h = r(2) [OF Some, unfolded points_to_def]
    show ?thesis
    proof (cases "h = p + 1")
      case True
      have "within s h" using h assms by simp
      then have "ensures (via_skip s h) (\<lambda>r. \<forall>q. r = Some q \<longrightarrow> h \<le> q \<and> q < int (length s))"
      proof (rule ensures_mono [OF via_skip_wp], intro allI impI)
        fix r q
        assume q: "\<forall>q. r = Some q \<longrightarrow> h \<le> q \<and> q \<le> int (length s) \<and>
          (q = int (length s) \<longrightarrow> h = q \<or> h + 1 = q \<and> s ! nat h = CHR '' '')" "r = Some q"
        have "q \<noteq> int (length s)"
          using q h assms(1) True by auto
        with q show "h \<le> q \<and> q < int (length s)" by force
      qed
      with r(1) Some True h assms(2,4,5) show ?thesis
        by (auto simp: via_protocol_end_def wp_simps intro!: wp_intros elim!: ensures_mono split: option.splits)
    next
      case False
      with r(1) Some h assms(5) show ?thesis by (simp add: via_protocol_end_def)
    qed
  qed (use r(1) assms(4) in \<open>simp add: via_protocol_end_def\<close>)
qed

lemma via_comment_wp [wp_intros]:
  assumes "0 \<le> h" "h < int (length s)" "s ! nat h = CHR '' ''" "P None"
    "\<And>v c. h \<le> c \<Longrightarrow> c \<le> int (length s) \<Longrightarrow> P (Some (v, c))"
  shows "ensures (via_comment_part s h) P"
  unfolding via_comment_part_def
  by (use assms in \<open>auto simp: wp_simps strend_def intro!: wp_intros split: option.splits\<close>)

lemma via_params_wp [wp_intros]:
  assumes "0 \<le> h" "h < int (length s)" "h \<le> c" "c \<le> int (length s)" "s ! nat h = CHR '' ''" "P None"
    "\<And>ps q. h \<le> q \<Longrightarrow> q \<le> int (length s) \<Longrightarrow> P (Some (ps, q))"
  shows "ensures (via_params_part s h c) P"
proof -
  have par: "ensures (generic_param_parseall (take (nat (c - q)) (drop (nat q) s)) 0 []) (\<lambda>_. True)"
    if "h \<le> q" "q < c" for q
    by (rule parseall_safe) (use that assms in auto)
  have "ensures (case p of None \<Rightarrow> Inr (Some ([], c)) | Some params \<Rightarrow> if params < c then
      if c - params + 1 < 2 then Inr None
      else bindO (copyO (c - params + 1) s params (c - params)) (\<lambda>tmp.
        bindO (generic_param_parseall tmp 0 []) (\<lambda>ps. Inr (Some (ps, params))))
      else Inr (Some ([], params))) P" if "\<And>q. p = Some q \<Longrightarrow> h \<le> q \<and> q < int (length s)" for p
  proof (cases p)
    case (Some q)
    with that have q: "h \<le> q" "q < int (length s)" by auto
    show ?thesis
    proof (cases "q < c")
      case True
      obtain r where "generic_param_parseall (take (nat (c - q)) (drop (nat q) s)) 0 [] = Inr r"
        using par [OF q(1) True] by (auto simp: ensures_iff)
      with Some True q assms show ?thesis
        by (cases r) (auto simp: copyO_def osip_strncpy_def)
    qed (use Some q assms in auto)
  qed (use assms in auto)
  then show ?thesis
    unfolding via_params_part_def using assms by (auto simp: wp_simps intro!: wp_intros)
qed

lemma via_ipv6host_wp [wp_intros]:
  assumes "0 \<le> h" "h < int (length s)" "P None" "\<And>v. P (Some (v, None))"
    "\<And>v p. h \<le> p \<Longrightarrow> p < int (length s) \<Longrightarrow> P (Some (v, Some p))"
  shows "ensures (via_ipv6host s h params) P"
  unfolding via_ipv6host_def Let_def
  by (use assms in \<open>auto simp: wp_simps intro!: wp_intros split: option.splits\<close>)

lemma via_port_value_wp [wp_intros]:
  assumes "\<And>p. port = Some p \<Longrightarrow> h \<le> p" "0 \<le> h" "h \<le> params" "params \<le> int (length s)" "P None"
    "\<And>v q. h \<le> q \<Longrightarrow> q \<le> int (length s) \<Longrightarrow> P (Some (v, q))"
  shows "ensures (via_port_value s port params) P"
  unfolding via_port_value_def
  by (use assms in \<open>auto simp: wp_simps intro!: wp_intros split: option.splits\<close>)

lemma via_host_port_wp [wp_intros]:
  assumes "0 \<le> h" "h < int (length s)" "h \<le> c" "c \<le> int (length s)" "P None"
    "\<And>a b. P (Some (via\<lparr>via_host := Some a, via_port := b\<rparr>))"
  shows "ensures (via_host_port s h c via) P"
  unfolding via_host_port_def
  by (use assms in \<open>auto simp: wp_simps intro!: via_ipv6host_wp via_port_value_wp [where h = h] wp_clrcopyO split: option.splits\<close>)

definition via_overruns :: "string \<Rightarrow> bool" where
  "via_overruns s \<longleftrightarrow> (\<exists>a b. s = a @ ''/'' @ b @ ''/ '' \<and> CHR ''/'' \<notin> set a \<and> CHR ''/'' \<notin> set b \<and> b \<noteq> [])"

lemma strchr_split:
  assumes "strchr s p c = Inr (Some q)"
  shows "drop (nat p) s = take (nat (q - p)) (drop (nat p) s) @ c # drop (nat q + 1) s \<and> c \<notin> set (take (nat (q - p)) (drop (nat p) s))"
proof -
  have q: "0 \<le> p" "p \<le> q" "q < int (length s)" "s ! nat q = c" "\<And>j. p \<le> int j \<Longrightarrow> int j < q \<Longrightarrow> s ! j \<noteq> c"
    using strchr_Some [OF assms] by blast+
  have "drop (nat q) s = c # drop (nat q + 1) s" using q by (metis Cons_nth_drop_Suc Suc_eq_plus1 nat_less_iff order_trans)
  moreover have "drop (nat p) s = take (nat (q - p)) (drop (nat p) s) @ drop (nat q) s"
    using q by (metis append_take_drop_id drop_drop nat_diff_distrib le_add_diff_inverse2 nat_mono)
  moreover have "c \<notin> set (take (nat (q - p)) (drop (nat p) s))"
  proof
    assume "c \<in> set (take (nat (q - p)) (drop (nat p) s))"
    then obtain i where "i < nat (q - p)" "s ! (nat p + i) = c" "i < length s - nat p"
      by (auto simp: in_set_conv_nth)
    with q(5) [of "nat p + i"] q(1) show False by (simp add: zless_nat_eq_int_zless)
  qed
  ultimately show ?thesis by metis
qed

lemma via_safe:
  assumes "\<not> via_overruns s"
  shows "ensures (osip_via_parse s) (\<lambda>r. \<forall>v. r = Some v \<longrightarrow> via_version v \<noteq> None \<and> via_protocol v \<noteq> None \<and> via_host v \<noteq> None)"
proof -
  have no: "\<not> (p + 2 = int (length s) \<and> s ! nat (p + 1) = CHR '' '')"
    if v: "strchr s 0 (CHR ''/'') = Inr (Some v)" and p: "strchr s (v + 1) (CHR ''/'') = Inr (Some p)" and "\<not> p - v < 2" for v p
  proof
    assume e: "p + 2 = int (length s) \<and> s ! nat (p + 1) = CHR '' ''"
    let ?a = "take (nat v) s" and ?b = "take (nat (p - (v + 1))) (drop (nat (v + 1)) s)"
    have vb: "0 \<le> v" "v < int (length s)" "v + 1 \<le> p" "p < int (length s)" using strchr_Some [OF v] strchr_Some [OF p] by auto
    have "s = ?a @ CHR ''/'' # drop (nat (v + 1)) s" "CHR ''/'' \<notin> set ?a" using strchr_split [OF v] vb by (simp_all add: nat_add_distrib)
    moreover have "drop (nat (v + 1)) s = ?b @ CHR ''/'' # drop (nat p + 1) s" "CHR ''/'' \<notin> set ?b"
      using strchr_split [OF p] by blast+
    moreover have "length s = Suc (Suc (nat p))" "s ! Suc (nat p) = CHR '' ''" using e vb by (auto simp: nat_add_distrib)
    then have "drop (nat p + 1) s = '' ''" using Cons_nth_drop_Suc [of "Suc (nat p)" s] by simp
    moreover have "?b \<noteq> []" using that(3) vb by simp
    ultimately have "s = ?a @ ''/'' @ ?b @ ''/ ''" by simp
    with \<open>CHR ''/'' \<notin> set ?a\<close> \<open>CHR ''/'' \<notin> set ?b\<close> \<open>?b \<noteq> []\<close> assms show False unfolding via_overruns_def by blast
  qed
  let ?Q = "\<lambda>r. \<forall>v. r = Some v \<longrightarrow> via_version v \<noteq> None \<and> via_protocol v \<noteq> None \<and> via_host v \<noteq> None"
  have rest: "ensures (bindO (via_protocol_end s p) (\<lambda>host.
     if host - p < 2 then Inr None
     else bindO (clrcopyO (host - p) s (p + 1) (host - p - 1)) (\<lambda>prot.
     bindO (via_comment_part s host) (\<lambda>(com, comment).
     bindO (via_params_part s host comment) (\<lambda>(ps, params).
     via_host_port s host params \<lparr>via_version = Some ver, via_protocol = Some prot, via_host = None, via_port = None,
       via_comment = com, via_params = ps\<rparr>))))) ?Q"
    if "\<not> (p + 2 = int (length s) \<and> s ! nat (p + 1) = CHR '' '')" "0 \<le> p" "p < int (length s)" for p ver
    using that by (auto simp: wp_simps intro!: wp_intros)
  obtain r where r: "strchr s 0 (CHR ''/'') = Inr r" by (auto simp: strchr_def)
  show ?thesis
  proof (cases r)
    case None
    with r show ?thesis by (simp add: osip_via_parse_def)
  next
    case (Some v)
    have v: "0 \<le> v" "v < int (length s)" using strchr_Some [OF r [unfolded Some]] by auto
    obtain r' where r': "strchr s (v + 1) (CHR ''/'') = Inr r'" using v by (auto simp: strchr_def)
    show ?thesis
    proof (cases r')
      case None
      with r r' Some show ?thesis by (simp add: osip_via_parse_def)
    next
      case (Some p)
      have p: "v + 1 \<le> p" "p < int (length s)" using strchr_Some [OF r' [unfolded Some]] by auto
      show ?thesis
      proof (cases "p - v < 2")
        case True
        with r r' \<open>r = Some v\<close> Some show ?thesis by (simp add: osip_via_parse_def)
      next
        case False
        with no [OF r [unfolded \<open>r = Some v\<close>] r' [unfolded Some] False] rest [of p] v p r r' \<open>r = Some v\<close> Some
        show ?thesis by (auto simp: osip_via_parse_def wp_simps intro!: wp_clrcopyO)
      qed
    qed
  qed
qed

lemma via_overruns_faults:
  assumes "via_overruns s"
  shows "osip_via_parse s = Inl Out_of_bounds"
proof -
  obtain a b where s: "s = a @ ''/'' @ b @ ''/ ''" and ab: "CHR ''/'' \<notin> set a" "CHR ''/'' \<notin> set b" "b \<noteq> []"
    using assms by (auto simp: via_overruns_def)
  let ?v = "int (length a)" and ?p = "int (length a) + 1 + int (length b)"
  have v: "strchr s 0 (CHR ''/'') = Inr (Some ?v)"
    using strchr_first [of 0 "[]" "CHR ''/''" a "b @ ''/ ''"] ab by (simp add: s)
  have p: "strchr s (?v + 1) (CHR ''/'') = Inr (Some ?p)"
    using strchr_first [of "?v + 1" "a @ ''/''" "CHR ''/''" b "'' ''"] ab by (simp add: s)
  have b1: "\<not> int (length b) + 1 < 2" using ab(3) by (cases b) auto
  have "osip_clrncpy (int (length b) + 1) ((a @ ''/'') @ b @ ''/ '') (?v + 1) (int (length b)) = Inr (osip_clrspace b)"
    by (rule clrncpy_suffix) (use ab in auto)
  then have ver: "clrcopyO (?p - ?v) s (?v + 1) (?p - ?v - 1) = Inr (Some (osip_clrspace b))"
    by (simp add: clrcopyO_def s algebra_simps)
  have blank: "strchr s (?p + 1) (CHR '' '') = Inr (Some (?p + 1))"
    using strchr_first [of "?p + 1" "a @ ''/'' @ b @ ''/''" "CHR '' ''" "[]" "[]"] by (simp add: s)
  have len: "int (length s) = ?p + 2" by (simp add: s)
  have "rd s (?p + 1) = Inr (CHR '' '')" using rd_suffix [of "?p + 1" "a @ ''/'' @ b @ ''/''" "CHR '' ''" "[]"] by (simp add: s)
  moreover have "via_skip s (?p + 2) = Inr (Some (?p + 2))"
    using len by (subst via_skip.simps) (simp add: rd_def)
  ultimately have "via_skip s (?p + 1) = Inr (Some (?p + 2))"
    using len by (subst via_skip.simps) (simp add: strend_def)
  moreover have "strchr s (?p + 2 + 1) (CHR '' '') = Inl Out_of_bounds" using len by (simp add: strchr_def)
  ultimately have "via_protocol_end s ?p = Inl Out_of_bounds"
    using blank by (simp add: via_protocol_end_def)
  with v p b1 ver show ?thesis by (simp add: osip_via_parse_def)
qed

text \<open>
  Claim C32: reading a Via header leaves its text exactly when a version is followed by a slash and
  nothing but one blank; every header it accepts has a version, a protocol and a host.
\<close>

theorem via_parse_faults:
  "(case osip_via_parse s of Inl e \<Rightarrow> e = Out_of_bounds \<and> via_overruns s
    | Inr None \<Rightarrow> \<not> via_overruns s
    | Inr (Some v) \<Rightarrow> \<not> via_overruns s \<and> via_version v \<noteq> None \<and> via_protocol v \<noteq> None \<and> via_host v \<noteq> None)"
  using via_safe [of s] via_overruns_faults [of s]
  by (cases "via_overruns s") (auto simp: ensures_iff split: option.splits)

section \<open>Authentication headers\<close>

lemma skip_chars_stops:
  assumes "skip_chars P s p = Inr q" "q < int (length s)"
  shows "\<not> P (s ! nat q)"
proof -
  let ?k = "length (takeWhile P (drop (nat p) s))"
  have q: "q = p + int ?k" "0 \<le> p" using assms(1) by (auto simp: skip_chars_def split: if_splits)
  with assms(2) have "?k < length (drop (nat p) s)" by simp
  then have "\<not> P (drop (nat p) s ! ?k)" by (rule nth_length_takeWhile)
  with q \<open>?k < length (drop (nat p) s)\<close> show ?thesis by (simp add: nat_add_distrib)
qed

lemma next_element_wp [wp_intros]:
  assumes "within s p" "P None" "\<And>q. P (Some q)"
  shows "ensures (next_element s p) P"
  unfolding next_element_def by (use assms in \<open>auto simp: wp_simps intro!: wp_intros\<close>)

lemma back_over_blanks_wp:
  "0 \<le> j \<Longrightarrow> j < p \<Longrightarrow> p \<le> int (length s) + 1 \<Longrightarrow> s ! nat j \<noteq> CHR '' '' \<Longrightarrow> safe (back_over_blanks s p)"
proof (induction s p rule: back_over_blanks.induct)
  case (1 s p)
  obtain c where c: "rd s (p - 1) = Inr c" using rd_defined [of "p - 1" s] "1.prems" by auto
  show ?case
  proof (cases "c = CHR '' ''")
    case True
    have "j \<noteq> p - 1" using c True "1.prems" by (auto simp: rd_def split: if_splits)
    with "1.IH" [OF c True] "1.prems" c True show ?thesis by (subst back_over_blanks.simps) simp
  qed (use c in \<open>subst back_over_blanks.simps, simp\<close>)
qed

text \<open>The name of a field does not start with an equal sign, so that a field has its name in front of the first one.\<close>

definition field_name :: "string \<Rightarrow> bool" where
  "field_name name \<longleftrightarrow> name \<noteq> [] \<and> tolower (hd name) \<noteq> tolower (CHR ''='')"

lemma field_starts:
  assumes "field_name name" "strncasecmp0 (length name) name (drop (nat p) s)" "0 \<le> p" "p < int (length s)"
  shows "s ! nat p \<noteq> CHR ''=''"
proof -
  have "hd (map tolower (take (length name) name)) = hd (map tolower (take (length name) (drop (nat p) s)))"
    using assms(2) by (simp add: strncasecmp0_def)
  moreover have "name \<noteq> []" "drop (nat p) s \<noteq> []" "hd (drop (nat p) s) = s ! nat p"
    using assms by (auto simp: field_name_def hd_drop_conv_nth)
  ultimately have "tolower (hd name) = tolower (s ! nat p)"
    by (simp add: hd_map take_eq_Nil hd_take)
  with assms(1) show ?thesis by (auto simp: field_name_def)
qed

lemma quoted_string_set_safe:
  assumes "within s p" "field_name name"
  shows "safe (osip_quoted_string_set name s p v)"
proof -
  obtain q where q: "skip_chars sp_tab_comma s p = Inr q" "p \<le> q" "q \<le> int (length s)"
    using wp_skip_chars [where s = s and p = p and C = sp_tab_comma and P = "\<lambda>q. p \<le> q \<and> q \<le> int (length s)"] assms(1)
    by (auto simp: ensures_iff)
  have "safe (bindO (strchr s q (CHR ''='')) (\<lambda>hack. bindR (back_over_blanks s hack) (\<lambda>hack.
        if hack - q \<noteq> int (length name) then Inr (Some (None, Some q))
        else bindO (osip_quote_find s q) (\<lambda>quote1. bindO (osip_quote_find s (quote1 + 1)) (\<lambda>quote2.
          bindO (if quote2 - quote1 = 1 then Inr (Some None)
                 else bindO (copyO (quote2 - quote1 + 3) s quote1 (quote2 - quote1 + 1)) (\<lambda>v. Inr (Some (Some v)))) (\<lambda>v.
          bindR (next_element s (quote2 + 1)) (\<lambda>n. Inr (Some (v, n)))))))))"
    if a: "strncasecmp0 (length name) name (drop (nat q) s)" "\<not> strend s - q \<le> int (length name)"
  proof -
    have lt: "q < int (length s)" using a(2) by (simp add: strend_def)
    have ne: "s ! nat q \<noteq> CHR ''=''" using field_starts [OF assms(2) a(1)] lt q assms(1) by simp
    have nb: "s ! nat q \<noteq> CHR '' ''" using skip_chars_stops [OF q(1) lt] by (simp add: sp_tab_comma_def sp_or_tab_def)
    have over: "ensures (back_over_blanks s h) P" if "q < h" "h \<le> int (length s)" "\<And>x. P x" for h P
      using ensures_mono [OF back_over_blanks_wp [where j = q and p = h and s = s]] that nb q assms(1) by auto
    show ?thesis
      by (use lt ne q assms(1) in \<open>auto simp: wp_simps intro!: wp_intros over split: option.splits\<close>)
  qed
  with q show ?thesis by (auto simp: osip_quoted_string_set_def)
qed

lemma token_set_safe:
  assumes "within s p"
  shows "safe (osip_token_set name s p v)"
proof -
  have tail: "safe (if e - beg < 2 then Inr None
        else bindO (clrcopyO (e - beg) s (beg + 1) (e - beg - 1)) (\<lambda>v.
          bindR (rd s e) (\<lambda>c. bindR (next_element s (if c = NUL then e else e + 1)) (\<lambda>n. Inr (Some (Some v, n))))))"
    if "p \<le> e" "e \<le> int (length s)" "p \<le> beg" for e beg
    using that assms by (auto simp: wp_simps rd_def intro!: wp_intros split: if_splits)
  have "safe (bindR (strchr s q (CHR '','')) (\<lambda>e. let e = or_end s e in
        if e - beg < 2 then Inr None
        else bindO (clrcopyO (e - beg) s (beg + 1) (e - beg - 1)) (\<lambda>v.
          bindR (rd s e) (\<lambda>c. bindR (next_element s (if c = NUL then e else e + 1)) (\<lambda>n. Inr (Some (Some v, n)))))))"
    if "p \<le> q" "q \<le> int (length s)" "p \<le> beg" for q beg
    unfolding wp_bind by (rule wp_strchr) (use that assms tail in \<open>auto simp: or_end_def strend_def Let_def\<close>)
  with assms show ?thesis
    unfolding osip_token_set_def wp_bindO wp_bind
    by (auto simp only: wp_bindO wp_bind option.case ensures_simps intro!: wp_if wp_strchr wp_skip_chars split: option.splits)
qed

lemma read_fields_safe:
  "within s p \<Longrightarrow> \<forall>f\<in>set fs. field_name (fname f) \<Longrightarrow> safe (read_fields fs s p ok a)"
proof (induction fs arbitrary: p ok a)
  case (Cons f fs)
  let ?set = "if is_quoted f then osip_quoted_string_set else osip_token_set"
  have "safe (?set (fname f) s p (fget f a))" using quoted_string_set_safe token_set_safe Cons.prems by simp
  then obtain r where r: "?set (fname f) s p (fget f a) = Inr r" by (auto simp: ensures_iff)
  have "safe (read_fields fs s n (ok \<or> n \<noteq> p) (fset f v a))" if "r = Some (v, Some n)" for v n
  proof (rule Cons.IH)
    show "within s n"
      using r that quoted_string_set_next [of "fname f" s p "fget f a" v n] token_set_next [of "fname f" s p "fget f a" v n] Cons.prems
      by (cases "fget f a = None") (auto simp: osip_quoted_string_set_def osip_token_set_def split: if_splits)
  qed (use Cons.prems in simp)
  with r show ?case by (auto split: option.splits)
qed simp

lemma skip_field_safe: "within s p \<Longrightarrow> safe (skip_field s p)"
  unfolding skip_field_def by (auto simp: wp_simps strend_def intro!: wp_intros split: option.splits)

lemma auth_loop_safe:
  "within s p \<Longrightarrow> \<forall>f\<in>set fs. field_name (fname f) \<Longrightarrow> safe (auth_loop fs s p a)"
proof (induction fs s p a rule: auth_loop.induct)
  case (1 fs s p a)
  have in_s: "\<not> (p < 0 \<or> int (length s) < p)" using "1.prems" by simp
  obtain r where r: "read_fields fs s p False a = Inr r"
    using read_fields_safe [OF "1.prems"] by (auto simp: ensures_iff)
  show ?case
  proof (cases r)
    case (Continue q ok a')
    have q: "within s q" using read_fields_moves [OF r [unfolded Continue]] "1.prems" by auto
    obtain r' where r': "skip_field s q = Inr r'" using skip_field_safe [OF q] by (auto simp: ensures_iff)
    have "safe (auth_loop fs s x a')" if "r' = Some (Some x)" "\<not> ok" for x
      by (rule "1.IH"(2) [OF in_s r Continue that(2) _ refl])
        (use r' that skip_field_moves [of s q x] q "1.prems" in auto)
    moreover have "ok \<Longrightarrow> safe (auth_loop fs s q a')" using "1.IH"(1) [OF in_s r Continue] q "1.prems" by blast
    ultimately show ?thesis
      using r r' Continue in_s by (subst auth_loop.simps) (auto simp: bindO_def split: option.splits)
  qed (use r in_s in \<open>subst auth_loop.simps, simp\<close>)+
qed

lemma field_names:
  "list_all field_name [''realm'', ''domain'', ''nonce'', ''opaque'', ''stale'', ''algorithm'', ''qop'', ''username'', ''uri'',
     ''response'', ''digest'', ''cnonce'', ''nc'', ''nextnonce'', ''rspauth'']"
  by code_simp

lemma wp_auth_loop:
  assumes "within s p" "\<forall>f\<in>set fs. field_name (fname f)" "\<And>x. P x"
  shows "ensures (auth_loop fs s p a) P"
  using ensures_mono [OF auth_loop_safe [OF assms(1,2)]] assms(3) by blast

lemma www_authenticate_safe: "safe (osip_www_authenticate_parse s)"
proof -
  have "\<forall>f\<in>set www_authenticate_fields. field_name (fname f)" using field_names by (simp add: www_authenticate_fields_def)
  then show ?thesis
    unfolding osip_www_authenticate_parse_def
    by (auto simp: wp_simps intro!: wp_intros wp_auth_loop split: option.splits)
qed

lemma authorization_safe: "safe (osip_authorization_parse s)"
proof -
  have "\<forall>f\<in>set authorization_fields. field_name (fname f)" using field_names by (simp add: authorization_fields_def)
  then show ?thesis
    unfolding osip_authorization_parse_def
    by (auto simp: wp_simps intro!: wp_intros wp_auth_loop split: option.splits)
qed

lemma authentication_info_safe: "safe (osip_authentication_info_parse s)"
proof -
  have "\<forall>f\<in>set authentication_info_fields. field_name (fname f)" using field_names by (simp add: authentication_info_fields_def)
  then show ?thesis
    unfolding osip_authentication_info_parse_def by (intro auth_loop_safe) auto
qed

end
