(* ===== verification/Osip_Headers_Roundtrip.thy ===== *)
theory Osip_Headers_Roundtrip
  imports Osip_Headers_Correct Osip_Uri_Roundtrip
begin

text \<open>
  Printing headers: what is printed, that it fits its block, and that it is read back. The headers that
  are read back form an interface, from which follows that comparing two of them by their texts, as
  \<open>osip_via_match\<close> does, compares them.
\<close>

section \<open>What is printed\<close>

definition params_str :: "param list \<Rightarrow> string" where
  "params_str ps = concat (map param_text ps)"

lemma params_str_simps [simp]: "params_str [] = []" "params_str (u # us) = param_text u @ params_str us"
  by (simp_all add: params_str_def)

lemma generic_params_print:
  "length buf < len \<Longrightarrow> \<exists>len'. foldR generic_param_print ps (len, buf) = Inr (len', buf @ params_str ps) \<and> length (buf @ params_str ps) < len'"
proof (induction ps arbitrary: len buf)
  case (Cons u ps)
  let ?len = "len + (case gvalue u of None \<Rightarrow> length (gname u) + 2 | Some v \<Rightarrow> length (gname u) + length v + 3)"
  have lt: "length (buf @ param_text u) < ?len" using Cons.prems by (simp split: option.splits)
  have "generic_param_print u (len, buf) = Inr (?len, buf @ param_text u)"
    using lt by (simp add: generic_param_print_def param_to_str_def Let_def strcat_to_eq split: option.splits)
  with Cons.IH [OF lt] show ?case by simp
qed simp

lemma via_print_eq: "via_print v = Inr (osip_via_to_str (Some v))"
proof (cases "via_host v = None \<or> via_version v = None \<or> via_protocol v = None")
  case True
  then show ?thesis by (auto simp: via_print_def osip_via_to_str_def split: option.splits)
next
  case False
  then obtain h ver prot where v: "via_host v = Some h" "via_version v = Some ver" "via_protocol v = Some prot" by auto
  let ?len = "length ver + 1 + length prot + 1 + 3 + 2 + length h + 3 + 1 + (case via_port v of None \<Rightarrow> 0 | Some p \<Rightarrow> length p + 2)"
  let ?head = "''SIP/'' @ ver @ ''/'' @ prot @ '' '' @ (if CHR '':'' \<in> set h then ''['' @ h @ '']'' else h) @
      (case via_port v of None \<Rightarrow> [] | Some p \<Rightarrow> '':'' @ p)"
  have lt: "length ?head < ?len" by (auto split: option.splits)
  then have s1: "strcat_to ?len [] ?head = Inr ?head" by (subst strcat_to_eq) auto
  obtain len' where s2: "foldR generic_param_print (via_params v) (?len, ?head) = Inr (len', ?head @ params_str (via_params v))"
      "length (?head @ params_str (via_params v)) < len'"
    using generic_params_print [OF lt] by blast
  show ?thesis
    using v s1 s2 by (cases "via_comment v")
      (simp_all add: via_print_def osip_via_to_str_def params_str_def strcat_to_eq)
qed

lemma content_type_params_ok:
  "length buf < len \<Longrightarrow> safe (content_type_params_print ps (len, buf))"
  by (induction ps arbitrary: len buf)
    (auto simp: Let_def strcat_to_eq wp_simps split: option.splits)

lemma content_type_to_str_safe: "safe (osip_content_type_to_str c)"
  by (auto simp: osip_content_type_to_str_def Let_def strcat_to_eq content_type_params_ok split: option.splits)

lemma call_info_to_str_safe: "safe (osip_call_info_to_str e)"
proof (cases "elt_element e")
  case (Some v)
  obtain len' where "foldR generic_param_print (elt_params e) (length v + 2, v) = Inr (len', v @ params_str (elt_params e))"
    using generic_params_print [of v "length v + 2" "elt_params e"] by auto
  with Some show ?thesis by (simp add: osip_call_info_to_str_def strcat_to_eq)
qed (simp add: osip_call_info_to_str_def)

lemma header_to_str_safe: "safe (osip_header_to_str h)"
  by (cases "hvalue h") (simp_all add: osip_header_to_str_def strcat_to_eq)

section \<open>Authentication headers fit their blocks\<close>

definition fields_text :: "(string \<times> string option) list \<Rightarrow> string" where
  "fields_text fs = concat (map (\<lambda>(label, v). case v of None \<Rightarrow> [] | Some v \<Rightarrow> label @ v) fs)"

lemma append_fields:
  "length buf + length (fields_text fs) < len \<Longrightarrow> foldR (append_field len) fs buf = Inr (buf @ fields_text fs)"
proof (induction fs arbitrary: buf)
  case (Cons f fs)
  obtain label v where f: "f = (label, v)" by (cases f)
  show ?case
  proof (cases v)
    case (Some w)
    with Cons f show ?thesis by (simp add: append_field_def fields_text_def strcat_to_eq)
  qed (use Cons f in \<open>simp add: append_field_def fields_text_def\<close>)
qed (simp add: fields_text_def)

lemma www_authenticate_to_str_safe: "safe (osip_www_authenticate_to_str w)"
proof (cases "wwwa_auth_type w")
  case (Some ty)
  let ?len = "length ty + 1 + field_size 7 (wwwa_realm w) + field_size 8 (wwwa_nonce w) + 2 + field_size 9 (wwwa_domain w) +
    field_size 9 (wwwa_opaque w) + field_size 8 (wwwa_stale w) + field_size 12 (wwwa_algorithm w) + field_size 6 (wwwa_qop_options w)"
  let ?fs = "[('' realm='', wwwa_realm w), ('', domain='', wwwa_domain w), ('', nonce='', wwwa_nonce w), ('', opaque='', wwwa_opaque w),
    ('', stale='', wwwa_stale w), ('', algorithm='', wwwa_algorithm w), ('', qop='', wwwa_qop_options w)]"
  have "length ty + length (fields_text ?fs) < ?len"
    by (simp add: fields_text_def field_size_def split: option.splits)
  with Some append_fields [of ty ?fs ?len] show ?thesis
    by (simp add: osip_www_authenticate_to_str_def Let_def strcat_to_eq)
qed (simp add: osip_www_authenticate_to_str_def)

lemma authorization_to_str_safe: "safe (osip_authorization_to_str a)"
proof (cases "auth_type a = None \<or> auth_realm a = None \<or> auth_nonce a = None")
  case False
  then obtain ty r n where a: "auth_type a = Some ty" "auth_realm a = Some r" "auth_nonce a = Some n" by auto
  let ?len = "length ty + 1 + field_size 10 (auth_username a) + field_size 8 (auth_realm a) + field_size 8 (auth_nonce a) +
    field_size 6 (auth_uri a) + field_size 11 (auth_response a) + 2 + field_size 9 (auth_digest a) +
    field_size 12 (auth_algorithm a) + field_size 9 (auth_cnonce a) + field_size 9 (auth_opaque a) +
    field_size 5 (auth_nonce_count a) + field_size 6 (auth_message_qop a)"
  let ?fs = "[('' username='', auth_username a), ('', realm='', auth_realm a), ('', nonce='', auth_nonce a), ('', uri='', auth_uri a),
     ('', response='', auth_response a), ('', digest='', auth_digest a), ('', algorithm='', auth_algorithm a),
     ('', cnonce='', auth_cnonce a), ('', opaque='', auth_opaque a), ('', qop='', auth_message_qop a),
     ('', nc='', auth_nonce_count a)]"
  have "length ty + length (fields_text ?fs) < ?len"
    by (simp add: fields_text_def field_size_def split: option.splits)
  with a append_fields [of ty ?fs ?len] show ?thesis
    by (simp add: osip_authorization_to_str_def Let_def strcat_to_eq)
qed (auto simp: osip_authorization_to_str_def split: option.splits)

section \<open>Reading back what was printed\<close>

text \<open>
  A kind of header: how it is printed and read, and the values that are printed so that they can be
  read back.
\<close>

locale header_codec =
  fixes print :: "'a \<Rightarrow> string option res" and parse :: "string \<Rightarrow> 'a option res" and wf :: "'a \<Rightarrow> bool"
  assumes print_parse: "wf x \<Longrightarrow> \<exists>s. print x = Inr (Some s) \<and> parse s = Inr (Some x)"
begin

lemma print_inject: "wf x \<Longrightarrow> wf y \<Longrightarrow> print x = print y \<longleftrightarrow> x = y"
  using print_parse [of x] print_parse [of y] by auto

lemma printed_parse: "wf x \<Longrightarrow> print x = Inr (Some s) \<Longrightarrow> parse s = Inr (Some x)"
  using print_parse [of x] by auto

lemma print_defined: "wf x \<Longrightarrow> \<exists>s. print x = Inr (Some s)"
  using print_parse [of x] by blast

end

subsection \<open>CSeq and Call-ID\<close>

definition wf_token :: "string \<Rightarrow> bool" where
  "wf_token s \<longleftrightarrow> s \<noteq> [] \<and> osip_clrspace s = s"

lemma token_hd: "wf_token s \<Longrightarrow> \<not> is_blank (hd s)"
  unfolding wf_token_def using blank_core [of s]
  by (metis append_Nil2 append_is_Nil_conv append_self_conv2 list.sel(1) length_append add_cancel_right_left le_add_same_cancel1
      append_eq_append_conv same_length_different)

lemma clrcopy_token:
  "p = int (length a) \<Longrightarrow> n = int (length x) \<Longrightarrow> wf_token x \<Longrightarrow> n + 1 \<le> m \<Longrightarrow> clrcopyO m (a @ x @ t) p n = Inr (Some x)"
  using clrncpy_suffix [of p a n x m t] by (simp add: clrcopyO_def wf_token_def)

text \<open>One character too many is the NUL.\<close>

lemma clrcopy_end:
  assumes "p = int (length a)" "x \<noteq> []" "\<not> is_blank (hd x)" "n = int (length x) + 1" "n + 1 \<le> m"
  shows "clrcopyO m (a @ x) p n = Inr (Some x)"
proof -
  have "skip_blanks (a @ x) p = Inr p" using assms(1-3) by (cases x) (simp_all add: skip_blanks_def)
  moreover have "trim_end (a @ x) p (p + n - 1) = Inr (Some (p + n - 1))"
    by (subst trim_end.simps) (use assms in \<open>simp add: rd_def is_blank_def\<close>)
  ultimately show ?thesis using assms by (simp add: clrcopyO_def osip_clrncpy_def)
qed

definition wf_cseq :: "cseq \<Rightarrow> bool" where
  "wf_cseq c \<longleftrightarrow> (case (cseq_number c, cseq_method c) of
     (Some n, Some m) \<Rightarrow> wf_token n \<and> CHR '' '' \<notin> set n \<and> m \<noteq> [] \<and> \<not> is_blank (hd m) | _ \<Rightarrow> False)"

lemma cseq_print_parse:
  assumes "wf_cseq c"
  shows "\<exists>s. osip_cseq_to_str c = Inr (Some s) \<and> osip_cseq_parse s = Inr (Some c)"
proof -
  obtain n m where c: "c = \<lparr>cseq_number = Some n, cseq_method = Some m\<rparr>" and
      w: "wf_token n" "CHR '' '' \<notin> set n" "m \<noteq> []" "\<not> is_blank (hd m)"
    using assms by (cases c) (auto simp: wf_cseq_def split: option.splits)
  let ?s = "n @ CHR '' '' # m"
  have n1: "\<not> int (length n) + 1 < 2" "\<not> int (length m) + 2 < 2" using w by (cases n; auto simp: wf_token_def)+
  have "strchr ?s 0 (CHR '' '') = Inr (Some (int (length n)))"
    using strchr_first [of 0 "[]" "CHR '' ''" n m] w by simp
  moreover have "clrcopyO (int (length n) + 1) ([] @ ?s) 0 (int (length n)) = Inr (Some n)"
    by (rule clrcopy_token) (use w in auto)
  moreover have "clrcopyO (int (length m) + 2) ((n @ '' '') @ m) (int (length n) + 1) (int (length m) + 1) = Inr (Some m)"
    by (rule clrcopy_end) (use w in auto)
  ultimately have "osip_cseq_parse ?s = Inr (Some c)"
    using n1 c by (simp add: osip_cseq_parse_def strend_def algebra_simps)
  then show ?thesis by (simp add: osip_cseq_to_str_def c strcat_to_eq)
qed

definition wf_call_id :: "call_id \<Rightarrow> bool" where
  "wf_call_id c \<longleftrightarrow> (case call_id_number c of None \<Rightarrow> False | Some n \<Rightarrow> wf_token n \<and> CHR ''@'' \<notin> set n) \<and>
     (case call_id_host c of None \<Rightarrow> True | Some h \<Rightarrow> wf_token h)"

lemma call_id_print_parse:
  assumes "wf_call_id c"
  shows "\<exists>s. call_id_print c = Inr (Some s) \<and> osip_call_id_parse s = Inr (Some c)"
proof -
  obtain n h where c: "c = \<lparr>call_id_number = Some n, call_id_host = h\<rparr>" and w: "wf_token n" "CHR ''@'' \<notin> set n" "\<And>x. h = Some x \<Longrightarrow> wf_token x"
    using assms by (cases c) (auto simp: wf_call_id_def split: option.splits)
  have n1: "\<not> int (length n) + 1 < 2" using w by (cases n) (auto simp: wf_token_def)
  have num: "clrcopyO (int (length n) + 1) ([] @ n @ t) 0 (int (length n)) = Inr (Some n)" for t
    by (rule clrcopy_token) (use w in auto)
  show ?thesis
  proof (cases h)
    case None
    have "strchr n 0 (CHR ''@'') = Inr None" using strchr_suffix [of 0 "[]" n "CHR ''@''"] w by simp
    then have "osip_call_id_parse n = Inr (Some c)"
      using n1 num [of "[]"] c None by (simp add: osip_call_id_parse_def strend_def or_end_def)
    then show ?thesis using c None by (simp add: call_id_print_def strcat_to_eq)
  next
    case (Some x)
    let ?s = "n @ CHR ''@'' # x"
    have "strchr ?s 0 (CHR ''@'') = Inr (Some (int (length n)))"
      using strchr_first [of 0 "[]" "CHR ''@''" n x] w by simp
    moreover have "\<not> int (length x) + 2 < 2" by simp
    moreover have "clrcopyO (int (length x) + 1) ((n @ ''@'') @ x @ []) (int (length n) + 1) (int (length x)) = Inr (Some x)"
      by (rule clrcopy_token) (use w Some in auto)
    ultimately have "osip_call_id_parse ?s = Inr (Some c)"
      using n1 num [of "CHR ''@'' # x"] c Some by (simp add: osip_call_id_parse_def strend_def or_end_def algebra_simps)
    then show ?thesis using c Some by (simp add: call_id_print_def strcat_to_eq)
  qed
qed

interpretation cseq: header_codec osip_cseq_to_str osip_cseq_parse wf_cseq
  by unfold_locales (rule cseq_print_parse)

interpretation call_id: header_codec call_id_print osip_call_id_parse wf_call_id
  by unfold_locales (rule call_id_print_parse)

subsection \<open>Parameters\<close>

definition wf_generic :: "param \<Rightarrow> bool" where
  "wf_generic u \<longleftrightarrow> wf_token (gname u) \<and> list_all (\<lambda>c. c \<noteq> CHR ''='' \<and> c \<noteq> CHR '';'') (gname u) \<and>
     (case gvalue u of None \<Rightarrow> True | Some v \<Rightarrow> wf_token v \<and> CHR '';'' \<notin> set v \<and> hd v \<noteq> CHR '','' \<and> hd v \<noteq> NUL)"

lemma generic_param_at:
  assumes "p = int (length a)" "n \<noteq> []" "\<And>w. v = Some w \<Longrightarrow> wf_token w \<and> hd w \<noteq> CHR '','' \<and> hd w \<noteq> NUL"
    "e = (if v = None then None else Some (p + 1 + int (length n)))" "q = p + 1 + int (length n) + int (length (value_text v))"
  shows "generic_param (a @ sep # n @ value_text v @ t) p e q = Inr (Some (n, v))"
proof -
  have n: "copyO (1 + int (length n)) (a @ sep # n @ x) (p + 1) (int (length n)) = Inr (Some n)" for x
    using strncpy_suffix [of "p + 1" "a @ [sep]" "int (length n)" n _ x] assms(1) by (simp add: copyO_def)
  have n1: "\<not> int (length n) < 1" using assms(2) by (cases n) auto
  show ?thesis
  proof (cases v)
    case None
    with n [of t] n1 assms show ?thesis by (simp add: generic_param_def generic_value_def value_text_def)
  next
    case (Some w)
    have w: "wf_token w" "hd w \<noteq> CHR '',''" "hd w \<noteq> NUL" using assms(3) Some by blast+
    obtain c w' where c: "w = c # w'" using w(1) by (cases w) (auto simp: wf_token_def)
    let ?s = "a @ sep # n @ CHR ''='' # w @ t" and ?b = "p + 2 + int (length n)"
    have "copyO (1 + int (length w)) ?s ?b (int (length w)) = Inr (Some w)"
      using strncpy_suffix [of ?b "a @ sep # n @ ''=''" "int (length w)" w _ t] assms(1) by (simp add: copyO_def)
    moreover have "skip_chars sp_or_tab ?s ?b = Inr ?b"
      using assms(1) token_hd [OF w(1)] by (simp add: skip_chars_def sp_or_tab_def is_blank_def c nat_add_distrib)
    moreover have "rd ?s ?b = Inr c"
      using rd_suffix [of ?b "a @ sep # n @ ''=''" c "w' @ t"] assms(1) by (simp add: c)
    moreover have "\<not> int (length w) < 1" by (simp add: c)
    ultimately show ?thesis
      using n [of "CHR ''='' # w @ t"] n1 assms Some w c by (simp add: generic_param_def generic_value_def value_text_def algebra_simps)
  qed
qed

lemma params_str_hd: "params_str ps = [] \<or> hd (params_str ps) = CHR '';''"
  by (cases ps) simp_all

lemma params_str_empty: "params_str ps = [] \<longleftrightarrow> ps = []"
  by (cases ps) simp_all

lemma parseall_params_str:
  "ps \<noteq> [] \<Longrightarrow> list_all wf_generic ps \<Longrightarrow> p = int (length a) \<Longrightarrow>
   generic_param_parseall (a @ params_str ps) p acc = Inr (Some (acc @ ps))"
proof (induction ps arbitrary: a p acc)
  case (Cons u ps)
  let ?n = "gname u" and ?v = "gvalue u"
  let ?s = "a @ CHR '';'' # ?n @ value_text ?v @ params_str ps"
  let ?e = "if ?v = None then None else Some (p + 1 + int (length ?n))"
  let ?q = "p + 1 + int (length ?n) + int (length (value_text ?v))"
  have s: "a @ params_str (u # ps) = ?s" by (simp add: value_text_def split: option.splits)
  have u: "wf_token ?n" "CHR ''='' \<notin> set ?n" "CHR '';'' \<notin> set ?n"
      "\<And>w. ?v = Some w \<Longrightarrow> wf_token w \<and> CHR '';'' \<notin> set w \<and> hd w \<noteq> CHR '','' \<and> hd w \<noteq> NUL"
    using Cons.prems(2) by (auto simp: wf_generic_def list_all_iff)
  have ends: "next_separator ?s (p + 1) (CHR ''='') (CHR '';'') = Inr ?e"
    "strchr ?s (p + 1) (CHR '';'') = Inr (if params_str ps = [] then None else Some ?q)"
    by (rule param_ends; use Cons.prems(3) params_str_hd u in auto)+
  have par: "generic_param ?s p ?e ?q = Inr (Some (?n, ?v))"
    by (rule generic_param_at) (use Cons.prems(3) u in \<open>auto simp: wf_token_def\<close>)
  have add: "osip_uri_param_add acc ?n ?v = acc @ [u]"
    using u by (cases "gvalue u") (auto simp: osip_uri_param_add_def osip_uri_param_set_def wf_token_def)
  show ?case
  proof (cases "ps = []")
    case True
    have "strend ?s = ?q" using Cons.prems(3) True by (simp add: strend_def)
    then show ?thesis
      using True ends par add unfolding s by (subst generic_param_parseall.simps) simp
  next
    case False
    have "generic_param_parseall ((a @ CHR '';'' # ?n @ value_text ?v) @ params_str ps) ?q (acc @ [u]) = Inr (Some ((acc @ [u]) @ ps))"
      by (rule Cons.IH) (use False Cons.prems in auto)
    with False ends par add show ?thesis
      unfolding s by (subst generic_param_parseall.simps) (simp add: params_str_empty)
  qed
qed simp

subsection \<open>Via\<close>

definition via_reserved :: string where
  "via_reserved = ''()[];''"

definition wf_via_param :: "param \<Rightarrow> bool" where
  "wf_via_param u \<longleftrightarrow> wf_generic u \<and> CHR ''('' \<notin> set (param_text u) \<and> CHR '')'' \<notin> set (param_text u)"

definition wf_via :: "via \<Rightarrow> bool" where
  "wf_via v \<longleftrightarrow> (case (via_version v, via_protocol v, via_host v) of
       (Some ver, Some prot, Some h) \<Rightarrow>
         wf_token ver \<and> CHR ''/'' \<notin> set ver \<and> wf_token prot \<and> CHR '' '' \<notin> set prot \<and>
         wf_token h \<and> list_all (\<lambda>c. c \<notin> set via_reserved) h
     | _ \<Rightarrow> False) \<and>
     (case via_port v of None \<Rightarrow> True | Some q \<Rightarrow> wf_token q \<and> list_all (\<lambda>c. c \<notin> set via_reserved) q) \<and>
     list_all wf_via_param (via_params v) \<and>
     (case via_comment v of None \<Rightarrow> True | Some c \<Rightarrow> c \<noteq> [] \<and> CHR '')'' \<notin> set c \<and> CHR '';'' \<notin> set c)"

definition via_host_text :: "string \<Rightarrow> string" where
  "via_host_text h = (if CHR '':'' \<in> set h then ''['' @ h @ '']'' else h)"

definition via_port_text :: "string option \<Rightarrow> string" where
  "via_port_text q = (case q of None \<Rightarrow> [] | Some p \<Rightarrow> CHR '':'' # p)"

definition via_comment_text :: "string option \<Rightarrow> string" where
  "via_comment_text c = (case c of None \<Rightarrow> [] | Some c \<Rightarrow> '' ('' @ c @ '')'')"

text \<open>A search that finds nothing in the next part.\<close>

lemma strchr_beyond:
  assumes "p = int (length a)" "c \<notin> set x"
  shows "\<exists>r. strchr (a @ x @ t) p c = Inr r \<and> (\<forall>q. r = Some q \<longrightarrow> p + int (length x) \<le> q)"
proof -
  have "takeWhile (\<lambda>y. y \<noteq> c) (x @ t) = x @ takeWhile (\<lambda>y. y \<noteq> c) t" using assms(2) by (induction x) auto
  then show ?thesis using strchr_suffix [OF assms(1), of "x @ t" c] assms(2) by auto
qed

lemma via_comment_part_at:
  assumes "p = int (length a)" "CHR ''('' \<notin> set x" "CHR '')'' \<notin> set x"
    "\<And>c. com = Some c \<Longrightarrow> c \<noteq> [] \<and> CHR '')'' \<notin> set c"
  shows "via_comment_part (a @ CHR '' '' # x @ via_comment_text com) p = Inr (Some (com, p + 1 + int (length x)))"
proof (cases com)
  case None
  then have "strchr (a @ CHR '' '' # x @ via_comment_text com) p (CHR ''('') = Inr None"
    using strchr_suffix [OF assms(1), of "CHR '' '' # x" "CHR ''(''"] assms(2) by (simp add: via_comment_text_def)
  with None assms(1) show ?thesis by (simp add: via_comment_part_def strend_def via_comment_text_def)
next
  case (Some c)
  let ?s = "a @ CHR '' '' # x @ '' ('' @ c @ '')''" and ?b = "p + 2 + int (length x)"
  have c: "c \<noteq> []" "CHR '')'' \<notin> set c" using assms(4) Some by blast+
  have "strchr ?s p (CHR ''('') = Inr (Some ?b)"
    using strchr_first [OF assms(1), of "CHR ''(''" "CHR '' '' # x @ '' ''" "c @ '')''"] assms(2) by simp
  moreover have "strchr ?s p (CHR '')'') = Inr (Some (?b + 1 + int (length c)))"
    using strchr_first [OF assms(1), of "CHR '')''" "CHR '' '' # x @ '' ('' @ c" "[]"] assms(3) c by simp
  moreover have "copyO (int (length c) + 1) ?s (?b + 1) (int (length c)) = Inr (Some c)"
    using strncpy_suffix [of "?b + 1" "a @ CHR '' '' # x @ '' (''" "int (length c)" c _ "'')''"] assms(1) by (simp add: copyO_def)
  moreover have "\<not> int (length c) < 1" using c by (cases c) auto
  ultimately show ?thesis using Some by (simp add: via_comment_part_def via_comment_text_def algebra_simps)
qed

lemma via_params_part_at:
  assumes "p = int (length a)" "CHR '';'' \<notin> set x" "list_all wf_via_param ps" "CHR '';'' \<notin> set t"
    "comment = p + 1 + int (length x) + int (length (params_str ps))"
  shows "via_params_part (a @ CHR '' '' # x @ params_str ps @ t) p comment = Inr (Some (ps, p + 1 + int (length x)))"
proof (cases "ps = []")
  case True
  with strchr_suffix [OF assms(1), of "CHR '' '' # x @ t" "CHR '';''"] assms show ?thesis
    by (simp add: via_params_part_def)
next
  case False
  then obtain r where r: "params_str ps = CHR '';'' # r" by (cases ps) simp_all
  let ?s = "a @ CHR '' '' # x @ params_str ps @ t" and ?q = "p + 1 + int (length x)" and ?n = "int (length (params_str ps))"
  have "strchr ?s p (CHR '';'') = Inr (Some ?q)"
    using strchr_first [OF assms(1), of "CHR '';''" "CHR '' '' # x" "r @ t"] assms(2) by (simp add: r)
  moreover have "copyO (?n + 1) ?s ?q ?n = Inr (Some (params_str ps))"
    using strncpy_suffix [of ?q "a @ CHR '' '' # x" ?n "params_str ps" _ t] assms(1) by (simp add: copyO_def)
  moreover have "generic_param_parseall ([] @ params_str ps) 0 [] = Inr (Some ([] @ ps))"
    by (rule parseall_params_str) (use assms(3) False in \<open>auto simp: list_all_iff wf_via_param_def\<close>)
  moreover have "\<not> ?n < 1" by (simp add: r)
  ultimately show ?thesis using assms(5) by (simp add: via_params_part_def)
qed

lemma no_reserved: "list_all (\<lambda>c. c \<notin> set via_reserved) h \<Longrightarrow>
    CHR ''('' \<notin> set h \<and> CHR '')'' \<notin> set h \<and> CHR ''['' \<notin> set h \<and> CHR '']'' \<notin> set h \<and> CHR '';'' \<notin> set h"
  by (auto simp: list_all_iff via_reserved_def)

text \<open>The host and port, in front of a text that starts a parameter or a comment.\<close>

lemma via_port_value_at:
  assumes "\<And>q. port = Some q \<Longrightarrow> wf_token q" "p = int (length a)" "params = p + int (length (via_port_text port))"
    "r = (if port = None then r' else Some p)" "\<And>q. r' = Some q \<Longrightarrow> params \<le> q"
  shows "via_port_value (a @ via_port_text port @ t) r params = Inr (Some (port, p))"
proof (cases port)
  case None
  with assms show ?thesis by (cases r') (auto simp: via_port_value_def via_port_text_def)
next
  case (Some q)
  have "clrcopyO (int (length q) + 1) ((a @ '':'') @ q @ t) (p + 1) (int (length q)) = Inr (Some q)"
    by (rule clrcopy_token) (use assms(1,2) Some in auto)
  moreover have "\<not> int (length q) < 1" using assms(1) [OF Some] by (cases q) (auto simp: wf_token_def)
  ultimately show ?thesis using assms Some by (simp add: via_port_value_def via_port_text_def algebra_simps)
qed

lemma via_host_port_at:
  assumes p: "p = int (length a)" and h: "wf_token h" "list_all (\<lambda>c. c \<notin> set via_reserved) h"
    and q: "\<And>q. port = Some q \<Longrightarrow> wf_token q \<and> list_all (\<lambda>c. c \<notin> set via_reserved) q"
    and params: "params = p + 1 + int (length (via_host_text h)) + int (length (via_port_text port))"
  shows "via_host_port (a @ CHR '' '' # via_host_text h @ via_port_text port @ t) p params via =
    Inr (Some (via\<lparr>via_host := Some h, via_port := port\<rparr>))"
proof -
  let ?P = "via_port_text port"
  let ?s = "a @ CHR '' '' # via_host_text h @ ?P @ t"
  have P: "CHR ''['' \<notin> set ?P" using q no_reserved by (auto simp: via_port_text_def split: option.splits)
  note hr = no_reserved [OF h(2)]
  have h1: "\<not> int (length h) < 1" using h(1) by (cases h) (auto simp: wf_token_def)
  show ?thesis
  proof (cases "CHR '':'' \<in> set h")
    case True
    let ?e = "p + 2 + int (length h)"
    have s: "?s = a @ CHR '' '' # CHR ''['' # h @ CHR '']'' # ?P @ t" using True by (simp add: via_host_text_def)
    have len: "int (length (via_host_text h)) = int (length h) + 2" using True by (simp add: via_host_text_def)
    have s1: "strchr ?s p (CHR ''['') = Inr (Some (p + 1))"
      unfolding s using strchr_first [OF p, of "CHR ''[''" "'' ''"] by simp
    have s2: "strchr ?s (p + 1) (CHR '']'') = Inr (Some ?e)"
      unfolding s using strchr_first [of "p + 1" "a @ '' ''" "CHR '']''" "CHR ''['' # h" "?P @ t"] p hr by simp
    have s3: "clrcopyO (int (length h) + 1) ((a @ '' ['') @ h @ CHR '']'' # ?P @ t) (p + 2) (int (length h)) = Inr (Some h)"
      by (rule clrcopy_token) (use p h in auto)
    have "\<exists>r'. strchr ?s ?e (CHR '':'') = Inr (if port = None then r' else Some (?e + 1)) \<and> (\<forall>q. r' = Some q \<longrightarrow> params \<le> q)"
    proof (cases port)
      case None
      with strchr_beyond [of ?e "a @ CHR '' '' # CHR ''['' # h" "CHR '':''" "'']''" t] p params len show ?thesis
        unfolding s by (auto simp: via_port_text_def)
    next
      case (Some q)
      with strchr_first [of ?e "a @ CHR '' '' # CHR ''['' # h" "CHR '':''" "'']''" "q @ t"] p show ?thesis
        unfolding s by (auto simp: via_port_text_def intro!: exI [of _ None])
    qed
    then obtain r' where r': "strchr ?s ?e (CHR '':'') = Inr (if port = None then r' else Some (?e + 1))" "\<And>q. r' = Some q \<Longrightarrow> params \<le> q"
      by blast
    have "via_port_value ((a @ CHR '' '' # CHR ''['' # h @ '']'') @ ?P @ t) (if port = None then r' else Some (?e + 1)) params = Inr (Some (port, ?e + 1))"
      by (rule via_port_value_at [OF _ _ _ refl r'(2)]) (use q p params len in auto)
    then have "via_port_value ?s (if port = None then r' else Some (?e + 1)) params = Inr (Some (port, ?e + 1))"
      unfolding s by simp
    moreover have "clrcopyO (?e - (p + 1)) ?s (p + 1 + 1) (?e - (p + 1) - 1) = Inr (Some h)"
      using s3 unfolding s by (simp add: algebra_simps)
    then have "via_ipv6host ?s p params = Inr (Some (Some h, if port = None then r' else Some (?e + 1)))"
      using s1 s2 r'(1) h1 params len by (simp add: via_ipv6host_def)
    ultimately show ?thesis
      by (simp only: via_host_port_def bindO_simps prod.case option.case)
  next
    case False
    let ?e = "p + 1 + int (length h)"
    have s: "?s = a @ CHR '' '' # h @ ?P @ t" using False by (simp add: via_host_text_def)
    have len: "int (length (via_host_text h)) = int (length h)" using False by (simp add: via_host_text_def)
    obtain b where b: "strchr ?s p (CHR ''['') = Inr b" "\<And>q. b = Some q \<Longrightarrow> params \<le> q"
      using strchr_beyond [OF p, of "CHR ''[''" "CHR '' '' # h @ ?P" t] P hr p params len unfolding s by (force simp: add.assoc)
    have "\<exists>r'. strchr ?s p (CHR '':'') = Inr (if port = None then r' else Some ?e) \<and> (\<forall>q. r' = Some q \<longrightarrow> params \<le> q)"
    proof (cases port)
      case None
      with strchr_beyond [OF p, of "CHR '':''" "CHR '' '' # h" t] False p params len show ?thesis
        unfolding s by (auto simp: via_port_text_def)
    next
      case (Some q)
      with strchr_first [OF p, of "CHR '':''" "CHR '' '' # h" "q @ t"] False p show ?thesis
        unfolding s by (auto simp: via_port_text_def intro!: exI [of _ None])
    qed
    then obtain r' where r': "strchr ?s p (CHR '':'') = Inr (if port = None then r' else Some ?e)" "\<And>q. r' = Some q \<Longrightarrow> params \<le> q"
      by blast
    have "via_port_value ((a @ CHR '' '' # h) @ ?P @ t) (if port = None then r' else Some ?e) params = Inr (Some (port, ?e))"
      by (rule via_port_value_at [OF _ _ _ refl r'(2)]) (use q p params len in auto)
    then have pv: "via_port_value ?s (if port = None then r' else Some ?e) params = Inr (Some (port, ?e))"
      unfolding s by simp
    have "clrcopyO (int (length h) + 1) ((a @ '' '') @ h @ ?P @ t) (p + 1) (int (length h)) = Inr (Some h)"
      by (rule clrcopy_token) (use p h in auto)
    then have cp: "clrcopyO (?e - p) ?s (p + 1) (?e - p - 1) = Inr (Some h)" unfolding s by (simp add: algebra_simps)
    have "via_ipv6host ?s p params = Inr (Some (None, if port = None then r' else Some ?e))"
      using b r'(1) by (cases b) (auto simp: via_ipv6host_def)
    moreover have "\<not> ?e - p < 2" using h1 by simp
    ultimately show ?thesis using pv cp
      by (simp only: via_host_port_def bindO_simps prod.case option.case if_False)
  qed
qed

lemma via_print_parse:
  assumes "wf_via v"
  shows "\<exists>s. via_print v = Inr (Some s) \<and> osip_via_parse s = Inr (Some v)"
proof -
  obtain ver prot h where v: "via_version v = Some ver" "via_protocol v = Some prot" "via_host v = Some h"
    and w: "wf_token ver" "CHR ''/'' \<notin> set ver" "wf_token prot" "CHR '' '' \<notin> set prot"
      "wf_token h" "list_all (\<lambda>c. c \<notin> set via_reserved) h"
    and ps: "list_all wf_via_param (via_params v)"
    using assms by (auto simp: wf_via_def split: option.splits)
  have q: "wf_token q \<and> list_all (\<lambda>c. c \<notin> set via_reserved) q" if "via_port v = Some q" for q
    using assms that by (simp add: wf_via_def)
  have c: "c \<noteq> [] \<and> CHR '')'' \<notin> set c \<and> CHR '';'' \<notin> set c" if "via_comment v = Some c" for c
    using assms that by (simp add: wf_via_def)
  let ?H = "via_host_text h" and ?P = "via_port_text (via_port v)" and ?S = "params_str (via_params v)" and ?C = "via_comment_text (via_comment v)"
  let ?a = "''SIP/'' @ ver @ CHR ''/'' # prot" and ?x = "?H @ ?P"
  let ?s = "?a @ CHR '' '' # ?x @ ?S @ ?C" and ?v = "3 :: int" and ?p = "4 + int (length ver)"
  let ?h = "int (length ?a)"
  have host: "?h = ?p + 1 + int (length prot)" by simp
  have H: "c \<notin> set ?H" if "c \<in> set ''();''" for c using no_reserved [OF w(6)] that by (auto simp: via_host_text_def)
  have P: "c \<notin> set ?P" if "c \<in> set ''();''" for c
    using q no_reserved that by (fastforce simp: via_port_text_def split: option.splits)
  have S: "CHR ''('' \<notin> set ?S \<and> CHR '')'' \<notin> set ?S"
    using ps by (auto simp: params_str_def list_all_iff wf_via_param_def)
  have C: "CHR '';'' \<notin> set ?C" using c by (auto simp: via_comment_text_def split: option.splits)
  have len1: "\<not> int (length ver) < 1" "\<not> int (length prot) < 1" using w by (cases ver; cases prot; simp add: wf_token_def)+
  have "strchr ?s 0 (CHR ''/'') = Inr (Some ?v)"
    using strchr_first [of 0 "[]" "CHR ''/''" "''SIP''" "ver @ CHR ''/'' # prot @ CHR '' '' # ?x @ ?S @ ?C"] by simp
  moreover have "strchr ?s (?v + 1) (CHR ''/'') = Inr (Some ?p)"
    using strchr_first [of "?v + 1" "''SIP/''" "CHR ''/''" ver "prot @ CHR '' '' # ?x @ ?S @ ?C"] w by simp
  moreover have "clrcopyO (int (length ver) + 1) (''SIP/'' @ ver @ CHR ''/'' # prot @ CHR '' '' # ?x @ ?S @ ?C) (?v + 1) (int (length ver)) = Inr (Some ver)"
    by (rule clrcopy_token) (use w in auto)
  moreover have "strchr ?s (?p + 1) (CHR '' '') = Inr (Some ?h)"
    using strchr_first [of "?p + 1" "''SIP/'' @ ver @ ''/''" "CHR '' ''" prot "?x @ ?S @ ?C"] w host by simp
  moreover have "clrcopyO (int (length prot) + 1) ((''SIP/'' @ ver @ ''/'') @ prot @ CHR '' '' # ?x @ ?S @ ?C) (?p + 1) (int (length prot)) = Inr (Some prot)"
    by (rule clrcopy_token) (use w in auto)
  moreover have "via_comment_part (?a @ CHR '' '' # (?x @ ?S) @ ?C) ?h = Inr (Some (via_comment v, ?h + 1 + int (length (?x @ ?S))))"
    by (rule via_comment_part_at) (use H P S c in auto)
  moreover have "via_params_part ?s ?h (?h + 1 + int (length ?x) + int (length ?S)) = Inr (Some (via_params v, ?h + 1 + int (length ?x)))"
    by (rule via_params_part_at) (use H P C ps in auto)
  moreover have "via_host_port (?a @ CHR '' '' # ?H @ ?P @ (?S @ ?C)) ?h (?h + 1 + int (length ?x)) w =
      Inr (Some (w\<lparr>via_host := Some h, via_port := via_port v\<rparr>))" for w
    by (rule via_host_port_at) (use w q in auto)
  ultimately have "osip_via_parse ?s = Inr (Some v)"
    using len1 v by (simp add: osip_via_parse_def via_protocol_end_def algebra_simps)
  moreover have "osip_via_to_str (Some v) = Some ?s"
    using v by (simp add: osip_via_to_str_def via_host_text_def via_port_text_def via_comment_text_def params_str_def split: option.split)
  ultimately show ?thesis by (simp add: via_print_eq)
qed

interpretation via: header_codec via_print osip_via_parse wf_via
  by unfold_locales (rule via_print_parse)

text \<open>
  Claim C30: a well-formed Via header is printed, the text is read back as the same header, and
  \<open>osip_via_match\<close>, which compares the texts, finds two well-formed headers equal exactly when they are.
\<close>

theorem via_roundtrip:
  assumes "wf_via v" "wf_via w"
  shows "(\<exists>s. osip_via_to_str (Some v) = Some s \<and> via_print v = Inr (Some s) \<and> osip_via_parse s = Inr (Some v)) \<and>
    (osip_via_match (Some v) (Some w) = 0 \<longleftrightarrow> v = w)"
proof
  show *: "\<exists>s. osip_via_to_str (Some v) = Some s \<and> via_print v = Inr (Some s) \<and> osip_via_parse s = Inr (Some v)"
    using via.print_parse [OF assms(1)] by (simp add: via_print_eq)
  have "osip_via_match (Some v) (Some w) = 0 \<longleftrightarrow> via_print v = via_print w"
    using via.print_defined [OF assms(1)] via.print_defined [OF assms(2)] by (auto simp: osip_via_match_def via_print_eq split: if_splits)
  then show "osip_via_match (Some v) (Some w) = 0 \<longleftrightarrow> v = w"
    using via.print_inject [OF assms] by simp
qed

text \<open>A Via with an address in brackets, a port, parameters and a comment.\<close>

definition full_via :: via where
  "full_via = \<lparr>via_version = Some ''2.0'', via_protocol = Some ''UDP'', via_host = Some ''fe80::1'', via_port = Some ''5060'',
     via_comment = Some ''(a:b/c'', via_params = [\<lparr>gname = ''branch'', gvalue = Some ''z9hG4bK7''\<rparr>, \<lparr>gname = ''rport'', gvalue = None\<rparr>]\<rparr>"

theorem via_roundtrip_witness:
  "osip_via_parse ''SIP/2.0/UDP [fe80::1]:5060;branch=z9hG4bK7;rport ((a:b/c)'' = Inr (Some full_via) \<and>
    osip_via_match (Some full_via) (Some (sample_via ''z9hG4bK7'')) \<noteq> 0"
proof -
  have "wf_via full_via" "wf_via (sample_via ''z9hG4bK7'')" "full_via \<noteq> sample_via ''z9hG4bK7''"
    "osip_via_to_str (Some full_via) = Some ''SIP/2.0/UDP [fe80::1]:5060;branch=z9hG4bK7;rport ((a:b/c)''"
    by code_simp+
  with via_roundtrip [of full_via "sample_via ''z9hG4bK7''"] show ?thesis by simp
qed

subsection \<open>Content-Type and the headers with one element\<close>

lemma params_from_text:
  assumes "list_all wf_generic ps" "p = int (length a)" "CHR '';'' \<notin> set x"
  shows "strchr (a @ x @ params_str ps) p (CHR '';'') = Inr (if ps = [] then None else Some (p + int (length x)))"
    "params_from (a @ x @ params_str ps) (if ps = [] then None else Some (p + int (length x))) = Inr (Some ps)"
proof -
  show "strchr (a @ x @ params_str ps) p (CHR '';'') = Inr (if ps = [] then None else Some (p + int (length x)))"
  proof (cases ps)
    case Nil
    with strchr_suffix [OF assms(2), of x "CHR '';''"] assms(3) show ?thesis by simp
  next
    case (Cons u us)
    with strchr_first [OF assms(2,3)] show ?thesis by simp
  qed
  show "params_from (a @ x @ params_str ps) (if ps = [] then None else Some (p + int (length x))) = Inr (Some ps)"
    using parseall_params_str [of ps "p + int (length x)" "a @ x" "[]"] assms by (simp add: params_from_def)
qed

definition wf_element :: "element \<Rightarrow> bool" where
  "wf_element e \<longleftrightarrow> (case elt_element e of None \<Rightarrow> False | Some v \<Rightarrow> wf_token v \<and> CHR '';'' \<notin> set v) \<and> list_all wf_generic (elt_params e)"

lemma element_print:
  assumes "elt_element e = Some v"
  shows "osip_accept_encoding_to_str e = Inr (Some (v @ params_str (elt_params e)))"
proof -
  obtain len' where "foldR generic_param_print (elt_params e) (length v + 2, v) = Inr (len', v @ params_str (elt_params e))"
    using generic_params_print [of v "length v + 2" "elt_params e"] by auto
  with assms show ?thesis by (simp add: osip_accept_encoding_to_str_def osip_call_info_to_str_def strcat_to_eq)
qed

lemma element_print_parse:
  assumes "wf_element e"
  shows "\<exists>s. osip_accept_encoding_to_str e = Inr (Some s) \<and> osip_accept_encoding_parse s = Inr (Some e)"
proof -
  obtain v where v: "elt_element e = Some v" "wf_token v" "CHR '';'' \<notin> set v" and ps: "list_all wf_generic (elt_params e)"
    using assms by (auto simp: wf_element_def split: option.splits)
  let ?s = "v @ params_str (elt_params e)"
  note pf = params_from_text [OF ps _ v(3), of 0 "[]", simplified]
  have "or_end ?s (if elt_params e = [] then None else Some (int (length v))) = int (length v)"
    by (simp add: or_end_def strend_def)
  moreover have "clrcopyO (int (length v) + 1) ([] @ ?s) 0 (int (length v)) = Inr (Some v)"
    by (rule clrcopy_token) (use v in auto)
  moreover have "\<not> int (length v) + 1 < 2" using v by (cases v) (auto simp: wf_token_def)
  ultimately have "osip_accept_encoding_parse ?s = Inr (Some e)"
    using pf v(1) by (cases "elt_params e = []") (simp_all add: osip_accept_encoding_parse_def Let_def)
  with element_print [OF v(1)] show ?thesis by blast
qed

interpretation element: header_codec osip_accept_encoding_to_str osip_accept_encoding_parse wf_element
  by unfold_locales (rule element_print_parse)



section \<open>Quoting\<close>

text \<open>What \<open>osip_enquote\<close> quotes, \<open>osip_dequote\<close> gives back, with line ends turned into blanks.\<close>

lemma length_enquoted: "length (concat (map enquote_char s)) \<le> length s * 2"
  by (induction s) (auto simp: enquote_char_def)

lemma enquote_eq: "osip_enquote s = Inr ([CHR 0x22] @ concat (map enquote_char s) @ [CHR 0x22])"
  using length_enquoted [of s] by (simp add: osip_enquote_def strcat_to_eq)

lemma dequote_enquoted:
  "dequote_loop (concat (map enquote_char s)) = map (\<lambda>c. if c = LF \<or> c = CR then CHR '' '' else c) s"
  by (induction s) (auto simp: enquote_char_def)

lemma enquote_dequote:
  "\<exists>t. osip_enquote s = Inr t \<and> osip_dequote t = map (\<lambda>c. if c = LF \<or> c = CR then CHR '' '' else c) s"
  by (simp add: enquote_eq osip_dequote_def dequote_enquoted butlast_append)

section \<open>Every header that is read can be printed\<close>

text \<open>Reading the text does not fault, and printing what was read does not either.\<close>

definition reads_and_prints :: "(string \<Rightarrow> 'a option res) \<Rightarrow> ('a \<Rightarrow> 'b res) \<Rightarrow> string \<Rightarrow> bool" where
  "reads_and_prints parse print s = (case parse s of Inl _ \<Rightarrow> False | Inr None \<Rightarrow> True
     | Inr (Some x) \<Rightarrow> (case print x of Inl _ \<Rightarrow> False | Inr _ \<Rightarrow> True))"

lemma reads_and_printsI: "ensures (parse s) (\<lambda>r. \<forall>x. r = Some x \<longrightarrow> safe (print x)) \<Longrightarrow> reads_and_prints parse print s"
  by (auto simp: reads_and_prints_def ensures_iff split: option.splits)

lemma reads_and_prints_always: "safe (parse s) \<Longrightarrow> (\<And>x. safe (print x)) \<Longrightarrow> reads_and_prints parse print s"
  by (rule reads_and_printsI) (auto elim!: ensures_mono)

lemma cseq_to_str_safe: "safe (osip_cseq_to_str c)"
  by (auto simp: osip_cseq_to_str_def strcat_to_eq split: option.splits)

lemma call_id_print_total: "safe (call_id_print c)"
  by (auto simp: call_id_print_def strcat_to_eq split: option.splits)

lemma from_parsed: "ensures (osip_from_parse s) (\<lambda>r. \<forall>f. r = Some f \<longrightarrow> (\<exists>u. from_url f = Some u \<and> parsed (0, u)))"
  unfolding osip_from_parse_def
  by (auto simp: wp_simps intro!: wp_intros wp_prod split: option.splits)

lemma from_to_str_text:
  assumes "from_url f = Some u" "parsed (0, u)"
  shows "osip_from_to_str f = Inr (Some ((case displayname f of None \<Rightarrow> [] | Some d \<Rightarrow> d @ '' '') @ ''<'' @ uri_text u @ ''>'' @ params_str (gen_params f)))"
proof -
  let ?d = "case displayname f of None \<Rightarrow> [] | Some d \<Rightarrow> d @ '' ''"
  let ?len = "length (uri_text u) + (case displayname f of None \<Rightarrow> 0 | Some d \<Rightarrow> length d) + 5" and ?b = "?d @ ''<'' @ uri_text u @ ''>''"
  have "osip_uri_to_str u = Inr (Some (uri_text u))"
    by (rule to_str_text) (use assms(2) in \<open>auto simp: parsed_def\<close>)
  moreover have lt: "length ?b < ?len" by (simp split: option.splits)
  moreover obtain len' where "foldR generic_param_print (gen_params f) (?len, ?b) = Inr (len', ?b @ params_str (gen_params f))"
    using generic_params_print [OF lt] by blast
  ultimately show ?thesis using assms(1) by (simp add: osip_from_to_str_def strcat_to_eq)
qed

lemma from_reads_and_prints: "reads_and_prints osip_from_parse osip_from_to_str s"
  by (rule reads_and_printsI, rule ensures_mono [OF from_parsed]) (auto simp: from_to_str_text)

lemma contact_reads_and_prints: "reads_and_prints osip_contact_parse osip_contact_to_str s"
proof (cases "take 1 s = ''*''")
  case False
  then have "osip_contact_parse s = osip_from_parse s" by (simp add: osip_contact_parse_def)
  moreover have "safe (osip_contact_to_str x)" if "from_url x = Some u" "parsed (0, u)" for x u
    using from_to_str_text [OF that] by (auto simp: osip_contact_to_str_def split: option.splits)
  ultimately show ?thesis
    by (intro reads_and_printsI, simp only:, intro ensures_mono [OF from_parsed]) auto
qed (simp add: osip_contact_parse_def osip_contact_to_str_def reads_and_prints_def)

lemma content_type_parts: "ensures (osip_content_type_parse s) (\<lambda>r. \<forall>c. r = Some c \<longrightarrow> (ct_type c = None) = (ct_subtype c = None))"
  unfolding osip_content_type_parse_def Let_def or_end_def
  by (auto simp: wp_simps strend_def osip_content_type_init_def intro!: wp_intros split: option.splits)

lemma accept_to_str_safe: "(ct_type c = None) = (ct_subtype c = None) \<Longrightarrow> safe (osip_accept_to_str c)"
  by (auto simp: osip_accept_to_str_def Let_def strcat_to_eq content_type_params_ok split: option.splits)

lemma authentication_info_to_str_safe: "safe (osip_authentication_info_to_str a)"
  by (cases "ainfo_qop_options a"; cases "ainfo_nextnonce a"; cases "ainfo_rspauth a"; cases "ainfo_cnonce a"; cases "ainfo_nonce_count a")
    (simp_all add: osip_authentication_info_to_str_def field_size_def append_info_def strcat_to_eq)


end
