(* ===== verification/Osip_Sip.thy ===== *)
theory Osip_Sip
  imports Osip_Auth
begin

text \<open>
  A whole SIP message (osipparser2: osip_message.c, osip_message.h, the \<open>osip_message_set_\<close> function of
  each header, osip_parser_cfg.c): its structure, storing the value of one header, and the table that
  leads from the name of a header to its function.

  A setter returns -1 or 0 and the message; a text of \<open>None\<close> is a null pointer.
\<close>

section \<open>The message\<close>

record osip_body =
  body_text :: string
  body_length :: int
  body_headers :: "header list"
  body_content_type :: "content_type option"

record sip = message +
  reason_phrase :: "string option"
  accepts :: "content_type list"
  accept_encodings :: "element list"
  accept_languages :: "element list"
  alert_infos :: "element list"
  allows :: "string list"
  authentication_infos :: "authentication_info list"
  authorizations :: "authorization list"
  call_infos :: "element list"
  content_encodings :: "string list"
  content_length :: "string option"
  msg_content_type :: "content_type option"
  error_infos :: "element list"
  mime_version :: "string option"
  proxy_authenticates :: "www_authenticate list"
  proxy_authentication_infos :: "authentication_info list"
  proxy_authorizations :: "authorization list"
  www_authenticates :: "www_authenticate list"
  sip_headers :: "header list"
  bodies :: "osip_body list"
  message_property :: int
  message_buffer :: "string option"

definition osip_message_init :: sip where
  "osip_message_init = \<lparr>status_code = 0, sip_method = None, sip_version = None, req_uri = None, vias = [], routes = [],
     record_routes = [], msg_contacts = [], msg_from = None, msg_to = None, msg_call_id = None, msg_cseq = None,
     reason_phrase = None, accepts = [], accept_encodings = [], accept_languages = [], alert_infos = [], allows = [],
     authentication_infos = [], authorizations = [], call_infos = [], content_encodings = [], content_length = None,
     msg_content_type = None, error_infos = [], mime_version = None, proxy_authenticates = [], proxy_authentication_infos = [],
     proxy_authorizations = [], www_authenticates = [], sip_headers = [], bodies = [], message_property = 3,
     message_buffer = None\<rparr>"

section \<open>Storing a header\<close>

type_synonym setter = "sip \<Rightarrow> string option \<Rightarrow> (int \<times> sip) res"

definition no_value :: "string option \<Rightarrow> bool" where
  "no_value v \<longleftrightarrow> v = None \<or> v = Some []"

text \<open>
  A header that may be there once: a second one is an error. The property is set before the value is
  read, which may fail.
\<close>

definition set_once :: "(string \<Rightarrow> 'a option res) \<Rightarrow> (sip \<Rightarrow> 'a option) \<Rightarrow> ('a option \<Rightarrow> sip \<Rightarrow> sip) \<Rightarrow> setter" where
  "set_once parse get put m v =
     (if no_value v then Inr (0, m)
      else if get m \<noteq> None then Inr (- 1, m)
      else let m = m\<lparr>message_property := 2\<rparr> in
        bindR (parse (the v)) (\<lambda>r. Inr (if r = None then - 1 else 0, put r m)))"

text \<open>A header that may be there many times: \<open>osip_list_add\<close> at the end.\<close>

definition set_in_list :: "(string \<Rightarrow> 'a option res) \<Rightarrow> ('a \<Rightarrow> sip \<Rightarrow> sip) \<Rightarrow> setter" where
  "set_in_list parse add m v =
     (if no_value v then Inr (0, m)
      else bindR (parse (the v)) (\<lambda>r. Inr (case r of None \<Rightarrow> (- 1, m) | Some x \<Rightarrow> (0, add x (m\<lparr>message_property := 2\<rparr>)))))"

definition osip_message_set_to :: setter where
  "osip_message_set_to = set_once osip_from_parse msg_to (\<lambda>x. msg_to_update (\<lambda>_. x))"

definition osip_message_set_from :: setter where
  "osip_message_set_from = set_once osip_from_parse msg_from (\<lambda>x. msg_from_update (\<lambda>_. x))"

definition osip_message_set_call_id :: setter where
  "osip_message_set_call_id = set_once osip_call_id_parse msg_call_id (\<lambda>x. msg_call_id_update (\<lambda>_. x))"

definition osip_message_set_cseq :: setter where
  "osip_message_set_cseq = set_once osip_cseq_parse msg_cseq (\<lambda>x. msg_cseq_update (\<lambda>_. x))"

definition osip_message_set_content_length :: setter where
  "osip_message_set_content_length = set_once osip_content_length_parse content_length (\<lambda>x. content_length_update (\<lambda>_. x))"

definition osip_message_set_mime_version :: setter where
  "osip_message_set_mime_version = set_once osip_content_length_parse mime_version (\<lambda>x. mime_version_update (\<lambda>_. x))"

text \<open>Content-Type looks for an earlier one first, and does not report a value that cannot be read.\<close>

definition osip_message_set_content_type :: setter where
  "osip_message_set_content_type m v =
     (if msg_content_type m \<noteq> None then Inr (- 1, m)
      else if no_value v then Inr (0, m)
      else bindR (osip_content_type_parse (the v)) (\<lambda>r. Inr (0, m\<lparr>message_property := 2, msg_content_type := r\<rparr>)))"

text \<open>Accept takes an empty value.\<close>

definition osip_message_set_accept :: setter where
  "osip_message_set_accept m v =
     bindR (case v of None \<Rightarrow> Inr (Some osip_content_type_init) | Some s \<Rightarrow> osip_content_type_parse s) (\<lambda>r.
       Inr (case r of None \<Rightarrow> (- 1, m) | Some x \<Rightarrow> (0, m\<lparr>message_property := 2, accepts := accepts m @ [x]\<rparr>)))"

definition osip_message_set_via :: setter where
  "osip_message_set_via = set_in_list osip_via_parse (\<lambda>x. vias_update (\<lambda>l. l @ [Some x]))"

definition osip_message_set_contact :: setter where
  "osip_message_set_contact = set_in_list osip_contact_parse (\<lambda>x. msg_contacts_update (\<lambda>l. l @ [Some x]))"

definition osip_message_set_route :: setter where
  "osip_message_set_route = set_in_list osip_from_parse (\<lambda>x. routes_update (\<lambda>l. l @ [Some x]))"

definition osip_message_set_record_route :: setter where
  "osip_message_set_record_route = set_in_list osip_from_parse (\<lambda>x. record_routes_update (\<lambda>l. l @ [Some x]))"

definition osip_message_set_accept_encoding :: setter where
  "osip_message_set_accept_encoding = set_in_list osip_accept_encoding_parse (\<lambda>x. accept_encodings_update (\<lambda>l. l @ [x]))"

definition osip_message_set_accept_language :: setter where
  "osip_message_set_accept_language = set_in_list osip_accept_encoding_parse (\<lambda>x. accept_languages_update (\<lambda>l. l @ [x]))"

definition osip_message_set_alert_info :: setter where
  "osip_message_set_alert_info = set_in_list osip_call_info_parse (\<lambda>x. alert_infos_update (\<lambda>l. l @ [x]))"

definition osip_message_set_error_info :: setter where
  "osip_message_set_error_info = set_in_list osip_call_info_parse (\<lambda>x. error_infos_update (\<lambda>l. l @ [x]))"

definition osip_message_set_call_info :: setter where
  "osip_message_set_call_info = set_in_list osip_call_info_parse (\<lambda>x. call_infos_update (\<lambda>l. l @ [x]))"

definition osip_message_set_allow :: setter where
  "osip_message_set_allow = set_in_list osip_content_length_parse (\<lambda>x. allows_update (\<lambda>l. l @ [x]))"

definition osip_message_set_content_encoding :: setter where
  "osip_message_set_content_encoding = set_in_list osip_content_length_parse (\<lambda>x. content_encodings_update (\<lambda>l. l @ [x]))"

definition osip_message_set_www_authenticate :: setter where
  "osip_message_set_www_authenticate = set_in_list osip_www_authenticate_parse (\<lambda>x. www_authenticates_update (\<lambda>l. l @ [x]))"

definition osip_message_set_proxy_authenticate :: setter where
  "osip_message_set_proxy_authenticate = set_in_list osip_www_authenticate_parse (\<lambda>x. proxy_authenticates_update (\<lambda>l. l @ [x]))"

definition osip_message_set_authorization :: setter where
  "osip_message_set_authorization = set_in_list osip_authorization_parse (\<lambda>x. authorizations_update (\<lambda>l. l @ [x]))"

definition osip_message_set_proxy_authorization :: setter where
  "osip_message_set_proxy_authorization = set_in_list osip_authorization_parse (\<lambda>x. proxy_authorizations_update (\<lambda>l. l @ [x]))"

definition osip_message_set_authentication_info :: setter where
  "osip_message_set_authentication_info =
     set_in_list osip_authentication_info_parse (\<lambda>x. authentication_infos_update (\<lambda>l. l @ [x]))"

definition osip_message_set_proxy_authentication_info :: setter where
  "osip_message_set_proxy_authentication_info =
     set_in_list osip_authentication_info_parse (\<lambda>x. proxy_authentication_infos_update (\<lambda>l. l @ [x]))"

text \<open>Any other header.\<close>

definition osip_message_set_header :: "sip \<Rightarrow> string \<Rightarrow> string option \<Rightarrow> (int \<times> sip) res" where
  "osip_message_set_header m name v =
     bindR (header_init name v) (\<lambda>h. Inr (0, m\<lparr>message_property := 2, sip_headers := sip_headers m @ [h]\<rparr>))"

section \<open>The table of the headers\<close>

record config =
  cfg_hname :: string
  cfg_setheader :: setter
  cfg_ignored_when_invalid :: bool

definition cfg :: "string \<Rightarrow> setter \<Rightarrow> bool \<Rightarrow> config" where
  "cfg n f i = \<lparr>cfg_hname = n, cfg_setheader = f, cfg_ignored_when_invalid = i\<rparr>"

definition pconfig :: "config list" where
  "pconfig =
     [cfg ''accept'' osip_message_set_accept True,
      cfg ''accept-encoding'' osip_message_set_accept_encoding True,
      cfg ''accept-language'' osip_message_set_accept_language True,
      cfg ''alert-info'' osip_message_set_alert_info True,
      cfg ''allow'' osip_message_set_allow True,
      cfg ''authentication-info'' osip_message_set_authentication_info True,
      cfg ''authorization'' osip_message_set_authorization True,
      cfg ''c'' osip_message_set_content_type False,
      cfg ''call-id'' osip_message_set_call_id False,
      cfg ''call-info'' osip_message_set_call_info True,
      cfg ''contact'' osip_message_set_contact False,
      cfg ''content-encoding'' osip_message_set_content_encoding True,
      cfg ''content-length'' osip_message_set_content_length False,
      cfg ''content-type'' osip_message_set_content_type False,
      cfg ''cseq'' osip_message_set_cseq False,
      cfg ''e'' osip_message_set_content_encoding True,
      cfg ''error-info'' osip_message_set_error_info True,
      cfg ''f'' osip_message_set_from False,
      cfg ''from'' osip_message_set_from False,
      cfg ''i'' osip_message_set_call_id False,
      cfg ''l'' osip_message_set_content_length False,
      cfg ''m'' osip_message_set_contact False,
      cfg ''mime-version'' osip_message_set_mime_version True,
      cfg ''proxy-authenticate'' osip_message_set_proxy_authenticate True,
      cfg ''proxy-authentication-info'' osip_message_set_proxy_authentication_info True,
      cfg ''proxy-authorization'' osip_message_set_proxy_authorization True,
      cfg ''record-route'' osip_message_set_record_route False,
      cfg ''route'' osip_message_set_route False,
      cfg ''t'' osip_message_set_to False,
      cfg ''to'' osip_message_set_to False,
      cfg ''v'' osip_message_set_via False,
      cfg ''via'' osip_message_set_via False,
      cfg ''www-authenticate'' osip_message_set_www_authenticate True]"

text \<open>
  The hash of a name: the characters are signed, the arithmetic is that of \<open>unsigned int\<close>.
\<close>

definition signed_char :: "char \<Rightarrow> int" where
  "signed_char c = (if (of_char c :: int) < 128 then of_char c else of_char c - 256)"

definition osip_hash :: "string \<Rightarrow> int" where
  "osip_hash s = foldl (\<lambda>hash c. (hash * 32 mod 2 ^ 32 + hash + signed_char c) mod 2 ^ 32) 5381 s"

definition hash_of :: "string \<Rightarrow> nat" where
  "hash_of s = nat (osip_hash s mod 150)"

text \<open>Filling the table \<open>hdr_ref_table\<close>; \<open>None\<close> where two names meet.\<close>

definition enter_header :: "string list \<Rightarrow> nat \<Rightarrow> int list option \<Rightarrow> int list option" where
  "enter_header names i t =
     (case t of None \<Rightarrow> None
      | Some t \<Rightarrow> let h = hash_of (names ! i) in if t ! h = - 1 then Some (t[h := int i]) else None)"

definition parser_init :: "int list option" where
  "parser_init = fold (enter_header (map cfg_hname pconfig)) [0..<length pconfig] (Some (replicate 150 (- 1)))"

definition osip_message_is_known_header :: "string \<Rightarrow> int" where
  "osip_message_is_known_header name =
     (case parser_init of None \<Rightarrow> - 1
      | Some t \<Rightarrow> let index = t ! hash_of name in
          if index \<noteq> - 1 \<and> cfg_hname (pconfig ! nat index) = name then index else - 1)"

definition osip_message_call_method :: "int \<Rightarrow> sip \<Rightarrow> string option \<Rightarrow> (int \<times> sip) res" where
  "osip_message_call_method i m v =
     bindR (cfg_setheader (pconfig ! nat i) m v) (\<lambda>(err, m).
       Inr (if cfg_ignored_when_invalid (pconfig ! nat i) then 0 else err, m))"

definition osip_message_set__header :: "sip \<Rightarrow> string \<Rightarrow> string option \<Rightarrow> (int \<times> sip) res" where
  "osip_message_set__header m name v =
     (let my_index = osip_message_is_known_header name in
      if 0 \<le> my_index then bindR (osip_message_call_method my_index m v) (\<lambda>(ret, m). Inr (if ret = - 1 then - 1 else 0, m))
      else bindR (osip_message_set_header m name v) (\<lambda>(_, m). Inr (0, m)))"

section \<open>The look-up finds the names of the table\<close>

definition header_names :: "string list" where
  "header_names = [''accept'', ''accept-encoding'', ''accept-language'', ''alert-info'', ''allow'', ''authentication-info'',
     ''authorization'', ''c'', ''call-id'', ''call-info'', ''contact'', ''content-encoding'', ''content-length'',
     ''content-type'', ''cseq'', ''e'', ''error-info'', ''f'', ''from'', ''i'', ''l'', ''m'', ''mime-version'',
     ''proxy-authenticate'', ''proxy-authentication-info'', ''proxy-authorization'', ''record-route'', ''route'',
     ''t'', ''to'', ''v'', ''via'', ''www-authenticate'']"

lemma pconfig_names: "map cfg_hname pconfig = header_names"
  by (simp add: pconfig_def cfg_def header_names_def)

lemma length_pconfig: "length pconfig = 33"
  by (simp add: pconfig_def)

definition name_hashes :: "nat list" where
  "name_hashes = map hash_of header_names"

lemma name_hashes_distinct: "distinct name_hashes \<and> list_all (\<lambda>h. h < 150) name_hashes"
  by code_simp

text \<open>The table holds, for the hash of each name, its index.\<close>

definition hash_table_for :: "string list \<Rightarrow> nat \<Rightarrow> int list \<Rightarrow> bool" where
  "hash_table_for names n t \<longleftrightarrow> length t = 150 \<and>
     (\<forall>h<150. t ! h = - 1 \<and> (\<forall>i<n. hash_of (names ! i) \<noteq> h) \<or> (\<exists>i<n. hash_of (names ! i) = h \<and> t ! h = int i))"

lemma enter_headers:
  assumes "distinct (map hash_of names)" "list_all (\<lambda>n. hash_of n < 150) names" "n \<le> length names"
  shows "\<exists>t. fold (enter_header names) [0..<n] (Some (replicate 150 (- 1))) = Some t \<and> hash_table_for names n t"
  using assms(3)
proof (induction n)
  case 0
  show ?case by (simp add: hash_table_for_def)
next
  case (Suc n)
  then obtain t where t: "fold (enter_header names) [0..<n] (Some (replicate 150 (- 1))) = Some t" "hash_table_for names n t" by auto
  let ?h = "hash_of (names ! n)"
  have h: "?h < 150" using assms(2) Suc.prems by (simp add: list_all_length)
  have new: "hash_of (names ! i) \<noteq> ?h" if "i < n" for i
    using assms(1) that Suc.prems nth_eq_iff_index_eq [of "map hash_of names" i n] by auto
  with t(2) h have "t ! ?h = - 1" by (auto simp: hash_table_for_def)
  moreover have "hash_table_for names (Suc n) (t[?h := int n])"
    unfolding hash_table_for_def
  proof (intro conjI allI impI)
    fix k :: nat
    assume "k < 150"
    then show "t[?h := int n] ! k = - 1 \<and> (\<forall>i<Suc n. hash_of (names ! i) \<noteq> k) \<or>
        (\<exists>i<Suc n. hash_of (names ! i) = k \<and> t[?h := int n] ! k = int i)"
      using t(2) new h by (cases "k = ?h") (auto simp: hash_table_for_def less_Suc_eq)
  qed (use t(2) in \<open>simp add: hash_table_for_def\<close>)
  moreover have "fold (enter_header names) [0..<Suc n] s = enter_header names n (fold (enter_header names) [0..<n] s)" for s
    by simp
  ultimately show ?case using t(1) by (simp only:) (simp add: enter_header_def Let_def)
qed

lemma hash_of_less: "hash_of s < 150"
  by (simp add: hash_of_def)

lemma parser_init_table: "\<exists>t. parser_init = Some t \<and> hash_table_for header_names (length header_names) t"
  unfolding parser_init_def pconfig_names length_map [of cfg_hname, symmetric]
  by (rule enter_headers) (use name_hashes_distinct in \<open>simp_all add: name_hashes_def hash_of_less list_all_iff\<close>)

lemma header_names_distinct: "distinct header_names"
  by code_simp

lemma find_nth:
  assumes "distinct xs" "i < length xs"
  shows "find (\<lambda>j. xs ! j = xs ! i) [0..<length xs] = Some i"
  unfolding find_Some_iff using assms by (auto simp: nth_eq_iff_index_eq intro!: exI [of _ i])

text \<open>
  Claim C27: the hash table of the headers can be built without a conflict, and the look-up in it gives for
  every name what a search through the list of the headers gives.
\<close>

theorem header_lookup:
  "parser_init \<noteq> None \<and>
   osip_message_is_known_header name =
     (case find (\<lambda>i. cfg_hname (pconfig ! i) = name) [0..<length pconfig] of None \<Rightarrow> - 1 | Some i \<Rightarrow> int i)"
proof -
  let ?n = "length header_names"
  obtain t where t: "parser_init = Some t" "hash_table_for header_names ?n t" using parser_init_table by blast
  have names: "cfg_hname (pconfig ! i) = header_names ! i" if "i < ?n" for i
    using that arg_cong [OF pconfig_names, of "\<lambda>l. l ! i"] arg_cong [OF pconfig_names, of length] by simp
  have n: "length pconfig = ?n" using arg_cong [OF pconfig_names, of length] by simp
  have cell: "t ! hash_of name = - 1 \<and> (\<forall>i<?n. hash_of (header_names ! i) \<noteq> hash_of name) \<or>
      (\<exists>i<?n. hash_of (header_names ! i) = hash_of name \<and> t ! hash_of name = int i)"
    using t(2) hash_of_less [of name] unfolding hash_table_for_def by blast
  have find: "find (\<lambda>i. cfg_hname (pconfig ! i) = name) [0..<length pconfig] = find (\<lambda>i. header_names ! i = name) [0..<?n]"
    unfolding n by (rule find_cong) (simp_all add: names)
  show ?thesis
  proof (cases "name \<in> set header_names")
    case True
    then obtain i where i: "i < ?n" "name = header_names ! i" by (auto simp: in_set_conv_nth)
    have uniq: "j = i" if "j < ?n" "hash_of (header_names ! j) = hash_of name" for j
      using name_hashes_distinct that i nth_eq_iff_index_eq [of name_hashes j i] by (simp add: name_hashes_def)
    with cell i have "t ! hash_of name = int i" by blast
    then have "osip_message_is_known_header name = int i"
      using names [OF i(1)] by (simp add: osip_message_is_known_header_def Let_def t(1) i(2))
    then show ?thesis
      using find_nth [OF header_names_distinct i(1)] by (simp add: find [unfolded i(2)] t(1) i(2))
  next
    case False
    then have "find (\<lambda>i. header_names ! i = name) [0..<?n] = None"
      by (auto simp: find_None_iff in_set_conv_nth)
    moreover have "\<not> (t ! hash_of name \<noteq> - 1 \<and> cfg_hname (pconfig ! nat (t ! hash_of name)) = name)"
      using cell False names by (auto simp: in_set_conv_nth)
    ultimately show ?thesis by (auto simp: osip_message_is_known_header_def Let_def t(1) find)
  qed
qed

end
