(* ===== verification/Osip_Parse.thy ===== *)
theory Osip_Parse
  imports Osip_Sip
begin

text \<open>
  Reading a SIP message (osipparser2: osip_message_parse.c, osip_body.c).

  The message is copied into a block of two bytes more than its length, with a NUL behind it; the last
  byte is not written. The block is the list of its characters up to that NUL, which may hold other NULs
  (a body is any bytes). The start line and the headers are read from the C string in front of the first
  NUL; the bodies are found by their lengths.
\<close>

section \<open>Unfolding the lines\<close>

definition peek :: "string \<Rightarrow> nat \<Rightarrow> char res" where
  "peek s i = (if i < length s then Inr (s ! i) else Inl Uninitialised_read)"

definition end_of_headers :: "char \<Rightarrow> char \<Rightarrow> char \<Rightarrow> char \<Rightarrow> bool" where
  "end_of_headers c0 c1 c2 c3 \<longleftrightarrow>
     c0 = CR \<and> c1 = LF \<and> c2 = CR \<and> c3 = LF \<or> c0 = CR \<and> c1 = CR \<or> c0 = LF \<and> c1 = LF"

definition folded :: "char \<Rightarrow> char \<Rightarrow> char \<Rightarrow> bool" where
  "folded c0 c1 c2 \<longleftrightarrow>
     c0 = CR \<and> c1 = LF \<and> sp_or_tab c2 \<or> c0 = CR \<and> sp_or_tab c1 \<or> c0 = LF \<and> sp_or_tab c1"

text \<open>
  The loop of \<open>osip_util_replace_all_lws\<close> over the rest of the block. Behind the blanks of a folded line
  it goes on with the next but one character; when the message ends there, that is the byte behind the NUL.
\<close>

function replace_all_lws :: "string \<Rightarrow> string res" where
  "replace_all_lws s =
     bindR (peek s 0) (\<lambda>c0. if c0 = NUL then Inr s else
     bindR (peek s 1) (\<lambda>c1. if c1 = NUL then Inr s else
     bindR (peek s 2) (\<lambda>c2. if c2 = NUL then Inr s else
     bindR (peek s 3) (\<lambda>c3. if c3 = NUL then Inr s else
     if end_of_headers c0 c1 c2 c3 then Inr s
     else if folded c0 c1 c2 then
       let n = 2 + length (takeWhile sp_or_tab (drop 2 s)) in
       bindR (peek s n) (\<lambda>c. bindR (replace_all_lws (drop (n + 1) s)) (\<lambda>t. Inr (replicate n (CHR '' '') @ c # t)))
     else bindR (replace_all_lws (drop 1 s)) (\<lambda>t. Inr (c0 # t))))))"
  by pat_completeness auto

termination replace_all_lws
  by (relation "measure length") (auto simp: peek_def split: if_splits)

declare replace_all_lws.simps [simp del]

section \<open>Line ends\<close>

definition cr_lf :: "char \<Rightarrow> bool" where
  "cr_lf c \<longleftrightarrow> c = CR \<or> c = LF"

text \<open>The start of the next line; \<open>None\<close> without a line end, or when the next line starts with a blank.\<close>

definition find_next_crlf :: "string \<Rightarrow> int \<Rightarrow> int option res" where
  "find_next_crlf s p =
     bindR (skip_chars (\<lambda>c. \<not> cr_lf c) s p) (\<lambda>soh. bindR (rd s soh) (\<lambda>c0.
     if c0 = NUL then Inr None
     else bindR (rd s (soh + 1)) (\<lambda>c1.
       let soh = (if c0 = CR \<and> c1 = LF then soh + 1 else soh) in
       bindR (rd s (soh + 1)) (\<lambda>c. Inr (if sp_or_tab c then None else Some (soh + 1))))))"

lemma skip_chars_reads: "skip_chars P s p = Inr q \<Longrightarrow> rd s q = Inr c \<Longrightarrow> c \<noteq> NUL \<Longrightarrow> 0 \<le> p \<and> p \<le> q \<and> q < int (length s)"
  using skip_chars_bounds [of P s p q] by (auto simp: rd_def split: if_splits)

lemma find_next_crlf_moves: "find_next_crlf s p = Inr (Some q) \<Longrightarrow> 0 \<le> p \<and> p < q \<and> q \<le> int (length s)"
  by (auto simp: find_next_crlf_def bindR_eq_Inr Let_def rd_def dest!: skip_chars_bounds split: if_splits)

text \<open>The start of the line behind the next empty line.\<close>

function find_next_crlfcrlf :: "string \<Rightarrow> int \<Rightarrow> int option res" where
  "find_next_crlfcrlf s start_of_line =
     bindO (find_next_crlf s start_of_line) (\<lambda>end_of_line.
     bindR (rd s end_of_line) (\<lambda>c.
       if c = NUL then Inr None
       else if c = CR then bindR (rd s (end_of_line + 1)) (\<lambda>d. Inr (Some (if d = LF then end_of_line + 2 else end_of_line + 1)))
       else if c = LF then Inr (Some (end_of_line + 1))
       else find_next_crlfcrlf s end_of_line))"
  by pat_completeness auto

termination find_next_crlfcrlf
  by (relation "measure (\<lambda>(s, p). nat (int (length s) - p))") (auto dest!: find_next_crlf_moves)

declare find_next_crlfcrlf.simps [simp del]

section \<open>The start line\<close>

text \<open>\<open>sscanf\<close> with \<open>%d\<close>: \<open>None\<close> when no number is there.\<close>

definition sscanf_d :: "string \<Rightarrow> int option" where
  "sscanf_d s = (case dropWhile is_space s of
      [] \<Rightarrow> None
    | c # t \<Rightarrow> let u = (if c = CHR ''-'' \<or> c = CHR ''+'' then t else c # t) in
        if u \<noteq> [] \<and> is_digit (hd u) then Some (atoi s) else None)"

text \<open>The rest of the start line behind \<open>p\<close>: the line end, and the start of the headers behind it.\<close>

definition end_of_startline :: "string \<Rightarrow> int \<Rightarrow> (int \<times> int) option res" where
  "end_of_startline s p =
     bindR (skip_chars (\<lambda>c. \<not> cr_lf c) s p) (\<lambda>hp. bindR (rd s hp) (\<lambda>c0.
     if c0 = NUL then Inr None
     else bindR (rd s (hp + 1)) (\<lambda>c1. Inr (Some (hp, if c0 = CR \<and> c1 = LF then hp + 2 else hp + 1)))))"

text \<open>Both give -1 or 0, the message and the start of the headers.\<close>

definition startline_parsereq :: "sip \<Rightarrow> string \<Rightarrow> (int \<times> sip \<times> int) res" where
  "startline_parsereq m s =
     (let m = m\<lparr>sip_method := None, status_code := 0, reason_phrase := None\<rparr>; err = (- 1, m, 0) in
      bindR (strchr s 0 (CHR '' '')) (\<lambda>p2. case p2 of None \<Rightarrow> Inr err | Some p2 \<Rightarrow>
      bindR (rd s (p2 + 1)) (\<lambda>c. if c = NUL then Inr err else
      bindR (rd s (p2 + 2)) (\<lambda>c. if c = NUL then Inr err else
      if p2 = 0 then Inr err
      else bindR (osip_strncpy (p2 + 1) s 0 p2) (\<lambda>method.
      bindR (strchr s (p2 + 2) (CHR '' '')) (\<lambda>p1. case p1 of None \<Rightarrow> Inr err | Some p1 \<Rightarrow>
      if p1 - p2 < 2 then Inr err
      else bindR (osip_clrncpy (p1 - p2) s (p2 + 1) (p1 - p2 - 1)) (\<lambda>requesturi.
      bindR (osip_uri_parse osip_uri_init requesturi) (\<lambda>(i, uri).
      if i \<noteq> 0 then Inr (- 1, m\<lparr>req_uri := None\<rparr>, 0)
      else bindR (end_of_startline s p1) (\<lambda>r. case r of None \<Rightarrow> Inr (- 1, m\<lparr>req_uri := None\<rparr>, 0) | Some (hp, headers) \<Rightarrow>
      if hp - p1 < 2 then Inr (- 1, m\<lparr>req_uri := None\<rparr>, 0)
      else bindR (osip_strncpy (hp - p1) s (p1 + 1) (hp - p1 - 1)) (\<lambda>version.
        Inr (0, m\<lparr>sip_method := Some method, req_uri := Some uri, sip_version := Some version\<rparr>, headers)))))))))))"

definition startline_parseresp :: "sip \<Rightarrow> string \<Rightarrow> (int \<times> sip \<times> int) res" where
  "startline_parseresp m s =
     (let m = m\<lparr>req_uri := None, sip_method := None\<rparr> in
      bindR (strchr s 0 (CHR '' '')) (\<lambda>statuscode. case statuscode of None \<Rightarrow> Inr (- 1, m, 0) | Some statuscode \<Rightarrow>
      bindR (osip_strncpy (statuscode + 1) s 0 statuscode) (\<lambda>version.
      let m = m\<lparr>sip_version := Some version\<rparr> in
      bindR (strchr s (statuscode + 1) (CHR '' '')) (\<lambda>reasonphrase. case reasonphrase of
          None \<Rightarrow> Inr (- 1, m\<lparr>sip_version := None\<rparr>, 0)
        | Some reasonphrase \<Rightarrow>
      (case sscanf_d (drop (nat (statuscode + 1)) s) of
          None \<Rightarrow> Inr (- 1, m, 0)
        | Some code \<Rightarrow>
      let m = m\<lparr>status_code := code\<rparr> in
      if code = 0 then Inr (- 1, m, 0)
      else bindR (end_of_startline s reasonphrase) (\<lambda>r. case r of None \<Rightarrow> Inr (- 1, m, 0) | Some (hp, headers) \<Rightarrow>
        bindR (osip_strncpy (hp - reasonphrase) s (reasonphrase + 1) (hp - reasonphrase - 1)) (\<lambda>reason.
          Inr (0, m\<lparr>reason_phrase := Some reason\<rparr>, headers))))))))"

definition startline_parse :: "sip \<Rightarrow> string \<Rightarrow> (int \<times> sip \<times> int) res" where
  "startline_parse m s = (if take 4 s = ''SIP/'' then startline_parseresp m s else startline_parsereq m s)"

section \<open>Headers with several values\<close>

text \<open>The headers whose values may hold commas.\<close>

definition one_value_headers :: "string list" where
  "one_value_headers = [''date'', ''to'', ''from'', ''call-id'', ''cseq'', ''subject'', ''expires'', ''server'', ''user-agent'',
     ''www-authenticate'', ''authentication-info'', ''proxy-authenticate'', ''proxy-authorization'',
     ''proxy-authentication-info'', ''organization'', ''authorization'']"

text \<open>
  The next comma behind the quotes at \<open>quote1\<close> and \<open>quote2\<close> that is not inside others. A null pointer is
  below every other one.
\<close>

function comma_outside :: "string \<Rightarrow> int option \<Rightarrow> int \<Rightarrow> int \<Rightarrow> int option res" where
  "comma_outside s tmp_comma quote1 quote2 =
     (case tmp_comma of None \<Rightarrow> Inr None | Some comma \<Rightarrow>
        if comma < quote1 then Inr (Some comma)
        else bindR (if comma < quote2 then strchr s (quote2 + 1) (CHR '','') else Inr (Some comma)) (\<lambda>tmp_comma.
          bindR (osip_quote_find s (quote2 + 1)) (\<lambda>q1. case q1 of None \<Rightarrow> Inr tmp_comma | Some quote1 \<Rightarrow>
          bindR (osip_quote_find s (quote1 + 1)) (\<lambda>q2. case q2 of None \<Rightarrow> Inr tmp_comma | Some quote2 \<Rightarrow>
            comma_outside s tmp_comma quote1 quote2))))"
  by pat_completeness auto

termination comma_outside
  by (relation "measure (\<lambda>(s, c, q1, q2). nat (int (length s) - q2))") (auto dest!: quote_find_bounds)

declare comma_outside.simps [simp del]

text \<open>The last value of a line; one of less than two characters is taken for an empty header.\<close>

definition last_value :: "string \<Rightarrow> string \<Rightarrow> int \<Rightarrow> sip \<Rightarrow> (int \<times> sip) res" where
  "last_value name s beg m =
     bindR (rd s beg) (\<lambda>c. if c = NUL then Inr (0, m) else
     bindR (rd s (beg + 1)) (\<lambda>c. if c = NUL then Inr (0, m)
       else osip_message_set__header m name (Some (osip_clrspace (drop (nat beg) s)))))"

text \<open>What the body of the loop finds out: \<open>Split\<close> has the comma that ends a value, the next one and \<open>ptr\<close>.\<close>

datatype comma_case = Bad_quotes | Skip_to int | Inside int "int option" | Split "int option" int

definition split_at_comma :: "string \<Rightarrow> int \<Rightarrow> int \<Rightarrow> comma_case res" where
  "split_at_comma s ptr comma =
     bindR (osip_quote_find s ptr) (\<lambda>q1. case q1 of
         None \<Rightarrow> bindR (strchr s (comma + 1) (CHR '','')) (\<lambda>c. Inr (Split c (case c of None \<Rightarrow> ptr | Some c \<Rightarrow> c + 1)))
       | Some quote1 \<Rightarrow> bindR (osip_quote_find s (quote1 + 1)) (\<lambda>q2. case q2 of
           None \<Rightarrow> Inr Bad_quotes
         | Some quote2 \<Rightarrow>
             if comma < quote1 then
               bindR (strchr s (comma + 1) (CHR '','')) (\<lambda>tmp_comma. bindR (comma_outside s tmp_comma quote1 quote2) (\<lambda>c.
                 Inr (Split c (case c of None \<Rightarrow> quote2 + 1 | Some c \<Rightarrow> c + 1))))
             else if quote2 < comma then Inr (Skip_to (quote2 + 1))
             else bindR (strchr s (quote2 + 1) (CHR '','')) (\<lambda>c. Inr (Inside (quote2 + 1) c))))"

lemma comma_outside_moves:
  "comma_outside s t q1 q2 = Inr (Some c) \<Longrightarrow> (\<forall>x. t = Some x \<longrightarrow> p < x) \<Longrightarrow> p < q2 \<Longrightarrow> p < c"
proof (induction s t q1 q2 rule: comma_outside.induct)
  case (1 s t q1 q2)
  from "1.prems"(1) show ?case
    by (subst (asm) comma_outside.simps)
      (use "1.prems"(2,3) "1.IH" in \<open>fastforce simp: bindR_eq_Inr dest!: strchr_Some quote_find_bounds split: option.splits if_splits\<close>)
qed

lemma split_at_comma_moves:
  assumes "split_at_comma s ptr comma = Inr r"
  shows "(\<forall>p. r = Skip_to p \<longrightarrow> ptr < p \<and> p \<le> int (length s)) \<and>
    (\<forall>p c. r = Inside p (Some c) \<longrightarrow> comma < c \<and> c < int (length s)) \<and>
    (\<forall>p c. r = Split (Some c) p \<longrightarrow> comma < c \<and> comma < int (length s))"
proof -
  obtain q1 where q1: "osip_quote_find s ptr = Inr q1"
    using assms by (cases "osip_quote_find s ptr") (auto simp: split_at_comma_def)
  show ?thesis
  proof (cases q1)
    case None
    with assms q1 show ?thesis by (auto simp: split_at_comma_def bindR_eq_Inr dest!: strchr_Some)
  next
    case (Some quote1)
    obtain q2 where q2: "osip_quote_find s (quote1 + 1) = Inr q2"
      using assms q1 Some by (cases "osip_quote_find s (quote1 + 1)") (auto simp: split_at_comma_def)
    show ?thesis
    proof (cases q2)
      case None
      with assms q1 q2 Some show ?thesis by (simp add: split_at_comma_def)
    next
      case (Some quote2)
      note b = quote_find_bounds [OF q1 [unfolded \<open>q1 = Some quote1\<close>]] quote_find_bounds [OF q2 [unfolded Some]]
      note d = assms [unfolded split_at_comma_def q1 bindR.simps \<open>q1 = Some quote1\<close> option.case q2 Some]
      show ?thesis
      proof (cases "comma < quote1")
        case True
        then obtain t c where t: "strchr s (comma + 1) (CHR '','') = Inr t" "comma_outside s t quote1 quote2 = Inr c"
            "r = Split c (case c of None \<Rightarrow> quote2 + 1 | Some c \<Rightarrow> c + 1)"
          using d by (auto simp: bindR_eq_Inr)
        have "comma < x" if "t = Some x" for x using strchr_Some [OF t(1) [unfolded that]] by simp
        then have "comma < x" if "c = Some x" for x
          using comma_outside_moves [OF t(2) [unfolded that], of comma] True b by auto
        with t(3) True b show ?thesis by auto
      qed (use d b in \<open>auto simp: bindR_eq_Inr dest!: strchr_Some split: if_splits\<close>)
    qed
  qed
qed

function value_loop :: "string \<Rightarrow> string \<Rightarrow> int \<Rightarrow> int \<Rightarrow> int \<Rightarrow> sip \<Rightarrow> (int \<times> sip) res" where
  "value_loop name s beg ptr comma m =
     bindR (split_at_comma s ptr comma) (\<lambda>r. case r of
         Bad_quotes \<Rightarrow> Inr (- 1, m)
       | Skip_to ptr' \<Rightarrow> value_loop name s beg ptr' comma m
       | Inside ptr' c \<Rightarrow> (case c of None \<Rightarrow> last_value name s beg m | Some comma' \<Rightarrow> value_loop name s beg ptr' comma' m)
       | Split c ptr' \<Rightarrow>
           if comma - beg + 1 < 2 then Inr (- 1, m)
           else bindR (osip_clrncpy (comma - beg + 1) s beg (comma - beg)) (\<lambda>avalue.
             bindR (osip_message_set__header m name (Some avalue)) (\<lambda>(i, m).
               if i = - 1 then Inr (- 1, m)
               else case c of None \<Rightarrow> last_value name s (comma + 1) m
                 | Some comma' \<Rightarrow> value_loop name s (comma + 1) ptr' comma' m)))"
  by pat_completeness auto

termination value_loop
  by (relation "measures [\<lambda>(name, s, beg, ptr, comma, m). nat (int (length s) + 1 - comma), \<lambda>(name, s, beg, ptr, comma, m). nat (int (length s) + 1 - ptr)]")
    (auto dest!: split_at_comma_moves)

declare value_loop.simps [simp del]

definition osip_message_set_multiple_header :: "sip \<Rightarrow> string \<Rightarrow> string option \<Rightarrow> (int \<times> sip) res" where
  "osip_message_set_multiple_header m name v =
     (let name = map tolower name in
      case v of None \<Rightarrow> osip_message_set__header m name None
      | Some s \<Rightarrow> bindR (strchr s 0 (CHR '','')) (\<lambda>comma. case comma of
            None \<Rightarrow> osip_message_set__header m name (Some s)
          | Some comma \<Rightarrow> if name \<in> set one_value_headers then osip_message_set__header m name (Some s)
                          else value_loop name s 0 0 comma m))"

section \<open>All headers\<close>

text \<open>The value of a header between its colon and the end of the line; \<open>None\<close> for an empty one.\<close>

definition header_value :: "string \<Rightarrow> int \<Rightarrow> int \<Rightarrow> string option res" where
  "header_value s colon_index end_of_header =
     bindR (rd s (end_of_header - 2)) (\<lambda>c.
     let e = (if cr_lf c then end_of_header - 2 else end_of_header - 1) in
     if e - colon_index < 2 then Inr None
     else bindR (osip_clrncpy (e - colon_index + 1) s (colon_index + 1) (e - colon_index - 1)) (\<lambda>v. Inr (Some v)))"

text \<open>
  The result, the message, and where the body starts: at the empty line, or where \<open>body\<close> pointed before
  when the text ends without one.
\<close>

function msg_headers_parse :: "sip \<Rightarrow> string \<Rightarrow> int \<Rightarrow> int \<Rightarrow> (int \<times> sip \<times> int) res" where
  "msg_headers_parse m s start_of_header body =
     bindR (rd s start_of_header) (\<lambda>c. if c = NUL then Inr (0, m, body) else
     bindR (find_next_crlf s start_of_header) (\<lambda>r. case r of None \<Rightarrow> Inr (- 1, m, body) | Some end_of_header \<Rightarrow>
     if cr_lf c then Inr (0, m, start_of_header)
     else bindR (strchr s start_of_header (CHR '':'')) (\<lambda>r. case r of None \<Rightarrow> Inr (- 1, m, body) | Some colon_index \<Rightarrow>
     if colon_index - start_of_header + 1 < 2 then Inr (- 1, m, body)
     else if end_of_header \<le> colon_index then Inr (- 1, m, body)
     else bindR (osip_clrncpy (colon_index - start_of_header + 1) s start_of_header (colon_index - start_of_header)) (\<lambda>name.
       bindR (header_value s colon_index end_of_header) (\<lambda>v.
       bindR (osip_message_set_multiple_header m name v) (\<lambda>(i, m).
         if i = - 1 then Inr (- 1, m, body)
         else msg_headers_parse m s end_of_header body))))))"
  by pat_completeness auto

termination msg_headers_parse
  by (relation "measure (\<lambda>(m, s, p, b). nat (int (length s) - p))") (auto dest!: find_next_crlf_moves)

declare msg_headers_parse.simps [simp del]

section \<open>Bodies\<close>

definition osip_body_init :: osip_body where
  "osip_body_init = \<lparr>body_text = [], body_length = 0, body_headers = [], body_content_type = None\<rparr>"

definition osip_message_set_body :: "sip \<Rightarrow> string \<Rightarrow> sip" where
  "osip_message_set_body m s =
     m\<lparr>message_property := 2, bodies := bodies m @ [osip_body_init\<lparr>body_text := s, body_length := int (length s)\<rparr>]\<rparr>"

definition osip_body_set_contenttype :: "osip_body \<Rightarrow> string \<Rightarrow> (int \<times> osip_body) res" where
  "osip_body_set_contenttype b v =
     bindR (osip_content_type_parse v) (\<lambda>r. Inr (if r = None then - 1 else 0, b\<lparr>body_content_type := r\<rparr>))"

definition osip_body_set_header :: "osip_body \<Rightarrow> string \<Rightarrow> string \<Rightarrow> osip_body" where
  "osip_body_set_header b name v = b\<lparr>body_headers := body_headers b @ [\<lparr>hname = name, hvalue = Some v\<rparr>]\<rparr>"

text \<open>
  The headers of one part, read from the C string at its start: the body with them, and where they end. A
  value is taken to end two characters in front of the next line.
\<close>

function osip_body_parse_header :: "osip_body \<Rightarrow> string \<Rightarrow> int \<Rightarrow> (osip_body \<times> int) option res" where
  "osip_body_parse_header b s start_of_line =
     bindO (find_next_crlf s start_of_line) (\<lambda>end_of_line.
     bindO (strchr s start_of_line (CHR '':'')) (\<lambda>colon_index.
     if colon_index - start_of_line + 1 < 2 then Inr None
     else bindO (clrcopyO (colon_index - start_of_line + 1) s start_of_line (colon_index - start_of_line)) (\<lambda>name.
     if end_of_line - 2 - colon_index < 2 then Inr None
     else bindO (clrcopyO (end_of_line - 2 - colon_index) s (colon_index + 1) (end_of_line - 2 - colon_index - 1)) (\<lambda>v.
     bindR (if strncasecmp0 12 name ''content-type'' then osip_body_set_contenttype b v
            else Inr (0, osip_body_set_header b name v)) (\<lambda>(i, b).
     if i = - 1 then Inr None
     else bindR (rd s end_of_line) (\<lambda>c.
       if cr_lf c then Inr (Some (b, end_of_line)) else osip_body_parse_header b s end_of_line))))))"
  by pat_completeness auto

termination osip_body_parse_header
  by (relation "measure (\<lambda>(b, s, p). nat (int (length s) - p))") (auto dest!: find_next_crlf_moves)

declare osip_body_parse_header.simps [simp del]

definition osip_body_parse_mime :: "osip_body \<Rightarrow> string \<Rightarrow> osip_body option res" where
  "osip_body_parse_mime b buf =
     (let s = cstr buf in
      bindO (osip_body_parse_header b s 0) (\<lambda>(b, p).
      bindR (rd s p) (\<lambda>c. bindR (if c = CR then rd s (p + 1) else Inr NUL) (\<lambda>d.
        let start = (if c = CR \<and> d = LF then p + 2 else p + 1); n = int (length buf) - start in
        if n \<le> 0 then Inr None
        else Inr (Some (b\<lparr>body_text := drop (nat start) buf, body_length := n\<rparr>))))))"

definition osip_message_set_body_mime :: "sip \<Rightarrow> string \<Rightarrow> (int \<times> sip) res" where
  "osip_message_set_body_mime m buf =
     bindR (osip_body_parse_mime osip_body_init buf) (\<lambda>r. Inr (case r of None \<Rightarrow> (- 1, m)
       | Some b \<Rightarrow> (0, m\<lparr>message_property := 2, bodies := bodies m @ [b]\<rparr>)))"

text \<open>
  The first place of \<open>str\<close> from \<open>p\<close> on in the block, looked for in one C string after the other, in at most
  1000 of them.
\<close>

definition strstr :: "string \<Rightarrow> string \<Rightarrow> nat option" where
  "strstr s str = find (\<lambda>i. take (length str) (drop i s) = str) [0..<length s]"

fun find_next_occurence :: "nat \<Rightarrow> string \<Rightarrow> string \<Rightarrow> int \<Rightarrow> int \<Rightarrow> int option res" where
  "find_next_occurence 0 str s p end_of_buf = Inr None"
| "find_next_occurence (Suc n) str s p end_of_buf =
     (if p < 0 \<or> int (length s) < p then Inl Out_of_bounds
      else let t = cstr (drop (nat p) s); ptr = p + int (length t) in
        (case strstr t str of Some i \<Rightarrow> Inr (Some (p + int i))
         | None \<Rightarrow> if 0 < end_of_buf - ptr then find_next_occurence n str s (ptr + 1) end_of_buf else Inr None))"

lemma find_next_occurence_bounds:
  "find_next_occurence n str s p e = Inr (Some q) \<Longrightarrow> 0 \<le> p \<and> p \<le> q \<and> q + int (length str) \<le> int (length s)"
proof (induction n arbitrary: p)
  case (Suc n)
  let ?t = "cstr (drop (nat p) s)"
  have p: "0 \<le> p" "p \<le> int (length s)" using Suc.prems by (auto split: if_splits)
  have t: "length ?t \<le> length s - nat p" using length_takeWhile_le [of _ "drop (nat p) s"] by (simp add: cstr_def)
  show ?case
  proof (cases "strstr ?t str")
    case None
    with Suc p show ?thesis by (force simp: Let_def split: if_splits)
  next
    case (Some i)
    then have i: "i < length ?t" "take (length str) (drop i ?t) = str"
      by (auto simp: strstr_def find_Some_iff)
    then have "length str \<le> length ?t - i" by (metis length_drop length_take min.cobounded1)
    with Suc.prems p t i Some show ?thesis by (auto simp: Let_def)
  qed
qed simp

text \<open>A body that is not made of parts: Content-Length bytes behind the empty line.\<close>

definition single_body :: "sip \<Rightarrow> content_type \<Rightarrow> string \<Rightarrow> int \<Rightarrow> int \<Rightarrow> (int \<times> sip) res" where
  "single_body m ct s start_of_buf len =
     bindR (rd s start_of_buf) (\<lambda>c. if \<not> cr_lf c then Inr (- 1, m)
     else bindR (if c = CR then rd s (start_of_buf + 1) else Inr NUL) (\<lambda>d.
       let k = (if c = CR \<and> d = LF then 2 else 1); start_of_body = start_of_buf + k; len = (len - k) mod 2 ^ 32 in
       if len = 0 then Inr (- 1, m)
       else bindR (case content_length m of
             Some v \<Rightarrow> Inr (0, osip_atoi v mod 2 ^ 32, m)
           | None \<Rightarrow>
               if strcasecmp0 (the (ct_type ct)) ''application'' \<and> strcasecmp0 (the (ct_subtype ct)) ''sdp'' then
                 let n = int (length (cstr (drop (nat start_of_body) s))) in
                 bindR (strcat_to 16 [] (show_int n)) (\<lambda>t. bindR (osip_message_set_content_length m (Some t)) (\<lambda>(i, m). Inr (i, n, m)))
               else Inr (- 1, 0, m)) (\<lambda>(i, osip_body_len, m).
         if i \<noteq> 0 then Inr (- 1, m)
         else if len < osip_body_len then Inr (- 1, m)
         else if int (length s) < start_of_body + osip_body_len then Inl Out_of_bounds
         else Inr (0, osip_message_set_body m (take (nat osip_body_len) (drop (nat start_of_body) s))))))"

text \<open>The boundary of the parts, with the quotes around it removed. A pointer has four bytes.\<close>

definition sep_boundary_of :: "string \<Rightarrow> string res" where
  "sep_boundary_of v =
     strcat_to (length v + 4) [] ([LF] @ ''--'' @
       (if v \<noteq> [] \<and> hd v = CHR 0x22 \<and> last v = CHR 0x22 then butlast (tl v) else v))"

text \<open>
  The parts between the boundaries, from \<open>start_of_body\<close> on. The length of a part is computed without sign:
  a negative one makes \<open>memcpy\<close> copy nearly all of the memory.
\<close>

function part_loop :: "sip \<Rightarrow> string \<Rightarrow> string \<Rightarrow> int \<Rightarrow> int \<Rightarrow> (int \<times> sip) res" where
  "part_loop m boundary s start_of_body end_of_buf =
     (let sep = LF # ''--'' @ boundary in
     bindR (find_next_occurence 1000 sep s start_of_body end_of_buf) (\<lambda>r. case r of None \<Rightarrow> Inr (- 1, m) | Some start \<Rightarrow>
     bindR (find_next_occurence 1000 sep s (start + int (length sep)) end_of_buf) (\<lambda>r. case r of None \<Rightarrow> Inr (- 1, m) | Some end_of_body \<Rightarrow>
     let start = start + int (length sep) + 1 in
     bindR (rd s start) (\<lambda>c. bindR (rd s (end_of_body - 1)) (\<lambda>d.
       let start = (if cr_lf c then start + 1 else start);
         body_len = end_of_body - start - (if d = CR then 1 else 0) in
       if body_len < 0 then Inl Buffer_overflow
       else bindR (osip_message_set_body_mime m (take (nat body_len) (drop (nat start) s))) (\<lambda>(i, m).
         if i = - 1 then Inr (- 1, m)
         else bindR (rd s (end_of_body + int (length sep))) (\<lambda>c.
           bindR (if c = CHR ''-'' then rd s (end_of_body + int (length sep) + 1) else Inr NUL) (\<lambda>d.
           if c = CHR ''-'' \<and> d = CHR ''-'' then Inr (0, m)
           else part_loop m boundary s end_of_body end_of_buf))))))))"
  by pat_completeness auto

termination part_loop
proof (relation "measure (\<lambda>(m, b, s, p, e). nat (int (length s) - p))", goal_cases)
  case 1
  then show ?case by simp
next
  case (2 m b s p e x r start r' eb)
  then show ?case by (auto dest!: find_next_occurence_bounds)
qed

declare part_loop.simps [simp del]

definition msg_osip_body_parse :: "sip \<Rightarrow> string \<Rightarrow> int \<Rightarrow> int \<Rightarrow> (int \<times> sip) res" where
  "msg_osip_body_parse m s start_of_buf len =
     (case msg_content_type m of None \<Rightarrow> Inr (0, m) | Some ct \<Rightarrow>
      if ct_type ct = None \<or> ct_subtype ct = None then Inr (0, m)
      else if \<not> strcasecmp0 (the (ct_type ct)) ''multipart'' then single_body m ct s start_of_buf len
      else (case osip_uri_param_get_byname (ct_params ct) ''boundary'' of None \<Rightarrow> Inr (- 1, m) | Some ct_param \<Rightarrow>
        (case gvalue ct_param of None \<Rightarrow> Inr (- 1, m) | Some v \<Rightarrow>
          bindR (sep_boundary_of v) (\<lambda>sep. part_loop m (drop 3 sep) s start_of_buf (start_of_buf + len)))))"

section \<open>The message\<close>

text \<open>Content-Length is always there in the end.\<close>

definition add_content_length :: "sip \<Rightarrow> (int \<times> sip) res" where
  "add_content_length m =
     (if content_length m = None then bindR (osip_message_set_content_length m (Some ''0'')) (\<lambda>(_, m). Inr (0, m))
      else Inr (0, m))"

definition message_parse :: "bool \<Rightarrow> sip \<Rightarrow> string \<Rightarrow> (int \<times> sip) res" where
  "message_parse sipfrag m buf =
     bindR (replace_all_lws (buf @ [NUL])) (\<lambda>tmp.
     let block = butlast tmp; s = cstr block in
     bindR (startline_parse m s) (\<lambda>(i, m, headers).
     if i = - 1 \<and> \<not> sipfrag then Inr (- 1, m)
     else bindR (msg_headers_parse m s headers headers) (\<lambda>(i, m, p).
     if i = - 1 then Inr (- 1, m)
     else bindR (rd block p) (\<lambda>c0. bindR (if c0 = NUL then Inr NUL else rd block (p + 1)) (\<lambda>c1.
       bindR (if c1 = NUL then Inr NUL else rd block (p + 2)) (\<lambda>c2.
       if c0 = NUL \<or> c1 = NUL \<or> c2 = NUL then add_content_length m
       else bindR (msg_osip_body_parse m block p (int (length buf) - p)) (\<lambda>(i, m).
         if i = - 1 then Inr (- 1, m) else add_content_length m)))))))"

definition osip_message_parse :: "sip \<Rightarrow> string \<Rightarrow> (int \<times> sip) res" where
  "osip_message_parse = message_parse False"

definition osip_message_parse_sipfrag :: "sip \<Rightarrow> string \<Rightarrow> (int \<times> sip) res" where
  "osip_message_parse_sipfrag = message_parse True"

section \<open>The Via of a request, and the reason of a response\<close>

text \<open>The parameter found is given a value.\<close>

fun set_rport :: "string \<Rightarrow> param list \<Rightarrow> param list" where
  "set_rport v [] = []"
| "set_rport v (u # us) =
     (if length (gname u) = 5 \<and> strncasecmp0 5 (gname u) ''rport'' then
        (case gvalue u of None \<Rightarrow> u\<lparr>gvalue := Some v\<rparr> # us | Some _ \<Rightarrow> u # us)
      else u # set_rport v us)"

definition osip_message_fix_last_via_header :: "sip \<Rightarrow> string \<Rightarrow> int \<Rightarrow> int \<times> sip" where
  "osip_message_fix_last_via_header m ip_addr port =
     (if status_code m \<noteq> 0 then (0, m)
      else (case osip_list_get (vias m) 0 of None \<Rightarrow> (- 1, m) | Some v \<Rightarrow>
        (case via_host v of None \<Rightarrow> (- 1, m) | Some host \<Rightarrow>
          let v = v\<lparr>via_params := set_rport (snprintf_to 8 (show_int port)) (via_params v)\<rparr>;
            v = (if host = ip_addr then v
                 else v\<lparr>via_params := osip_uri_param_add (via_params v) ''received'' (Some ip_addr)\<rparr>) in
          (0, m\<lparr>vias := (vias m)[0 := Some v]\<rparr>))))"

definition reasons1xx :: "(int \<times> string) list" where
  "reasons1xx =
     [(100, ''Trying''), (180, ''Ringing''), (181, ''Call Is Being Forwarded''), (182, ''Queued''),
      (183, ''Session Progress'')]"

definition reasons2xx :: "(int \<times> string) list" where
  "reasons2xx =
     [(200, ''OK''), (202, ''Accepted'')]"

definition reasons3xx :: "(int \<times> string) list" where
  "reasons3xx =
     [(300, ''Multiple Choices''), (301, ''Moved Permanently''), (302, ''Moved Temporarily''), (305, ''Use Proxy''),
      (380, ''Alternative Service'')]"

definition reasons4xx :: "(int \<times> string) list" where
  "reasons4xx =
     [(400, ''Bad Request''), (401, ''Unauthorized''), (402, ''Payment Required''), (403, ''Forbidden''),
      (404, ''Not Found''), (405, ''Method Not Allowed''), (406, ''Not Acceptable''),
      (407, ''Proxy Authentication Required''), (408, ''Request Timeout''), (409, ''Conflict''), (410, ''Gone''),
      (411, ''Length Required''), (412, ''Conditional Request Failed''), (413, ''Request Entity Too Large''),
      (414, ''Request-URI Too Large''), (415, ''Unsupported Media Type''), (416, ''Unsupported Uri Scheme''),
      (420, ''Bad Extension''), (422, ''Session Interval Too Small''), (423, ''Interval Too Short''),
      (480, ''Temporarily not available''), (481, ''Call Leg/Transaction Does Not Exist''), (482, ''Loop Detected''),
      (483, ''Too Many Hops''), (484, ''Address Incomplete''), (485, ''Ambiguous''), (486, ''Busy Here''),
      (487, ''Request Cancelled''), (488, ''Not Acceptable Here''), (489, ''Bad Event''), (491, ''Request Pending''),
      (493, ''Undecipherable'')]"

definition reasons5xx :: "(int \<times> string) list" where
  "reasons5xx =
     [(500, ''Internal Server Error''), (501, ''Not Implemented''), (502, ''Bad Gateway''),
      (503, ''Service Unavailable''), (504, ''Gateway Time-out''), (505, ''SIP Version not supported'')]"

definition reasons6xx :: "(int \<times> string) list" where
  "reasons6xx =
     [(600, ''Busy Everywhere''), (603, ''Decline''), (604, ''Does not exist anywhere''), (606, ''Not Acceptable'')]"

definition osip_message_get_reason :: "int \<Rightarrow> string option" where
  "osip_message_get_reason replycode =
     (let k = c_div replycode 100; reasons = (if k = 1 then reasons1xx else if k = 2 then reasons2xx else if k = 3 then reasons3xx
        else if k = 4 then reasons4xx else if k = 5 then reasons5xx else if k = 6 then reasons6xx else []) in
      map_option snd (find (\<lambda>(code, _). code = replycode) reasons))"

end
