(* ===== verification/Osip_Sdp.thy ===== *)
theory Osip_Sdp
  imports Osip_Parse
begin

text \<open>
  Session descriptions (osipparser2: sdp_message.c): their structure, reading one line of each kind,
  reading a whole description, and printing it.

  A reader gives -1, 0 (the line is of another kind) or 1, the description and where the next line starts. It
  looks for the next \<open>=\<close>, which may be on a later line, and at the character in front of it.
\<close>

section \<open>Structures\<close>

record sdp_bandwidth =
  b_bwtype :: "string option"
  b_bandwidth :: "string option"

record sdp_time_descr =
  t_start_time :: "string option"
  t_stop_time :: "string option"
  r_repeats :: "string list"

record sdp_key =
  k_keytype :: "string option"
  k_keydata :: "string option"

record sdp_attribute =
  a_att_field :: "string option"
  a_att_value :: "string option"

record sdp_connection =
  c_nettype :: "string option"
  c_addrtype :: "string option"
  c_addr :: "string option"
  c_addr_multicast_ttl :: "string option"
  c_addr_multicast_int :: "string option"

record sdp_media =
  m_media :: "string option"
  m_port :: "string option"
  m_number_of_port :: "string option"
  m_proto :: "string option"
  m_payloads :: "string list"
  media_i_info :: "string option"
  c_connections :: "sdp_connection list"
  media_b_bandwidths :: "sdp_bandwidth list"
  media_a_attributes :: "sdp_attribute list"
  media_k_key :: "sdp_key option"

record sdp_message =
  v_version :: "string option"
  o_username :: "string option"
  o_sess_id :: "string option"
  o_sess_version :: "string option"
  o_nettype :: "string option"
  o_addrtype :: "string option"
  o_addr :: "string option"
  s_name :: "string option"
  i_info :: "string option"
  u_uri :: "string option"
  e_emails :: "string list"
  p_phones :: "string list"
  c_connection :: "sdp_connection option"
  b_bandwidths :: "sdp_bandwidth list"
  t_descrs :: "sdp_time_descr list"
  z_adjustments :: "string option"
  k_key :: "sdp_key option"
  a_attributes :: "sdp_attribute list"
  m_medias :: "sdp_media list"

definition sdp_bandwidth_init :: sdp_bandwidth where
  "sdp_bandwidth_init = \<lparr>b_bwtype = None, b_bandwidth = None\<rparr>"

definition sdp_time_descr_init :: sdp_time_descr where
  "sdp_time_descr_init = \<lparr>t_start_time = None, t_stop_time = None, r_repeats = []\<rparr>"

definition sdp_key_init :: sdp_key where
  "sdp_key_init = \<lparr>k_keytype = None, k_keydata = None\<rparr>"

definition sdp_attribute_init :: sdp_attribute where
  "sdp_attribute_init = \<lparr>a_att_field = None, a_att_value = None\<rparr>"

definition sdp_connection_init :: sdp_connection where
  "sdp_connection_init = \<lparr>c_nettype = None, c_addrtype = None, c_addr = None, c_addr_multicast_ttl = None,
     c_addr_multicast_int = None\<rparr>"

definition sdp_media_init :: sdp_media where
  "sdp_media_init = \<lparr>m_media = None, m_port = None, m_number_of_port = None, m_proto = None, m_payloads = [],
     media_i_info = None, c_connections = [], media_b_bandwidths = [], media_a_attributes = [], media_k_key = None\<rparr>"

definition sdp_message_init :: sdp_message where
  "sdp_message_init = \<lparr>v_version = None, o_username = None, o_sess_id = None, o_sess_version = None, o_nettype = None,
     o_addrtype = None, o_addr = None, s_name = None, i_info = None, u_uri = None, e_emails = [], p_phones = [],
     c_connection = None, b_bandwidths = [], t_descrs = [], z_adjustments = None, k_key = None, a_attributes = [],
     m_medias = []\<rparr>"

section \<open>One line\<close>

datatype sdp_line = Bad_line | Other_line | Line int int

text \<open>
  The head that all readers share: the place of the \<open>=\<close> and the end of the line. In front of the first
  character of the text there is nothing to read.
\<close>

definition sdp_line :: "char \<Rightarrow> string \<Rightarrow> int \<Rightarrow> sdp_line res" where
  "sdp_line letter s buf =
     bindR (skip_chars (\<lambda>c. c \<noteq> CHR ''='') s buf) (\<lambda>equal. bindR (rd s equal) (\<lambda>c.
     if c = NUL then Inr Bad_line
     else bindR (rd s (equal - 1)) (\<lambda>d. if d \<noteq> letter then Inr Other_line
     else bindR (skip_chars (\<lambda>c. \<not> cr_lf c) s (equal + 1)) (\<lambda>eol. bindR (rd s eol) (\<lambda>e.
       if e = NUL \<or> eol = equal + 1 then Inr Bad_line else Inr (Line equal eol))))))"

definition after_line :: "string \<Rightarrow> int \<Rightarrow> int res" where
  "after_line s eol = bindR (rd s (eol + 1)) (\<lambda>c. Inr (if c = LF then eol + 2 else eol + 1))"

type_synonym sdp_reader = "sdp_message \<Rightarrow> string \<Rightarrow> int \<Rightarrow> (int \<times> sdp_message \<times> int) res"

text \<open>What a reader does with its line: \<open>False\<close> for an error.\<close>

definition sdp_field :: "char \<Rightarrow> (sdp_message \<Rightarrow> string \<Rightarrow> int \<Rightarrow> int \<Rightarrow> (bool \<times> sdp_message) res) \<Rightarrow> sdp_reader" where
  "sdp_field letter content sdp s buf =
     bindR (sdp_line letter s buf) (\<lambda>l. case l of
         Bad_line \<Rightarrow> Inr (- 1, sdp, buf)
       | Other_line \<Rightarrow> Inr (0, sdp, buf)
       | Line equal eol \<Rightarrow> bindR (content sdp s equal eol) (\<lambda>(ok, sdp).
           if \<not> ok then Inr (- 1, sdp, buf) else bindR (after_line s eol) (\<lambda>next. Inr (1, sdp, next))))"

text \<open>The whole value, copied.\<close>

definition sdp_value :: "string \<Rightarrow> int \<Rightarrow> int \<Rightarrow> string res" where
  "sdp_value s equal eol = osip_strncpy (eol - (equal + 1) + 1) s (equal + 1) (eol - (equal + 1))"

text \<open>The last token of a line, up to CR, or else up to LF.\<close>

definition last_token :: "string \<Rightarrow> int \<Rightarrow> (string \<times> int) option res" where
  "last_token s tmp = bindR (osip_set_next_token s tmp CR) (\<lambda>r. case r of
       Some x \<Rightarrow> Inr (Some x) | None \<Rightarrow> osip_set_next_token s tmp LF)"

text \<open>What belongs to the session in front of the first media, and to the last media behind it.\<close>

definition place :: "(sdp_message \<Rightarrow> sdp_message) \<Rightarrow> (sdp_media \<Rightarrow> sdp_media) \<Rightarrow> sdp_message \<Rightarrow> sdp_message" where
  "place g f sdp = (if m_medias sdp = [] then g sdp
     else sdp\<lparr>m_medias := butlast (m_medias sdp) @ [f (last (m_medias sdp))]\<rparr>)"

definition stored :: "'a option res \<Rightarrow> ('a \<Rightarrow> sdp_message) \<Rightarrow> sdp_message \<Rightarrow> (bool \<times> sdp_message) res" where
  "stored r store sdp = bindR r (\<lambda>x. Inr (case x of None \<Rightarrow> (False, sdp) | Some x \<Rightarrow> (True, store x)))"

definition sdp_message_parse_v :: sdp_reader where
  "sdp_message_parse_v sdp s buf =
     bindR (skip_chars (\<lambda>c. c \<noteq> CHR ''='') s buf) (\<lambda>equal. bindR (rd s equal) (\<lambda>c.
     if c \<noteq> NUL \<and> equal = buf then Inr (0, sdp, buf)
     else sdp_field (CHR ''v'') (\<lambda>sdp s equal eol.
       bindR (sdp_value s equal eol) (\<lambda>v. Inr (True, sdp\<lparr>v_version := Some v\<rparr>))) sdp s buf))"

text \<open>The parts of the origin are stored one by one.\<close>

definition origin :: "sdp_message \<Rightarrow> string \<Rightarrow> int \<Rightarrow> (bool \<times> sdp_message) res" where
  "origin sdp s tmp =
     bindR (osip_set_next_token s tmp (CHR '' '')) (\<lambda>r. case r of None \<Rightarrow> Inr (False, sdp) | Some (t, tmp) \<Rightarrow>
     let sdp = sdp\<lparr>o_username := Some t\<rparr> in
     bindR (osip_set_next_token s tmp (CHR '' '')) (\<lambda>r. case r of None \<Rightarrow> Inr (False, sdp) | Some (t, tmp) \<Rightarrow>
     let sdp = sdp\<lparr>o_sess_id := Some t\<rparr> in
     bindR (osip_set_next_token s tmp (CHR '' '')) (\<lambda>r. case r of None \<Rightarrow> Inr (False, sdp) | Some (t, tmp) \<Rightarrow>
     let sdp = sdp\<lparr>o_sess_version := Some t\<rparr> in
     bindR (osip_set_next_token s tmp (CHR '' '')) (\<lambda>r. case r of None \<Rightarrow> Inr (False, sdp) | Some (t, tmp) \<Rightarrow>
     let sdp = sdp\<lparr>o_nettype := Some t\<rparr> in
     bindR (osip_set_next_token s tmp (CHR '' '')) (\<lambda>r. case r of None \<Rightarrow> Inr (False, sdp) | Some (t, tmp) \<Rightarrow>
     let sdp = sdp\<lparr>o_addrtype := Some t\<rparr> in
     bindR (last_token s tmp) (\<lambda>r. case r of None \<Rightarrow> Inr (False, sdp) | Some (t, tmp) \<Rightarrow>
       Inr (True, sdp\<lparr>o_addr := Some t\<rparr>)))))))"

definition sdp_message_parse_o :: sdp_reader where
  "sdp_message_parse_o = sdp_field (CHR ''o'') (\<lambda>sdp s equal eol. origin sdp s (equal + 1))"

definition sdp_message_parse_s :: sdp_reader where
  "sdp_message_parse_s = sdp_field (CHR ''s'') (\<lambda>sdp s equal eol.
     bindR (sdp_value s equal eol) (\<lambda>v. Inr (True, sdp\<lparr>s_name := Some v\<rparr>)))"

definition sdp_message_parse_i :: sdp_reader where
  "sdp_message_parse_i = sdp_field (CHR ''i'') (\<lambda>sdp s equal eol.
     bindR (sdp_value s equal eol) (\<lambda>v.
       Inr (True, place (\<lambda>sdp. sdp\<lparr>i_info := Some v\<rparr>) (\<lambda>m. m\<lparr>media_i_info := Some v\<rparr>) sdp)))"

definition sdp_message_parse_u :: sdp_reader where
  "sdp_message_parse_u = sdp_field (CHR ''u'') (\<lambda>sdp s equal eol.
     bindR (sdp_value s equal eol) (\<lambda>v. Inr (True, sdp\<lparr>u_uri := Some v\<rparr>)))"

definition sdp_message_parse_e :: sdp_reader where
  "sdp_message_parse_e = sdp_field (CHR ''e'') (\<lambda>sdp s equal eol.
     bindR (sdp_value s equal eol) (\<lambda>v. Inr (True, sdp\<lparr>e_emails := e_emails sdp @ [v]\<rparr>)))"

definition sdp_message_parse_p :: sdp_reader where
  "sdp_message_parse_p = sdp_field (CHR ''p'') (\<lambda>sdp s equal eol.
     bindR (sdp_value s equal eol) (\<lambda>v. Inr (True, sdp\<lparr>p_phones := p_phones sdp @ [v]\<rparr>)))"

text \<open>An address, or one with a time to live and perhaps a number behind slashes.\<close>

definition connection :: "string \<Rightarrow> int \<Rightarrow> int \<Rightarrow> sdp_connection option res" where
  "connection s tmp eol =
     bindO (osip_set_next_token s tmp (CHR '' '')) (\<lambda>(nettype, tmp).
     bindO (osip_set_next_token s tmp (CHR '' '')) (\<lambda>(addrtype, tmp).
     let c = sdp_connection_init\<lparr>c_nettype := Some nettype, c_addrtype := Some addrtype\<rparr> in
     bindR (strchr s tmp (CHR ''/'')) (\<lambda>slash. case slash of
         Some slash \<Rightarrow> if slash < eol then
           bindO (osip_set_next_token s tmp (CHR ''/'')) (\<lambda>(addr, tmp).
           bindR (strchr s (slash + 1) (CHR ''/'')) (\<lambda>slash.
             if (case slash of None \<Rightarrow> False | Some slash \<Rightarrow> slash < eol) then
               bindO (osip_set_next_token s tmp (CHR ''/'')) (\<lambda>(ttl, tmp).
               bindO (last_token s tmp) (\<lambda>(n, _).
                 Inr (Some (c\<lparr>c_addr := Some addr, c_addr_multicast_ttl := Some ttl, c_addr_multicast_int := Some n\<rparr>))))
             else bindO (last_token s tmp) (\<lambda>(ttl, _).
               Inr (Some (c\<lparr>c_addr := Some addr, c_addr_multicast_ttl := Some ttl\<rparr>)))))
         else bindO (last_token s tmp) (\<lambda>(addr, _). Inr (Some (c\<lparr>c_addr := Some addr\<rparr>)))
       | None \<Rightarrow> bindO (last_token s tmp) (\<lambda>(addr, _). Inr (Some (c\<lparr>c_addr := Some addr\<rparr>))))))"

definition sdp_message_parse_c :: sdp_reader where
  "sdp_message_parse_c = sdp_field (CHR ''c'') (\<lambda>sdp s equal eol.
     stored (connection s (equal + 1) eol) (\<lambda>c.
       place (\<lambda>sdp. sdp\<lparr>c_connection := Some c\<rparr>) (\<lambda>m. m\<lparr>c_connections := c_connections m @ [c]\<rparr>) sdp) sdp)"

definition bandwidth :: "string \<Rightarrow> int \<Rightarrow> sdp_bandwidth option res" where
  "bandwidth s tmp =
     bindO (osip_set_next_token s tmp (CHR '':'')) (\<lambda>(bwtype, tmp).
     bindO (last_token s tmp) (\<lambda>(bw, _). Inr (Some \<lparr>b_bwtype = Some bwtype, b_bandwidth = Some bw\<rparr>)))"

definition sdp_message_parse_b :: sdp_reader where
  "sdp_message_parse_b = sdp_field (CHR ''b'') (\<lambda>sdp s equal eol.
     stored (bandwidth s (equal + 1)) (\<lambda>b.
       place (\<lambda>sdp. sdp\<lparr>b_bandwidths := b_bandwidths sdp @ [b]\<rparr>)
         (\<lambda>m. m\<lparr>media_b_bandwidths := media_b_bandwidths m @ [b]\<rparr>) sdp) sdp)"

definition time_descr :: "string \<Rightarrow> int \<Rightarrow> sdp_time_descr option res" where
  "time_descr s tmp =
     bindO (osip_set_next_token s tmp (CHR '' '')) (\<lambda>(start, tmp).
     bindO (last_token s tmp) (\<lambda>(stop, _).
       Inr (Some \<lparr>t_start_time = Some start, t_stop_time = Some stop, r_repeats = []\<rparr>)))"

definition sdp_message_parse_t :: sdp_reader where
  "sdp_message_parse_t = sdp_field (CHR ''t'') (\<lambda>sdp s equal eol.
     stored (time_descr s (equal + 1)) (\<lambda>t. sdp\<lparr>t_descrs := t_descrs sdp @ [t]\<rparr>) sdp)"

definition sdp_message_parse_r :: sdp_reader where
  "sdp_message_parse_r = sdp_field (CHR ''r'') (\<lambda>sdp s equal eol.
     if t_descrs sdp = [] then Inr (False, sdp)
     else bindR (sdp_value s equal eol) (\<lambda>v. let ts = t_descrs sdp; t = last ts in
       Inr (True, sdp\<lparr>t_descrs := butlast ts @ [t\<lparr>r_repeats := r_repeats t @ [v]\<rparr>]\<rparr>)))"

definition sdp_message_parse_z :: sdp_reader where
  "sdp_message_parse_z = sdp_field (CHR ''z'') (\<lambda>sdp s equal eol.
     bindR (sdp_value s equal eol) (\<lambda>v. Inr (True, sdp\<lparr>z_adjustments := Some v\<rparr>)))"

text \<open>A name and perhaps a value behind a colon, as in keys and attributes.\<close>

definition name_value :: "string \<Rightarrow> int \<Rightarrow> int \<Rightarrow> (string \<times> string option) option res" where
  "name_value s equal eol =
     bindR (strchr s (equal + 1) (CHR '':'')) (\<lambda>colon.
       if (case colon of None \<Rightarrow> False | Some colon \<Rightarrow> colon < eol) then
         bindO (osip_set_next_token s (equal + 1) (CHR '':'')) (\<lambda>(n, tmp).
         bindO (last_token s tmp) (\<lambda>(v, _). Inr (Some (n, Some v))))
       else bindO (last_token s (equal + 1)) (\<lambda>(n, _). Inr (Some (n, None))))"

definition sdp_message_parse_k :: sdp_reader where
  "sdp_message_parse_k = sdp_field (CHR ''k'') (\<lambda>sdp s equal eol.
     stored (name_value s equal eol) (\<lambda>(n, v). let k = \<lparr>k_keytype = Some n, k_keydata = v\<rparr> in
       place (\<lambda>sdp. sdp\<lparr>k_key := Some k\<rparr>) (\<lambda>m. m\<lparr>media_k_key := Some k\<rparr>) sdp) sdp)"

definition sdp_message_parse_a :: sdp_reader where
  "sdp_message_parse_a = sdp_field (CHR ''a'') (\<lambda>sdp s equal eol.
     stored (name_value s equal eol) (\<lambda>(n, v). let a = \<lparr>a_att_field = Some n, a_att_value = v\<rparr> in
       place (\<lambda>sdp. sdp\<lparr>a_attributes := a_attributes sdp @ [a]\<rparr>)
         (\<lambda>m. m\<lparr>media_a_attributes := media_a_attributes m @ [a]\<rparr>) sdp) sdp)"

section \<open>Media\<close>

lemma next_token_moves:
  "osip_set_next_token s p c = Inr (Some (t, q)) \<Longrightarrow> 0 \<le> p \<and> p < q - 1 \<and> q \<le> int (length s)"
  by (auto simp: osip_set_next_token_def bindR_eq_Inr Let_def rd_def split: if_splits)

text \<open>The payloads in front of the last one; the search for a blank starts one character late.\<close>

function payload_loop :: "string \<Rightarrow> int \<Rightarrow> int \<Rightarrow> string list \<Rightarrow> (string list \<times> int) option res" where
  "payload_loop s tmp eol acc =
     bindR (strchr s (tmp + 1) (CHR '' '')) (\<lambda>space.
       if (case space of None \<Rightarrow> True | Some space \<Rightarrow> eol < space) then Inr (Some (acc, tmp))
       else bindO (osip_set_next_token s tmp (CHR '' '')) (\<lambda>(t, tmp). payload_loop s tmp eol (acc @ [t])))"
  by pat_completeness auto

termination payload_loop
  by (relation "measure (\<lambda>(s, tmp, eol, acc). nat (int (length s) - tmp))") (auto dest!: next_token_moves)

declare payload_loop.simps [simp del]

definition payloads :: "string \<Rightarrow> int \<Rightarrow> int \<Rightarrow> string list option res" where
  "payloads s tmp eol =
     bindO (payload_loop s tmp eol []) (\<lambda>(ps, tmp).
       if tmp < eol then bindO (last_token s tmp) (\<lambda>(t, _). Inr (Some (ps @ [t]))) else Inr (Some ps))"

text \<open>The port, and perhaps a number of ports behind a slash.\<close>

definition media_ports :: "string \<Rightarrow> int \<Rightarrow> (string \<times> string option \<times> int) option res" where
  "media_ports s tmp =
     bindR (strchr s tmp (CHR ''/'')) (\<lambda>slash. bindO (strchr s tmp (CHR '' '')) (\<lambda>space.
       if (case slash of None \<Rightarrow> False | Some slash \<Rightarrow> slash < space) then
         bindO (osip_set_next_token s tmp (CHR ''/'')) (\<lambda>(port, tmp).
         bindO (osip_set_next_token s tmp (CHR '' '')) (\<lambda>(n, tmp). Inr (Some (port, Some n, tmp))))
       else bindO (osip_set_next_token s tmp (CHR '' '')) (\<lambda>(port, tmp). Inr (Some (port, None, tmp)))))"

definition media :: "string \<Rightarrow> int \<Rightarrow> int \<Rightarrow> sdp_media option res" where
  "media s tmp eol =
     bindO (osip_set_next_token s tmp (CHR '' '')) (\<lambda>(name, tmp).
     bindO (media_ports s tmp) (\<lambda>(port, n, tmp).
     bindO (bindR (osip_set_next_token s tmp (CHR '' '')) (\<lambda>r. case r of Some x \<Rightarrow> Inr (Some x) | None \<Rightarrow> last_token s tmp)) (\<lambda>(proto, tmp).
     bindO (payloads s tmp eol) (\<lambda>ps.
       Inr (Some (sdp_media_init\<lparr>m_media := Some name, m_port := Some port, m_number_of_port := n, m_proto := Some proto, m_payloads := ps\<rparr>))))))"

definition sdp_message_parse_m :: sdp_reader where
  "sdp_message_parse_m = sdp_field (CHR ''m'') (\<lambda>sdp s equal eol.
     stored (media s (equal + 1) eol) (\<lambda>m. sdp\<lparr>m_medias := m_medias sdp @ [m]\<rparr>) sdp)"


section \<open>A whole description\<close>

text \<open>The reader for lines of one kind.\<close>

definition sdp_reader_of :: "char \<Rightarrow> sdp_reader" where
  "sdp_reader_of c =
     (if c = CHR ''v'' then sdp_message_parse_v else if c = CHR ''o'' then sdp_message_parse_o
      else if c = CHR ''s'' then sdp_message_parse_s else if c = CHR ''i'' then sdp_message_parse_i
      else if c = CHR ''u'' then sdp_message_parse_u else if c = CHR ''e'' then sdp_message_parse_e
      else if c = CHR ''p'' then sdp_message_parse_p else if c = CHR ''c'' then sdp_message_parse_c
      else if c = CHR ''b'' then sdp_message_parse_b else if c = CHR ''t'' then sdp_message_parse_t
      else if c = CHR ''r'' then sdp_message_parse_r else if c = CHR ''z'' then sdp_message_parse_z
      else if c = CHR ''k'' then sdp_message_parse_k else if c = CHR ''a'' then sdp_message_parse_a
      else sdp_message_parse_m)"

text \<open>The function returns, or goes on at a position.\<close>

datatype sdp_flow = Return int sdp_message | Go sdp_message int

definition thenF :: "sdp_flow res \<Rightarrow> (sdp_message \<Rightarrow> int \<Rightarrow> sdp_flow res) \<Rightarrow> sdp_flow res" where
  "thenF x f = bindR x (\<lambda>r. case r of Return i sdp \<Rightarrow> Inr (Return i sdp) | Go sdp ptr \<Rightarrow> f sdp ptr)"

lemma thenF_cong [fundef_cong]:
  "x = y \<Longrightarrow> (\<And>sdp p. y = Inr (Go sdp p) \<Longrightarrow> f sdp p = g sdp p) \<Longrightarrow> thenF x f = thenF y g"
  by (cases y) (auto simp: thenF_def split: sdp_flow.split)

type_synonym sdp_step = "sdp_message \<Rightarrow> string \<Rightarrow> int \<Rightarrow> sdp_flow res"

definition mandatory :: "char \<Rightarrow> sdp_step" where
  "mandatory c sdp s ptr = bindR (sdp_reader_of c sdp s ptr) (\<lambda>(i, sdp, next).
     Inr (if i = - 1 \<or> i = 0 then Return (- 1) sdp else Go sdp next))"

definition optional :: "char \<Rightarrow> sdp_step" where
  "optional c sdp s ptr = bindR (sdp_reader_of c sdp s ptr) (\<lambda>(i, sdp, next).
     Inr (if i = - 1 then Return (- 1) sdp else Go sdp next))"

text \<open>Most of the later steps return with 0 where the text ends, or an empty line starts.\<close>

definition or_end_here :: "sdp_step" where
  "or_end_here sdp s ptr = bindR (rd s ptr) (\<lambda>c. Inr (if c = NUL \<or> cr_lf c then Return 0 sdp else Go sdp ptr))"

definition optional_end :: "char \<Rightarrow> sdp_step" where
  "optional_end c sdp s ptr = thenF (optional c sdp s ptr) (\<lambda>sdp ptr. or_end_here sdp s ptr)"

lemma sdp_line_bounds:
  "sdp_line c s p = Inr (Line e q) \<Longrightarrow> 0 \<le> p \<and> p \<le> e \<and> e + 1 < q \<and> q < int (length s)"
  by (auto simp: sdp_line_def bindR_eq_Inr split: if_splits dest!: skip_chars_reads)

lemma after_line_bounds: "after_line s q = Inr n \<Longrightarrow> q < n \<and> n \<le> int (length s)"
  by (auto simp: after_line_def bindR_eq_Inr rd_def split: if_splits)

lemma sdp_field_cases:
  assumes "sdp_field c f sdp s p = Inr (i, sdp', q)"
  obtains "i = - 1" "q = p" | "i = 0" "q = p" "sdp' = sdp"
  | e l where "i = 1" "sdp_line c s p = Inr (Line e l)" "f sdp s e l = Inr (True, sdp')" "after_line s l = Inr q"
proof -
  obtain l where l: "sdp_line c s p = Inr l" using assms by (cases "sdp_line c s p") (auto simp: sdp_field_def)
  show thesis
  proof (cases l)
    case (Line e eol)
    with assms l that show ?thesis by (auto simp: sdp_field_def bindR_eq_Inr split: if_splits)
  qed (use assms l that in \<open>auto simp: sdp_field_def\<close>)
qed

lemma sdp_field_moves:
  assumes "sdp_field c f sdp s p = Inr (i, sdp', q)"
  shows "i = - 1 \<and> q = p \<or> i = 0 \<and> q = p \<or> i = 1 \<and> 0 \<le> p \<and> p < q \<and> q \<le> int (length s)"
  using assms by (cases rule: sdp_field_cases) (auto dest!: sdp_line_bounds after_line_bounds)

lemmas sdp_reader_defs = sdp_message_parse_o_def sdp_message_parse_s_def sdp_message_parse_i_def sdp_message_parse_u_def
  sdp_message_parse_e_def sdp_message_parse_p_def sdp_message_parse_c_def sdp_message_parse_b_def sdp_message_parse_t_def
  sdp_message_parse_r_def sdp_message_parse_z_def sdp_message_parse_k_def sdp_message_parse_a_def sdp_message_parse_m_def

lemma parse_v_field: "sdp_message_parse_v sdp s p = Inr (i, sdp', q) \<Longrightarrow> q = p \<and> i = 0 \<or> (\<exists>f. sdp_field (CHR ''v'') f sdp s p = Inr (i, sdp', q))"
  by (auto simp: sdp_message_parse_v_def bindR_eq_Inr split: if_splits)

lemma sdp_reader_field: "sdp_reader_of c sdp s p = Inr (i, sdp', q) \<Longrightarrow> q = p \<and> i = 0 \<or> (\<exists>d f. sdp_field d f sdp s p = Inr (i, sdp', q))"
  unfolding sdp_reader_of_def using parse_v_field [of sdp s p i sdp' q] by (auto simp: sdp_reader_defs split: if_splits)

lemma sdp_reader_moves:
  assumes "sdp_reader_of c sdp s p = Inr (i, sdp', q)"
  shows "p \<le> q" "q \<noteq> p \<longrightarrow> q \<le> int (length s)" "i = 1 \<longrightarrow> 0 \<le> p \<and> p < q \<and> q \<le> int (length s)"
  using sdp_reader_field [OF assms] by (auto dest!: sdp_field_moves)

text \<open>All lines of one kind; with the test for the end behind each of them.\<close>

function all_of :: "char \<Rightarrow> sdp_step" where
  "all_of c sdp s ptr = bindR (sdp_reader_of c sdp s ptr) (\<lambda>(i, sdp, next).
     if i = - 1 then Inr (Return (- 1) sdp) else if i = 1 then all_of c sdp s next else Inr (Go sdp next))"
  by pat_completeness auto

termination all_of
  by (relation "measure (\<lambda>(c, sdp, s, p). nat (int (length s) - p))") (auto dest!: sdp_reader_moves(3))

declare all_of.simps [simp del]

function all_of_end :: "char \<Rightarrow> sdp_step" where
  "all_of_end c sdp s ptr = bindR (sdp_reader_of c sdp s ptr) (\<lambda>(i, sdp, next).
     if i = - 1 then Inr (Return (- 1) sdp)
     else thenF (or_end_here sdp s next) (\<lambda>sdp next. if i = 1 then all_of_end c sdp s next else Inr (Go sdp next)))"
  by pat_completeness auto

termination all_of_end
  by (relation "measure (\<lambda>(c, sdp, s, p). nat (int (length s) - p))")
    (auto dest!: sdp_reader_moves(3) simp: or_end_here_def bindR_eq_Inr split: if_splits)

declare all_of_end.simps [simp del]

lemma thenF_Go: "thenF x f = Inr (Go sdp q) \<longleftrightarrow> (\<exists>sdp' p. x = Inr (Go sdp' p) \<and> f sdp' p = Inr (Go sdp q))"
  by (cases x) (auto simp: thenF_def split: sdp_flow.split)

lemma or_end_here_Go: "or_end_here sdp s p = Inr (Go sdp' q) \<Longrightarrow> q = p \<and> sdp' = sdp \<and> 0 \<le> p \<and> p < int (length s)"
  by (auto simp: or_end_here_def bindR_eq_Inr rd_def split: if_splits)

lemma optional_end_moves: "optional_end c sdp s p = Inr (Go sdp' q) \<Longrightarrow> p \<le> q \<and> q < int (length s)"
  by (auto simp: optional_end_def optional_def thenF_Go bindR_eq_Inr split: if_splits dest!: or_end_here_Go sdp_reader_moves(1))

lemma all_of_end_moves: "all_of_end c sdp s p = Inr (Go sdp' q) \<Longrightarrow> p \<le> q \<and> q < int (length s)"
proof (induction "nat (int (length s) - p)" arbitrary: sdp p rule: less_induct)
  case less
  then obtain i sdp1 n sdp2 m where r: "sdp_reader_of c sdp s p = Inr (i, sdp1, n)" "or_end_here sdp1 s n = Inr (Go sdp2 m)"
      and rest: "(if i = 1 then all_of_end c sdp2 s m else Inr (Go sdp2 m)) = Inr (Go sdp' q)"
    by (subst (asm) all_of_end.simps) (auto simp: bindR_eq_Inr thenF_Go split: if_splits)
  note b = sdp_reader_moves [OF r(1)] or_end_here_Go [OF r(2)]
  show ?case
  proof (cases "i = 1")
    case True
    with rest have "all_of_end c sdp2 s m = Inr (Go sdp' q)" by simp
    moreover have "nat (int (length s) - m) < nat (int (length s) - p)" using b True by auto
    ultimately show ?thesis using less.hyps b by fastforce
  qed (use b rest in auto)
qed

text \<open>The repetitions of a time and further times.\<close>

function more_times :: sdp_step where
  "more_times sdp s ptr =
     thenF (all_of_end (CHR ''r'') sdp s ptr) (\<lambda>sdp ptr.
     bindR (sdp_message_parse_t sdp s ptr) (\<lambda>(i, sdp, next).
       if i = - 1 then Inr (Return (- 1) sdp)
       else thenF (or_end_here sdp s next) (\<lambda>sdp next. if i = 0 then Inr (Go sdp next) else more_times sdp s next)))"
  by pat_completeness auto

lemma parse_t_reader: "sdp_message_parse_t = sdp_reader_of (CHR ''t'')"
  by (simp add: sdp_reader_of_def)

lemma parse_m_reader: "sdp_message_parse_m = sdp_reader_of (CHR ''m'')"
  by (simp add: sdp_reader_of_def)

lemma sdp_reader_step:
  "sdp_reader_of c sdp s p = Inr (i, sdp', q) \<Longrightarrow> i = 1 \<and> 0 \<le> p \<and> p < q \<and> q \<le> int (length s) \<or> (i = - 1 \<or> i = 0) \<and> q = p"
  using sdp_reader_field [of c sdp s p i sdp' q] by (auto dest!: sdp_field_moves)

termination more_times
  by (relation "measure (\<lambda>(sdp, s, p). nat (int (length s) - p))")
    (auto simp: parse_t_reader dest!: all_of_end_moves or_end_here_Go sdp_reader_step)

declare more_times.simps [simp del]

text \<open>A media and what belongs to it, as long as the first line is one of a media.\<close>

function all_medias :: sdp_step where
  "all_medias sdp s ptr =
     bindR (sdp_message_parse_m sdp s ptr) (\<lambda>(more_m_header, sdp, next).
       if more_m_header = - 1 then Inr (Return (- 1) sdp)
       else thenF (or_end_here sdp s next) (\<lambda>sdp ptr.
         thenF (optional_end (CHR ''i'') sdp s ptr) (\<lambda>sdp ptr.
         thenF (all_of_end (CHR ''c'') sdp s ptr) (\<lambda>sdp ptr.
         thenF (all_of_end (CHR ''b'') sdp s ptr) (\<lambda>sdp ptr.
         thenF (optional_end (CHR ''k'') sdp s ptr) (\<lambda>sdp ptr.
         thenF (all_of_end (CHR ''a'') sdp s ptr) (\<lambda>sdp ptr.
           if more_m_header = 1 then all_medias sdp s ptr else Inr (Go sdp ptr))))))))"
  by pat_completeness auto

termination all_medias
  by (relation "measure (\<lambda>(sdp, s, p). nat (int (length s) - p))")
    (auto simp: parse_m_reader dest!: all_of_end_moves optional_end_moves or_end_here_Go sdp_reader_step)

declare all_medias.simps [simp del]

definition sdp_flow_of :: "sdp_step" where
  "sdp_flow_of sdp s ptr =
     thenF (mandatory (CHR ''v'') sdp s ptr) (\<lambda>sdp ptr.
     thenF (optional (CHR ''s'') sdp s ptr) (\<lambda>sdp ptr.
     thenF (mandatory (CHR ''o'') sdp s ptr) (\<lambda>sdp ptr.
     thenF (optional (CHR ''s'') sdp s ptr) (\<lambda>sdp ptr.
     thenF (optional (CHR ''i'') sdp s ptr) (\<lambda>sdp ptr.
     thenF (optional (CHR ''u'') sdp s ptr) (\<lambda>sdp ptr.
     thenF (all_of (CHR ''e'') sdp s ptr) (\<lambda>sdp ptr.
     thenF (all_of (CHR ''p'') sdp s ptr) (\<lambda>sdp ptr.
     thenF (optional (CHR ''c'') sdp s ptr) (\<lambda>sdp ptr.
     thenF (all_of (CHR ''b'') sdp s ptr) (\<lambda>sdp ptr.
     thenF (mandatory (CHR ''t'') sdp s ptr) (\<lambda>sdp ptr.
     thenF (or_end_here sdp s ptr) (\<lambda>sdp ptr.
     thenF (all_of_end (CHR ''r'') sdp s ptr) (\<lambda>sdp ptr.
     thenF (optional_end (CHR ''t'') sdp s ptr) (\<lambda>sdp ptr.
     thenF (more_times sdp s ptr) (\<lambda>sdp ptr.
     thenF (optional_end (CHR ''z'') sdp s ptr) (\<lambda>sdp ptr.
     thenF (optional_end (CHR ''k'') sdp s ptr) (\<lambda>sdp ptr.
     thenF (all_of_end (CHR ''a'') sdp s ptr) (\<lambda>sdp ptr. all_medias sdp s ptr))))))))))))))))))"

definition sdp_message_parse :: "sdp_message \<Rightarrow> string \<Rightarrow> (int \<times> sdp_message) res" where
  "sdp_message_parse sdp buf =
     bindR (sdp_flow_of sdp buf 0) (\<lambda>r. Inr (case r of Return i sdp \<Rightarrow> (i, sdp) | Go sdp _ \<Rightarrow> (0, sdp)))"

section \<open>Printing\<close>

text \<open>
  \<open>__osip_sdp_append_string\<close> behind the text that is there. The check leaves no room for the NUL; and when the
  block is enlarged, only the callee learns its new place, so every later use goes to a block that is gone.
\<close>

definition sdp_append_string :: "nat \<Rightarrow> string \<Rightarrow> string \<Rightarrow> string res" where
  "sdp_append_string cap cur t =
     (if length cur + length t < cap then Inr (cur @ t) else Inl Buffer_overflow)"

text \<open>The texts one after the other.\<close>

definition sdp_appends :: "nat \<Rightarrow> string list \<Rightarrow> string \<Rightarrow> string res" where
  "sdp_appends cap ts cur = foldR (\<lambda>t cur. sdp_append_string cap cur t) ts cur"

type_synonym 'a sdp_printer = "nat \<Rightarrow> string \<Rightarrow> 'a \<Rightarrow> string option res"

definition in_line :: "nat \<Rightarrow> string \<Rightarrow> string list \<Rightarrow> string option res" where
  "in_line cap cur ts = bindR (sdp_appends cap ts cur) (\<lambda>cur. Inr (Some cur))"

definition crlf_text :: string where
  "crlf_text = [CR, LF]"

definition sdp_append_connection :: "sdp_connection sdp_printer" where
  "sdp_append_connection cap cur c =
     (case (c_nettype c, c_addrtype c, c_addr c) of (Some nt, Some at, Some ad) \<Rightarrow>
        bindO (in_line cap cur [''c='', nt, '' '', at, '' '', ad]) (\<lambda>cur.
        bindO (case c_addr_multicast_ttl c of None \<Rightarrow> Inr (Some cur) | Some v \<Rightarrow> in_line cap cur [''/'', v]) (\<lambda>cur.
        bindO (case c_addr_multicast_int c of None \<Rightarrow> Inr (Some cur) | Some v \<Rightarrow> in_line cap cur [''/'', v]) (\<lambda>cur.
          in_line cap cur [crlf_text])))
      | _ \<Rightarrow> Inr None)"

definition sdp_append_bandwidth :: "sdp_bandwidth sdp_printer" where
  "sdp_append_bandwidth cap cur b =
     (case (b_bwtype b, b_bandwidth b) of (Some t, Some v) \<Rightarrow> in_line cap cur [''b='', t, '':'', v, crlf_text] | _ \<Rightarrow> Inr None)"

definition sdp_append_time_descr :: "sdp_time_descr sdp_printer" where
  "sdp_append_time_descr cap cur t =
     (case (t_start_time t, t_stop_time t) of (Some a, Some b) \<Rightarrow>
        bindO (in_line cap cur [''t='', a, '' '', b, crlf_text]) (\<lambda>cur.
          in_line cap cur (concat (map (\<lambda>r. [''r='', r, crlf_text]) (r_repeats t))))
      | _ \<Rightarrow> Inr None)"

definition sdp_append_key :: "sdp_key sdp_printer" where
  "sdp_append_key cap cur k =
     (case k_keytype k of None \<Rightarrow> Inr None | Some t \<Rightarrow>
        in_line cap cur ([''k='', t] @ (case k_keydata k of None \<Rightarrow> [] | Some v \<Rightarrow> ['':'', v]) @ [crlf_text]))"

definition sdp_append_attribute :: "sdp_attribute sdp_printer" where
  "sdp_append_attribute cap cur a =
     (case a_att_field a of None \<Rightarrow> Inr None | Some t \<Rightarrow>
        in_line cap cur ([''a='', t] @ (case a_att_value a of None \<Rightarrow> [] | Some v \<Rightarrow> ['':'', v]) @ [crlf_text]))"

fun sdp_append_all :: "'a sdp_printer \<Rightarrow> nat \<Rightarrow> string \<Rightarrow> 'a list \<Rightarrow> string option res" where
  "sdp_append_all f cap cur [] = Inr (Some cur)"
| "sdp_append_all f cap cur (x # xs) = bindO (f cap cur x) (\<lambda>cur. sdp_append_all f cap cur xs)"

definition sdp_append_option :: "'a sdp_printer \<Rightarrow> nat \<Rightarrow> string \<Rightarrow> 'a option \<Rightarrow> string option res" where
  "sdp_append_option f cap cur v = (case v of None \<Rightarrow> Inr (Some cur) | Some x \<Rightarrow> f cap cur x)"

definition sdp_append_line :: "string \<Rightarrow> string sdp_printer" where
  "sdp_append_line prefix cap cur v = in_line cap cur [prefix, v, crlf_text]"

definition sdp_append_media :: "sdp_media sdp_printer" where
  "sdp_append_media cap cur m =
     (case (m_media m, m_port m, m_proto m) of (Some name, Some port, Some proto) \<Rightarrow>
        bindO (in_line cap cur ([''m='', name, '' '', port] @
          (case m_number_of_port m of None \<Rightarrow> [] | Some n \<Rightarrow> [''/'', n]) @ ['' '', proto] @
          concat (map (\<lambda>p. ['' '', p]) (m_payloads m)) @ [crlf_text])) (\<lambda>cur.
        bindO (sdp_append_option (sdp_append_line ''i='') cap cur (media_i_info m)) (\<lambda>cur.
        bindO (sdp_append_all sdp_append_connection cap cur (c_connections m)) (\<lambda>cur.
        bindO (sdp_append_all sdp_append_bandwidth cap cur (media_b_bandwidths m)) (\<lambda>cur.
        bindO (sdp_append_option sdp_append_key cap cur (media_k_key m)) (\<lambda>cur.
          sdp_append_all sdp_append_attribute cap cur (media_a_attributes m))))))
      | _ \<Rightarrow> Inr None)"

definition sdp_message_to_str :: "sdp_message \<Rightarrow> string option res" where
  "sdp_message_to_str sdp =
     (let cap = 4000 in
      case (v_version sdp, o_username sdp, o_sess_id sdp, o_sess_version sdp, o_nettype sdp, o_addrtype sdp, o_addr sdp) of
        (Some v, Some u, Some i, Some n, Some nt, Some at, Some ad) \<Rightarrow>
          bindO (in_line cap [] [''v='', v, crlf_text, ''o='', u, '' '', i, '' '', n, '' '', nt, '' '', at, '' '', ad, crlf_text]) (\<lambda>cur.
          bindO (sdp_append_option (sdp_append_line ''s='') cap cur (s_name sdp)) (\<lambda>cur.
          bindO (sdp_append_option (sdp_append_line ''i='') cap cur (i_info sdp)) (\<lambda>cur.
          bindO (sdp_append_option (sdp_append_line ''u='') cap cur (u_uri sdp)) (\<lambda>cur.
          bindO (sdp_append_all (sdp_append_line ''e='') cap cur (e_emails sdp)) (\<lambda>cur.
          bindO (sdp_append_all (sdp_append_line ''p='') cap cur (p_phones sdp)) (\<lambda>cur.
          bindO (sdp_append_option sdp_append_connection cap cur (c_connection sdp)) (\<lambda>cur.
          bindO (sdp_append_all sdp_append_bandwidth cap cur (b_bandwidths sdp)) (\<lambda>cur.
          bindO (sdp_append_all sdp_append_time_descr cap cur (t_descrs sdp)) (\<lambda>cur.
          bindO (sdp_append_option (sdp_append_line ''z='') cap cur (z_adjustments sdp)) (\<lambda>cur.
          bindO (sdp_append_option sdp_append_key cap cur (k_key sdp)) (\<lambda>cur.
          bindO (sdp_append_all sdp_append_attribute cap cur (a_attributes sdp)) (\<lambda>cur.
            sdp_append_all sdp_append_media cap cur (m_medias sdp)))))))))))))
      | _ \<Rightarrow> Inr None)"

text \<open>A copy is made by printing and reading.\<close>

definition sdp_message_clone :: "sdp_message \<Rightarrow> sdp_message option res" where
  "sdp_message_clone sdp =
     bindO (sdp_message_to_str sdp) (\<lambda>body. bindR (sdp_message_parse sdp_message_init body) (\<lambda>(i, dest).
       Inr (if i \<noteq> 0 then None else Some dest)))"

end
