(* ===== verification/Osip_Parse_Correct.thy ===== *)
theory Osip_Parse_Correct
  imports Osip_Parse Osip_Headers_Correct
begin

text \<open>
  Correctness of reading a message: what is stored is complete enough to be used and printed, and reading
  stays within the block, but for the faults that are named: a message that ends in a folded line, a
  header or a value that is made of blanks only, and parts of a body that are too short.
\<close>

section \<open>What a message holds\<close>

definition address_ok_header :: "name_addr \<Rightarrow> bool" where
  "address_ok_header f \<longleftrightarrow> (\<exists>u. from_url f = Some u \<and> parsed (0, u))"

definition contact_ok :: "name_addr \<Rightarrow> bool" where
  "contact_ok f \<longleftrightarrow> address_ok_header f \<or> (\<exists>d. displayname f = Some d \<and> take 1 d = ''*'')"

definition via_ok :: "via \<Rightarrow> bool" where
  "via_ok v \<longleftrightarrow> via_version v \<noteq> None \<and> via_protocol v \<noteq> None \<and> via_host v \<noteq> None"

definition cseq_ok :: "cseq \<Rightarrow> bool" where
  "cseq_ok c \<longleftrightarrow> cseq_number c \<noteq> None \<and> cseq_method c \<noteq> None"

definition call_id_ok :: "call_id \<Rightarrow> bool" where
  "call_id_ok c \<longleftrightarrow> call_id_number c \<noteq> None"

definition content_type_ok :: "content_type \<Rightarrow> bool" where
  "content_type_ok c \<longleftrightarrow> (ct_type c = None) = (ct_subtype c = None)"

definition element_ok :: "element \<Rightarrow> bool" where
  "element_ok e \<longleftrightarrow> elt_element e \<noteq> None"

definition body_ok :: "osip_body \<Rightarrow> bool" where
  "body_ok b \<longleftrightarrow> body_length b = int (length (body_text b)) \<and> (\<forall>c. body_content_type b = Some c \<longrightarrow> content_type_ok c)"

definition each :: "('a \<Rightarrow> bool) \<Rightarrow> 'a option list \<Rightarrow> bool" where
  "each P xs \<longleftrightarrow> list_all (\<lambda>x. \<exists>y. x = Some y \<and> P y) xs"

definition sip_ok :: "sip \<Rightarrow> bool" where
  "sip_ok m \<longleftrightarrow>
     each via_ok (vias m) \<and> each address_ok_header (routes m) \<and> each address_ok_header (record_routes m) \<and>
     each contact_ok (msg_contacts m) \<and> pred_option address_ok_header (msg_from m) \<and> pred_option address_ok_header (msg_to m) \<and>
     pred_option call_id_ok (msg_call_id m) \<and> pred_option cseq_ok (msg_cseq m) \<and>
     list_all content_type_ok (accepts m) \<and> list_all element_ok (accept_encodings m) \<and> list_all element_ok (accept_languages m) \<and>
     list_all element_ok (alert_infos m) \<and> list_all element_ok (call_infos m) \<and> list_all element_ok (error_infos m) \<and>
     pred_option content_type_ok (msg_content_type m) \<and> list_all body_ok (bodies m)"

lemma each_append [simp]: "each P (xs @ [Some x]) = (each P xs \<and> P x)"
  by (simp add: each_def)

lemma each_Nil [simp]: "each P []"
  by (simp add: each_def)

lemma sip_ok_init: "sip_ok osip_message_init"
  by (simp add: sip_ok_def osip_message_init_def)

section \<open>Values without blanks around them\<close>

definition trimmed :: "string \<Rightarrow> bool" where
  "trimmed s \<longleftrightarrow> osip_clrspace s = s"

lemma trimmed_clrspace: "trimmed (osip_clrspace s)"
proof -
  obtain bs core es where c: "osip_clrspace s = core" "core \<noteq> [] \<Longrightarrow> \<not> is_blank (hd core) \<and> \<not> is_blank (last core)"
    using blank_core by metis
  have "osip_clrspace core = core"
  proof (cases "core = []")
    case False
    with c(2) have "dropWhile is_blank core = core" "dropWhile is_blank (rev core) = rev core"
      by (cases core; simp; fail) (metis False c(2) dropWhile_eq_self_iff hd_rev rev_is_Nil_conv)
    then show ?thesis by (simp add: osip_clrspace_def)
  qed (simp add: osip_clrspace_def)
  with c(1) show ?thesis by (simp add: trimmed_def)
qed

lemma trimmed_ends:
  assumes "trimmed s" "s \<noteq> []"
  shows "\<not> is_blank (hd s)" "\<not> is_blank (last s)"
proof -
  obtain bs core es where c: "osip_clrspace s = core" "core \<noteq> [] \<Longrightarrow> \<not> is_blank (hd core) \<and> \<not> is_blank (last core)"
    using blank_core by metis
  with assms show "\<not> is_blank (hd s)" "\<not> is_blank (last s)" by (auto simp: trimmed_def)
qed

lemma clrspace_empty: "osip_clrspace s = [] \<longleftrightarrow> list_all is_blank s"
proof -
  have "dropWhile is_blank (rev (dropWhile is_blank s)) = [] \<longleftrightarrow> list_all is_blank s"
    by (auto simp: dropWhile_eq_Nil_conv list_all_iff dest: set_dropWhileD)
      (metis dropWhile_eq_Nil_conv hd_dropWhile list.set_sel(1))
  then show ?thesis by (simp add: osip_clrspace_def)
qed

lemma trimmed_no_overrun: "trimmed s \<Longrightarrow> \<not> via_overruns s"
  using trimmed_ends(2) [of s] by (auto simp: via_overruns_def is_blank_def)

definition value_ok :: "string option \<Rightarrow> bool" where
  "value_ok v \<longleftrightarrow> (\<forall>s. v = Some s \<longrightarrow> trimmed s \<and> s \<noteq> [])"

section \<open>The setters keep messages well-formed\<close>

definition start_line :: "sip \<Rightarrow> int \<times> string option \<times> string option \<times> uri option \<times> string option" where
  "start_line m = (status_code m, sip_method m, sip_version m, req_uri m, reason_phrase m)"

text \<open>A message that is well-formed stays so, and its start line stays the same.\<close>

definition kept :: "sip \<Rightarrow> sip \<Rightarrow> bool" where
  "kept m m' \<longleftrightarrow> (sip_ok m \<longrightarrow> sip_ok m') \<and> start_line m' = start_line m"

definition keeps_ok :: "(int \<times> sip) res \<Rightarrow> sip \<Rightarrow> bool" where
  "keeps_ok r m \<longleftrightarrow> ensures r (\<lambda>(i, m'). kept m m')"

lemma kept_refl [simp]: "kept m m"
  by (simp add: kept_def)

lemma kept_trans: "kept m m' \<Longrightarrow> kept m' m'' \<Longrightarrow> kept m m''"
  by (simp add: kept_def)

lemma kept_property [simp]: "kept m (m'\<lparr>message_property := p\<rparr>) = kept m m'" "kept (m\<lparr>message_property := p\<rparr>) m' = kept m m'"
  by (simp_all add: kept_def sip_ok_def start_line_def)

lemma sip_ok_property [simp]: "sip_ok (m\<lparr>message_property := p\<rparr>) = sip_ok m"
  by (simp add: sip_ok_def)

lemma set_once_ok:
  assumes "\<And>s. trimmed s \<Longrightarrow> s \<noteq> [] \<Longrightarrow> ensures (parse s) (\<lambda>r. \<forall>x. r = Some x \<longrightarrow> ok x)"
    "\<And>m r. pred_option ok r \<Longrightarrow> kept m (put r m)" "value_ok v"
  shows "keeps_ok (set_once parse get put m v) m"
proof (cases "no_value v \<or> get m \<noteq> None")
  case False
  then obtain s where s: "v = Some s" "trimmed s" "s \<noteq> []" using assms(3) by (auto simp: no_value_def value_ok_def)
  then obtain r where r: "parse s = Inr r" "\<And>x. r = Some x \<Longrightarrow> ok x" using assms(1) [of s] by (auto simp: ensures_iff)
  then have "pred_option ok r" by (cases r) auto
  then have "kept m (put r (m\<lparr>message_property := 2\<rparr>))" using assms(2) [of r "m\<lparr>message_property := 2\<rparr>"] by simp
  with False s r(1) show ?thesis by (auto simp: keeps_ok_def set_once_def)
qed (auto simp: keeps_ok_def set_once_def)

lemma set_in_list_ok:
  assumes "\<And>s. trimmed s \<Longrightarrow> s \<noteq> [] \<Longrightarrow> ensures (parse s) (\<lambda>r. \<forall>x. r = Some x \<longrightarrow> ok x)"
    "\<And>m x. ok x \<Longrightarrow> kept m (add x m)" "value_ok v"
  shows "keeps_ok (set_in_list parse add m v) m"
proof (cases "no_value v")
  case False
  then obtain s where s: "v = Some s" "trimmed s" "s \<noteq> []" using assms(3) by (auto simp: no_value_def value_ok_def)
  then obtain r where "parse s = Inr r" "\<And>x. r = Some x \<Longrightarrow> ok x" using assms(1) [of s] by (auto simp: ensures_iff)
  moreover have "kept m (add x (m\<lparr>message_property := 2\<rparr>))" if "ok x" for x
    using assms(2) [OF that, of "m\<lparr>message_property := 2\<rparr>"] by simp
  ultimately show ?thesis using False s by (auto simp: keeps_ok_def set_in_list_def split: option.splits)
qed (simp add: keeps_ok_def set_in_list_def)

lemma safe_any: "safe m \<Longrightarrow> ensures m (\<lambda>r. \<forall>x. r = Some x \<longrightarrow> True)"
  by simp

lemma cseq_parse_ok: "ensures (osip_cseq_parse s) (\<lambda>r. \<forall>x. r = Some x \<longrightarrow> cseq_ok x)"
  unfolding osip_cseq_parse_def cseq_ok_def
  by (auto simp: wp_simps strend_def intro!: wp_intros split: option.splits)

lemma call_id_parse_ok: "ensures (osip_call_id_parse s) (\<lambda>r. \<forall>x. r = Some x \<longrightarrow> call_id_ok x)"
proof -
  obtain r where r: "osip_call_id_parse s = Inr r" using call_id_safe [of s] by (auto simp: ensures_iff)
  then have "call_id_ok x" if "r = Some x" for x
    unfolding osip_call_id_parse_def using that
    by (auto simp: call_id_ok_def bindR_eq_Inr bindO_eq_Inr Let_def split: if_splits)
  with r show ?thesis by simp
qed

lemma via_parse_ok: "trimmed s \<Longrightarrow> ensures (osip_via_parse s) (\<lambda>r. \<forall>x. r = Some x \<longrightarrow> via_ok x)"
  using via_safe [OF trimmed_no_overrun] by (auto simp: via_ok_def elim!: ensures_mono)

lemma from_parse_ok: "ensures (osip_from_parse s) (\<lambda>r. \<forall>x. r = Some x \<longrightarrow> address_ok_header x)"
  unfolding osip_from_parse_def address_ok_header_def
  by (auto simp: wp_simps intro!: wp_intros wp_prod split: option.splits)

lemma contact_parse_ok: "ensures (osip_contact_parse s) (\<lambda>r. \<forall>x. r = Some x \<longrightarrow> contact_ok x)"
  using from_parse_ok [of s] by (auto simp: osip_contact_parse_def contact_ok_def elim!: ensures_mono)

lemma content_type_parse_ok: "ensures (osip_content_type_parse s) (\<lambda>r. \<forall>x. r = Some x \<longrightarrow> content_type_ok x)"
  unfolding osip_content_type_parse_def Let_def or_end_def content_type_ok_def
  by (auto simp: wp_simps strend_def osip_content_type_init_def intro!: wp_intros split: option.splits)

lemma accept_encoding_parse_ok: "ensures (osip_accept_encoding_parse s) (\<lambda>r. \<forall>x. r = Some x \<longrightarrow> element_ok x)"
  unfolding osip_accept_encoding_parse_def Let_def or_end_def element_ok_def
  by (auto simp: wp_simps strend_def intro!: wp_intros split: option.splits)

lemma call_info_parse_ok: "ensures (osip_call_info_parse s) (\<lambda>r. \<forall>x. r = Some x \<longrightarrow> element_ok x)"
  unfolding osip_call_info_parse_def Let_def or_end_def element_ok_def
  by (auto simp: wp_simps strend_def intro!: wp_intros split: option.splits)

lemmas parse_ok = cseq_parse_ok call_id_parse_ok via_parse_ok from_parse_ok contact_parse_ok content_type_parse_ok
  accept_encoding_parse_ok call_info_parse_ok safe_any [OF content_length_safe] safe_any [OF www_authenticate_safe]
  safe_any [OF authorization_safe] safe_any [OF authentication_info_safe]

lemmas setter_defs = osip_message_set_to_def osip_message_set_from_def osip_message_set_call_id_def osip_message_set_cseq_def
  osip_message_set_content_length_def osip_message_set_mime_version_def osip_message_set_via_def osip_message_set_contact_def
  osip_message_set_route_def osip_message_set_record_route_def osip_message_set_accept_encoding_def
  osip_message_set_accept_language_def osip_message_set_alert_info_def osip_message_set_error_info_def
  osip_message_set_call_info_def osip_message_set_allow_def osip_message_set_content_encoding_def
  osip_message_set_www_authenticate_def osip_message_set_proxy_authenticate_def osip_message_set_authorization_def
  osip_message_set_proxy_authorization_def osip_message_set_authentication_info_def osip_message_set_proxy_authentication_info_def

lemma set_content_type_ok: "value_ok v \<Longrightarrow> keeps_ok (osip_message_set_content_type m v) m"
proof -
  have "kept m (m\<lparr>message_property := 2, msg_content_type := r\<rparr>)" if "osip_content_type_parse s = Inr r" for s r
    using content_type_parse_ok [of s] that by (cases r) (auto simp: kept_def sip_ok_def start_line_def)
  moreover have "\<exists>r. osip_content_type_parse s = Inr r" for s
    using content_type_parse_ok [of s] by (auto simp: ensures_iff)
  ultimately show ?thesis
    unfolding keeps_ok_def osip_message_set_content_type_def
    by (auto simp: wp_simps) (metis ensures_simps(1))
qed

lemma set_accept_ok: "keeps_ok (osip_message_set_accept m v) m"
proof -
  obtain r where r: "(case v of None \<Rightarrow> Inr (Some osip_content_type_init) | Some s \<Rightarrow> osip_content_type_parse s) = Inr r"
      "\<And>x. r = Some x \<Longrightarrow> content_type_ok x"
  proof (cases v)
    case (Some s)
    with content_type_parse_ok [of s] that show ?thesis by (auto simp: ensures_iff)
  qed (use that in \<open>simp add: content_type_ok_def osip_content_type_init_def\<close>)
  then show ?thesis by (auto simp: osip_message_set_accept_def keeps_ok_def kept_def start_line_def sip_ok_def split: option.splits)
qed

lemma setters_ok: "c \<in> set pconfig \<Longrightarrow> value_ok v \<Longrightarrow> keeps_ok (cfg_setheader c m v) m"
proof -
  assume v: "value_ok v" and c: "c \<in> set pconfig"
  have once: "keeps_ok (set_once parse get put m v) m"
    if "\<And>s. trimmed s \<Longrightarrow> ensures (parse s) (\<lambda>r. \<forall>x. r = Some x \<longrightarrow> ok x)"
      "\<And>m r. pred_option ok r \<Longrightarrow> kept m (put r m)" for parse get put and ok :: "'b \<Rightarrow> bool"
    by (rule set_once_ok [OF _ that(2) v]) (rule that(1))
  have many: "keeps_ok (set_in_list parse add m v) m"
    if "\<And>s. trimmed s \<Longrightarrow> ensures (parse s) (\<lambda>r. \<forall>x. r = Some x \<longrightarrow> ok x)"
      "\<And>m x. ok x \<Longrightarrow> kept m (add x m)" for parse add and ok :: "'b \<Rightarrow> bool"
    by (rule set_in_list_ok [OF _ that(2) v]) (rule that(1))
  have "keeps_ok (osip_message_set_to m v) m"
    "keeps_ok (osip_message_set_from m v) m"
    "keeps_ok (osip_message_set_call_id m v) m"
    "keeps_ok (osip_message_set_cseq m v) m"
    "keeps_ok (osip_message_set_content_length m v) m"
    "keeps_ok (osip_message_set_mime_version m v) m"
    "keeps_ok (osip_message_set_via m v) m"
    "keeps_ok (osip_message_set_contact m v) m"
    "keeps_ok (osip_message_set_route m v) m"
    "keeps_ok (osip_message_set_record_route m v) m"
    "keeps_ok (osip_message_set_accept_encoding m v) m"
    "keeps_ok (osip_message_set_accept_language m v) m"
    "keeps_ok (osip_message_set_alert_info m v) m"
    "keeps_ok (osip_message_set_error_info m v) m"
    "keeps_ok (osip_message_set_call_info m v) m"
    "keeps_ok (osip_message_set_allow m v) m"
    "keeps_ok (osip_message_set_content_encoding m v) m"
    "keeps_ok (osip_message_set_www_authenticate m v) m"
    "keeps_ok (osip_message_set_proxy_authenticate m v) m"
    "keeps_ok (osip_message_set_authorization m v) m"
    "keeps_ok (osip_message_set_proxy_authorization m v) m"
    "keeps_ok (osip_message_set_authentication_info m v) m"
    "keeps_ok (osip_message_set_proxy_authentication_info m v) m"
    unfolding setter_defs
    by ((rule once [OF from_parse_ok] once [OF call_id_parse_ok] once [OF cseq_parse_ok] once [OF safe_any [OF content_length_safe]]
        many [OF via_parse_ok] many [OF contact_parse_ok] many [OF from_parse_ok] many [OF accept_encoding_parse_ok]
        many [OF call_info_parse_ok] many [OF safe_any [OF content_length_safe]] many [OF safe_any [OF www_authenticate_safe]]
        many [OF safe_any [OF authorization_safe]] many [OF safe_any [OF authentication_info_safe]];
      simp add: kept_def sip_ok_def start_line_def; fail)+)
  with c set_content_type_ok [OF v] set_accept_ok show ?thesis by (auto simp: pconfig_def cfg_def)
qed

section \<open>One header\<close>

lemma known_header_range: "0 \<le> osip_message_is_known_header name \<Longrightarrow> nat (osip_message_is_known_header name) < length pconfig"
proof -
  assume k: "0 \<le> osip_message_is_known_header name"
  obtain t where t: "parser_init = Some t" "hash_table_for header_names (length header_names) t" using parser_init_table by blast
  have "length header_names = length pconfig" using arg_cong [OF pconfig_names, of length] by simp
  moreover have "t ! hash_of name = - 1 \<or> (\<exists>i<length header_names. t ! hash_of name = int i)"
    using t(2) hash_of_less [of name] unfolding hash_table_for_def by blast
  ultimately show ?thesis using k by (auto simp: osip_message_is_known_header_def t(1) Let_def split: if_splits)
qed

lemma header_init_safe: "name \<noteq> [] \<Longrightarrow> (\<And>s. v = Some s \<Longrightarrow> s \<noteq> []) \<Longrightarrow> safe (header_init name v)"
proof -
  have one: "safe (osip_clrncpy (strend s + 1) s 0 (strend s))" if "s \<noteq> []" for s
    by (rule clrncpy_safe) (use that in \<open>cases s; simp add: strend_def\<close>)+
  show "name \<noteq> [] \<Longrightarrow> (\<And>s. v = Some s \<Longrightarrow> s \<noteq> []) \<Longrightarrow> safe (header_init name v)"
    using one by (cases v) (auto simp: header_init_def wp_simps elim!: ensures_mono)
qed

lemma set__header_ok:
  assumes "name \<noteq> []" "value_ok v"
  shows "keeps_ok (osip_message_set__header m name v) m"
proof (cases "0 \<le> osip_message_is_known_header name")
  case True
  let ?c = "pconfig ! nat (osip_message_is_known_header name)"
  have "keeps_ok (cfg_setheader ?c m v) m"
    using setters_ok [OF nth_mem [OF known_header_range [OF True]] assms(2)] .
  with True show ?thesis
    by (auto simp: osip_message_set__header_def osip_message_call_method_def keeps_ok_def wp_simps Let_def elim!: ensures_mono)
next
  case False
  have "safe (header_init name v)" by (rule header_init_safe) (use assms in \<open>auto simp: value_ok_def\<close>)
  with False show ?thesis
    by (auto simp: osip_message_set__header_def osip_message_set_header_def keeps_ok_def wp_simps Let_def kept_def start_line_def sip_ok_def elim!: ensures_mono)
qed

section \<open>Values separated by commas\<close>

definition is_comma :: "string \<Rightarrow> int option \<Rightarrow> bool" where
  "is_comma s c \<longleftrightarrow> (\<forall>i. c = Some i \<longrightarrow> 0 \<le> i \<and> i < int (length s) \<and> s ! nat i = CHR '','')"

lemma wp_comma [wp_intros]: "within s p \<Longrightarrow> (\<And>c. is_comma s c \<Longrightarrow> P c) \<Longrightarrow> ensures (strchr s p (CHR '','')) P"
  using wp_strchr [of p s P "CHR '',''"] by (simp add: is_comma_def)

lemma comma_outside_safe:
  "is_comma s t \<Longrightarrow> 0 \<le> q2 \<Longrightarrow> q2 < int (length s) \<Longrightarrow> ensures (comma_outside s t q1 q2) (is_comma s)"
proof (induction s t q1 q2 rule: comma_outside.induct)
  case (1 s t q1 q2)
  show ?case
  proof (cases t)
    case None
    then show ?thesis by (subst comma_outside.simps) (simp add: is_comma_def)
  next
    case (Some comma)
    show ?thesis
    proof (cases "comma < q1")
      case True
      with Some "1.prems" show ?thesis by (subst comma_outside.simps) simp
    next
      case False
      have w: "within s (q2 + 1)" using "1.prems" by simp
      obtain t' where t': "(if comma < q2 then strchr s (q2 + 1) (CHR '','') else Inr (Some comma)) = Inr t'" "is_comma s t'"
      proof (cases "comma < q2")
        case True
        then show ?thesis using that wp_comma [OF w, of "is_comma s"] by (auto simp: ensures_iff)
      qed (use that "1.prems"(1) Some in simp)
      obtain r where r: "osip_quote_find s (q2 + 1) = Inr r" using ensures_quote_find [OF w] by (auto simp: ensures_iff)
      show ?thesis
      proof (cases r)
        case None
        with Some False t' r show ?thesis by (subst comma_outside.simps) simp
      next
        case (Some q1')
        have b: "q2 + 1 \<le> q1'" "q1' < int (length s)" using quote_find_bounds [OF r [unfolded Some]] by auto
        then have w': "within s (q1' + 1)" using "1.prems" by simp
        obtain r' where r': "osip_quote_find s (q1' + 1) = Inr r'" using ensures_quote_find [OF w'] by (auto simp: ensures_iff)
        show ?thesis
        proof (cases r')
          case None
          with \<open>t = Some comma\<close> Some False t' r r' show ?thesis by (subst comma_outside.simps) simp
        next
          case (Some q2')
          have b': "0 \<le> q2'" "q2' < int (length s)" using quote_find_bounds [OF r' [unfolded Some]] b "1.prems" by auto
          have "ensures (comma_outside s t' q1' q2') (is_comma s)"
            by (rule "1.IH" [OF \<open>t = Some comma\<close> False t'(1) r \<open>r = Some q1'\<close> r' Some t'(2) b'])
          with \<open>t = Some comma\<close> \<open>r = Some q1'\<close> Some False t'(1) r r' show ?thesis
            by (subst comma_outside.simps) simp
        qed
      qed
    qed
  qed
qed

definition comma_case_ok :: "string \<Rightarrow> comma_case \<Rightarrow> bool" where
  "comma_case_ok s r \<longleftrightarrow> (case r of Bad_quotes \<Rightarrow> True | Skip_to p \<Rightarrow> within s p
     | Inside p c \<Rightarrow> within s p \<and> is_comma s c | Split c p \<Rightarrow> within s p \<and> is_comma s c)"

lemma split_at_comma_safe:
  assumes "within s ptr" "within s (comma + 1)"
  shows "ensures (split_at_comma s ptr comma) (comma_case_ok s)"
proof -
  obtain q1 where q1: "osip_quote_find s ptr = Inr q1" using ensures_quote_find [OF assms(1)] by (auto simp: ensures_iff)
  have next_ok: "ensures (strchr s (comma + 1) (CHR '','')) (\<lambda>c. comma_case_ok s (Split c (case c of None \<Rightarrow> ptr | Some c \<Rightarrow> c + 1)))"
    by (rule wp_comma [OF assms(2)]) (use assms(1) in \<open>auto simp: comma_case_ok_def is_comma_def split: option.splits\<close>)
  show ?thesis
  proof (cases q1)
    case None
    with q1 next_ok show ?thesis by (simp add: split_at_comma_def wp_simps)
  next
    case (Some quote1)
    have b: "0 \<le> quote1" "quote1 < int (length s)" using quote_find_bounds [OF q1 [unfolded Some]] by auto
    obtain q2 where q2: "osip_quote_find s (quote1 + 1) = Inr q2"
      using ensures_quote_find [of "quote1 + 1" s] b by (auto simp: ensures_iff)
    show ?thesis
    proof (cases q2)
      case None
      with q1 q2 Some show ?thesis by (simp add: split_at_comma_def comma_case_ok_def)
    next
      case (Some quote2)
      have b': "0 \<le> quote2" "quote2 < int (length s)" using quote_find_bounds [OF q2 [unfolded Some]] b by auto
      have far: "ensures (comma_outside s t quote1 quote2) (\<lambda>c. comma_case_ok s (Split c (case c of None \<Rightarrow> quote2 + 1 | Some c \<Rightarrow> c + 1)))"
        if "is_comma s t" for t
        by (rule ensures_mono [OF comma_outside_safe [OF that b']])
          (use b' in \<open>auto simp: comma_case_ok_def is_comma_def split: option.splits\<close>)
      have inside: "ensures (strchr s (quote2 + 1) (CHR '','')) (\<lambda>c. comma_case_ok s (Inside (quote2 + 1) c))"
        by (rule wp_comma) (use b' in \<open>auto simp: comma_case_ok_def\<close>)
      from q1 q2 \<open>q1 = Some quote1\<close> Some assms(2) b' far inside show ?thesis
        by (auto simp: split_at_comma_def wp_simps comma_case_ok_def intro!: wp_comma)
    qed
  qed
qed

text \<open>Blanks between two commas are taken for a value.\<close>

definition comma_blanks :: "string \<Rightarrow> bool" where
  "comma_blanks s \<longleftrightarrow> (\<exists>a bs d. s = a @ CHR '','' # bs @ CHR '','' # d \<and> bs \<noteq> [] \<and> list_all is_blank bs)"

definition value_start :: "string \<Rightarrow> int \<Rightarrow> bool" where
  "value_start s beg \<longleftrightarrow> 0 \<le> beg \<and> beg \<le> int (length s) \<and> (beg = 0 \<or> s ! nat (beg - 1) = CHR '','')"

lemma keeps_ok_trans:
  assumes "keeps_ok r m" "\<And>i m'. r = Inr (i, m') \<Longrightarrow> keeps_ok (f i m') m'"
  shows "keeps_ok (bindR r (\<lambda>(i, m'). f i m')) m"
proof -
  obtain i m' where "r = Inr (i, m')" "kept m m'" using assms(1) by (auto simp: keeps_ok_def ensures_iff)
  with assms(2) [of i m'] show ?thesis by (auto simp: keeps_ok_def elim!: ensures_mono kept_trans)
qed

lemma keeps_ok_done [simp]: "keeps_ok (Inr (i, m)) m"
  by (simp add: keeps_ok_def)

lemma last_value_ok:
  assumes "name \<noteq> []" "trimmed s" "within s beg"
  shows "keeps_ok (last_value name s beg m) m"
proof -
  let ?t = "drop (nat beg) s"
  obtain c where c: "rd s beg = Inr c" using rd_defined [of beg s] assms(3) by auto
  show ?thesis
  proof (cases "c = NUL")
    case True
    with c show ?thesis by (simp add: last_value_def)
  next
    case False
    show ?thesis
    proof (cases "beg = int (length s)")
      case True
      with c False show ?thesis by (simp add: rd_def)
    next
      case lt: False
      obtain d where d: "rd s (beg + 1) = Inr d" using rd_defined [of "beg + 1" s] assms(3) lt by auto
      have t: "?t \<noteq> []" "s \<noteq> []" "last ?t = last s" using assms(3) lt by auto
      have "last s \<in> set ?t" using last_in_set [OF t(1)] t(3) by simp
      then have "value_ok (Some (osip_clrspace ?t))"
        using trimmed_ends(2) [OF assms(2) t(2)] trimmed_clrspace [of ?t]
        by (auto simp: value_ok_def clrspace_empty list_all_iff)
      with c d False assms(1) show ?thesis by (auto simp: last_value_def set__header_ok)
    qed
  qed
qed

lemma nth_split: "i < length s \<Longrightarrow> s = take i s @ s ! i # drop (Suc i) s"
  by (simp add: id_take_nth_drop)

lemma piece_not_blank:
  assumes "trimmed s" "\<not> comma_blanks s" "value_start s beg" "beg < comma" "is_comma s (Some comma)"
  shows "osip_clrspace (take (nat (comma - beg)) (drop (nat beg) s)) \<noteq> []"
proof
  let ?bs = "take (nat (comma - beg)) (drop (nat beg) s)"
  assume "osip_clrspace ?bs = []"
  then have blank: "list_all is_blank ?bs" by (simp add: clrspace_empty)
  have c: "comma < int (length s)" "s ! nat comma = CHR '',''" "0 \<le> beg" using assms(3,5) by (auto simp: is_comma_def value_start_def)
  then have ne: "?bs \<noteq> []" using assms(4) by simp
  have tail: "drop (nat beg) s = ?bs @ CHR '','' # drop (Suc (nat comma)) s"
  proof -
    have "drop (nat beg) s = ?bs @ drop (nat comma) s"
      using c assms(4) by (metis append_take_drop_id drop_drop nat_diff_distrib le_add_diff_inverse2 less_imp_le nat_mono)
    moreover have "drop (nat comma) s = s ! nat comma # drop (Suc (nat comma)) s"
      by (rule Cons_nth_drop_Suc [symmetric]) (use c assms(4) in linarith)
    ultimately show ?thesis using c by simp
  qed
  show False
  proof (cases "beg = 0")
    case True
    with tail have s: "s = ?bs @ CHR '','' # drop (Suc (nat comma)) s" by simp
    then have "s \<noteq> []" "hd s = hd ?bs" using ne by (metis Nil_is_append_conv, metis hd_append2)
    moreover have "is_blank (hd ?bs)" using blank ne by (cases ?bs) auto
    ultimately show False using trimmed_ends(1) [OF assms(1)] by simp
  next
    case False
    let ?i = "nat (beg - 1)"
    have i: "?i < length s" "s ! ?i = CHR '',''" "Suc ?i = nat beg" using False assms(3,4) c by (auto simp: value_start_def)
    have "s = take ?i s @ CHR '','' # ?bs @ CHR '','' # drop (Suc (nat comma)) s"
      using nth_split [OF i(1)] i tail by simp
    with assms(2) ne blank show False unfolding comma_blanks_def by blast
  qed
qed

lemma value_loop_ok:
  assumes "name \<noteq> []" "trimmed s" "\<not> comma_blanks s"
  shows "within s ptr \<Longrightarrow> is_comma s (Some comma) \<Longrightarrow> value_start s beg \<Longrightarrow> beg \<le> comma \<Longrightarrow>
    keeps_ok (value_loop name s beg ptr comma m) m"
  using assms
proof (induction name s beg ptr comma m rule: value_loop.induct)
  case (1 name s beg ptr comma m)
  have w: "within s (comma + 1)" using "1.prems"(2) by (auto simp: is_comma_def)
  obtain r where r: "split_at_comma s ptr comma = Inr r" "comma_case_ok s r"
    using split_at_comma_safe [OF "1.prems"(1) w] by (auto simp: ensures_iff)
  note moves = split_at_comma_moves [OF r(1)]
  have at_beg: "within s beg" using "1.prems"(3) by (auto simp: value_start_def)
  show ?case
  proof (cases r)
    case Bad_quotes
    with r show ?thesis by (subst value_loop.simps) simp
  next
    case (Skip_to p)
    with r(2) have "within s p" by (simp add: comma_case_ok_def)
    from "1.IH"(1) [OF r(1) Skip_to this "1.prems"(2-)] r(1) Skip_to show ?thesis
      by (subst value_loop.simps) simp
  next
    case (Inside p c)
    note ok = r(2) [unfolded Inside comma_case_ok_def comma_case.case]
    show ?thesis
    proof (cases c)
      case None
      with r(1) Inside last_value_ok [OF "1.prems"(5,6) at_beg] show ?thesis by (subst value_loop.simps) simp
    next
      case (Some comma')
      have "beg \<le> comma'" using moves Inside Some "1.prems"(4) by fastforce
      from "1.IH"(2) [OF r(1) Inside Some conjunct1 [OF ok] conjunct2 [OF ok, unfolded Some] "1.prems"(3) this "1.prems"(5-)] r(1) Inside Some
      show ?thesis by (subst value_loop.simps) simp
    qed
  next
    case (Split c p)
    note ok = r(2) [unfolded Split comma_case_ok_def comma_case.case]
    show ?thesis
    proof (cases "comma - beg + 1 < 2")
      case True
      with r(1) Split show ?thesis by (subst value_loop.simps) simp
    next
      case False
      let ?v = "take (nat (comma - beg)) (drop (nat beg) s)"
      have lt: "beg < comma" "0 \<le> beg" "comma < int (length s)" using False "1.prems"(2,3) by (auto simp: is_comma_def value_start_def)
      have av: "osip_clrncpy (comma - beg + 1) s beg (comma - beg) = Inr (osip_clrspace ?v)"
        using clrncpy_trims [of beg "comma - beg" s "comma - beg + 1"] lt by simp
      have v: "value_ok (Some (osip_clrspace ?v))"
        using piece_not_blank [OF "1.prems"(6,7,3) lt(1) "1.prems"(2)] trimmed_clrspace by (auto simp: value_ok_def)
      have start: "value_start s (comma + 1)" using "1.prems"(2) lt by (auto simp: value_start_def is_comma_def)
      let ?rest = "\<lambda>i m'. if i = - 1 then Inr (- 1, m')
               else case c of None \<Rightarrow> last_value name s (comma + 1) m'
                 | Some comma' \<Rightarrow> value_loop name s (comma + 1) p comma' m'"
      have "keeps_ok (?rest i m') m'" if set: "osip_message_set__header m name (Some (osip_clrspace ?v)) = Inr (i, m')" for i m'
      proof (cases "i = - 1")
        case neq: False
        show ?thesis
        proof (cases c)
          case None
          with neq last_value_ok [OF "1.prems"(5,6) w] show ?thesis by simp
        next
          case (Some comma')
          have "comma + 1 \<le> comma'" using moves Split Some by fastforce
          from "1.IH"(3) [OF r(1) Split False av set refl neq Some conjunct1 [OF ok] conjunct2 [OF ok, unfolded Some] start this "1.prems"(5-)]
            neq Some show ?thesis by simp
        qed
      qed simp
      from keeps_ok_trans [OF set__header_ok [OF "1.prems"(5) v], of m ?rest] this
      have "keeps_ok (bindR (osip_message_set__header m name (Some (osip_clrspace ?v))) (\<lambda>(i, m'). ?rest i m')) m" by blast
      with r(1) Split False av show ?thesis by (subst value_loop.simps) simp
    qed
  qed
qed

lemma set_multiple_ok:
  assumes "name \<noteq> []" "value_ok v" "\<And>s. v = Some s \<Longrightarrow> \<not> comma_blanks s"
  shows "keeps_ok (osip_message_set_multiple_header m name v) m"
proof (cases v)
  case None
  with assms show ?thesis by (simp add: osip_message_set_multiple_header_def Let_def set__header_ok)
next
  case (Some s)
  obtain c where c: "strchr s 0 (CHR '','') = Inr c" "is_comma s c"
    using wp_comma [of 0 s "is_comma s"] by (auto simp: ensures_iff)
  have "keeps_ok (value_loop (map tolower name) s 0 0 comma m) m" if "c = Some comma" for comma
    by (rule value_loop_ok) (use assms Some c that in \<open>auto simp: value_ok_def value_start_def is_comma_def\<close>)
  with c(1) assms Some show ?thesis
    by (auto simp: osip_message_set_multiple_header_def Let_def set__header_ok split: option.splits)
qed

section \<open>All headers\<close>

text \<open>The blanks that are taken for a name or a value.\<close>

definition blank_between :: "char \<Rightarrow> char \<Rightarrow> bool" where
  "blank_between c d \<longleftrightarrow> c = CHR '':'' \<and> cr_lf d \<or> c = CHR '','' \<and> d = CHR '','' \<or> cr_lf c \<and> d = CHR '':''"

definition blank_piece :: "string \<Rightarrow> bool" where
  "blank_piece s \<longleftrightarrow> (\<exists>a c bs d t. s = a @ c # bs @ d # t \<and> bs \<noteq> [] \<and> list_all sp_or_tab bs \<and> blank_between c d)"

lemma piece_split:
  assumes "i < j" "j < length s"
  shows "s = take i s @ s ! i # take (j - Suc i) (drop (Suc i) s) @ s ! j # drop (Suc j) s"
proof -
  have "drop (Suc i) s = take (j - Suc i) (drop (Suc i) s) @ drop j s"
    using assms by (metis append_take_drop_id drop_drop Suc_leI le_add_diff_inverse2)
  moreover have "drop j s = s ! j # drop (Suc j) s" using assms by (simp add: Cons_nth_drop_Suc)
  ultimately have "drop (Suc i) s = take (j - Suc i) (drop (Suc i) s) @ s ! j # drop (Suc j) s" by simp
  moreover have "s = take i s @ s ! i # drop (Suc i) s" using assms nth_split [of i s] by simp
  ultimately show ?thesis by metis
qed

lemma blank_pieceI:
  assumes "Suc i < j" "j < length s" "list_all sp_or_tab (take (j - Suc i) (drop (Suc i) s))" "blank_between (s ! i) (s ! j)"
  shows "blank_piece s"
proof -
  have "take (j - Suc i) (drop (Suc i) s) \<noteq> []" using assms by auto
  with piece_split [OF Suc_lessD [OF assms(1)] assms(2)] assms(3,4) show ?thesis
    unfolding blank_piece_def by metis
qed

lemma blank_sp_or_tab: "is_blank c \<Longrightarrow> \<not> cr_lf c \<Longrightarrow> sp_or_tab c"
  by (auto simp: is_blank_def cr_lf_def sp_or_tab_def)

text \<open>A line from \<open>p\<close> on: it ends at \<open>e\<close>, and the next one starts at \<open>q\<close>.\<close>

definition line_at :: "string \<Rightarrow> int \<Rightarrow> int \<Rightarrow> int \<Rightarrow> bool" where
  "line_at s p e q \<longleftrightarrow> 0 \<le> p \<and> p \<le> e \<and> e < int (length s) \<and> cr_lf (s ! nat e) \<and>
     (\<forall>i. nat p \<le> i \<and> i < nat e \<longrightarrow> \<not> cr_lf (s ! i)) \<and>
     q = (if s ! nat e = CR \<and> e + 1 < int (length s) \<and> s ! nat (e + 1) = LF then e + 2 else e + 1)"

lemma skip_to_line_end:
  assumes "skip_chars (\<lambda>c. \<not> cr_lf c) s p = Inr e" "e < int (length s)"
  shows "0 \<le> p \<and> p \<le> e \<and> cr_lf (s ! nat e) \<and> (\<forall>i. nat p \<le> i \<and> i < nat e \<longrightarrow> \<not> cr_lf (s ! i))"
proof -
  let ?w = "takeWhile (\<lambda>c. \<not> cr_lf c) (drop (nat p) s)"
  have e: "e = p + int (length ?w)" "0 \<le> p" "p \<le> e" using assms(1) skip_chars_bounds [OF assms(1)]
    by (auto simp: skip_chars_def split: if_splits)
  have "\<not> cr_lf (s ! i)" if i: "nat p \<le> i" "i < nat e" for i
  proof -
    have "i - nat p < length ?w" using i e by linarith
    then have "?w ! (i - nat p) \<in> set ?w" by (rule nth_mem)
    then have "\<not> cr_lf (?w ! (i - nat p))" by (blast dest: set_takeWhileD)
    moreover have "?w ! (i - nat p) = s ! i" using i assms(2) e by (subst takeWhile_nth) (auto simp: nth_drop)
    ultimately show ?thesis by simp
  qed
  with skip_chars_stops [OF assms] e show ?thesis by simp
qed

lemma find_next_crlf_line:
  assumes "within s p" "NUL \<notin> set s"
  shows "ensures (find_next_crlf s p) (\<lambda>r. \<forall>q. r = Some q \<longrightarrow> (\<exists>e. line_at s p e q))"
proof -
  obtain e where e: "skip_chars (\<lambda>c. \<not> cr_lf c) s p = Inr e" "p \<le> e" "e \<le> int (length s)"
    using assms(1) length_takeWhile_le [of "\<lambda>c. \<not> cr_lf c" "drop (nat p) s"] by (auto simp: skip_chars_def)
  show ?thesis
  proof (cases "e = int (length s)")
    case True
    with e show ?thesis by (simp add: find_next_crlf_def rd_def)
  next
    case False
    then have lt: "e < int (length s)" using e by simp
    have "s ! nat e \<noteq> NUL" using assms e lt by (metis nth_mem nat_less_iff order_trans)
    then have c0: "rd s e = Inr (s ! nat e)" "s ! nat e \<noteq> NUL" using lt e assms(1) by (simp_all add: rd_def)
    let ?q = "if s ! nat e = CR \<and> e + 1 < int (length s) \<and> s ! nat (e + 1) = LF then e + 2 else e + 1"
    have line: "line_at s p e ?q" using skip_to_line_end [OF e(1) lt] lt by (simp add: line_at_def)
    obtain c1 where c1: "rd s (e + 1) = Inr c1" using rd_defined [of "e + 1" s] lt e assms(1) by auto
    have step: "(if s ! nat e = CR \<and> c1 = LF then e + 1 else e) + 1 = ?q"
      using c1 by (auto simp: rd_def split: if_splits)
    have "?q \<le> int (length s)" "0 \<le> ?q" using lt e assms(1) by auto
    then obtain c where c: "rd s ?q = Inr c" using rd_defined [of ?q s] by blast
    have "find_next_crlf s p = Inr (if sp_or_tab c then None else Some ?q)"
      unfolding find_next_crlf_def e(1) bindR.simps c0(1) if_not_P [OF c0(2)] c1 Let_def step c ..
    with line show ?thesis by auto
  qed
qed

text \<open>The blanks of a line are spaces and tabs.\<close>

lemma line_blanks:
  assumes "line_at s p e q" "p \<le> i" "i \<le> j" "j \<le> e" "list_all is_blank (take (nat (j - i)) (drop (nat i) s))"
  shows "list_all sp_or_tab (take (nat (j - i)) (drop (nat i) s))"
  unfolding list_all_length
proof (intro allI impI)
  fix k
  assume k: "k < length (take (nat (j - i)) (drop (nat i) s))"
  let ?c = "take (nat (j - i)) (drop (nat i) s) ! k"
  have b: "0 \<le> p" "e < int (length s)" using assms(1) by (auto simp: line_at_def)
  have "nat i \<le> length s" using assms(2-4) b by linarith
  then have "?c = s ! (nat i + k)" using k by simp
  moreover have "nat p \<le> nat i + k \<and> nat i + k < nat e" using k assms(2-4) b by auto
  ultimately have "\<not> cr_lf ?c" using assms(1) by (auto simp: line_at_def)
  moreover have "is_blank ?c" using assms(5) k by (simp add: list_all_length)
  ultimately show "sp_or_tab ?c" by (simp add: blank_sp_or_tab)
qed

lemma comma_blanks_clrspace: "comma_blanks (osip_clrspace w) \<Longrightarrow> comma_blanks w"
proof -
  assume "comma_blanks (osip_clrspace w)"
  then obtain a bs d where c: "osip_clrspace w = a @ CHR '','' # bs @ CHR '','' # d" "bs \<noteq> []" "list_all is_blank bs"
    by (auto simp: comma_blanks_def)
  obtain x core y where "w = x @ core @ y" "osip_clrspace w = core" using blank_core by metis
  with c have "w = (x @ a) @ CHR '','' # bs @ CHR '','' # (d @ y)" by simp
  with c(2,3) show "comma_blanks w" unfolding comma_blanks_def by blast
qed

lemma value_no_blank_piece:
  assumes line: "line_at s p e q" and nb: "\<not> blank_piece s" and i: "p \<le> i" "i + 1 < e" "s ! nat i = CHR '':''"
  shows "osip_clrspace (take (nat (e - i - 1)) (drop (nat (i + 1)) s)) \<noteq> []"
    "\<not> comma_blanks (osip_clrspace (take (nat (e - i - 1)) (drop (nat (i + 1)) s)))"
proof -
  let ?w = "take (nat (e - i - 1)) (drop (nat (i + 1)) s)"
  have b: "0 \<le> p" "e < int (length s)" "cr_lf (s ! nat e)" using line by (auto simp: line_at_def)
  have "e - i - 1 = e - (i + 1)" by simp
  then have w: "?w = take (nat (e - (i + 1))) (drop (nat (i + 1)) s)" by (simp only:)
  show "osip_clrspace ?w \<noteq> []"
  proof
    assume "osip_clrspace ?w = []"
    then have "list_all is_blank (take (nat (e - (i + 1))) (drop (nat (i + 1)) s))" unfolding w by (simp add: clrspace_empty)
    from line_blanks [OF line _ _ order_refl this] i have sp: "list_all sp_or_tab ?w" unfolding w by simp
    have eq: "Suc (nat i) = nat (i + 1)" "nat e - nat (i + 1) = nat (e - i - 1)" using i(1) b by linarith+
    have "nat (i + 1) < nat e" "nat e < length s" using i b by linarith+
    moreover have "blank_between (s ! nat i) (s ! nat e)" using i(3) b(3) by (simp add: blank_between_def)
    ultimately have "blank_piece s" using blank_pieceI [of "nat i" "nat e" s] sp by (simp only: eq)
    with nb show False by simp
  qed
  show "\<not> comma_blanks (osip_clrspace ?w)"
  proof
    assume "comma_blanks (osip_clrspace ?w)"
    then have "comma_blanks ?w" by (rule comma_blanks_clrspace)
    then obtain a bs d where c: "?w = a @ CHR '','' # bs @ CHR '','' # d" "bs \<noteq> []" "list_all is_blank bs"
      by (auto simp: comma_blanks_def)
    have "list_all sp_or_tab bs"
      unfolding list_all_iff
    proof
      fix x
      assume x: "x \<in> set bs"
      then obtain k where "k < length bs" "bs ! k = x" by (auto simp: in_set_conv_nth)
      with c(1) have k: "?w ! (length a + 1 + k) = x" "length a + 1 + k < length ?w"
        by (auto simp: nth_append)
      have "x = s ! (nat (i + 1) + (length a + 1 + k))" "nat (i + 1) + (length a + 1 + k) < nat e"
        using k i b by auto
      then have "\<not> cr_lf x" using line i b by (auto simp: line_at_def)
      with x c(3) show "sp_or_tab x" by (simp add: list_all_iff blank_sp_or_tab)
    qed
    moreover have "s = (take (nat (i + 1)) s @ a) @ CHR '','' # bs @ CHR '','' # (d @ drop (nat (e - i - 1)) (drop (nat (i + 1)) s))"
      using c(1) by (metis (no_types, lifting) append.assoc append_Cons append_take_drop_id)
    moreover have "blank_between (CHR '','') (CHR '','')" by (simp add: blank_between_def)
    ultimately have "blank_piece s" unfolding blank_piece_def using c(2) by blast
    with nb show False by simp
  qed
qed

lemma name_no_blank_piece:
  assumes line: "line_at s p e q" and nb: "\<not> blank_piece s" and i: "0 < p" "p < i" "i \<le> e" "s ! nat i = CHR '':''" "cr_lf (s ! nat (p - 1))"
  shows "osip_clrspace (take (nat (i - p)) (drop (nat p) s)) \<noteq> []"
proof
  assume "osip_clrspace (take (nat (i - p)) (drop (nat p) s)) = []"
  then have "list_all is_blank (take (nat (i - p)) (drop (nat p) s))" by (simp add: clrspace_empty)
  from line_blanks [OF line order_refl _ i(3) this] i have sp: "list_all sp_or_tab (take (nat (i - p)) (drop (nat p) s))" by simp
  have "e < int (length s)" using line by (simp add: line_at_def)
  have suc: "Suc (nat (p - 1)) = nat p" using i by simp
  have "blank_piece s"
    by (rule blank_pieceI [of "nat (p - 1)" "nat i"], unfold suc)
      (use i \<open>e < int (length s)\<close> sp in \<open>auto simp: blank_between_def nat_diff_distrib\<close>)
  with nb show False by simp
qed

lemma line_end_found:
  assumes "line_at s p e q" "p \<le> i" "i < e" "i < q - 1"
  shows "rd s (q - 2) = Inr (s ! nat (q - 2)) \<and> (if cr_lf (s ! nat (q - 2)) then q - 2 else q - 1) = e"
proof -
  have e: "0 \<le> p" "e < int (length s)" "cr_lf (s ! nat e)" "\<And>k. nat p \<le> k \<Longrightarrow> k < nat e \<Longrightarrow> \<not> cr_lf (s ! k)"
    using assms(1) by (auto simp: line_at_def)
  show ?thesis
  proof (cases "s ! nat e = CR \<and> e + 1 < int (length s) \<and> s ! nat (e + 1) = LF")
    case True
    then have "q = e + 2" using assms(1) by (simp add: line_at_def)
    with e assms(2,3) show ?thesis by (simp add: rd_def)
  next
    case False
    then have q: "q = e + 1" using assms(1) by (auto simp: line_at_def)
    have "\<not> cr_lf (s ! nat (e - 1))" by (rule e(4)) (use assms(2,3) e(1) in auto)
    with q e assms(2,3) show ?thesis by (simp add: rd_def)
  qed
qed

text \<open>Reading one line, whose name and value are not blank.\<close>

lemma header_value_read:
  assumes "line_at s p e q" "\<not> blank_piece s" "p < i" "i < e" "s ! nat i = CHR '':''"
  shows "\<exists>v. header_value s i q = Inr v \<and> value_ok v \<and> (\<forall>w. v = Some w \<longrightarrow> \<not> comma_blanks w)"
proof -
  let ?w = "take (nat (e - i - 1)) (drop (nat (i + 1)) s)"
  have e: "0 \<le> p" "e < int (length s)" "e < q" using assms(1) by (auto simp: line_at_def)
  have lt: "i < q - 1" using e assms(4) by linarith
  note le = line_end_found [OF assms(1) less_imp_le [OF assms(3)] assms(4) lt]
  show ?thesis
  proof (cases "e - i < 2")
    case True
    with le show ?thesis by (simp add: header_value_def value_ok_def Let_def del: int_one_le_iff_zero_less)
  next
    case False
    have "osip_clrncpy (e - i + 1) s (i + 1) (e - i - 1) = Inr (osip_clrspace ?w)"
      using clrncpy_trims [of "i + 1" "e - i - 1" s "e - i + 1"] False e assms(3) by simp
    with le False have "header_value s i q = Inr (Some (osip_clrspace ?w))" by (simp add: header_value_def Let_def)
    moreover have "osip_clrspace ?w \<noteq> []" "\<not> comma_blanks (osip_clrspace ?w)"
      using value_no_blank_piece [OF assms(1,2) less_imp_le [OF assms(3)] _ assms(5)] False by simp_all
    ultimately show ?thesis using trimmed_clrspace by (auto simp: value_ok_def)
  qed
qed

lemma headers_parse_ok:
  "NUL \<notin> set s \<Longrightarrow> \<not> blank_piece s \<Longrightarrow> 0 < p \<Longrightarrow> within s p \<Longrightarrow> cr_lf (s ! nat (p - 1)) \<Longrightarrow> within s body \<Longrightarrow>
   ensures (msg_headers_parse m s p body) (\<lambda>(i, m', q). kept m m' \<and> within s q)"
proof (induction m s p body rule: msg_headers_parse.induct)
  case (1 m s p body)
  obtain c where c: "rd s p = Inr c" using rd_defined [of p s] "1.prems"(4) by auto
  show ?case
  proof (cases "c = NUL")
    case True
    with c "1.prems" show ?thesis by (subst msg_headers_parse.simps) simp
  next
    case c0: False
    obtain r where r: "find_next_crlf s p = Inr r" "\<And>q. r = Some q \<Longrightarrow> \<exists>e. line_at s p e q"
      using find_next_crlf_line [OF "1.prems"(4,1)] by (auto simp: ensures_iff)
    show ?thesis
    proof (cases r)
      case None
      with c c0 r "1.prems" show ?thesis by (subst msg_headers_parse.simps) simp
    next
      case (Some q)
      then obtain e where line: "line_at s p e q" using r(2) by blast
      have q: "e < q" "q \<le> int (length s)" "cr_lf (s ! nat (q - 1))" "p < q"
        using line by (auto simp: line_at_def cr_lf_def add.commute)
      show ?thesis
      proof (cases "cr_lf c")
        case True
        with c c0 r(1) Some "1.prems" show ?thesis by (subst msg_headers_parse.simps) simp
      next
        case c1: False
        obtain k where k: "strchr s p (CHR '':'') = Inr k" "\<And>i. k = Some i \<Longrightarrow> points_to s (CHR '':'') p i"
          by (rule strchr_defined [OF "1.prems"(4), where c = "CHR '':''"]) (rule that)
        show ?thesis
        proof (cases k)
          case None
          with c c0 c1 r(1) Some k "1.prems" show ?thesis by (subst msg_headers_parse.simps) simp
        next
          case colon: (Some i)
          note i = k(2) [OF colon, unfolded points_to_def]
          show ?thesis
          proof (cases "i - p + 1 < 2 \<or> q \<le> i")
            case True
            with c c0 c1 r(1) Some k(1) colon "1.prems" show ?thesis by (subst msg_headers_parse.simps) auto
          next
            case False
            have "i \<noteq> e" using i line by (auto simp: line_at_def cr_lf_def)
            moreover have "i \<le> e"
            proof (rule ccontr)
              assume "\<not> i \<le> e"
              then have "i = e + 1" "s ! nat (e + 1) = LF" using False line by (auto simp: line_at_def split: if_splits)
              with i show False by simp
            qed
            ultimately have ie: "p < i" "i < e" using False by linarith+
            have col: "s ! nat i = CHR '':''" using i by blast
            let ?name = "osip_clrspace (take (nat (i - p)) (drop (nat p) s))"
            have name: "osip_clrncpy (i - p + 1) s p (i - p) = Inr ?name"
              using clrncpy_trims [of p "i - p" s "i - p + 1"] ie i "1.prems"(4) by simp
            have ne: "?name \<noteq> []"
              by (rule name_no_blank_piece [OF line "1.prems"(2,3) ie(1) less_imp_le [OF ie(2)] col "1.prems"(5)])
            obtain v where v: "header_value s i q = Inr v" "value_ok v" "\<And>w. v = Some w \<Longrightarrow> \<not> comma_blanks w"
              using header_value_read [OF line "1.prems"(2) ie col] by blast
            obtain j m' where set: "osip_message_set_multiple_header m ?name v = Inr (j, m')" "kept m m'"
              using set_multiple_ok [OF ne v(2,3), of m] by (auto simp: keeps_ok_def ensures_iff)
            show ?thesis
            proof (cases "j = - 1")
              case True
              with c c0 c1 r(1) Some k(1) colon False name v(1) set "1.prems" show ?thesis
                by (subst msg_headers_parse.simps) simp
            next
              case j: False
              have "ensures (msg_headers_parse m' s q body) (\<lambda>(i, m'', q). kept m' m'' \<and> within s q)"
                by (rule "1.IH" [OF c c0 r(1) Some c1 k(1) colon _ _ name v(1) set(1) refl j])
                  (use False q "1.prems" in auto)
              then have "ensures (msg_headers_parse m' s q body) (\<lambda>(i, m'', q). kept m m'' \<and> within s q)"
                by (rule ensures_mono) (use set(2) kept_trans in auto)
              with c c0 c1 r(1) Some k(1) colon False name v(1) set(1) j show ?thesis
                by (subst msg_headers_parse.simps) simp
            qed
          qed
        qed
      qed
    qed
  qed
qed

section \<open>The start line\<close>

definition startline_ok :: "sip \<Rightarrow> bool" where
  "startline_ok m \<longleftrightarrow> sip_version m \<noteq> None \<and>
     (status_code m = 0 \<and> sip_method m \<noteq> None \<and> (\<exists>u. req_uri m = Some u \<and> parsed (0, u)) \<or>
      status_code m \<noteq> 0 \<and> sip_method m = None \<and> reason_phrase m \<noteq> None)"

definition headers_start :: "string \<Rightarrow> int \<Rightarrow> bool" where
  "headers_start s p \<longleftrightarrow> 0 < p \<and> p \<le> int (length s) \<and> cr_lf (s ! nat (p - 1))"

definition startline_post :: "string \<Rightarrow> sip \<Rightarrow> int \<times> sip \<times> int \<Rightarrow> bool" where
  "startline_post s m = (\<lambda>(i, m', p). (sip_ok m \<longrightarrow> sip_ok m') \<and> (i = - 1 \<or> i = 0 \<and> startline_ok m' \<and> headers_start s p))"

lemma end_of_startline_ok:
  assumes "within s p" "NUL \<notin> set s"
  shows "ensures (end_of_startline s p) (\<lambda>r. \<forall>hp q. r = Some (hp, q) \<longrightarrow> p \<le> hp \<and> hp < int (length s) \<and> cr_lf (s ! nat hp) \<and> headers_start s q)"
proof -
  obtain e where e: "skip_chars (\<lambda>c. \<not> cr_lf c) s p = Inr e" "p \<le> e" "e \<le> int (length s)"
    using assms(1) length_takeWhile_le [of "\<lambda>c. \<not> cr_lf c" "drop (nat p) s"] by (auto simp: skip_chars_def)
  show ?thesis
  proof (cases "e = int (length s)")
    case True
    with e show ?thesis by (simp add: end_of_startline_def rd_def)
  next
    case False
    then have lt: "e < int (length s)" using e by simp
    then have c0: "rd s e = Inr (s ! nat e)" using e assms(1) by (simp add: rd_def)
    have nn: "s ! nat e \<noteq> NUL" using assms e lt by (metis nth_mem nat_less_iff order_trans)
    have cr: "cr_lf (s ! nat e)" using skip_to_line_end [OF e(1) lt] by blast
    obtain c1 where c1: "rd s (e + 1) = Inr c1" using rd_defined [of "e + 1" s] lt e assms(1) by auto
    have "headers_start s (if s ! nat e = CR \<and> c1 = LF then e + 2 else e + 1)"
      using c1 lt e assms(1) cr by (auto simp: headers_start_def rd_def cr_lf_def add.commute split: if_splits)
    then show ?thesis
      unfolding end_of_startline_def e(1) bindR.simps c0 if_not_P [OF nn] c1 using e lt cr by auto
  qed
qed

lemma wp_end_of_startline:
  "within s p1 \<Longrightarrow> NUL \<notin> set s \<Longrightarrow> P None \<Longrightarrow>
   (\<And>hp q. p1 \<le> hp \<Longrightarrow> hp < int (length s) \<Longrightarrow> cr_lf (s ! nat hp) \<Longrightarrow> headers_start s q \<Longrightarrow> P (Some (hp, q))) \<Longrightarrow>
   ensures (end_of_startline s p1) P"
  using end_of_startline_ok [of p1 s] by (auto simp: ensures_iff) (metis option.exhaust surj_pair)

lemma wp_strncpy: "within s p \<Longrightarrow> 0 \<le> n \<Longrightarrow> n + 1 \<le> k \<Longrightarrow> (\<And>w. P w) \<Longrightarrow> ensures (osip_strncpy k s p n) P"
  by (simp add: osip_strncpy_def)

lemma wp_clrncpy: "within s p \<Longrightarrow> 1 \<le> n \<Longrightarrow> p + n \<le> int (length s) \<Longrightarrow> n + 1 \<le> k \<Longrightarrow> (\<And>w. P w) \<Longrightarrow> ensures (osip_clrncpy k s p n) P"
  using clrncpy_trims [of p n s k] by simp

lemma startline_parsereq_ok:
  assumes "NUL \<notin> set s"
  shows "ensures (startline_parsereq m s) (startline_post s m)"
proof -
  have err: "startline_post s m (- 1, m\<lparr>sip_method := None, status_code := 0, reason_phrase := None\<rparr>, 0)"
    "startline_post s m (- 1, m\<lparr>sip_method := None, status_code := 0, reason_phrase := None, req_uri := None\<rparr>, 0)"
    by (simp_all add: startline_post_def sip_ok_def)
  have fine: "startline_post s m (0, m\<lparr>status_code := 0, reason_phrase := None, sip_method := Some a, req_uri := Some u, sip_version := Some v\<rparr>, q)"
    if "parsed (0, u)" "headers_start s q" for a u v q
    using that by (simp add: startline_post_def sip_ok_def startline_ok_def)
  have step: "0 \<le> p \<and> p < int (length s)" if "rd s p = Inr c" "c \<noteq> NUL" for p c
    using that by (auto simp: rd_def split: if_splits)
  show ?thesis
    unfolding startline_parsereq_def Let_def
    by (auto simp: wp_simps err intro!: wp_intros wp_end_of_startline [OF _ assms] wp_strncpy wp_clrncpy fine)
      (drule (1) step, simp)+
qed

lemma sip_ok_startline [simp]:
  "sip_ok (m\<lparr>status_code := a\<rparr>) = sip_ok m" "sip_ok (m\<lparr>sip_method := b\<rparr>) = sip_ok m" "sip_ok (m\<lparr>sip_version := c\<rparr>) = sip_ok m"
  "sip_ok (m\<lparr>req_uri := d\<rparr>) = sip_ok m" "sip_ok (m\<lparr>reason_phrase := e\<rparr>) = sip_ok m"
  by (simp_all add: sip_ok_def)

lemma reason_ok:
  assumes "NUL \<notin> set s" "within s q" "s ! nat q = CHR '' ''" and ok: "sip_ok m \<Longrightarrow> sip_ok m'"
    and start: "status_code m' \<noteq> 0" "sip_method m' = None" "sip_version m' \<noteq> None"
  shows "ensures (bindR (end_of_startline s q) (\<lambda>r. case r of None \<Rightarrow> Inr (- 1, m', 0) | Some (hp, headers) \<Rightarrow>
     bindR (osip_strncpy (hp - q) s (q + 1) (hp - q - 1)) (\<lambda>reason. Inr (0, m'\<lparr>reason_phrase := Some reason\<rparr>, headers)))) (startline_post s m)"
  unfolding wp_bind
proof (rule wp_end_of_startline [OF assms(2,1)], goal_cases)
  case 1
  have "startline_post s m (- 1, m', 0)" using ok by (simp add: startline_post_def)
  then show ?case by (simp only: option.case ensures_simps)
next
  case (2 hp p)
  have "q < hp" using 2 assms(3) by (cases "q = hp") (auto simp: cr_lf_def)
  then have cp: "osip_strncpy (hp - q) s (q + 1) (hp - q - 1) = Inr (take (nat (hp - q - 1)) (drop (nat (q + 1)) s))"
    using 2 assms(2) by (simp add: osip_strncpy_def)
  have "startline_post s m (0, m'\<lparr>reason_phrase := Some w\<rparr>, p)" for w
    using ok start 2(4) by (simp add: startline_post_def startline_ok_def)
  then show ?case by (simp only: option.case prod.case cp bindR.simps ensures_simps)
qed

lemma startline_parseresp_ok:
  assumes "NUL \<notin> set s"
  shows "ensures (startline_parseresp m s) (startline_post s m)"
proof -
  have post: "startline_post s m (- 1, m', q)" if "sip_ok m \<Longrightarrow> sip_ok m'" for m' q
    using that by (simp add: startline_post_def)
  show ?thesis
    unfolding startline_parseresp_def Let_def wp_bind
  proof (rule wp_strchr, goal_cases)
    case 2
    show ?case by (simp only: option.case ensures_simps) (rule post, simp)
  next
    case (3 p)
    note p = this
    show ?case
      unfolding option.case wp_bind
    proof (rule wp_strncpy, goal_cases)
      case (4 v)
      show ?case
      proof (rule wp_strchr, goal_cases)
        case 2
        show ?case by (simp only: option.case ensures_simps) (rule post, simp)
      next
        case (3 q)
        show ?case
          unfolding option.case
        proof (split option.split, intro conjI impI allI, goal_cases)
          case 1
          show ?case by (simp only: ensures_simps) (rule post, simp)
        next
          case (2 code)
          have r: "within s q" "s ! nat q = CHR '' ''" using 3 p by auto
          show ?case
            unfolding wp_bind [symmetric]
            by (rule wp_if, simp only: ensures_simps, rule post, simp, rule reason_ok [OF assms r]) simp_all
        qed
      qed (use p in auto)
    qed (use p in auto)
  qed simp
qed

lemma startline_parse_ok: "NUL \<notin> set s \<Longrightarrow> ensures (startline_parse m s) (startline_post s m)"
  by (simp add: startline_parse_def startline_parsereq_ok startline_parseresp_ok)

section \<open>Bodies\<close>

lemma osip_body_parse_header_ok:
  "NUL \<notin> set s \<Longrightarrow> within s p \<Longrightarrow> pred_option content_type_ok (body_content_type b) \<Longrightarrow> ensures (osip_body_parse_header b s p)
    (\<lambda>r. \<forall>b' q. r = Some (b', q) \<longrightarrow> pred_option content_type_ok (body_content_type b') \<and> within s q \<and> 0 < q)"
proof (induction b s p rule: osip_body_parse_header.induct)
  case (1 b s p)
  obtain r where r: "find_next_crlf s p = Inr r" "\<And>q. r = Some q \<Longrightarrow> \<exists>e. line_at s p e q"
    using find_next_crlf_line [OF "1.prems"(2,1)] by (auto simp: ensures_iff)
  show ?case
  proof (cases r)
    case None
    with r(1) show ?thesis by (subst osip_body_parse_header.simps) simp
  next
    case (Some q)
    then have q: "within s q" "p < q" using r(2) by (auto simp: line_at_def split: if_splits)
    obtain k where k: "strchr s p (CHR '':'') = Inr k" "\<And>i. k = Some i \<Longrightarrow> points_to s (CHR '':'') p i"
      by (rule strchr_defined [OF "1.prems"(2), where c = "CHR '':''"]) (rule that)
    show ?thesis
    proof (cases "\<exists>i. k = Some i \<and> \<not> i - p + 1 < 2 \<and> \<not> q - 2 - i < 2")
      case False
      have "safe (osip_clrncpy (i - p + 1) s p (i - p))" if "k = Some i" "\<not> i - p + 1 < 2" for i
        by (rule clrncpy_safe) (use k(2) [OF that(1)] that(2) "1.prems"(2) in \<open>auto simp: points_to_def\<close>)
      with r(1) Some k(1) False show ?thesis
        by (subst osip_body_parse_header.simps) (auto simp: clrcopyO_def wp_simps split: option.splits elim!: ensures_mono)
    next
      case True
      then obtain i where i: "k = Some i" "\<not> i - p + 1 < 2" "\<not> q - 2 - i < 2" by blast
      have "safe (osip_clrncpy (i - p + 1) s p (i - p))" "safe (osip_clrncpy (q - 2 - i) s (i + 1) (q - 2 - i - 1))"
        by (rule clrncpy_safe; use k(2) [OF i(1)] i q "1.prems"(2) in \<open>auto simp: points_to_def\<close>)+
      then obtain n v where n: "clrcopyO (i - p + 1) s p (i - p) = Inr (Some n)" "clrcopyO (q - 2 - i) s (i + 1) (q - 2 - i - 1) = Inr (Some v)"
        by (auto simp: clrcopyO_def ensures_iff)
      obtain ct where ct: "osip_content_type_parse v = Inr ct" "\<And>x. ct = Some x \<Longrightarrow> content_type_ok x"
        using content_type_parse_ok [of v] by (auto simp: ensures_iff)
      obtain j b' where set: "(if strncasecmp0 12 n ''content-type'' then osip_body_set_contenttype b v
            else Inr (0, osip_body_set_header b n v)) = Inr (j, b')" "pred_option content_type_ok (body_content_type b')"
      proof (cases "strncasecmp0 12 n ''content-type''")
        case True
        have "pred_option content_type_ok ct" using ct(2) by (cases ct) auto
        with True ct(1) that show ?thesis by (simp add: osip_body_set_contenttype_def)
      qed (use that "1.prems"(3) in \<open>simp add: osip_body_set_header_def\<close>)
      obtain c where c: "rd s q = Inr c" using rd_defined [of q s] q by auto
      note step = r(1) Some k(1) i n set c
      show ?thesis
      proof (cases "j = - 1 \<or> cr_lf c")
        case True
        with step q "1.prems"(2) show ?thesis by (subst osip_body_parse_header.simps) auto
      next
        case False
        have "ensures (osip_body_parse_header b' s q) (\<lambda>r. \<forall>b' q. r = Some (b', q) \<longrightarrow>
            pred_option content_type_ok (body_content_type b') \<and> within s q \<and> 0 < q)"
          by (rule "1.IH" [OF r(1) [unfolded Some] k(1) [unfolded i(1)] i(2) n(1) i(3) n(2) set(1) refl _ c]) (use False q set(2) "1.prems"(1) in auto)
        with step False show ?thesis by (subst osip_body_parse_header.simps) simp
      qed
    qed
  qed
qed

lemma wp_find_next_occurence:
  "within s p \<Longrightarrow> e = int (length s) \<Longrightarrow> P None \<Longrightarrow>
   (\<And>q. p \<le> q \<Longrightarrow> q + int (length str) \<le> int (length s) \<Longrightarrow> take (length str) (drop (nat q) s) = str \<Longrightarrow> P (Some q)) \<Longrightarrow>
   ensures (find_next_occurence n str s p e) P"
proof (induction n arbitrary: p)
  case (Suc n)
  let ?t = "cstr (drop (nat p) s)"
  have len: "length ?t \<le> length s - nat p" using length_takeWhile_le [of _ "drop (nat p) s"] by (simp add: cstr_def)
  have pre: "?t = take (length ?t) (drop (nat p) s)" unfolding cstr_def by (rule takeWhile_eq_take)
  show ?case
  proof (cases "strstr ?t str")
    case None
    have "ensures (find_next_occurence n str s (p + int (length ?t) + 1) e) P" if "0 < e - (p + int (length ?t))"
      by (rule Suc.IH) (use Suc.prems(1,2) that in \<open>auto intro: Suc.prems(3,4)\<close>)
    with None Suc.prems(1,3) show ?thesis by (simp add: Let_def)
  next
    case (Some i)
    then have i: "i < length ?t" "take (length str) (drop i ?t) = str"
      by (auto simp: strstr_def find_Some_iff)
    then have l: "length str \<le> length ?t - i" by (metis length_drop length_take min.cobounded1)
    have "take k (drop i (take n w)) = take k (drop i w)" if "k \<le> n - i" for k n and w :: string
      using that by (simp add: drop_take min_def)
    from this [OF l, of "drop (nat p) s"] have "take (length str) (drop i ?t) = take (length str) (drop i (drop (nat p) s))"
      using pre by simp
    also have "\<dots> = take (length str) (drop (nat (p + int i)) s)" using Suc.prems(1) by (simp add: nat_add_distrib add.commute)
    finally have "P (Some (p + int i))" using Suc.prems(1,4) i l len by auto
    with Some Suc.prems(1) show ?thesis by (simp add: Let_def)
  qed
qed simp

definition short_part :: "string \<Rightarrow> bool" where
  "short_part s \<longleftrightarrow> (\<exists>a b u t. s = a @ (LF # ''--'' @ b) @ u @ (LF # ''--'' @ b) @ t \<and>
     (length u < 2 \<or> length u = 2 \<and> u ! 1 = CR))"

lemma between_occurrences:
  assumes "take (length b) (drop i s) = b" "take (length b) (drop j s) = b" "i + length b \<le> j" "j + length b \<le> length s"
  shows "s = take i s @ b @ take (j - (i + length b)) (drop (i + length b) s) @ b @ drop (j + length b) s"
proof -
  have one: "drop k s = b @ drop (k + length b) s" if "take (length b) (drop k s) = b" for k
    using that append_take_drop_id [of "length b" "drop k s"] by (simp add: add.commute)
  have "drop (i + length b) s = take (j - (i + length b)) (drop (i + length b) s) @ drop j s"
    using assms(3) append_take_drop_id [of "j - (i + length b)" "drop (i + length b) s"] by (simp add: add.commute)
  then have "drop i s = b @ take (j - (i + length b)) (drop (i + length b) s) @ b @ drop (j + length b) s"
    using one [OF assms(1)] one [OF assms(2)] by metis
  then show ?thesis using append_take_drop_id [of i s] by metis
qed

lemma kept_bodies:
  "body_ok b \<Longrightarrow> kept m (m\<lparr>message_property := 2, bodies := bodies m @ [b]\<rparr>)"
  by (simp add: kept_def sip_ok_def start_line_def)

text \<open>The length of a part is negative only between boundaries that are too near to each other.\<close>

lemma part_length:
  assumes o: "take (length sep) (drop (nat i) s) = sep" "take (length sep) (drop (nat j) s) = sep" "0 \<le> i" "i + int (length sep) \<le> j" "j + int (length sep) \<le> int (length s)"
    and sep: "sep = LF # ''--'' @ b" and "\<not> short_part s"
  shows "0 \<le> j - (if cr_lf (s ! nat (i + int (length sep) + 1)) then i + int (length sep) + 1 + 1 else i + int (length sep) + 1) -
     (if s ! nat (j - 1) = CR then 1 else 0)"
proof (rule ccontr)
  let ?k = "nat i + length sep" let ?u = "take (nat j - ?k) (drop ?k s)"
  assume neg: "\<not> ?thesis"
  have s: "s = take (nat i) s @ sep @ ?u @ sep @ drop (nat j + length sep) s"
    by (rule between_occurrences [OF o(1,2)]) (use o in linarith)+
  have u: "length ?u = nat j - ?k" using o by simp
  have kj: "?k \<le> nat j" using o by linarith
  have "length ?u < 2 \<or> length ?u = 2 \<and> ?u ! 1 = CR"
  proof (cases "length ?u < 2")
    case False
    have "j - (i + int (length sep)) \<le> 2" using neg by (simp split: if_splits)
    moreover have "2 \<le> j - (i + int (length sep))" using False u o(3,4) by linarith
    ultimately have j: "j = i + int (length sep) + 2" by simp
    then have "nat j = ?k + 2" using o by linarith
    with neg have "s ! nat (j - 1) = CR" by (auto split: if_splits)
    moreover have "nat (j - 1) = ?k + 1" using j o by linarith
    ultimately show ?thesis using \<open>nat j = ?k + 2\<close> u o by simp
  qed simp
  then have "short_part s" using s unfolding short_part_def sep by blast
  with assms show False by blast
qed

lemma osip_body_parse_mime_ok: "ensures (osip_body_parse_mime osip_body_init buf) (\<lambda>r. \<forall>b. r = Some b \<longrightarrow> body_ok b)"
proof -
  let ?s = "cstr buf"
  have nn: "NUL \<notin> set ?s" by (auto simp: cstr_def dest: set_takeWhileD)
  have len: "length ?s \<le> length buf" by (simp add: cstr_def length_takeWhile_le)
  have "pred_option content_type_ok (body_content_type osip_body_init)" by (simp add: osip_body_init_def)
  then obtain r where r: "osip_body_parse_header osip_body_init ?s 0 = Inr r"
      "\<And>b q. r = Some (b, q) \<Longrightarrow> pred_option content_type_ok (body_content_type b) \<and> within ?s q \<and> 0 < q"
    using osip_body_parse_header_ok [OF nn, of 0 osip_body_init] by (auto simp: ensures_iff)
  show ?thesis
  proof (cases r)
    case None
    with r(1) show ?thesis by (simp add: osip_body_parse_mime_def Let_def)
  next
    case (Some bq)
    obtain b q where bq: "bq = (b, q)" by (cases bq)
    with Some r(2) have q: "pred_option content_type_ok (body_content_type b)" "within ?s q" "0 < q" by auto
    obtain c where c: "rd ?s q = Inr c" using rd_defined [of q ?s] q(2) by auto
    have "safe (if c = CR then rd ?s (q + 1) else Inr NUL)"
      using c rd_defined [of "q + 1" ?s] q(2) by (auto simp: rd_def split: if_splits)
    then obtain d where d: "(if c = CR then rd ?s (q + 1) else Inr NUL) = Inr d" by (auto simp: ensures_iff)
    have "body_ok (b\<lparr>body_text := drop (nat k) buf, body_length := int (length buf) - k\<rparr>)" if "0 \<le> k" "\<not> int (length buf) - k \<le> 0" for k
      using that q(1) by (auto simp: body_ok_def)
    then show ?thesis
      using q(2) unfolding osip_body_parse_mime_def Let_def r(1) Some bq bindO_def bindR.simps option.case prod.case c d by auto
  qed
qed

lemma set_body_mime_ok: "keeps_ok (osip_message_set_body_mime m buf) m"
proof -
  obtain r where "osip_body_parse_mime osip_body_init buf = Inr r" "\<And>b. r = Some b \<Longrightarrow> body_ok b"
    using osip_body_parse_mime_ok [of buf] by (auto simp: ensures_iff)
  then show ?thesis by (auto simp: osip_message_set_body_mime_def keeps_ok_def kept_bodies split: option.split)
qed

lemma part_loop_ok:
  "\<not> short_part s \<Longrightarrow> within s p \<Longrightarrow> e = int (length s) \<Longrightarrow> keeps_ok (part_loop m b s p e) m"
proof (induction m b s p e rule: part_loop.induct)
  case (1 m b s p e)
  define sep where "sep = LF # ''--'' @ b"
  have l: "3 \<le> length sep" by (simp add: sep_def)
  have found: "\<exists>r. find_next_occurence 1000 sep s p e = Inr r \<and>
      (\<forall>q. r = Some q \<longrightarrow> p \<le> q \<and> q + int (length sep) \<le> int (length s) \<and> take (length sep) (drop (nat q) s) = sep)"
    if "within s p" for p
    unfolding ensures_iff [symmetric] by (rule wp_find_next_occurence [OF that "1.prems"(3)]) auto
  obtain r1 where r1: "find_next_occurence 1000 sep s p e = Inr r1"
      "\<And>q. r1 = Some q \<Longrightarrow> p \<le> q \<and> q + int (length sep) \<le> int (length s) \<and> take (length sep) (drop (nat q) s) = sep"
    using found [OF "1.prems"(2)] by auto
  show ?case
  proof (cases r1)
    case None
    show ?thesis unfolding part_loop.simps [of m b s p e] Let_def sep_def [symmetric] r1(1) None by simp
  next
    case (Some i)
    note i = r1(2) [OF Some]
    then have w: "within s (i + int (length sep))" using "1.prems"(2) by simp
    obtain r2 where r2: "find_next_occurence 1000 sep s (i + int (length sep)) e = Inr r2"
        "\<And>q. r2 = Some q \<Longrightarrow> i + int (length sep) \<le> q \<and> q + int (length sep) \<le> int (length s) \<and> take (length sep) (drop (nat q) s) = sep"
      using found [OF w] by auto
    show ?thesis
    proof (cases r2)
      case None
      show ?thesis unfolding part_loop.simps [of m b s p e] Let_def sep_def [symmetric] r1(1) Some bindR.simps option.case r2(1) None by simp
    next
      case j: (Some j)
      note jb = r2(2) [OF j]
      have i0: "0 \<le> i" "0 < j" using i l jb "1.prems"(2) by linarith+
      have c: "rd s (i + int (length sep) + 1) = Inr (s ! nat (i + int (length sep) + 1))" "rd s (j - 1) = Inr (s ! nat (j - 1))"
        using i0 jb l by (auto simp: rd_def)
      let ?start = "if cr_lf (s ! nat (i + int (length sep) + 1)) then i + int (length sep) + 1 + 1 else i + int (length sep) + 1"
      let ?len = "j - ?start - (if s ! nat (j - 1) = CR then 1 else 0)"
      have nn: "\<not> ?len < 0"
        using part_length [of sep i s j b, OF conjunct2 [OF conjunct2 [OF i]] conjunct2 [OF conjunct2 [OF jb]] i0(1) _ _ sep_def "1.prems"(1)] jb
        by (simp add: not_less)
      obtain k m' where set: "osip_message_set_body_mime m (take (nat ?len) (drop (nat ?start) s)) = Inr (k, m')" "kept m m'"
        using set_body_mime_ok [of m "take (nat ?len) (drop (nat ?start) s)"] unfolding keeps_ok_def ensures_iff by blast
      obtain c2 where c2: "rd s (j + int (length sep)) = Inr c2" using rd_defined [of "j + int (length sep)" s] jb i0 by auto
      have "safe (if c2 = CHR ''-'' then rd s (j + int (length sep) + 1) else Inr NUL)"
        using c2 rd_defined [of "j + int (length sep) + 1" s] jb i0 by (auto simp: rd_def split: if_splits)
      then obtain d where d: "(if c2 = CHR ''-'' then rd s (j + int (length sep) + 1) else Inr NUL) = Inr d" by (auto simp: ensures_iff)
      have step: "part_loop m b s p e = (if k = - 1 then Inr (- 1, m') else if c2 = CHR ''-'' \<and> d = CHR ''-'' then Inr (0, m') else part_loop m' b s j e)"
        unfolding part_loop.simps [of m b s p e] Let_def sep_def [symmetric] r1(1) r2(1) Some j bindR.simps option.case c set(1) c2 d prod.case if_not_P [OF nn]
        by simp
      show ?thesis
      proof (cases "k = - 1 \<or> c2 = CHR ''-'' \<and> d = CHR ''-''")
        case True
        then show ?thesis using set(2) by (auto simp: step keeps_ok_def)
      next
        case False
        have "keeps_ok (part_loop m' b s j e) m'"
          by (rule "1.IH" [OF sep_def r1(1) Some r2(1) j refl c refl refl nn set(1) refl _ c2 d _ "1.prems"(1)]) (use False jb i0 "1.prems"(3) in auto)
        then show ?thesis using set(2) False by (auto simp: step keeps_ok_def elim!: ensures_mono kept_trans)
      qed
    qed
  qed
qed

lemma set_content_length_ok: "keeps_ok (osip_message_set_content_length m (Some v)) m"
proof -
  have "safe (osip_content_length_parse v)" by (rule content_length_safe)
  then show ?thesis
    by (auto simp: osip_message_set_content_length_def set_once_def keeps_ok_def kept_def start_line_def sip_ok_def ensures_iff Let_def)
qed

lemma kept_set_body: "kept m (osip_message_set_body m t)"
proof -
  have "body_ok (osip_body_init\<lparr>body_text := t, body_length := int (length t)\<rparr>)"
    by (simp add: body_ok_def osip_body_init_def)
  then show ?thesis unfolding osip_message_set_body_def by (rule kept_bodies)
qed

lemma show_length: "0 \<le> n \<Longrightarrow> n < 2 ^ 31 \<Longrightarrow> ensures (strcat_to 16 [] (show_int n)) (\<lambda>t. True)"
proof -
  assume n: "0 \<le> n" "n < 2 ^ 31"
  then have "nat n < 10 ^ 10" by simp
  then have "length (show_nat (nat n)) \<le> 10" by (rule length_show_nat) simp
  with n show ?thesis by (simp add: strcat_to_def strcpy_to_def show_int_def)
qed

lemma single_body_ok:
  assumes "0 \<le> p" "p + n = int (length s)" "3 \<le> n" "length s < 2 ^ 31"
  shows "keeps_ok (single_body m ct s p n) m"
proof -
  have c: "rd s p = Inr (s ! nat p)" "rd s (p + 1) = Inr (s ! nat (p + 1))" using assms by (auto simp: rd_def)
  have d: "(if s ! nat p = CR then rd s (p + 1) else Inr NUL) = Inr (if s ! nat p = CR then s ! nat (p + 1) else NUL)" using c by simp
  define k :: int where "k = (if s ! nat p = CR \<and> (if s ! nat p = CR then s ! nat (p + 1) else NUL) = LF then 2 else 1)"
  have k: "1 \<le> k" "k \<le> 2" by (auto simp: k_def)
  have len: "(n - k) mod 2 ^ 32 = n - k" using assms k by (intro mod_pos_pos_trivial) auto
  let ?z = "int (length (cstr (drop (nat (p + k)) s)))"
  have z: "?z \<le> n - k" "?z < 2 ^ 31"
    using length_takeWhile_le [of "\<lambda>c. c \<noteq> NUL" "drop (nat (p + k)) s"] assms k by (auto simp: cstr_def)
  obtain t where t: "strcat_to 16 [] (show_int ?z) = Inr t" using show_length [of ?z] z by (auto simp: ensures_iff)
  obtain j m' where set: "osip_message_set_content_length m (Some t) = Inr (j, m')" "kept m m'"
    using set_content_length_ok [of m t] by (auto simp: keeps_ok_def ensures_iff)
  have body: "kept m (osip_message_set_body m' w)" for w using set(2) kept_set_body kept_trans by blast
  have fits: "\<not> int (length s) < p + k + l" if "l \<le> n - k" for l using that assms by simp
  show ?thesis
    unfolding single_body_def c(1) bindR.simps d Let_def k_def [symmetric] len keeps_ok_def t set(1)
    using fits z body set(2) by (auto simp: kept_set_body split: option.split)
qed

lemma body_parse_ok:
  assumes "0 \<le> p" "p + n = int (length s)" "3 \<le> n" "length s < 2 ^ 31" "\<not> short_part s"
  shows "keeps_ok (msg_osip_body_parse m s p n) m"
proof -
  have "keeps_ok (single_body m ct s p n) m" for ct by (rule single_body_ok [OF assms(1-4)])
  moreover have "keeps_ok (bindR (sep_boundary_of v) (\<lambda>sep. part_loop m (drop 3 sep) s p (p + n))) m" for v
  proof -
    have "length (if v \<noteq> [] \<and> hd v = CHR 0x22 \<and> last v = CHR 0x22 then butlast (tl v) else v) \<le> length v" by auto
    then obtain sep where "sep_boundary_of v = Inr sep" by (auto simp: sep_boundary_of_def strcat_to_def strcpy_to_def)
    moreover have "keeps_ok (part_loop m (drop 3 sep) s p (p + n)) m"
      by (rule part_loop_ok [OF assms(5)]) (use assms in auto)
    ultimately show ?thesis by simp
  qed
  ultimately show ?thesis
    unfolding msg_osip_body_parse_def by (simp split: option.split)
qed

section \<open>The message\<close>

lemma replace_all_lws_cases:
  assumes "replace_all_lws s = Inr t"
  obtains "t = s" | n c u where "peek s n = Inr c" "replace_all_lws (drop (n + 1) s) = Inr u" "t = replicate n (CHR '' '') @ c # u"
  | c u where "s \<noteq> []" "replace_all_lws (drop 1 s) = Inr u" "t = c # u"
proof (cases "t = s")
  case False
  have step: "\<exists>c. peek s k = Inr c \<and> f c = Inr t" if "bindR (peek s k) (\<lambda>c. if c = NUL then Inr s else f c) = Inr t" for k f
    using that False by (auto simp: bindR_eq_Inr split: if_splits)
  have "\<exists>c0. peek s 0 = Inr c0 \<and> ((\<exists>n c u. peek s n = Inr c \<and> replace_all_lws (drop (n + 1) s) = Inr u \<and> t = replicate n (CHR '' '') @ c # u) \<or>
      (\<exists>u. replace_all_lws (drop 1 s) = Inr u \<and> t = c0 # u))"
    using assms unfolding replace_all_lws.simps [of s] Let_def
    by - (drule step, elim exE conjE, drule step, elim exE conjE, drule step, elim exE conjE, drule step, elim exE conjE,
      simp only: bindR_eq_Inr split: if_splits, (use False in \<open>metis sum.inject(2)\<close>)+)
  moreover from this have "s \<noteq> []" by (auto simp: peek_def)
  ultimately show ?thesis using that(2,3) by blast
qed (rule that(1))

lemma replace_all_lws_length: "replace_all_lws s = Inr t \<Longrightarrow> length t = length s"
proof (induction "length s" arbitrary: s t rule: less_induct)
  case less
  from less.prems show ?case
  proof (cases rule: replace_all_lws_cases)
    case (2 n c u)
    then have "n < length s" by (simp add: peek_def split: if_splits)
    with 2 less.hyps [of "drop (n + 1) s" u] show ?thesis by simp
  next
    case (3 c u)
    with less.hyps [of "drop 1 s" u] show ?thesis by simp
  qed simp
qed

lemma add_content_length_ok:
  "ensures (add_content_length m) (\<lambda>(i, m'). i = 0 \<and> kept m m' \<and> content_length m' \<noteq> None)"
  by (simp add: add_content_length_def osip_message_set_content_length_def set_once_def no_value_def
      osip_content_length_parse_def copyO_def osip_strncpy_def strend_def kept_def start_line_def sip_ok_def)

definition complete :: "sip \<Rightarrow> bool" where
  "complete m \<longleftrightarrow> sip_ok m \<and> startline_ok m \<and> content_length m \<noteq> None"

lemma startline_ok_kept: "kept m m' \<Longrightarrow> startline_ok m \<Longrightarrow> startline_ok m'"
  by (simp add: kept_def start_line_def startline_ok_def)


text \<open>A message on which all the conditions hold, with a folded line, a list and a body.\<close>

fun blank_piece_from :: "string \<Rightarrow> bool" where
  "blank_piece_from [] = False"
| "blank_piece_from (c # s) = ((s \<noteq> [] \<and> sp_or_tab (hd s) \<and>
     (case dropWhile sp_or_tab s of [] \<Rightarrow> False | d # _ \<Rightarrow> blank_between c d)) \<or> blank_piece_from s)"

lemma blank_piece_found: "blank_piece s \<Longrightarrow> blank_piece_from s"
proof -
  assume "blank_piece s"
  then obtain a c bs d t where s: "s = a @ c # bs @ d # t" "bs \<noteq> []" "list_all sp_or_tab bs" "blank_between c d"
    unfolding blank_piece_def by blast
  have "\<not> sp_or_tab d" using s(4) by (auto simp: blank_between_def cr_lf_def sp_or_tab_def)
  then have "dropWhile sp_or_tab (bs @ d # t) = d # t"
    using s(3) by (simp add: dropWhile_append2 list_all_iff)
  moreover have "sp_or_tab (hd (bs @ d # t))" using s(2,3) by (cases bs) auto
  ultimately have "blank_piece_from (c # bs @ d # t)" using s(4) by simp
  then show ?thesis unfolding s(1) by (induction a) simp_all
qed

definition sample_message :: string where
  "sample_message = ''INVITE sip:bob@b.net SIP/2.0'' @ [CR, LF] @ ''v: SIP/2.0/UDP a.net;branch=z9'' @ [CR, LF] @
     ''f: <sip:al@a.net>;'' @ [CR, LF] @ '' tag=19'' @ [CR, LF] @ ''Allow: INVITE, ACK'' @ [CR, LF] @
     ''c: application/sdp'' @ [CR, LF] @ [CR, LF] @ ''v=0'' @ [CR, LF]"


section \<open>What goes wrong\<close>

text \<open>A message that ends in a folded line.\<close>

lemma folded_end_faults:
  assumes "\<forall>c\<in>set a. \<not> cr_lf c \<and> c \<noteq> NUL" "list_all sp_or_tab bs" "2 \<le> length bs"
  shows "replace_all_lws (a @ [CR, LF] @ bs @ [NUL]) = Inl Uninitialised_read"
  using assms(1)
proof (induction a)
  case Nil
  obtain b1 b2 cs where bs: "bs = b1 # b2 # cs" "sp_or_tab b1" "sp_or_tab b2" "list_all sp_or_tab cs"
    using assms(2,3) by (cases bs; cases "tl bs") auto
  have "takeWhile sp_or_tab (bs @ [NUL]) = bs" using assms(2) by (simp add: list_all_iff sp_or_tab_def)
  moreover have "b1 \<noteq> NUL" "b2 \<noteq> NUL" "b1 \<noteq> CR" "b1 \<noteq> LF" using bs(2,3) by (auto simp: sp_or_tab_def)
  moreover have "replace_all_lws [] = Inl Uninitialised_read" by (subst replace_all_lws.simps) (simp add: peek_def)
  ultimately show ?case using bs(1,2)
    by (subst replace_all_lws.simps) (simp add: peek_def end_of_headers_def folded_def Let_def nth_append)
next
  case (Cons c a)
  have c: "c \<noteq> CR" "c \<noteq> LF" "c \<noteq> NUL" using Cons.prems by (auto simp: cr_lf_def)
  have nn: "(a @ [CR, LF] @ bs) ! i \<noteq> NUL" if "i < length (a @ [CR, LF] @ bs)" for i
  proof -
    have "\<not> sp_or_tab NUL" by (simp add: sp_or_tab_def)
    then have "NUL \<notin> set bs" using assms(2) unfolding list_all_iff by blast
    moreover have "NUL \<notin> set a" using Cons.prems by auto
    ultimately have "NUL \<notin> set (a @ [CR, LF] @ bs)" by simp
    then show ?thesis using nth_mem [OF that] by metis
  qed
  have at: "peek (c # a @ [CR, LF] @ bs @ [NUL]) (Suc i) = Inr ((a @ [CR, LF] @ bs) ! i)" if "i < 3" for i
    using that assms(3) nth_append [of "a @ [CR, LF] @ bs" "[NUL]" i] by (simp add: peek_def)
  have at': "peek (c # a @ [CR, LF] @ bs @ [NUL]) 1 = Inr ((a @ [CR, LF] @ bs) ! 0)"
    "peek (c # a @ [CR, LF] @ bs @ [NUL]) 2 = Inr ((a @ [CR, LF] @ bs) ! 1)"
    "peek (c # a @ [CR, LF] @ bs @ [NUL]) 3 = Inr ((a @ [CR, LF] @ bs) ! 2)"
    "peek (c # a @ [CR, LF] @ bs @ [NUL]) 0 = Inr c"
    using at [of 0] at [of 1] at [of 2] by (simp_all add: peek_def numeral_2_eq_2 numeral_3_eq_3)
  have nn': "(a @ [CR, LF] @ bs) ! i \<noteq> NUL" if "i < 3" for i using nn [of i] assms(3) that by simp
  have "\<not> end_of_headers c c1 c2 c3" "\<not> folded c c1 c2" for c1 c2 c3
    using c by (simp_all add: end_of_headers_def folded_def)
  then have "replace_all_lws (c # a @ [CR, LF] @ bs @ [NUL]) =
      bindR (replace_all_lws (drop 1 (c # a @ [CR, LF] @ bs @ [NUL]))) (\<lambda>t. Inr (c # t))"
    unfolding replace_all_lws.simps [of "c # a @ [CR, LF] @ bs @ [NUL]"] at' bindR.simps using c(3) nn' by simp
  with Cons show ?case by simp
qed

text \<open>Two boundaries with nothing between them.\<close>

lemma strstr_here: "str \<noteq> [] \<Longrightarrow> strstr (str @ t) str = Some 0"
  by (simp add: strstr_def find_Some_iff) (rule exI [of _ 0], simp)

lemma adjacent_boundaries_crash:
  assumes "NUL \<notin> set b" "CHR 0x22 \<notin> set b"
  shows "msg_osip_body_parse (m\<lparr>msg_content_type := Some \<lparr>ct_type = Some ''multipart'', ct_subtype = Some ''mixed'',
      ct_params = [\<lparr>gname = ''boundary'', gvalue = Some b\<rparr>]\<rparr>\<rparr>)
    ((LF # ''--'' @ b) @ (LF # ''--'' @ b) @ t) 0 n = Inl Buffer_overflow"
proof -
  define sep where "sep = LF # ''--'' @ b"
  let ?s = "sep @ sep @ t"
  have l: "length sep = length b + 3" "sep \<noteq> []" by (simp_all add: sep_def)
  have nn: "\<forall>c\<in>set sep. c \<noteq> NUL" using assms(1) by (auto simp: sep_def)
  have c1: "cstr ?s = sep @ sep @ cstr t" "cstr (sep @ t) = sep @ cstr t"
    using nn by (simp_all add: cstr_def takeWhile_append2)
  have f1: "find_next_occurence 1000 sep ?s 0 e = Inr (Some 0)" for e
    using strstr_here [OF l(2), of "sep @ cstr t"] c1(1)
    by (simp add: find_next_occurence.simps(2) [of 999, simplified] Let_def)
  have f2: "find_next_occurence 1000 sep ?s (int (length sep)) e = Inr (Some (int (length sep)))" for e
    using strstr_here [OF l(2), of "cstr t"] c1(2)
    by (simp add: find_next_occurence.simps(2) [of 999, simplified] Let_def)
  have "rd ?s (int (length sep) + 1) = Inr (CHR ''-'')" by (simp add: rd_def sep_def nth_append nat_add_distrib)
  moreover have "\<exists>d. rd ?s (int (length sep) - 1) = Inr d" by (rule rd_defined) (simp_all add: sep_def)
  ultimately have "part_loop m b ?s 0 e = Inl Buffer_overflow" for m e
    unfolding part_loop.simps [of m b ?s 0 e] Let_def sep_def [symmetric] f1 bindR.simps option.case add_0 f2
    by (auto simp: cr_lf_def)
  moreover have "sep_boundary_of b = Inr sep"
    using assms(2) by (cases b) (auto simp: sep_boundary_of_def strcat_to_def strcpy_to_def sep_def)
  ultimately show ?thesis
    unfolding sep_def [symmetric] msg_osip_body_parse_def
    by (simp add: osip_uri_param_get_byname_def sep_def strcasecmp0_def strncasecmp0_def)
qed

lemma adjacent_boundaries_crash_witness:
  "msg_osip_body_parse (osip_message_init\<lparr>msg_content_type := Some \<lparr>ct_type = Some ''multipart'', ct_subtype = Some ''mixed'',
      ct_params = [\<lparr>gname = ''boundary'', gvalue = Some ''x''\<rparr>]\<rparr>\<rparr>) ((LF # ''--x'') @ (LF # ''--x'') @ ''--'') 0 10 = Inl Buffer_overflow"
  using adjacent_boundaries_crash [of "''x''" osip_message_init "''--''" 10] by simp

end
