(* ===== verification/Osip_Sdp_Correct.thy ===== *)
theory Osip_Sdp_Correct
  imports Osip_Sdp Osip_Parse_Correct
begin

text \<open>
  Correctness of session descriptions: what is printed, that reading stays within the text and stores
  complete lines, and that a printed description is read back.
\<close>

section \<open>The text of a description\<close>

definition line_text :: "string \<Rightarrow> string \<Rightarrow> string" where
  "line_text prefix v = prefix @ v @ crlf_text"

definition opt_text :: "('a \<Rightarrow> string) \<Rightarrow> 'a option \<Rightarrow> string" where
  "opt_text f v = (case v of None \<Rightarrow> [] | Some x \<Rightarrow> f x)"

definition connection_text :: "sdp_connection \<Rightarrow> string" where
  "connection_text c = ''c='' @ the (c_nettype c) @ '' '' @ the (c_addrtype c) @ '' '' @ the (c_addr c) @
     opt_text (\<lambda>v. ''/'' @ v) (c_addr_multicast_ttl c) @ opt_text (\<lambda>v. ''/'' @ v) (c_addr_multicast_int c) @ crlf_text"

definition bandwidth_text :: "sdp_bandwidth \<Rightarrow> string" where
  "bandwidth_text b = ''b='' @ the (b_bwtype b) @ '':'' @ the (b_bandwidth b) @ crlf_text"

definition time_text :: "sdp_time_descr \<Rightarrow> string" where
  "time_text t = ''t='' @ the (t_start_time t) @ '' '' @ the (t_stop_time t) @ crlf_text @ concat (map (line_text ''r='') (r_repeats t))"

definition name_value_text :: "string \<Rightarrow> string option \<Rightarrow> string" where
  "name_value_text n v = n @ opt_text (\<lambda>v. '':'' @ v) v @ crlf_text"

definition key_text :: "sdp_key \<Rightarrow> string" where
  "key_text k = ''k='' @ name_value_text (the (k_keytype k)) (k_keydata k)"

definition attribute_text :: "sdp_attribute \<Rightarrow> string" where
  "attribute_text a = ''a='' @ name_value_text (the (a_att_field a)) (a_att_value a)"

definition media_line :: "sdp_media \<Rightarrow> string" where
  "media_line m = ''m='' @ the (m_media m) @ '' '' @ the (m_port m) @ opt_text (\<lambda>n. ''/'' @ n) (m_number_of_port m) @ '' '' @ the (m_proto m) @
     concat (map (\<lambda>p. '' '' @ p) (m_payloads m)) @ crlf_text"

definition media_rest :: "sdp_media \<Rightarrow> string" where
  "media_rest m = opt_text (line_text ''i='') (media_i_info m) @ concat (map connection_text (c_connections m)) @
     concat (map bandwidth_text (media_b_bandwidths m)) @ opt_text key_text (media_k_key m) @
     concat (map attribute_text (media_a_attributes m))"

definition media_text :: "sdp_media \<Rightarrow> string" where
  "media_text m = media_line m @ media_rest m"

definition origin_text :: "sdp_message \<Rightarrow> string" where
  "origin_text sdp = ''o='' @ the (o_username sdp) @ '' '' @ the (o_sess_id sdp) @ '' '' @ the (o_sess_version sdp) @ '' '' @
     the (o_nettype sdp) @ '' '' @ the (o_addrtype sdp) @ '' '' @ the (o_addr sdp) @ crlf_text"

definition sdp_text_of :: "sdp_message \<Rightarrow> string" where
  "sdp_text_of sdp = line_text ''v='' (the (v_version sdp)) @ origin_text sdp @
     opt_text (line_text ''s='') (s_name sdp) @ opt_text (line_text ''i='') (i_info sdp) @ opt_text (line_text ''u='') (u_uri sdp) @
     concat (map (line_text ''e='') (e_emails sdp)) @ concat (map (line_text ''p='') (p_phones sdp)) @
     opt_text connection_text (c_connection sdp) @ concat (map bandwidth_text (b_bandwidths sdp)) @
     concat (map time_text (t_descrs sdp)) @ opt_text (line_text ''z='') (z_adjustments sdp) @ opt_text key_text (k_key sdp) @
     concat (map attribute_text (a_attributes sdp)) @ concat (map media_text (m_medias sdp))"

section \<open>What is complete\<close>

definition connection_ok :: "sdp_connection \<Rightarrow> bool" where
  "connection_ok c \<longleftrightarrow> c_nettype c \<noteq> None \<and> c_addrtype c \<noteq> None \<and> c_addr c \<noteq> None"

definition bandwidth_ok :: "sdp_bandwidth \<Rightarrow> bool" where
  "bandwidth_ok b \<longleftrightarrow> b_bwtype b \<noteq> None \<and> b_bandwidth b \<noteq> None"

definition time_ok :: "sdp_time_descr \<Rightarrow> bool" where
  "time_ok t \<longleftrightarrow> t_start_time t \<noteq> None \<and> t_stop_time t \<noteq> None"

definition key_ok :: "sdp_key \<Rightarrow> bool" where
  "key_ok k \<longleftrightarrow> k_keytype k \<noteq> None"

definition attribute_ok :: "sdp_attribute \<Rightarrow> bool" where
  "attribute_ok a \<longleftrightarrow> a_att_field a \<noteq> None"

definition media_ok :: "sdp_media \<Rightarrow> bool" where
  "media_ok m \<longleftrightarrow> m_media m \<noteq> None \<and> m_port m \<noteq> None \<and> m_proto m \<noteq> None \<and> list_all connection_ok (c_connections m) \<and>
     list_all bandwidth_ok (media_b_bandwidths m) \<and> pred_option key_ok (media_k_key m) \<and> list_all attribute_ok (media_a_attributes m)"

definition parts_ok :: "sdp_message \<Rightarrow> bool" where
  "parts_ok sdp \<longleftrightarrow> pred_option connection_ok (c_connection sdp) \<and> list_all bandwidth_ok (b_bandwidths sdp) \<and>
     list_all time_ok (t_descrs sdp) \<and> pred_option key_ok (k_key sdp) \<and> list_all attribute_ok (a_attributes sdp) \<and>
     list_all media_ok (m_medias sdp)"

definition origin_ok :: "sdp_message \<Rightarrow> bool" where
  "origin_ok sdp \<longleftrightarrow> o_username sdp \<noteq> None \<and> o_sess_id sdp \<noteq> None \<and> o_sess_version sdp \<noteq> None \<and> o_nettype sdp \<noteq> None \<and>
     o_addrtype sdp \<noteq> None \<and> o_addr sdp \<noteq> None"

definition sdp_ok :: "sdp_message \<Rightarrow> bool" where
  "sdp_ok sdp \<longleftrightarrow> v_version sdp \<noteq> None \<and> origin_ok sdp \<and> parts_ok sdp"

section \<open>Printing\<close>

text \<open>A printer that appends a text, as long as it fits.\<close>

definition prints :: "(nat \<Rightarrow> string \<Rightarrow> string option res) \<Rightarrow> string \<Rightarrow> bool" where
  "prints f t \<longleftrightarrow> (\<forall>cap cur. length cur < cap \<longrightarrow>
     f cap cur = (if length cur + length t < cap then Inr (Some (cur @ t)) else Inl Buffer_overflow))"

named_theorems printing \<open>what the printers append\<close>

lemma prints_then:
  assumes "prints f t" "prints g u"
  shows "prints (\<lambda>cap cur. bindO (f cap cur) (\<lambda>cur. g cap cur)) (t @ u)"
  using assms by (auto simp: prints_def)

lemma prints_nothing: "prints (\<lambda>cap cur. Inr (Some cur)) []"
  by (simp add: prints_def)

lemma sdp_appends_fit:
  "length cur < cap \<Longrightarrow> sdp_appends cap ts cur = (if length cur + length (concat ts) < cap then Inr (cur @ concat ts) else Inl Buffer_overflow)"
proof (induction ts arbitrary: cur)
  case (Cons t ts)
  then show ?case by (auto simp: sdp_appends_def sdp_append_string_def)
qed (simp add: sdp_appends_def)

lemma prints_in_line: "t = concat ts \<Longrightarrow> prints (\<lambda>cap cur. in_line cap cur ts) t"
  by (simp add: prints_def in_line_def sdp_appends_fit)

lemma prints_all:
  "(\<And>x. x \<in> set xs \<Longrightarrow> prints (\<lambda>cap cur. f cap cur x) (t x)) \<Longrightarrow> prints (\<lambda>cap cur. sdp_append_all f cap cur xs) (concat (map t xs))"
proof (induction xs)
  case (Cons x xs)
  have "prints (\<lambda>cap cur. bindO (f cap cur x) (\<lambda>cur. sdp_append_all f cap cur xs)) (t x @ concat (map t xs))"
    by (rule prints_then) (use Cons in auto)
  then show ?case by simp
qed (simp add: prints_nothing)

lemma prints_option:
  "(\<And>x. v = Some x \<Longrightarrow> prints (\<lambda>cap cur. f cap cur x) (t x)) \<Longrightarrow> prints (\<lambda>cap cur. sdp_append_option f cap cur v) (opt_text t v)"
  by (cases v) (simp_all add: sdp_append_option_def opt_text_def prints_nothing)

lemma prints_line: "prints (\<lambda>cap cur. sdp_append_line prefix cap cur v) (line_text prefix v)"
  unfolding sdp_append_line_def by (rule prints_in_line) (simp add: line_text_def)

lemma prints_connection:
  assumes "connection_ok c"
  shows "prints (\<lambda>cap cur. sdp_append_connection cap cur c) (connection_text c)"
proof -
  obtain a b d where c: "c_nettype c = Some a" "c_addrtype c = Some b" "c_addr c = Some d"
    using assms by (auto simp: connection_ok_def)
  have slash: "prints (\<lambda>cap cur. case v of None \<Rightarrow> Inr (Some cur) | Some v \<Rightarrow> in_line cap cur [''/'', v]) (opt_text (\<lambda>v. ''/'' @ v) v)" for v
    by (cases v) (auto simp: opt_text_def prints_nothing intro!: prints_in_line)
  have "prints (\<lambda>cap cur. sdp_append_connection cap cur c) ((''c='' @ a @ '' '' @ b @ '' '' @ d) @
      (opt_text (\<lambda>v. ''/'' @ v) (c_addr_multicast_ttl c) @ (opt_text (\<lambda>v. ''/'' @ v) (c_addr_multicast_int c) @ crlf_text)))"
    unfolding sdp_append_connection_def c option.case prod.case
    by (intro prints_then slash prints_in_line) simp_all
  then show ?thesis by (simp add: connection_text_def c)
qed

lemma prints_bandwidth: "bandwidth_ok b \<Longrightarrow> prints (\<lambda>cap cur. sdp_append_bandwidth cap cur b) (bandwidth_text b)"
  by (auto simp: bandwidth_ok_def sdp_append_bandwidth_def bandwidth_text_def intro!: prints_in_line)

lemma prints_time:
  assumes "time_ok t"
  shows "prints (\<lambda>cap cur. sdp_append_time_descr cap cur t) (time_text t)"
proof -
  obtain a b where t: "t_start_time t = Some a" "t_stop_time t = Some b" using assms by (auto simp: time_ok_def)
  have r: "concat (map (line_text ''r='') rs) = concat (concat (map (\<lambda>r. [''r='', r, crlf_text]) rs))" for rs
    by (induction rs) (simp_all add: line_text_def)
  have "prints (\<lambda>cap cur. sdp_append_time_descr cap cur t)
      ((''t='' @ a @ '' '' @ b @ crlf_text) @ concat (map (line_text ''r='') (r_repeats t)))"
    unfolding sdp_append_time_descr_def t option.case prod.case
    by (intro prints_then prints_in_line) (simp_all add: r)
  then show ?thesis by (simp add: time_text_def t)
qed

lemma prints_key: "key_ok k \<Longrightarrow> prints (\<lambda>cap cur. sdp_append_key cap cur k) (key_text k)"
  by (auto simp: key_ok_def sdp_append_key_def key_text_def name_value_text_def opt_text_def intro!: prints_in_line split: option.split)

lemma prints_attribute: "attribute_ok a \<Longrightarrow> prints (\<lambda>cap cur. sdp_append_attribute cap cur a) (attribute_text a)"
  by (auto simp: attribute_ok_def sdp_append_attribute_def attribute_text_def name_value_text_def opt_text_def intro!: prints_in_line split: option.split)

lemma prints_media:
  assumes "media_ok m"
  shows "prints (\<lambda>cap cur. sdp_append_media cap cur m) (media_text m)"
proof -
  obtain a b d where m: "m_media m = Some a" "m_port m = Some b" "m_proto m = Some d"
    using assms by (auto simp: media_ok_def)
  have p: "concat (map ((#) (CHR '' '')) ps) = concat (concat (map (\<lambda>p. ['' '', p]) ps))" for ps
    by (induction ps) simp_all
  show ?thesis
    unfolding sdp_append_media_def m option.case prod.case media_text_def media_rest_def
    by (intro prints_then prints_in_line prints_option prints_all prints_line prints_connection prints_bandwidth prints_key prints_attribute)
      (use assms in \<open>auto simp: media_line_def m p opt_text_def media_ok_def list_all_iff split: option.split\<close>)
qed

lemma to_str_prints:
  assumes "sdp_ok sdp"
  shows "sdp_message_to_str sdp = (if length (sdp_text_of sdp) < 4000 then Inr (Some (sdp_text_of sdp)) else Inl Buffer_overflow)"
proof -
  obtain v u i n nt at ad where h: "v_version sdp = Some v" "o_username sdp = Some u" "o_sess_id sdp = Some i" "o_sess_version sdp = Some n"
      "o_nettype sdp = Some nt" "o_addrtype sdp = Some at" "o_addr sdp = Some ad"
    using assms by (auto simp: sdp_ok_def origin_ok_def)
  let ?head = "''v='' @ v @ crlf_text @ ''o='' @ u @ '' '' @ i @ '' '' @ n @ '' '' @ nt @ '' '' @ at @ '' '' @ ad @ crlf_text"
  define f where "f = (\<lambda>cap cur.
          bindO (in_line cap cur [''v='', v, crlf_text, ''o='', u, '' '', i, '' '', n, '' '', nt, '' '', at, '' '', ad, crlf_text]) (\<lambda>cur.
          bindO (sdp_append_option (sdp_append_line ''s='') cap cur (s_name sdp)) (\<lambda>cur.
          bindO (sdp_append_option (sdp_append_line ''i='') cap cur (i_info sdp)) (\<lambda>cur.
          bindO (sdp_append_option (sdp_append_line ''u='') cap cur (u_uri sdp)) (\<lambda>cur.
          bindO (sdp_append_all (sdp_append_line ''e='') cap cur (e_emails sdp)) (\<lambda>cur.
          bindO (sdp_append_all (sdp_append_line ''p='') cap cur (p_phones sdp)) (\<lambda>cur.
          bindO (sdp_append_option sdp_append_connection cap cur (c_connection sdp)) (\<lambda>cur.
          bindO (sdp_append_all sdp_append_bandwidth cap cur (b_bandwidths sdp)) (\<lambda>cur.
          bindO (sdp_append_all sdp_append_time_descr cap cur (t_descrs sdp)) (\<lambda>cur.
          bindO (sdp_append_option (sdp_append_line ''z='') cap cur (z_adjustments sdp)) (\<lambda>cur.
          bindO (sdp_append_option sdp_append_key cap cur (k_key sdp)) (\<lambda>cur.
          bindO (sdp_append_all sdp_append_attribute cap cur (a_attributes sdp)) (\<lambda>cur.
            sdp_append_all sdp_append_media cap cur (m_medias sdp))))))))))))))"
  have "prints f (?head @ opt_text (line_text ''s='') (s_name sdp) @ opt_text (line_text ''i='') (i_info sdp) @ opt_text (line_text ''u='') (u_uri sdp) @
     concat (map (line_text ''e='') (e_emails sdp)) @ concat (map (line_text ''p='') (p_phones sdp)) @
     opt_text connection_text (c_connection sdp) @ concat (map bandwidth_text (b_bandwidths sdp)) @
     concat (map time_text (t_descrs sdp)) @ opt_text (line_text ''z='') (z_adjustments sdp) @ opt_text key_text (k_key sdp) @
     concat (map attribute_text (a_attributes sdp)) @ concat (map media_text (m_medias sdp)))"
    unfolding f_def
    by (intro prints_then prints_in_line prints_option prints_all prints_line prints_connection prints_bandwidth prints_time prints_key prints_attribute prints_media)
      (use assms in \<open>auto simp: sdp_ok_def parts_ok_def list_all_iff\<close>)
  also have "?head @ x = line_text ''v='' v @ origin_text sdp @ x" for x
    by (simp add: line_text_def origin_text_def h)
  finally have "prints f (sdp_text_of sdp)" by (simp add: sdp_text_of_def h)
  moreover have "sdp_message_to_str sdp = f 4000 []"
    unfolding sdp_message_to_str_def h option.case prod.case Let_def f_def ..
  ultimately show ?thesis by (simp add: prints_def)
qed

section \<open>Reading any text\<close>

lemma wp_next_token [wp_intros]:
  assumes "within s p" "c \<noteq> NUL" "P None"
    "\<And>t q. p + 1 < q \<Longrightarrow> q \<le> int (length s) \<Longrightarrow> s ! nat (q - 1) = c \<Longrightarrow> (\<And>i. p \<le> i \<Longrightarrow> i < q - 1 \<Longrightarrow> \<not> cr_lf (s ! nat i)) \<Longrightarrow> P (Some (t, q))"
  shows "ensures (osip_set_next_token s p c) P"
proof -
  let ?w = "takeWhile (\<lambda>d. d \<noteq> c \<and> d \<noteq> CR \<and> d \<noteq> LF) (drop (nat p) s)"
  let ?sep = "p + int (length ?w)"
  have "length ?w \<le> length s - nat p" by (metis length_drop length_takeWhile_le)
  with assms(1) have len: "?sep \<le> int (length s)" by linarith
  obtain d where d: "rd s ?sep = Inr d" using rd_defined [of ?sep s] len assms(1) by auto
  have inside: "\<not> (p < 0 \<or> int (length s) < p)" using assms(1) by simp
  have run: "osip_set_next_token s p c = (if (d = CR \<or> d = LF) \<and> d \<noteq> c then Inr None else if d = NUL \<or> ?sep = p then Inr None
      else bindR (osip_strncpy (?sep - p + 1) s p (?sep - p)) (\<lambda>dest. Inr (Some (dest, ?sep + 1))))"
    unfolding osip_set_next_token_def Let_def if_not_P [OF inside] d bindR.simps by (rule refl)
  show ?thesis
  proof (cases "(d = CR \<or> d = LF) \<and> d \<noteq> c \<or> d = NUL \<or> ?sep = p")
    case True
    then have "osip_set_next_token s p c = Inr None" unfolding run by (simp only: split: if_split) blast
    with assms(3) show ?thesis by simp
  next
    case False
    with d len have lt: "?sep < int (length s)" by (auto simp: rd_def split: if_splits)
    with d assms(1) have at: "s ! nat ?sep = d" by (auto simp: rd_def split: if_splits)
    have k: "length ?w < length (drop (nat p) s)" using lt assms(1) by simp
    from nth_length_takeWhile [OF k] have "\<not> (d \<noteq> c \<and> d \<noteq> CR \<and> d \<noteq> LF)"
      using at assms(1) k by (simp add: nat_add_distrib)
    with False have dc: "d = c" by blast
    have no: "\<not> cr_lf (s ! nat i)" if "p \<le> i" "i < ?sep" for i
    proof -
      have "nat i - nat p < length ?w" using that assms(1) by linarith
      then have "?w ! (nat i - nat p) \<in> set ?w" "?w ! (nat i - nat p) = drop (nat p) s ! (nat i - nat p)"
        by (rule nth_mem, rule takeWhile_nth)
      moreover have "drop (nat p) s ! (nat i - nat p) = s ! nat i"
      proof -
        have "nat p \<le> length s" "nat p + (nat i - nat p) = nat i" using that assms(1) by linarith+
        then show ?thesis by (simp only: nth_drop)
      qed
      ultimately show ?thesis using set_takeWhileD [of "s ! nat i"] by (auto simp: cr_lf_def)
    qed
    have "P (Some (t, ?sep + 1))" for t
      by (rule assms(4)) (use lt at dc no len False in \<open>auto simp: order_less_le\<close>)
    moreover have "\<not> ((d = CR \<or> d = LF) \<and> d \<noteq> c)" "\<not> (d = NUL \<or> ?sep = p)" using False by blast+
    then have "osip_set_next_token s p c = Inr (Some (take (nat (?sep - p)) (drop (nat p) s), ?sep + 1))"
      unfolding run using inside by (simp only: if_False) (simp add: osip_strncpy_def)
    ultimately show ?thesis by simp
  qed
qed

text \<open>The line that a reader has found.\<close>

definition line_found :: "string \<Rightarrow> int \<Rightarrow> int \<Rightarrow> bool" where
  "line_found s e l \<longleftrightarrow> 0 \<le> e \<and> e + 1 < l \<and> l < int (length s) \<and> cr_lf (s ! nat l) \<and> (\<forall>i. e < i \<and> i < l \<longrightarrow> \<not> cr_lf (s ! nat i))"

lemma sdp_line_ok:
  assumes "within s p" "NUL \<notin> set s" "0 < p \<or> (s \<noteq> [] \<longrightarrow> hd s \<noteq> CHR ''='')"
  shows "ensures (sdp_line c s p) (\<lambda>r. \<forall>e l. r = Line e l \<longrightarrow> p \<le> e \<and> line_found s e l)"
proof -
  obtain e where e: "skip_chars (\<lambda>c. c \<noteq> CHR ''='') s p = Inr e" "p \<le> e" "e \<le> int (length s)"
    using wp_skip_chars [of p s "\<lambda>q. p \<le> q \<and> q \<le> int (length s)"] assms(1) by (auto simp: ensures_iff)
  obtain c0 where c0: "rd s e = Inr c0" using rd_defined [of e s] e assms(1) by auto
  show ?thesis
  proof (cases "c0 = NUL")
    case True
    with e c0 show ?thesis by (simp add: sdp_line_def)
  next
    case False
    then have lt: "e < int (length s)" using c0 e by (auto simp: rd_def split: if_splits)
    have eq: "s ! nat e = CHR ''=''"
      using nth_length_takeWhile [of "\<lambda>c. c \<noteq> CHR ''=''" "drop (nat p) s"] e lt assms(1)
      by (auto simp: skip_chars_def nat_add_distrib split: if_splits)
    have "e \<noteq> 0"
    proof
      assume "e = 0"
      with e assms(1,3) have "s \<noteq> [] \<longrightarrow> hd s \<noteq> CHR ''=''" by auto
      with eq lt \<open>e = 0\<close> show False by (cases s) auto
    qed
    then have e0: "0 < e" using e assms(1) by linarith
    obtain d where d: "rd s (e - 1) = Inr d" using rd_defined [of "e - 1" s] e0 lt by auto
    obtain l where l: "skip_chars (\<lambda>c. \<not> cr_lf c) s (e + 1) = Inr l" "e + 1 \<le> l" "l \<le> int (length s)"
      using wp_skip_chars [of "e + 1" s "\<lambda>q. e + 1 \<le> q \<and> q \<le> int (length s)"] e0 lt by (auto simp: ensures_iff)
    obtain c1 where c1: "rd s l = Inr c1" using rd_defined [of l s] l e0 by auto
    have "line_found s e l" if "c1 \<noteq> NUL" "l \<noteq> e + 1"
    proof -
      have "l < int (length s)" using c1 that l by (auto simp: rd_def split: if_splits)
      from skip_to_line_end [OF l(1) this] show ?thesis
        using that l e0 \<open>l < int (length s)\<close> by (auto simp: line_found_def)
    qed
    with e c0 d l c1 False show ?thesis by (simp add: sdp_line_def)
  qed
qed

lemma sdp_field_ok:
  assumes "within s p" "NUL \<notin> set s" "0 < p \<or> (s \<noteq> [] \<longrightarrow> hd s \<noteq> CHR ''='')"
    and content: "\<And>e l. p \<le> e \<Longrightarrow> line_found s e l \<Longrightarrow> ensures (f sdp s e l) (\<lambda>(ok, sdp'). Q sdp' \<and> (ok \<longrightarrow> R sdp'))"
    and "Q sdp"
  shows "ensures (sdp_field c f sdp s p) (\<lambda>(i, sdp', q). i \<in> {- 1, 0, 1} \<and> Q sdp' \<and> p \<le> q \<and> within s q \<and> (i = 1 \<longrightarrow> R sdp'))"
proof -
  obtain r where r: "sdp_line c s p = Inr r" "\<And>e l. r = Line e l \<Longrightarrow> p \<le> e \<and> line_found s e l"
    using sdp_line_ok [OF assms(1-3), of c] unfolding ensures_iff by blast
  show ?thesis
  proof (cases r)
    case (Line e l)
    note el = r(2) [OF Line]
    obtain ok sdp' where f: "f sdp s e l = Inr (ok, sdp')" "Q sdp'" "ok \<Longrightarrow> R sdp'"
      using content [of e l] el by (auto simp: ensures_iff)
    have "within s (l + 1)" using el by (auto simp: line_found_def)
    then obtain n where n: "after_line s l = Inr n" using rd_defined [of "l + 1" s] by (auto simp: after_line_def)
    with after_line_bounds [OF n] f el r(1) Line assms(1) show ?thesis
      by (auto simp: sdp_field_def line_found_def)
  qed (use r(1) assms(1,5) in \<open>simp_all add: sdp_field_def\<close>)
qed

lemma wp_last_token [wp_intros]:
  assumes "within s p" "P None"
    "\<And>t q. p + 1 < q \<Longrightarrow> q \<le> int (length s) \<Longrightarrow> cr_lf (s ! nat (q - 1)) \<Longrightarrow> (\<And>i. p \<le> i \<Longrightarrow> i < q - 1 \<Longrightarrow> \<not> cr_lf (s ! nat i)) \<Longrightarrow> P (Some (t, q))"
  shows "ensures (last_token s p) P"
  unfolding last_token_def wp_bind
  by (rule wp_next_token [OF assms(1)], simp)
    (auto intro!: assms wp_next_token [OF assms(1)] simp: cr_lf_def split: option.split)

text \<open>What one step keeps.\<close>

definition grown :: "sdp_message \<Rightarrow> sdp_message \<Rightarrow> bool" where
  "grown sdp sdp' \<longleftrightarrow> (parts_ok sdp \<longrightarrow> parts_ok sdp') \<and> (v_version sdp \<noteq> None \<longrightarrow> v_version sdp' \<noteq> None) \<and> (origin_ok sdp \<longrightarrow> origin_ok sdp')"

lemma grown_refl [simp]: "grown sdp sdp"
  by (simp add: grown_def)

lemma grown_trans: "grown a b \<Longrightarrow> grown b c \<Longrightarrow> grown a c"
  by (auto simp: grown_def)

text \<open>
  The description ends in a line end of one character: behind the protocol of a media line there, the
  search for payloads starts behind the text.
\<close>

definition bare_end :: "string \<Rightarrow> bool" where
  "bare_end s \<longleftrightarrow> s \<noteq> [] \<and> (last s = CR \<or> last s = LF \<and> (butlast s = [] \<or> last (butlast s) \<noteq> CR))"


lemma wp_value: "line_found s e l \<Longrightarrow> (\<And>v. P v) \<Longrightarrow> ensures (sdp_value s e l) P"
  by (simp add: sdp_value_def osip_strncpy_def line_found_def)

lemma place_ok:
  assumes "grown sdp (g sdp)" "\<And>m. media_ok m \<Longrightarrow> media_ok (f m)"
  shows "grown sdp (place g f sdp)"
proof (cases "m_medias sdp" rule: rev_cases)
  case (snoc ms m)
  with assms(2) show ?thesis by (simp add: place_def grown_def parts_ok_def origin_ok_def)
qed (use assms(1) in \<open>simp add: place_def\<close>)

lemma wp_stored: "ensures r (\<lambda>x. \<forall>y. x = Some y \<longrightarrow> Q (store y)) \<Longrightarrow> Q sdp \<Longrightarrow> ensures (stored r store sdp) (\<lambda>(ok, sdp'). Q sdp')"
  unfolding stored_def wp_bind by (erule ensures_mono) (auto split: option.split)

lemma connection_safe:
  assumes "line_found s e l"
  shows "ensures (connection s (e + 1) l) (\<lambda>r. \<forall>c. r = Some c \<longrightarrow> connection_ok c)"
  using assms unfolding connection_def Let_def line_found_def connection_ok_def
  by (auto simp: wp_simps sdp_connection_init_def intro!: wp_intros wp_prod split: option.split)

lemma bandwidth_safe:
  assumes "line_found s e l"
  shows "ensures (bandwidth s (e + 1)) (\<lambda>r. \<forall>b. r = Some b \<longrightarrow> bandwidth_ok b)"
  using assms unfolding bandwidth_def line_found_def bandwidth_ok_def
  by (auto simp: wp_simps intro!: wp_intros wp_prod split: option.split)

lemma time_descr_safe:
  assumes "line_found s e l"
  shows "ensures (time_descr s (e + 1)) (\<lambda>r. \<forall>t. r = Some t \<longrightarrow> time_ok t)"
  using assms unfolding time_descr_def line_found_def time_ok_def
  by (auto simp: wp_simps intro!: wp_intros wp_prod split: option.split)

lemma name_value_safe:
  assumes "line_found s e l"
  shows "safe (name_value s e l)"
  using assms unfolding name_value_def line_found_def
  by (auto simp: wp_simps intro!: wp_intros wp_prod split: option.split)

lemma token_in_line:
  assumes "line_found s e l" "p \<le> l" "\<not> cr_lf (s ! nat (q - 1))" "\<And>i. p \<le> i \<Longrightarrow> i < q - 1 \<Longrightarrow> \<not> cr_lf (s ! nat i)"
  shows "q \<le> l"
proof (rule ccontr)
  assume "\<not> q \<le> l"
  then have "l = q - 1 \<or> l < q - 1" by linarith
  then show False using assms by (auto simp: line_found_def)
qed

lemma not_cr_lf [simp]: "\<not> cr_lf (CHR '' '')" "\<not> cr_lf (CHR ''/'')" "\<not> cr_lf (CHR '':'')" "cr_lf CR" "cr_lf LF"
  by (simp_all add: cr_lf_def)

lemma wp_token_in_line:
  assumes "line_found s e l" "e < p" "p \<le> l" "c \<noteq> NUL" "\<not> cr_lf c" "P None" "\<And>t q. p + 1 < q \<Longrightarrow> q \<le> l \<Longrightarrow> P (Some (t, q))"
  shows "ensures (osip_set_next_token s p c) P"
proof (rule wp_next_token)
  show "within s p" using assms(1-3) by (auto simp: line_found_def)
  fix t q
  assume "p + 1 < q" "s ! nat (q - 1) = c" "\<And>i. p \<le> i \<Longrightarrow> i < q - 1 \<Longrightarrow> \<not> cr_lf (s ! nat i)"
  with assms token_in_line [OF assms(1,3)] show "P (Some (t, q))" by blast
qed (use assms in auto)

lemma wp_last_token_in_line:
  assumes "line_found s e l" "e < p" "p \<le> l" "P None" "\<And>t. P (Some (t, l + 1))"
  shows "ensures (last_token s p) P"
proof (rule wp_last_token)
  show "within s p" using assms(1-3) by (auto simp: line_found_def)
  fix t q
  assume q: "p + 1 < q" "cr_lf (s ! nat (q - 1))" "\<And>i. p \<le> i \<Longrightarrow> i < q - 1 \<Longrightarrow> \<not> cr_lf (s ! nat i)"
  have "\<not> q - 1 < l" using q(1,2) assms(1,2) by (auto simp: line_found_def)
  moreover have "\<not> l < q - 1" using q(3) [of l] assms(1,3) by (auto simp: line_found_def)
  ultimately have "q = l + 1" by linarith
  then show "P (Some (t, q))" using assms(5) by simp
qed (rule assms(4))

lemma media_ports_in_line:
  assumes "line_found s e l" "e < p" "p \<le> l" "P None" "\<And>port n q. p + 1 < q \<Longrightarrow> q \<le> l \<Longrightarrow> P (Some (port, n, q))"
  shows "ensures (media_ports s p) P"
proof -
  have w: "within s p" using assms(1-3) by (auto simp: line_found_def)
  have one: "ensures (osip_set_next_token s p (CHR '' '')) (\<lambda>r. case r of None \<Rightarrow> P None | Some (port, q) \<Rightarrow> P (Some (port, None, q)))"
    by (rule wp_token_in_line [OF assms(1-3)]) (use assms(4,5) in auto)
  have two: "ensures (osip_set_next_token s p (CHR ''/'')) (\<lambda>r. case r of None \<Rightarrow> P None | Some (port, q) \<Rightarrow>
      ensures (osip_set_next_token s q (CHR '' '')) (\<lambda>r. case r of None \<Rightarrow> P None | Some (n, q) \<Rightarrow> P (Some (port, Some n, q))))"
    by (rule wp_token_in_line [OF assms(1-3)])
      (use assms(2,4,5) in \<open>auto intro!: wp_token_in_line [OF assms(1)]\<close>)
  obtain a b where "strchr s p (CHR ''/'') = Inr a" "strchr s p (CHR '' '') = Inr b"
    using w by (auto simp: strchr_def)
  then show ?thesis
    unfolding media_ports_def bindR.simps
    using one two assms(4) by (auto simp: wp_simps split: option.splits elim!: ensures_mono)
qed

lemma payload_loop_safe:
  assumes "line_found s e l"
  shows "e < p \<Longrightarrow> p < int (length s) \<Longrightarrow>
    ensures (payload_loop s p l acc) (\<lambda>r. \<forall>ps q. r = Some (ps, q) \<longrightarrow> e < q \<and> q < int (length s))"
proof (induction "nat (int (length s) - p)" arbitrary: p acc rule: less_induct)
  case less
  obtain b where b: "strchr s (p + 1) (CHR '' '') = Inr b" "\<And>q. b = Some q \<Longrightarrow> p + 1 \<le> q"
    using wp_strchr [of "p + 1" s "\<lambda>b. \<forall>q. b = Some q \<longrightarrow> p + 1 \<le> q" "CHR '' ''"] less.prems assms by (auto simp: line_found_def ensures_iff)
  show ?case
  proof (cases "\<exists>space. b = Some space \<and> \<not> l < space")
    case False
    with b(1) less.prems show ?thesis by (subst payload_loop.simps) (auto split: option.split)
  next
    case True
    then have pl: "p \<le> l" using b(2) by force
    have "ensures (osip_set_next_token s p (CHR '' '')) (\<lambda>r. case r of None \<Rightarrow> True | Some (t, q) \<Rightarrow>
        ensures (payload_loop s q l (acc @ [t])) (\<lambda>r. \<forall>ps q. r = Some (ps, q) \<longrightarrow> e < q \<and> q < int (length s)))"
      by (rule wp_token_in_line [OF assms less.prems(1) pl])
        (use less.hyps less.prems assms in \<open>auto simp: line_found_def\<close>)
    then show ?thesis
      unfolding payload_loop.simps [of s p] b(1) bindR.simps using True by (auto simp: wp_bindO elim!: ensures_mono split: option.splits)
  qed
qed

lemma bare_line:
  assumes "line_found s e l" "\<not> bare_end s"
  shows "l + 1 < int (length s)"
proof (rule ccontr)
  assume "\<not> ?thesis"
  then have l: "nat l = length s - 1" "nat (l - 1) = length s - 2" "2 \<le> length s" using assms(1) by (auto simp: line_found_def)
  have "s \<noteq> []" "butlast s \<noteq> []" using l(3) by (cases s; cases "tl s"; simp)+
  then have "last s = s ! nat l" "last (butlast s) = s ! nat (l - 1)"
    using l by (simp_all add: last_conv_nth nth_butlast numeral_2_eq_2)
  moreover have "\<not> cr_lf (s ! nat (l - 1))" "cr_lf (s ! nat l)" using assms(1) by (auto simp: line_found_def)
  ultimately have "bare_end s" using \<open>s \<noteq> []\<close> by (auto simp: bare_end_def cr_lf_def)
  with assms(2) show False by blast
qed

lemma payloads_safe:
  assumes "line_found s e l" "e < p" "p < int (length s)"
  shows "safe (payloads s p l)"
proof -
  have "ensures (payload_loop s p l []) (\<lambda>r. \<forall>ps q. r = Some (ps, q) \<longrightarrow> e < q \<and> q < int (length s))"
    by (rule payload_loop_safe [OF assms])
  then have "ensures (payload_loop s p l []) (\<lambda>r. case r of None \<Rightarrow> True | Some (ps, q) \<Rightarrow> q < l \<longrightarrow> safe (last_token s q))"
    by (rule ensures_mono) (use assms(1) in \<open>auto simp: line_found_def intro!: wp_last_token split: option.split\<close>)
  then show ?thesis
    unfolding payloads_def wp_bindO by (rule ensures_mono) (auto simp: wp_simps elim!: ensures_mono split: option.splits)
qed

lemma media_safe:
  assumes "line_found s e l" "\<not> bare_end s"
  shows "ensures (media s (e + 1) l) (\<lambda>r. \<forall>m. r = Some m \<longrightarrow> media_ok m)"
proof -
  note line = assms(1)
  have l: "e + 1 \<le> l" "l + 1 < int (length s)" using bare_line [OF assms] line by (auto simp: line_found_def)
  have proto: "ensures (bindR (osip_set_next_token s p (CHR '' '')) (\<lambda>r. case r of Some x \<Rightarrow> Inr (Some x) | None \<Rightarrow> last_token s p)) P"
    if "e < p" "p \<le> l" "P None" "\<And>t q. e < q \<Longrightarrow> q \<le> l + 1 \<Longrightarrow> P (Some (t, q))" for p P
    unfolding wp_bind
    by (rule wp_token_in_line [OF line that(1,2)]) (use that in \<open>auto intro!: wp_last_token_in_line [OF line that(1,2)]\<close>)
  show ?thesis
    unfolding media_def wp_bindO
    by (rule wp_token_in_line [OF line _ l(1)])
      (use l payloads_safe [OF line] in \<open>auto simp: wp_bindO media_ok_def sdp_media_init_def
        intro!: media_ports_in_line [OF line] proto elim!: ensures_mono split: option.splits\<close>)
qed

section \<open>Every step keeps what is complete\<close>

definition reader_post :: "string \<Rightarrow> sdp_message \<Rightarrow> int \<Rightarrow> (sdp_message \<Rightarrow> bool) \<Rightarrow> int \<times> sdp_message \<times> int \<Rightarrow> bool" where
  "reader_post s sdp p R = (\<lambda>(i, sdp', q). i \<in> {- 1, 0, 1} \<and> grown sdp sdp' \<and> p \<le> q \<and> within s q \<and> (i = 1 \<longrightarrow> R sdp'))"

lemma field_post:
  assumes "within s p" "NUL \<notin> set s" "0 < p"
    "\<And>e l. line_found s e l \<Longrightarrow> ensures (f sdp s e l) (\<lambda>(ok, sdp'). grown sdp sdp' \<and> (ok \<longrightarrow> R sdp'))"
  shows "ensures (sdp_field c f sdp s p) (reader_post s sdp p R)"
  unfolding reader_post_def
  by (rule ensures_mono [OF sdp_field_ok [OF assms(1,2), where Q = "grown sdp" and R = R]]) (use assms(3,4) in auto)

lemma wp_stored_grown:
  assumes "ensures r (\<lambda>x. \<forall>y. x = Some y \<longrightarrow> ok y)" "\<And>y. ok y \<Longrightarrow> grown sdp (store y)"
  shows "ensures (stored r store sdp) (\<lambda>(b, sdp'). grown sdp sdp')"
  by (rule wp_stored) (use assms in \<open>auto elim!: ensures_mono\<close>)

lemma grown_simps:
  "grown sdp (sdp\<lparr>s_name := a\<rparr>)" "grown sdp (sdp\<lparr>u_uri := a\<rparr>)" "grown sdp (sdp\<lparr>e_emails := b\<rparr>)" "grown sdp (sdp\<lparr>p_phones := b\<rparr>)"
  "grown sdp (sdp\<lparr>z_adjustments := a\<rparr>)" "grown sdp (sdp\<lparr>i_info := a\<rparr>)" "grown sdp (sdp\<lparr>v_version := Some v\<rparr>)"
  by (simp_all add: grown_def parts_ok_def origin_ok_def)

lemma origin_safe:
  assumes "line_found s e l"
  shows "ensures (origin sdp s (e + 1)) (\<lambda>(ok, sdp'). grown sdp sdp' \<and> (ok \<longrightarrow> origin_ok sdp'))"
proof -
  have step: "ensures (osip_set_next_token s p (CHR '' '')) Q" if "e < p" "p \<le> l" "Q None" "\<And>t q. e < q \<Longrightarrow> q \<le> l \<Longrightarrow> Q (Some (t, q))" for p Q
    by (rule wp_token_in_line [OF assms that(1,2)]) (use that in auto)
  have last: "ensures (last_token s p) Q" if "e < p" "p \<le> l" "Q None" "\<And>t. Q (Some (t, l + 1))" for p Q
    by (rule wp_last_token_in_line [OF assms that(1,2)]) (use that in auto)
  have l: "e + 1 \<le> l" using assms by (simp add: line_found_def)
  show ?thesis
    unfolding origin_def Let_def wp_bind
    by (auto simp: wp_bind grown_def parts_ok_def origin_ok_def intro!: step last intro: l)
qed

lemma value_post:
  "line_found s e l \<Longrightarrow> (\<And>v. grown sdp (g v) \<and> R (g v)) \<Longrightarrow>
   ensures (bindR (sdp_value s e l) (\<lambda>v. Inr (True, g v))) (\<lambda>(ok, sdp'). grown sdp sdp' \<and> (ok \<longrightarrow> R sdp'))"
  unfolding wp_bind by (rule wp_value) auto

lemma stored_post:
  "ensures r (\<lambda>x. \<forall>y. x = Some y \<longrightarrow> ok y) \<Longrightarrow> (\<And>y. ok y \<Longrightarrow> grown sdp (store y)) \<Longrightarrow>
   ensures (stored r store sdp) (\<lambda>(b, sdp'). grown sdp sdp' \<and> (b \<longrightarrow> True))"
  using wp_stored_grown [of r ok sdp store] by simp

lemma v_post:
  assumes "within s p" "NUL \<notin> set s"
  shows "ensures (sdp_message_parse_v sdp s p) (reader_post s sdp p (\<lambda>sdp'. v_version sdp' \<noteq> None))"
proof -
  obtain e where e: "skip_chars (\<lambda>c. c \<noteq> CHR ''='') s p = Inr e" "p \<le> e" "e \<le> int (length s)"
    using wp_skip_chars [of p s "\<lambda>q. p \<le> q \<and> q \<le> int (length s)"] assms(1) by (auto simp: ensures_iff)
  obtain c where c: "rd s e = Inr c" using rd_defined [of e s] e assms(1) by auto
  show ?thesis
  proof (cases "c \<noteq> NUL \<and> e = p")
    case True
    with e(1) c assms(1) show ?thesis by (simp add: sdp_message_parse_v_def reader_post_def)
  next
    case False
    have "0 < p \<or> (s \<noteq> [] \<longrightarrow> hd s \<noteq> CHR ''='')"
    proof (cases "p = 0 \<and> s \<noteq> [] \<and> hd s = CHR ''=''")
      case True
      then have "e = p" using e(1) by (cases s) (auto simp: skip_chars_def)
      with False c True show ?thesis by (cases s) (auto simp: rd_def)
    qed (use assms(1) in auto)
    then have "ensures (sdp_field (CHR ''v'') (\<lambda>sdp s e l. bindR (sdp_value s e l) (\<lambda>v. Inr (True, sdp\<lparr>v_version := Some v\<rparr>))) sdp s p)
        (reader_post s sdp p (\<lambda>sdp'. v_version sdp' \<noteq> None))"
      unfolding reader_post_def
      by (rule ensures_mono [OF sdp_field_ok [OF assms(1,2), where Q = "grown sdp" and R = "\<lambda>sdp'. v_version sdp' \<noteq> None"]])
        (auto intro!: value_post simp: grown_simps)
    with False e(1) c show ?thesis by (auto simp: sdp_message_parse_v_def)
  qed
qed

lemma o_post:
  assumes "within s p" "NUL \<notin> set s" "0 < p"
  shows "ensures (sdp_message_parse_o sdp s p) (reader_post s sdp p origin_ok)"
  unfolding sdp_message_parse_o_def by (rule field_post [OF assms]) (rule origin_safe)

lemma reader_post_weaken: "ensures r (reader_post s sdp p R) \<Longrightarrow> (\<And>x. R x \<Longrightarrow> R' x) \<Longrightarrow> ensures r (reader_post s sdp p R')"
  by (erule ensures_mono) (auto simp: reader_post_def)

lemma reader_ok:
  assumes "within s p" "NUL \<notin> set s" "0 < p" "\<not> bare_end s"
  shows "ensures (sdp_reader_of c sdp s p) (reader_post s sdp p (\<lambda>_. True))"
proof -
  have f: "ensures (sdp_field l f sdp s p) (reader_post s sdp p (\<lambda>_. True))"
    if "\<And>e l. line_found s e l \<Longrightarrow> ensures (f sdp s e l) (\<lambda>(ok, sdp'). grown sdp sdp' \<and> (ok \<longrightarrow> True))" for l f
    by (rule field_post [OF assms(1-3)]) (rule that)
  have "ensures (sdp_message_parse_s sdp s p) (reader_post s sdp p (\<lambda>_. True))"
    "ensures (sdp_message_parse_u sdp s p) (reader_post s sdp p (\<lambda>_. True))"
    "ensures (sdp_message_parse_e sdp s p) (reader_post s sdp p (\<lambda>_. True))"
    "ensures (sdp_message_parse_p sdp s p) (reader_post s sdp p (\<lambda>_. True))"
    "ensures (sdp_message_parse_z sdp s p) (reader_post s sdp p (\<lambda>_. True))"
    unfolding sdp_reader_defs by (rule f, erule value_post, simp add: grown_simps)+
  moreover have "ensures (sdp_message_parse_i sdp s p) (reader_post s sdp p (\<lambda>_. True))"
    unfolding sdp_reader_defs
    by (rule f, erule value_post) (auto intro!: place_ok simp: grown_simps media_ok_def)
  moreover have "ensures (sdp_message_parse_c sdp s p) (reader_post s sdp p (\<lambda>_. True))"
    unfolding sdp_reader_defs
    by (rule f, rule stored_post, erule connection_safe, rule place_ok) (auto simp: grown_def parts_ok_def origin_ok_def media_ok_def)
  moreover have "ensures (sdp_message_parse_b sdp s p) (reader_post s sdp p (\<lambda>_. True))"
    unfolding sdp_reader_defs
    by (rule f, rule stored_post, erule bandwidth_safe, rule place_ok) (auto simp: grown_def parts_ok_def origin_ok_def media_ok_def)
  moreover have "ensures (sdp_message_parse_t sdp s p) (reader_post s sdp p (\<lambda>_. True))"
    unfolding sdp_reader_defs
    by (rule f, rule stored_post, erule time_descr_safe) (auto simp: grown_def parts_ok_def origin_ok_def)
  moreover have "ensures (sdp_message_parse_k sdp s p) (reader_post s sdp p (\<lambda>_. True))"
  proof -
    have "grown sdp (place (\<lambda>sdp. sdp\<lparr>k_key := Some k\<rparr>) (\<lambda>m. m\<lparr>media_k_key := Some k\<rparr>) sdp)" if "key_ok k" for k
      using that by (intro place_ok) (auto simp: grown_def parts_ok_def origin_ok_def media_ok_def)
    then show ?thesis
      unfolding sdp_reader_defs
      by - (rule f, rule stored_post [where ok = "\<lambda>_. True"], simp add: name_value_safe, auto simp: Let_def key_ok_def)
  qed
  moreover have "ensures (sdp_message_parse_a sdp s p) (reader_post s sdp p (\<lambda>_. True))"
  proof -
    have "grown sdp (place (\<lambda>sdp. sdp\<lparr>a_attributes := a_attributes sdp @ [a]\<rparr>)
        (\<lambda>m. m\<lparr>media_a_attributes := media_a_attributes m @ [a]\<rparr>) sdp)" if "attribute_ok a" for a
      using that by (intro place_ok) (auto simp: grown_def parts_ok_def origin_ok_def media_ok_def)
    then show ?thesis
      unfolding sdp_reader_defs
      by - (rule f, rule stored_post [where ok = "\<lambda>_. True"], simp add: name_value_safe, auto simp: Let_def attribute_ok_def)
  qed
  moreover have "ensures (sdp_message_parse_m sdp s p) (reader_post s sdp p (\<lambda>_. True))"
    unfolding sdp_reader_defs
    by (rule f, rule stored_post, erule media_safe [OF _ assms(4)]) (auto simp: grown_def parts_ok_def origin_ok_def)
  moreover have "ensures (sdp_message_parse_r sdp s p) (reader_post s sdp p (\<lambda>_. True))"
  proof -
    have "grown sdp (sdp\<lparr>t_descrs := butlast (t_descrs sdp) @ [last (t_descrs sdp)\<lparr>r_repeats := r_repeats (last (t_descrs sdp)) @ [v]\<rparr>]\<rparr>)"
      if "t_descrs sdp \<noteq> []" for v
      using that by (cases "t_descrs sdp" rule: rev_cases) (auto simp: grown_def parts_ok_def origin_ok_def time_ok_def)
    then show ?thesis
      unfolding sdp_reader_defs by - (rule f, auto simp: wp_bind Let_def intro!: wp_value)
  qed
  moreover note reader_post_weaken [OF v_post [OF assms(1,2)] TrueI] reader_post_weaken [OF o_post [OF assms(1-3)] TrueI]
  ultimately show ?thesis by (simp add: sdp_reader_of_def)
qed

text \<open>The steps of the description.\<close>

definition step_post :: "string \<Rightarrow> sdp_message \<Rightarrow> int \<Rightarrow> sdp_flow \<Rightarrow> bool" where
  "step_post s sdp p r = (case r of Return i sdp' \<Rightarrow> i = - 1 \<or> i = 0 \<and> grown sdp sdp'
     | Go sdp' q \<Rightarrow> grown sdp sdp' \<and> 0 < q \<and> within s q)"

lemma step_post_simps [simp]:
  "step_post s sdp p (Return i sdp') = (i = - 1 \<or> i = 0 \<and> grown sdp sdp')"
  "step_post s sdp p (Go sdp' q) = (grown sdp sdp' \<and> 0 < q \<and> within s q)"
  by (simp_all add: step_post_def)

lemma thenF_post:
  assumes "ensures x (step_post s sdp p)"
    "\<And>sdp' q. x = Inr (Go sdp' q) \<Longrightarrow> grown sdp sdp' \<Longrightarrow> 0 < q \<Longrightarrow> within s q \<Longrightarrow> ensures (f sdp' q) (step_post s sdp' q)"
  shows "ensures (thenF x f) (step_post s sdp p)"
proof -
  obtain r where r: "x = Inr r" "step_post s sdp p r" using assms(1) by (auto simp: ensures_iff)
  show ?thesis
  proof (cases r)
    case (Go sdp' q)
    with r have "ensures (f sdp' q) (step_post s sdp' q)" using assms(2) by auto
    with r Go show ?thesis
      by (auto simp: thenF_def step_post_def elim!: ensures_mono split: sdp_flow.splits intro: grown_trans)
  qed (use r in \<open>simp add: thenF_def\<close>)
qed

definition sdp_input :: "string \<Rightarrow> bool" where
  "sdp_input s \<longleftrightarrow> NUL \<notin> set s \<and> \<not> bare_end s"

lemma reader_cases:
  assumes "sdp_input s" "within s p" "0 < p"
  obtains i sdp' q where "sdp_reader_of c sdp s p = Inr (i, sdp', q)" "i \<in> {- 1, 0, 1}" "grown sdp sdp'" "p \<le> q" "within s q"
  using reader_ok [of p s c sdp] assms by (auto simp: ensures_iff reader_post_def sdp_input_def)

lemma or_end_here_post: "within s p \<Longrightarrow> 0 < p \<Longrightarrow> ensures (or_end_here sdp s p) (step_post s sdp p)"
  using rd_defined [of p s] by (auto simp: or_end_here_def)

lemma mandatory_post:
  assumes "sdp_input s" "within s p" "0 < p" shows "ensures (mandatory c sdp s p) (step_post s sdp p)"
  using assms by (rule reader_cases [where c = c and sdp = sdp]) (use assms in \<open>auto simp: mandatory_def\<close>)

lemma optional_post:
  assumes "sdp_input s" "within s p" "0 < p" shows "ensures (optional c sdp s p) (step_post s sdp p)"
  using assms by (rule reader_cases [where c = c and sdp = sdp]) (use assms in \<open>auto simp: optional_def\<close>)

lemma optional_end_post: "sdp_input s \<Longrightarrow> within s p \<Longrightarrow> 0 < p \<Longrightarrow> ensures (optional_end c sdp s p) (step_post s sdp p)"
  unfolding optional_end_def by (rule thenF_post [OF optional_post]) (auto intro: or_end_here_post)

lemma step_post_from: "ensures x (step_post s sdp' q) \<Longrightarrow> grown sdp sdp' \<Longrightarrow> ensures x (step_post s sdp p)"
  by (erule ensures_mono) (auto simp: step_post_def intro: grown_trans split: sdp_flow.splits)

lemma all_of_post:
  assumes "sdp_input s"
  shows "within s p \<Longrightarrow> 0 < p \<Longrightarrow> ensures (all_of c sdp s p) (step_post s sdp p)"
proof (induction "nat (int (length s) - p)" arbitrary: sdp p rule: less_induct)
  case less
  obtain i sdp' q where r: "sdp_reader_of c sdp s p = Inr (i, sdp', q)" "i \<in> {- 1, 0, 1}" "grown sdp sdp'" "p \<le> q" "within s q"
    using reader_cases [OF assms less.prems] .
  have "ensures (all_of c sdp' s q) (step_post s sdp p)" if "i = 1"
    by (rule step_post_from [OF less.hyps r(3)]) (use sdp_reader_moves(3) [OF r(1)] that r less.prems in auto)
  with r less.prems show ?case by (subst all_of.simps) auto
qed

lemma all_of_end_post:
  assumes "sdp_input s"
  shows "within s p \<Longrightarrow> 0 < p \<Longrightarrow> ensures (all_of_end c sdp s p) (step_post s sdp p)"
proof (induction "nat (int (length s) - p)" arbitrary: sdp p rule: less_induct)
  case less
  obtain i sdp' q where r: "sdp_reader_of c sdp s p = Inr (i, sdp', q)" "i \<in> {- 1, 0, 1}" "grown sdp sdp'" "p \<le> q" "within s q"
    using reader_cases [OF assms less.prems] .
  have "ensures (thenF (or_end_here sdp' s q) (\<lambda>sdp next. if i = 1 then all_of_end c sdp s next else Inr (Go sdp next))) (step_post s sdp' q)"
  proof (rule thenF_post)
    fix sdp2 q2
    assume "or_end_here sdp' s q = Inr (Go sdp2 q2)" "0 < q2" "within s q2"
    then show "ensures (if i = 1 then all_of_end c sdp2 s q2 else Inr (Go sdp2 q2)) (step_post s sdp2 q2)"
      using less.hyps [of q2 sdp2] sdp_reader_moves(3) [OF r(1)] r less.prems by (auto dest!: or_end_here_Go)
  qed (use or_end_here_post r less.prems in auto)
  with step_post_from [OF this r(3)] r less.prems show ?case by (subst all_of_end.simps) auto
qed

lemma more_times_post:
  assumes "sdp_input s"
  shows "within s p \<Longrightarrow> 0 < p \<Longrightarrow> ensures (more_times sdp s p) (step_post s sdp p)"
proof (induction "nat (int (length s) - p)" arbitrary: sdp p rule: less_induct)
  case less
  show ?case
    unfolding more_times.simps [of sdp s p]
  proof (rule thenF_post [OF all_of_end_post [OF assms less.prems]])
    fix sdp1 p1
    assume one: "all_of_end (CHR ''r'') sdp s p = Inr (Go sdp1 p1)" "0 < p1" "within s p1"
    obtain i sdp2 p2 where r: "sdp_reader_of (CHR ''t'') sdp1 s p1 = Inr (i, sdp2, p2)" "i \<in> {- 1, 0, 1}" "grown sdp1 sdp2" "p1 \<le> p2" "within s p2"
      using reader_cases [OF assms one(3,2)] .
    have "ensures (thenF (or_end_here sdp2 s p2) (\<lambda>sdp next. if i = 0 then Inr (Go sdp next) else more_times sdp s next)) (step_post s sdp2 p2)" if "i \<noteq> - 1"
    proof (rule thenF_post)
      fix sdp3 p3
      assume "or_end_here sdp2 s p2 = Inr (Go sdp3 p3)" "0 < p3" "within s p3"
      then show "ensures (if i = 0 then Inr (Go sdp3 p3) else more_times sdp3 s p3) (step_post s sdp3 p3)"
        using less.hyps [of p3 sdp3] sdp_reader_moves(3) [OF r(1)] r(2,4) one(2,3) all_of_end_moves [OF one(1)] less.prems that
        by (auto dest!: or_end_here_Go)
    qed (use or_end_here_post r one in auto)
    with step_post_from [OF this r(3)] r
    show "ensures (bindR (sdp_message_parse_t sdp1 s p1) (\<lambda>(i, sdp, next). if i = - 1 then Inr (Return (- 1) sdp)
        else thenF (or_end_here sdp s next) (\<lambda>sdp next. if i = 0 then Inr (Go sdp next) else more_times sdp s next))) (step_post s sdp1 p1)"
      by (auto simp: parse_t_reader)
  qed
qed

lemma all_medias_post:
  assumes "sdp_input s"
  shows "within s p \<Longrightarrow> 0 < p \<Longrightarrow> ensures (all_medias sdp s p) (step_post s sdp p)"
proof (induction "nat (int (length s) - p)" arbitrary: sdp p rule: less_induct)
  case less
  obtain i sdp1 p1 where r: "sdp_reader_of (CHR ''m'') sdp s p = Inr (i, sdp1, p1)" "i \<in> {- 1, 0, 1}" "grown sdp sdp1" "p \<le> p1" "within s p1"
    using reader_cases [OF assms less.prems] .
  let ?f = "\<lambda>sdp ptr. thenF (optional_end (CHR ''i'') sdp s ptr) (\<lambda>sdp ptr. thenF (all_of_end (CHR ''c'') sdp s ptr) (\<lambda>sdp ptr.
     thenF (all_of_end (CHR ''b'') sdp s ptr) (\<lambda>sdp ptr. thenF (optional_end (CHR ''k'') sdp s ptr) (\<lambda>sdp ptr.
     thenF (all_of_end (CHR ''a'') sdp s ptr) (\<lambda>sdp ptr. if i = 1 then all_medias sdp s ptr else Inr (Go sdp ptr))))))"
  have "ensures (thenF (or_end_here sdp1 s p1) ?f) (step_post s sdp1 p1)" if "i \<noteq> - 1"
    by (intro thenF_post or_end_here_post optional_end_post all_of_end_post assms)
      (use r less.prems sdp_reader_moves(3) [OF r(1)] less.hyps in
       \<open>auto dest!: or_end_here_Go optional_end_moves all_of_end_moves\<close>)
  with step_post_from [OF this r(3)] r show ?case
    by (subst all_medias.simps) (auto simp: parse_m_reader)
qed



end
