(* ===== verification/Osip_Sdp_Roundtrip.thy ===== *)
theory Osip_Sdp_Roundtrip
  imports Osip_Sdp_Correct
begin

text \<open>
  A printed session description is read back: the values that can be printed and read, what each reader does
  with its printed line, and the loops over the lines.
\<close>

section \<open>Reading a known text\<close>

definition rest_at :: "string \<Rightarrow> int \<Rightarrow> string \<Rightarrow> bool" where
  "rest_at s p t \<longleftrightarrow> 0 \<le> p \<and> p \<le> int (length s) \<and> drop (nat p) s = t"

lemma rest_at_skip: "rest_at s p (u @ t) \<Longrightarrow> q = p + int (length u) \<Longrightarrow> rest_at s q t"
proof -
  assume r: "rest_at s p (u @ t)" "q = p + int (length u)"
  then have d: "drop (nat p) s = u @ t" "0 \<le> p" by (simp_all add: rest_at_def)
  have "length u \<le> length s - nat p" using arg_cong [OF d(1), of length] by simp
  moreover have "drop (nat p + length u) s = t" using arg_cong [OF d(1), of "drop (length u)"] by (simp add: add.commute)
  moreover have "nat q = nat p + length u" using d(2) r(2) by simp
  ultimately show ?thesis using r by (auto simp: rest_at_def)
qed

lemma rest_at_Cons: "rest_at s p (c # t) \<Longrightarrow> q = p + 1 \<Longrightarrow> rest_at s q t"
  using rest_at_skip [of s p "[c]" t q] by simp

lemma rest_at_within: "rest_at s p t \<Longrightarrow> 0 \<le> p \<and> p + int (length t) = int (length s)"
  by (auto simp: rest_at_def)

lemma rest_at_rd: "rest_at s p (c # t) \<Longrightarrow> rd s p = Inr c"
proof -
  assume r: "rest_at s p (c # t)"
  then have "nat p < length s" by (metis drop_eq_Nil list.distinct(1) not_le rest_at_def)
  with r show ?thesis by (auto simp: rest_at_def rd_def Cons_nth_drop_Suc [symmetric])
qed

lemma rest_at_rd_end: "rest_at s p [] \<Longrightarrow> rd s p = Inr NUL"
  by (auto simp: rest_at_def rd_def)

lemma rest_at_skip_chars:
  "rest_at s p (u @ t) \<Longrightarrow> list_all P u \<Longrightarrow> t = [] \<or> \<not> P (hd t) \<Longrightarrow> skip_chars P s p = Inr (p + int (length u))"
  by (cases t) (auto simp: rest_at_def skip_chars_def takeWhile_append list_all_iff takeWhile_eq_all_conv [THEN iffD2])

lemma rest_at_token:
  assumes "rest_at s p (u @ c # t)" "u \<noteq> []" "list_all (\<lambda>d. d \<noteq> c \<and> d \<noteq> CR \<and> d \<noteq> LF) u" "c \<noteq> NUL"
  shows "osip_set_next_token s p c = Inr (Some (u, p + int (length u) + 1))"
proof -
  have r: "0 \<le> p" "p \<le> int (length s)" "drop (nat p) s = u @ c # t" using assms(1) by (auto simp: rest_at_def)
  have w: "takeWhile (\<lambda>d. d \<noteq> c \<and> d \<noteq> CR \<and> d \<noteq> LF) (u @ c # t) = u"
    using assms(3) by (simp add: takeWhile_append list_all_iff)
  have rd: "rd s (p + int (length u)) = Inr c" by (rule rest_at_rd, rule rest_at_skip [OF assms(1) refl])
  show ?thesis
    unfolding osip_set_next_token_def r(3) w Let_def rd bindR.simps using r(1,2) assms(2,4) r(3) by (simp add: osip_strncpy_def)
qed

lemma rest_at_no_token:
  assumes "rest_at s p (u @ d # t)" "list_all (\<lambda>d. d \<noteq> c \<and> d \<noteq> CR \<and> d \<noteq> LF) u" "d = CR \<or> d = LF" "c \<noteq> d"
  shows "osip_set_next_token s p c = Inr None"
proof -
  have r: "0 \<le> p" "p \<le> int (length s)" "drop (nat p) s = u @ d # t" using assms(1) by (auto simp: rest_at_def)
  have w: "takeWhile (\<lambda>d. d \<noteq> c \<and> d \<noteq> CR \<and> d \<noteq> LF) (u @ d # t) = u"
    using assms(2,3) by (auto simp: takeWhile_append list_all_iff)
  have rd: "rd s (p + int (length u)) = Inr d" by (rule rest_at_rd, rule rest_at_skip [OF assms(1) refl])
  show ?thesis
    unfolding osip_set_next_token_def r(3) w Let_def rd bindR.simps using r(1,2) assms(3,4) by auto
qed

lemma rest_at_strchr:
  assumes "rest_at s p (u @ t)" "c \<notin> set u"
  shows "\<exists>r. strchr s p c = Inr r \<and> (\<forall>q. r = Some q \<longrightarrow> p + int (length u) \<le> q)"
proof -
  have r: "0 \<le> p" "p \<le> int (length s)" "drop (nat p) s = u @ t" using assms(1) by (auto simp: rest_at_def)
  have "p + int (length u) \<le> int i" if "find (\<lambda>i. s ! i = c) [nat p..<length s] = Some i" for i
  proof (rule ccontr)
    assume n: "\<not> ?thesis"
    from that have i: "nat p \<le> i" "i < length s" "s ! i = c" by (auto simp: find_Some_iff)
    then have "i - nat p < length u" using n r(1) by linarith
    moreover have "(u @ t) ! (i - nat p) = c" using i r(2,3) by (metis le_add_diff_inverse nth_drop nat_le_iff)
    ultimately have "c \<in> set u" by (metis nth_append nth_mem)
    with assms(2) show False by simp
  qed
  with r show ?thesis by (auto simp: strchr_def)
qed

lemma rest_at_strchr_found:
  assumes "rest_at s p (u @ c # t)" "c \<notin> set u"
  shows "strchr s p c = Inr (Some (p + int (length u)))"
proof -
  have r: "0 \<le> p" "p \<le> int (length s)" "drop (nat p) s = u @ c # t" using assms(1) by (auto simp: rest_at_def)
  have len: "length s = nat p + length u + 1 + length t"
    using arg_cong [OF r(3), of length] r(1,2) by simp
  have at: "s ! (nat p + i) = (u @ c # t) ! i" if "i \<le> length u" for i
    using r that len by (metis nth_drop nat_le_iff)
  have "find (\<lambda>i. s ! i = c) [nat p..<length s] = Some (nat p + length u)"
    unfolding find_Some_iff
    using assms(2) len at by (auto intro!: exI [of _ "length u"] simp: nth_append)
  with r show ?thesis by (simp add: strchr_def)
qed

text \<open>Values that are read back: without line ends, and without the separators in question.\<close>

definition plain :: "char list \<Rightarrow> string \<Rightarrow> bool" where
  "plain seps v \<longleftrightarrow> v \<noteq> [] \<and> list_all (\<lambda>c. c \<noteq> CR \<and> c \<noteq> LF \<and> c \<noteq> NUL \<and> c \<notin> set seps) v"

lemma plain_token:
  "rest_at s p (u @ c # t) \<Longrightarrow> plain seps u \<Longrightarrow> c \<in> set seps \<Longrightarrow> c \<noteq> NUL \<Longrightarrow> osip_set_next_token s p c = Inr (Some (u, p + int (length u) + 1))"
  by (rule rest_at_token) (auto simp: plain_def list_all_iff)

section \<open>Reading a printed line\<close>

definition ln :: "char \<Rightarrow> string \<Rightarrow> string" where
  "ln c v = c # CHR ''='' # v @ [CR, LF]"

lemma rest_at_ln: "rest_at s p (ln c v @ t) \<Longrightarrow> rest_at s (p + 2) (v @ CR # LF # t)"
  by (rule rest_at_skip [of s p "[c, CHR ''='']"]) (simp_all add: ln_def)

definition one_line :: "string \<Rightarrow> bool" where
  "one_line v \<longleftrightarrow> v \<noteq> [] \<and> list_all (\<lambda>c. \<not> cr_lf c) v"

lemma one_line_simps [simp]:
  "plain seps v \<Longrightarrow> one_line v" "one_line u \<Longrightarrow> one_line v \<Longrightarrow> one_line (u @ v)" "one_line [d] = (\<not> cr_lf d)"
  "one_line v \<Longrightarrow> one_line (d # v) = (\<not> cr_lf d)" 
  by (auto simp: one_line_def plain_def list_all_iff cr_lf_def)

lemma sdp_line_read:
  assumes "rest_at s p (ln c v @ t)" "one_line v" "c \<noteq> CHR ''=''"
  shows "sdp_line c s p = Inr (Line (p + 1) (p + 2 + int (length v)))"
proof -
  have e: "skip_chars (\<lambda>d. d \<noteq> CHR ''='') s p = Inr (p + 1)"
    using rest_at_skip_chars [of s p "[c]" "CHR ''='' # v @ CR # LF # t" "\<lambda>d. d \<noteq> CHR ''=''"] assms(1,3) by (simp add: ln_def)
  have r0: "rd s p = Inr c" by (rule rest_at_rd) (use assms(1) in \<open>simp add: ln_def\<close>)
  have r1: "rd s (p + 1) = Inr (CHR ''='')"
    by (rule rest_at_rd, rule rest_at_Cons [of s p c]) (use assms(1) in \<open>simp_all add: ln_def\<close>)
  have v: "rest_at s (p + 2) (v @ CR # LF # t)" by (rule rest_at_ln [OF assms(1)])
  have k: "skip_chars (\<lambda>c. \<not> cr_lf c) s (p + 2) = Inr (p + 2 + int (length v))"
    by (rule rest_at_skip_chars [OF v]) (use assms(2) in \<open>auto simp: one_line_def cr_lf_def\<close>)
  have r2: "rd s (p + 2 + int (length v)) = Inr CR" by (rule rest_at_rd, rule rest_at_skip [OF v refl])
  show ?thesis
    using assms(2) e r0 r1 k r2 by (simp add: sdp_line_def one_line_def add.commute)
qed

lemma after_line_read:
  assumes "rest_at s p (ln c v @ t)"
  shows "after_line s (p + 2 + int (length v)) = Inr (p + int (length (ln c v)))"
proof -
  have "rest_at s (p + 2 + int (length v) + 1) (LF # t)"
    by (rule rest_at_skip [where u = "v @ [CR]"]) (use rest_at_ln [OF assms] in \<open>simp_all add: add.commute\<close>)
  then have "rd s (p + 2 + int (length v) + 1) = Inr LF" by (rule rest_at_rd)
  then show ?thesis by (simp add: after_line_def ln_def)
qed

lemma sdp_field_read:
  assumes "rest_at s p (ln c v @ t)" "one_line v" "c \<noteq> CHR ''=''"
    "rest_at s (p + 2) (v @ CR # LF # t) \<Longrightarrow> content sdp s (p + 1) (p + 2 + int (length v)) = Inr (True, sdp')"
  shows "sdp_field c content sdp s p = Inr (1, sdp', p + int (length (ln c v)))"
  using sdp_line_read [OF assms(1-3)] after_line_read [OF assms(1)] assms(4) [OF rest_at_ln [OF assms(1)]]
  by (simp add: sdp_field_def)

definition reads :: "(sdp_message \<Rightarrow> bool) \<Rightarrow> char \<Rightarrow> string \<Rightarrow> (sdp_message \<Rightarrow> sdp_message) \<Rightarrow> bool" where
  "reads P c v g \<longleftrightarrow> (\<forall>sdp s p t. P sdp \<longrightarrow> rest_at s p (ln c v @ t) \<longrightarrow> sdp_reader_of c sdp s p = Inr (1, g sdp, p + int (length (ln c v))))"

text \<open>The text goes on with a line of one of these kinds, or is over.\<close>

definition heads :: "char list \<Rightarrow> string \<Rightarrow> bool" where
  "heads L t \<longleftrightarrow> t = [] \<or> (\<exists>c v. t = c # CHR ''='' # v \<and> c \<in> set L)"

lemma heads_append: "heads C u \<Longrightarrow> heads L t \<Longrightarrow> heads (C @ L) (u @ t)"
  by (auto simp: heads_def)

lemma sdp_field_other:
  assumes "rest_at s p t" "t \<noteq> []" "heads L t" "c \<notin> set L" "CHR ''='' \<notin> set L"
  shows "sdp_field c content sdp s p = Inr (0, sdp, p)"
proof -
  obtain d v where t: "t = d # CHR ''='' # v" "d \<in> set L" using assms(2,3) by (auto simp: heads_def)
  have "skip_chars (\<lambda>d. d \<noteq> CHR ''='') s p = Inr (p + 1)"
    using rest_at_skip_chars [of s p "[d]" "CHR ''='' # v" "\<lambda>d. d \<noteq> CHR ''=''"] assms(1,5) t by auto
  moreover have "rd s p = Inr d" by (rule rest_at_rd) (use assms(1) t in simp)
  moreover have "rd s (p + 1) = Inr (CHR ''='')"
    by (rule rest_at_rd, rule rest_at_Cons [of s p d]) (use assms(1) t in simp_all)
  moreover have "d \<noteq> c" using t(2) assms(4) by blast
  ultimately show ?thesis by (simp add: sdp_field_def sdp_line_def)
qed

lemma reader_other:
  assumes "rest_at s p t" "t \<noteq> []" "heads L t" "c \<notin> set L" "CHR ''='' \<notin> set L" "c \<in> set ''osiuepcbtrzkam''"
  shows "sdp_reader_of c sdp s p = Inr (0, sdp, p)"
proof -
  have "\<forall>c \<in> set ''osiuepcbtrzkam''. \<exists>f. sdp_reader_of c = sdp_field c f"
    by (simp add: sdp_reader_of_def sdp_reader_defs) (rule conjI exI refl)+
  with assms(6) have "\<exists>f. sdp_reader_of c = sdp_field c f" by blast
  then show ?thesis using sdp_field_other [OF assms(1-5)] by auto
qed

section \<open>The readers on their printed lines\<close>

lemma value_read: "rest_at s (p + 2) (v @ CR # LF # t) \<Longrightarrow> sdp_value s (p + 1) (p + 2 + int (length v)) = Inr v"
  by (auto simp: sdp_value_def osip_strncpy_def rest_at_def add.commute)

lemma plain_last: "rest_at s p (v @ CR # t) \<Longrightarrow> one_line v \<Longrightarrow> NUL \<notin> set v \<Longrightarrow> last_token s p = Inr (Some (v, p + int (length v) + 1))"
  unfolding last_token_def by (subst rest_at_token [of s p v CR t]) (auto simp: one_line_def cr_lf_def list_all_iff)

definition text_part :: "char list \<Rightarrow> string option \<Rightarrow> bool" where
  "text_part seps v \<longleftrightarrow> v \<noteq> None \<and> plain seps (the v)"

lemma text_partE:
  assumes "text_part seps v"
  obtains x where "v = Some x" "plain seps x"
  using assms by (auto simp: text_part_def)

lemma plain_NUL [simp]: "plain seps v \<Longrightarrow> NUL \<notin> set v"
  by (auto simp: plain_def list_all_iff)

lemma plain_sep: "plain seps v \<Longrightarrow> c \<in> set seps \<Longrightarrow> c \<notin> set v"
  by (auto simp: plain_def list_all_iff)

lemma reads_field:
  assumes "sdp_reader_of c = sdp_field c content" "one_line v" "c \<noteq> CHR ''=''"
    "\<And>sdp s p t. P sdp \<Longrightarrow> rest_at s (p + 2) (v @ CR # LF # t) \<Longrightarrow> content sdp s (p + 1) (p + 2 + int (length v)) = Inr (True, g sdp)"
  shows "reads P c v g"
  unfolding reads_def assms(1) using sdp_field_read [OF _ assms(2,3)] assms(4) by blast

lemma reader_of_letter:
  "sdp_reader_of (CHR ''o'') = sdp_message_parse_o"
  "sdp_reader_of (CHR ''s'') = sdp_message_parse_s"
  "sdp_reader_of (CHR ''i'') = sdp_message_parse_i"
  "sdp_reader_of (CHR ''u'') = sdp_message_parse_u"
  "sdp_reader_of (CHR ''e'') = sdp_message_parse_e"
  "sdp_reader_of (CHR ''p'') = sdp_message_parse_p"
  "sdp_reader_of (CHR ''c'') = sdp_message_parse_c"
  "sdp_reader_of (CHR ''b'') = sdp_message_parse_b"
  "sdp_reader_of (CHR ''t'') = sdp_message_parse_t"
  "sdp_reader_of (CHR ''r'') = sdp_message_parse_r"
  "sdp_reader_of (CHR ''z'') = sdp_message_parse_z"
  "sdp_reader_of (CHR ''k'') = sdp_message_parse_k"
  "sdp_reader_of (CHR ''a'') = sdp_message_parse_a"
  "sdp_reader_of (CHR ''m'') = sdp_message_parse_m"
  by (simp_all add: sdp_reader_of_def)

lemmas reader_fields =
  trans [OF reader_of_letter(1) sdp_message_parse_o_def]
  trans [OF reader_of_letter(2) sdp_message_parse_s_def]
  trans [OF reader_of_letter(3) sdp_message_parse_i_def]
  trans [OF reader_of_letter(4) sdp_message_parse_u_def]
  trans [OF reader_of_letter(5) sdp_message_parse_e_def]
  trans [OF reader_of_letter(6) sdp_message_parse_p_def]
  trans [OF reader_of_letter(7) sdp_message_parse_c_def]
  trans [OF reader_of_letter(8) sdp_message_parse_b_def]
  trans [OF reader_of_letter(9) sdp_message_parse_t_def]
  trans [OF reader_of_letter(10) sdp_message_parse_r_def]
  trans [OF reader_of_letter(11) sdp_message_parse_z_def]
  trans [OF reader_of_letter(12) sdp_message_parse_k_def]
  trans [OF reader_of_letter(13) sdp_message_parse_a_def]
  trans [OF reader_of_letter(14) sdp_message_parse_m_def]

lemma reads_stored:
  assumes "sdp_reader_of c = sdp_field c (\<lambda>sdp s equal eol. stored (r s equal eol) (store sdp) sdp)" "one_line v" "c \<noteq> CHR ''=''"
    "\<And>s equal t. rest_at s (equal + 1) (v @ CR # LF # t) \<Longrightarrow> r s equal (equal + 1 + int (length v)) = Inr (Some x)"
  shows "reads P c v (\<lambda>sdp. store sdp x)"
proof (rule reads_field [OF assms(1-3)])
  fix sdp s p t
  assume "rest_at s (p + 2) (v @ CR # LF # t)"
  then have "rest_at s (p + 1 + 1) (v @ CR # LF # t)" by (simp add: add.commute)
  from assms(4) [OF this] have "r s (p + 1) (p + 2 + int (length v)) = Inr (Some x)" by (simp add: add.commute add.left_commute)
  then show "stored (r s (p + 1) (p + 2 + int (length v))) (store sdp) sdp = Inr (True, store sdp x)" by (simp add: stored_def)
qed

lemma reads_values:
  assumes "plain [] v"
  shows "reads P (CHR ''s'') v (\<lambda>sdp. sdp\<lparr>s_name := Some v\<rparr>)"
    "reads P (CHR ''i'') v (place (\<lambda>sdp. sdp\<lparr>i_info := Some v\<rparr>) (\<lambda>m. m\<lparr>media_i_info := Some v\<rparr>))"
    "reads P (CHR ''u'') v (\<lambda>sdp. sdp\<lparr>u_uri := Some v\<rparr>)"
    "reads P (CHR ''e'') v (\<lambda>sdp. sdp\<lparr>e_emails := e_emails sdp @ [v]\<rparr>)"
    "reads P (CHR ''p'') v (\<lambda>sdp. sdp\<lparr>p_phones := p_phones sdp @ [v]\<rparr>)"
    "reads P (CHR ''z'') v (\<lambda>sdp. sdp\<lparr>z_adjustments := Some v\<rparr>)"
    "reads (\<lambda>sdp. t_descrs sdp \<noteq> []) (CHR ''r'') v
       (\<lambda>sdp. sdp\<lparr>t_descrs := butlast (t_descrs sdp) @ [last (t_descrs sdp)\<lparr>r_repeats := r_repeats (last (t_descrs sdp)) @ [v]\<rparr>]\<rparr>)"
  using assms by - (rule reader_fields [THEN reads_field]; simp add: value_read Let_def)+

definition origin_value :: "sdp_message \<Rightarrow> string" where
  "origin_value sdp = the (o_username sdp) @ '' '' @ the (o_sess_id sdp) @ '' '' @ the (o_sess_version sdp) @ '' '' @
     the (o_nettype sdp) @ '' '' @ the (o_addrtype sdp) @ '' '' @ the (o_addr sdp)"

definition printable_origin :: "sdp_message \<Rightarrow> bool" where
  "printable_origin sdp \<longleftrightarrow> text_part '' '' (o_username sdp) \<and> text_part '' '' (o_sess_id sdp) \<and> text_part '' '' (o_sess_version sdp) \<and>
     text_part '' '' (o_nettype sdp) \<and> text_part '' '' (o_addrtype sdp) \<and> text_part [] (o_addr sdp)"

definition with_origin :: "sdp_message \<Rightarrow> sdp_message \<Rightarrow> sdp_message" where
  "with_origin x sdp = sdp\<lparr>o_username := o_username x, o_sess_id := o_sess_id x, o_sess_version := o_sess_version x,
     o_nettype := o_nettype x, o_addrtype := o_addrtype x, o_addr := o_addr x\<rparr>"

text \<open>One token, or the last one, and what follows.\<close>

lemma token_step:
  assumes "rest_at s p (u @ c # t)" "plain seps u" "c \<in> set seps" "c \<noteq> NUL"
    "\<And>q. rest_at s q t \<Longrightarrow> q = p + int (length u) + 1 \<Longrightarrow> f (Some (u, q)) = y"
  shows "bindR (osip_set_next_token s p c) f = y"
  using plain_token [OF assms(1-4)] assms(5) [OF rest_at_skip [of s p "u @ [c]" t]] assms(1) by simp

lemma token_stepO:
  assumes "rest_at s p (u @ c # t)" "plain seps u" "c \<in> set seps" "c \<noteq> NUL"
    "\<And>q. rest_at s q t \<Longrightarrow> q = p + int (length u) + 1 \<Longrightarrow> f (u, q) = y"
  shows "bindO (osip_set_next_token s p c) f = y"
  unfolding bindO_def by (rule token_step [OF assms(1-4)]) (use assms(5) in simp)

lemma last_step: "rest_at s p (v @ CR # t) \<Longrightarrow> plain seps v \<Longrightarrow> f (Some (v, p + int (length v) + 1)) = y \<Longrightarrow> bindR (last_token s p) f = y"
  by (simp add: plain_last)

lemma last_stepO: "rest_at s p (v @ CR # t) \<Longrightarrow> plain seps v \<Longrightarrow> f (v, p + int (length v) + 1) = y \<Longrightarrow> bindO (last_token s p) f = y"
  by (simp add: plain_last bindO_def)

lemma reads_origin:
  assumes "printable_origin x"
  shows "reads P (CHR ''o'') (origin_value x) (with_origin x)"
proof -
  obtain a b c d e f where x: "o_username x = Some a" "o_sess_id x = Some b" "o_sess_version x = Some c" "o_nettype x = Some d"
      "o_addrtype x = Some e" "o_addr x = Some f"
    and pl: "plain '' '' a" "plain '' '' b" "plain '' '' c" "plain '' '' d" "plain '' '' e" "plain [] f"
    using assms by (auto simp: printable_origin_def elim!: text_partE)
  show ?thesis
  proof (rule reader_fields [THEN reads_field])
    fix sdp s p t
    assume r: "rest_at s (p + 2) (origin_value x @ CR # LF # t)"
    have r: "rest_at s (p + 2) (a @ CHR '' '' # b @ CHR '' '' # c @ CHR '' '' # d @ CHR '' '' # e @ CHR '' '' # f @ CR # LF # t)"
      using r by (simp add: origin_value_def x)
    have "origin sdp s (p + 2) = Inr (True, with_origin x sdp)"
      unfolding origin_def
      by (rule token_step [OF r pl(1)], simp, simp, simp only: option.case prod.case Let_def,
          rule token_step [OF _ pl(2)], assumption, simp, simp, simp only: option.case prod.case Let_def,
          rule token_step [OF _ pl(3)], assumption, simp, simp, simp only: option.case prod.case Let_def,
          rule token_step [OF _ pl(4)], assumption, simp, simp, simp only: option.case prod.case Let_def,
          rule token_step [OF _ pl(5)], assumption, simp, simp, simp only: option.case prod.case Let_def,
          rule last_step [OF _ pl(6)], assumption, simp add: with_origin_def x)
    then show "origin sdp s (p + 1 + 1) = Inr (True, with_origin x sdp)" by (simp add: add.commute)
  qed (use pl in \<open>simp_all add: origin_value_def x cr_lf_def\<close>)
qed

definition connection_value :: "sdp_connection \<Rightarrow> string" where
  "connection_value c = the (c_nettype c) @ '' '' @ the (c_addrtype c) @ '' '' @ the (c_addr c) @
     opt_text (\<lambda>v. ''/'' @ v) (c_addr_multicast_ttl c) @ opt_text (\<lambda>v. ''/'' @ v) (c_addr_multicast_int c)"

definition printable_connection :: "sdp_connection \<Rightarrow> bool" where
  "printable_connection c \<longleftrightarrow> text_part '' '' (c_nettype c) \<and> text_part '' '' (c_addrtype c) \<and> text_part ''/'' (c_addr c) \<and>
     pred_option (plain ''/'') (c_addr_multicast_ttl c) \<and> pred_option (plain []) (c_addr_multicast_int c) \<and>
     (c_addr_multicast_ttl c = None \<longrightarrow> c_addr_multicast_int c = None)"

lemma slash_step:
  assumes "rest_at s p (u @ c # t)" "plain seps u" "c \<in> set seps" "f (Some (p + int (length u))) = y"
  shows "bindR (strchr s p c) f = y"
  using rest_at_strchr_found [OF assms(1)] plain_sep [OF assms(2,3)] assms(4) by simp

lemma no_slash_step:
  assumes "rest_at s p (u @ t)" "c \<notin> set u" "\<And>r. (\<And>q. r = Some q \<Longrightarrow> p + int (length u) \<le> q) \<Longrightarrow> f r = y"
  shows "bindR (strchr s p c) f = y"
  using rest_at_strchr [OF assms(1,2)] assms(3) by auto

text \<open>The address with what is behind its slashes; the search for the second slash starts at \<open>q\<close>, behind the first.\<close>

definition multicast :: "sdp_connection \<Rightarrow> string \<Rightarrow> string \<Rightarrow> int \<Rightarrow> int \<Rightarrow> int \<Rightarrow> sdp_connection option res" where
  "multicast c addr s tmp q eol =
     bindR (strchr s q (CHR ''/'')) (\<lambda>slash.
       if (case slash of None \<Rightarrow> False | Some slash \<Rightarrow> slash < eol) then
         bindO (osip_set_next_token s tmp (CHR ''/'')) (\<lambda>(ttl, tmp).
         bindO (last_token s tmp) (\<lambda>(n, _).
           Inr (Some (c\<lparr>c_addr := Some addr, c_addr_multicast_ttl := Some ttl, c_addr_multicast_int := Some n\<rparr>))))
       else bindO (last_token s tmp) (\<lambda>(ttl, _). Inr (Some (c\<lparr>c_addr := Some addr, c_addr_multicast_ttl := Some ttl\<rparr>))))"

definition address :: "sdp_connection \<Rightarrow> string \<Rightarrow> int \<Rightarrow> int \<Rightarrow> sdp_connection option res" where
  "address c s tmp eol =
     bindR (strchr s tmp (CHR ''/'')) (\<lambda>slash. case slash of
         Some slash \<Rightarrow> if slash < eol then
           bindO (osip_set_next_token s tmp (CHR ''/'')) (\<lambda>(addr, tmp). multicast c addr s tmp (slash + 1) eol)
         else bindO (last_token s tmp) (\<lambda>(addr, _). Inr (Some (c\<lparr>c_addr := Some addr\<rparr>)))
       | None \<Rightarrow> bindO (last_token s tmp) (\<lambda>(addr, _). Inr (Some (c\<lparr>c_addr := Some addr\<rparr>))))"

lemma connection_address:
  "connection s tmp eol = bindO (osip_set_next_token s tmp (CHR '' '')) (\<lambda>(nettype, tmp).
     bindO (osip_set_next_token s tmp (CHR '' '')) (\<lambda>(addrtype, tmp).
       address (sdp_connection_init\<lparr>c_nettype := Some nettype, c_addrtype := Some addrtype\<rparr>) s tmp eol))"
  unfolding connection_def address_def multicast_def Let_def ..

lemma address_alone:
  assumes "rest_at s p (d @ CR # t)" "plain ''/'' d" "eol = p + int (length d)"
  shows "address c s p eol = Inr (Some (c\<lparr>c_addr := Some d\<rparr>))"
  unfolding address_def
  by (rule no_slash_step [OF assms(1)])
    (use assms(3) in \<open>auto simp: plain_sep [OF assms(2)] split: option.split intro!: last_stepO [OF assms(1,2)]\<close>)

lemma multicast_ttl:
  assumes "rest_at s p (x @ CR # t)" "plain ''/'' x" "eol = p + int (length x)"
  shows "multicast c d s p p eol = Inr (Some (c\<lparr>c_addr := Some d, c_addr_multicast_ttl := Some x\<rparr>))"
  unfolding multicast_def
  by (rule no_slash_step [OF assms(1)])
    (use assms(3) in \<open>auto simp: plain_sep [OF assms(2)] split: option.split intro!: last_stepO [OF assms(1,2)]\<close>)

lemma multicast_both:
  assumes "rest_at s p (x @ CHR ''/'' # y @ CR # t)" "plain ''/'' x" "plain [] y" "eol = p + int (length x) + 1 + int (length y)"
  shows "multicast c d s p p eol = Inr (Some (c\<lparr>c_addr := Some d, c_addr_multicast_ttl := Some x, c_addr_multicast_int := Some y\<rparr>))"
  unfolding multicast_def
  by (rule slash_step [OF assms(1,2)], simp, simp add: assms(4), rule token_stepO [OF assms(1,2)], simp, simp, simp only: prod.case,
      rule last_stepO [OF _ assms(3)], assumption, simp)

lemma address_slash:
  assumes "rest_at s p (d @ CHR ''/'' # t)" "plain ''/'' d" "p + int (length d) < eol"
    "\<And>q. rest_at s q t \<Longrightarrow> q = p + int (length d) + 1 \<Longrightarrow> multicast c d s q q eol = y"
  shows "address c s p eol = y"
  unfolding address_def
  by (rule slash_step [OF assms(1,2)], simp, simp add: assms(3), rule token_stepO [OF assms(1,2)], simp, simp, simp only: prod.case)
    (use assms(4) in blast)

lemma connection_read:
  assumes "printable_connection c" "rest_at s p (connection_value c @ CR # LF # t)" "eol = p + int (length (connection_value c))"
  shows "connection s p eol = Inr (Some c)"
proof -
  obtain a b d where c: "c_nettype c = Some a" "c_addrtype c = Some b" "c_addr c = Some d"
    and pl: "plain '' '' a" "plain '' '' b" "plain ''/'' d"
    using assms(1) by (auto simp: printable_connection_def elim!: text_partE)
  define rest where "rest = opt_text (\<lambda>v. ''/'' @ v) (c_addr_multicast_ttl c) @ opt_text (\<lambda>v. ''/'' @ v) (c_addr_multicast_int c)"
  have r: "rest_at s p (a @ CHR '' '' # b @ CHR '' '' # d @ rest @ CR # LF # t)"
    using assms(2) by (simp add: connection_value_def c rest_def)
  let ?c = "sdp_connection_init\<lparr>c_nettype := Some a, c_addrtype := Some b\<rparr>"
  have "address ?c s q eol = Inr (Some c)"
    if q: "rest_at s q (d @ rest @ CR # LF # t)" and e: "eol = q + int (length d) + int (length rest)" for q
  proof -
    consider (none) "c_addr_multicast_ttl c = None" "c_addr_multicast_int c = None"
      | (ttl) x where "c_addr_multicast_ttl c = Some x" "c_addr_multicast_int c = None" "plain ''/'' x"
      | (both) x y where "c_addr_multicast_ttl c = Some x" "c_addr_multicast_int c = Some y" "plain ''/'' x" "plain [] y"
      using assms(1) by (cases "c_addr_multicast_ttl c"; cases "c_addr_multicast_int c") (auto simp: printable_connection_def)
    then show ?thesis
    proof cases
      case none
      then show ?thesis
        using address_alone [OF _ pl(3), of s q "LF # t" eol ?c] q e c by (simp add: rest_def opt_text_def sdp_connection_init_def)
    next
      case (ttl x)
      with q e c show ?thesis
        by (intro address_slash [of s q d "x @ CR # LF # t"] pl(3))
          (auto simp: rest_def opt_text_def sdp_connection_init_def multicast_ttl [of s _ x "LF # t"])
    next
      case (both x y)
      with q e c show ?thesis
        by (intro address_slash [of s q d "x @ CHR ''/'' # y @ CR # LF # t"] pl(3))
          (auto simp: rest_def opt_text_def sdp_connection_init_def multicast_both [of s _ x y "LF # t"])
    qed
  qed
  note tail = this
  show ?thesis
    unfolding connection_address
    by (rule token_stepO [OF r pl(1)], simp, simp, simp only: prod.case, rule token_stepO [OF _ pl(2)], assumption, simp, simp, simp only: prod.case,
        rule tail, assumption)
      (use assms(3) in \<open>simp add: connection_value_def c rest_def\<close>)
qed

lemma connection_line: "printable_connection c \<Longrightarrow> one_line (connection_value c)"
  by (auto simp: printable_connection_def connection_value_def opt_text_def cr_lf_def elim!: text_partE split: option.splits)

lemma reads_connection:
  "printable_connection c \<Longrightarrow> reads P (CHR ''c'') (connection_value c)
     (place (\<lambda>sdp. sdp\<lparr>c_connection := Some c\<rparr>) (\<lambda>m. m\<lparr>c_connections := c_connections m @ [c]\<rparr>))"
  by (rule reader_fields(7) [THEN reads_stored]) (simp_all add: connection_line connection_read)

definition bandwidth_value :: "sdp_bandwidth \<Rightarrow> string" where
  "bandwidth_value b = the (b_bwtype b) @ '':'' @ the (b_bandwidth b)"

definition printable_bandwidth :: "sdp_bandwidth \<Rightarrow> bool" where
  "printable_bandwidth b \<longleftrightarrow> text_part '':'' (b_bwtype b) \<and> text_part [] (b_bandwidth b)"

lemma bandwidth_read:
  assumes "printable_bandwidth b" "rest_at s p (bandwidth_value b @ CR # LF # t)"
  shows "bandwidth s p = Inr (Some b)"
proof -
  obtain x y where b: "b_bwtype b = Some x" "b_bandwidth b = Some y" and pl: "plain '':'' x" "plain [] y"
    using assms(1) by (auto simp: printable_bandwidth_def elim!: text_partE)
  have r: "rest_at s p (x @ CHR '':'' # y @ CR # LF # t)" using assms(2) by (simp add: bandwidth_value_def b)
  show ?thesis
    unfolding bandwidth_def
    by (rule token_stepO [OF r pl(1)], simp, simp, simp only: prod.case, rule last_stepO [OF _ pl(2)], assumption) (cases b, use b in simp)
qed

lemma bandwidth_line: "printable_bandwidth b \<Longrightarrow> one_line (bandwidth_value b)"
  by (auto simp: printable_bandwidth_def bandwidth_value_def cr_lf_def elim!: text_partE)

lemma reads_bandwidth:
  "printable_bandwidth b \<Longrightarrow> reads P (CHR ''b'') (bandwidth_value b)
     (place (\<lambda>sdp. sdp\<lparr>b_bandwidths := b_bandwidths sdp @ [b]\<rparr>) (\<lambda>m. m\<lparr>media_b_bandwidths := media_b_bandwidths m @ [b]\<rparr>))"
  by (rule reader_fields(8) [THEN reads_stored]) (simp_all add: bandwidth_line bandwidth_read)

definition time_value :: "sdp_time_descr \<Rightarrow> string" where
  "time_value t = the (t_start_time t) @ '' '' @ the (t_stop_time t)"

definition printable_time :: "sdp_time_descr \<Rightarrow> bool" where
  "printable_time t \<longleftrightarrow> text_part '' '' (t_start_time t) \<and> text_part [] (t_stop_time t) \<and> list_all (plain []) (r_repeats t)"

lemma time_read:
  assumes "printable_time x" "rest_at s p (time_value x @ CR # LF # t)"
  shows "time_descr s p = Inr (Some (x\<lparr>r_repeats := []\<rparr>))"
proof -
  obtain a b where x: "t_start_time x = Some a" "t_stop_time x = Some b" and pl: "plain '' '' a" "plain [] b"
    using assms(1) by (auto simp: printable_time_def elim!: text_partE)
  have r: "rest_at s p (a @ CHR '' '' # b @ CR # LF # t)" using assms(2) by (simp add: time_value_def x)
  show ?thesis
    unfolding time_descr_def
    by (rule token_stepO [OF r pl(1)], simp, simp, simp only: prod.case, rule last_stepO [OF _ pl(2)], assumption) (cases x, use x in simp)
qed

lemma time_line: "printable_time x \<Longrightarrow> one_line (time_value x)"
  by (auto simp: printable_time_def time_value_def cr_lf_def elim!: text_partE)

lemma reads_time:
  "printable_time x \<Longrightarrow> reads P (CHR ''t'') (time_value x) (\<lambda>sdp. sdp\<lparr>t_descrs := t_descrs sdp @ [x\<lparr>r_repeats := []\<rparr>]\<rparr>)"
  by (rule reader_fields(9) [THEN reads_stored]) (simp_all add: time_line time_read)

definition pair_value :: "string option \<Rightarrow> string option \<Rightarrow> string" where
  "pair_value n v = the n @ opt_text (\<lambda>v. '':'' @ v) v"

definition printable_pair :: "string option \<Rightarrow> string option \<Rightarrow> bool" where
  "printable_pair n v \<longleftrightarrow> text_part '':'' n \<and> pred_option (plain []) v"

lemma pair_read:
  assumes "printable_pair n v" "rest_at s p (pair_value n v @ CR # LF # t)" "eol = p + int (length (pair_value n v))" "p = equal + 1"
  shows "name_value s equal eol = Inr (Some (the n, v))"
proof -
  obtain x where n: "n = Some x" and pl: "plain '':'' x" using assms(1) by (auto simp: printable_pair_def elim!: text_partE)
  show ?thesis
  proof (cases v)
    case None
    have r: "rest_at s (equal + 1) (x @ CR # LF # t)" using assms(2,4) by (simp add: pair_value_def opt_text_def n None)
    show ?thesis
      unfolding name_value_def
      by (rule no_slash_step [OF r])
        (use assms(3,4) in \<open>auto simp: plain_sep [OF pl] pair_value_def opt_text_def None n split: option.split intro!: last_stepO [OF r pl]\<close>)
  next
    case (Some y)
    have r: "rest_at s (equal + 1) (x @ CHR '':'' # y @ CR # LF # t)" using assms(2,4) by (simp add: pair_value_def opt_text_def n Some)
    have y: "plain [] y" using assms(1) Some by (simp add: printable_pair_def)
    show ?thesis
      unfolding name_value_def
      by (rule slash_step [OF r pl], simp, simp add: assms(3,4) pair_value_def opt_text_def n Some, rule token_stepO [OF r pl], simp, simp,
          simp only: prod.case, rule last_stepO [OF _ y], assumption) (simp add: n)
  qed
qed

lemma pair_line: "printable_pair n v \<Longrightarrow> one_line (pair_value n v)"
  by (auto simp: printable_pair_def pair_value_def opt_text_def cr_lf_def elim!: text_partE split: option.split)

definition key_value :: "sdp_key \<Rightarrow> string" where
  "key_value k = pair_value (k_keytype k) (k_keydata k)"

definition printable_key :: "sdp_key \<Rightarrow> bool" where
  "printable_key k \<longleftrightarrow> printable_pair (k_keytype k) (k_keydata k)"

definition attribute_value :: "sdp_attribute \<Rightarrow> string" where
  "attribute_value a = pair_value (a_att_field a) (a_att_value a)"

definition printable_attribute :: "sdp_attribute \<Rightarrow> bool" where
  "printable_attribute a \<longleftrightarrow> printable_pair (a_att_field a) (a_att_value a)"

lemma reads_pair:
  assumes "sdp_reader_of c = sdp_field c (\<lambda>sdp s equal eol. stored (name_value s equal eol) (store sdp) sdp)" "c \<noteq> CHR ''=''" "printable_pair n v"
  shows "reads P c (pair_value n v) (\<lambda>sdp. store sdp (the n, v))"
  by (rule reads_stored [OF assms(1) pair_line [OF assms(3)] assms(2)]) (simp_all add: pair_read [OF assms(3)])

lemma reads_key:
  assumes "printable_key k"
  shows "reads P (CHR ''k'') (key_value k) (place (\<lambda>sdp. sdp\<lparr>k_key := Some k\<rparr>) (\<lambda>m. m\<lparr>media_k_key := Some k\<rparr>))"
proof -
  have "\<lparr>k_keytype = Some (the (k_keytype k)), k_keydata = k_keydata k\<rparr> = k"
    using assms by (cases k) (auto simp: printable_key_def printable_pair_def text_part_def)
  then show ?thesis
    using reads_pair [OF reader_fields(12) _ assms [unfolded printable_key_def]] by (simp add: key_value_def)
qed

lemma reads_attribute:
  assumes "printable_attribute a"
  shows "reads P (CHR ''a'') (attribute_value a) (place (\<lambda>sdp. sdp\<lparr>a_attributes := a_attributes sdp @ [a]\<rparr>)
      (\<lambda>m. m\<lparr>media_a_attributes := media_a_attributes m @ [a]\<rparr>))"
proof -
  have "\<lparr>a_att_field = Some (the (a_att_field a)), a_att_value = a_att_value a\<rparr> = a"
    using assms by (cases a) (auto simp: printable_attribute_def printable_pair_def text_part_def)
  then show ?thesis
    using reads_pair [OF reader_fields(13) _ assms [unfolded printable_attribute_def]] by (simp add: attribute_value_def)
qed

definition media_value :: "sdp_media \<Rightarrow> string" where
  "media_value m = the (m_media m) @ '' '' @ the (m_port m) @ opt_text (\<lambda>n. ''/'' @ n) (m_number_of_port m) @ '' '' @ the (m_proto m) @
     concat (map (\<lambda>p. '' '' @ p) (m_payloads m))"

definition printable_media_line :: "sdp_media \<Rightarrow> bool" where
  "printable_media_line m \<longleftrightarrow> text_part '' '' (m_media m) \<and> text_part ''/ '' (m_port m) \<and> pred_option (plain ''/ '') (m_number_of_port m) \<and>
     text_part '' '' (m_proto m) \<and> list_all (plain '' '') (m_payloads m)"

lemma payloads_read:
  assumes "rest_at s p (q @ concat (map (\<lambda>p. '' '' @ p) ps) @ CR # LF # t)" "plain '' '' q" "list_all (plain '' '') ps"
    "eol = p + int (length (q @ concat (map (\<lambda>p. '' '' @ p) ps)))"
  shows "bindO (payload_loop s p eol acc) (\<lambda>(ps, tmp).
       if tmp < eol then bindO (last_token s tmp) (\<lambda>(t, _). Inr (Some (ps @ [t]))) else Inr (Some ps)) = Inr (Some (acc @ q # ps))"
  using assms
proof (induction ps arbitrary: p q acc)
  case Nil
  have q: "q \<noteq> []" using Nil.prems(2) by (simp add: plain_def)
  have r: "rest_at s p (q @ CR # LF # t)" using Nil.prems(1) by simp
  have "rest_at s (p + 1) ((tl q @ [CR]) @ LF # t)" by (rule rest_at_skip [of s p "[hd q]"]) (use r q in \<open>cases q; simp\<close>)+
  moreover have "CHR '' '' \<notin> set (tl q @ [CR])" using plain_sep [OF Nil.prems(2), of "CHR '' ''"] list.set_sel(2) [OF q] by auto
  ultimately obtain x where "strchr s (p + 1) (CHR '' '') = Inr x" "\<And>y. x = Some y \<Longrightarrow> p + 1 + int (length (tl q @ [CR])) \<le> y"
    using rest_at_strchr by blast
  moreover have "p + 1 + int (length (tl q @ [CR])) = eol + 1" using q Nil.prems(4) by (cases q) auto
  ultimately have "payload_loop s p eol acc = Inr (Some (acc, p))"
    by (subst payload_loop.simps) (auto split: option.splits)
  moreover have "p < eol" using q Nil.prems(4) by simp
  ultimately show ?case using plain_last [OF r] Nil.prems(2) by simp
next
  case (Cons r rs)
  let ?rest = "r @ concat (map (\<lambda>p. '' '' @ p) rs) @ CR # LF # t"
  have q: "q \<noteq> []" using Cons.prems(2) by (simp add: plain_def)
  have at: "rest_at s p (q @ CHR '' '' # ?rest)" using Cons.prems(1) by simp
  have "rest_at s (p + 1) (tl q @ CHR '' '' # ?rest)" by (rule rest_at_skip [of s p "[hd q]"]) (use at q in \<open>cases q; simp\<close>)+
  moreover have "CHR '' '' \<notin> set (tl q)" using plain_sep [OF Cons.prems(2), of "CHR '' ''"] list.set_sel(2) [OF q] by auto
  ultimately have "strchr s (p + 1) (CHR '' '') = Inr (Some (p + 1 + int (length (tl q))))" by (rule rest_at_strchr_found)
  moreover have "p + 1 + int (length (tl q)) \<le> eol" using q Cons.prems(4) by (cases q) auto
  moreover have "osip_set_next_token s p (CHR '' '') = Inr (Some (q, p + int (length q) + 1))"
    by (rule plain_token [OF at Cons.prems(2)]) simp_all
  ultimately have "payload_loop s p eol acc = payload_loop s (p + int (length q) + 1) eol (acc @ [q])"
    by (subst payload_loop.simps) simp
  moreover have "rest_at s (p + int (length q) + 1) ?rest" by (rule rest_at_skip [of s p "q @ '' ''"]) (use at in simp_all)
  ultimately show ?case
    using Cons.IH [of "p + int (length q) + 1" r "acc @ [q]"] Cons.prems(3,4) by simp
qed

definition media_end :: "string \<Rightarrow> int \<Rightarrow> int \<Rightarrow> (string \<times> string list) option res" where
  "media_end s tmp eol =
     bindO (bindR (osip_set_next_token s tmp (CHR '' '')) (\<lambda>r. case r of Some x \<Rightarrow> Inr (Some x) | None \<Rightarrow> last_token s tmp)) (\<lambda>(proto, tmp).
     bindO (payloads s tmp eol) (\<lambda>ps. Inr (Some (proto, ps))))"

lemma bindO_assoc: "bindO (bindO x f) g = bindO x (\<lambda>y. bindO (f y) g)"
  by (cases x) (auto simp: bindO_def split: option.split)

lemma media_in_two:
  "media s tmp eol = bindO (osip_set_next_token s tmp (CHR '' '')) (\<lambda>(name, tmp). bindO (media_ports s tmp) (\<lambda>(port, n, tmp).
     bindO (media_end s tmp eol) (\<lambda>(proto, ps).
       Inr (Some (sdp_media_init\<lparr>m_media := Some name, m_port := Some port, m_number_of_port := n, m_proto := Some proto, m_payloads := ps\<rparr>)))))"
  unfolding media_def media_end_def bindO_assoc case_prod_beta by (simp only: fst_conv snd_conv bindO_simps)

lemma ports_read:
  assumes "rest_at s p (a @ opt_text (\<lambda>n. ''/'' @ n) n @ CHR '' '' # t)" "plain ''/ '' a" "pred_option (plain ''/ '') n"
  shows "media_ports s p = Inr (Some (a, n, p + int (length (a @ opt_text (\<lambda>n. ''/'' @ n) n)) + 1))"
proof (cases n)
  case None
  have r: "rest_at s p (a @ CHR '' '' # t)" using assms(1) None by (simp add: opt_text_def)
  show ?thesis
    unfolding media_ports_def bindO_def [of "strchr _ _ _"]
    by (rule no_slash_step [OF r], use plain_sep [OF assms(2)] in simp, rule slash_step [OF r assms(2)], simp)
      (auto simp: None opt_text_def split: option.splits intro!: token_stepO [OF r assms(2)])
next
  case (Some x)
  have x: "plain ''/ '' x" using assms(3) Some by simp
  have r: "rest_at s p (a @ CHR ''/'' # x @ CHR '' '' # t)" using assms(1) Some by (simp add: opt_text_def)
  have r': "rest_at s p ((a @ CHR ''/'' # x) @ CHR '' '' # t)" using r by simp
  have b: "CHR '' '' \<notin> set (a @ CHR ''/'' # x)" using plain_sep [OF assms(2), of "CHR '' ''"] plain_sep [OF x, of "CHR '' ''"] by simp
  show ?thesis
    unfolding media_ports_def bindO_def [of "strchr _ _ _"] rest_at_strchr_found [OF r' b]
    by (rule slash_step [OF r assms(2)], simp, simp, rule token_stepO [OF r assms(2)], simp, simp, simp only: prod.case,
        rule token_stepO [OF _ x], assumption, simp, simp, simp add: Some opt_text_def)
qed

lemma media_end_read:
  assumes "rest_at s p (a @ concat (map (\<lambda>p. '' '' @ p) ps) @ CR # LF # t)" "plain '' '' a" "list_all (plain '' '') ps"
    "eol = p + int (length (a @ concat (map (\<lambda>p. '' '' @ p) ps)))"
  shows "media_end s p eol = Inr (Some (a, ps))"
proof (cases ps)
  case Nil
  have r: "rest_at s p (a @ CR # LF # t)" using assms(1) Nil by simp
  have no: "osip_set_next_token s p (CHR '' '') = Inr None"
    by (rule rest_at_no_token [OF r]) (use assms(2) in \<open>auto simp: plain_def list_all_iff\<close>)
  have e: "eol = p + int (length a)" using assms(4) Nil by simp
  have "rest_at s (eol + 2) t" by (rule rest_at_skip [of s p "a @ [CR, LF]"]) (use r e in simp_all)
  then obtain x where "strchr s (eol + 2) (CHR '' '') = Inr x" "\<And>y. x = Some y \<Longrightarrow> eol + 2 \<le> y"
    using rest_at_strchr [of s "eol + 2" "[]" t] by auto
  then have "payloads s (eol + 1) eol = Inr (Some [])"
    unfolding payloads_def by (subst payload_loop.simps) (auto simp: add.assoc split: option.splits)
  with no plain_last [OF r] assms(2) e show ?thesis by (simp add: media_end_def Nil)
next
  case (Cons q qs)
  have r: "rest_at s p (a @ CHR '' '' # q @ concat (map (\<lambda>p. '' '' @ p) qs) @ CR # LF # t)" using assms(1) Cons by simp
  have "payloads s (p + int (length a) + 1) eol = Inr (Some ([] @ q # qs))"
    unfolding payloads_def
    by (rule payloads_read, rule rest_at_skip [of s p "a @ '' ''"]) (use r assms(3,4) Cons in simp_all)
  with plain_token [OF r assms(2)] show ?thesis by (simp add: media_end_def Cons)
qed

lemma media_read:
  assumes "printable_media_line m" "rest_at s p (media_value m @ CR # LF # t)" "eol = p + int (length (media_value m))"
  shows "media s p eol = Inr (Some (sdp_media_init\<lparr>m_media := m_media m, m_port := m_port m, m_number_of_port := m_number_of_port m,
    m_proto := m_proto m, m_payloads := m_payloads m\<rparr>))"
proof -
  obtain a b c where m: "m_media m = Some a" "m_port m = Some b" "m_proto m = Some c"
    and pl: "plain '' '' a" "plain ''/ '' b" "plain '' '' c"
    using assms(1) by (auto simp: printable_media_line_def elim!: text_partE)
  let ?n = "opt_text (\<lambda>n. ''/'' @ n) (m_number_of_port m)" and ?ps = "concat (map (\<lambda>p. '' '' @ p) (m_payloads m))"
  have ok: "pred_option (plain ''/ '') (m_number_of_port m)" "list_all (plain '' '') (m_payloads m)"
    using assms(1) by (simp_all add: printable_media_line_def)
  have r: "rest_at s p (a @ CHR '' '' # b @ ?n @ CHR '' '' # c @ ?ps @ CR # LF # t)" using assms(2) by (simp add: media_value_def m)
  show ?thesis
    unfolding media_in_two
  proof (rule token_stepO [OF r pl(1)])
    fix q
    assume q: "rest_at s q (b @ ?n @ CHR '' '' # c @ ?ps @ CR # LF # t)" "q = p + int (length a) + 1"
    have "rest_at s (q + int (length (b @ ?n)) + 1) (c @ ?ps @ CR # LF # t)"
      by (rule rest_at_skip [of s q "b @ ?n @ '' ''"]) (use q(1) in simp_all)
    note e = media_end_read [OF this pl(3) ok(2)]
    have "eol = q + int (length (b @ ?n)) + 1 + int (length (c @ ?ps))" using assms(3) q(2) by (simp add: media_value_def m)
    with ports_read [OF q(1) pl(2) ok(1)] e m
    show "(case (a, q) of (name, tmp) \<Rightarrow> bindO (media_ports s tmp) (\<lambda>(port, n, tmp). bindO (media_end s tmp eol) (\<lambda>(proto, ps).
        Inr (Some (sdp_media_init\<lparr>m_media := Some name, m_port := Some port, m_number_of_port := n, m_proto := Some proto, m_payloads := ps\<rparr>))))) =
      Inr (Some (sdp_media_init\<lparr>m_media := m_media m, m_port := m_port m, m_number_of_port := m_number_of_port m,
        m_proto := m_proto m, m_payloads := m_payloads m\<rparr>))"
      by simp
  qed simp_all
qed

definition bare_media :: "sdp_media \<Rightarrow> sdp_media" where
  "bare_media m = sdp_media_init\<lparr>m_media := m_media m, m_port := m_port m, m_number_of_port := m_number_of_port m,
     m_proto := m_proto m, m_payloads := m_payloads m\<rparr>"

lemma plain_no_end: "plain seps v \<Longrightarrow> list_all (\<lambda>c. \<not> cr_lf c) v"
  by (simp add: plain_def list_all_iff cr_lf_def)

lemma payloads_line: "list_all (plain '' '') ps \<Longrightarrow> list_all (\<lambda>c. \<not> cr_lf c) (concat (map (\<lambda>p. '' '' @ p) ps))"
proof (induction ps)
  case (Cons p ps)
  have "\<not> cr_lf (CHR '' '')" by (simp add: cr_lf_def)
  with Cons plain_no_end [of "'' ''" p] show ?case by simp
qed simp

lemma one_line_append: "one_line u \<Longrightarrow> list_all (\<lambda>c. \<not> cr_lf c) v \<Longrightarrow> one_line (u @ v)"
  by (simp add: one_line_def)

lemma media_one_line:
  assumes "printable_media_line m" shows "one_line (media_value m)"
proof -
  obtain a b c where m: "m_media m = Some a" "m_port m = Some b" "m_proto m = Some c"
    and pl: "plain '' '' a" "plain ''/ '' b" "plain '' '' c"
    using assms(1) by (auto simp: printable_media_line_def elim!: text_partE)
  have number: "list_all (\<lambda>c. \<not> cr_lf c) (opt_text (\<lambda>n. ''/'' @ n) (m_number_of_port m))"
    using assms by (cases "m_number_of_port m") (simp_all add: printable_media_line_def opt_text_def cr_lf_def plain_def list_all_iff)
  have "one_line ((((a @ '' '' @ b) @ opt_text (\<lambda>n. ''/'' @ n) (m_number_of_port m)) @ '' '' @ c) @ concat (map (\<lambda>p. '' '' @ p) (m_payloads m)))"
    using assms one_line_simps(1) [OF pl(1)] one_line_simps(1) [OF pl(2)] one_line_simps(1) [OF pl(3)] number
    by (intro one_line_append payloads_line one_line_simps(2)) (simp_all add: printable_media_line_def cr_lf_def)
  then show ?thesis by (simp add: media_value_def m)
qed

lemma reads_media: "printable_media_line m \<Longrightarrow> reads P (CHR ''m'') (media_value m) (\<lambda>sdp. sdp\<lparr>m_medias := m_medias sdp @ [bare_media m]\<rparr>)"
  by (rule reader_fields(14) [THEN reads_stored]) (simp_all add: media_one_line media_read bare_media_def)

section \<open>Steps over printed lines\<close>

definition letters :: "char list \<Rightarrow> bool" where
  "letters L \<longleftrightarrow> set L \<subseteq> set ''osiuepcbtrzkam''"

lemma letters_append [simp]: "letters (C @ D) \<longleftrightarrow> letters C \<and> letters D"
  unfolding letters_def set_append by blast

lemma not_letter: "letters L \<Longrightarrow> c \<notin> set ''osiuepcbtrzkam'' \<Longrightarrow> c \<notin> set L"
  unfolding letters_def by blast

lemma reads_at: "reads P c v g \<Longrightarrow> P sdp \<Longrightarrow> rest_at s p (ln c v @ t) \<Longrightarrow> sdp_reader_of c sdp s p = Inr (1, g sdp, p + int (length (ln c v)))"
  unfolding reads_def by blast

lemma other_read:
  "rest_at s p t \<Longrightarrow> t \<noteq> [] \<Longrightarrow> heads L t \<Longrightarrow> c \<notin> set L \<Longrightarrow> letters L \<Longrightarrow> letters [c] \<Longrightarrow> sdp_reader_of c sdp s p = Inr (0, sdp, p)"
  using not_letter [of L "CHR ''=''"] by (intro reader_other) (simp_all add: letters_def)

lemma or_end_read:
  assumes "rest_at s p t" "heads L t" "letters L"
  shows "or_end_here sdp s p = Inr (if t = [] then Return 0 sdp else Go sdp p)"
proof (cases t)
  case Nil
  then show ?thesis using rest_at_rd_end [of s p] assms(1) by (simp add: or_end_here_def)
next
  case (Cons c t')
  then have c: "c \<in> set L" using assms(2) by (auto simp: heads_def)
  have "rd s p = Inr c" using rest_at_rd assms(1) Cons by blast
  moreover have "c \<noteq> NUL \<and> \<not> cr_lf c" using c not_letter [OF assms(3), of NUL] not_letter [OF assms(3), of CR] not_letter [OF assms(3), of LF] by (auto simp: cr_lf_def)
  ultimately show ?thesis using Cons by (simp add: or_end_here_def)
qed

lemma heads_Nil [simp]: "heads L []"
  by (simp add: heads_def)

lemma heads_ln [simp]: "c \<in> set L \<Longrightarrow> heads L (ln c v @ t)"
  by (auto simp: heads_def ln_def)

lemma heads_lines: "heads [c] (concat (map (\<lambda>x. ln c (f x)) xs))"
  by (cases xs) simp_all

lemma heads_opt: "heads [c] (opt_text (\<lambda>x. ln c (f x)) v)"
  using heads_ln [of c "[c]" _ "[]"] by (cases v) (simp_all add: opt_text_def)

definition consumes :: "char list \<Rightarrow> sdp_step \<Rightarrow> string \<Rightarrow> (sdp_message \<Rightarrow> sdp_message) \<Rightarrow> bool" where
  "consumes C F u g \<longleftrightarrow> letters C \<and> heads C u \<and> (\<forall>sdp s p t L. rest_at s p (u @ t) \<longrightarrow> t \<noteq> [] \<longrightarrow> heads L t \<longrightarrow> set C \<inter> set L = {} \<longrightarrow>
     letters L \<longrightarrow> F sdp s p = Inr (Go (g sdp) (p + int (length u))))"

definition consumes_end :: "char list \<Rightarrow> sdp_step \<Rightarrow> string \<Rightarrow> (sdp_message \<Rightarrow> sdp_message) \<Rightarrow> bool" where
  "consumes_end C F u g \<longleftrightarrow> letters C \<and> heads C u \<and> (u = [] \<longrightarrow> g = id) \<and>
     (\<forall>sdp s p t L. rest_at s p (u @ t) \<longrightarrow> u @ t \<noteq> [] \<longrightarrow> heads L t \<longrightarrow> set C \<inter> set L = {} \<longrightarrow>
       letters L \<longrightarrow> F sdp s p = Inr (if t = [] then Return 0 (g sdp) else Go (g sdp) (p + int (length u))))"

definition finishes :: "char list \<Rightarrow> sdp_step \<Rightarrow> string \<Rightarrow> (sdp_message \<Rightarrow> sdp_message) \<Rightarrow> bool" where
  "finishes C F u g \<longleftrightarrow> letters C \<and> heads C u \<and> (u = [] \<longrightarrow> g = id) \<and>
     (\<forall>sdp s p. rest_at s p u \<longrightarrow> u \<noteq> [] \<longrightarrow> F sdp s p = Inr (Return 0 (g sdp)))"

lemma consumes_then:
  assumes "consumes C F u g" "finishes D G v h" "set C \<inter> set D = {}" "v \<noteq> []"
  shows "finishes (C @ D) (\<lambda>sdp s p. thenF (F sdp s p) (\<lambda>sdp p. G sdp s p)) (u @ v) (h \<circ> g)"
proof -
  have "thenF (F sdp s p) (\<lambda>sdp p. G sdp s p) = Inr (Return 0 ((h \<circ> g) sdp))" if r: "rest_at s p (u @ v)" for sdp s p
  proof -
    have "F sdp s p = Inr (Go (g sdp) (p + int (length u)))" using assms r by (auto simp: consumes_def finishes_def)
    moreover have "G (g sdp) s (p + int (length u)) = Inr (Return 0 (h (g sdp)))"
      using assms(2,4) rest_at_skip [OF r refl] by (auto simp: finishes_def)
    ultimately show ?thesis by (simp add: thenF_def)
  qed
  with assms show ?thesis by (auto simp: finishes_def consumes_def intro: heads_append)
qed

lemma consumes_end_then:
  assumes "consumes_end C F u g" "finishes D G v h" "set C \<inter> set D = {}"
  shows "finishes (C @ D) (\<lambda>sdp s p. thenF (F sdp s p) (\<lambda>sdp p. G sdp s p)) (u @ v) (h \<circ> g)"
proof -
  have "thenF (F sdp s p) (\<lambda>sdp p. G sdp s p) = Inr (Return 0 ((h \<circ> g) sdp))" if r: "rest_at s p (u @ v)" "u @ v \<noteq> []" for sdp s p
  proof -
    have F: "F sdp s p = Inr (if v = [] then Return 0 (g sdp) else Go (g sdp) (p + int (length u)))"
      using assms r unfolding consumes_end_def finishes_def by blast
    have "v \<noteq> [] \<Longrightarrow> G (g sdp) s (p + int (length u)) = Inr (Return 0 (h (g sdp)))" "v = [] \<Longrightarrow> h = id"
      using assms(2) rest_at_skip [OF r(1) refl] by (auto simp: finishes_def)
    with F show ?thesis by (cases "v = []") (simp_all add: thenF_def)
  qed
  with assms show ?thesis by (auto simp: finishes_def consumes_end_def intro: heads_append)
qed

lemma finishes_or_end:
  assumes "finishes D G v h" "rest_at s q v"
  shows "thenF (or_end_here sdp s q) (\<lambda>sdp q. G sdp s q) = Inr (Return 0 (h sdp))"
  using assms or_end_read [OF assms(2), of D sdp] by (cases "v = []") (auto simp: finishes_def thenF_def)

lemma optional_consumes:
  assumes "letters [c]" "\<And>x. v = Some x \<Longrightarrow> reads (\<lambda>_. True) c (f x) (h x)"
  shows "consumes [c] (optional c) (opt_text (\<lambda>x. ln c (f x)) v) (case v of None \<Rightarrow> id | Some x \<Rightarrow> h x)"
proof -
  have "optional c sdp s p = Inr (Go ((case v of None \<Rightarrow> id | Some x \<Rightarrow> h x) sdp) (p + int (length (opt_text (\<lambda>x. ln c (f x)) v))))"
    if "rest_at s p (opt_text (\<lambda>x. ln c (f x)) v @ t)" "t \<noteq> []" "heads L t" "c \<notin> set L" "letters L" for sdp s p t L
  proof (cases v)
    case None
    then show ?thesis using other_read [OF _ that(2-5) assms(1), of s p sdp] that(1) by (simp add: opt_text_def optional_def)
  next
    case (Some x)
    then show ?thesis using reads_at [OF assms(2) TrueI, of x s p t sdp] that(1) by (simp add: opt_text_def optional_def)
  qed
  with assms(1) show ?thesis by (auto simp: consumes_def heads_opt)
qed

lemma optional_consumes_end:
  assumes "letters [c]" "\<And>x. v = Some x \<Longrightarrow> reads (\<lambda>_. True) c (f x) (h x)"
  shows "consumes_end [c] (optional_end c) (opt_text (\<lambda>x. ln c (f x)) v) (case v of None \<Rightarrow> id | Some x \<Rightarrow> h x)"
proof -
  let ?u = "opt_text (\<lambda>x. ln c (f x)) v" and ?g = "case v of None \<Rightarrow> id | Some x \<Rightarrow> h x"
  have "optional_end c sdp s p = Inr (if t = [] then Return 0 (?g sdp) else Go (?g sdp) (p + int (length ?u)))"
    if "rest_at s p (?u @ t)" "?u @ t \<noteq> []" "heads L t" "c \<notin> set L" "letters L" for sdp s p t L
  proof -
    have "optional c sdp s p = Inr (Go (?g sdp) (p + int (length ?u)))"
    proof (cases v)
      case None
      then show ?thesis using other_read [OF _ _ that(3-5) assms(1), of s p sdp] that(1,2) by (simp add: opt_text_def optional_def)
    next
      case (Some x)
      then show ?thesis using reads_at [OF assms(2) TrueI, of x s p t sdp] that(1) by (simp add: opt_text_def optional_def)
    qed
    with or_end_read [OF rest_at_skip [OF that(1) refl] that(3,5), of "?g sdp"] show ?thesis by (simp add: optional_end_def thenF_def)
  qed
  moreover have "?u = [] \<Longrightarrow> ?g = id" by (cases v) (simp_all add: opt_text_def ln_def)
  ultimately show ?thesis using assms(1) by (auto simp: consumes_end_def heads_opt)
qed

lemma all_of_read:
  assumes "letters [c]" "\<And>x. x \<in> set xs \<Longrightarrow> reads (\<lambda>_. True) c (f x) (h x)" "rest_at s p (concat (map (\<lambda>x. ln c (f x)) xs) @ t)"
    "t \<noteq> []" "heads L t" "c \<notin> set L" "letters L"
  shows "all_of c sdp s p = Inr (Go (fold h xs sdp) (p + int (length (concat (map (\<lambda>x. ln c (f x)) xs)))))"
  using assms
proof (induction xs arbitrary: sdp p)
  case Nil
  then show ?case using other_read [of s p t L c sdp] by (subst all_of.simps) simp
next
  case (Cons x xs)
  let ?q = "p + int (length (ln c (f x)))"
  have r: "rest_at s p (ln c (f x) @ concat (map (\<lambda>x. ln c (f x)) xs) @ t)" using Cons.prems(3) by simp
  then have "sdp_reader_of c sdp s p = Inr (1, h x sdp, ?q)" using reads_at [OF Cons.prems(2) TrueI] by simp
  moreover have "all_of c (h x sdp) s ?q = Inr (Go (fold h xs (h x sdp)) (?q + int (length (concat (map (\<lambda>x. ln c (f x)) xs)))))"
    using Cons.prems rest_at_skip [OF r refl] by (intro Cons.IH) auto
  ultimately show ?case by (subst all_of.simps) simp
qed

lemma all_of_consumes:
  "letters [c] \<Longrightarrow> (\<And>x. x \<in> set xs \<Longrightarrow> reads (\<lambda>_. True) c (f x) (h x)) \<Longrightarrow> consumes [c] (all_of c) (concat (map (\<lambda>x. ln c (f x)) xs)) (fold h xs)"
  by (auto simp: consumes_def heads_lines intro!: all_of_read)

lemma all_of_end_read:
  assumes "letters [c]" "\<And>x. x \<in> set xs \<Longrightarrow> reads P c (f x) (h x)" "rest_at s p (concat (map (\<lambda>x. ln c (f x)) xs) @ t)"
    "concat (map (\<lambda>x. ln c (f x)) xs) @ t \<noteq> []" "heads L t" "c \<notin> set L" "letters L" "P sdp" "\<And>x sdp. P sdp \<Longrightarrow> P (h x sdp)"
  shows "all_of_end c sdp s p = Inr (if t = [] then Return 0 (fold h xs sdp) else Go (fold h xs sdp) (p + int (length (concat (map (\<lambda>x. ln c (f x)) xs)))))"
  using assms
proof (induction xs arbitrary: sdp p)
  case Nil
  then show ?case using other_read [of s p t L c sdp] or_end_read [of s p t L sdp] by (subst all_of_end.simps) (simp add: thenF_def)
next
  case (Cons x xs)
  let ?q = "p + int (length (ln c (f x)))" and ?rest = "concat (map (\<lambda>x. ln c (f x)) xs)"
  have r: "rest_at s p (ln c (f x) @ ?rest @ t)" using Cons.prems(3) by simp
  then have one: "sdp_reader_of c sdp s p = Inr (1, h x sdp, ?q)" using reads_at [OF Cons.prems(2) Cons.prems(8)] by simp
  have q: "rest_at s ?q (?rest @ t)" by (rule rest_at_skip [OF r refl])
  have e: "or_end_here (h x sdp) s ?q = Inr (if ?rest @ t = [] then Return 0 (h x sdp) else Go (h x sdp) ?q)"
    by (rule or_end_read [OF q heads_append [OF heads_lines Cons.prems(5)]]) (simp only: letters_append Cons.prems(1,7))
  show ?case
  proof (cases "?rest @ t = []")
    case True
    then have "xs = []" "t = []" by (cases xs; simp add: ln_def)+
    with one e show ?thesis by (subst all_of_end.simps) (simp add: thenF_def)
  next
    case False
    have "all_of_end c (h x sdp) s ?q = Inr (if t = [] then Return 0 (fold h xs (h x sdp)) else Go (fold h xs (h x sdp)) (?q + int (length ?rest)))"
      using Cons.prems q False by (intro Cons.IH) auto
    with one e False show ?thesis by (subst all_of_end.simps) (auto simp: thenF_def)
  qed
qed

lemma all_of_consumes_end:
  assumes "letters [c]" "\<And>x. x \<in> set xs \<Longrightarrow> reads (\<lambda>_. True) c (f x) (h x)"
  shows "consumes_end [c] (all_of_end c) (concat (map (\<lambda>x. ln c (f x)) xs)) (fold h xs)"
proof -
  have "concat (map (\<lambda>x. ln c (f x)) xs) = [] \<Longrightarrow> fold h xs = id" by (cases xs) (simp_all add: ln_def)
  with assms all_of_end_read [of c xs "\<lambda>_. True" f h] show ?thesis by (auto simp: consumes_end_def heads_lines)
qed

section \<open>Times\<close>

definition add_repeats :: "string list \<Rightarrow> sdp_message \<Rightarrow> sdp_message" where
  "add_repeats rs sdp = sdp\<lparr>t_descrs := butlast (t_descrs sdp) @ [last (t_descrs sdp)\<lparr>r_repeats := r_repeats (last (t_descrs sdp)) @ rs\<rparr>]\<rparr>"

definition add_times :: "sdp_time_descr list \<Rightarrow> sdp_message \<Rightarrow> sdp_message" where
  "add_times ts sdp = sdp\<lparr>t_descrs := t_descrs sdp @ ts\<rparr>"

definition repeats_text :: "string list \<Rightarrow> string" where
  "repeats_text rs = concat (map (ln (CHR ''r'')) rs)"

definition times_text :: "sdp_time_descr list \<Rightarrow> string" where
  "times_text ts = concat (map (\<lambda>x. ln (CHR ''t'') (time_value x) @ repeats_text (r_repeats x)) ts)"

lemma heads_repeats: "heads ''r'' (repeats_text rs)"
  using heads_lines [of "CHR ''r''" "\<lambda>x. x" rs] by (simp add: repeats_text_def)

lemma heads_times: "heads ''t'' (times_text ts)"
  by (cases ts) (simp_all add: times_text_def)

lemma fold_repeats:
  "t_descrs sdp \<noteq> [] \<Longrightarrow> fold (\<lambda>v sdp. sdp\<lparr>t_descrs := butlast (t_descrs sdp) @ [last (t_descrs sdp)\<lparr>r_repeats := r_repeats (last (t_descrs sdp)) @ [v]\<rparr>]\<rparr>) rs sdp
     = add_repeats rs sdp"
  by (induction rs arbitrary: sdp) (simp_all add: add_repeats_def)

lemma repeats_read:
  assumes "list_all (plain []) rs" "rest_at s p (repeats_text rs @ t)" "repeats_text rs @ t \<noteq> []" "heads L t" "CHR ''r'' \<notin> set L" "letters L"
    "t_descrs sdp \<noteq> []"
  shows "all_of_end (CHR ''r'') sdp s p = Inr (if t = [] then Return 0 (add_repeats rs sdp) else Go (add_repeats rs sdp) (p + int (length (repeats_text rs))))"
  using all_of_end_read [of "CHR ''r''" rs "\<lambda>sdp. t_descrs sdp \<noteq> []" "\<lambda>x. x"
      "\<lambda>v sdp. sdp\<lparr>t_descrs := butlast (t_descrs sdp) @ [last (t_descrs sdp)\<lparr>r_repeats := r_repeats (last (t_descrs sdp)) @ [v]\<rparr>]\<rparr>" s p t L sdp]
    assms
  by (simp add: repeats_text_def letters_def fold_repeats list_all_iff reads_values(7))

text \<open>A time line is read, and the repetitions behind it.\<close>

lemma one_time: "add_repeats (r_repeats x) (sdp\<lparr>t_descrs := t_descrs sdp @ [x\<lparr>r_repeats := []\<rparr>]\<rparr>) = add_times [x] sdp"
  by (simp add: add_repeats_def add_times_def)

lemma add_times_simps [simp]: "add_times ys (add_times xs sdp) = add_times (xs @ ys) sdp" "add_times [] sdp = sdp"
  "t_descrs (add_times xs sdp) = t_descrs sdp @ xs"
  by (simp_all add: add_times_def)

lemma add_repeats_Nil: "t_descrs sdp \<noteq> [] \<Longrightarrow> add_repeats [] sdp = sdp"
  by (simp add: add_repeats_def)

lemma add_repeats_some: "t_descrs (add_repeats rs sdp) \<noteq> []"
  by (simp add: add_repeats_def)

lemma more_times_read:
  assumes "list_all printable_time ts" "list_all (plain []) rs" "rest_at s p (repeats_text rs @ times_text ts @ t)"
    "repeats_text rs @ times_text ts @ t \<noteq> []" "heads L t" "CHR ''r'' \<notin> set L" "CHR ''t'' \<notin> set L" "letters L" "t_descrs sdp \<noteq> []"
  shows "more_times sdp s p = Inr (if t = [] then Return 0 (add_times ts (add_repeats rs sdp))
      else Go (add_times ts (add_repeats rs sdp)) (p + int (length (repeats_text rs @ times_text ts))))"
  using assms
proof (induction ts arbitrary: rs sdp p)
  case Nil
  let ?q = "p + int (length (repeats_text rs))"
  have r: "rest_at s p (repeats_text rs @ t)" using Nil.prems(3) by (simp add: times_text_def)
  then have "all_of_end (CHR ''r'') sdp s p = Inr (if t = [] then Return 0 (add_repeats rs sdp) else Go (add_repeats rs sdp) ?q)"
    using Nil.prems by (intro repeats_read) (simp_all add: times_text_def)
  moreover note q = rest_at_skip [OF r refl]
  have "t \<noteq> [] \<Longrightarrow> sdp_message_parse_t (add_repeats rs sdp) s ?q = Inr (0, add_repeats rs sdp, ?q)"
    using other_read [OF q _ Nil.prems(5,7,8)] by (simp add: parse_t_reader letters_def)
  moreover note or_end_read [OF q Nil.prems(5,8)]
  ultimately show ?case by (subst more_times.simps) (simp add: thenF_def times_text_def)
next
  case (Cons x xs)
  let ?q = "p + int (length (repeats_text rs))" and ?line = "ln (CHR ''t'') (time_value x)"
  let ?more = "repeats_text (r_repeats x) @ times_text xs" and ?sdp = "add_repeats rs sdp"
  let ?sdp2 = "?sdp\<lparr>t_descrs := t_descrs ?sdp @ [x\<lparr>r_repeats := []\<rparr>]\<rparr>" and ?q2 = "?q + int (length ?line)"
  have r: "rest_at s p (repeats_text rs @ ?line @ ?more @ t)" using Cons.prems(3) by (simp add: times_text_def)
  have "all_of_end (CHR ''r'') sdp s p = Inr (if ?line @ ?more @ t = [] then Return 0 ?sdp else Go ?sdp ?q)"
    using Cons.prems by (intro repeats_read [OF _ r, of "''t''"]) (simp_all add: letters_def ln_def heads_def)
  then have 1: "all_of_end (CHR ''r'') sdp s p = Inr (Go ?sdp ?q)" by (simp add: ln_def)
  have q: "rest_at s ?q (?line @ ?more @ t)" by (rule rest_at_skip [OF r refl])
  have ok: "printable_time x" "list_all (plain []) (r_repeats x)" using Cons.prems(1) by (simp_all add: printable_time_def)
  have 2: "sdp_message_parse_t ?sdp s ?q = Inr (1, ?sdp2, ?q2)"
    using reads_at [OF reads_time [OF ok(1)] TrueI q] by (simp add: parse_t_reader)
  have q2: "rest_at s ?q2 (?more @ t)" by (rule rest_at_skip [OF q refl])
  have h: "heads (''r'' @ ''t'' @ L) (?more @ t)" unfolding append.assoc by (intro heads_append heads_repeats heads_times Cons.prems)
  have 3: "or_end_here ?sdp2 s ?q2 = Inr (if ?more @ t = [] then Return 0 ?sdp2 else Go ?sdp2 ?q2)"
    by (rule or_end_read [OF q2 h]) (simp only: letters_append Cons.prems(8), simp add: letters_def)
  have 4: "add_times xs (add_repeats (r_repeats x) ?sdp2) = add_times (x # xs) ?sdp" by (simp add: one_time)
  show ?case
  proof (cases "?more @ t = []")
    case True
    then have "xs = []" "r_repeats x = []" "t = []" by (auto simp: times_text_def repeats_text_def ln_def)
    moreover from this have "?sdp2 = add_times (x # xs) ?sdp" using 4 by (simp add: add_repeats_Nil)
    ultimately show ?thesis using 1 2 3 True by (subst more_times.simps) (simp add: thenF_def)
  next
    case False
    have "more_times ?sdp2 s ?q2 = Inr (if t = [] then Return 0 (add_times (x # xs) ?sdp) else Go (add_times (x # xs) ?sdp) (?q2 + int (length ?more)))"
      unfolding 4 [symmetric] using Cons.prems ok(2) q2 False by (intro Cons.IH) simp_all
    moreover from 3 False have "or_end_here ?sdp2 s ?q2 = Inr (Go ?sdp2 ?q2)" by (simp only: if_False)
    ultimately show ?thesis using 1 2 by (subst more_times.simps) (simp add: thenF_def times_text_def)
  qed
qed

definition times_steps :: "sdp_step \<Rightarrow> sdp_step" where
  "times_steps G sdp s p =
     thenF (mandatory (CHR ''t'') sdp s p) (\<lambda>sdp p. thenF (or_end_here sdp s p) (\<lambda>sdp p. thenF (all_of_end (CHR ''r'') sdp s p) (\<lambda>sdp p.
     thenF (optional_end (CHR ''t'') sdp s p) (\<lambda>sdp p. thenF (more_times sdp s p) (\<lambda>sdp p. G sdp s p)))))"

lemma next_time_read:
  assumes "list_all printable_time ts" "rest_at s p (times_text ts @ v)" "times_text ts @ v \<noteq> []" "heads L v" "CHR ''r'' \<notin> set L" "CHR ''t'' \<notin> set L"
    "letters L" "t_descrs sdp \<noteq> []" "\<And>sdp p. rest_at s p v \<Longrightarrow> v \<noteq> [] \<Longrightarrow> G sdp s p = Inr (Return 0 (h sdp))" "v = [] \<Longrightarrow> h = id"
  shows "thenF (optional_end (CHR ''t'') sdp s p) (\<lambda>sdp p. thenF (more_times sdp s p) (\<lambda>sdp p. G sdp s p)) = Inr (Return 0 (h (add_times ts sdp)))"
proof (cases ts)
  case Nil
  then have v: "rest_at s p v" "v \<noteq> []" using assms(2,3) by (simp_all add: times_text_def)
  have "optional_end (CHR ''t'') sdp s p = Inr (Go sdp p)"
    using other_read [OF v assms(4,6,7), of sdp] or_end_read [OF v(1) assms(4,7), of sdp] v(2)
    by (simp add: optional_end_def optional_def thenF_def letters_def)
  moreover have "more_times sdp s p = Inr (Go sdp p)"
    using more_times_read [of "[]" "[]" s p v L sdp] v assms(4-8) by (simp add: repeats_text_def times_text_def add_repeats_Nil)
  ultimately show ?thesis using assms(9) [OF v] Nil by (simp add: thenF_def)
next
  case (Cons x xs)
  let ?line = "ln (CHR ''t'') (time_value x)" and ?more = "repeats_text (r_repeats x) @ times_text xs"
  let ?sdp2 = "sdp\<lparr>t_descrs := t_descrs sdp @ [x\<lparr>r_repeats := []\<rparr>]\<rparr>" and ?q = "p + int (length ?line)"
  have r: "rest_at s p (?line @ ?more @ v)" using assms(2) Cons by (simp add: times_text_def)
  have ok: "printable_time x" "list_all (plain []) (r_repeats x)" using assms(1) Cons by (simp_all add: printable_time_def)
  have q: "rest_at s ?q (?more @ v)" by (rule rest_at_skip [OF r refl])
  have h: "heads (''r'' @ ''t'' @ L) (?more @ v)" unfolding append.assoc by (intro heads_append heads_repeats heads_times assms)
  have "or_end_here ?sdp2 s ?q = Inr (if ?more @ v = [] then Return 0 ?sdp2 else Go ?sdp2 ?q)"
    by (rule or_end_read [OF q h]) (simp only: letters_append assms(7), simp add: letters_def)
  moreover have "optional (CHR ''t'') sdp s p = Inr (Go ?sdp2 ?q)"
    using reads_at [OF reads_time [OF ok(1)] TrueI r] by (simp add: optional_def)
  ultimately have 1: "optional_end (CHR ''t'') sdp s p = Inr (if ?more @ v = [] then Return 0 ?sdp2 else Go ?sdp2 ?q)"
    by (simp only: optional_end_def thenF_def bindR.simps sdp_flow.case)
  have 2: "add_times xs (add_repeats (r_repeats x) ?sdp2) = add_times ts sdp" by (simp add: one_time Cons)
  show ?thesis
  proof (cases "?more @ v = []")
    case True
    then have e: "xs = []" "r_repeats x = []" "v = []" by (auto simp: times_text_def repeats_text_def ln_def)
    then have "?sdp2 = add_times ts sdp" using 2 by (simp add: add_repeats_Nil)
    with 1 True assms(10) e show ?thesis by (simp add: thenF_def)
  next
    case False
    let ?q2 = "?q + int (length ?more)"
    have "more_times ?sdp2 s ?q = Inr (if v = [] then Return 0 (add_times ts sdp) else Go (add_times ts sdp) ?q2)"
      unfolding 2 [symmetric] using assms Cons ok(2) q False by (intro more_times_read) simp_all
    moreover have "optional_end (CHR ''t'') sdp s p = Inr (Go ?sdp2 ?q)" using 1 False by (simp only: if_False)
    moreover have "v \<noteq> [] \<Longrightarrow> G (add_times ts sdp) s ?q2 = Inr (Return 0 (h (add_times ts sdp)))"
      by (rule assms(9) [OF rest_at_skip [OF q, simplified append.assoc]]) simp_all
    ultimately show ?thesis using assms(10) by (cases "v = []") (simp_all add: thenF_def)
  qed
qed

lemma times_finish:
  assumes "finishes D G v h" "list_all printable_time ts" "ts \<noteq> []" "CHR ''r'' \<notin> set D" "CHR ''t'' \<notin> set D"
  shows "finishes (''t'' @ ''r'' @ D) (times_steps G) (times_text ts @ v) (h \<circ> add_times ts)"
proof -
  obtain x xs where ts: "ts = x # xs" using assms(3) by (cases ts) auto
  let ?line = "ln (CHR ''t'') (time_value x)" and ?rs = "repeats_text (r_repeats x)"
  have D: "heads D v" "letters D" "v = [] \<Longrightarrow> h = id" "\<And>sdp s p. rest_at s p v \<Longrightarrow> v \<noteq> [] \<Longrightarrow> G sdp s p = Inr (Return 0 (h sdp))"
    using assms(1) by (simp_all add: finishes_def)
  have ok: "printable_time x" "list_all (plain []) (r_repeats x)" "list_all printable_time xs" using assms(2) ts by (simp_all add: printable_time_def)
  have "times_steps G sdp s p = Inr (Return 0 (h (add_times ts sdp)))" if "rest_at s p (times_text ts @ v)" for sdp s p
  proof -
    let ?sdp2 = "sdp\<lparr>t_descrs := t_descrs sdp @ [x\<lparr>r_repeats := []\<rparr>]\<rparr>" and ?q = "p + int (length ?line)"
    have r: "rest_at s p (?line @ ?rs @ times_text xs @ v)" using that ts by (simp add: times_text_def)
    have 1: "mandatory (CHR ''t'') sdp s p = Inr (Go ?sdp2 ?q)"
      using reads_at [OF reads_time [OF ok(1)] TrueI r] by (simp add: mandatory_def)
    have q: "rest_at s ?q (?rs @ times_text xs @ v)" by (rule rest_at_skip [OF r refl])
    have h: "heads (''r'' @ ''t'' @ D) (?rs @ times_text xs @ v)" by (intro heads_append heads_repeats heads_times D)
    have 2: "or_end_here ?sdp2 s ?q = Inr (if ?rs @ times_text xs @ v = [] then Return 0 ?sdp2 else Go ?sdp2 ?q)"
      by (rule or_end_read [OF q h]) (simp only: letters_append D(2), simp add: letters_def)
    have 3: "add_repeats (r_repeats x) ?sdp2 = add_times [x] sdp" by (rule one_time)
    have t: "CHR ''r'' \<notin> set (''t'' @ D)" "letters (''t'' @ D)"
      unfolding letters_append using assms(4) D(2) by (simp_all add: letters_def)
    show ?thesis
    proof (cases "?rs @ times_text xs @ v = []")
      case True
      then have e: "xs = []" "r_repeats x = []" "v = []" by (auto simp: times_text_def repeats_text_def ln_def)
      then have "?sdp2 = add_times ts sdp" using 3 ts by (simp add: add_repeats_Nil)
      with 1 2 True D(3) e show ?thesis by (simp add: times_steps_def thenF_def)
    next
      case False
      let ?u = "times_text xs @ v" and ?q2 = "?q + int (length ?rs)"
      have 4: "all_of_end (CHR ''r'') ?sdp2 s ?q = Inr (if ?u = [] then Return 0 (add_times [x] sdp) else Go (add_times [x] sdp) ?q2)"
        unfolding 3 [symmetric]
        by (rule repeats_read [OF ok(2) q False heads_append [OF heads_times D(1)] t]) simp
      have 5: "or_end_here ?sdp2 s ?q = Inr (Go ?sdp2 ?q)" using 2 False by (simp only: if_False)
      show ?thesis
      proof (cases "?u = []")
        case True
        then have "xs = []" "v = []" by (auto simp: times_text_def ln_def)
        with 1 4 5 D(3) True ts show ?thesis by (simp add: times_steps_def thenF_def)
      next
        case False
        have "thenF (optional_end (CHR ''t'') (add_times [x] sdp) s ?q2) (\<lambda>sdp p. thenF (more_times sdp s p) (\<lambda>sdp p. G sdp s p))
            = Inr (Return 0 (h (add_times xs (add_times [x] sdp))))"
          by (rule next_time_read [OF ok(3) rest_at_skip [OF q refl] False D(1) assms(4,5) D(2) _ D(4) D(3)]) simp_all
        moreover have "all_of_end (CHR ''r'') ?sdp2 s ?q = Inr (Go (add_times [x] sdp) ?q2)" using 4 False by (simp only: if_False)
        ultimately show ?thesis using 1 5 ts by (simp add: times_steps_def thenF_def [of "Inr _"])
      qed
    qed
  qed
  moreover have "heads (''t'' @ ''r'' @ D) (times_text ts @ v)" by (simp add: times_text_def ts)
  moreover have "letters (''t'' @ ''r'' @ D)" unfolding letters_append using D(2) by (simp add: letters_def)
  moreover have "times_text ts \<noteq> []" by (simp add: times_text_def ts ln_def)
  ultimately show ?thesis by (simp add: finishes_def)
qed

section \<open>Media\<close>

definition printable_media :: "sdp_media \<Rightarrow> bool" where
  "printable_media m \<longleftrightarrow> printable_media_line m \<and> pred_option (plain []) (media_i_info m) \<and> list_all printable_connection (c_connections m) \<and>
     list_all printable_bandwidth (media_b_bandwidths m) \<and> pred_option printable_key (media_k_key m) \<and> list_all printable_attribute (media_a_attributes m)"

text \<open>Placing at the last of some media.\<close>

definition on_media :: "sdp_message \<Rightarrow> sdp_media list \<Rightarrow> sdp_media \<Rightarrow> sdp_message" where
  "on_media sdp ms m = sdp\<lparr>m_medias := ms @ [m]\<rparr>"

lemma place_on_media [simp]: "place g f (on_media sdp ms m) = on_media sdp ms (f m)"
  by (simp add: place_def on_media_def)

lemma fold_on_media [simp]: "fold (\<lambda>v. place (g v) (f v)) vs (on_media sdp ms m) = on_media sdp ms (fold f vs m)"
  by (induction vs arbitrary: m) simp_all

lemma fold_media_parts:
  "fold (\<lambda>c m. m\<lparr>c_connections := c_connections m @ [c]\<rparr>) cs m = m\<lparr>c_connections := c_connections m @ cs\<rparr>"
  "fold (\<lambda>b m. m\<lparr>media_b_bandwidths := media_b_bandwidths m @ [b]\<rparr>) bs m = m\<lparr>media_b_bandwidths := media_b_bandwidths m @ bs\<rparr>"
  "fold (\<lambda>a m. m\<lparr>media_a_attributes := media_a_attributes m @ [a]\<rparr>) as m = m\<lparr>media_a_attributes := media_a_attributes m @ as\<rparr>"
proof -
  show "fold (\<lambda>c m. m\<lparr>c_connections := c_connections m @ [c]\<rparr>) cs m = m\<lparr>c_connections := c_connections m @ cs\<rparr>"
    by (induction cs arbitrary: m) simp_all
  show "fold (\<lambda>b m. m\<lparr>media_b_bandwidths := media_b_bandwidths m @ [b]\<rparr>) bs m = m\<lparr>media_b_bandwidths := media_b_bandwidths m @ bs\<rparr>"
    by (induction bs arbitrary: m) simp_all
  show "fold (\<lambda>a m. m\<lparr>media_a_attributes := media_a_attributes m @ [a]\<rparr>) as m = m\<lparr>media_a_attributes := media_a_attributes m @ as\<rparr>"
    by (induction as arbitrary: m) simp_all
qed

abbreviation info_placed :: "string \<Rightarrow> sdp_message \<Rightarrow> sdp_message" where
  "info_placed v \<equiv> place (\<lambda>sdp. sdp\<lparr>i_info := Some v\<rparr>) (\<lambda>m. m\<lparr>media_i_info := Some v\<rparr>)"

abbreviation connection_placed :: "sdp_connection \<Rightarrow> sdp_message \<Rightarrow> sdp_message" where
  "connection_placed c \<equiv> place (\<lambda>sdp. sdp\<lparr>c_connection := Some c\<rparr>) (\<lambda>m. m\<lparr>c_connections := c_connections m @ [c]\<rparr>)"

abbreviation bandwidth_placed :: "sdp_bandwidth \<Rightarrow> sdp_message \<Rightarrow> sdp_message" where
  "bandwidth_placed b \<equiv> place (\<lambda>sdp. sdp\<lparr>b_bandwidths := b_bandwidths sdp @ [b]\<rparr>) (\<lambda>m. m\<lparr>media_b_bandwidths := media_b_bandwidths m @ [b]\<rparr>)"

abbreviation key_placed :: "sdp_key \<Rightarrow> sdp_message \<Rightarrow> sdp_message" where
  "key_placed k \<equiv> place (\<lambda>sdp. sdp\<lparr>k_key := Some k\<rparr>) (\<lambda>m. m\<lparr>media_k_key := Some k\<rparr>)"

abbreviation attribute_placed :: "sdp_attribute \<Rightarrow> sdp_message \<Rightarrow> sdp_message" where
  "attribute_placed a \<equiv> place (\<lambda>sdp. sdp\<lparr>a_attributes := a_attributes sdp @ [a]\<rparr>) (\<lambda>m. m\<lparr>media_a_attributes := media_a_attributes m @ [a]\<rparr>)"

text \<open>The lines of a media behind its first one.\<close>

definition media_lines :: "sdp_media \<Rightarrow> string" where
  "media_lines m = opt_text (\<lambda>x. ln (CHR ''i'') x) (media_i_info m) @ concat (map (\<lambda>c. ln (CHR ''c'') (connection_value c)) (c_connections m)) @
     concat (map (\<lambda>b. ln (CHR ''b'') (bandwidth_value b)) (media_b_bandwidths m)) @ opt_text (\<lambda>k. ln (CHR ''k'') (key_value k)) (media_k_key m) @
     concat (map (\<lambda>a. ln (CHR ''a'') (attribute_value a)) (media_a_attributes m))"

definition media_parts :: "sdp_media \<Rightarrow> sdp_message \<Rightarrow> sdp_message" where
  "media_parts m = fold attribute_placed (media_a_attributes m) \<circ> (case media_k_key m of None \<Rightarrow> id | Some k \<Rightarrow> key_placed k) \<circ>
     fold bandwidth_placed (media_b_bandwidths m) \<circ> fold connection_placed (c_connections m) \<circ>
     (case media_i_info m of None \<Rightarrow> id | Some v \<Rightarrow> info_placed v)"

lemma media_parts_placed: "media_parts m (on_media sdp ms (bare_media m)) = sdp\<lparr>m_medias := ms @ [m]\<rparr>"
proof -
  have "media_parts m (on_media sdp ms (bare_media m)) = on_media sdp ms m"
    by (cases m) (auto simp: media_parts_def bare_media_def sdp_media_init_def fold_media_parts split: option.split)
  then show ?thesis by (simp add: on_media_def)
qed

definition media_steps :: "sdp_step \<Rightarrow> sdp_step" where
  "media_steps G sdp s ptr = thenF (optional_end (CHR ''i'') sdp s ptr) (\<lambda>sdp ptr.
         thenF (all_of_end (CHR ''c'') sdp s ptr) (\<lambda>sdp ptr.
         thenF (all_of_end (CHR ''b'') sdp s ptr) (\<lambda>sdp ptr.
         thenF (optional_end (CHR ''k'') sdp s ptr) (\<lambda>sdp ptr.
         thenF (all_of_end (CHR ''a'') sdp s ptr) (\<lambda>sdp ptr. G sdp s ptr)))))"

lemma media_steps_finish:
  assumes "printable_media m" "finishes ''m'' G v h"
  shows "finishes (''i'' @ ''c'' @ ''b'' @ ''k'' @ ''a'' @ ''m'') (media_steps G) (media_lines m @ v) (h \<circ> media_parts m)"
proof -
  have ok: "pred_option (plain []) (media_i_info m)" "list_all printable_connection (c_connections m)"
     "list_all printable_bandwidth (media_b_bandwidths m)" "pred_option printable_key (media_k_key m)" "list_all printable_attribute (media_a_attributes m)"
    using assms(1) by (simp_all add: printable_media_def)
  have "finishes (''i'' @ ''c'' @ ''b'' @ ''k'' @ ''a'' @ ''m'') (\<lambda>sdp s ptr. media_steps G sdp s ptr)
      (opt_text (\<lambda>x. ln (CHR ''i'') x) (media_i_info m) @ concat (map (\<lambda>c. ln (CHR ''c'') (connection_value c)) (c_connections m)) @
     concat (map (\<lambda>b. ln (CHR ''b'') (bandwidth_value b)) (media_b_bandwidths m)) @ opt_text (\<lambda>k. ln (CHR ''k'') (key_value k)) (media_k_key m) @
     concat (map (\<lambda>a. ln (CHR ''a'') (attribute_value a)) (media_a_attributes m)) @ v)
     (h \<circ> fold attribute_placed (media_a_attributes m) \<circ> (case media_k_key m of None \<Rightarrow> id | Some k \<Rightarrow> key_placed k) \<circ>
     fold bandwidth_placed (media_b_bandwidths m) \<circ> fold connection_placed (c_connections m) \<circ>
     (case media_i_info m of None \<Rightarrow> id | Some v \<Rightarrow> info_placed v))"
    unfolding media_steps_def
    by (intro consumes_end_then optional_consumes_end all_of_consumes_end assms(2) reads_values(2) reads_connection reads_bandwidth reads_key reads_attribute)
      (use ok in \<open>simp_all add: letters_def list_all_iff\<close>)
  then show ?thesis by (simp add: media_lines_def media_parts_def o_assoc)
qed

definition medias_text :: "sdp_media list \<Rightarrow> string" where
  "medias_text ms = concat (map (\<lambda>m. ln (CHR ''m'') (media_value m) @ media_lines m) ms)"

definition add_medias :: "sdp_media list \<Rightarrow> sdp_message \<Rightarrow> sdp_message" where
  "add_medias ms sdp = sdp\<lparr>m_medias := m_medias sdp @ ms\<rparr>"

lemma medias_finish: "list_all printable_media ms \<Longrightarrow> finishes ''m'' all_medias (medias_text ms) (add_medias ms)"
proof (induction ms)
  case Nil
  have "add_medias [] = id" by (rule ext) (simp add: add_medias_def)
  then show ?case by (simp add: finishes_def medias_text_def letters_def id_def)
next
  case (Cons m ms)
  let ?line = "ln (CHR ''m'') (media_value m)"
  have ok: "printable_media m" "printable_media_line m" using Cons.prems by (simp_all add: printable_media_def)
  note rest = media_steps_finish [OF ok(1) Cons.IH] 
  have "all_medias sdp s p = Inr (Return 0 (add_medias (m # ms) sdp))" if r: "rest_at s p (?line @ media_lines m @ medias_text ms)" for sdp s p
  proof -
    let ?sdp = "sdp\<lparr>m_medias := m_medias sdp @ [bare_media m]\<rparr>" and ?q = "p + int (length ?line)"
    have 1: "sdp_message_parse_m sdp s p = Inr (1, ?sdp, ?q)"
      using reads_at [OF reads_media [OF ok(2)] TrueI r] by (simp add: parse_m_reader)
    have "thenF (or_end_here ?sdp s ?q) (\<lambda>sdp q. media_steps all_medias sdp s q) = Inr (Return 0 ((add_medias ms \<circ> media_parts m) ?sdp))"
      using Cons.prems by (intro finishes_or_end [OF rest rest_at_skip [OF r refl]]) simp
    also have "(add_medias ms \<circ> media_parts m) ?sdp = add_medias (m # ms) sdp"
      using media_parts_placed [of m sdp "m_medias sdp"] by (simp add: add_medias_def on_media_def)
    finally show ?thesis using 1 by (subst all_medias.simps) (simp add: media_steps_def)
  qed
  moreover have "medias_text (m # ms) = ?line @ media_lines m @ medias_text ms" by (simp add: medias_text_def)
  ultimately show ?case by (simp add: finishes_def letters_def ln_def heads_def)
qed

section \<open>A whole description\<close>

definition printable :: "sdp_message \<Rightarrow> bool" where
  "printable sdp \<longleftrightarrow> text_part [] (v_version sdp) \<and> printable_origin sdp \<and> pred_option (plain []) (s_name sdp) \<and> pred_option (plain []) (i_info sdp) \<and>
     pred_option (plain []) (u_uri sdp) \<and> list_all (plain []) (e_emails sdp) \<and> list_all (plain []) (p_phones sdp) \<and>
     pred_option printable_connection (c_connection sdp) \<and> list_all printable_bandwidth (b_bandwidths sdp) \<and>
     t_descrs sdp \<noteq> [] \<and> list_all printable_time (t_descrs sdp) \<and> pred_option (plain []) (z_adjustments sdp) \<and>
     pred_option printable_key (k_key sdp) \<and> list_all printable_attribute (a_attributes sdp) \<and> list_all printable_media (m_medias sdp)"

text \<open>The steps behind the origin.\<close>

definition session_steps :: sdp_step where
  "session_steps sdp s ptr =
     thenF (optional (CHR ''s'') sdp s ptr) (\<lambda>sdp ptr. thenF (optional (CHR ''i'') sdp s ptr) (\<lambda>sdp ptr.
     thenF (optional (CHR ''u'') sdp s ptr) (\<lambda>sdp ptr. thenF (all_of (CHR ''e'') sdp s ptr) (\<lambda>sdp ptr.
     thenF (all_of (CHR ''p'') sdp s ptr) (\<lambda>sdp ptr. thenF (optional (CHR ''c'') sdp s ptr) (\<lambda>sdp ptr.
     thenF (all_of (CHR ''b'') sdp s ptr) (\<lambda>sdp ptr. times_steps (\<lambda>sdp s ptr.
     thenF (optional_end (CHR ''z'') sdp s ptr) (\<lambda>sdp ptr. thenF (optional_end (CHR ''k'') sdp s ptr) (\<lambda>sdp ptr.
     thenF (all_of_end (CHR ''a'') sdp s ptr) (\<lambda>sdp ptr. all_medias sdp s ptr)))) sdp s ptr)))))))"

lemma flow_front:
  "sdp_flow_of sdp s ptr = thenF (mandatory (CHR ''v'') sdp s ptr) (\<lambda>sdp ptr. thenF (optional (CHR ''s'') sdp s ptr) (\<lambda>sdp ptr.
     thenF (mandatory (CHR ''o'') sdp s ptr) (\<lambda>sdp ptr. session_steps sdp s ptr)))"
  unfolding sdp_flow_of_def session_steps_def times_steps_def ..

definition session_text :: "sdp_message \<Rightarrow> string" where
  "session_text sdp = opt_text (\<lambda>x. ln (CHR ''s'') x) (s_name sdp) @ opt_text (\<lambda>x. ln (CHR ''i'') x) (i_info sdp) @
     opt_text (\<lambda>x. ln (CHR ''u'') x) (u_uri sdp) @ concat (map (\<lambda>x. ln (CHR ''e'') x) (e_emails sdp)) @
     concat (map (\<lambda>x. ln (CHR ''p'') x) (p_phones sdp)) @ opt_text (\<lambda>c. ln (CHR ''c'') (connection_value c)) (c_connection sdp) @
     concat (map (\<lambda>b. ln (CHR ''b'') (bandwidth_value b)) (b_bandwidths sdp)) @ times_text (t_descrs sdp) @
     opt_text (\<lambda>x. ln (CHR ''z'') x) (z_adjustments sdp) @ opt_text (\<lambda>k. ln (CHR ''k'') (key_value k)) (k_key sdp) @
     concat (map (\<lambda>a. ln (CHR ''a'') (attribute_value a)) (a_attributes sdp)) @ medias_text (m_medias sdp)"

definition session_parts :: "sdp_message \<Rightarrow> sdp_message \<Rightarrow> sdp_message" where
  "session_parts sdp = add_medias (m_medias sdp) \<circ> fold attribute_placed (a_attributes sdp) \<circ>
     (case k_key sdp of None \<Rightarrow> id | Some k \<Rightarrow> key_placed k) \<circ> (case z_adjustments sdp of None \<Rightarrow> id | Some v \<Rightarrow> \<lambda>sdp. sdp\<lparr>z_adjustments := Some v\<rparr>) \<circ>
     add_times (t_descrs sdp) \<circ> fold bandwidth_placed (b_bandwidths sdp) \<circ>
     (case c_connection sdp of None \<Rightarrow> id | Some c \<Rightarrow> connection_placed c) \<circ>
     fold (\<lambda>v sdp. sdp\<lparr>p_phones := p_phones sdp @ [v]\<rparr>) (p_phones sdp) \<circ> fold (\<lambda>v sdp. sdp\<lparr>e_emails := e_emails sdp @ [v]\<rparr>) (e_emails sdp) \<circ>
     (case u_uri sdp of None \<Rightarrow> id | Some v \<Rightarrow> \<lambda>sdp. sdp\<lparr>u_uri := Some v\<rparr>) \<circ>
     (case i_info sdp of None \<Rightarrow> id | Some v \<Rightarrow> info_placed v) \<circ> (case s_name sdp of None \<Rightarrow> id | Some v \<Rightarrow> \<lambda>sdp. sdp\<lparr>s_name := Some v\<rparr>)"

lemma times_text_Nil [simp]: "times_text ts = [] \<longleftrightarrow> ts = []"
  by (cases ts) (simp_all add: times_text_def ln_def)

lemma session_finish:
  assumes "printable sdp"
  shows "finishes ''siuepcbtrzkam'' session_steps (session_text sdp) (session_parts sdp)"
proof -
  have ok: "pred_option (plain []) (s_name sdp)" "pred_option (plain []) (i_info sdp)" "pred_option (plain []) (u_uri sdp)"
     "list_all (plain []) (e_emails sdp)" "list_all (plain []) (p_phones sdp)" "pred_option printable_connection (c_connection sdp)"
     "list_all printable_bandwidth (b_bandwidths sdp)" "t_descrs sdp \<noteq> []" "list_all printable_time (t_descrs sdp)"
     "pred_option (plain []) (z_adjustments sdp)" "pred_option printable_key (k_key sdp)" "list_all printable_attribute (a_attributes sdp)"
     "list_all printable_media (m_medias sdp)"
    using assms by (simp_all add: printable_def)
  have "finishes (''z'' @ ''k'' @ ''a'' @ ''m'') (\<lambda>sdp s ptr. thenF (optional_end (CHR ''z'') sdp s ptr) (\<lambda>sdp ptr. thenF (optional_end (CHR ''k'') sdp s ptr) (\<lambda>sdp ptr.
     thenF (all_of_end (CHR ''a'') sdp s ptr) (\<lambda>sdp ptr. all_medias sdp s ptr))))
     (opt_text (\<lambda>x. ln (CHR ''z'') x) (z_adjustments sdp) @ opt_text (\<lambda>k. ln (CHR ''k'') (key_value k)) (k_key sdp) @
     concat (map (\<lambda>a. ln (CHR ''a'') (attribute_value a)) (a_attributes sdp)) @ medias_text (m_medias sdp))
     (add_medias (m_medias sdp) \<circ> fold attribute_placed (a_attributes sdp) \<circ>
     (case k_key sdp of None \<Rightarrow> id | Some k \<Rightarrow> key_placed k) \<circ> (case z_adjustments sdp of None \<Rightarrow> id | Some v \<Rightarrow> \<lambda>sdp. sdp\<lparr>z_adjustments := Some v\<rparr>))"
    by (intro consumes_end_then optional_consumes_end all_of_consumes_end medias_finish reads_values reads_key reads_attribute)
      (use ok in \<open>simp_all add: letters_def list_all_iff\<close>)
  note tail = times_finish [OF this ok(9,8)]
  have "finishes (''s'' @ ''i'' @ ''u'' @ ''e'' @ ''p'' @ ''c'' @ ''b'' @ (''t'' @ ''r'' @ ''z'' @ ''k'' @ ''a'' @ ''m'')) (\<lambda>sdp s ptr. session_steps sdp s ptr) (session_text sdp)
      (session_parts sdp)"
    unfolding session_steps_def session_text_def session_parts_def
    by (intro consumes_then optional_consumes all_of_consumes reads_values reads_connection reads_bandwidth tail [unfolded o_assoc])
      (use ok in \<open>simp_all add: letters_def list_all_iff\<close>)
  then show ?thesis by simp
qed

lemma line_text_ln: "line_text ''s='' = ln (CHR ''s'')" "line_text ''i='' = ln (CHR ''i'')" "line_text ''u='' = ln (CHR ''u'')"
  "line_text ''e='' = ln (CHR ''e'')" "line_text ''p='' = ln (CHR ''p'')" "line_text ''z='' = ln (CHR ''z'')" "line_text ''r='' = ln (CHR ''r'')"
  "line_text ''v='' = ln (CHR ''v'')"
  by (simp_all add: fun_eq_iff line_text_def ln_def crlf_text_def)

lemma parts_text_ln:
  "connection_text c = ln (CHR ''c'') (connection_value c)" "bandwidth_text b = ln (CHR ''b'') (bandwidth_value b)"
  "time_text x = ln (CHR ''t'') (time_value x) @ repeats_text (r_repeats x)" "key_text k = ln (CHR ''k'') (key_value k)"
  "attribute_text a = ln (CHR ''a'') (attribute_value a)" "media_line m = ln (CHR ''m'') (media_value m)" "media_rest m = media_lines m"
  "origin_text sdp = ln (CHR ''o'') (origin_value sdp)"
proof -
  show c: "connection_text c = ln (CHR ''c'') (connection_value c)" for c
    by (simp add: connection_text_def connection_value_def ln_def crlf_text_def)
  show b: "bandwidth_text b = ln (CHR ''b'') (bandwidth_value b)" for b
    by (simp add: bandwidth_text_def bandwidth_value_def ln_def crlf_text_def)
  show "time_text x = ln (CHR ''t'') (time_value x) @ repeats_text (r_repeats x)"
    by (simp add: time_text_def time_value_def ln_def crlf_text_def repeats_text_def line_text_ln)
  show k: "key_text k = ln (CHR ''k'') (key_value k)" for k
    by (simp add: key_text_def key_value_def name_value_text_def pair_value_def ln_def crlf_text_def)
  show a: "attribute_text a = ln (CHR ''a'') (attribute_value a)" for a
    by (simp add: attribute_text_def attribute_value_def name_value_text_def pair_value_def ln_def crlf_text_def)
  show "media_line m = ln (CHR ''m'') (media_value m)"
    by (simp add: media_line_def media_value_def ln_def crlf_text_def)
  have "connection_text = (\<lambda>c. ln (CHR ''c'') (connection_value c))" "bandwidth_text = (\<lambda>b. ln (CHR ''b'') (bandwidth_value b))"
      "key_text = (\<lambda>k. ln (CHR ''k'') (key_value k))" "attribute_text = (\<lambda>a. ln (CHR ''a'') (attribute_value a))"
    by (simp_all add: fun_eq_iff a b c k)
  then show "media_rest m = media_lines m"
    by (simp add: media_rest_def media_lines_def line_text_ln)
  show "origin_text sdp = ln (CHR ''o'') (origin_value sdp)"
    by (simp add: origin_text_def origin_value_def ln_def crlf_text_def)
qed

lemma text_by_lines: "sdp_text_of sdp = ln (CHR ''v'') (the (v_version sdp)) @ ln (CHR ''o'') (origin_value sdp) @ session_text sdp"
proof -
  have "connection_text = (\<lambda>c. ln (CHR ''c'') (connection_value c))" "bandwidth_text = (\<lambda>b. ln (CHR ''b'') (bandwidth_value b))"
      "key_text = (\<lambda>k. ln (CHR ''k'') (key_value k))" "attribute_text = (\<lambda>a. ln (CHR ''a'') (attribute_value a))"
      "time_text = (\<lambda>x. ln (CHR ''t'') (time_value x) @ repeats_text (r_repeats x))"
      "media_text = (\<lambda>m. ln (CHR ''m'') (media_value m) @ media_lines m)"
    by (simp_all add: fun_eq_iff parts_text_ln media_text_def)
  then show ?thesis
    by (simp add: sdp_text_of_def session_text_def line_text_ln parts_text_ln times_text_def medias_text_def)
qed

text \<open>In front of the first media everything is placed in the session.\<close>

lemma place_in_session: "m_medias sdp = [] \<Longrightarrow> place g f sdp = g sdp"
  by (simp add: place_def)

lemma fold_in_session:
  "m_medias sdp = [] \<Longrightarrow> fold bandwidth_placed bs sdp = sdp\<lparr>b_bandwidths := b_bandwidths sdp @ bs\<rparr>"
  "m_medias sdp = [] \<Longrightarrow> fold attribute_placed as sdp = sdp\<lparr>a_attributes := a_attributes sdp @ as\<rparr>"
  "fold (\<lambda>v sdp. sdp\<lparr>p_phones := p_phones sdp @ [v]\<rparr>) vs sdp = sdp\<lparr>p_phones := p_phones sdp @ vs\<rparr>"
  "fold (\<lambda>v sdp. sdp\<lparr>e_emails := e_emails sdp @ [v]\<rparr>) vs sdp = sdp\<lparr>e_emails := e_emails sdp @ vs\<rparr>"
proof -
  show "m_medias sdp = [] \<Longrightarrow> fold bandwidth_placed bs sdp = sdp\<lparr>b_bandwidths := b_bandwidths sdp @ bs\<rparr>"
    by (induction bs arbitrary: sdp) (simp_all add: place_in_session)
  show "m_medias sdp = [] \<Longrightarrow> fold attribute_placed as sdp = sdp\<lparr>a_attributes := a_attributes sdp @ as\<rparr>"
    by (induction as arbitrary: sdp) (simp_all add: place_in_session)
  show "fold (\<lambda>v sdp. sdp\<lparr>p_phones := p_phones sdp @ [v]\<rparr>) vs sdp = sdp\<lparr>p_phones := p_phones sdp @ vs\<rparr>"
    by (induction vs arbitrary: sdp) simp_all
  show "fold (\<lambda>v sdp. sdp\<lparr>e_emails := e_emails sdp @ [v]\<rparr>) vs sdp = sdp\<lparr>e_emails := e_emails sdp @ vs\<rparr>"
    by (induction vs arbitrary: sdp) simp_all
qed

lemma all_parts:
  assumes "v_version sdp = Some v"
  shows "session_parts sdp (with_origin sdp (sdp_message_init\<lparr>v_version := Some v\<rparr>)) = sdp"
  unfolding session_parts_def
  by (cases sdp; cases "s_name sdp"; cases "i_info sdp"; cases "u_uri sdp"; cases "c_connection sdp"; cases "z_adjustments sdp"; cases "k_key sdp")
    (use assms in \<open>simp_all add: with_origin_def sdp_message_init_def fold_in_session place_in_session add_times_def add_medias_def\<close>)

lemma parse_printed:
  assumes "printable sdp"
  shows "sdp_message_parse sdp_message_init (sdp_text_of sdp) = Inr (0, sdp)"
proof -
  let ?s = "sdp_text_of sdp"
  obtain v where v: "v_version sdp = Some v" "plain [] v" using assms by (auto simp: printable_def elim!: text_partE)
  let ?vl = "ln (CHR ''v'') v" and ?ol = "ln (CHR ''o'') (origin_value sdp)" and ?init = "sdp_message_init\<lparr>v_version := Some v\<rparr>"
  have r: "rest_at ?s 0 (?vl @ ?ol @ session_text sdp)" by (simp add: rest_at_def text_by_lines v)
  let ?p = "int (length ?vl)" let ?q = "?p + int (length ?ol)"
  have r1: "rest_at ?s ?p (?ol @ session_text sdp)" by (rule rest_at_skip [OF r]) simp
  have r2: "rest_at ?s ?q (session_text sdp)" by (rule rest_at_skip [OF r1 refl])
  have "sdp_field (CHR ''v'') (\<lambda>sdp s equal eol. bindR (sdp_value s equal eol) (\<lambda>v. Inr (True, sdp\<lparr>v_version := Some v\<rparr>))) sdp_message_init ?s 0
      = Inr (1, ?init, 0 + ?p)"
    by (rule sdp_field_read [OF r]) (use v value_read [of ?s 0 v] in simp_all)
  moreover have "skip_chars (\<lambda>c. c \<noteq> CHR ''='') ?s 0 = Inr (0 + int (length ''v''))"
    by (rule rest_at_skip_chars [of _ _ _ "''='' @ v @ CR # LF # ?ol @ session_text sdp"]) (use r in \<open>simp_all add: ln_def\<close>)
  moreover have "rd ?s 1 = Inr (CHR ''='')"
    by (rule rest_at_rd [of _ _ _ "v @ CR # LF # ?ol @ session_text sdp"], rule rest_at_skip [of ?s 0 "''v''"]) (use r in \<open>simp_all add: ln_def\<close>)
  ultimately have 1: "mandatory (CHR ''v'') sdp_message_init ?s 0 = Inr (Go ?init ?p)"
    by (simp add: mandatory_def sdp_reader_of_def sdp_message_parse_v_def)
  have "optional (CHR ''s'') ?init ?s ?p = Inr (Go ?init ?p)"
    using other_read [OF r1, of "''o''" "CHR ''s''" ?init] by (simp add: optional_def letters_def ln_def heads_def)
  moreover have "mandatory (CHR ''o'') ?init ?s ?p = Inr (Go (with_origin sdp ?init) ?q)"
    using reads_at [OF reads_origin TrueI r1] assms by (simp add: mandatory_def printable_def)
  moreover have "session_text sdp \<noteq> []" using assms by (simp add: session_text_def printable_def)
  moreover have "session_steps (with_origin sdp ?init) ?s ?q = Inr (Return 0 (session_parts sdp (with_origin sdp ?init)))"
    using session_finish [OF assms] r2 calculation(3) by (simp add: finishes_def)
  ultimately have "sdp_flow_of sdp_message_init ?s 0 = Inr (Return 0 sdp)"
    using 1 by (simp add: flow_front thenF_def all_parts [OF v(1)])
  then show ?thesis by (simp add: sdp_message_parse_def)
qed

lemma printable_complete: 
  assumes "printable sdp" shows "sdp_ok sdp"
proof -
  have "connection_ok c" if "printable_connection c" for c using that by (simp add: connection_ok_def printable_connection_def text_part_def)
  moreover have "bandwidth_ok b" if "printable_bandwidth b" for b using that by (simp add: bandwidth_ok_def printable_bandwidth_def text_part_def)
  moreover have "time_ok x" if "printable_time x" for x using that by (simp add: time_ok_def printable_time_def text_part_def)
  moreover have "key_ok k" if "printable_key k" for k using that by (simp add: key_ok_def printable_key_def printable_pair_def text_part_def)
  moreover have "attribute_ok a" if "printable_attribute a" for a using that by (simp add: attribute_ok_def printable_attribute_def printable_pair_def text_part_def)
  moreover have "media_ok m" if "printable_media m" for m
    using that calculation by (cases "media_k_key m") (simp_all add: media_ok_def printable_media_def printable_media_line_def text_part_def list_all_iff)
  ultimately show ?thesis
    using assms by (cases "c_connection sdp"; cases "k_key sdp")
      (simp_all add: sdp_ok_def parts_ok_def origin_ok_def printable_def printable_origin_def text_part_def list_all_iff)
qed

text \<open>
  Claim C24: a session description whose values are free of line ends and of the separators of their lines, with at
  least one time, survives being printed and read: when its text fits the printer's block, the text is read back
  as the same description, every media with its own lines, and a copy of the description is equal to it.
\<close>

theorem sdp_print_parse:
  assumes "printable sdp" "length (sdp_text_of sdp) < 4000"
  shows "\<exists>s. sdp_message_to_str sdp = Inr (Some s) \<and> sdp_message_parse sdp_message_init s = Inr (0, sdp) \<and>
    sdp_message_clone sdp = Inr (Some sdp)"
  using to_str_prints [OF printable_complete [OF assms(1)]] parse_printed [OF assms(1)] assms(2)
  by (simp add: sdp_message_clone_def bindO_def)

text \<open>A description with an audio media, as the program sends it.\<close>

definition example_sdp :: sdp_message where
  "example_sdp = sdp_message_init\<lparr>v_version := Some ''0'', o_username := Some ''furikup'', o_sess_id := Some ''123'', o_sess_version := Some ''1'',
     o_nettype := Some ''IN'', o_addrtype := Some ''IP4'', o_addr := Some ''10.0.0.2'', s_name := Some ''conversation'',
     c_connection := Some \<lparr>c_nettype = Some ''IN'', c_addrtype = Some ''IP4'', c_addr = Some ''10.0.0.2'', c_addr_multicast_ttl = None, c_addr_multicast_int = None\<rparr>,
     t_descrs := [\<lparr>t_start_time = Some ''0'', t_stop_time = Some ''0'', r_repeats = []\<rparr>],
     m_medias := [sdp_media_init\<lparr>m_media := Some ''audio'', m_port := Some ''10500'', m_proto := Some ''RTP/AVP'', m_payloads := [''0'', ''8''],
       media_a_attributes := [\<lparr>a_att_field = Some ''rtpmap'', a_att_value = Some ''0 PCMU/8000''\<rparr>]\<rparr>]\<rparr>"

theorem sdp_print_parse_witness:
  "\<exists>s. sdp_message_to_str example_sdp = Inr (Some s) \<and> sdp_message_parse sdp_message_init s = Inr (0, example_sdp) \<and>
    sdp_message_clone example_sdp = Inr (Some example_sdp)"
proof (rule sdp_print_parse)
  show "printable example_sdp"
    by (simp add: example_sdp_def sdp_message_init_def sdp_media_init_def printable_def printable_origin_def printable_connection_def
        printable_time_def printable_media_def printable_media_line_def printable_attribute_def printable_pair_def text_part_def plain_def)
  show "length (sdp_text_of example_sdp) < 4000"
    by (simp add: example_sdp_def sdp_message_init_def sdp_media_init_def text_by_lines session_text_def ln_def origin_value_def connection_value_def
        times_text_def time_value_def repeats_text_def medias_text_def media_value_def media_lines_def attribute_value_def pair_value_def opt_text_def)
qed

end
