(* ===== verification/Osip_Md5.thy ===== *)
theory Osip_Md5
  imports Furikup_Prelude "HOL-Library.Word"
begin

text \<open>
  The MD5 digest (osipparser2: osip_md5c.c), on 32-bit words and bytes: the context, the transformation of one
  block, and feeding a text in pieces; and the digest of RFC 1321, to which it is equal.

  The indices into the input are \<open>unsigned int\<close>; they do not wrap for a piece below \<open>2 ^ 32 - 64\<close> bytes.
\<close>

unbundle bit_operations_syntax

type_synonym UINT4 = "32 word"
type_synonym byte = "8 word"
type_synonym md5_state = "UINT4 \<times> UINT4 \<times> UINT4 \<times> UINT4"

record MD5_CTX =
  md5_state :: md5_state
  md5_count :: "UINT4 \<times> UINT4"
  md5_buffer :: "byte list"

section \<open>Words and bytes\<close>

definition Encode1 :: "UINT4 \<Rightarrow> byte list" where
  "Encode1 w = [ucast (w AND 0xff), ucast (drop_bit 8 w AND 0xff), ucast (drop_bit 16 w AND 0xff), ucast (drop_bit 24 w AND 0xff)]"

definition Encode :: "UINT4 list \<Rightarrow> byte list" where
  "Encode ws = concat (map Encode1 ws)"

text \<open>The sixteen words of a block.\<close>

definition Decode :: "byte list \<Rightarrow> UINT4 list" where
  "Decode bs = map (\<lambda>i. ucast (bs ! (4 * i)) OR push_bit 8 (ucast (bs ! (4 * i + 1))) OR push_bit 16 (ucast (bs ! (4 * i + 2))) OR
     push_bit 24 (ucast (bs ! (4 * i + 3)))) [0..<16]"

text \<open>Copying \<open>n\<close> bytes of \<open>inp\<close> from \<open>j\<close> on to \<open>out\<close> from \<open>i\<close> on.\<close>

definition MD5_memcpy :: "byte list \<Rightarrow> nat \<Rightarrow> byte list \<Rightarrow> nat \<Rightarrow> nat \<Rightarrow> byte list res" where
  "MD5_memcpy out i inp j n =
     (if length inp < j + n then Inl Out_of_bounds else if length out < i + n then Inl Buffer_overflow
      else Inr (take i out @ take n (drop j inp) @ drop (i + n) out))"

section \<open>The transformation\<close>

definition F :: "UINT4 \<Rightarrow> UINT4 \<Rightarrow> UINT4 \<Rightarrow> UINT4" where
  "F x y z = (x AND y) OR (NOT x AND z)"

definition G :: "UINT4 \<Rightarrow> UINT4 \<Rightarrow> UINT4 \<Rightarrow> UINT4" where
  "G x y z = (x AND z) OR (y AND NOT z)"

definition H :: "UINT4 \<Rightarrow> UINT4 \<Rightarrow> UINT4 \<Rightarrow> UINT4" where
  "H x y z = x XOR y XOR z"

definition I :: "UINT4 \<Rightarrow> UINT4 \<Rightarrow> UINT4 \<Rightarrow> UINT4" where
  "I x y z = y XOR (x OR NOT z)"

definition ROTATE_LEFT :: "UINT4 \<Rightarrow> nat \<Rightarrow> UINT4" where
  "ROTATE_LEFT x n = push_bit n x OR drop_bit (32 - n) x"

text \<open>The new value of the first of the four words.\<close>

definition FF :: "UINT4 \<Rightarrow> nat \<Rightarrow> UINT4 \<Rightarrow> UINT4 \<Rightarrow> UINT4 \<Rightarrow> UINT4 \<Rightarrow> UINT4 \<Rightarrow> UINT4" where
  "FF x s ac a b c d = ROTATE_LEFT (a + (F b c d + x + ac)) s + b"

definition GG :: "UINT4 \<Rightarrow> nat \<Rightarrow> UINT4 \<Rightarrow> UINT4 \<Rightarrow> UINT4 \<Rightarrow> UINT4 \<Rightarrow> UINT4 \<Rightarrow> UINT4" where
  "GG x s ac a b c d = ROTATE_LEFT (a + (G b c d + x + ac)) s + b"

definition HH :: "UINT4 \<Rightarrow> nat \<Rightarrow> UINT4 \<Rightarrow> UINT4 \<Rightarrow> UINT4 \<Rightarrow> UINT4 \<Rightarrow> UINT4 \<Rightarrow> UINT4" where
  "HH x s ac a b c d = ROTATE_LEFT (a + (H b c d + x + ac)) s + b"

definition II :: "UINT4 \<Rightarrow> nat \<Rightarrow> UINT4 \<Rightarrow> UINT4 \<Rightarrow> UINT4 \<Rightarrow> UINT4 \<Rightarrow> UINT4 \<Rightarrow> UINT4" where
  "II x s ac a b c d = ROTATE_LEFT (a + (I b c d + x + ac)) s + b"

text \<open>Which of the words \<open>a\<close> to \<open>d\<close> a line of the function assigns, in terms of those behind it.\<close>

type_synonym md5_line = "UINT4 \<Rightarrow> UINT4 \<Rightarrow> UINT4 \<Rightarrow> UINT4 \<Rightarrow> UINT4"

fun on_a :: "md5_line \<Rightarrow> md5_state \<Rightarrow> md5_state" where
  "on_a f (a, b, c, d) = (f a b c d, b, c, d)"

fun on_d :: "md5_line \<Rightarrow> md5_state \<Rightarrow> md5_state" where
  "on_d f (a, b, c, d) = (a, b, c, f d a b c)"

fun on_c :: "md5_line \<Rightarrow> md5_state \<Rightarrow> md5_state" where
  "on_c f (a, b, c, d) = (a, b, f c d a b, d)"

fun on_b :: "md5_line \<Rightarrow> md5_state \<Rightarrow> md5_state" where
  "on_b f (a, b, c, d) = (a, f b c d a, c, d)"

definition round_1 :: "UINT4 list \<Rightarrow> (md5_state \<Rightarrow> md5_state) list" where
  "round_1 x =
     [on_a (FF (x ! 0) 7 0xd76aa478), on_d (FF (x ! 1) 12 0xe8c7b756), on_c (FF (x ! 2) 17 0x242070db), on_b (FF (x ! 3) 22 0xc1bdceee),
      on_a (FF (x ! 4) 7 0xf57c0faf), on_d (FF (x ! 5) 12 0x4787c62a), on_c (FF (x ! 6) 17 0xa8304613), on_b (FF (x ! 7) 22 0xfd469501),
      on_a (FF (x ! 8) 7 0x698098d8), on_d (FF (x ! 9) 12 0x8b44f7af), on_c (FF (x ! 10) 17 0xffff5bb1), on_b (FF (x ! 11) 22 0x895cd7be),
      on_a (FF (x ! 12) 7 0x6b901122), on_d (FF (x ! 13) 12 0xfd987193), on_c (FF (x ! 14) 17 0xa679438e), on_b (FF (x ! 15) 22 0x49b40821)]"

definition round_2 :: "UINT4 list \<Rightarrow> (md5_state \<Rightarrow> md5_state) list" where
  "round_2 x =
     [on_a (GG (x ! 1) 5 0xf61e2562), on_d (GG (x ! 6) 9 0xc040b340), on_c (GG (x ! 11) 14 0x265e5a51), on_b (GG (x ! 0) 20 0xe9b6c7aa),
      on_a (GG (x ! 5) 5 0xd62f105d), on_d (GG (x ! 10) 9 0x2441453), on_c (GG (x ! 15) 14 0xd8a1e681), on_b (GG (x ! 4) 20 0xe7d3fbc8),
      on_a (GG (x ! 9) 5 0x21e1cde6), on_d (GG (x ! 14) 9 0xc33707d6), on_c (GG (x ! 3) 14 0xf4d50d87), on_b (GG (x ! 8) 20 0x455a14ed),
      on_a (GG (x ! 13) 5 0xa9e3e905), on_d (GG (x ! 2) 9 0xfcefa3f8), on_c (GG (x ! 7) 14 0x676f02d9), on_b (GG (x ! 12) 20 0x8d2a4c8a)]"

definition round_3 :: "UINT4 list \<Rightarrow> (md5_state \<Rightarrow> md5_state) list" where
  "round_3 x =
     [on_a (HH (x ! 5) 4 0xfffa3942), on_d (HH (x ! 8) 11 0x8771f681), on_c (HH (x ! 11) 16 0x6d9d6122), on_b (HH (x ! 14) 23 0xfde5380c),
      on_a (HH (x ! 1) 4 0xa4beea44), on_d (HH (x ! 4) 11 0x4bdecfa9), on_c (HH (x ! 7) 16 0xf6bb4b60), on_b (HH (x ! 10) 23 0xbebfbc70),
      on_a (HH (x ! 13) 4 0x289b7ec6), on_d (HH (x ! 0) 11 0xeaa127fa), on_c (HH (x ! 3) 16 0xd4ef3085), on_b (HH (x ! 6) 23 0x4881d05),
      on_a (HH (x ! 9) 4 0xd9d4d039), on_d (HH (x ! 12) 11 0xe6db99e5), on_c (HH (x ! 15) 16 0x1fa27cf8), on_b (HH (x ! 2) 23 0xc4ac5665)]"

definition round_4 :: "UINT4 list \<Rightarrow> (md5_state \<Rightarrow> md5_state) list" where
  "round_4 x =
     [on_a (II (x ! 0) 6 0xf4292244), on_d (II (x ! 7) 10 0x432aff97), on_c (II (x ! 14) 15 0xab9423a7), on_b (II (x ! 5) 21 0xfc93a039),
      on_a (II (x ! 12) 6 0x655b59c3), on_d (II (x ! 3) 10 0x8f0ccc92), on_c (II (x ! 10) 15 0xffeff47d), on_b (II (x ! 1) 21 0x85845dd1),
      on_a (II (x ! 8) 6 0x6fa87e4f), on_d (II (x ! 15) 10 0xfe2ce6e0), on_c (II (x ! 6) 15 0xa3014314), on_b (II (x ! 13) 21 0x4e0811a1),
      on_a (II (x ! 4) 6 0xf7537e82), on_d (II (x ! 11) 10 0xbd3af235), on_c (II (x ! 2) 15 0x2ad7d2bb), on_b (II (x ! 9) 21 0xeb86d391)]"

fun add_state :: "md5_state \<Rightarrow> md5_state \<Rightarrow> md5_state" where
  "add_state (a, b, c, d) (a', b', c', d') = (a + a', b + b', c + c', d + d')"

text \<open>The block is the 64 bytes of the input from \<open>i\<close> on.\<close>

definition MD5Transform :: "md5_state \<Rightarrow> byte list \<Rightarrow> nat \<Rightarrow> md5_state res" where
  "MD5Transform st inp i =
     (if length inp < i + 64 then Inl Out_of_bounds
      else let x = Decode (take 64 (drop i inp)) in
        Inr (add_state st (fold (\<lambda>f. f) (round_1 x @ round_2 x @ round_3 x @ round_4 x) st)))"

section \<open>Feeding a text\<close>

definition MD5Init :: "MD5_CTX \<Rightarrow> MD5_CTX" where
  "MD5Init ctx = ctx\<lparr>md5_count := (0, 0), md5_state := (0x67452301, 0xefcdab89, 0x98badcfe, 0x10325476)\<rparr>"

text \<open>Blocks of the input itself, from \<open>i\<close> on; with where the last bytes start.\<close>

function md5_blocks :: "md5_state \<Rightarrow> byte list \<Rightarrow> nat \<Rightarrow> nat \<Rightarrow> (md5_state \<times> nat) res" where
  "md5_blocks st inp inputLen i =
     (if i + 63 < inputLen then bindR (MD5Transform st inp i) (\<lambda>st. md5_blocks st inp inputLen (i + 64)) else Inr (st, i))"
  by pat_completeness auto

termination md5_blocks
  by (relation "measure (\<lambda>(st, inp, n, i). n - i)") auto

declare md5_blocks.simps [simp del]

definition bytes_in_buffer :: "MD5_CTX \<Rightarrow> nat" where
  "bytes_in_buffer ctx = unat (drop_bit 3 (fst (md5_count ctx)) AND 0x3f)"

definition count_bits :: "UINT4 \<Rightarrow> UINT4 \<times> UINT4 \<Rightarrow> UINT4 \<times> UINT4" where
  "count_bits inputLen c =
     (let c0 = fst c + push_bit 3 inputLen; c1 = (if c0 < push_bit 3 inputLen then snd c + 1 else snd c) in (c0, c1 + drop_bit 29 inputLen))"

definition MD5Update :: "byte list \<Rightarrow> nat \<Rightarrow> MD5_CTX \<Rightarrow> MD5_CTX res" where
  "MD5Update inp inputLen ctx =
     (let index = bytes_in_buffer ctx; ctx = ctx\<lparr>md5_count := count_bits (word_of_nat inputLen) (md5_count ctx)\<rparr>; partLen = 64 - index in
      if partLen \<le> inputLen then
        bindR (MD5_memcpy (md5_buffer ctx) index inp 0 partLen) (\<lambda>buffer. bindR (MD5Transform (md5_state ctx) buffer 0) (\<lambda>st.
        bindR (md5_blocks st inp inputLen partLen) (\<lambda>(st, i). bindR (MD5_memcpy buffer 0 inp i (inputLen - i)) (\<lambda>buffer.
          Inr (ctx\<lparr>md5_state := st, md5_buffer := buffer\<rparr>)))))
      else bindR (MD5_memcpy (md5_buffer ctx) index inp 0 inputLen) (\<lambda>buffer. Inr (ctx\<lparr>md5_buffer := buffer\<rparr>)))"

definition PADDING :: "byte list" where
  "PADDING = 0x80 # replicate 63 0"

definition cleared_ctx :: MD5_CTX where
  "cleared_ctx = \<lparr>md5_state = (0, 0, 0, 0), md5_count = (0, 0), md5_buffer = replicate 64 0\<rparr>"

definition state_words :: "md5_state \<Rightarrow> UINT4 list" where
  "state_words st = (case st of (a, b, c, d) \<Rightarrow> [a, b, c, d])"

definition MD5Final :: "MD5_CTX \<Rightarrow> (byte list \<times> MD5_CTX) res" where
  "MD5Final ctx =
     (let bits = Encode [fst (md5_count ctx), snd (md5_count ctx)]; index = bytes_in_buffer ctx;
        padLen = (if index < 56 then 56 - index else 120 - index) in
      bindR (MD5Update PADDING padLen ctx) (\<lambda>ctx. bindR (MD5Update bits 8 ctx) (\<lambda>ctx.
        Inr (Encode (state_words (md5_state ctx)), cleared_ctx))))"

section \<open>The digest of RFC 1321\<close>

text \<open>The constants: the step \<open>i\<close> uses the integer part of \<open>2 ^ 32 * abs (sin (i + 1))\<close>.\<close>

definition md5_T :: "UINT4 list" where
  "md5_T =
     [0xd76aa478, 0xe8c7b756, 0x242070db, 0xc1bdceee, 0xf57c0faf, 0x4787c62a, 0xa8304613, 0xfd469501,
      0x698098d8, 0x8b44f7af, 0xffff5bb1, 0x895cd7be, 0x6b901122, 0xfd987193, 0xa679438e, 0x49b40821,
      0xf61e2562, 0xc040b340, 0x265e5a51, 0xe9b6c7aa, 0xd62f105d, 0x2441453, 0xd8a1e681, 0xe7d3fbc8,
      0x21e1cde6, 0xc33707d6, 0xf4d50d87, 0x455a14ed, 0xa9e3e905, 0xfcefa3f8, 0x676f02d9, 0x8d2a4c8a,
      0xfffa3942, 0x8771f681, 0x6d9d6122, 0xfde5380c, 0xa4beea44, 0x4bdecfa9, 0xf6bb4b60, 0xbebfbc70,
      0x289b7ec6, 0xeaa127fa, 0xd4ef3085, 0x4881d05, 0xd9d4d039, 0xe6db99e5, 0x1fa27cf8, 0xc4ac5665,
      0xf4292244, 0x432aff97, 0xab9423a7, 0xfc93a039, 0x655b59c3, 0x8f0ccc92, 0xffeff47d, 0x85845dd1,
      0x6fa87e4f, 0xfe2ce6e0, 0xa3014314, 0x4e0811a1, 0xf7537e82, 0xbd3af235, 0x2ad7d2bb, 0xeb86d391]"

definition md5_rotation :: "nat \<Rightarrow> nat" where
  "md5_rotation i = [7, 12, 17, 22, 5, 9, 14, 20, 4, 11, 16, 23, 6, 10, 15, 21] ! (4 * (i div 16) + i mod 4)"

definition md5_index :: "nat \<Rightarrow> nat" where
  "md5_index i = (if i < 16 then i else if i < 32 then (5 * i + 1) mod 16 else if i < 48 then (3 * i + 5) mod 16 else 7 * i mod 16)"

definition md5_function :: "nat \<Rightarrow> UINT4 \<Rightarrow> UINT4 \<Rightarrow> UINT4 \<Rightarrow> UINT4" where
  "md5_function i = (if i < 16 then F else if i < 32 then G else if i < 48 then H else I)"

fun md5_step :: "UINT4 list \<Rightarrow> nat \<Rightarrow> md5_state \<Rightarrow> md5_state" where
  "md5_step x i (a, b, c, d) =
     (d, b + ROTATE_LEFT (a + md5_function i b c d + x ! md5_index i + md5_T ! i) (md5_rotation i), b, c)"

definition md5_compress :: "byte list \<Rightarrow> md5_state \<Rightarrow> md5_state" where
  "md5_compress block st = add_state st (fold (md5_step (Decode block)) [0..<64] st)"

function in_blocks :: "byte list \<Rightarrow> byte list list" where
  "in_blocks bs = (if length bs < 64 then [] else take 64 bs # in_blocks (drop 64 bs))"
  by pat_completeness auto

termination in_blocks
  by (relation "measure length") auto

declare in_blocks.simps [simp del]

definition little_endian_8 :: "nat \<Rightarrow> byte list" where
  "little_endian_8 n = map (\<lambda>k. ucast (drop_bit (8 * k) (word_of_nat n :: 64 word))) [0..<8]"

text \<open>One bit, zeros up to 56 bytes in the last block, and the number of bits.\<close>

definition md5_padded :: "byte list \<Rightarrow> byte list" where
  "md5_padded bs = bs @ 0x80 # replicate ((119 - length bs mod 64) mod 64) 0 @ little_endian_8 (8 * length bs)"

definition md5_digest :: "byte list \<Rightarrow> byte list" where
  "md5_digest bs = Encode (state_words (fold md5_compress (in_blocks (md5_padded bs)) (0x67452301, 0xefcdab89, 0x98badcfe, 0x10325476)))"


section \<open>The unrolled rounds\<close>

text \<open>Four lines that assign \<open>a\<close>, \<open>d\<close>, \<open>c\<close> and \<open>b\<close> are four steps that turn the words round.\<close>

fun turn :: "md5_line \<Rightarrow> md5_state \<Rightarrow> md5_state" where
  "turn f (a, b, c, d) = (d, f a b c d, b, c)"

fun in_place :: "md5_line list \<Rightarrow> (md5_state \<Rightarrow> md5_state) list" where
  "in_place (f1 # f2 # f3 # f4 # fs) = on_a f1 # on_d f2 # on_c f3 # on_b f4 # in_place fs"
| "in_place fs = []"

lemma quad_length: "4 dvd length (f1 # f2 # f3 # f4 # fs) \<longleftrightarrow> 4 dvd length fs"
proof -
  have "length (f1 # f2 # f3 # f4 # fs) = length fs + 4" by simp
  then show ?thesis by (simp only: dvd_add_left_iff dvd_refl)
qed

lemma no_quad: "\<not> 4 dvd length [x]" "\<not> 4 dvd length [x, y]" "\<not> 4 dvd length [x, y, z]"
  by (simp_all, presburger+)

lemma fold_in_place: "4 dvd length fs \<Longrightarrow> fold (\<lambda>f. f) (in_place fs) st = fold turn fs st"
proof (induction fs arbitrary: st rule: in_place.induct)
  case (1 f1 f2 f3 f4 fs)
  obtain a b c d where st: "st = (a, b, c, d)" by (cases st) auto
  have "4 dvd length fs" using "1.prems" by (simp only: quad_length)
  with "1.IH" st show ?case by simp
qed (simp_all only: no_quad, simp)

lemma in_place_append: "4 dvd length fs \<Longrightarrow> in_place (fs @ gs) = in_place fs @ in_place gs"
proof (induction fs rule: in_place.induct)
  case (1 f1 f2 f3 f4 fs)
  have "4 dvd length fs" using "1.prems" by (simp only: quad_length)
  with "1.IH" show ?case by simp
qed (simp_all only: no_quad, simp)

definition md5_line_of :: "UINT4 list \<Rightarrow> nat \<Rightarrow> md5_line" where
  "md5_line_of x i a b c d = b + ROTATE_LEFT (a + md5_function i b c d + x ! md5_index i + md5_T ! i) (md5_rotation i)"

lemma turn_line: "turn (md5_line_of x i) = md5_step x i"
  by (rule ext) (auto simp: md5_line_of_def)

lemma line_macro:
  "md5_function i = F \<Longrightarrow> md5_line_of x i = FF (x ! md5_index i) (md5_rotation i) (md5_T ! i)"
  "md5_function i = G \<Longrightarrow> md5_line_of x i = GG (x ! md5_index i) (md5_rotation i) (md5_T ! i)"
  "md5_function i = H \<Longrightarrow> md5_line_of x i = HH (x ! md5_index i) (md5_rotation i) (md5_T ! i)"
  "md5_function i = I \<Longrightarrow> md5_line_of x i = II (x ! md5_index i) (md5_rotation i) (md5_T ! i)"
  by (simp_all add: fun_eq_iff md5_line_of_def FF_def GG_def HH_def II_def add_ac)

lemma upt_rounds:
  "[0..<16] = [0, 1, 2, 3, 4, 5, 6, 7, 8, 9, 10, 11, 12, 13, 14, 15]"
  "[16..<32] = [16, 17, 18, 19, 20, 21, 22, 23, 24, 25, 26, 27, 28, 29, 30, 31]"
  "[32..<48] = [32, 33, 34, 35, 36, 37, 38, 39, 40, 41, 42, 43, 44, 45, 46, 47]"
  "[48..<64] = [48, 49, 50, 51, 52, 53, 54, 55, 56, 57, 58, 59, 60, 61, 62, 63]"
  by (simp_all add: upt_rec)

lemma round_lines:
  "in_place (map (md5_line_of x) [0..<16]) = round_1 x"
  "in_place (map (md5_line_of x) [16..<32]) = round_2 x"
  "in_place (map (md5_line_of x) [32..<48]) = round_3 x"
  "in_place (map (md5_line_of x) [48..<64]) = round_4 x"
proof -
  show "in_place (map (md5_line_of x) [0..<16]) = round_1 x"
    by (simp add: upt_rounds round_1_def line_macro md5_function_def md5_index_def md5_rotation_def md5_T_def)
  show "in_place (map (md5_line_of x) [16..<32]) = round_2 x"
    by (simp add: upt_rounds round_2_def line_macro md5_function_def md5_index_def md5_rotation_def md5_T_def)
  show "in_place (map (md5_line_of x) [32..<48]) = round_3 x"
    by (simp add: upt_rounds round_3_def line_macro md5_function_def md5_index_def md5_rotation_def md5_T_def)
  show "in_place (map (md5_line_of x) [48..<64]) = round_4 x"
    by (simp add: upt_rounds round_4_def line_macro md5_function_def md5_index_def md5_rotation_def md5_T_def)
qed

lemma all_rounds: "fold (\<lambda>f. f) (round_1 x @ round_2 x @ round_3 x @ round_4 x) st = fold (md5_step x) [0..<64] st"
proof -
  let ?l = "map (md5_line_of x)"
  have u: "[0..<64] = [0..<16] @ [16..<32] @ [32..<48] @ [48..<64]"
    using upt_add_eq_append [of 0 16 48] upt_add_eq_append [of 16 32 32] upt_add_eq_append [of 32 48 16] by simp
  have app: "in_place (a @ b @ c @ e) = in_place a @ in_place b @ in_place c @ in_place e"
    if "4 dvd length a" "4 dvd length b" "4 dvd length c" for a b c e
    using that by (simp add: in_place_append)
  have "round_1 x @ round_2 x @ round_3 x @ round_4 x = in_place (?l [0..<16] @ ?l [16..<32] @ ?l [32..<48] @ ?l [48..<64])"
    unfolding round_lines [symmetric] by (rule app [symmetric]) (simp_all only: length_map length_upt, simp_all)
  also have "\<dots> = in_place (?l [0..<64])" unfolding u map_append ..
  finally have "fold (\<lambda>f. f) (round_1 x @ round_2 x @ round_3 x @ round_4 x) st = fold turn (?l [0..<64]) st"
    using fold_in_place [of "?l [0..<64]" st] by simp
  also have "\<dots> = fold (\<lambda>i. turn (md5_line_of x i)) [0..<64] st" by (simp add: fold_map comp_def)
  finally show ?thesis by (simp only: turn_line)
qed

lemma MD5Transform_compress: "i + 64 \<le> length inp \<Longrightarrow> MD5Transform st inp i = Inr (md5_compress (take 64 (drop i inp)) st)"
  unfolding MD5Transform_def md5_compress_def all_rounds Let_def by simp

section \<open>Counting\<close>

definition bit_count :: "nat \<Rightarrow> UINT4 \<times> UINT4" where
  "bit_count n = (word_of_nat (8 * n), word_of_nat (8 * n div 2 ^ 32))"

lemma carry_arith:
  assumes "a = A mod m" "b = B mod m" "0 < (m::nat)"
  shows "(A + B) div m = A div m + B div m + (if (a + b) mod m < b then 1 else 0)"
proof -
  have l: "a < m" "b < m" using assms by simp_all
  have "(A + B) div m = A div m + B div m + (a + b) div m" unfolding assms(1,2) by (rule div_add1_eq)
  moreover have "(a + b) div m = (if (a + b) mod m < b then 1 else 0)"
  proof (cases "a + b < m")
    case False
    then have "a + b - m < m" using l by simp
    then have "(a + b) div m = 1" "(a + b) mod m = a + b - m"
      using False assms(3) by (simp_all add: le_div_geq le_mod_geq)
    with l False show ?thesis by simp
  qed simp
  ultimately show ?thesis by simp
qed

lemma word_of_nat_less: "(word_of_nat a :: UINT4) < word_of_nat b \<longleftrightarrow> a mod 2 ^ 32 < b mod 2 ^ 32"
  by (simp add: word_less_nat_alt unat_of_nat)

lemma carry_word:
  "(word_of_nat ((N + L) div 2 ^ 32) :: UINT4) = word_of_nat (N div 2 ^ 32) + word_of_nat (L div 2 ^ 32) +
     (if (word_of_nat (N + L) :: UINT4) < word_of_nat L then 1 else 0)"
proof -
  have "(N + L) div 2 ^ 32 = N div 2 ^ 32 + L div 2 ^ 32 + (if (N mod 2 ^ 32 + L mod 2 ^ 32) mod 2 ^ 32 < L mod 2 ^ 32 then 1 else 0)"
    by (rule carry_arith) simp_all
  then show ?thesis unfolding word_of_nat_less mod_add_eq by (simp only: of_nat_add) simp
qed

lemma count_bits_bit_count:
  assumes "len < 2 ^ 32"
  shows "count_bits (word_of_nat len) (bit_count n) = bit_count (n + len)"
proof -
  have p: "push_bit 3 (word_of_nat len :: UINT4) = word_of_nat (8 * len)" by (simp add: push_bit_eq_mult)
  have s: "word_of_nat (8 * n) + word_of_nat (8 * len) = (word_of_nat (8 * (n + len)) :: UINT4)" by (simp add: distrib_left)
  have d: "drop_bit 29 (word_of_nat len :: UINT4) = word_of_nat (8 * len div 2 ^ 32)"
  proof (rule word_unat_eq_iff [THEN iffD2])
    have "8 * len div 2 ^ 32 = len div 2 ^ 29" by simp
    moreover have "len div 2 ^ 29 < 2 ^ 32" using assms by (meson div_le_dividend le_less_trans)
    moreover have "unat (word_of_nat len :: UINT4) = len" using assms by (simp add: unat_of_nat)
    moreover have "unat (word_of_nat (len div 2 ^ 29) :: UINT4) = len div 2 ^ 29"
      using calculation(2) by (simp add: unat_of_nat)
    ultimately show "unat (drop_bit 29 (word_of_nat len :: UINT4)) = unat (word_of_nat (8 * len div 2 ^ 32) :: UINT4)"
      unfolding unat_drop_bit_eq by (simp only: drop_bit_eq_div)
  qed
  have "word_of_nat (8 * (n + len) div 2 ^ 32) = (word_of_nat (8 * n div 2 ^ 32) + word_of_nat (8 * len div 2 ^ 32) +
      (if (word_of_nat (8 * (n + len)) :: UINT4) < word_of_nat (8 * len) then 1 else 0) :: UINT4)"
    unfolding distrib_left by (rule carry_word)
  then show ?thesis
    unfolding count_bits_def bit_count_def Let_def fst_conv snd_conv p s d by (simp add: add_ac)
qed

lemma bytes_in_buffer_count: "md5_count ctx = bit_count n \<Longrightarrow> bytes_in_buffer ctx = n mod 64"
proof -
  assume c: "md5_count ctx = bit_count n"
  have "unat (drop_bit 3 (word_of_nat m :: UINT4) AND 0x3f) = m mod 2 ^ 32 div 8 mod 64" for m
  proof -
    have k: "(0x3f :: UINT4) = mask 6" by (simp add: mask_eq_exp_minus_1)
    show ?thesis
      unfolding k take_bit_eq_mask [symmetric] unsigned_take_bit_eq unat_drop_bit_eq
      by (simp add: take_bit_eq_mod drop_bit_eq_div unat_of_nat)
  qed
  then have "unat (drop_bit 3 (word_of_nat (8 * n) :: UINT4) AND 0x3f) = 8 * n mod 2 ^ 32 div 8 mod 64" .
  also have "8 * n mod 2 ^ 32 = 8 * (n mod 2 ^ 29)" using mult_mod_right [of 8 n "2 ^ 29"] by simp
  also have "8 * (n mod 2 ^ 29) div 8 mod 64 = n mod 64" by (simp add: mod_mod_cancel)
  finally show ?thesis using c by (simp add: bytes_in_buffer_def bit_count_def)
qed

lemma Encode_count: "Encode [fst (bit_count n), snd (bit_count n)] = little_endian_8 (8 * n)"
proof -
  define m where "m = 8 * n"
  let ?w = "word_of_nat m :: 64 word"
  have u: "[0..<8] = [0, 1, 2, 3, 4, 5, 6, 7]" by (simp add: upt_rec)
  have lo: "ucast (drop_bit k (word_of_nat m :: UINT4) AND 0xff) = (ucast (drop_bit k ?w) :: byte)" if "k \<le> 24" for k
  proof -
    have k: "(0xff :: UINT4) = mask 8" by (simp add: mask_eq_exp_minus_1)
    show ?thesis unfolding k using that by (intro bit_word_eqI) (auto simp: bit_simps)
  qed
  have hi: "ucast (drop_bit k (word_of_nat (m div 2 ^ 32) :: UINT4) AND 0xff) = (ucast (drop_bit (32 + k) ?w) :: byte)" if "k \<le> 24" for k
  proof -
    have k: "(0xff :: UINT4) = mask 8" by (simp add: mask_eq_exp_minus_1)
    have d: "m div 2 ^ 32 = drop_bit 32 m" by (simp add: drop_bit_eq_div)
    show ?thesis unfolding k d using that by (intro bit_word_eqI) (auto simp: bit_simps add_ac)
  qed
  show ?thesis
    using lo [of 0] lo [of 8] lo [of 16] lo [of 24] hi [of 0] hi [of 8] hi [of 16] hi [of 24]
    by (simp add: Encode_def Encode1_def bit_count_def little_endian_8_def u m_def [symmetric])
qed


section \<open>Feeding in pieces\<close>

lemma in_blocks_short: "length bs < 64 \<Longrightarrow> in_blocks bs = []"
  by (subst in_blocks.simps) simp

lemma in_blocks_one: "length b = 64 \<Longrightarrow> in_blocks (b @ bs) = b # in_blocks bs"
  by (subst in_blocks.simps) simp

lemma in_blocks_append: "length xs = 64 * k \<Longrightarrow> in_blocks (xs @ ys) = in_blocks xs @ in_blocks ys"
proof (induction k arbitrary: xs)
  case (Suc k)
  have b: "length (take 64 xs) = 64" "length (drop 64 xs) = 64 * k" using Suc.prems by simp_all
  have "in_blocks (xs @ ys) = in_blocks (take 64 xs @ drop 64 xs @ ys)" by (simp flip: append_assoc)
  also have "\<dots> = take 64 xs # in_blocks (drop 64 xs @ ys)" by (rule in_blocks_one [OF b(1)])
  also have "\<dots> = (take 64 xs # in_blocks (drop 64 xs)) @ in_blocks ys" by (simp add: Suc.IH [OF b(2)])
  also have "take 64 xs # in_blocks (drop 64 xs) = in_blocks (take 64 xs @ drop 64 xs)" by (rule in_blocks_one [OF b(1), symmetric])
  finally show ?case by simp
qed (simp add: in_blocks_short)

abbreviation (input) md5_start :: md5_state where
  "md5_start \<equiv> (0x67452301, 0xefcdab89, 0x98badcfe, 0x10325476)"

text \<open>What the context holds after the bytes \<open>bs\<close>: whole blocks in the state, the rest in the buffer.\<close>

definition md5_holds :: "MD5_CTX \<Rightarrow> byte list \<Rightarrow> bool" where
  "md5_holds ctx bs \<longleftrightarrow> length (md5_buffer ctx) = 64 \<and> md5_count ctx = bit_count (length bs) \<and>
     (\<exists>whole k rest. bs = whole @ rest \<and> length whole = 64 * k \<and> length rest < 64 \<and>
        md5_state ctx = fold md5_compress (in_blocks whole) md5_start \<and> take (length rest) (md5_buffer ctx) = rest)"

lemma md5_blocks_all:
  "inputLen \<le> length inp \<Longrightarrow> i \<le> inputLen \<Longrightarrow> \<exists>k. i + 64 * k \<le> inputLen \<and> inputLen < i + 64 * k + 64 \<and>
     md5_blocks st inp inputLen i = Inr (fold md5_compress (in_blocks (take (64 * k) (drop i inp))) st, i + 64 * k)"
proof (induction "inputLen - i" arbitrary: st i rule: less_induct)
  case less
  show ?case
  proof (cases "i + 63 < inputLen")
    case False
    then show ?thesis using less.prems by (subst md5_blocks.simps) (auto intro!: exI [of _ 0] simp: in_blocks_short)
  next
    case True
    let ?b = "take 64 (drop i inp)"
    have b: "length ?b = 64" using True less.prems by simp
    have s: "inputLen - (i + 64) < inputLen - i" "i + 64 \<le> inputLen" using True by simp_all
    obtain k where k: "i + 64 + 64 * k \<le> inputLen" "inputLen < i + 64 + 64 * k + 64"
        "md5_blocks (md5_compress ?b st) inp inputLen (i + 64)
         = Inr (fold md5_compress (in_blocks (take (64 * k) (drop (i + 64) inp))) (md5_compress ?b st), i + 64 + 64 * k)"
      using less.hyps [OF s(1) less.prems(1) s(2), of "md5_compress ?b st"] by blast
    have "take (64 * Suc k) (drop i inp) = ?b @ take (64 * k) (drop (i + 64) inp)"
      by (simp add: take_add add.commute)
    then have "fold md5_compress (in_blocks (take (64 * Suc k) (drop i inp))) st
        = fold md5_compress (in_blocks (take (64 * k) (drop (i + 64) inp))) (md5_compress ?b st)"
      by (simp only: in_blocks_one [OF b] fold.simps comp_def)
    moreover have "md5_blocks st inp inputLen i = md5_blocks (md5_compress ?b st) inp inputLen (i + 64)"
      using True less.prems MD5Transform_compress [of i inp st] by (subst md5_blocks.simps) simp
    ultimately show ?thesis using k by (intro exI [of _ "Suc k"]) simp
  qed
qed

lemma memcpy_front: "n \<le> length out \<Longrightarrow> j + n \<le> length inp \<Longrightarrow> \<exists>b. MD5_memcpy out 0 inp j n = Inr b \<and> length b = length out \<and> take n b = take n (drop j inp)"
  by (auto simp: MD5_memcpy_def)

lemma MD5Update_holds:
  assumes "md5_holds ctx bs" "inputLen \<le> length inp" "inputLen < 2 ^ 32"
  shows "\<exists>ctx'. MD5Update inp inputLen ctx = Inr ctx' \<and> md5_holds ctx' (bs @ take inputLen inp)"
proof -
  obtain whole k rest where bs: "bs = whole @ rest" "length whole = 64 * k" "length rest < 64"
      and st: "md5_state ctx = fold md5_compress (in_blocks whole) md5_start" "take (length rest) (md5_buffer ctx) = rest"
      and ctx: "length (md5_buffer ctx) = 64" "md5_count ctx = bit_count (length bs)"
    using assms(1) by (auto simp: md5_holds_def)
  have index: "bytes_in_buffer ctx = length rest" using bytes_in_buffer_count [OF ctx(2)] bs by simp
  have count: "count_bits (word_of_nat inputLen) (md5_count ctx) = bit_count (length (bs @ take inputLen inp))"
    using count_bits_bit_count [OF assms(3), of "length bs"] assms(2) by (simp add: ctx(2))
  show ?thesis
  proof (cases "64 - length rest \<le> inputLen")
    case False
    let ?b = "take (length rest) (md5_buffer ctx) @ take inputLen inp @ drop (length rest + inputLen) (md5_buffer ctx)"
    have "MD5Update inp inputLen ctx = Inr (ctx\<lparr>md5_count := bit_count (length (bs @ take inputLen inp)), md5_buffer := ?b\<rparr>)"
      using False assms(2) ctx(1) by (simp add: MD5Update_def Let_def index count MD5_memcpy_def)
    moreover have "md5_holds (ctx\<lparr>md5_count := bit_count (length (bs @ take inputLen inp)), md5_buffer := ?b\<rparr>) (bs @ take inputLen inp)"
      unfolding md5_holds_def
      using False assms(2) ctx(1) st bs by (intro conjI exI [of _ whole] exI [of _ k] exI [of _ "rest @ take inputLen inp"]) simp_all
    ultimately show ?thesis by blast
  next
    case True
    let ?p = "64 - length rest"
    let ?b = "rest @ take ?p inp"
    have b: "length ?b = 64" using bs(3) True assms(2) by simp
    have "MD5_memcpy (md5_buffer ctx) (length rest) inp 0 ?p = Inr ?b"
      using ctx(1) st(2) bs(3) True assms(2) by (simp add: MD5_memcpy_def)
    moreover have "MD5Transform (md5_state ctx) ?b 0 = Inr (md5_compress ?b (md5_state ctx))"
      using MD5Transform_compress [of 0 ?b "md5_state ctx"] b by simp
    moreover obtain j where j: "?p + 64 * j \<le> inputLen" "inputLen < ?p + 64 * j + 64"
        "md5_blocks (md5_compress ?b (md5_state ctx)) inp inputLen ?p
         = Inr (fold md5_compress (in_blocks (take (64 * j) (drop ?p inp))) (md5_compress ?b (md5_state ctx)), ?p + 64 * j)"
      using md5_blocks_all [OF assms(2) True] by blast
    let ?rest = "take (inputLen - (?p + 64 * j)) (drop (?p + 64 * j) inp)"
    have fits: "inputLen - (?p + 64 * j) \<le> length ?b" "?p + 64 * j + (inputLen - (?p + 64 * j)) \<le> length inp"
      unfolding b using j(1,2) assms(2) by linarith+
    obtain b' where b': "MD5_memcpy ?b 0 inp (?p + 64 * j) (inputLen - (?p + 64 * j)) = Inr b'" "length b' = 64"
        "take (inputLen - (?p + 64 * j)) b' = ?rest"
      using memcpy_front [OF fits(1,2)] unfolding b by blast
    let ?st = "fold md5_compress (in_blocks (take (64 * j) (drop ?p inp))) (md5_compress ?b (md5_state ctx))"
    let ?ctx = "ctx\<lparr>md5_count := bit_count (length (bs @ take inputLen inp)), md5_state := ?st, md5_buffer := b'\<rparr>"
    have "MD5Update inp inputLen ctx = Inr ?ctx"
      using calculation True j(3) b'(1) by (simp add: MD5Update_def Let_def index count)
    moreover have "md5_holds ?ctx (bs @ take inputLen inp)"
    proof -
      let ?whole = "whole @ ?b @ take (64 * j) (drop ?p inp)"
      have "take inputLen inp = take ?p inp @ take (64 * j) (drop ?p inp) @ ?rest"
        using j(1) take_add [of ?p "64 * j" inp] take_add [of "?p + 64 * j" "inputLen - (?p + 64 * j)" inp] by simp
      then have 1: "bs @ take inputLen inp = ?whole @ ?rest" by (simp add: bs(1))
      have "length (take (64 * j) (drop ?p inp)) = 64 * j" using j(1) assms(2) by simp
      then have 2: "length ?whole = 64 * (k + 1 + j)" unfolding length_append bs(2) b [unfolded length_append] by simp
      have r: "length ?rest = inputLen - (?p + 64 * j)" using assms(2) by simp
      have 3: "length ?rest < 64" unfolding r using j(2) by linarith
      have "in_blocks ?whole = in_blocks whole @ ?b # in_blocks (take (64 * j) (drop ?p inp))"
        by (simp only: in_blocks_append [OF bs(2)] in_blocks_one [OF b])
      then have 4: "?st = fold md5_compress (in_blocks ?whole) md5_start" by (simp only: fold_append fold.simps comp_def st(1))
      have 5: "take (length ?rest) b' = ?rest" unfolding r by (rule b'(3))
      have f: "length (md5_buffer ?ctx) = 64" "md5_count ?ctx = bit_count (length (bs @ take inputLen inp))" "md5_state ?ctx = ?st"
          "md5_buffer ?ctx = b'"
        using b'(2) by simp_all
      show ?thesis
        unfolding md5_holds_def f(3,4) using f(1,2) 1 2 3 4 5 unfolding f(4) by blast
    qed
    ultimately show ?thesis by blast
  qed
qed

lemma MD5Init_holds: "length (md5_buffer ctx) = 64 \<Longrightarrow> md5_holds (MD5Init ctx) []"
  by (auto simp: md5_holds_def MD5Init_def bit_count_def in_blocks_short)

lemma little_endian_length: "length (little_endian_8 n) = 8"
  by (simp add: little_endian_8_def)

lemma padding_bytes: "i < 64 \<Longrightarrow> (if i < 56 then 56 - i else 120 - i) - 1 = (119 - i) mod (64 :: nat)"
proof (cases "i < 56")
  case True
  then have "119 - i = (55 - i) + 64" by simp
  then have "(119 - i) mod 64 = 55 - i" by (simp only: mod_add_self2) simp
  with True show ?thesis by simp
qed simp

lemma PADDING_take: "0 < n \<Longrightarrow> n \<le> 64 \<Longrightarrow> take n PADDING = 0x80 # replicate (n - 1) 0"
  by (cases n) (simp_all add: PADDING_def)

lemma whole_rest: "64 dvd length r \<Longrightarrow> length r < 64 \<Longrightarrow> r = []"
  using nat_dvd_not_less [of "length r" 64] by auto

lemma MD5Final_digest:
  assumes "md5_holds ctx bs"
  shows "MD5Final ctx = Inr (md5_digest bs, cleared_ctx)"
proof -
  let ?i = "length bs mod 64"
  define n where "n = (if ?i < 56 then 56 - ?i else 120 - ?i)"
  have c: "md5_count ctx = bit_count (length bs)" using assms by (simp add: md5_holds_def)
  have i: "?i < 64" by simp
  have n: "0 < n" "n \<le> 64" using i by (auto simp: n_def)
  have z: "n - 1 = (119 - ?i) mod 64" unfolding n_def by (rule padding_bytes [OF i])
  have pad: "(bs @ take n PADDING) @ take 8 (little_endian_8 (8 * length bs)) = md5_padded bs"
    unfolding md5_padded_def PADDING_take [OF n] z by (simp add: little_endian_length)
  have "n \<le> length PADDING" "n < 2 ^ 32" using n by (simp_all add: PADDING_def)
  from MD5Update_holds [OF assms this] obtain ctx1 where 1: "MD5Update PADDING n ctx = Inr ctx1" "md5_holds ctx1 (bs @ take n PADDING)" by blast
  have "8 \<le> length (little_endian_8 (8 * length bs))" "(8::nat) < 2 ^ 32" by (simp_all add: little_endian_length)
  from MD5Update_holds [OF 1(2) this] obtain ctx2 where 2: "MD5Update (little_endian_8 (8 * length bs)) 8 ctx1 = Inr ctx2" "md5_holds ctx2 (md5_padded bs)"
    unfolding pad by blast
  have "64 dvd length (md5_padded bs)"
  proof -
    have "length (md5_padded bs) = length bs + 9 + (n - 1)" unfolding z by (simp add: md5_padded_def little_endian_length)
    then have "length (md5_padded bs) = 64 * (length bs div 64) + (?i + 8 + n)" using n(1) by simp
    moreover have "?i + 8 + n = 64 \<or> ?i + 8 + n = 2 * 64" using i by (auto simp: n_def)
    then have "64 dvd ?i + 8 + n" by (elim disjE) (simp_all only: dvd_refl dvd_triv_right)
    ultimately show ?thesis by (simp only: dvd_add [OF dvd_triv_left])
  qed
  moreover obtain whole k rest where w: "md5_padded bs = whole @ rest" "length whole = 64 * k" "length rest < 64"
      "md5_state ctx2 = fold md5_compress (in_blocks whole) md5_start"
    using 2(2) unfolding md5_holds_def by blast
  ultimately have "64 dvd length rest" by (simp add: dvd_add_right_iff)
  with w(3) have "rest = []" by (rule whole_rest [rotated])
  with w have "md5_state ctx2 = fold md5_compress (in_blocks (md5_padded bs)) md5_start" by simp
  then show ?thesis
    using 1(1) 2(1) unfolding n_def by (simp add: MD5Final_def Let_def bytes_in_buffer_count [OF c] c Encode_count md5_digest_def)
qed

text \<open>A list of texts with how many bytes of each are given.\<close>

lemma MD5_pieces:
  assumes "md5_holds ctx bs" "\<And>inp n. (inp, n) \<in> set ps \<Longrightarrow> n \<le> length inp \<and> n < 2 ^ 32"
  shows "\<exists>ctx'. foldR (\<lambda>(inp, n) ctx. MD5Update inp n ctx) ps ctx = Inr ctx' \<and> md5_holds ctx' (bs @ concat (map (\<lambda>(inp, n). take n inp) ps))"
  using assms
proof (induction ps arbitrary: ctx bs)
  case (Cons p ps)
  obtain inp n where p: "p = (inp, n)" by (cases p)
  then obtain ctx1 where "MD5Update inp n ctx = Inr ctx1" "md5_holds ctx1 (bs @ take n inp)"
    using MD5Update_holds [OF Cons.prems(1)] Cons.prems(2) by (metis list.set_intros(1))
  moreover from Cons.IH [OF this(2)] Cons.prems(2) obtain ctx' where
      "foldR (\<lambda>(inp, n) ctx. MD5Update inp n ctx) ps ctx1 = Inr ctx'" "md5_holds ctx' ((bs @ take n inp) @ concat (map (\<lambda>(inp, n). take n inp) ps))"
    by (metis list.set_intros(2))
  ultimately show ?case by (auto simp: p)
qed simp

text \<open>
  Claim C22: the digest that the context gives for a text fed in pieces is the digest of RFC 1321 of the whole text,
  however it is cut and whatever the buffer held before: the unrolled rounds, the buffer, the two words
  that count the bits with their carry, and the padding agree with the definition of the standard.
\<close>

theorem md5_is_rfc1321:
  assumes "length (md5_buffer ctx) = 64" "list_all (\<lambda>(inp, n). n \<le> length inp \<and> n < 2 ^ 32 - 64) ps"
  shows "bindR (foldR (\<lambda>(inp, n) ctx. MD5Update inp n ctx) ps (MD5Init ctx)) MD5Final =
    Inr (md5_digest (concat (map (\<lambda>(inp, n). take n inp) ps)), cleared_ctx)"
proof -
  have "n \<le> length inp \<and> n < 2 ^ 32" if "(inp, n) \<in> set ps" for inp n
    using assms(2) that by (fastforce simp: list_all_iff)
  from MD5_pieces [OF MD5Init_holds [OF assms(1)] this] MD5Final_digest show ?thesis by fastforce
qed

theorem md5_is_rfc1321_witness:
  "bindR (foldR (\<lambda>(inp, n) ctx. MD5Update inp n ctx) [([97, 98, 99], 2), ([99], 1)] (MD5Init cleared_ctx)) MD5Final =
    Inr (md5_digest (concat (map (\<lambda>(inp, n). take n inp) [([97, 98, 99], 2), ([99], 1)])), cleared_ctx)"
  by (rule md5_is_rfc1321) (simp_all add: cleared_ctx_def)

end
