(* ===== verification/Exosip_Auth.thy ===== *)
theory Exosip_Auth
  imports Osip_Md5 Osip_Sip
begin

text \<open>
  Digest authentication (eXosip: jauth.c, and the credentials in eXosip.c): the digests of RFC 2617, the
  header that answers a challenge, the table of nonces, and adding the headers to a request.

  Allocation succeeds. An MD5 context starts as whatever the stack held, \<open>stack\<close>. Texts that are given as
  pointers without a test are \<open>string\<close>, the others options.
\<close>

section \<open>Digests\<close>

definition bytes_of :: "string \<Rightarrow> byte list" where
  "bytes_of s = map of_char s"

definition hex_char :: "byte \<Rightarrow> char" where
  "hex_char j = (if j \<le> 9 then char_of (unat (j + 0x30)) else char_of (unat (j + 0x61 - 10)))"

definition CvtHex :: "byte list \<Rightarrow> string" where
  "CvtHex Bin = concat (map (\<lambda>b. [hex_char (drop_bit 4 b AND 0xf), hex_char (b AND 0xf)]) Bin)"

text \<open>The calls of \<open>MD5Update\<close> with a text, which is followed by its NUL, or with a given number of bytes.\<close>

definition text_piece :: "string \<Rightarrow> byte list \<times> nat" where
  "text_piece s = (bytes_of s @ [0], length s)"

definition md5_pieces :: "MD5_CTX \<Rightarrow> (byte list \<times> nat) list \<Rightarrow> byte list res" where
  "md5_pieces stack ps =
     bindR (foldR (\<lambda>(inp, n) ctx. MD5Update inp n ctx) ps (MD5Init stack)) (\<lambda>ctx. bindR (MD5Final ctx) (\<lambda>(digest, _). Inr digest))"

definition DigestCalcHA1 ::
    "MD5_CTX \<Rightarrow> string option \<Rightarrow> string \<Rightarrow> string \<Rightarrow> string \<Rightarrow> string \<Rightarrow> string option \<Rightarrow> string res" where
  "DigestCalcHA1 stack pszAlg pszUserName pszRealm pszPassword pszNonce pszCNonce =
     bindR (md5_pieces stack [text_piece pszUserName, text_piece '':'', text_piece pszRealm, text_piece '':'', text_piece pszPassword]) (\<lambda>ha1.
     bindR (case pszAlg of None \<Rightarrow> Inr ha1 | Some alg \<Rightarrow>
         if strcasecmp0 alg ''md5-sess'' then bindR (deref pszCNonce) (\<lambda>cnonce.
           md5_pieces stack [(ha1, 16), text_piece '':'', text_piece pszNonce, text_piece '':'', text_piece cnonce])
         else Inr ha1) (\<lambda>ha1.
       Inr (CvtHex ha1)))"

text \<open>\<open>HA1\<close> and \<open>HEntity\<close> are arrays of which the first 32 bytes are used.\<close>

definition DigestCalcResponse ::
    "MD5_CTX \<Rightarrow> byte list \<Rightarrow> string \<Rightarrow> string option \<Rightarrow> string option \<Rightarrow> string option \<Rightarrow> string \<Rightarrow> string \<Rightarrow> byte list \<Rightarrow> string res" where
  "DigestCalcResponse stack HA1 pszNonce pszNonceCount pszCNonce pszQop pszMethod pszDigestUri HEntity =
     (let a2 = [text_piece pszMethod, text_piece '':'', text_piece pszDigestUri];
        withoutqop = bindR (md5_pieces stack a2) (\<lambda>ha2.
          bindR (md5_pieces stack [(HA1, 32), text_piece '':'', text_piece pszNonce, text_piece '':'', text_piece (CvtHex ha2)]) (\<lambda>hash.
            Inr (CvtHex hash)));
        withauth = (\<lambda>qop a2. bindR (md5_pieces stack a2) (\<lambda>ha2.
          bindR (deref pszNonceCount) (\<lambda>nc. bindR (deref pszCNonce) (\<lambda>cnonce.
          bindR (md5_pieces stack [(HA1, 32), text_piece '':'', text_piece pszNonce, text_piece '':'', text_piece nc, text_piece '':'',
              text_piece cnonce, text_piece '':'', text_piece qop, text_piece '':'', text_piece (CvtHex ha2)]) (\<lambda>hash.
            Inr (CvtHex hash))))))
      in case pszQop of
           None \<Rightarrow> withoutqop
         | Some qop \<Rightarrow> if qop = ''auth-int'' then withauth qop (a2 @ [text_piece '':'', (HEntity, 32)])
             else if qop = ''auth'' then withauth qop a2 else withoutqop)"

section \<open>Answering a challenge\<close>

text \<open>Behind a leading quote, the last character goes too; a quote alone makes it write in front of the block.\<close>

definition osip_strdup_without_quote :: "string \<Rightarrow> string res" where
  "osip_strdup_without_quote ch =
     (case ch of c # rest \<Rightarrow> if c = CHR 0x22 then (if rest = [] then Inl Out_of_bounds else Inr (butlast rest)) else Inr ch
      | [] \<Rightarrow> Inr [])"

definition in_quotes :: "string \<Rightarrow> string" where
  "in_quotes s = [CHR 0x22] @ s @ [CHR 0x22]"

text \<open>\<open>snprintf\<close> of \<open>%.8i\<close> into 9 bytes.\<close>

definition nonce_count_text :: "int \<Rightarrow> string" where
  "nonce_count_text n =
     snprintf_to 9 ((if n < 0 then ''-'' else []) @ (let d = show_nat (nat \<bar>n\<bar>) in replicate (8 - length d) (CHR ''0'') @ d))"

definition accepted_algorithm :: "string option \<Rightarrow> bool" where
  "accepted_algorithm alg = (case alg of None \<Rightarrow> True | Some a \<Rightarrow> strcasecmp0 ''MD5'' a \<or> strcasecmp0 (in_quotes ''MD5'') a)"

text \<open>An array of 50 bytes that holds a text and NULs.\<close>

definition array_50 :: "string \<Rightarrow> byte list" where
  "array_50 s = bytes_of s @ replicate (50 - length s) 0"

text \<open>
  The fields of the challenge are copied, and the response is computed; \<open>None\<close> for -1. The password and
  the hash are those of the credentials, \<open>None\<close> where the pointer is null.
\<close>

definition create_authorization_header ::
    "MD5_CTX \<Rightarrow> www_authenticate \<Rightarrow> string \<Rightarrow> string \<Rightarrow> string option \<Rightarrow> string option \<Rightarrow> string \<Rightarrow> string option \<Rightarrow> int \<Rightarrow> authorization option res" where
  "create_authorization_header stack wa rquri username passwd ha1 method pCNonce iNonceCount =
     (case (passwd, wwwa_auth_type wa, wwwa_realm wa, wwwa_nonce wa) of
        (Some pass, Some type, Some realm, Some nonce) \<Rightarrow>
          if \<not> strcasecmp0 ''Digest'' type \<or> \<not> accepted_algorithm (wwwa_algorithm wa) then Inr None
          else
            let aut = osip_authorization_init\<lparr>auth_type := Some ''Digest'', auth_realm := Some realm, auth_nonce := Some nonce,
                  auth_opaque := wwwa_opaque wa, auth_username := Some (in_quotes username), auth_uri := Some (in_quotes rquri),
                  auth_algorithm := Some ''MD5''\<rparr>;
              qop = (case wwwa_qop_options wa of None \<Rightarrow> None | Some q \<Rightarrow> if length q < 4 then None else Some q) in
            bindR (osip_strdup_without_quote nonce) (\<lambda>pszNonce. bindR (osip_strdup_without_quote realm) (\<lambda>pszRealm.
            bindR (if qop = None then Inr (None, None, None, aut)
              else bindR (deref pCNonce) (\<lambda>cnonce. let nc = nonce_count_text iNonceCount in
                Inr (Some ''auth'', Some nc, Some cnonce,
                  aut\<lparr>auth_message_qop := Some ''auth'', auth_nonce_count := Some nc, auth_cnonce := Some (in_quotes cnonce)\<rparr>)))
              (\<lambda>(pszQop, szNonceCount, pszCNonce, aut).
            bindR (case ha1 of Some h \<Rightarrow> if h \<noteq> [] then Inr (array_50 h)
                     else bindR (DigestCalcHA1 stack (Some ''MD5'') username pszRealm pass pszNonce pszCNonce) (\<lambda>h. Inr (bytes_of h @ [0]))
                 | None \<Rightarrow> bindR (DigestCalcHA1 stack (Some ''MD5'') username pszRealm pass pszNonce pszCNonce) (\<lambda>h. Inr (bytes_of h @ [0]))) (\<lambda>pha1.
            bindR (DigestCalcResponse stack pha1 pszNonce szNonceCount pszCNonce pszQop method rquri (replicate 33 0)) (\<lambda>resp.
              Inr (Some (aut\<lparr>auth_response := Some (in_quotes resp)\<rparr>)))))))
      | _ \<Rightarrow> Inr None)"

text \<open>The function for proxies is a copy.\<close>

definition create_proxy_authorization_header ::
    "MD5_CTX \<Rightarrow> www_authenticate \<Rightarrow> string \<Rightarrow> string \<Rightarrow> string option \<Rightarrow> string option \<Rightarrow> string \<Rightarrow> string option \<Rightarrow> int \<Rightarrow> authorization option res" where
  "create_proxy_authorization_header = create_authorization_header"

section \<open>Nonces\<close>

text \<open>An entry with an empty Call-ID is free.\<close>

record http_auth =
  pszCallId :: string
  ha_wa :: "www_authenticate option"
  ha_pszCNonce :: string
  iNonceCount :: int

definition free_http_auth :: http_auth where
  "free_http_auth = \<lparr>pszCallId = [], ha_wa = None, ha_pszCNonce = [], iNonceCount = 0\<rparr>"

definition MAX_EXOSIP_HTTP_AUTH :: nat where
  "MAX_EXOSIP_HTTP_AUTH = 10"

definition osip_www_authenticate_clone :: "www_authenticate \<Rightarrow> www_authenticate option" where
  "osip_www_authenticate_clone wa = (if wwwa_auth_type wa = None then None else Some wa)"

definition realm_of :: "http_auth \<Rightarrow> string res" where
  "realm_of e = bindR (deref (ha_wa e)) (\<lambda>wa. deref (wwwa_realm wa))"

text \<open>The entry of this Call-ID and realm is updated; \<open>None\<close> when there is none.\<close>

fun update_entry :: "string \<Rightarrow> www_authenticate \<Rightarrow> http_auth list \<Rightarrow> http_auth list option res" where
  "update_entry call_id wa [] = Inr None"
| "update_entry call_id wa (e # es) =
     bindR (if pszCallId e = [] \<or> \<not> strcasecmp0 (pszCallId e) call_id then Inr False
       else bindR (realm_of e) (\<lambda>r. bindR (deref (wwwa_realm wa)) (\<lambda>r'. Inr (strcasecmp0 r r')))) (\<lambda>same.
     if same then
       Inr (Some ((case osip_www_authenticate_clone wa of None \<Rightarrow> free_http_auth | Some wa \<Rightarrow> e\<lparr>ha_wa := Some wa, iNonceCount := 1\<rparr>) # es))
     else bindR (update_entry call_id wa es) (\<lambda>r. Inr (map_option (\<lambda>es. e # es) r)))"

text \<open>The first free entry is filled; the Call-ID is used as a format.\<close>

fun fill_entry :: "string \<Rightarrow> www_authenticate \<Rightarrow> http_auth list \<Rightarrow> http_auth list option res" where
  "fill_entry call_id wa [] = Inr None"
| "fill_entry call_id wa (e # es) =
     (if pszCallId e = [] then
        bindR (format_noargs call_id) (\<lambda>t. Inr (Some ((case osip_www_authenticate_clone wa of None \<Rightarrow> free_http_auth
          | Some wa \<Rightarrow> \<lparr>pszCallId = snprintf_to 64 t, ha_wa = Some wa, ha_pszCNonce = ''0a4f113b'', iNonceCount = 1\<rparr>) # es)))
      else bindR (fill_entry call_id wa es) (\<lambda>r. Inr (map_option (\<lambda>es. e # es) r)))"

definition store_nonce :: "string \<Rightarrow> www_authenticate \<Rightarrow> http_auth list \<Rightarrow> (int \<times> http_auth list) res" where
  "store_nonce call_id wa auths =
     bindR (update_entry call_id wa auths) (\<lambda>r. case r of Some auths \<Rightarrow> Inr (0, auths)
       | None \<Rightarrow> bindR (fill_entry call_id wa auths) (\<lambda>r. case r of Some auths \<Rightarrow> Inr (0, auths) | None \<Rightarrow> Inr (- 1, auths)))"

fun delete_nonce :: "string \<Rightarrow> http_auth list \<Rightarrow> int \<times> http_auth list" where
  "delete_nonce call_id [] = (- 1, [])"
| "delete_nonce call_id (e # es) =
     (if pszCallId e \<noteq> [] \<and> strcasecmp0 (pszCallId e) call_id then (0, free_http_auth # es)
      else let (i, es) = delete_nonce call_id es in (i, e # es))"

section \<open>Credentials\<close>

record jauthinfo =
  ja_username :: string
  ja_userid :: string
  ja_passwd :: string
  ja_ha1 :: string
  ja_realm :: string

text \<open>
  The realm of a challenge and that of the credentials, the first perhaps in quotes: \<open>strlen (realm) - 2\<close>
  is unsigned.
\<close>

definition realm_matches :: "string option \<Rightarrow> string \<Rightarrow> bool res" where
  "realm_matches realm r =
     bindR (deref realm) (\<lambda>x. if x = r then Inr True else if x = [] then Inl Out_of_bounds
       else Inr (strncmp0 (nat ((int (length x) - 2) mod 2 ^ 32)) (tl x) r))"

fun find_user :: "string \<Rightarrow> string option \<Rightarrow> jauthinfo list \<Rightarrow> jauthinfo option \<Rightarrow> (jauthinfo option \<times> jauthinfo option) res" where
  "find_user username realm [] fallback = Inr (None, fallback)"
| "find_user username realm (a # as) fallback =
     (if ja_username a = username then
        if ja_realm a = [] then find_user username realm as (Some a)
        else bindR (realm_matches realm (ja_realm a)) (\<lambda>m. if m then Inr (Some a, fallback) else find_user username realm as fallback)
      else find_user username realm as fallback)"

fun find_any :: "string option \<Rightarrow> jauthinfo list \<Rightarrow> jauthinfo option \<Rightarrow> jauthinfo option res" where
  "find_any realm [] fallback = Inr fallback"
| "find_any realm (a # as) fallback =
     (if ja_realm a = [] \<and> fallback = None then find_any realm as (Some a)
      else bindR (realm_matches realm (ja_realm a)) (\<lambda>m. if m then Inr (Some a) else find_any realm as fallback))"

definition find_authentication_info :: "string \<Rightarrow> string option \<Rightarrow> jauthinfo list \<Rightarrow> jauthinfo option res" where
  "find_authentication_info username realm as =
     bindR (find_user username realm as None) (\<lambda>(found, fallback). if found \<noteq> None then Inr found else find_any realm as fallback)"

definition eXosip_clear_authentication_info :: "jauthinfo list \<Rightarrow> jauthinfo list" where
  "eXosip_clear_authentication_info as = []"

definition given :: "string option \<Rightarrow> bool" where
  "given v \<longleftrightarrow> v \<noteq> None \<and> v \<noteq> Some []"

text \<open>New credentials come to the front.\<close>

definition eXosip_add_authentication_info ::
    "string option \<Rightarrow> string option \<Rightarrow> string option \<Rightarrow> string option \<Rightarrow> string option \<Rightarrow> jauthinfo list \<Rightarrow> int \<times> jauthinfo list" where
  "eXosip_add_authentication_info username userid passwd ha1 realm as =
     (if \<not> given username \<or> \<not> given userid \<or> \<not> given passwd \<and> \<not> given ha1 then (- 1, as)
      else (0, \<lparr>ja_username = snprintf_to 50 (the username), ja_userid = snprintf_to 50 (the userid),
          ja_passwd = (if given passwd then snprintf_to 50 (the passwd) else []),
          ja_ha1 = (if given passwd then [] else snprintf_to 50 (the ha1)),
          ja_realm = (if given realm then snprintf_to 50 (the realm) else [])\<rparr> # as))"

section \<open>Adding the headers to a request\<close>

record exosip_auth =
  authinfos :: "jauthinfo list"
  http_auths :: "http_auth list"

definition user_of :: "sip \<Rightarrow> string option" where
  "user_of req = (case msg_from req of None \<Rightarrow> None | Some f \<Rightarrow> (case from_url f of None \<Rightarrow> None | Some u \<Rightarrow> uri_username u))"

definition request_uri :: "sip \<Rightarrow> string option res" where
  "request_uri req = (case req_uri req of None \<Rightarrow> Inr None | Some u \<Rightarrow> osip_uri_to_str u)"

definition call_id_of :: "sip \<Rightarrow> string res" where
  "call_id_of req = bindR (deref (msg_call_id req)) (\<lambda>c. deref (call_id_number c))"

definition add_authorization :: "authorization \<Rightarrow> sip \<Rightarrow> sip" where
  "add_authorization aut req = req\<lparr>authorizations := authorizations req @ [aut], message_property := 2\<rparr>"

definition add_proxy_authorization :: "authorization \<Rightarrow> sip \<Rightarrow> sip" where
  "add_proxy_authorization aut req = req\<lparr>proxy_authorizations := proxy_authorizations req @ [aut], message_property := 2\<rparr>"

text \<open>
  Without a response, the stored nonces of the call are used once more. The result is -1 or 0, with the request,
  and the entries with their new counts.
\<close>

fun add_stored :: "MD5_CTX \<Rightarrow> string \<Rightarrow> jauthinfo list \<Rightarrow> http_auth list \<Rightarrow> sip \<Rightarrow> (int \<times> http_auth list \<times> sip) res" where
  "add_stored stack user infos [] req = Inr (0, [], req)"
| "add_stored stack user infos (e # es) req =
     bindR (if pszCallId e = [] then Inr False else bindR (call_id_of req) (\<lambda>c. Inr (strcasecmp0 (pszCallId e) c))) (\<lambda>mine.
     if \<not> mine then bindR (add_stored stack user infos es req) (\<lambda>(i, es, req). Inr (i, e # es, req))
     else bindR (deref (ha_wa e)) (\<lambda>wa. bindR (find_authentication_info user (wwwa_realm wa) infos) (\<lambda>info. case info of
         None \<Rightarrow> Inr (- 1, e # es, req)
       | Some info \<Rightarrow> bindR (request_uri req) (\<lambda>uri. case uri of
           None \<Rightarrow> Inr (- 1, e # es, req)
         | Some uri \<Rightarrow> let e = e\<lparr>iNonceCount := iNonceCount e + 1\<rparr> in bindR (deref (sip_method req)) (\<lambda>method.
             bindR ((if strcasecmp0 method ''REGISTER'' then create_authorization_header else create_proxy_authorization_header)
                 stack wa uri (ja_userid info) (Some (ja_passwd info)) (Some (ja_ha1 info)) method (Some (ha_pszCNonce e)) (iNonceCount e)) (\<lambda>aut. case aut of
               None \<Rightarrow> Inr (- 1, e # es, req)
             | Some aut \<Rightarrow> bindR (add_stored stack user infos es
                   ((if strcasecmp0 method ''REGISTER'' then add_authorization else add_proxy_authorization) aut req)) (\<lambda>(i, es, req).
                 Inr (i, e # es, req))))))))"

text \<open>Whether a nonce is kept for the following requests.\<close>

definition keeps_nonce :: "sip \<Rightarrow> string \<Rightarrow> bool res" where
  "keeps_nonce req method =
     (if strcasecmp0 method ''REGISTER'' \<or> strcasecmp0 method ''INVITE'' \<or> strcasecmp0 method ''SUBSCRIBE'' then Inr True
      else bindR (deref (msg_to req)) (\<lambda>t. Inr (osip_uri_param_get_byname (gen_params t) ''tag'' \<noteq> None)))"

text \<open>The challenges of a response, one after the other.\<close>

type_synonym create_header =
  "MD5_CTX \<Rightarrow> www_authenticate \<Rightarrow> string \<Rightarrow> string \<Rightarrow> string option \<Rightarrow> string option \<Rightarrow> string \<Rightarrow> string option \<Rightarrow> int \<Rightarrow> authorization option res"

fun answer_challenges ::
    "create_header \<Rightarrow> (authorization \<Rightarrow> sip \<Rightarrow> sip) \<Rightarrow> MD5_CTX \<Rightarrow> string \<Rightarrow> www_authenticate list \<Rightarrow> exosip_auth \<Rightarrow> sip \<Rightarrow> (int \<times> exosip_auth \<times> sip) res" where
  "answer_challenges create add stack user [] x req = Inr (0, x, req)"
| "answer_challenges create add stack user (wa # was) x req =
     bindR (find_authentication_info user (wwwa_realm wa) (authinfos x)) (\<lambda>info. case info of None \<Rightarrow> Inr (- 1, x, req) | Some info \<Rightarrow>
     bindR (request_uri req) (\<lambda>uri. case uri of None \<Rightarrow> Inr (- 1, x, req) | Some uri \<Rightarrow>
     bindR (deref (sip_method req)) (\<lambda>method.
     bindR (create stack wa uri (ja_userid info) (Some (ja_passwd info)) (Some (ja_ha1 info)) method (Some ''0a4f113b'') 1) (\<lambda>aut. case aut of
       None \<Rightarrow> Inr (- 1, x, req)
     | Some aut \<Rightarrow> let req = add aut req in
         bindR (if wwwa_qop_options wa = None then Inr x
           else bindR (keeps_nonce req method) (\<lambda>keep. if \<not> keep then Inr x
             else bindR (call_id_of req) (\<lambda>c. bindR (store_nonce c wa (http_auths x)) (\<lambda>(_, auths). Inr (x\<lparr>http_auths := auths\<rparr>))))) (\<lambda>x.
         answer_challenges create add stack user was x req)))))"

definition eXosip_add_authentication_information :: "MD5_CTX \<Rightarrow> exosip_auth \<Rightarrow> sip \<Rightarrow> sip option \<Rightarrow> (int \<times> exosip_auth \<times> sip) res" where
  "eXosip_add_authentication_information stack x req last_response =
     (case user_of req of None \<Rightarrow> Inr (- 1, x, req) | Some user \<Rightarrow>
      case last_response of
        None \<Rightarrow> bindR (add_stored stack user (authinfos x) (http_auths x) req) (\<lambda>(i, auths, req). Inr (i, x\<lparr>http_auths := auths\<rparr>, req))
      | Some resp \<Rightarrow>
          if www_authenticates resp = [] \<and> proxy_authenticates resp = [] then Inr (- 1, x, req)
          else bindR (answer_challenges create_authorization_header add_authorization stack user (www_authenticates resp) x req) (\<lambda>(i, x, req).
            if i \<noteq> 0 then Inr (i, x, req)
            else answer_challenges create_proxy_authorization_header add_proxy_authorization stack user (proxy_authenticates resp) x req))"

end
