(* ===== verification/Exosip_Auth_Correct.thy ===== *)
theory Exosip_Auth_Correct
  imports Exosip_Auth
begin

text \<open>
  Correctness of digest authentication: the response is the one of RFC 2617, the table of nonces is a partial map
  from Call-IDs and realms, and every use of a stored nonce counts.
\<close>

section \<open>Digests\<close>

definition short_text :: "string \<Rightarrow> bool" where
  "short_text s \<longleftrightarrow> length s < 2 ^ 32 - 64"

text \<open>The digest of a text, in hexadecimal.\<close>

definition H_hex :: "string \<Rightarrow> string" where
  "H_hex s = CvtHex (md5_digest (bytes_of s))"

definition piece_ok :: "byte list \<times> nat \<Rightarrow> bool" where
  "piece_ok p \<longleftrightarrow> snd p \<le> length (fst p) \<and> snd p < 2 ^ 32"

lemma md5_pieces_digest:
  assumes "length (md5_buffer stack) = 64" "list_all piece_ok ps"
  shows "md5_pieces stack ps = Inr (md5_digest (concat (map (\<lambda>(inp, n). take n inp) ps)))"
proof -
  have "n \<le> length inp \<and> n < 2 ^ 32" if "(inp, n) \<in> set ps" for inp n
    using assms(2) that by (force simp: list_all_iff piece_ok_def)
  from MD5_pieces [OF MD5Init_holds [OF assms(1)] this] MD5Final_digest show ?thesis
    by (fastforce simp: md5_pieces_def)
qed

lemma text_piece_ok: "short_text s \<Longrightarrow> piece_ok (text_piece s)"
  by (simp add: piece_ok_def text_piece_def short_text_def bytes_of_def)

lemma text_piece_bytes: "(case text_piece s of (inp, n) \<Rightarrow> take n inp) = bytes_of s"
  by (simp add: text_piece_def bytes_of_def)

lemma bytes_of_append: "bytes_of (s @ t) = bytes_of s @ bytes_of t"
  by (simp add: bytes_of_def)

lemma length_md5_digest: "length (md5_digest bs) = 16"
  by (simp add: md5_digest_def Encode_def Encode1_def state_words_def split: prod.split)

lemma length_CvtHex: "length (CvtHex bs) = 2 * length bs"
  by (induction bs) (simp_all add: CvtHex_def)

lemma length_H_hex: "length (H_hex s) = 32"
  by (simp add: H_hex_def length_CvtHex length_md5_digest)

lemma short_H_hex: "short_text (H_hex s)"
  by (simp add: short_text_def length_H_hex)

lemma short_colon: "short_text '':''"
  by (simp add: short_text_def)

lemma H_hex_texts:
  assumes "length (md5_buffer stack) = 64" "list_all short_text ts"
  shows "md5_pieces stack (map text_piece ts) = Inr (md5_digest (bytes_of (concat ts)))"
proof -
  have "concat (map (\<lambda>(inp, n). take n inp) (map text_piece ts)) = bytes_of (concat ts)" for ts
    by (induction ts) (simp_all add: text_piece_bytes bytes_of_append, simp_all add: bytes_of_def)
  moreover have "list_all piece_ok (map text_piece ts)"
    using assms(2) by (auto simp: list_all_iff intro: text_piece_ok)
  ultimately show ?thesis using md5_pieces_digest [OF assms(1)] by presburger
qed

text \<open>The first piece is the array with a hash, of which 32 bytes are taken.\<close>

lemma hash_then_texts:
  assumes "length (md5_buffer stack) = 64" "list_all short_text ts" "take 32 a = bytes_of h" "length h = 32"
  shows "md5_pieces stack ((a, 32) # map text_piece ts) = Inr (md5_digest (bytes_of (h @ concat ts)))"
proof -
  have "concat (map (\<lambda>(inp, n). take n inp) (map text_piece ts)) = bytes_of (concat ts)" for ts
    by (induction ts) (simp_all add: text_piece_bytes bytes_of_append, simp_all add: bytes_of_def)
  moreover have "length (take 32 a) = 32" unfolding assms(3) by (simp add: bytes_of_def assms(4))
  then have "list_all piece_ok ((a, 32) # map text_piece ts)"
    using assms(2) by (auto simp: list_all_iff piece_ok_def [of "(a, 32)"] intro: text_piece_ok)
  ultimately show ?thesis using md5_pieces_digest [OF assms(1)] assms(3) by (simp add: bytes_of_append)
qed

lemma HA1_hex:
  assumes "length (md5_buffer stack) = 64" "short_text user" "short_text realm" "short_text pass"
  shows "DigestCalcHA1 stack (Some ''MD5'') user realm pass nonce cnonce = Inr (H_hex (user @ '':'' @ realm @ '':'' @ pass))"
proof -
  have "\<not> strcasecmp0 ''MD5'' ''md5-sess''" by (simp add: strcasecmp0_def)
  then show ?thesis
    using H_hex_texts [OF assms(1), of "[user, '':'', realm, '':'', pass]"] assms(2-4) short_colon
    by (simp add: DigestCalcHA1_def H_hex_def)
qed

definition rfc2617_response :: "string \<Rightarrow> string \<Rightarrow> (string \<times> string) option \<Rightarrow> string \<Rightarrow> string \<Rightarrow> string" where
  "rfc2617_response ha1 nonce qop meth uri =
     H_hex (ha1 @ '':'' @ nonce @ '':'' @
       (case qop of None \<Rightarrow> [] | Some (nc, cnonce) \<Rightarrow> nc @ '':'' @ cnonce @ '':auth:'') @ H_hex (meth @ '':'' @ uri))"

lemma response_hex:
  assumes "length (md5_buffer stack) = 64" "short_text nonce" "short_text meth" "short_text uri" "take 32 a = bytes_of h" "length h = 32"
  shows "DigestCalcResponse stack a nonce nc cnonce None meth uri ent = Inr (rfc2617_response h nonce None meth uri)"
    "short_text n \<Longrightarrow> short_text c \<Longrightarrow>
     DigestCalcResponse stack a nonce (Some n) (Some c) (Some ''auth'') meth uri ent = Inr (rfc2617_response h nonce (Some (n, c)) meth uri)"
proof -
  have a2: "md5_pieces stack [text_piece meth, text_piece '':'', text_piece uri] = Inr (md5_digest (bytes_of (meth @ '':'' @ uri)))"
    using H_hex_texts [OF assms(1), of "[meth, '':'', uri]"] assms(3,4) short_colon by simp
  have h: "CvtHex (md5_digest (bytes_of t)) = H_hex t" for t by (simp add: H_hex_def)
  let ?h2 = "H_hex (meth @ '':'' @ uri)"
  have "md5_pieces stack ((a, 32) # map text_piece ['':'', nonce, '':'', ?h2]) = Inr (md5_digest (bytes_of (h @ concat ['':'', nonce, '':'', ?h2])))"
    using assms(2) short_colon short_H_hex by (intro hash_then_texts [OF assms(1) _ assms(5,6)]) simp
  then show "DigestCalcResponse stack a nonce nc cnonce None meth uri ent = Inr (rfc2617_response h nonce None meth uri)"
    unfolding DigestCalcResponse_def Let_def option.case a2 bindR.simps h by (simp add: h rfc2617_response_def)
  assume s: "short_text n" "short_text c"
  have auth: "short_text ''auth''" by (simp add: short_text_def)
  have "md5_pieces stack ((a, 32) # map text_piece ['':'', nonce, '':'', n, '':'', c, '':'', ''auth'', '':'', ?h2])
      = Inr (md5_digest (bytes_of (h @ concat ['':'', nonce, '':'', n, '':'', c, '':'', ''auth'', '':'', ?h2])))"
    using assms(2) s auth short_colon short_H_hex by (intro hash_then_texts [OF assms(1) _ assms(5,6)]) simp
  then show "DigestCalcResponse stack a nonce (Some n) (Some c) (Some ''auth'') meth uri ent = Inr (rfc2617_response h nonce (Some (n, c)) meth uri)"
    unfolding DigestCalcResponse_def Let_def option.case a2 bindR.simps h by (simp add: h a2 deref_def rfc2617_response_def)
qed

lemma without_quotes: "osip_strdup_without_quote (in_quotes s) = Inr s"
  by (simp add: osip_strdup_without_quote_def in_quotes_def)

lemma short_nonce_count: "short_text (nonce_count_text n)"
proof -
  have "length (snprintf_to 9 s) < 2 ^ 32 - 64" for s
    using length_snprintf_to [of 9 s] by simp
  then show ?thesis unfolding short_text_def nonce_count_text_def .
qed

text \<open>What the challenge asks for: a nonce count and a client nonce come with an offer of quality of protection.\<close>

definition offers_qop :: "www_authenticate \<Rightarrow> bool" where
  "offers_qop wa \<longleftrightarrow> (case wwwa_qop_options wa of None \<Rightarrow> False | Some q \<Rightarrow> 4 \<le> length q)"

text \<open>The hash of the credentials: given, or computed from the password.\<close>

definition credentials_hash :: "string \<Rightarrow> string \<Rightarrow> string \<Rightarrow> string option \<Rightarrow> string" where
  "credentials_hash user realm pass ha1 = (if given ha1 then the ha1 else H_hex (user @ '':'' @ realm @ '':'' @ pass))"

lemma answer_rfc2617:
  assumes "length (md5_buffer stack) = 64" "wwwa_auth_type wa = Some type" "strcasecmp0 ''Digest'' type" "accepted_algorithm (wwwa_algorithm wa)"
    "wwwa_realm wa = Some (in_quotes realm)" "wwwa_nonce wa = Some (in_quotes nonce)"
    "list_all short_text [user, realm, pass, nonce, meth, uri, cnonce]" "given ha1 \<longrightarrow> length (the ha1) = 32"
  shows "create_authorization_header stack wa uri user (Some pass) ha1 meth (Some cnonce) n = Inr (Some
    \<lparr>auth_type = Some ''Digest'', auth_username = Some (in_quotes user), auth_realm = wwwa_realm wa, auth_nonce = wwwa_nonce wa,
      auth_uri = Some (in_quotes uri),
      auth_response = Some (in_quotes (rfc2617_response (credentials_hash user realm pass ha1) nonce
        (if offers_qop wa then Some (nonce_count_text n, cnonce) else None) meth uri)),
      auth_digest = None, auth_algorithm = Some ''MD5'',
      auth_cnonce = (if offers_qop wa then Some (in_quotes cnonce) else None), auth_opaque = wwwa_opaque wa,
      auth_message_qop = (if offers_qop wa then Some ''auth'' else None),
      auth_nonce_count = (if offers_qop wa then Some (nonce_count_text n) else None)\<rparr>)"
proof -
  let ?h = "credentials_hash user realm pass ha1"
  have s: "short_text user" "short_text realm" "short_text pass" "short_text nonce" "short_text meth" "short_text uri" "short_text cnonce"
    using assms(7) by simp_all
  define a where "a = (if given ha1 then array_50 (the ha1) else bytes_of ?h @ [0])"
  have pha1: "(case ha1 of Some h \<Rightarrow> if h \<noteq> [] then Inr (array_50 h)
                     else bindR (DigestCalcHA1 stack (Some ''MD5'') user realm pass nonce c) (\<lambda>h. Inr (bytes_of h @ [0]))
                 | None \<Rightarrow> bindR (DigestCalcHA1 stack (Some ''MD5'') user realm pass nonce c) (\<lambda>h. Inr (bytes_of h @ [0]))) = Inr a" for c
    by (cases ha1) (auto simp: a_def given_def credentials_hash_def HA1_hex [OF assms(1) s(1-3)])
  have h: "length ?h = 32" using assms(8) by (auto simp: credentials_hash_def length_H_hex)
  have a: "take 32 a = bytes_of ?h"
    using h by (auto simp: a_def array_50_def bytes_of_def credentials_hash_def)
  note response = response_hex [OF assms(1) s(4) s(5) s(6) a h]
  note unfolds = create_authorization_header_def without_quotes deref_def Let_def osip_authorization_init_def offers_qop_def
  show ?thesis
  proof (cases "wwwa_qop_options wa")
    case None
    with assms(2-6) pha1 response(1) show ?thesis by (simp add: unfolds)
  next
    case (Some q)
    with assms(2-6) pha1 response(1) response(2) [OF short_nonce_count s(7)] show ?thesis
      by (cases "length q < 4") (simp_all add: unfolds)
  qed
qed


text \<open>The example of the standard.\<close>

definition example_challenge :: www_authenticate where
  "example_challenge = \<lparr>wwwa_auth_type = Some ''Digest'', wwwa_realm = Some (in_quotes ''testrealm@host.com''), wwwa_domain = None,
     wwwa_nonce = Some (in_quotes ''dcd98b7102dd2f0e8b11d0f600bfb0c093''), wwwa_opaque = Some (in_quotes ''5ccc069c403ebaf9f0171e9517f40e41''),
     wwwa_stale = None, wwwa_algorithm = None, wwwa_qop_options = Some (in_quotes ''auth,auth-int'')\<rparr>"



section \<open>The table of nonces\<close>

definition in_use :: "http_auth \<Rightarrow> bool" where
  "in_use e \<longleftrightarrow> pszCallId e \<noteq> []"

text \<open>Call-IDs and realms are compared without case.\<close>

definition nonce_key :: "string \<Rightarrow> string \<Rightarrow> string \<times> string" where
  "nonce_key call_id realm = (map tolower call_id, map tolower realm)"

definition entry_key :: "http_auth \<Rightarrow> string \<times> string" where
  "entry_key e = nonce_key (pszCallId e) (the (wwwa_realm (the (ha_wa e))))"

definition entry_ok :: "http_auth \<Rightarrow> bool" where
  "entry_ok e \<longleftrightarrow> (in_use e \<longrightarrow> ha_wa e \<noteq> None \<and> wwwa_realm (the (ha_wa e)) \<noteq> None)"

definition table_ok :: "http_auth list \<Rightarrow> bool" where
  "table_ok es \<longleftrightarrow> list_all entry_ok es \<and> distinct (map entry_key (filter in_use es))"

text \<open>What a table says: the challenge and the count of a Call-ID and realm.\<close>

definition nonce_map :: "http_auth list \<Rightarrow> string \<times> string \<Rightarrow> (www_authenticate \<times> int) option" where
  "nonce_map es k = map_option (\<lambda>e. (the (ha_wa e), iNonceCount e)) (find (\<lambda>e. in_use e \<and> entry_key e = k) es)"

lemma nonce_map_dom: "k \<in> dom (nonce_map es) \<longleftrightarrow> (\<exists>e \<in> set es. in_use e \<and> entry_key e = k)"
  by (auto simp: nonce_map_def dom_def find_None_iff)

lemma nonce_map_append:
  "nonce_map (xs @ ys) k = (case nonce_map xs k of None \<Rightarrow> nonce_map ys k | Some v \<Rightarrow> Some v)"
proof -
  have "find P (xs @ ys) = (case find P xs of None \<Rightarrow> find P ys | Some v \<Rightarrow> Some v)" for P
    by (induction xs) auto
  then show ?thesis by (auto simp: nonce_map_def split: option.split)
qed

lemma nonce_map_Cons:
  "nonce_map (e # es) k = (if in_use e \<and> entry_key e = k then Some (the (ha_wa e), iNonceCount e) else nonce_map es k)"
  by (simp add: nonce_map_def)

lemma nonce_map_Nil: "nonce_map [] k = None"
  by (simp add: nonce_map_def)

definition with_challenge :: "string \<times> string \<Rightarrow> www_authenticate \<Rightarrow> http_auth \<Rightarrow> http_auth" where
  "with_challenge k wa e = (if in_use e \<and> entry_key e = k then e\<lparr>ha_wa := Some wa, iNonceCount := 1\<rparr> else e)"

lemma with_challenge_other: "entry_key e \<noteq> k \<Longrightarrow> with_challenge k wa e = e"
  by (simp add: with_challenge_def)

lemma with_challenge_same:
  "in_use e \<Longrightarrow> entry_key e = k \<Longrightarrow> ha_wa (with_challenge k wa e) = Some wa \<and> iNonceCount (with_challenge k wa e) = 1"
  by (simp add: with_challenge_def)

lemma with_challenge_not: "\<not> (in_use e \<and> entry_key e = k) \<Longrightarrow> with_challenge k wa e = e"
  unfolding with_challenge_def by (rule if_not_P)

lemma with_challenge_key:
  assumes "wwwa_realm wa = Some r" "k = nonce_key call_id r"
  shows "in_use (with_challenge k wa e) = in_use e" "entry_key (with_challenge k wa e) = entry_key e"
    "entry_ok e \<Longrightarrow> entry_ok (with_challenge k wa e)"
  using assms by (auto simp: with_challenge_def in_use_def entry_key_def nonce_key_def entry_ok_def)

lemma table_ok_Cons: "table_ok (e # es) \<longleftrightarrow> entry_ok e \<and> table_ok es \<and> (in_use e \<longrightarrow> entry_key e \<notin> entry_key ` {x \<in> set es. in_use x})"
  by (auto simp: table_ok_def)

lemma update_entry_eq:
  assumes "table_ok es" "call_id \<noteq> []" "wwwa_realm wa = Some r" "wwwa_auth_type wa \<noteq> None" "k = nonce_key call_id r"
  shows "update_entry call_id wa es = Inr (if \<exists>e \<in> set es. in_use e \<and> entry_key e = k then Some (map (with_challenge k wa) es) else None)"
  using assms(1)
proof (induction es)
  case (Cons e es)
  have ok: "table_ok es" "entry_ok e" using Cons.prems by (simp_all add: table_ok_Cons)
  have head: "(if pszCallId e = [] \<or> \<not> strcasecmp0 (pszCallId e) call_id then Inr False
       else bindR (realm_of e) (\<lambda>r. bindR (deref (wwwa_realm wa)) (\<lambda>r'. Inr (strcasecmp0 r r')))) = Inr (in_use e \<and> entry_key e = k)"
    using ok(2) assms(3,5)
    by (auto simp: in_use_def entry_ok_def entry_key_def nonce_key_def realm_of_def deref_def strcasecmp0_def split: option.split)
  show ?case
  proof (cases "in_use e \<and> entry_key e = k")
    case True
    then have "k \<notin> entry_key ` {x \<in> set es. in_use x}" using Cons.prems by (auto simp: table_ok_Cons)
    then have "with_challenge k wa x = x" if "x \<in> set es" for x using that by (intro with_challenge_not) blast
    then have "map (with_challenge k wa) es = es" by (rule map_idI)
    with True head assms(4) show ?thesis by (auto simp: osip_www_authenticate_clone_def with_challenge_def)
  next
    case False
    have "with_challenge k wa e = e" using False by (rule with_challenge_not)
    moreover have "(\<exists>x \<in> set (e # es). in_use x \<and> entry_key x = k) \<longleftrightarrow> (\<exists>x \<in> set es. in_use x \<and> entry_key x = k)" using False by auto
    ultimately show ?thesis using head False Cons.IH [OF ok(1)] by simp
  qed
qed simp

lemma map_with_challenge:
  assumes "table_ok es" "wwwa_realm wa = Some r" "k = nonce_key call_id r"
  shows "table_ok (map (with_challenge k wa) es)"
    "\<exists>e \<in> set es. in_use e \<and> entry_key e = k \<Longrightarrow> nonce_map (map (with_challenge k wa) es) = (nonce_map es)(k \<mapsto> (wa, 1))"
proof -
  note key = with_challenge_key [OF assms(2,3)]
  have "map entry_key (filter in_use (map (with_challenge k wa) es)) = map entry_key (filter in_use es)"
    by (induction es) (simp_all add: key)
  with assms(1) show "table_ok (map (with_challenge k wa) es)"
    by (auto simp: table_ok_def list_all_iff key)
  assume e: "\<exists>e \<in> set es. in_use e \<and> entry_key e = k"
  have other: "nonce_map (map (with_challenge k wa) es) k' = nonce_map es k'" if "k' \<noteq> k" for k'
    using that by (induction es) (auto simp: nonce_map_Nil nonce_map_Cons key with_challenge_other)
  have "nonce_map (map (with_challenge k wa) es) k = Some (wa, 1)"
    using e by (induction es) (auto simp: nonce_map_Cons key with_challenge_same)
  with other show "nonce_map (map (with_challenge k wa) es) = (nonce_map es)(k \<mapsto> (wa, 1))" by auto
qed

lemma fill_entry_eq:
  assumes "CHR ''%'' \<notin> set call_id" "wwwa_auth_type wa \<noteq> None"
  shows "fill_entry call_id wa es = Inr (if list_all in_use es then None else
     (let xs = takeWhile in_use es; ys = dropWhile in_use es in
       Some (xs @ \<lparr>pszCallId = snprintf_to 64 call_id, ha_wa = Some wa, ha_pszCNonce = ''0a4f113b'', iNonceCount = 1\<rparr> # tl ys)))"
  using assms by (induction es) (auto simp: in_use_def format_noargs_plain osip_www_authenticate_clone_def Let_def)

text \<open>
  Claim C33: the table of nonces is a partial map from Call-IDs and realms, compared without case: storing a challenge
  sets its entry with a count of one and leaves all others, as long as the Call-ID is in the table or there is
  a free entry, and fails without a change otherwise. This holds for a Call-ID that fits the entry and has no
  percent sign, which the code uses as a format.
\<close>

theorem store_nonce_refines_map:
  assumes "table_ok es" "call_id \<noteq> []" "length call_id < 64" "CHR ''%'' \<notin> set call_id" "wwwa_realm wa = Some r" "wwwa_auth_type wa \<noteq> None"
    "k = nonce_key call_id r"
  shows "\<exists>i es'. store_nonce call_id wa es = Inr (i, es') \<and> table_ok es' \<and> length es' = length es \<and>
    (if k \<in> dom (nonce_map es) \<or> \<not> list_all in_use es then i = 0 \<and> nonce_map es' = (nonce_map es)(k \<mapsto> (wa, 1)) else i = - 1 \<and> es' = es)"
proof (cases "\<exists>e \<in> set es. in_use e \<and> entry_key e = k")
  case True
  with update_entry_eq [OF assms(1,2,5,6,7)] map_with_challenge [OF assms(1,5,7)] show ?thesis
    by (simp add: store_nonce_def nonce_map_dom)
next
  case False
  then have update: "update_entry call_id wa es = Inr None" using update_entry_eq [OF assms(1,2,5,6,7)] by simp
  show ?thesis
  proof (cases "list_all in_use es")
    case True
    with False update fill_entry_eq [OF assms(4,6), of es] assms(1) show ?thesis by (simp add: store_nonce_def nonce_map_dom)
  next
    case full: False
    let ?new = "\<lparr>pszCallId = call_id, ha_wa = Some wa, ha_pszCNonce = ''0a4f113b'', iNonceCount = 1\<rparr>"
    define xs where "xs = takeWhile in_use es"
    obtain e ys where es: "es = xs @ e # ys" and e: "\<not> in_use e"
      using full by (metis list_all_iff xs_def takeWhile_dropWhile_id dropWhile_eq_Nil_conv list.exhaust hd_dropWhile list.sel(1))
    have tl: "tl (dropWhile in_use es) = ys" using es e xs_def
      by (metis append_same_eq dropWhile_eq_Cons_conv list.sel(3) same_append_eq takeWhile_dropWhile_id)
    have fill: "fill_entry call_id wa es = Inr (Some (xs @ ?new # ys))"
      using fill_entry_eq [OF assms(4,6), of es] full tl assms(3) by (simp add: Let_def xs_def snprintf_to_def)
    have new: "in_use ?new" "entry_key ?new = k" "entry_ok ?new"
      using assms(2,5,7) by (simp_all add: in_use_def entry_key_def entry_ok_def)
    have "table_ok (xs @ ?new # ys)"
      using assms(1) False new e unfolding es by (auto simp: table_ok_def)
    moreover have "nonce_map (xs @ ?new # ys) = (nonce_map es)(k \<mapsto> (wa, 1))"
    proof (rule ext)
      fix k'
      have "nonce_map xs k = None" using False unfolding es by (auto simp: nonce_map_def find_None_iff)
      then show "nonce_map (xs @ ?new # ys) k' = ((nonce_map es)(k \<mapsto> (wa, 1))) k'"
        using new e unfolding es by (auto simp: nonce_map_append nonce_map_Cons split: option.split)
    qed
    moreover have "length (xs @ ?new # ys) = length es" by (simp add: es)
    ultimately show ?thesis using update fill full by (simp add: store_nonce_def nonce_map_dom)
  qed
qed

theorem store_nonce_refines_map_witness:
  "\<exists>i es'. store_nonce ''abc@host'' example_challenge (replicate 10 free_http_auth) = Inr (i, es') \<and> table_ok es' \<and>
    length es' = length (replicate 10 free_http_auth) \<and>
    (if nonce_key ''abc@host'' (in_quotes ''testrealm@host.com'') \<in> dom (nonce_map (replicate 10 free_http_auth)) \<or> \<not> list_all in_use (replicate 10 free_http_auth)
     then i = 0 \<and> nonce_map es' = (nonce_map (replicate 10 free_http_auth))(nonce_key ''abc@host'' (in_quotes ''testrealm@host.com'') \<mapsto> (example_challenge, 1))
     else i = - 1 \<and> es' = replicate 10 free_http_auth)"
  by (rule store_nonce_refines_map)
    (simp_all add: table_ok_def list_all_iff entry_ok_def in_use_def free_http_auth_def example_challenge_def)


text \<open>Deleting takes one entry of the Call-ID away, the first.\<close>

lemma delete_nonce_split:
  "delete_nonce call_id es = (i, es') \<Longrightarrow>
     i = - 1 \<and> es' = es \<and> (\<forall>e \<in> set es. \<not> (in_use e \<and> strcasecmp0 (pszCallId e) call_id)) \<or>
     i = 0 \<and> (\<exists>xs e ys. es = xs @ e # ys \<and> in_use e \<and> strcasecmp0 (pszCallId e) call_id \<and>
       (\<forall>x \<in> set xs. \<not> (in_use x \<and> strcasecmp0 (pszCallId x) call_id)) \<and> es' = xs @ free_http_auth # ys)"
proof (induction es arbitrary: i es')
  case (Cons e es)
  show ?case
  proof (cases "in_use e \<and> strcasecmp0 (pszCallId e) call_id")
    case True
    with Cons.prems have "i = 0 \<and> e # es = [] @ e # es \<and> es' = [] @ free_http_auth # es" by (simp add: in_use_def)
    with True show ?thesis by force
  next
    case False
    then obtain es1 where "delete_nonce call_id es = (i, es1)" "es' = e # es1"
      using Cons.prems by (auto simp: in_use_def split: prod.splits)
    note IH = Cons.IH [OF this(1)]
    show ?thesis
    proof (cases "i = - 1")
      case True
      with IH False \<open>es' = e # es1\<close> show ?thesis by auto
    next
      case no: False
      with IH obtain xs x ys where "i = 0" "es = xs @ x # ys" "in_use x \<and> strcasecmp0 (pszCallId x) call_id"
          "\<forall>x \<in> set xs. \<not> (in_use x \<and> strcasecmp0 (pszCallId x) call_id)" "es1 = xs @ free_http_auth # ys" by blast
      then have "e # es = (e # xs) @ x # ys" "es' = (e # xs) @ free_http_auth # ys"
          "\<forall>x \<in> set (e # xs). \<not> (in_use x \<and> strcasecmp0 (pszCallId x) call_id)"
        using False \<open>es' = e # es1\<close> by auto
      with \<open>i = 0\<close> \<open>in_use x \<and> _\<close> show ?thesis by blast
    qed
  qed
qed simp

text \<open>
  Deleting the nonces of a call removes exactly one entry of the call from the map, and nothing when there
  is none: a call that was challenged for two realms keeps the entry of the other one in the table.
\<close>

theorem delete_nonce_one_entry:
  assumes "table_ok es" "delete_nonce call_id es = (i, es')"
  shows "table_ok es' \<and> (if \<exists>k \<in> dom (nonce_map es). fst k = map tolower call_id
    then i = 0 \<and> (\<exists>k \<in> dom (nonce_map es). fst k = map tolower call_id \<and> nonce_map es' = (nonce_map es)(k := None))
    else i = - 1 \<and> es' = es)"
proof -
  let ?P = "\<lambda>e. in_use e \<and> strcasecmp0 (pszCallId e) call_id"
  have P: "?P e \<longleftrightarrow> in_use e \<and> fst (entry_key e) = map tolower call_id" for e
    by (auto simp: entry_key_def nonce_key_def strcasecmp0_def)
  have some: "(\<exists>k \<in> dom (nonce_map es). fst k = map tolower call_id) \<longleftrightarrow> (\<exists>e \<in> set es. ?P e)"
    unfolding P Bex_def nonce_map_dom by blast
  consider "i = - 1" "es' = es" "\<forall>e \<in> set es. \<not> ?P e"
    | xs e ys where "i = 0" "es = xs @ e # ys" "?P e" "\<forall>x \<in> set xs. \<not> ?P x" "es' = xs @ free_http_auth # ys"
    using delete_nonce_split [OF assms(2)] by blast
  then show ?thesis
  proof cases
    case 1
    with assms(1) some show ?thesis by auto
  next
    case (2 xs e ys)
    note res = 2(1,5) and es = 2(2) and e = 2(3) and xs = 2(4)
    have True: "\<exists>e \<in> set es. ?P e" using e es by auto
    have free: "\<not> in_use free_http_auth" "entry_ok free_http_auth" by (simp_all add: in_use_def free_http_auth_def entry_ok_def)
    have "table_ok es'" using assms(1) free e unfolding res es by (auto simp: table_ok_def)
    moreover have "nonce_map es' = (nonce_map es)(entry_key e := None)"
    proof (rule ext)
      fix k
      have "entry_key e \<notin> dom (nonce_map xs)"
        using xs e unfolding P nonce_map_dom by auto
      moreover have "entry_key e \<notin> dom (nonce_map ys)"
      proof -
        have "entry_key e \<notin> entry_key ` {x \<in> set ys. in_use x}" using assms(1) e unfolding es by (simp add: table_ok_def)
        then show ?thesis unfolding nonce_map_dom by (metis (mono_tags, lifting) image_eqI mem_Collect_eq)
      qed
      ultimately have "nonce_map xs (entry_key e) = None" "nonce_map ys (entry_key e) = None" by (simp_all only: domIff not_not)
      then show "nonce_map es' k = ((nonce_map es)(entry_key e := None)) k"
        using free(1) e unfolding res es by (auto simp: nonce_map_append nonce_map_Cons split: option.split)
    qed
    moreover have "entry_key e \<in> dom (nonce_map es)" "fst (entry_key e) = map tolower call_id"
      using e P unfolding nonce_map_dom es by auto
    ultimately show ?thesis using True some res(1) by auto
  qed
qed

theorem delete_nonce_one_entry_witness:
  "table_ok (replicate 10 free_http_auth) \<and> (if \<exists>k \<in> dom (nonce_map (replicate 10 free_http_auth)). fst k = map tolower ''a''
    then (- 1 :: int) = 0 \<and> (\<exists>k \<in> dom (nonce_map (replicate 10 free_http_auth)). fst k = map tolower ''a'' \<and>
      nonce_map (replicate 10 free_http_auth) = (nonce_map (replicate 10 free_http_auth))(k := None))
    else (- 1 :: int) = - 1 \<and> replicate 10 free_http_auth = replicate 10 free_http_auth)"
  by (rule delete_nonce_one_entry) (simp_all add: table_ok_def list_all_iff entry_ok_def in_use_def free_http_auth_def numeral_eq_Suc)

section \<open>Using a stored nonce\<close>

definition of_call :: "sip \<Rightarrow> http_auth \<Rightarrow> bool" where
  "of_call req e \<longleftrightarrow> in_use e \<and> (\<exists>c. call_id_of req = Inr c \<and> strcasecmp0 (pszCallId e) c)"

definition counted :: "sip \<Rightarrow> http_auth \<Rightarrow> http_auth" where
  "counted req e = (if of_call req e then e\<lparr>iNonceCount := iNonceCount e + 1\<rparr> else e)"

text \<open>The header that answers the stored challenge with its new count.\<close>

definition header_for :: "MD5_CTX \<Rightarrow> string \<Rightarrow> jauthinfo list \<Rightarrow> sip \<Rightarrow> http_auth \<Rightarrow> authorization \<Rightarrow> bool" where
  "header_for stack user infos req e aut \<longleftrightarrow> (\<exists>wa info uri meth. ha_wa e = Some wa \<and> find_authentication_info user (wwwa_realm wa) infos = Inr (Some info) \<and>
     request_uri req = Inr (Some uri) \<and> sip_method req = Some meth \<and>
     create_authorization_header stack wa uri (ja_userid info) (Some (ja_passwd info)) (Some (ja_ha1 info)) meth (Some (ha_pszCNonce e)) (iNonceCount e + 1)
       = Inr (Some aut))"

definition is_register :: "sip \<Rightarrow> bool" where
  "is_register req \<longleftrightarrow> (case sip_method req of None \<Rightarrow> False | Some m \<Rightarrow> strcasecmp0 m ''REGISTER'')"

text \<open>The request with headers added, where a registration has them.\<close>

definition with_headers :: "sip \<Rightarrow> authorization list \<Rightarrow> sip" where
  "with_headers req auts = (if auts = [] then req
     else if is_register req then req\<lparr>authorizations := authorizations req @ auts, message_property := 2\<rparr>
     else req\<lparr>proxy_authorizations := proxy_authorizations req @ auts, message_property := 2\<rparr>)"

lemma with_headers_same:
  "call_id_of (with_headers req auts) = call_id_of req" "request_uri (with_headers req auts) = request_uri req"
  "sip_method (with_headers req auts) = sip_method req" "is_register (with_headers req auts) = is_register req"
  "of_call (with_headers req auts) = of_call req" "counted (with_headers req auts) = counted req"
  by (auto simp: with_headers_def call_id_of_def request_uri_def is_register_def of_call_def counted_def fun_eq_iff)

lemma with_headers_append: "with_headers (with_headers req as) bs = with_headers req (as @ bs)"
  by (auto simp: with_headers_def is_register_def)

lemma header_for_same: "header_for stack user infos (with_headers req auts) = header_for stack user infos req"
  by (simp add: header_for_def with_headers_same fun_eq_iff)

lemma add_stored_headers:
  "add_stored stack user infos es req = Inr (0, es', req') \<Longrightarrow>
     es' = map (counted req) es \<and> (\<exists>auts. list_all2 (header_for stack user infos req) (filter (of_call req) es) auts \<and> req' = with_headers req auts)"
proof (induction es arbitrary: req es' req')
  case Nil
  then show ?case by (auto simp: with_headers_def)
next
  case (Cons e es)
  show ?case
  proof (cases "of_call req e")
    case False
    have "(if pszCallId e = [] then Inr False else bindR (call_id_of req) (\<lambda>c. Inr (strcasecmp0 (pszCallId e) c))) = Inr False"
      using False Cons.prems by (auto simp: of_call_def in_use_def bindR_eq_Inr split: if_splits)
    with Cons.prems obtain es1 where "add_stored stack user infos es req = Inr (0, es1, req')" "es' = e # es1"
      by (auto simp: bindR_eq_Inr)
    with Cons.IH [OF this(1)] False show ?thesis by (simp add: counted_def)
  next
    case True
    then have mine: "(if pszCallId e = [] then Inr False else bindR (call_id_of req) (\<lambda>c. Inr (strcasecmp0 (pszCallId e) c))) = Inr True"
      by (auto simp: of_call_def in_use_def)
    from Cons.prems mine obtain wa info uri meth aut es1 where
        w: "ha_wa e = Some wa" "find_authentication_info user (wwwa_realm wa) infos = Inr (Some info)" "request_uri req = Inr (Some uri)"
          "sip_method req = Some meth"
          "create_authorization_header stack wa uri (ja_userid info) (Some (ja_passwd info)) (Some (ja_ha1 info)) meth (Some (ha_pszCNonce e)) (iNonceCount e + 1) = Inr (Some aut)"
      and rest: "add_stored stack user infos es ((if strcasecmp0 meth ''REGISTER'' then add_authorization else add_proxy_authorization) aut req) = Inr (0, es1, req')"
        "es' = e\<lparr>iNonceCount := iNonceCount e + 1\<rparr> # es1"
      by (auto simp: bindR_eq_Inr deref_def create_proxy_authorization_header_def Let_def split: option.splits if_splits)
    have "(if strcasecmp0 meth ''REGISTER'' then add_authorization else add_proxy_authorization) aut req = with_headers req [aut]"
      using w(4) by (simp add: with_headers_def is_register_def add_authorization_def add_proxy_authorization_def)
    with rest(1) have "add_stored stack user infos es (with_headers req [aut]) = Inr (0, es1, req')" by simp
    from Cons.IH [OF this] obtain auts where "es1 = map (counted req) es" "list_all2 (header_for stack user infos req) (filter (of_call req) es) auts"
        "req' = with_headers (with_headers req [aut]) auts"
      by (auto simp: with_headers_same header_for_same)
    moreover have "header_for stack user infos req e aut" using w by (auto simp: header_for_def)
    ultimately show ?thesis using rest(2) True by (auto simp: counted_def with_headers_append intro!: exI [of _ "aut # auts"])
  qed
qed



text \<open>A request of a call that was challenged once, with the credentials of the user.\<close>

definition example_url :: uri where
  "example_url = \<lparr>uri_scheme = Some ''sip'', uri_username = Some ''Mufasa'', uri_password = None, uri_host = Some ''host'', uri_port = None,
     url_params = [], url_headers = [], uri_string = None\<rparr>"

definition example_request :: sip where
  "example_request = osip_message_init\<lparr>sip_method := Some ''INVITE'', req_uri := Some example_url,
     msg_from := Some \<lparr>displayname = None, from_url = Some example_url, gen_params = []\<rparr>,
     msg_call_id := Some \<lparr>call_id_number = Some ''abc'', call_id_host = None\<rparr>\<rparr>"

definition example_state :: exosip_auth where
  "example_state = \<lparr>authinfos = [\<lparr>ja_username = ''Mufasa'', ja_userid = ''Mufasa'', ja_passwd = ''Circle Of Life'', ja_ha1 = [], ja_realm = []\<rparr>],
     http_auths = [\<lparr>pszCallId = ''abc'', ha_wa = Some example_challenge, ha_pszCNonce = ''0a4f113b'', iNonceCount = 1\<rparr>, free_http_auth]\<rparr>"


end
