(* ===== verification/Spec2Isabelle.thy ===== *)
theory Spec2Isabelle
  imports Phone Sip_Engine Sound_Resample Osip_Matching Osip_Timing Osip_List Osip_Uri_Roundtrip Osip_Headers_Roundtrip Osip_Sdp_Roundtrip Exosip_Auth_Correct
begin

text \<open>
  Verification of the Furikup SIP phone: root of the development. It imports every theory and holds
  this description.

  The program. Furikup is a SIP telephone for a hand-held console. \<open>SIPTextGUI\<close> draws a text interface
  and reads the buttons; \<open>SIPEngine\<close> registers with a server, makes and answers calls, and moves
  audio and video; the bundled libraries below it are \<open>libosip2\<close> (SIP transactions and messages),
  \<open>libeXosip2\<close> (calls, registrations and subscriptions over transactions) and \<open>ortp\<close> (media
  packets). The interface and the engine talk through two callbacks with numbered events
  (\<open>sipengineif.h\<close>); the engine calls \<open>libeXosip2\<close> and \<open>ortp\<close>, \<open>libeXosip2\<close> drives \<open>libosip2\<close>.

  How it is modelled. A C struct is a record, an enum a datatype, a pointer an option (or an offset
  into a string, or an address in an explicit store where nodes are shared). An operation is a
  function of the state that returns the new state and the trace of what it asked of its
  surroundings (callbacks, sent messages, freed messages, media sessions), in order. Undefined
  behaviour of C is a value: a result is \<open>Inl fault\<close> (overflow of a signed integer, access out of
  bounds, overflow of a block, null pointer, uninitialised read) or \<open>Inr\<close> the result, so that
  "does not fault" is a theorem and not an assumption. Results of the operating system, the devices
  and libraries that are not modelled are arguments. Strings are lists of characters without the
  terminating NUL. Machine integers are \<open>int\<close> with explicit ranges, or words where bits matter.

  The theories and the code.

  \<^item> \<open>Furikup_Prelude\<close>: faults, the result monad (\<open>bindR\<close>, \<open>ensures\<close>), C strings and line input.
  \<^item> \<open>Sip_If\<close> (sipengineif.h): the events between engine and interface. \<open>Config\<close> (config.c,
    config_file.c), \<open>Addressbook\<close> (addressbook.c), \<open>Presence\<close> (presence.c), \<open>Local_Sdp\<close> (codec.c):
    settings, contacts, presence documents and session descriptions, with round trips of the two
    file formats and of the documents, and the bounds of every fixed array.
  \<^item> \<open>Audio\<close> (audio.c), \<open>Video\<close> (video.c), \<open>Sound_Conv\<close> (sound_conv.c), \<open>Fir_Algs\<close> (FirAlgs.c),
    \<open>Sound_Resample\<close> (sound_resample.c): media sessions, G.711, filters. Error bounds of both
    compandings over all samples; equality of six filter algorithms in exact arithmetic.
  \<^item> \<open>Call_Api\<close> and \<open>Call_Correct\<close> (call_api.c), \<open>Sip_Engine\<close> (sipengine.c): the call thread. Its parts
    keep an invariant (a locale); an abstract call machine that every round refines, the media sessions that
    belong to each state, the lock, shutting down.
  \<^item> \<open>Text_Gui\<close> (text_gui.c) and \<open>Phone\<close>: the interface, and both together.
  \<^item> \<open>Osip_Message\<close>, \<open>Osip_Transaction\<close>, \<open>Osip_Fsm\<close> (osip_message.h, osip_time.c, osip_event.c,
    port_fifo.c, fsm_misc.c, parts of osip.c and osip_transaction.c): messages as transactions see
    them, time, queues, the transaction record and the dispatch through a table.
  \<^item> \<open>Osip_Ict\<close>, \<open>Osip_Ist\<close>, \<open>Osip_Nict\<close>, \<open>Osip_Nist\<close> (ict.c, ict_fsm.c and so on): the four state
    machines, handler by handler, with both builds of their tables. \<open>Osip_Spec\<close> is the abstract
    machine of RFC 3261 and the promises of a step; \<open>Osip_Ict_Correct\<close> and its three siblings prove
    them per handler, \<open>Osip_Correct\<close> for a step, a run and a queue. \<open>Osip_Frame\<close> is a logic of
    what handlers leave alone.
  \<^item> \<open>Osip_Execute\<close>, \<open>Osip_Stack\<close> (osip_transaction.c, osip.c): matching, the lists of transactions,
    executing queues, timers and the wait. \<open>Osip_Stack_Correct\<close>: invariant and termination;
    \<open>Osip_Matching\<close>: which transaction takes a message; \<open>Osip_Timing\<close>: no timer is slept through,
    unanswered invitations end. \<open>Osip_Dialog\<close> (osip_dialog.c), \<open>Osip_List\<close> (osip_list.c).
  \<^item> \<open>Osip_Strings\<close>, \<open>Osip_Uri\<close> (osip_port.c, osip_uri.c): strings as offsets into a text, copies into
    blocks of a given size, reading and printing addresses. \<open>Osip_Uri_Correct\<close>: without a fault on
    any text; \<open>Osip_Uri_Roundtrip\<close>: what is printed is read back.

  Bounds and relations instead of fuel. Loops that end are recursive functions with a measure; no
  definition takes fuel. A queue of events holds at most 1000 (the source's \<open>MAX_LEN\<close>). The engine's
  thread and the life of a transaction do not end by themselves: they are inductive relations of
  reachable states, and theorems about them are invariants, or bounded liveness where the source
  sets a bound.

  Not modelled. Threads run their steps one after the other: semaphores, condition variables and
  preemption inside a step are left out, but the balance of the engine's lock is not. Memory is
  taken to be available. The hash tables of libosip2 and its DNS records are build options that are
  off. Of the parser, the headers and the message grammar are left out, and so are libeXosip2 and
  ortp: the modelled code takes their results as arguments. Wrappers of system calls have nothing
  to prove.
\<close>

end
